(* ===== verification/Prelude.thy ===== *)
theory Prelude
  imports Complex_Main "HOL-Library.Sublist" "HOL-Library.Char_ord" "HOL-Library.List_Lexorder"
begin

text \<open>
  Shared vocabulary of the development: the exceptions the Python code raises, results as
  sums, the JSON-like values that cross the wire, floats as exact rationals with the three
  special values, the string functions of the standard library the sources call, reachable
  states of a step relation with the invariant rule as a locale, and generic list lemmas.
\<close>

section \<open>Errors and results\<close>

text \<open>
  A protocol failure is \<open>FaspError code\<close> (\<^verbatim>\<open>src/fasp_harness/protocol/errors.py\<close>); the
  human-readable detail string is not modelled. The other constructors are the exceptions
  of the Python runtime that the modelled code lets escape.
\<close>

datatype exn =
    FaspError string
  | ValueError
  | IndexError
  | KeyError
  | TypeError
  | StructError
  | ZeroDivisionError
  | OtherException

type_synonym 'a result = "exn + 'a"

definition AdmissionRejected :: exn where
  "AdmissionRejected = FaspError ''resource.exhausted''"

definition LayerViolation :: exn where
  "LayerViolation = FaspError ''policy.layer_violation''"

definition LeaseLost :: exn where
  "LeaseLost = FaspError ''lease.expired''"

definition bind_result :: "'a result \<Rightarrow> ('a \<Rightarrow> 'b result) \<Rightarrow> 'b result" where
  "bind_result r f = (case r of Inl e \<Rightarrow> Inl e | Inr x \<Rightarrow> f x)"

definition guard_else :: "bool \<Rightarrow> exn \<Rightarrow> unit result" where
  "guard_else b e = (if b then Inr () else Inl e)"

fun map_result :: "('a \<Rightarrow> 'b result) \<Rightarrow> 'a list \<Rightarrow> 'b list result" where
  "map_result f [] = Inr []"
| "map_result f (x # xs) =
     (case f x of Inl e \<Rightarrow> Inl e
      | Inr y \<Rightarrow> (case map_result f xs of Inl e \<Rightarrow> Inl e | Inr ys \<Rightarrow> Inr (y # ys)))"

definition is_ok :: "'a result \<Rightarrow> bool" where
  "is_ok r = (case r of Inl _ \<Rightarrow> False | Inr _ \<Rightarrow> True)"

named_theorems result_simps \<open>rules that run the result type\<close>

lemma bind_result_simps [simp, result_simps]:
  "bind_result (Inl e) f = Inl e"
  "bind_result (Inr x) f = f x"
  by (simp_all add: bind_result_def)

lemma bind_result_Inr_iff:
  "bind_result r f = Inr y \<longleftrightarrow> (\<exists>x. r = Inr x \<and> f x = Inr y)"
  by (cases r) auto

lemma bind_result_InrE:
  assumes "bind_result r f = Inr y"
  obtains x where "r = Inr x" and "f x = Inr y"
  using assms by (auto simp: bind_result_Inr_iff)

lemma guard_else_Inr [simp, result_simps]: "guard_else b e = Inr u \<longleftrightarrow> b"
  by (simp add: guard_else_def)

lemma guard_else_simps [simp, result_simps]:
  "guard_else True e = Inr ()"
  "guard_else False e = Inl e"
  by (simp_all add: guard_else_def)

lemma is_ok_simps [simp, result_simps]: "is_ok (Inl e) = False" "is_ok (Inr x) = True"
  by (simp_all add: is_ok_def)

lemma is_ok_iff: "is_ok r \<longleftrightarrow> (\<exists>x. r = Inr x)"
  by (cases r) auto

lemma map_result_Inr_iff:
  "map_result f xs = Inr ys \<longleftrightarrow> list_all2 (\<lambda>x y. f x = Inr y) xs ys"
proof (induction xs arbitrary: ys)
  case Nil
  show ?case by auto
next
  case (Cons x xs)
  then show ?case
    by (cases ys; cases "f x"; cases "map_result f xs") auto
qed

section \<open>Values\<close>

text \<open>
  A Python float is an exact rational or one of the three special values; rounding is not
  modelled. Comparisons with a not-a-number are false, as in IEEE 754.
\<close>

datatype pyfloat = Fin rat | PInf | NInf | NaN

fun isfinite :: "pyfloat \<Rightarrow> bool" where
  "isfinite (Fin _) = True"
| "isfinite _ = False"

fun fl_less :: "pyfloat \<Rightarrow> pyfloat \<Rightarrow> bool" where
  "fl_less (Fin a) (Fin b) = (a < b)"
| "fl_less NInf (Fin _) = True"
| "fl_less NInf PInf = True"
| "fl_less (Fin _) PInf = True"
| "fl_less _ _ = False"

fun fl_leq :: "pyfloat \<Rightarrow> pyfloat \<Rightarrow> bool" where
  "fl_leq (Fin a) (Fin b) = (a \<le> b)"
| "fl_leq NInf NInf = True"
| "fl_leq NInf (Fin _) = True"
| "fl_leq NInf PInf = True"
| "fl_leq (Fin _) PInf = True"
| "fl_leq PInf PInf = True"
| "fl_leq _ _ = False"

text \<open>\<^verbatim>\<open>int(x)\<close> of a finite float truncates towards zero.\<close>

definition py_trunc :: "rat \<Rightarrow> int" where
  "py_trunc x = (if 0 \<le> x then \<lfloor>x\<rfloor> else \<lceil>x\<rceil>)"

text \<open>\<^verbatim>\<open>round(x)\<close> of a float to an integer rounds half to even.\<close>

definition py_round :: "rat \<Rightarrow> int" where
  "py_round x =
     (let f = \<lfloor>x\<rfloor>; d = x - of_int f
      in if d < 1/2 then f else if 1/2 < d then f + 1 else if even f then f else f + 1)"

text \<open>
  Decoded JSON. An object is an association list (\<^verbatim>\<open>dict\<close> keeps insertion order and its keys
  are unique; the first entry of a key is the one that counts).
\<close>

datatype json =
    JNull
  | JBool bool
  | JInt int
  | JFloat pyfloat
  | JStr string
  | JList "json list"
  | JObj "(string \<times> json) list"

text \<open>\<^verbatim>\<open>isinstance(v, int)\<close>: a Python \<^verbatim>\<open>bool\<close> is an \<^verbatim>\<open>int\<close>.\<close>

fun as_int :: "json \<Rightarrow> int option" where
  "as_int (JInt i) = Some i"
| "as_int (JBool b) = Some (if b then 1 else 0)"
| "as_int _ = None"

text \<open>\<^verbatim>\<open>isinstance(v, (int, float))\<close>, as the float it denotes.\<close>

fun as_number :: "json \<Rightarrow> pyfloat option" where
  "as_number (JInt i) = Some (Fin (of_int i))"
| "as_number (JBool b) = Some (Fin (if b then 1 else 0))"
| "as_number (JFloat f) = Some f"
| "as_number _ = None"

fun as_str :: "json \<Rightarrow> string option" where
  "as_str (JStr s) = Some s"
| "as_str _ = None"

text \<open>Truth value of an object, as \<^verbatim>\<open>bool(v)\<close> and \<^verbatim>\<open>v or w\<close> read it.\<close>

fun truthy :: "json \<Rightarrow> bool" where
  "truthy JNull = False"
| "truthy (JBool b) = b"
| "truthy (JInt i) = (i \<noteq> 0)"
| "truthy (JFloat f) = (f \<noteq> Fin 0)"
| "truthy (JStr s) = (s \<noteq> [])"
| "truthy (JList xs) = (xs \<noteq> [])"
| "truthy (JObj kvs) = (kvs \<noteq> [])"

text \<open>
  Equality of decoded values, \<^verbatim>\<open>v == w\<close>: numbers compare by value across \<^verbatim>\<open>bool\<close>, \<^verbatim>\<open>int\<close> and
  \<^verbatim>\<open>float\<close>, a not-a-number equals nothing, and objects compare as maps.
\<close>

definition fl_eq :: "pyfloat \<Rightarrow> pyfloat \<Rightarrow> bool" where
  "fl_eq a b = (a = b \<and> a \<noteq> NaN)"

fun py_eq :: "json \<Rightarrow> json \<Rightarrow> bool" where
  "py_eq JNull w = (w = JNull)"
| "py_eq (JStr s) w = (w = JStr s)"
| "py_eq (JList []) w = (w = JList [])"
| "py_eq (JList (x # xs)) w =
     (case w of JList (y # ys) \<Rightarrow> py_eq x y \<and> py_eq (JList xs) (JList ys) | _ \<Rightarrow> False)"
| "py_eq (JObj kvs) w =
     (case w of
        JObj kws \<Rightarrow>
          set (map fst kvs) = set (map fst kws) \<and>
          list_all (\<lambda>kv. case map_of kws (fst kv) of None \<Rightarrow> False | Some y \<Rightarrow> py_eq (snd kv) y) kvs
      | _ \<Rightarrow> False)"
| "py_eq (JBool b) w = (case as_number w of Some g \<Rightarrow> fl_eq (Fin (if b then 1 else 0)) g | None \<Rightarrow> False)"
| "py_eq (JInt i) w = (case as_number w of Some g \<Rightarrow> fl_eq (Fin (of_int i)) g | None \<Rightarrow> False)"
| "py_eq (JFloat f) w = (case as_number w of Some g \<Rightarrow> fl_eq f g | None \<Rightarrow> False)"

text \<open>
  An instant, in milliseconds since the epoch. The timestamps the code stores are written by
  \<^verbatim>\<open>stamp()\<close> (\<^verbatim>\<open>src/fasp_harness/timestamps.py\<close>) with millisecond precision in one fixed-width UTC
  format, so comparing them as text and comparing the instants agree.
\<close>

type_synonym timestamp = int

text \<open>
  Conversions of the standard library the sources call on arbitrary values: \<^verbatim>\<open>float()\<close> and \<^verbatim>\<open>int()\<close> of
  a string (\<open>None\<close> when they raise) and \<^verbatim>\<open>str()\<close> of a number, list or object. They are a parameter of
  the definitions that use them.
\<close>

record py_parse =
  pp_float :: "string \<Rightarrow> pyfloat option"
  pp_int :: "string \<Rightarrow> int option"
  pp_str :: "json \<Rightarrow> string"

definition to_float :: "py_parse \<Rightarrow> json \<Rightarrow> pyfloat result" where
  "to_float fs v =
     (case as_number v of
        Some f \<Rightarrow> Inr f
      | None \<Rightarrow> (case v of JStr s \<Rightarrow> (case pp_float fs s of Some f \<Rightarrow> Inr f | None \<Rightarrow> Inl ValueError) | _ \<Rightarrow> Inl TypeError))"

fun to_str :: "py_parse \<Rightarrow> json \<Rightarrow> string" where
  "to_str fs JNull = ''None''"
| "to_str fs (JBool b) = (if b then ''True'' else ''False'')"
| "to_str fs (JStr s) = s"
| "to_str fs v = pp_str fs v"

text \<open>\<^verbatim>\<open>obj.get(key)\<close> of a decoded object: a missing key reads as \<^verbatim>\<open>None\<close>.\<close>

definition get_or_null :: "(string \<times> json) list \<Rightarrow> string \<Rightarrow> json" where
  "get_or_null kvs k = (case map_of kvs k of None \<Rightarrow> JNull | Some v \<Rightarrow> v)"

text \<open>\<^verbatim>\<open>base.update(patch)\<close>: a patched key keeps its place, a new one goes to the end.\<close>

fun dict_put :: "string \<Rightarrow> json \<Rightarrow> (string \<times> json) list \<Rightarrow> (string \<times> json) list" where
  "dict_put k v [] = [(k, v)]"
| "dict_put k v ((k', v') # kvs) = (if k' = k then (k, v) # kvs else (k', v') # dict_put k v kvs)"

definition dict_update :: "(string \<times> json) list \<Rightarrow> (string \<times> json) list \<Rightarrow> (string \<times> json) list" where
  "dict_update base patch = fold (\<lambda>(k, v) kvs. dict_put k v kvs) patch base"

lemma dict_put_lookup [simp]: "map_of (dict_put k v kvs) j = (if j = k then Some v else map_of kvs j)"
  by (induction kvs) auto

lemma dict_put_others [simp]: "filter (\<lambda>kv. fst kv \<noteq> k) (dict_put k v kvs) = filter (\<lambda>kv. fst kv \<noteq> k) kvs"
  by (induction kvs) auto

section \<open>Strings\<close>

text \<open>
  Strings are lists of characters; code points beyond the first 256 are not represented, and
  case mapping and white space are those of the ASCII range.
\<close>

definition py_space :: "char \<Rightarrow> bool" where
  "py_space c = (let n = (of_char c :: nat) in (9 \<le> n \<and> n \<le> 13) \<or> (28 \<le> n \<and> n \<le> 32))"

definition py_strip :: "string \<Rightarrow> string" where
  "py_strip s = rev (dropWhile py_space (rev (dropWhile py_space s)))"

definition upper_char :: "char \<Rightarrow> char" where
  "upper_char c = (let n = (of_char c :: nat) in if 97 \<le> n \<and> n \<le> 122 then char_of (n - 32) else c)"

definition lower_char :: "char \<Rightarrow> char" where
  "lower_char c = (let n = (of_char c :: nat) in if 65 \<le> n \<and> n \<le> 90 then char_of (n + 32) else c)"

definition py_upper :: "string \<Rightarrow> string" where
  "py_upper s = map upper_char s"

definition py_lower :: "string \<Rightarrow> string" where
  "py_lower s = map lower_char s"

definition py_replace_char :: "char \<Rightarrow> char \<Rightarrow> string \<Rightarrow> string" where
  "py_replace_char a b s = map (\<lambda>c. if c = a then b else c) s"

text \<open>\<^verbatim>\<open>s.split(sep)\<close> for a one-character separator: never empty.\<close>

fun py_split :: "char \<Rightarrow> string \<Rightarrow> string list" where
  "py_split sep [] = [[]]"
| "py_split sep (c # cs) =
     (if c = sep then [] # py_split sep cs
      else (case py_split sep cs of [] \<Rightarrow> [[c]] | p # ps \<Rightarrow> (c # p) # ps))"

fun py_join :: "char \<Rightarrow> string list \<Rightarrow> string" where
  "py_join sep [] = []"
| "py_join sep [p] = p"
| "py_join sep (p # ps) = p @ sep # py_join sep ps"

lemma py_split_not_Nil [simp]: "py_split sep s \<noteq> []"
  by (cases s) (auto split: list.splits)

lemma py_join_Cons: "ps \<noteq> [] \<Longrightarrow> py_join sep (p # ps) = p @ sep # py_join sep ps"
  by (cases ps) auto

lemma py_join_split [simp]: "py_join sep (py_split sep s) = s"
proof (induction s)
  case Nil
  show ?case by simp
next
  case (Cons c cs)
  obtain p ps where eq: "py_split sep cs = p # ps"
    by (cases "py_split sep cs") auto
  have "py_join sep ((c # p) # ps) = c # py_join sep (p # ps)"
    by (cases ps) auto
  with Cons eq show ?case
    by (auto simp: py_join_Cons)
qed

lemma py_split_no_sep: "p \<in> set (py_split sep s) \<Longrightarrow> sep \<notin> set p"
proof (induction s arbitrary: p)
  case Nil
  then show ?case by simp
next
  case (Cons c cs)
  then show ?case by (cases "py_split sep cs") (auto split: if_splits)
qed

lemma py_split_append_sep:
  "py_split sep (a @ sep # b) = py_split sep a @ py_split sep b"
proof (induction a)
  case Nil
  show ?case by simp
next
  case (Cons c cs)
  then show ?case by (cases "py_split sep cs") auto
qed

lemma py_split_no_sep_id: "sep \<notin> set p \<Longrightarrow> py_split sep p = [p]"
  by (induction p) auto

lemma py_split_join:
  "ps \<noteq> [] \<Longrightarrow> \<forall>p \<in> set ps. sep \<notin> set p \<Longrightarrow> py_split sep (py_join sep ps) = ps"
proof (induction ps)
  case Nil
  then show ?case by simp
next
  case (Cons p ps)
  then show ?case
    by (cases "ps = []") (auto simp: py_join_Cons py_split_append_sep py_split_no_sep_id)
qed

section \<open>Reachable states\<close>

text \<open>
  The states a component can be in: an initial state, or a step from such a state. Every
  component with a step relation interprets the locale below on it, which gives the
  invariant rule once for all of them.
\<close>

inductive reachable :: "('s \<Rightarrow> bool) \<Rightarrow> ('s \<Rightarrow> 's \<Rightarrow> bool) \<Rightarrow> 's \<Rightarrow> bool"
  for init step where
  reachable_init: "init s \<Longrightarrow> reachable init step s"
| reachable_step: "reachable init step s \<Longrightarrow> step s t \<Longrightarrow> reachable init step t"

locale invariant_system =
  fixes sys_init :: "'s \<Rightarrow> bool"
    and sys_step :: "'s \<Rightarrow> 's \<Rightarrow> bool"
    and sys_inv :: "'s \<Rightarrow> bool"
  assumes init_inv: "sys_init s \<Longrightarrow> sys_inv s"
    and step_inv: "sys_inv s \<Longrightarrow> sys_step s t \<Longrightarrow> sys_inv t"
begin

lemma reachable_inv: "reachable sys_init sys_step s \<Longrightarrow> sys_inv s"
  by (induction rule: reachable.induct) (blast intro: init_inv step_inv)+

lemma steps_inv: "sys_step\<^sup>*\<^sup>* s t \<Longrightarrow> sys_inv s \<Longrightarrow> sys_inv t"
  by (induction rule: rtranclp_induct) (blast intro: step_inv)+

end

section \<open>Lists\<close>

text \<open>Counting the entries of a table that satisfy a condition (\<^verbatim>\<open>SELECT COUNT\<close>).\<close>

definition count_where :: "('a \<Rightarrow> bool) \<Rightarrow> 'a list \<Rightarrow> nat" where
  "count_where p xs = length (filter p xs)"

text \<open>Updating the rows of a table that satisfy a condition (\<^verbatim>\<open>UPDATE ... WHERE\<close>).\<close>

definition update_where :: "('a \<Rightarrow> bool) \<Rightarrow> ('a \<Rightarrow> 'a) \<Rightarrow> 'a list \<Rightarrow> 'a list" where
  "update_where p f xs = map (\<lambda>x. if p x then f x else x) xs"

lemma count_where_simps [simp]:
  "count_where p [] = 0"
  "count_where p (x # xs) = (if p x then Suc (count_where p xs) else count_where p xs)"
  "count_where p (xs @ ys) = count_where p xs + count_where p ys"
  by (simp_all add: count_where_def)

lemma count_where_mono: "(\<And>x. x \<in> set xs \<Longrightarrow> p x \<Longrightarrow> q x) \<Longrightarrow> count_where p xs \<le> count_where q xs"
  by (induction xs) auto

lemma count_where_cong:
  "(\<And>x. x \<in> set xs \<Longrightarrow> p x = q x) \<Longrightarrow> count_where p xs = count_where q xs"
  by (induction xs) auto

lemma count_where_0_iff: "count_where p xs = 0 \<longleftrightarrow> (\<forall>x \<in> set xs. \<not> p x)"
  by (induction xs) auto

lemma count_where_pos: "x \<in> set xs \<Longrightarrow> p x \<Longrightarrow> 0 < count_where p xs"
  using count_where_0_iff [of p xs] by fastforce

lemma count_where_map: "count_where p (map f xs) = count_where (\<lambda>x. p (f x)) xs"
  by (induction xs) auto

lemma update_where_simps [simp]:
  "update_where p f [] = []"
  "update_where p f (x # xs) = (if p x then f x else x) # update_where p f xs"
  "update_where p f (xs @ ys) = update_where p f xs @ update_where p f ys"
  by (simp_all add: update_where_def)

lemma set_update_where: "set (update_where p f xs) = (\<lambda>x. if p x then f x else x) ` set xs"
  by (simp add: update_where_def)

lemma length_update_where [simp]: "length (update_where p f xs) = length xs"
  by (simp add: update_where_def)

lemma map_update_where:
  "(\<And>x. p x \<Longrightarrow> g (f x) = g x) \<Longrightarrow> map g (update_where p f xs) = map g xs"
  by (simp add: update_where_def)

lemma image_update_where:
  "(\<And>x. p x \<Longrightarrow> g (f x) = g x) \<Longrightarrow> g ` set (update_where p f xs) = g ` set xs"
  using map_update_where [of p g f xs] by (metis list.set_map)

lemma count_update_where:
  "count_where q (update_where p f xs) = count_where (\<lambda>x. q (if p x then f x else x)) xs"
  by (simp add: update_where_def count_where_map)

text \<open>Looking a row up by its primary key.\<close>

lemma find_Some_mem: "find p xs = Some x \<Longrightarrow> x \<in> set xs \<and> p x"
  by (induction xs) (auto split: if_splits)

lemma find_None_all: "find p xs = None \<longleftrightarrow> (\<forall>x \<in> set xs. \<not> p x)"
  by (induction xs) auto

lemma find_append: "find p (xs @ ys) = (case find p xs of Some x \<Rightarrow> Some x | None \<Rightarrow> find p ys)"
  by (induction xs) auto

lemma find_distinct_key:
  "distinct (map k xs) \<Longrightarrow> x \<in> set xs \<Longrightarrow> find (\<lambda>y. k y = k x) xs = Some x"
  by (induction xs) force+

end
