(* ===== verification/Layers.thy ===== *)
theory Layers
  imports Prelude
begin

text \<open>
  The layer model of \<^verbatim>\<open>src/fasp_harness/layers.py\<close>: layers, interactions, the permitted-interaction
  table, the deny list of reserved Layer 1 functions with the regular-expression matching it
  rests on, capability declarations and their parsing, and \<open>LayerGuard\<close>. The properties
  say what a capability that passes the guard may do, that an adapter is accepted exactly when
  all its capabilities are, and how far the deny list reaches.
\<close>

section \<open>Layers and interactions\<close>

datatype Layer = L1_SAFETY | L2_AUTONOMY | L3_FLEET | L4_ENTERPRISE

fun layer_value :: "Layer \<Rightarrow> int" where
  "layer_value L1_SAFETY = 1"
| "layer_value L2_AUTONOMY = 2"
| "layer_value L3_FLEET = 3"
| "layer_value L4_ENTERPRISE = 4"

fun layer_name :: "Layer \<Rightarrow> string" where
  "layer_name L1_SAFETY = ''L1_SAFETY''"
| "layer_name L2_AUTONOMY = ''L2_AUTONOMY''"
| "layer_name L3_FLEET = ''L3_FLEET''"
| "layer_name L4_ENTERPRISE = ''L4_ENTERPRISE''"

fun layer_title :: "Layer \<Rightarrow> string" where
  "layer_title L1_SAFETY = ''hard real-time local safety''"
| "layer_title L2_AUTONOMY = ''local autonomy''"
| "layer_title L3_FLEET = ''fleet coordination''"
| "layer_title L4_ENTERPRISE = ''enterprise/cloud coordination''"

datatype Interaction = OBSERVE | REQUEST_HALT | COORDINATE | DISPATCH | CONFIGURE | ACTUATE

fun interaction_value :: "Interaction \<Rightarrow> int" where
  "interaction_value OBSERVE = 1"
| "interaction_value REQUEST_HALT = 2"
| "interaction_value COORDINATE = 3"
| "interaction_value DISPATCH = 4"
| "interaction_value CONFIGURE = 5"
| "interaction_value ACTUATE = 6"

fun interaction_name :: "Interaction \<Rightarrow> string" where
  "interaction_name OBSERVE = ''OBSERVE''"
| "interaction_name REQUEST_HALT = ''REQUEST_HALT''"
| "interaction_name COORDINATE = ''COORDINATE''"
| "interaction_name DISPATCH = ''DISPATCH''"
| "interaction_name CONFIGURE = ''CONFIGURE''"
| "interaction_name ACTUATE = ''ACTUATE''"

definition all_layers :: "Layer list" where
  "all_layers = [L1_SAFETY, L2_AUTONOMY, L3_FLEET, L4_ENTERPRISE]"

definition all_interactions :: "Interaction list" where
  "all_interactions = [OBSERVE, REQUEST_HALT, COORDINATE, DISPATCH, CONFIGURE, ACTUATE]"

text \<open>
  A value in an adapter's capability mapping: a member of one of the two enumerations, or a
  plain value. Both enumerations are \<^verbatim>\<open>IntEnum\<close>, so their members are also integers.
\<close>

datatype attr = ALayer Layer | AInteraction Interaction | AVal json

definition layer_of_int :: "int \<Rightarrow> Layer option" where
  "layer_of_int n = find (\<lambda>l. layer_value l = n) all_layers"

definition layer_spellings :: "Layer \<Rightarrow> string list" where
  "layer_spellings l =
     [layer_name l, hd (py_split CHR ''_'' (layer_name l)),
      (case l of L1_SAFETY \<Rightarrow> ''1'' | L2_AUTONOMY \<Rightarrow> ''2'' | L3_FLEET \<Rightarrow> ''3'' | L4_ENTERPRISE \<Rightarrow> ''4'')]"

definition layer_of_text :: "string \<Rightarrow> Layer result" where
  "layer_of_text value =
     (let text = py_replace_char CHR ''-'' CHR ''_'' (py_upper (py_strip value))
      in case find (\<lambda>l. text \<in> set (layer_spellings l)) all_layers of
           Some l \<Rightarrow> Inr l
         | None \<Rightarrow> Inl (FaspError ''schema.invalid''))"

definition layer_of_number :: "int \<Rightarrow> Layer result" where
  "layer_of_number n =
     (case layer_of_int n of Some l \<Rightarrow> Inr l | None \<Rightarrow> Inl (FaspError ''schema.invalid''))"

fun layer_parse :: "attr \<Rightarrow> Layer result" where
  "layer_parse (ALayer l) = Inr l"
| "layer_parse (AInteraction i) = layer_of_number (interaction_value i)"
| "layer_parse (AVal (JInt n)) = layer_of_number n"
| "layer_parse (AVal (JBool b)) = layer_of_number (if b then 1 else 0)"
| "layer_parse (AVal (JStr s)) = layer_of_text s"
| "layer_parse (AVal _) = Inl (FaspError ''schema.invalid'')"

definition interaction_of_text :: "string \<Rightarrow> Interaction result" where
  "interaction_of_text value =
     (let text = py_replace_char CHR ''.'' CHR ''_''
                   (py_replace_char CHR ''-'' CHR ''_'' (py_upper (py_strip value)))
      in case find (\<lambda>i. interaction_name i = text) all_interactions of
           Some i \<Rightarrow> Inr i
         | None \<Rightarrow> Inl (FaspError ''schema.invalid''))"

fun parse_interaction :: "attr option \<Rightarrow> Interaction result" where
  "parse_interaction None = Inr OBSERVE"
| "parse_interaction (Some (AVal JNull)) = Inr OBSERVE"
| "parse_interaction (Some (AInteraction i)) = Inr i"
| "parse_interaction (Some (AVal (JStr s))) = interaction_of_text s"
| "parse_interaction (Some _) = Inl (FaspError ''schema.invalid'')"

fun PERMITTED_INTERACTIONS :: "Layer \<Rightarrow> Interaction set" where
  "PERMITTED_INTERACTIONS L1_SAFETY = {OBSERVE}"
| "PERMITTED_INTERACTIONS L2_AUTONOMY = {OBSERVE, REQUEST_HALT, COORDINATE, DISPATCH}"
| "PERMITTED_INTERACTIONS L3_FLEET = {OBSERVE, REQUEST_HALT, COORDINATE, DISPATCH, CONFIGURE}"
| "PERMITTED_INTERACTIONS L4_ENTERPRISE = {OBSERVE, REQUEST_HALT, COORDINATE, DISPATCH, CONFIGURE}"

definition FASP_LAYERS :: "Layer set" where
  "FASP_LAYERS = {L3_FLEET, L4_ENTERPRISE}"

section \<open>Regular expressions of the deny list\<close>

text \<open>
  The deny list uses literals, character classes, alternatives and optional parts, matched
  without regard to case. \<open>rx_match r s\<close> lists what is left of \<open>s\<close> after each way
  \<open>r\<close> can match a prefix of it.
\<close>

datatype rx = Lit string | OneOf string | Opt rx | Alt rx rx | Cat rx rx

fun strip_prefix_ci :: "string \<Rightarrow> string \<Rightarrow> string option" where
  "strip_prefix_ci [] s = Some s"
| "strip_prefix_ci (p # ps) [] = None"
| "strip_prefix_ci (p # ps) (c # s) =
     (if lower_char p = lower_char c then strip_prefix_ci ps s else None)"

definition in_class :: "string \<Rightarrow> char \<Rightarrow> bool" where
  "in_class cs c = (lower_char c \<in> set (map lower_char cs))"

fun rx_match :: "rx \<Rightarrow> string \<Rightarrow> string list" where
  "rx_match (Lit p) s = (case strip_prefix_ci p s of None \<Rightarrow> [] | Some t \<Rightarrow> [t])"
| "rx_match (OneOf cs) s = (case s of [] \<Rightarrow> [] | c # t \<Rightarrow> if in_class cs c then [t] else [])"
| "rx_match (Opt r) s = rx_match r s @ [s]"
| "rx_match (Alt r1 r2) s = rx_match r1 s @ rx_match r2 s"
| "rx_match (Cat r1 r2) s = concat (map (rx_match r2) (rx_match r1 s))"

fun rx_words :: "string list \<Rightarrow> rx" where
  "rx_words [] = OneOf []"
| "rx_words [w] = Lit w"
| "rx_words (w # ws) = Alt (Lit w) (rx_words ws)"

definition rx_sep :: rx where
  "rx_sep = OneOf ''._''"

definition boundary :: "char \<Rightarrow> bool" where
  "boundary c = in_class ''._-'' c"

text \<open>
  \<^verbatim>\<open>(?:$|[._-])\<close> after the pattern: the dollar sign also matches before a final newline.
\<close>

definition ends_ok :: "string \<Rightarrow> bool" where
  "ends_ok t = (case t of [] \<Rightarrow> True | c # u \<Rightarrow> boundary c \<or> (c = CHR 0x0A \<and> u = []))"

definition match_here :: "rx \<Rightarrow> string \<Rightarrow> bool" where
  "match_here r s = list_ex ends_ok (rx_match r s)"

text \<open>
  \<^verbatim>\<open>re.search\<close> of \<^verbatim>\<open>(?:^|[._-])pattern(?:$|[._-])\<close>: at the start, or after a boundary
  character anywhere.
\<close>

fun search_rest :: "rx \<Rightarrow> string \<Rightarrow> bool" where
  "search_rest r [] = False"
| "search_rest r (c # s) = ((boundary c \<and> match_here r s) \<or> search_rest r s)"

definition rx_search :: "rx \<Rightarrow> string \<Rightarrow> bool" where
  "rx_search r s = (match_here r s \<or> search_rest r s)"

definition RESERVED_L1_FUNCTIONS :: "(rx \<times> string) list" where
  "RESERVED_L1_FUNCTIONS =
    [(Cat (Lit ''estop.'') (rx_words [''clear'', ''reset'', ''release'', ''override'', ''bypass'', ''mute'', ''inhibit'']),
      ''Clearing or bypassing an emergency stop is local, physical, certified work.''),
     (Cat (rx_words [''safety'', ''protective'']) (Cat rx_sep
        (Cat (rx_words [''zone'', ''field'', ''scanner'', ''laser'', ''curtain'', ''mat'']) (Cat rx_sep
          (rx_words [''mute'', ''bypass'', ''disable'', ''override'', ''clear'', ''shrink''])))),
      ''Muting or shrinking a safety-rated protective field is a Layer 1 safety function.''),
     (Cat (rx_words [''speed'', ''force'', ''torque'', ''power'']) (Cat (Opt rx_sep) (Cat (Lit ''limit'') (Cat rx_sep
        (rx_words [''override'', ''disable'', ''raise'', ''bypass'', ''increase''])))),
      ''Speed/force limiting is a Layer 1 safety function.''),
     (Cat (rx_words [''motor'', ''servo'', ''drive'', ''actuator'', ''joint'', ''wheel'', ''axis'']) (Cat rx_sep
        (rx_words [''command'', ''setpoint'', ''velocity'', ''torque'', ''current'', ''enable'', ''energize'', ''jog'', ''move''])),
      ''Closing a motor/servo control loop is Layer 1.''),
     (Cat (Lit ''brake'') (Cat rx_sep (rx_words [''release'', ''disengage'', ''open''])),
      ''Brake release is a Layer 1 safety function.''),
     (Cat (Lit ''interlock'') (Cat rx_sep (rx_words [''bypass'', ''defeat'', ''disable'', ''override''])),
      ''Defeating an interlock is a Layer 1 safety function.''),
     (Cat (Lit ''watchdog'') (Cat rx_sep (rx_words [''disable'', ''extend'', ''defeat'', ''stop''])),
      ''Disabling a safety watchdog is a Layer 1 safety function.''),
     (Cat (Lit ''safe'') (Cat (Opt rx_sep)
        (Cat (Alt (Lit ''stop'') (Alt (Cat (Lit ''torque'') (Cat (Opt rx_sep) (Lit ''off'')))
               (rx_words [''sto'', ''ss1'', ''ss2''])))
          (Cat rx_sep (rx_words [''disable'', ''bypass'', ''override''])))),
      ''Defeating a safe-stop function is Layer 1.''),
     (Cat (rx_words [''firmware'', ''plc'']) (Cat rx_sep (rx_words [''flash'', ''program'', ''download'', ''write''])),
      ''Reprogramming a safety controller is out-of-band, authenticated, local engineering work.'')]"

definition reserved_reason :: "string \<Rightarrow> string option" where
  "reserved_reason capability_id =
     map_option snd (find (\<lambda>(pattern, reason). rx_search pattern capability_id) RESERVED_L1_FUNCTIONS)"

section \<open>Capability declarations\<close>

record CapabilityDeclaration =
  cd_id :: string
  cd_risk :: string
  cd_layer :: Layer
  cd_interaction :: Interaction
  cd_max_runtime_s :: pyfloat
  cd_declared :: bool

text \<open>
  \<open>str_of\<close> stands for \<^verbatim>\<open>str()\<close> on an object that is not a string. A capability item is a
  mapping (\<open>Some\<close>) or something else (\<open>None\<close>).
\<close>

definition attr_str :: "(attr \<Rightarrow> string) \<Rightarrow> attr \<Rightarrow> string" where
  "attr_str str_of a = (case a of AVal (JStr s) \<Rightarrow> s | _ \<Rightarrow> str_of a)"

definition attr_runtime :: "attr \<Rightarrow> pyfloat" where
  "attr_runtime a =
     (case a of
        ALayer l \<Rightarrow> Fin (of_int (layer_value l))
      | AInteraction i \<Rightarrow> Fin (of_int (interaction_value i))
      | AVal v \<Rightarrow> (case as_number v of
                     Some f \<Rightarrow> if fl_less (Fin 0) f then f else Fin 5
                   | None \<Rightarrow> Fin 5))"

definition capability_id_of :: "(string \<times> attr) list option \<Rightarrow> string option" where
  "capability_id_of item =
     (case item of None \<Rightarrow> None
      | Some kvs \<Rightarrow> (case map_of kvs ''id'' of
                      Some (AVal (JStr s)) \<Rightarrow> if s = [] then None else Some s
                    | _ \<Rightarrow> None))"

definition from_mapping :: "(attr \<Rightarrow> string) \<Rightarrow> (string \<times> attr) list option \<Rightarrow> CapabilityDeclaration result" where
  "from_mapping str_of item =
     (case capability_id_of item of
        None \<Rightarrow> Inl (FaspError ''schema.invalid'')
      | Some cid \<Rightarrow>
          (let m = map_of (the item) in
           bind_result (case m ''layer'' of Some v \<Rightarrow> layer_parse v | None \<Rightarrow> Inr L3_FLEET) (\<lambda>layer.
           bind_result (parse_interaction (m ''interaction'')) (\<lambda>interaction.
           Inr \<lparr>cd_id = cid,
                cd_risk = (case m ''risk'' of Some v \<Rightarrow> attr_str str_of v | None \<Rightarrow> ''observe''),
                cd_layer = layer,
                cd_interaction = interaction,
                cd_max_runtime_s = (case m ''max_runtime_s'' of Some v \<Rightarrow> attr_runtime v | None \<Rightarrow> Fin 5),
                cd_declared = (m ''layer'' \<noteq> None \<or> m ''interaction'' \<noteq> None)\<rparr>))))"

section \<open>The guard\<close>

record LayerGuard =
  allow_layer2_dispatch :: bool

definition check_capability :: "LayerGuard \<Rightarrow> CapabilityDeclaration \<Rightarrow> unit result" where
  "check_capability g d =
     (if reserved_reason (cd_id d) \<noteq> None then Inl LayerViolation
      else if cd_interaction d \<notin> PERMITTED_INTERACTIONS (cd_layer d) then Inl LayerViolation
      else if cd_interaction d = DISPATCH \<and> cd_layer d = L2_AUTONOMY \<and> \<not> allow_layer2_dispatch g
      then Inl LayerViolation
      else Inr ())"

fun validate_loop :: "LayerGuard \<Rightarrow> string set \<Rightarrow> CapabilityDeclaration list \<Rightarrow> unit result" where
  "validate_loop g seen [] = Inr ()"
| "validate_loop g seen (d # ds) =
     (if cd_id d \<in> seen then Inl (FaspError ''schema.invalid'')
      else bind_result (check_capability g d) (\<lambda>_. validate_loop g (insert (cd_id d) seen) ds))"

definition validate_adapter ::
    "(attr \<Rightarrow> string) \<Rightarrow> LayerGuard \<Rightarrow> (string \<times> attr) list option list \<Rightarrow> CapabilityDeclaration list result" where
  "validate_adapter str_of g capabilities =
     bind_result (map_result (from_mapping str_of) capabilities) (\<lambda>declarations.
     bind_result (validate_loop g {} declarations) (\<lambda>_. Inr declarations))"

definition describe_layers :: "(int \<times> string \<times> bool \<times> Interaction set) list" where
  "describe_layers =
     map (\<lambda>l. (layer_value l, layer_title l, l \<in> FASP_LAYERS, PERMITTED_INTERACTIONS l)) all_layers"

section \<open>What passes the guard\<close>

lemma check_capability_Inr_iff:
  "check_capability g d = Inr u \<longleftrightarrow>
     reserved_reason (cd_id d) = None \<and> cd_interaction d \<in> PERMITTED_INTERACTIONS (cd_layer d) \<and>
     (cd_interaction d = DISPATCH \<and> cd_layer d = L2_AUTONOMY \<longrightarrow> allow_layer2_dispatch g)"
  by (auto simp: check_capability_def)

lemma actuate_never_permitted: "ACTUATE \<notin> PERMITTED_INTERACTIONS l"
  by (cases l) auto

lemma configure_only_fasp: "CONFIGURE \<in> PERMITTED_INTERACTIONS l \<Longrightarrow> l \<in> FASP_LAYERS"
  by (cases l) (auto simp: FASP_LAYERS_def)

lemma validate_loop_Inr_iff:
  "validate_loop g seen ds = Inr () \<longleftrightarrow>
     distinct (map cd_id ds) \<and> set (map cd_id ds) \<inter> seen = {} \<and>
     (\<forall>d \<in> set ds. check_capability g d = Inr ())"
  by (induction ds arbitrary: seen) (auto simp: bind_result_Inr_iff)

lemma from_mapping_Inr:
  assumes "from_mapping str_of item = Inr d"
  shows "capability_id_of item = Some (cd_id d)"
    and "map_of (the item) ''layer'' = None \<Longrightarrow> cd_layer d = L3_FLEET"
  using assms by (auto simp: from_mapping_def Let_def bind_result_Inr_iff split: option.splits)

text \<open>
  A capability that passes the guard never actuates anything, at Layer 1 it only observes,
  it configures only the two layers FASP itself implements, it dispatches to Layer 2 only where
  the deployment enabled that, and its name is not a reserved Layer 1 function; conversely
  every such capability passes.
\<close>

theorem check_capability_iff:
  "check_capability g d = Inr () \<longleftrightarrow>
     reserved_reason (cd_id d) = None
   \<and> cd_interaction d \<noteq> ACTUATE
   \<and> (cd_layer d = L1_SAFETY \<longrightarrow> cd_interaction d = OBSERVE)
   \<and> (cd_interaction d = CONFIGURE \<longrightarrow> cd_layer d \<in> FASP_LAYERS)
   \<and> (cd_layer d = L2_AUTONOMY \<and> cd_interaction d = DISPATCH \<longrightarrow> allow_layer2_dispatch g)"
  unfolding check_capability_Inr_iff
  by (cases "cd_layer d"; cases "cd_interaction d") (auto simp: FASP_LAYERS_def)

theorem check_capability_iff_witness:
  "check_capability \<lparr>allow_layer2_dispatch = True\<rparr>
     \<lparr>cd_id = ''fleet.mission.v1'', cd_risk = ''observe'', cd_layer = L2_AUTONOMY,
      cd_interaction = DISPATCH, cd_max_runtime_s = Fin 5, cd_declared = True\<rparr> = Inr ()"
  unfolding check_capability_iff by code_simp

text \<open>
  An adapter is accepted exactly when every item parses, the capability identifiers are
  pairwise different and every declaration passes the guard; the declarations returned are the
  parsed items in order.
\<close>

theorem validate_adapter_iff:
  "validate_adapter str_of g items = Inr ds \<longleftrightarrow>
     list_all2 (\<lambda>item d. from_mapping str_of item = Inr d) items ds
   \<and> distinct (map cd_id ds)
   \<and> (\<forall>d \<in> set ds. check_capability g d = Inr ())"
  by (auto simp: validate_adapter_def bind_result_Inr_iff map_result_Inr_iff validate_loop_Inr_iff)

theorem validate_adapter_iff_witness:
  "validate_adapter (\<lambda>_. []) \<lparr>allow_layer2_dispatch = False\<rparr>
     [Some [(''id'', AVal (JStr ''observe.battery''))],
      Some [(''id'', AVal (JStr ''fleet.dock'')), (''layer'', AVal (JStr '' l4-enterprise'')),
            (''interaction'', AVal (JStr ''configure''))]]
   = Inr [\<lparr>cd_id = ''observe.battery'', cd_risk = ''observe'', cd_layer = L3_FLEET,
           cd_interaction = OBSERVE, cd_max_runtime_s = Fin 5, cd_declared = False\<rparr>,
          \<lparr>cd_id = ''fleet.dock'', cd_risk = ''observe'', cd_layer = L4_ENTERPRISE,
           cd_interaction = CONFIGURE, cd_max_runtime_s = Fin 5, cd_declared = True\<rparr>]"
  unfolding validate_adapter_iff by code_simp

section \<open>Reach of the deny list\<close>

lemma strip_prefix_ci_append:
  "strip_prefix_ci p s = Some t \<Longrightarrow> strip_prefix_ci p (s @ u) = Some (t @ u)"
  by (induction p s rule: strip_prefix_ci.induct) (auto split: if_splits)

lemma rx_match_append: "t \<in> set (rx_match r s) \<Longrightarrow> t @ u \<in> set (rx_match r (s @ u))"
proof (induction r arbitrary: s t)
  case (Lit p)
  then have "strip_prefix_ci p s = Some t" by (simp split: option.splits)
  then show ?case by (simp add: strip_prefix_ci_append)
next
  case (OneOf cs)
  then show ?case by (cases s) (auto split: if_splits)
next
  case (Cat r1 r2)
  then show ?case by (fastforce simp: image_iff)
qed auto

lemma strip_prefix_ci_subset: "strip_prefix_ci p s = Some t \<Longrightarrow> set t \<subseteq> set s"
  by (induction p s rule: strip_prefix_ci.induct) (auto split: if_splits)

lemma rx_match_subset: "t \<in> set (rx_match r s) \<Longrightarrow> set t \<subseteq> set s"
proof (induction r arbitrary: s t)
  case (Lit p)
  then have "strip_prefix_ci p s = Some t" by (simp split: option.splits)
  then show ?case by (rule strip_prefix_ci_subset)
next
  case (OneOf cs)
  then show ?case by (cases s) (auto split: if_splits)
next
  case (Opt r)
  then show ?case by auto
next
  case (Alt r1 r2)
  then show ?case by (metis Un_iff rx_match.simps(4) set_append)
next
  case (Cat r1 r2)
  then obtain u where "u \<in> set (rx_match r1 s)" and "t \<in> set (rx_match r2 u)" by auto
  with Cat.IH show ?case by (meson subset_trans)
qed

lemma ends_ok_append: "ends_ok t \<Longrightarrow> u \<noteq> [] \<Longrightarrow> t = [] \<or> boundary (hd t) \<Longrightarrow> boundary (hd u) \<Longrightarrow> ends_ok (t @ u)"
  by (cases t; cases u) (auto simp: ends_ok_def)

text \<open>No pattern of the table consumes the newline a dollar sign may leave behind.\<close>

lemma match_here_append:
  assumes "match_here r s" and "boundary c" and "CHR 0x0A \<notin> set s"
  shows "match_here r (s @ c # u)"
proof -
  from assms(1) obtain t where t: "t \<in> set (rx_match r s)" "ends_ok t"
    by (auto simp: match_here_def list_ex_iff)
  from rx_match_subset [OF t(1)] assms(3) have "CHR 0x0A \<notin> set t" by auto
  with t(2) have "t = [] \<or> boundary (hd t)"
    by (cases t) (auto simp: ends_ok_def)
  with t(2) assms(2) have "ends_ok (t @ c # u)"
    by (auto intro: ends_ok_append)
  moreover have "t @ c # u \<in> set (rx_match r (s @ c # u))"
    using t(1) by (rule rx_match_append)
  ultimately show ?thesis by (auto simp: match_here_def list_ex_iff)
qed

lemma search_rest_append:
  "search_rest r s \<Longrightarrow> boundary c \<Longrightarrow> CHR 0x0A \<notin> set s \<Longrightarrow> search_rest r (s @ c # u)"
  by (induction s) (auto intro: match_here_append)

lemma search_rest_prepend: "boundary c \<Longrightarrow> rx_search r s \<Longrightarrow> search_rest r (p @ c # s)"
  by (induction p) (auto simp: rx_search_def)

lemma rx_search_embed:
  assumes "rx_search r s" and "boundary c" and "boundary c'" and "CHR 0x0A \<notin> set s"
  shows "rx_search r (p @ c # s @ c' # q)"
proof -
  have "rx_search r (s @ c' # q)"
    using assms by (auto simp: rx_search_def intro: match_here_append search_rest_append)
  then show ?thesis
    using search_rest_prepend [OF assms(2), of r "s @ c' # q" p] by (simp add: rx_search_def)
qed

lemma reserved_reason_None_iff:
  "reserved_reason s = None \<longleftrightarrow> (\<forall>(r, why) \<in> set RESERVED_L1_FUNCTIONS. \<not> rx_search r s)"
  by (auto simp: reserved_reason_def find_None_all)

text \<open>
  A reserved name stays reserved inside any longer dotted (or underscored, or hyphenated)
  name: neither a prefix nor a version suffix moves a capability off the deny list.
\<close>

theorem reserved_stays_reserved:
  assumes "reserved_reason s \<noteq> None" and "boundary c" and "boundary c'" and "CHR 0x0A \<notin> set s"
  shows "reserved_reason (p @ c # s @ c' # q) \<noteq> None"
proof -
  from assms(1) obtain r why where r: "(r, why) \<in> set RESERVED_L1_FUNCTIONS" and "rx_search r s"
    by (auto simp: reserved_reason_None_iff)
  from this(2) assms(2-4) have "rx_search r (p @ c # s @ c' # q)"
    by (rule rx_search_embed)
  with r show ?thesis by (auto simp: reserved_reason_None_iff)
qed

theorem reserved_stays_reserved_witness:
  "reserved_reason (''x.safety'' @ CHR ''.'' # ''ESTOP.clear'' @ CHR ''.'' # ''v2'') \<noteq> None"
proof (rule reserved_stays_reserved)
  show "reserved_reason ''ESTOP.clear'' \<noteq> None" by code_simp
  show "boundary CHR ''.''" by code_simp
  show "boundary CHR ''.''" by code_simp
  show "CHR 0x0A \<notin> set ''ESTOP.clear''" by code_simp
qed

text \<open>
  The separator of the emergency-stop entry is a literal dot, while every other entry takes
  a dot or an underscore: \<^verbatim>\<open>brake_release\<close> is refused, \<^verbatim>\<open>estop_clear\<close> (which releases an
  emergency stop) passes the deny list and the guard at Layer 3.
\<close>

theorem estop_underscore_not_reserved:
  "reserved_reason ''brake_release'' \<noteq> None
   \<and> reserved_reason ''estop.clear'' \<noteq> None
   \<and> reserved_reason ''estop_clear'' = None
   \<and> check_capability \<lparr>allow_layer2_dispatch = False\<rparr>
       \<lparr>cd_id = ''estop_clear'', cd_risk = ''reversible'', cd_layer = L3_FLEET,
        cd_interaction = CONFIGURE, cd_max_runtime_s = Fin 5, cd_declared = True\<rparr> = Inr ()"
  by code_simp

end
