(* ===== verification/Policy.thy ===== *)
theory Policy
  imports Prelude
begin

text \<open>
  Capability scopes and risk classes: \<^verbatim>\<open>src/fasp_harness/policy/capabilities.py\<close> and
  \<^verbatim>\<open>src/fasp_harness/policy/capability.py\<close>. A scope covers a capability when its dot-separated
  segments are a prefix of the capability's. The lemmas relate the segment test to plain
  strings and show that scopes only ever narrow.
\<close>

section \<open>Scopes\<close>

definition segment_ok :: "string \<Rightarrow> bool" where
  "segment_ok part = (part \<noteq> [] \<and> CHR ''*'' \<notin> set part)"

definition normalize_scope :: "string \<Rightarrow> string" where
  "normalize_scope scope = (if scope \<noteq> [] \<and> last scope = CHR ''.'' then butlast scope else scope)"

definition matches_scope :: "string \<Rightarrow> string \<Rightarrow> bool" where
  "matches_scope capability scope =
     (if capability = [] \<or> scope = [] then False
      else (let normalized = normalize_scope scope in
        if normalized = [] then False
        else (let capability_parts = py_split CHR ''.'' capability;
                  scope_parts = py_split CHR ''.'' normalized
              in if list_ex (\<lambda>part. \<not> segment_ok part) (capability_parts @ scope_parts) then False
                 else take (length scope_parts) capability_parts = scope_parts)))"

definition allows :: "string \<Rightarrow> string list \<Rightarrow> bool" where
  "allows capability scopes = list_ex (matches_scope capability) scopes"

section \<open>Risk classes\<close>

definition EXECUTABLE_RISK_CLASSES :: "string set" where
  "EXECUTABLE_RISK_CLASSES = {''observe'', ''reversible''}"

definition GRANT_REQUIRED_RISK_CLASSES :: "string set" where
  "GRANT_REQUIRED_RISK_CLASSES = {''reversible''}"

definition is_executable :: "string \<Rightarrow> bool" where
  "is_executable risk = (risk \<in> EXECUTABLE_RISK_CLASSES)"

definition requires_grant :: "string \<Rightarrow> bool" where
  "requires_grant risk = (risk \<in> GRANT_REQUIRED_RISK_CLASSES)"

section \<open>Segments and strings\<close>

definition well_formed_name :: "string \<Rightarrow> bool" where
  "well_formed_name s = list_all segment_ok (py_split CHR ''.'' s)"

lemma well_formed_name_nonempty: "well_formed_name s \<Longrightarrow> s \<noteq> []"
  by (auto simp: well_formed_name_def segment_ok_def)

lemma well_formed_name_last: "well_formed_name s \<Longrightarrow> last s \<noteq> CHR ''.''"
proof
  assume wf: "well_formed_name s" and l: "last s = CHR ''.''"
  from wf have "s \<noteq> []" by (rule well_formed_name_nonempty)
  with l have "s = butlast s @ CHR ''.'' # []"
    by (metis append_butlast_last_id)
  then have "py_split CHR ''.'' s = py_split CHR ''.'' (butlast s) @ [[]]"
    by (metis py_split.simps(1) py_split_append_sep)
  with wf show False by (simp add: well_formed_name_def segment_ok_def)
qed

lemma normalize_scope_dot [simp]: "normalize_scope (s @ ''.'') = s"
  by (simp add: normalize_scope_def)

lemma normalize_scope_well_formed: "well_formed_name s \<Longrightarrow> normalize_scope s = s"
  by (auto simp: normalize_scope_def dest: well_formed_name_last)

lemma prefix_take_iff: "prefix xs ys \<longleftrightarrow> take (length xs) ys = xs"
  by (auto simp: prefix_def) (metis append_take_drop_id)

lemma matches_scope_alt:
  "matches_scope c s \<longleftrightarrow>
     well_formed_name c \<and> well_formed_name (normalize_scope s) \<and>
     prefix (py_split CHR ''.'' (normalize_scope s)) (py_split CHR ''.'' c)"
proof (cases "c = [] \<or> s = [] \<or> normalize_scope s = []")
  case True
  then have "\<not> (well_formed_name c \<and> well_formed_name (normalize_scope s))"
    using well_formed_name_nonempty by (auto simp: normalize_scope_def)
  with True show ?thesis by (auto simp: matches_scope_def Let_def)
next
  case False
  then show ?thesis
    unfolding matches_scope_def well_formed_name_def Let_def prefix_take_iff
    by (simp add: list_ex_iff list_all_iff) blast
qed

lemma prefix_split_iff:
  "prefix (py_split CHR ''.'' s) (py_split CHR ''.'' c) \<longleftrightarrow> c = s \<or> (\<exists>rest. c = s @ CHR ''.'' # rest)"
proof
  assume "prefix (py_split CHR ''.'' s) (py_split CHR ''.'' c)"
  then obtain zs where zs: "py_split CHR ''.'' c = py_split CHR ''.'' s @ zs" by (auto simp: prefix_def)
  show "c = s \<or> (\<exists>rest. c = s @ CHR ''.'' # rest)"
  proof (cases "zs = []")
    case True
    with zs have "py_join CHR ''.'' (py_split CHR ''.'' c) = py_join CHR ''.'' (py_split CHR ''.'' s)" by simp
    then show ?thesis by simp
  next
    case False
    have join: "ps \<noteq> [] \<Longrightarrow> py_join d (ps @ zs) = py_join d ps @ d # py_join d zs" for ps d
      by (induction ps rule: py_join.induct) (auto simp: py_join_Cons False)
    have "c = py_join CHR ''.'' (py_split CHR ''.'' s @ zs)"
      by (metis zs py_join_split)
    with join [of "py_split CHR ''.'' s"] show ?thesis by auto
  qed
next
  assume "c = s \<or> (\<exists>rest. c = s @ CHR ''.'' # rest)"
  then show "prefix (py_split CHR ''.'' s) (py_split CHR ''.'' c)"
    by (auto simp: py_split_append_sep)
qed

section \<open>Properties\<close>

text \<open>
  A scope, written with or without its trailing dot, covers exactly the capability of that
  name and the names below it, separated by a dot. In particular \<^verbatim>\<open>fleet.mission.v1\<close> never covers
  \<^verbatim>\<open>fleet.mission.v10\<close>.
\<close>

theorem matches_scope_iff:
  assumes "well_formed_name c" and "well_formed_name s" and "scope \<in> {s, s @ ''.''}"
  shows "matches_scope c scope \<longleftrightarrow> c = s \<or> (\<exists>rest. c = s @ CHR ''.'' # rest)"
  using assms by (auto simp: matches_scope_alt normalize_scope_well_formed prefix_split_iff)

theorem matches_scope_iff_witness:
  "matches_scope ''fleet.mission.v1.pause'' ''fleet.mission.v1''
   \<and> \<not> matches_scope ''fleet.mission.v10'' ''fleet.mission.v1.''"
proof -
  have wf: "well_formed_name ''fleet.mission.v1''" "well_formed_name ''fleet.mission.v1.pause''"
    "well_formed_name ''fleet.mission.v10''"
    by code_simp+
  show ?thesis
    using matches_scope_iff [OF wf(2) wf(1), of "''fleet.mission.v1''"]
      matches_scope_iff [OF wf(3) wf(1), of "''fleet.mission.v1.''"] by simp
qed

text \<open>
  Default deny: an empty list of scopes allows nothing, a malformed capability name (an empty
  segment or a wildcard) is never allowed, and whatever is allowed under a scope that is itself
  covered by a wider scope is allowed under the wider one. So scopes only narrow.
\<close>

theorem allows_default_deny_and_narrow:
  "\<not> allows c [] \<and>
   (\<not> well_formed_name c \<longrightarrow> \<not> allows c scopes) \<and>
   (matches_scope c s \<and> matches_scope (normalize_scope s) t \<longrightarrow> matches_scope c t)"
  by (auto simp: allows_def list_ex_iff matches_scope_alt dest: prefix_order.trans)

theorem allows_default_deny_and_narrow_witness:
  "\<not> allows ''fleet..mission'' [''fleet.''] \<and> matches_scope ''observe.camera.front'' ''observe.''"
proof -
  have "\<not> well_formed_name ''fleet..mission''" by code_simp
  moreover have "matches_scope ''observe.camera.front'' ''observe.camera.''"
    and "matches_scope (normalize_scope ''observe.camera.'') ''observe.''"
    by code_simp+
  ultimately show ?thesis
    using allows_default_deny_and_narrow [of "''fleet..mission''" "[''fleet.'']" "[]" "[]"]
      allows_default_deny_and_narrow [of "''observe.camera.front''" "[]" "''observe.camera.''" "''observe.''"]
    by blast
qed

end
