(* ===== verification/Audit_Chain.thy ===== *)
theory Audit_Chain
  imports Prelude
begin

text \<open>
  The hash-chained audit log of \<^verbatim>\<open>src/fasp_harness/audit/chain.py\<close>. SHA-256 over the canonical JSON
  of a row is a parameter \<open>hx\<close> (canonicalisation is a third-party package): it maps the six
  hashed fields to a digest of an arbitrary type. The table is a list of rows; its order is the
  order of insertion and \<^verbatim>\<open>ORDER BY seq\<close> is a sort. Every component that audits its state changes
  goes through the interface locale \<open>audit_log\<close>.
\<close>

section \<open>Rows and hashes\<close>

record 'h audit_payload =
  ap_seq :: int
  ap_ts :: timestamp
  ap_event_type :: string
  ap_subject :: string
  ap_detail :: json
  ap_prev_hash :: 'h

record 'h audit_row =
  ar_seq :: int
  ar_ts :: timestamp
  ar_event_type :: string
  ar_subject :: string
  ar_detail :: json
  ar_prev_hash :: 'h
  ar_row_hash :: 'h

definition row_hash ::
    "('h audit_payload \<Rightarrow> 'h) \<Rightarrow> 'h \<Rightarrow> int \<Rightarrow> timestamp \<Rightarrow> string \<Rightarrow> string \<Rightarrow> json \<Rightarrow> 'h" where
  "row_hash hx prev_hash sq ts event_type subject detail =
     hx \<lparr>ap_seq = sq, ap_ts = ts, ap_event_type = event_type, ap_subject = subject,
         ap_detail = detail, ap_prev_hash = prev_hash\<rparr>"

text \<open>\<^verbatim>\<open>ORDER BY seq\<close>, and \<^verbatim>\<open>COALESCE(MAX(seq), 0) + 1\<close>.\<close>

definition by_seq :: "'h audit_row list \<Rightarrow> 'h audit_row list" where
  "by_seq rows = sort_key ar_seq rows"

definition next_seq :: "'h audit_row list \<Rightarrow> int" where
  "next_seq rows = (case rows of [] \<Rightarrow> 0 | _ \<Rightarrow> Max (ar_seq ` set rows)) + 1"

definition head_hash :: "'h \<Rightarrow> 'h audit_row list \<Rightarrow> 'h" where
  "head_hash genesis rows = (case rev (by_seq rows) of [] \<Rightarrow> genesis | r # _ \<Rightarrow> ar_row_hash r)"

definition audit_append ::
    "('h audit_payload \<Rightarrow> 'h) \<Rightarrow> 'h \<Rightarrow> 'h audit_row list \<Rightarrow> string \<Rightarrow> string \<Rightarrow> json \<Rightarrow> timestamp \<Rightarrow> 'h audit_row list" where
  "audit_append hx genesis rows event_type subject detail ts =
     (let prev_hash = head_hash genesis rows;
          sq = next_seq rows
      in rows @ [\<lparr>ar_seq = sq, ar_ts = ts, ar_event_type = event_type, ar_subject = subject,
                  ar_detail = detail, ar_prev_hash = prev_hash,
                  ar_row_hash = row_hash hx prev_hash sq ts event_type subject detail\<rparr>])"

definition row_ok :: "('h audit_payload \<Rightarrow> 'h) \<Rightarrow> 'h \<Rightarrow> 'h audit_row \<Rightarrow> bool" where
  "row_ok hx prev_hash r =
     (ar_prev_hash r = prev_hash \<and>
      ar_row_hash r = row_hash hx prev_hash (ar_seq r) (ar_ts r) (ar_event_type r) (ar_subject r) (ar_detail r))"

fun verify_rows :: "('h audit_payload \<Rightarrow> 'h) \<Rightarrow> 'h \<Rightarrow> 'h audit_row list \<Rightarrow> bool \<times> int option" where
  "verify_rows hx prev_hash [] = (True, None)"
| "verify_rows hx prev_hash (r # rs) =
     (if \<not> row_ok hx prev_hash r then (False, Some (ar_seq r))
      else verify_rows hx (ar_row_hash r) rs)"

definition audit_verify :: "('h audit_payload \<Rightarrow> 'h) \<Rightarrow> 'h \<Rightarrow> 'h audit_row list \<Rightarrow> bool \<times> int option" where
  "audit_verify hx genesis rows = verify_rows hx genesis (by_seq rows)"

section \<open>The interface the other components use\<close>

text \<open>
  What a component that audits relies on: an empty log is intact and an append keeps it so,
  without touching the rows already there.
\<close>

locale audit_log =
  fixes log_append :: "'l \<Rightarrow> string \<Rightarrow> string \<Rightarrow> json \<Rightarrow> timestamp \<Rightarrow> 'l"
    and log_empty :: 'l
    and log_intact :: "'l \<Rightarrow> bool"
    and log_size :: "'l \<Rightarrow> nat"
  assumes intact_empty: "log_intact log_empty"
    and intact_append: "log_intact l \<Longrightarrow> log_intact (log_append l ev sub det ts)"
    and size_append: "log_size (log_append l ev sub det ts) = Suc (log_size l)"
begin

definition append_entries :: "'l \<Rightarrow> (string \<times> string \<times> json \<times> timestamp) list \<Rightarrow> 'l" where
  "append_entries l es = fold (\<lambda>(ev, sub, det, ts) l. log_append l ev sub det ts) es l"

lemma append_entries_intact: "log_intact l \<Longrightarrow> log_intact (append_entries l es)"
  unfolding append_entries_def
  by (induction es arbitrary: l) (auto intro: intact_append)

lemma append_entries_size: "log_size (append_entries l es) = log_size l + length es"
  unfolding append_entries_def
  by (induction es arbitrary: l) (auto simp: size_append)

end

section \<open>Chains\<close>

text \<open>
  A log is well formed when its rows are in strictly increasing order of sequence number, each
  linked to the one before: what appends build.
\<close>

fun chained :: "('h audit_payload \<Rightarrow> 'h) \<Rightarrow> 'h \<Rightarrow> 'h audit_row list \<Rightarrow> bool" where
  "chained hx prev_hash [] = True"
| "chained hx prev_hash (r # rs) = (row_ok hx prev_hash r \<and> chained hx (ar_row_hash r) rs)"

definition audit_intact :: "('h audit_payload \<Rightarrow> 'h) \<Rightarrow> 'h \<Rightarrow> 'h audit_row list \<Rightarrow> bool" where
  "audit_intact hx genesis rows =
     (map ar_seq rows = map int [1..<Suc (length rows)] \<and> chained hx genesis rows)"

definition last_hash :: "'h \<Rightarrow> 'h audit_row list \<Rightarrow> 'h" where
  "last_hash genesis rows = (if rows = [] then genesis else ar_row_hash (last rows))"

lemma verify_rows_iff: "verify_rows hx p rows = (True, None) \<longleftrightarrow> chained hx p rows"
  by (induction rows arbitrary: p) auto

lemma chained_append:
  "chained hx p (xs @ ys) \<longleftrightarrow> chained hx p xs \<and> chained hx (last_hash p xs) ys"
proof (induction xs arbitrary: p)
  case Nil
  then show ?case by (simp add: last_hash_def)
next
  case (Cons x xs)
  have "last_hash p (x # xs) = last_hash (ar_row_hash x) xs"
    by (simp add: last_hash_def)
  with Cons show ?case by auto
qed

lemma intact_sorted: "audit_intact hx g rows \<Longrightarrow> by_seq rows = rows"
  unfolding by_seq_def audit_intact_def
  by (rule sort_key_id_if_sorted) (simp add: sorted_map del: upt_Suc)

lemma intact_next_seq: "audit_intact hx g rows \<Longrightarrow> next_seq rows = int (length rows) + 1"
proof (cases rows)
  case Nil
  then show ?thesis by (simp add: next_seq_def)
next
  case (Cons r rs)
  assume "audit_intact hx g rows"
  then have "ar_seq ` set rows = int ` {1..<Suc (length rows)}"
    unfolding audit_intact_def by (metis atLeastLessThan_upt image_set)
  moreover have "Max (int ` {1..<Suc (length rows)}) = int (length rows)"
  proof (rule Max_eqI)
    show "int (length rows) \<in> int ` {1..<Suc (length rows)}"
      by (rule imageI) (use Cons in auto)
  qed auto
  ultimately show ?thesis using Cons by (simp add: next_seq_def)
qed

lemma intact_head_hash: "audit_intact hx g rows \<Longrightarrow> head_hash g rows = last_hash g rows"
  by (cases rows rule: rev_cases) (simp_all add: head_hash_def last_hash_def intact_sorted)

lemma audit_append_intact:
  assumes "audit_intact hx g rows"
  shows "audit_intact hx g (audit_append hx g rows ev sub det ts)"
  using assms intact_next_seq [OF assms] intact_head_hash [OF assms]
  by (auto simp: audit_intact_def audit_append_def Let_def chained_append row_ok_def)

lemma audit_intact_Nil: "audit_intact hx g []"
  by (simp add: audit_intact_def)

lemma length_audit_append [simp]: "length (audit_append hx g rows ev sub det ts) = Suc (length rows)"
  by (simp add: audit_append_def Let_def)

lemma intact_verify: "audit_intact hx g rows \<Longrightarrow> audit_verify hx g rows = (True, None)"
  by (simp add: audit_verify_def intact_sorted verify_rows_iff) (simp add: audit_intact_def)

interpretation chain: audit_log "audit_append hx genesis" "[]" "audit_intact hx genesis" length
  for hx :: "'h audit_payload \<Rightarrow> 'h" and genesis
  by unfold_locales (simp_all add: audit_intact_Nil audit_append_intact)

section \<open>Properties\<close>

text \<open>
  Whatever sequence of entries is appended to an empty log, verification accepts it, and the
  log holds one row per entry with sequence numbers 1, 2, 3, ...
\<close>

theorem audit_append_verifies:
  "audit_verify hx genesis
     (fold (\<lambda>(ev, sub, det, ts) l. audit_append hx genesis l ev sub det ts) es []) = (True, None)
   \<and> map ar_seq (fold (\<lambda>(ev, sub, det, ts) l. audit_append hx genesis l ev sub det ts) es [])
     = map int [1..<Suc (length es)]"
proof -
  have intact: "audit_intact hx genesis (chain.append_entries hx genesis [] es)"
    by (rule chain.append_entries_intact [OF audit_intact_Nil])
  have size: "length (chain.append_entries hx genesis [] es) = length es"
    by (simp add: chain.append_entries_size)
  show ?thesis
    using intact_verify [OF intact] intact size
    unfolding audit_intact_def chain.append_entries_def by simp
qed

lemma chained_payload_eq:
  assumes "row_ok hx p r" and "row_ok hx q s" and "ar_row_hash r = ar_row_hash s"
    and nc: "\<And>x y. hx x = hx y \<Longrightarrow> x = y"
  shows "p = q" and "r = s"
proof -
  have "\<lparr>ap_seq = ar_seq r, ap_ts = ar_ts r, ap_event_type = ar_event_type r, ap_subject = ar_subject r,
         ap_detail = ar_detail r, ap_prev_hash = p\<rparr> =
        \<lparr>ap_seq = ar_seq s, ap_ts = ar_ts s, ap_event_type = ar_event_type s, ap_subject = ar_subject s,
         ap_detail = ar_detail s, ap_prev_hash = q\<rparr>"
    using assms(1-3) by (intro nc) (simp add: row_ok_def row_hash_def)
  then show "p = q" and "r = s"
    using assms(1-3) by (auto simp: row_ok_def)
qed

lemma chained_same_head:
  assumes "\<And>x y. hx x = hx y \<Longrightarrow> x = y"
  shows "chained hx g xs \<Longrightarrow> chained hx g ys \<Longrightarrow> length xs = length ys \<Longrightarrow>
         last_hash g xs = last_hash g ys \<Longrightarrow> xs = ys"
proof (induction xs arbitrary: ys rule: rev_induct)
  case Nil
  then show ?case by simp
next
  case (snoc x xs)
  then obtain zs y where ys: "ys = zs @ [y]" by (cases ys rule: rev_cases) auto
  from snoc.prems ys have x: "row_ok hx (last_hash g xs) x" and y: "row_ok hx (last_hash g zs) y"
    and h: "ar_row_hash x = ar_row_hash y"
    by (auto simp: chained_append last_hash_def)
  have "last_hash g xs = last_hash g zs" and "x = y"
    using chained_payload_eq [OF x y h assms] by blast+
  with snoc ys show ?case by (auto simp: chained_append)
qed

text \<open>
  C27. Tamper evidence: if two different logs of the same length both pass verification and end
  in the same row hash, then two different inputs with the same digest have been found. So an
  edited history cannot keep the head hash without a collision in the digest.
\<close>

theorem audit_tamper_evident:
  assumes "audit_verify hx genesis xs = (True, None)" and "audit_verify hx genesis ys = (True, None)"
    and "length xs = length ys" and "last_hash genesis (by_seq xs) = last_hash genesis (by_seq ys)"
    and "by_seq xs \<noteq> by_seq ys"
  shows "\<exists>p q. p \<noteq> q \<and> hx p = hx q"
proof (rule ccontr)
  assume "\<not> ?thesis"
  then have nc: "hx x = hx y \<Longrightarrow> x = y" for x y by auto
  have "length (by_seq xs) = length (by_seq ys)"
    using assms(3) by (simp add: by_seq_def)
  with assms(1,2,4) have "by_seq xs = by_seq ys"
    by (intro chained_same_head [of hx genesis, OF nc]) (simp_all add: audit_verify_def verify_rows_iff)
  with assms(5) show False ..
qed

theorem audit_tamper_evident_witness:
  "\<exists>p q :: nat audit_payload. p \<noteq> q \<and> (\<lambda>_. 7) p = (\<lambda>_. 7 :: nat) q"
proof (rule audit_tamper_evident)
  let ?row = "\<lambda>who. \<lparr>ar_seq = 1, ar_ts = 0, ar_event_type = ''grant.issued'', ar_subject = who,
     ar_detail = JNull, ar_prev_hash = 0, ar_row_hash = 7 :: nat\<rparr>"
  show "audit_verify (\<lambda>_. 7) 0 [?row ''alice''] = (True, None)"
    by (simp add: audit_verify_def by_seq_def row_ok_def row_hash_def)
  show "audit_verify (\<lambda>_. 7) 0 [?row ''mallory''] = (True, None)"
    by (simp add: audit_verify_def by_seq_def row_ok_def row_hash_def)
  show "length [?row ''alice''] = length [?row ''mallory'']" by simp
  show "last_hash 0 (by_seq [?row ''alice'']) = last_hash 0 (by_seq [?row ''mallory''])"
    by (simp add: by_seq_def last_hash_def)
  show "by_seq [?row ''alice''] \<noteq> by_seq [?row ''mallory'']" by (simp add: by_seq_def)
qed

lemma verify_rows_False_iff:
  "verify_rows hx p rows = (False, Some n) \<longleftrightarrow>
     (\<exists>good bad rest. rows = good @ bad # rest \<and> ar_seq bad = n \<and>
        chained hx p good \<and> \<not> row_ok hx (last_hash p good) bad)"
proof (induction rows arbitrary: p)
  case Nil
  then show ?case by simp
next
  case (Cons r rs)
  have step: "(\<exists>good bad rest. r # rs = good @ bad # rest \<and> ar_seq bad = n \<and>
        chained hx p good \<and> \<not> row_ok hx (last_hash p good) bad) \<longleftrightarrow>
      (ar_seq r = n \<and> \<not> row_ok hx p r) \<or>
      (row_ok hx p r \<and> (\<exists>good bad rest. rs = good @ bad # rest \<and> ar_seq bad = n \<and>
        chained hx (ar_row_hash r) good \<and> \<not> row_ok hx (last_hash (ar_row_hash r) good) bad))"
    (is "?L \<longleftrightarrow> ?R")
  proof
    assume ?L
    then show ?R by (auto simp: Cons_eq_append_conv last_hash_def split: if_splits)
  next
    assume ?R
    then show ?L
    proof (elim disjE conjE exE)
      assume "ar_seq r = n" "\<not> row_ok hx p r"
      then show ?L by (intro exI [of _ "[]"]) (auto simp: last_hash_def)
    next
      fix good bad rest
      assume *: "row_ok hx p r" "rs = good @ bad # rest" "ar_seq bad = n"
        "chained hx (ar_row_hash r) good" "\<not> row_ok hx (last_hash (ar_row_hash r) good) bad"
      moreover have "last_hash p (r # good) = last_hash (ar_row_hash r) good"
        by (simp add: last_hash_def)
      ultimately show ?L by (intro exI [of _ "r # good"]) auto
    qed
  qed
  show ?case unfolding step by (auto simp: Cons.IH)
qed

text \<open>
  When verification fails it names the first bad row: every row before it (in sequence order)
  is linked and hashed correctly, and the named row is not.
\<close>

theorem audit_verify_first_bad:
  "audit_verify hx genesis rows = (False, Some n) \<longleftrightarrow>
     (\<exists>good bad rest. by_seq rows = good @ bad # rest \<and> ar_seq bad = n \<and>
        audit_verify hx genesis good = (True, None) \<and> chained hx genesis good \<and>
        \<not> row_ok hx (last_hash genesis good) bad)"
proof -
  have "by_seq rows = good @ bad # rest \<Longrightarrow> by_seq good = good" for good bad rest
  proof -
    assume "by_seq rows = good @ bad # rest"
    moreover have "sorted (map ar_seq (by_seq rows))" by (simp add: by_seq_def)
    ultimately have "sorted (map ar_seq good)" by (simp add: sorted_append)
    then show ?thesis unfolding by_seq_def by (rule sort_key_id_if_sorted)
  qed
  then show ?thesis
    unfolding audit_verify_def verify_rows_False_iff
    by (metis verify_rows_iff)
qed

end
