(* ===== verification/Trust.thy ===== *)
theory Trust
  imports Policy Audit_Chain
begin

text \<open>
  Who a node trusts: pairing records (\<^verbatim>\<open>src/fasp_harness/storage/peers_repo.py\<close>), revocations
  (\<^verbatim>\<open>storage/revocations_repo.py\<close>), grants (\<^verbatim>\<open>storage/grants_repo.py\<close>, \<^verbatim>\<open>policy/grants.py\<close>) and the
  checks of \<^verbatim>\<open>core.py\<close> built on them. The tables are lists of rows; SHA-256 appears as the
  parameters \<open>hx\<close> (audit rows) and \<open>sha\<close> (grant digests).
\<close>

section \<open>Tables\<close>

datatype peer_state = Pending | Paired

record id_card =
  card_public_key :: string
  card_display_name :: "string option"
  card_kid :: string
  card_key_id :: "string option"

record peer_row =
  pe_peer_id :: string
  pe_card :: id_card
  pe_state :: peer_state
  pe_prefixes :: "string list"
  pe_pair_code :: string
  pe_seen_at :: timestamp
  pe_paired_at :: "timestamp option"
  pe_expires_at :: "timestamp option"

record revocation_row =
  rv_peer_id :: string
  rv_revoked_at :: timestamp
  rv_reason :: string
  rv_ref :: "string option"

record grant_row =
  gr_grant_id :: string
  gr_issuer :: string
  gr_subject_peer :: string
  gr_prefixes :: "string list"
  gr_digest :: string
  gr_purpose :: "string option"
  gr_constraints :: "json option"
  gr_issued_at :: timestamp
  gr_expires_at :: timestamp
  gr_revoked_at :: "timestamp option"

record 'h trust_db =
  td_peers :: "peer_row list"
  td_revocations :: "revocation_row list"
  td_grants :: "grant_row list"
  td_log :: "'h audit_row list"

definition trust_empty :: "'h trust_db" where
  "trust_empty = \<lparr>td_peers = [], td_revocations = [], td_grants = [], td_log = []\<rparr>"

definition opt_str :: "string option \<Rightarrow> json" where
  "opt_str v = (case v of None \<Rightarrow> JNull | Some s \<Rightarrow> JStr s)"

section \<open>Peers\<close>

definition max_pending :: nat where
  "max_pending = 256"

definition peers_get :: "'h trust_db \<Rightarrow> string \<Rightarrow> peer_row option" where
  "peers_get db peer_id = find (\<lambda>r. pe_peer_id r = peer_id) (td_peers db)"

definition is_revoked :: "'h trust_db \<Rightarrow> string \<Rightarrow> bool" where
  "is_revoked db peer_id = list_ex (\<lambda>r. rv_peer_id r = peer_id) (td_revocations db)"

record authentication_view =
  av_state :: "peer_state option"
  av_expires_at :: "timestamp option"
  av_revoked :: bool
  av_public_key :: "string option"
  av_kid :: "string option"
  av_prefixes :: "string list"

definition peers_authentication :: "'h trust_db \<Rightarrow> string \<Rightarrow> authentication_view" where
  "peers_authentication db peer_id =
     (case peers_get db peer_id of
        None \<Rightarrow> \<lparr>av_state = None, av_expires_at = None, av_revoked = is_revoked db peer_id,
                 av_public_key = None, av_kid = None, av_prefixes = []\<rparr>
      | Some p \<Rightarrow> \<lparr>av_state = Some (pe_state p), av_expires_at = pe_expires_at p,
                   av_revoked = is_revoked db peer_id,
                   av_public_key = Some (card_public_key (pe_card p)),
                   av_kid = Some (card_kid (pe_card p)), av_prefixes = pe_prefixes p\<rparr>)"

definition pending_cutoff :: "timestamp \<Rightarrow> timestamp" where
  "pending_cutoff seen_at = seen_at - 15 * 60 * 1000"

definition upsert_pending_or_seen ::
    "'h trust_db \<Rightarrow> string \<Rightarrow> id_card \<Rightarrow> string \<Rightarrow> timestamp \<Rightarrow> string list \<Rightarrow> 'h trust_db result" where
  "upsert_pending_or_seen db peer_id idc pair_code seen_at default_prefixes =
     (case peers_get db peer_id of
        None \<Rightarrow>
          (let kept = filter (\<lambda>r. \<not> (pe_state r = Pending \<and> pe_seen_at r < pending_cutoff seen_at)) (td_peers db);
               pending = count_where (\<lambda>r. pe_state r = Pending) kept
           in if pending \<ge> max_pending then Inl (FaspError ''resource.exhausted'')
              else Inr (db\<lparr>td_peers := kept @
                [\<lparr>pe_peer_id = peer_id, pe_card = idc, pe_state = Pending, pe_prefixes = default_prefixes,
                  pe_pair_code = pair_code, pe_seen_at = seen_at, pe_paired_at = None,
                  pe_expires_at = None\<rparr>]\<rparr>))
      | Some existing \<Rightarrow>
          (if pe_state existing = Paired \<and>
              (card_kid (pe_card existing) \<noteq> card_kid idc \<or>
               (card_key_id (pe_card existing) \<noteq> None \<and> card_key_id idc = None))
           then Inl (FaspError ''auth.identity_mismatch'')
           else Inr (db\<lparr>td_peers := update_where (\<lambda>r. pe_peer_id r = peer_id)
                  (\<lambda>r. r\<lparr>pe_card := idc, pe_pair_code := pair_code, pe_seen_at := seen_at\<rparr>) (td_peers db)\<rparr>)))"

definition peers_confirm ::
    "('h audit_payload \<Rightarrow> 'h) \<Rightarrow> 'h \<Rightarrow> 'h trust_db \<Rightarrow> string \<Rightarrow> string \<Rightarrow> timestamp \<Rightarrow> timestamp \<Rightarrow>
     string list option \<Rightarrow> 'h trust_db \<times> peer_row option" where
  "peers_confirm hx gen db peer_id pair_code paired_at expires_at scopes =
     (case peers_get db peer_id of
        None \<Rightarrow> (db, None)
      | Some row \<Rightarrow>
          (if pe_pair_code row \<noteq> pair_code then (db, None)
           else (let pair = (\<lambda>r. r\<lparr>pe_state := Paired, pe_paired_at := Some paired_at, pe_expires_at := Some expires_at\<rparr>);
                     scope = (\<lambda>r. case scopes of None \<Rightarrow> r | Some ps \<Rightarrow> r\<lparr>pe_prefixes := ps\<rparr>);
                     db' = db\<lparr>td_peers := update_where (\<lambda>r. pe_peer_id r = peer_id) (\<lambda>r. scope (pair r)) (td_peers db),
                              td_revocations := filter (\<lambda>r. rv_peer_id r \<noteq> peer_id) (td_revocations db),
                              td_log := audit_append hx gen (td_log db) ''peer.paired'' peer_id
                                (JObj [(''expires_at'', JInt expires_at)]) paired_at\<rparr>
                 in (db', peers_get db' peer_id))))"

section \<open>Revocations\<close>

definition revocations_revoke ::
    "('h audit_payload \<Rightarrow> 'h) \<Rightarrow> 'h \<Rightarrow> 'h trust_db \<Rightarrow> string \<Rightarrow> timestamp \<Rightarrow> string \<Rightarrow> string option \<Rightarrow> 'h trust_db" where
  "revocations_revoke hx gen db peer_id revoked_at reason revocation_ref =
     (let row = \<lparr>rv_peer_id = peer_id, rv_revoked_at = revoked_at, rv_reason = reason, rv_ref = revocation_ref\<rparr>
      in db\<lparr>td_revocations :=
              (if is_revoked db peer_id
               then update_where (\<lambda>r. rv_peer_id r = peer_id) (\<lambda>_. row) (td_revocations db)
               else td_revocations db @ [row]),
            td_log := audit_append hx gen (td_log db) ''peer.revoked'' peer_id
              (JObj [(''reason'', JStr reason), (''revocation_ref'', opt_str revocation_ref)]) revoked_at\<rparr>)"

definition revocations_get :: "'h trust_db \<Rightarrow> string \<Rightarrow> revocation_row option" where
  "revocations_get db peer_id = find (\<lambda>r. rv_peer_id r = peer_id) (td_revocations db)"

section \<open>Grants\<close>

definition compute_digest ::
    "(string \<times> string \<times> string list \<times> timestamp \<times> timestamp \<Rightarrow> string) \<Rightarrow>
     string \<Rightarrow> string \<Rightarrow> string list \<Rightarrow> timestamp \<Rightarrow> timestamp \<Rightarrow> string" where
  "compute_digest sha grant_id subject_peer capability_prefixes issued_at expires_at =
     ''sha-256:'' @ sha (grant_id, subject_peer, sort capability_prefixes, issued_at, expires_at)"

definition grants_get :: "'h trust_db \<Rightarrow> string \<Rightarrow> grant_row option" where
  "grants_get db grant_id = find (\<lambda>g. gr_grant_id g = grant_id) (td_grants db)"

text \<open>A second row with the same primary key is an integrity error of the database.\<close>

definition grants_issue ::
    "('h audit_payload \<Rightarrow> 'h) \<Rightarrow> 'h \<Rightarrow> (string \<times> string \<times> string list \<times> timestamp \<times> timestamp \<Rightarrow> string) \<Rightarrow>
     'h trust_db \<Rightarrow> string \<Rightarrow> string \<Rightarrow> string \<Rightarrow> string list \<Rightarrow> timestamp \<Rightarrow> timestamp \<Rightarrow>
     string option \<Rightarrow> json option \<Rightarrow> ('h trust_db \<times> grant_row) result" where
  "grants_issue hx gen sha db grant_id issuer subject_peer scopes issued_at expires_at purpose constraints =
     (let digest = compute_digest sha grant_id subject_peer scopes issued_at expires_at;
          row = \<lparr>gr_grant_id = grant_id, gr_issuer = issuer, gr_subject_peer = subject_peer,
                 gr_prefixes = scopes, gr_digest = digest, gr_purpose = purpose,
                 gr_constraints = constraints, gr_issued_at = issued_at, gr_expires_at = expires_at,
                 gr_revoked_at = None\<rparr>
      in if grants_get db grant_id \<noteq> None then Inl OtherException
         else Inr (db\<lparr>td_grants := td_grants db @ [row],
                      td_log := audit_append hx gen (td_log db) ''grant.issued'' grant_id
                        (JObj [(''subject_peer'', JStr subject_peer),
                               (''capability_prefixes'', JList (map JStr scopes)),
                               (''digest'', JStr digest)]) issued_at\<rparr>, row))"

definition grants_revoke ::
    "('h audit_payload \<Rightarrow> 'h) \<Rightarrow> 'h \<Rightarrow> 'h trust_db \<Rightarrow> string \<Rightarrow> timestamp \<Rightarrow> 'h trust_db \<times> bool" where
  "grants_revoke hx gen db grant_id revoked_at =
     (let hit = (\<lambda>g. gr_grant_id g = grant_id \<and> gr_revoked_at g = None)
      in if list_ex hit (td_grants db)
         then (db\<lparr>td_grants := update_where hit (\<lambda>g. g\<lparr>gr_revoked_at := Some revoked_at\<rparr>) (td_grants db),
                  td_log := audit_append hx gen (td_log db) ''grant.revoked'' grant_id (JObj []) revoked_at\<rparr>, True)
         else (db, False))"

definition grants_for_subject :: "'h trust_db \<Rightarrow> string \<Rightarrow> grant_row list" where
  "grants_for_subject db subject_peer =
     sort_key (\<lambda>g. - gr_issued_at g) (filter (\<lambda>g. gr_subject_peer g = subject_peer) (td_grants db))"

definition validate_grant_if_required ::
    "'h trust_db \<Rightarrow> timestamp \<Rightarrow> string \<Rightarrow> string \<Rightarrow> string option \<Rightarrow> bool \<Rightarrow> string option \<Rightarrow> unit result" where
  "validate_grant_if_required db now peer_id capability grant_id require_grant expected_purpose =
     (case grant_id of
        None \<Rightarrow> if require_grant then Inl (FaspError ''auth.not_authorized'') else Inr ()
      | Some gid \<Rightarrow>
          (case grants_get db gid of
             None \<Rightarrow> Inl (FaspError ''auth.not_authorized'')
           | Some grant \<Rightarrow>
               if gr_subject_peer grant \<noteq> peer_id then Inl (FaspError ''auth.not_authorized'')
               else if gr_revoked_at grant \<noteq> None then Inl (FaspError ''auth.grant_expired'')
               else if gr_expires_at grant \<le> now then Inl (FaspError ''auth.grant_expired'')
               else if expected_purpose \<noteq> None \<and> gr_purpose grant \<noteq> expected_purpose
               then Inl (FaspError ''auth.not_authorized'')
               else if \<not> allows capability (gr_prefixes grant) then Inl (FaspError ''auth.not_authorized'')
               else Inr ()))"

section \<open>The checks of the harness\<close>

definition harness_peer :: "'h trust_db \<Rightarrow> timestamp \<Rightarrow> string \<Rightarrow> authentication_view result" where
  "harness_peer db now peer_id =
     (let peer = peers_authentication db peer_id in
      if av_revoked peer then Inl (FaspError ''auth.peer_revoked'')
      else if av_state peer \<noteq> Some Paired then Inl (FaspError ''auth.not_paired'')
      else if (case av_expires_at peer of None \<Rightarrow> False | Some t \<Rightarrow> t \<le> now)
      then Inl (FaspError ''auth.pairing_expired'')
      else Inr peer)"

definition require_prefix :: "authentication_view \<Rightarrow> string \<Rightarrow> unit result" where
  "require_prefix peer capability =
     (if \<not> allows capability (av_prefixes peer) then Inl (FaspError ''auth.not_authorized'') else Inr ())"

definition harness_issue_grant ::
    "('h audit_payload \<Rightarrow> 'h) \<Rightarrow> 'h \<Rightarrow> (string \<times> string \<times> string list \<times> timestamp \<times> timestamp \<Rightarrow> string) \<Rightarrow>
     'h trust_db \<Rightarrow> string \<Rightarrow> string \<Rightarrow> string \<Rightarrow> string list \<Rightarrow> timestamp \<Rightarrow> int \<Rightarrow>
     string option \<Rightarrow> json option \<Rightarrow> ('h trust_db \<times> grant_row) result" where
  "harness_issue_grant hx gen sha db token system_id subject_peer scopes now duration purpose constraints =
     (if peers_get db subject_peer = None then Inl (FaspError ''schema.invalid'')
      else grants_issue hx gen sha db (''grant-'' @ token) system_id subject_peer scopes now (now + duration)
             purpose constraints)"

definition harness_revoke_grant ::
    "('h audit_payload \<Rightarrow> 'h) \<Rightarrow> 'h \<Rightarrow> 'h trust_db \<Rightarrow> string \<Rightarrow> timestamp \<Rightarrow> 'h trust_db result" where
  "harness_revoke_grant hx gen db grant_id now =
     (case grants_revoke hx gen db grant_id now of
        (db', True) \<Rightarrow> Inr db'
      | (db', False) \<Rightarrow> Inl (FaspError ''schema.invalid''))"

section \<open>Steps\<close>

text \<open>
  One change of the trust tables: a peer says hello, the operator confirms a pairing, revokes a
  peer, issues a grant or revokes one.
\<close>

datatype trust_op =
    Hello string id_card string timestamp "string list"
  | Confirm string string timestamp timestamp "string list option"
  | RevokePeer string timestamp string "string option"
  | IssueGrant string string string "string list" timestamp int "string option" "json option"
  | RevokeGrant string timestamp

fun trust_apply ::
    "('h audit_payload \<Rightarrow> 'h) \<Rightarrow> 'h \<Rightarrow> (string \<times> string \<times> string list \<times> timestamp \<times> timestamp \<Rightarrow> string) \<Rightarrow>
     'h trust_db \<Rightarrow> trust_op \<Rightarrow> 'h trust_db" where
  "trust_apply hx gen sha db (Hello p idc code seen scopes) =
     (case upsert_pending_or_seen db p idc code seen scopes of Inl e \<Rightarrow> db | Inr db' \<Rightarrow> db')"
| "trust_apply hx gen sha db (Confirm p code paired expires scopes) =
     fst (peers_confirm hx gen db p code paired expires scopes)"
| "trust_apply hx gen sha db (RevokePeer p t reason ref) = revocations_revoke hx gen db p t reason ref"
| "trust_apply hx gen sha db (IssueGrant token sys subj scopes now duration purpose constraints) =
     (case harness_issue_grant hx gen sha db token sys subj scopes now duration purpose constraints of
        Inl e \<Rightarrow> db | Inr (db', g) \<Rightarrow> db')"
| "trust_apply hx gen sha db (RevokeGrant gid now) =
     (case harness_revoke_grant hx gen db gid now of Inl e \<Rightarrow> db | Inr db' \<Rightarrow> db')"

definition trust_step ::
    "('h audit_payload \<Rightarrow> 'h) \<Rightarrow> 'h \<Rightarrow> (string \<times> string \<times> string list \<times> timestamp \<times> timestamp \<Rightarrow> string) \<Rightarrow>
     'h trust_db \<Rightarrow> 'h trust_db \<Rightarrow> bool" where
  "trust_step hx gen sha db db' = (\<exists>op. db' = trust_apply hx gen sha db op)"

section \<open>The invariant\<close>

definition trust_inv :: "('h audit_payload \<Rightarrow> 'h) \<Rightarrow> 'h \<Rightarrow> 'h trust_db \<Rightarrow> bool" where
  "trust_inv hx gen db =
     (distinct (map pe_peer_id (td_peers db)) \<and>
      distinct (map rv_peer_id (td_revocations db)) \<and>
      distinct (map gr_grant_id (td_grants db)) \<and>
      count_where (\<lambda>r. pe_state r = Pending) (td_peers db) \<le> max_pending \<and>
      audit_intact hx gen (td_log db))"

definition grant_revoked :: "'h trust_db \<Rightarrow> string \<Rightarrow> bool" where
  "grant_revoked db gid = list_ex (\<lambda>g. gr_grant_id g = gid \<and> gr_revoked_at g \<noteq> None) (td_grants db)"

fun confirms :: "string \<Rightarrow> trust_op \<Rightarrow> bool" where
  "confirms p (Confirm q _ _ _ _) = (p = q)"
| "confirms p _ = False"

lemma peers_get_None: "peers_get db p = None \<longleftrightarrow> p \<notin> pe_peer_id ` set (td_peers db)"
  by (auto simp: peers_get_def find_None_all)

lemma grants_get_None: "grants_get db g = None \<longleftrightarrow> g \<notin> gr_grant_id ` set (td_grants db)"
  by (auto simp: grants_get_def find_None_all)

lemma is_revoked_iff: "is_revoked db p \<longleftrightarrow> p \<in> rv_peer_id ` set (td_revocations db)"
  by (auto simp: is_revoked_def list_ex_iff)

lemma count_pending_update:
  assumes "\<And>r. pe_state (f r) = Pending \<Longrightarrow> pe_state r = Pending"
  shows "count_where (\<lambda>r. pe_state r = Pending) (update_where p f xs)
         \<le> count_where (\<lambda>r. pe_state r = Pending) xs"
  unfolding count_update_where by (rule count_where_mono) (use assms in \<open>auto split: if_splits\<close>)

lemma distinct_map_filter_keys: "distinct (map k xs) \<Longrightarrow> distinct (map k (filter p xs))"
  by (rule distinct_map_filter)

lemma upsert_inv:
  assumes "trust_inv hx gen db" and "upsert_pending_or_seen db p idc code seen scopes = Inr db'"
  shows "trust_inv hx gen db'"
proof (cases "peers_get db p")
  case None
  then have "p \<notin> pe_peer_id ` set (td_peers db)" by (simp add: peers_get_None)
  with None show ?thesis
    using assms
    by (auto simp: trust_inv_def upsert_pending_or_seen_def Let_def
        intro: distinct_map_filter_keys split: if_splits)
next
  case (Some row)
  then show ?thesis
    using assms count_pending_update
      [of "\<lambda>r. r\<lparr>pe_card := idc, pe_pair_code := code, pe_seen_at := seen\<rparr>" "\<lambda>r. pe_peer_id r = p" "td_peers db"]
    by (auto simp: trust_inv_def upsert_pending_or_seen_def map_update_where split: if_splits)
qed

lemma confirm_inv:
  assumes "trust_inv hx gen db"
  shows "trust_inv hx gen (fst (peers_confirm hx gen db p code paired expires scopes))"
proof -
  let ?f = "\<lambda>r. (case scopes of None \<Rightarrow> r\<lparr>pe_state := Paired, pe_paired_at := Some paired, pe_expires_at := Some expires\<rparr>
    | Some ps \<Rightarrow> r\<lparr>pe_state := Paired, pe_paired_at := Some paired, pe_expires_at := Some expires, pe_prefixes := ps\<rparr>)"
  have "count_where (\<lambda>r. pe_state r = Pending) (update_where (\<lambda>r. pe_peer_id r = p) ?f (td_peers db))
      \<le> count_where (\<lambda>r. pe_state r = Pending) (td_peers db)"
    by (rule count_pending_update) (auto split: option.splits)
  moreover have "map pe_peer_id (update_where (\<lambda>r. pe_peer_id r = p) ?f (td_peers db)) = map pe_peer_id (td_peers db)"
    by (rule map_update_where) (auto split: option.splits)
  moreover have "(\<lambda>r. case scopes of
        None \<Rightarrow> r\<lparr>pe_state := Paired, pe_paired_at := Some paired, pe_expires_at := Some expires\<rparr>
      | Some ps \<Rightarrow> r\<lparr>pe_state := Paired, pe_paired_at := Some paired, pe_expires_at := Some expires, pe_prefixes := ps\<rparr>)
      = (\<lambda>r. case scopes of None \<Rightarrow> r\<lparr>pe_state := Paired, pe_paired_at := Some paired, pe_expires_at := Some expires\<rparr>
      | Some ps \<Rightarrow> r\<lparr>pe_state := Paired, pe_paired_at := Some paired, pe_expires_at := Some expires\<rparr>\<lparr>pe_prefixes := ps\<rparr>)"
    by (auto split: option.splits)
  ultimately show ?thesis
    using assms
    by (auto simp: trust_inv_def peers_confirm_def Let_def audit_append_intact
        intro: distinct_map_filter_keys split: option.splits)
qed

lemma revoke_inv: "trust_inv hx gen db \<Longrightarrow> trust_inv hx gen (revocations_revoke hx gen db p t reason ref)"
  by (auto simp: trust_inv_def revocations_revoke_def Let_def audit_append_intact map_update_where
      is_revoked_def list_ex_iff)

lemma issue_inv:
  "trust_inv hx gen db \<Longrightarrow>
   harness_issue_grant hx gen sha db token sys subj scopes now duration purpose constraints = Inr (db', g) \<Longrightarrow>
   trust_inv hx gen db'"
  by (auto simp: trust_inv_def harness_issue_grant_def grants_issue_def Let_def audit_append_intact
      grants_get_None image_iff split: if_splits)

lemma grants_revoke_inv: "trust_inv hx gen db \<Longrightarrow> trust_inv hx gen (fst (grants_revoke hx gen db gid now))"
  by (auto simp: trust_inv_def grants_revoke_def Let_def audit_append_intact map_update_where)

lemma harness_revoke_grant_Inr:
  "harness_revoke_grant hx gen db gid now = Inr db' \<Longrightarrow> db' = fst (grants_revoke hx gen db gid now)"
  by (auto simp: harness_revoke_grant_def split: prod.splits bool.splits)

lemma trust_apply_inv: "trust_inv hx gen db \<Longrightarrow> trust_inv hx gen (trust_apply hx gen sha db op)"
  by (cases op)
     (auto intro: upsert_inv confirm_inv revoke_inv issue_inv
       dest!: harness_revoke_grant_Inr intro!: grants_revoke_inv split: sum.splits)

interpretation trust: invariant_system
  "\<lambda>db. db = trust_empty" "trust_step hx gen sha" "trust_inv hx gen"
  for hx :: "'h audit_payload \<Rightarrow> 'h" and gen sha
proof unfold_locales
  show "db = trust_empty \<Longrightarrow> trust_inv hx gen db" for db
    by (simp add: trust_inv_def trust_empty_def audit_intact_Nil)
  show "trust_inv hx gen db \<Longrightarrow> trust_step hx gen sha db db' \<Longrightarrow> trust_inv hx gen db'" for db db'
    by (auto simp: trust_step_def intro: trust_apply_inv)
qed

section \<open>Properties\<close>

text \<open>
  From an empty database, whatever peers and operators do, the primary keys of the three
  tables stay unique, at most 256 pairings are pending at a time, and the audit log verifies.
\<close>

theorem trust_reachable_inv:
  assumes "reachable (\<lambda>db. db = trust_empty) (trust_step hx gen sha) db"
  shows "distinct (map pe_peer_id (td_peers db)) \<and> distinct (map rv_peer_id (td_revocations db))
       \<and> distinct (map gr_grant_id (td_grants db))
       \<and> count_where (\<lambda>r. pe_state r = Pending) (td_peers db) \<le> 256
       \<and> audit_verify hx gen (td_log db) = (True, None)"
  using trust.reachable_inv [OF assms] intact_verify [of hx gen "td_log db"]
  by (simp add: trust_inv_def max_pending_def)

theorem trust_reachable_inv_witness:
  "audit_verify (\<lambda>p. Suc (ap_prev_hash p)) 0
     (td_log (trust_apply (\<lambda>p. Suc (ap_prev_hash p)) 0 (\<lambda>_. ''d'') trust_empty (RevokePeer ''eve'' 5 ''key leak'' None)))
   = (True, None)"
proof -
  have "reachable (\<lambda>db. db = trust_empty) (trust_step (\<lambda>p. Suc (ap_prev_hash p)) 0 (\<lambda>_. ''d''))
    (trust_apply (\<lambda>p. Suc (ap_prev_hash p)) 0 (\<lambda>_. ''d'') trust_empty (RevokePeer ''eve'' 5 ''key leak'' None))"
    by (rule reachable_step [OF reachable_init]) (auto simp only: trust_step_def)
  from trust_reachable_inv [OF this] show ?thesis by simp
qed

lemma is_revoked_hello:
  "upsert_pending_or_seen db p idc code seen scopes = Inr db' \<Longrightarrow> td_revocations db' = td_revocations db"
  by (auto simp: upsert_pending_or_seen_def Let_def split: option.splits if_splits)

lemma is_revoked_confirm_other:
  "q \<noteq> p \<Longrightarrow> is_revoked (fst (peers_confirm hx gen db q code paired expires scopes)) p = is_revoked db p"
  by (auto simp: peers_confirm_def Let_def is_revoked_def list_ex_iff split: option.splits)

lemma is_revoked_revoke:
  "is_revoked (revocations_revoke hx gen db q t reason ref) p \<longleftrightarrow> p = q \<or> is_revoked db p"
  by (auto simp: is_revoked_iff revocations_revoke_def Let_def image_update_where)

lemma issue_revocations:
  "harness_issue_grant hx gen sha db token sys subj scopes now duration purpose constraints = Inr (db', g) \<Longrightarrow>
   td_revocations db' = td_revocations db"
  by (auto simp: harness_issue_grant_def grants_issue_def Let_def split: if_splits)

lemma revoke_grant_revocations [simp]:
  "td_revocations (fst (grants_revoke hx gen db gid now)) = td_revocations db"
  by (simp add: grants_revoke_def Let_def)

lemma revoked_persists:
  "is_revoked db p \<Longrightarrow> \<not> confirms p op \<Longrightarrow> is_revoked (trust_apply hx gen sha db op) p"
proof (cases op)
  case (Confirm q code paired expires scopes)
  then show "is_revoked db p \<Longrightarrow> \<not> confirms p op \<Longrightarrow> ?thesis" by (simp add: is_revoked_confirm_other)
next
  case (RevokeGrant gid now)
  then show "is_revoked db p \<Longrightarrow> \<not> confirms p op \<Longrightarrow> ?thesis"
    by (auto simp: is_revoked_def dest!: harness_revoke_grant_Inr split: sum.splits)
next
  case (RevokePeer q t reason ref)
  then show "is_revoked db p \<Longrightarrow> \<not> confirms p op \<Longrightarrow> ?thesis" by (simp add: is_revoked_revoke)
qed (auto simp: is_revoked_def dest: is_revoked_hello issue_revocations split: sum.splits)



text \<open>
  What a grant check lets through: no grant was named and none is required, or the named
  grant exists, was issued to this very peer, is neither revoked nor expired, carries the
  expected purpose if one is expected, and its scopes cover the capability.
\<close>

theorem validate_grant_iff:
  "validate_grant_if_required db now peer capability grant_id require purpose = Inr () \<longleftrightarrow>
     (case grant_id of
        None \<Rightarrow> \<not> require
      | Some gid \<Rightarrow> (\<exists>g \<in> set (td_grants db). grants_get db gid = Some g \<and> gr_grant_id g = gid \<and>
            gr_subject_peer g = peer \<and> gr_revoked_at g = None \<and> now < gr_expires_at g \<and>
            purpose \<in> {None, gr_purpose g} \<and> (\<exists>s \<in> set (gr_prefixes g). matches_scope capability s)))"
  by (auto simp: validate_grant_if_required_def allows_def list_ex_iff grants_get_def
      dest: find_Some_mem split: option.splits)

lemma grants_get_mem: "distinct (map gr_grant_id (td_grants db)) \<Longrightarrow> g \<in> set (td_grants db) \<Longrightarrow>
  grants_get db (gr_grant_id g) = Some g"
  unfolding grants_get_def by (rule find_distinct_key)

lemma upsert_grants:
  "upsert_pending_or_seen db p idc code seen scopes = Inr db' \<Longrightarrow> td_grants db' = td_grants db"
  by (auto simp: upsert_pending_or_seen_def Let_def split: option.splits if_splits)

lemma confirm_grants [simp]:
  "td_grants (fst (peers_confirm hx gen db p code paired expires scopes)) = td_grants db"
  by (auto simp: peers_confirm_def Let_def split: option.splits)

lemma revoke_grants [simp]: "td_grants (revocations_revoke hx gen db p t reason ref) = td_grants db"
  by (simp add: revocations_revoke_def Let_def)

lemma issue_grants:
  "harness_issue_grant hx gen sha db token sys subj scopes now duration purpose constraints = Inr (db', g) \<Longrightarrow>
   set (td_grants db) \<subseteq> set (td_grants db')"
  by (auto simp: harness_issue_grant_def grants_issue_def Let_def split: if_splits)

lemma grants_revoke_keeps:
  "grant_revoked db gid \<Longrightarrow> grant_revoked (fst (grants_revoke hx gen db gid' now)) gid"
  by (fastforce simp: grant_revoked_def grants_revoke_def Let_def list_ex_iff set_update_where)

lemma grant_revoked_persists: "grant_revoked db gid \<Longrightarrow> grant_revoked (trust_apply hx gen sha db op) gid"
proof (cases op)
  case (Hello p idc code seen scopes)
  then show "grant_revoked db gid \<Longrightarrow> ?thesis"
    by (auto simp: grant_revoked_def dest: upsert_grants split: sum.splits)
next
  case (IssueGrant token sys subj scopes now duration purpose constraints)
  then show "grant_revoked db gid \<Longrightarrow> ?thesis"
    by (auto simp: grant_revoked_def list_ex_iff dest!: issue_grants split: sum.splits)
next
  case (RevokeGrant gid' now)
  then show "grant_revoked db gid \<Longrightarrow> ?thesis"
    by (auto dest!: harness_revoke_grant_Inr intro: grants_revoke_keeps split: sum.splits)
qed (simp_all add: grant_revoked_def)

text \<open>
  Revoking a grant is final: once it is revoked, no later operation makes the grant check
  succeed for that grant again, for any peer, capability or purpose.
\<close>

theorem grant_revocation_final:
  assumes "trust_inv hx gen db" and "grant_revoked db gid"
  shows "validate_grant_if_required (fold (\<lambda>op db. trust_apply hx gen sha db op) ops db) now peer capability
           (Some gid) require purpose \<noteq> Inr ()"
proof -
  let ?db = "fold (\<lambda>op db. trust_apply hx gen sha db op) ops db"
  have "trust_inv hx gen ?db \<and> grant_revoked ?db gid"
    using assms by (induction ops arbitrary: db) (auto simp: trust_apply_inv grant_revoked_persists)
  then obtain g where "grants_get ?db gid = Some g" and "gr_revoked_at g \<noteq> None"
    using grants_get_mem [of ?db] by (auto simp: grant_revoked_def list_ex_iff trust_inv_def)
  then show ?thesis by (auto simp: validate_grant_if_required_def)
qed

theorem grant_revocation_final_witness:
  "validate_grant_if_required
     (fold (\<lambda>op db. trust_apply (\<lambda>p. Suc (ap_prev_hash p)) 0 (\<lambda>_. ''d'') db op)
       [RevokePeer ''eve'' 5 ''x'' None]
       \<lparr>td_peers = [], td_revocations = [],
        td_grants = [\<lparr>gr_grant_id = ''g'', gr_issuer = ''me'', gr_subject_peer = ''bob'', gr_prefixes = [''dock.''],
          gr_digest = [], gr_purpose = None, gr_constraints = None, gr_issued_at = 0, gr_expires_at = 99,
          gr_revoked_at = Some 3\<rparr>],
        td_log = [] :: nat audit_row list\<rparr>)
     4 ''bob'' ''dock.open'' (Some ''g'') True None \<noteq> Inr ()"
  by (rule grant_revocation_final) (simp_all add: trust_inv_def audit_intact_def grant_revoked_def)

end
