(* ===== verification/Outbox.thy ===== *)
theory Outbox
  imports Prelude
begin

text \<open>
  The durable send queue: \<^verbatim>\<open>src/fasp_harness/edge/outbox.py\<close>. The \<^verbatim>\<open>outbox\<close> table is a list of rows
  in the order of their identifiers, with the counter behind \<^verbatim>\<open>AUTOINCREMENT\<close>, so an identifier is
  never used twice. The clock readings, the jitter and the time stamps are arguments; parsing an
  ISO date and printing a value that is not a string are functions of the standard library and
  are fields of the configuration.
\<close>

section \<open>State\<close>

datatype outbox_state = OPending | OInflight | OSent | ODead

record outbox_row =
  ob_row_id :: int
  ob_message_id :: string
  ob_destination :: string
  ob_kind :: string
  ob_envelope :: json
  ob_state :: outbox_state
  ob_attempts :: int
  ob_next_attempt_ms :: int
  ob_expires_at_ms :: "int option"
  ob_created_at :: timestamp
  ob_updated_at :: timestamp
  ob_last_error :: "string option"
  ob_response :: "json option"

record outbox_db =
  ox_rows :: "outbox_row list"
  ox_seq :: int

record OutboxMessage =
  om_row_id :: int
  om_message_id :: string
  om_destination :: string
  om_kind :: string
  om_envelope :: json
  om_attempts :: int
  om_created_at :: timestamp

record outbox_config =
  oc_max_attempts :: int
  oc_base_backoff_s :: rat
  oc_max_backoff_s :: rat
  oc_capacity :: nat
  oc_parse_stamp :: "json \<Rightarrow> timestamp result"
  oc_str :: "json \<Rightarrow> string"

definition outbox_empty :: outbox_db where
  "outbox_empty = \<lparr>ox_rows = [], ox_seq = 0\<rparr>"

definition sent_retention_ms :: int where
  "sent_retention_ms = 86400 * 1000"

definition ob_active :: "outbox_row \<Rightarrow> bool" where
  "ob_active r = (ob_state r = OPending \<or> ob_state r = OInflight)"

section \<open>Enqueueing\<close>

definition kind_of :: "outbox_config \<Rightarrow> (string \<times> json) list \<Rightarrow> string" where
  "kind_of cfg env =
     (case map_of env ''kind'' of None \<Rightarrow> '''' | Some (JStr s) \<Rightarrow> s | Some v \<Rightarrow> oc_str cfg v)"

text \<open>The deadline in the signed envelope; only \<^verbatim>\<open>TypeError\<close> and \<^verbatim>\<open>ValueError\<close> are caught.\<close>

definition signed_deadline :: "outbox_config \<Rightarrow> (string \<times> json) list \<Rightarrow> int option result" where
  "signed_deadline cfg env =
     (case map_of env ''expires_at'' of
        None \<Rightarrow> Inr None
      | Some JNull \<Rightarrow> Inr None
      | Some v \<Rightarrow>
          (case oc_parse_stamp cfg v of
             Inr t \<Rightarrow> Inr (Some t)
           | Inl e \<Rightarrow> if e = TypeError \<or> e = ValueError then Inl (FaspError ''schema.invalid'') else Inl e))"

fun min_option :: "int option \<Rightarrow> int option \<Rightarrow> int option" where
  "min_option None b = b"
| "min_option a None = a"
| "min_option (Some a) (Some b) = Some (min a b)"

definition expired_by :: "int option \<Rightarrow> int \<Rightarrow> bool" where
  "expired_by e now_ms = (case e of None \<Rightarrow> False | Some t \<Rightarrow> t \<le> now_ms)"

definition ob_find :: "outbox_db \<Rightarrow> string \<Rightarrow> outbox_row option" where
  "ob_find db message_id = find (\<lambda>r. ob_message_id r = message_id) (ox_rows db)"

definition enqueue_txn ::
    "outbox_config \<Rightarrow> outbox_db \<Rightarrow> int \<Rightarrow> timestamp \<Rightarrow> string \<Rightarrow> string \<Rightarrow> (string \<times> json) list \<Rightarrow> int option \<Rightarrow>
     rat \<Rightarrow> (outbox_db \<times> OutboxMessage) result" where
  "enqueue_txn cfg db now_ms st message_id destination env expiry not_before_s =
     (let message = (\<lambda>row_id attempts created. \<lparr>om_row_id = row_id, om_message_id = message_id,
            om_destination = destination, om_kind = kind_of cfg env, om_envelope = JObj env,
            om_attempts = attempts, om_created_at = created\<rparr>)
      in case ob_find db message_id of
           Some existing \<Rightarrow>
             (if ob_destination existing \<noteq> destination \<or> \<not> py_eq (ob_envelope existing) (JObj env)
              then Inl (FaspError ''schema.idempotency_conflict'')
              else Inr (db, message (ob_row_id existing) (ob_attempts existing) (ob_created_at existing)))
         | None \<Rightarrow>
             (if count_where ob_active (ox_rows db) \<ge> oc_capacity cfg then Inl AdmissionRejected
              else (let row_id = ox_seq db + 1;
                        row = \<lparr>ob_row_id = row_id, ob_message_id = message_id, ob_destination = destination,
                               ob_kind = kind_of cfg env, ob_envelope = JObj env, ob_state = OPending,
                               ob_attempts = 0, ob_next_attempt_ms = now_ms + py_trunc (not_before_s * 1000),
                               ob_expires_at_ms = expiry, ob_created_at = st, ob_updated_at = st,
                               ob_last_error = None, ob_response = None\<rparr>
                    in Inr (\<lparr>ox_rows = ox_rows db @ [row], ox_seq = row_id\<rparr>, message row_id 0 st))))"

definition enqueue ::
    "outbox_config \<Rightarrow> outbox_db \<Rightarrow> int \<Rightarrow> timestamp \<Rightarrow> string \<Rightarrow> (string \<times> json) list \<Rightarrow> rat option \<Rightarrow> rat \<Rightarrow>
     (outbox_db \<times> OutboxMessage) result" where
  "enqueue cfg db now_ms st destination env expires_in_s not_before_s =
     (case map_of env ''message_id'' of
        Some (JStr message_id) \<Rightarrow>
          (if message_id = [] then Inl (FaspError ''schema.invalid'')
           else bind_result (signed_deadline cfg env) (\<lambda>signed.
             let ttl_deadline = map_option (\<lambda>s. now_ms + py_trunc (s * 1000)) expires_in_s;
                 expiry = min_option signed ttl_deadline
             in if expired_by expiry now_ms then Inl (FaspError ''auth.envelope_expired'')
                else enqueue_txn cfg db now_ms st message_id destination env expiry not_before_s))
      | _ \<Rightarrow> Inl (FaspError ''schema.invalid''))"

section \<open>Draining\<close>

definition ob_update :: "(outbox_row \<Rightarrow> bool) \<Rightarrow> (outbox_row \<Rightarrow> outbox_row) \<Rightarrow> outbox_db \<Rightarrow> outbox_db" where
  "ob_update p f db = db\<lparr>ox_rows := update_where p f (ox_rows db)\<rparr>"

definition recover_inflight :: "outbox_db \<Rightarrow> int \<Rightarrow> timestamp \<Rightarrow> outbox_db \<times> nat" where
  "recover_inflight db now_ms st =
     (let hit = (\<lambda>r. ob_state r = OInflight)
      in (ob_update hit (\<lambda>r. r\<lparr>ob_state := OPending, ob_next_attempt_ms := now_ms,
            ob_last_error := Some ''recovered after restart; delivery uncertain'', ob_updated_at := st\<rparr>) db,
          count_where hit (ox_rows db)))"

definition expire_pending :: "int \<Rightarrow> timestamp \<Rightarrow> outbox_db \<Rightarrow> outbox_db" where
  "expire_pending now_ms st =
     ob_update (\<lambda>r. ob_state r = OPending \<and> expired_by (ob_expires_at_ms r) now_ms)
       (\<lambda>r. r\<lparr>ob_state := ODead, ob_last_error := Some ''expired before delivery'', ob_updated_at := st\<rparr>)"

definition drop_sent :: "timestamp \<Rightarrow> outbox_db \<Rightarrow> outbox_db" where
  "drop_sent cutoff db =
     db\<lparr>ox_rows := filter (\<lambda>r. \<not> (ob_state r = OSent \<and> ob_updated_at r < cutoff)) (ox_rows db)\<rparr>"

text \<open>\<^verbatim>\<open>row_id = (SELECT MIN(row_id) ...)\<close> over the undelivered rows of the row's destination.\<close>

definition is_head :: "outbox_row list \<Rightarrow> outbox_row \<Rightarrow> bool" where
  "is_head rows r =
     list_all (\<lambda>r'. ob_active r' \<and> ob_destination r' = ob_destination r \<longrightarrow> ob_row_id r \<le> ob_row_id r') rows"

definition sql_limit :: "int \<Rightarrow> 'a list \<Rightarrow> 'a list" where
  "sql_limit n xs = (if n < 0 then xs else take (nat n) xs)"

definition ready_rows :: "outbox_db \<Rightarrow> int \<Rightarrow> int \<Rightarrow> outbox_row list" where
  "ready_rows db now_ms limit =
     sql_limit limit (sort_key ob_row_id
       (filter (\<lambda>r. ob_state r = OPending \<and> ob_next_attempt_ms r \<le> now_ms \<and> is_head (ox_rows db) r) (ox_rows db)))"

definition message_of :: "outbox_row \<Rightarrow> OutboxMessage" where
  "message_of r = \<lparr>om_row_id = ob_row_id r, om_message_id = ob_message_id r, om_destination = ob_destination r,
     om_kind = ob_kind r, om_envelope = ob_envelope r, om_attempts = ob_attempts r, om_created_at = ob_created_at r\<rparr>"

definition claim_ready :: "outbox_db \<Rightarrow> int \<Rightarrow> int \<Rightarrow> timestamp \<Rightarrow> outbox_db \<times> OutboxMessage list" where
  "claim_ready db limit now_ms st =
     (let db1 = drop_sent (st - sent_retention_ms) (expire_pending now_ms st db);
          rows = ready_rows db1 now_ms limit
      in (ob_update (\<lambda>r. ob_row_id r \<in> set (map ob_row_id rows))
            (\<lambda>r. r\<lparr>ob_state := OInflight, ob_updated_at := st\<rparr>) db1,
          map message_of rows))"

definition mark_sent :: "outbox_db \<Rightarrow> int \<Rightarrow> json option \<Rightarrow> timestamp \<Rightarrow> outbox_db" where
  "mark_sent db row_id response st =
     ob_update (\<lambda>r. ob_row_id r = row_id)
       (\<lambda>r. r\<lparr>ob_state := OSent, ob_updated_at := st, ob_last_error := None, ob_response := response\<rparr>) db"

definition mark_dead :: "outbox_db \<Rightarrow> int \<Rightarrow> string \<Rightarrow> json option \<Rightarrow> timestamp \<Rightarrow> outbox_db" where
  "mark_dead db row_id error response st =
     ob_update (\<lambda>r. ob_row_id r = row_id)
       (\<lambda>r. r\<lparr>ob_state := ODead, ob_last_error := Some (take 400 error), ob_updated_at := st, ob_response := response\<rparr>) db"

datatype failed_outcome = Missing | DeadLettered int | RetryIn int rat

definition backoff_s :: "outbox_config \<Rightarrow> int \<Rightarrow> rat \<Rightarrow> rat" where
  "backoff_s cfg attempts jitter =
     min (oc_base_backoff_s cfg * 2 ^ nat (attempts - 1)) (oc_max_backoff_s cfg) * jitter"

definition mark_failed ::
    "outbox_config \<Rightarrow> outbox_db \<Rightarrow> int \<Rightarrow> string \<Rightarrow> int \<Rightarrow> rat \<Rightarrow> timestamp \<Rightarrow> outbox_db \<times> failed_outcome" where
  "mark_failed cfg db row_id error now_ms jitter st =
     (case find (\<lambda>r. ob_row_id r = row_id) (ox_rows db) of
        None \<Rightarrow> (db, Missing)
      | Some row \<Rightarrow>
          (let attempts = ob_attempts row + 1
           in if attempts \<ge> oc_max_attempts cfg
              then (ob_update (\<lambda>r. ob_row_id r = row_id)
                     (\<lambda>r. r\<lparr>ob_state := ODead, ob_attempts := attempts, ob_last_error := Some (take 400 error),
                            ob_updated_at := st\<rparr>) db,
                    DeadLettered attempts)
              else (let delay_s = backoff_s cfg attempts jitter
                    in (ob_update (\<lambda>r. ob_row_id r = row_id)
                          (\<lambda>r. r\<lparr>ob_state := OPending, ob_attempts := attempts,
                                 ob_next_attempt_ms := now_ms + py_trunc (delay_s * 1000),
                                 ob_last_error := Some (take 400 error), ob_updated_at := st\<rparr>) db,
                        RetryIn attempts delay_s))))"

record flush_counts =
  fc_attempted :: nat
  fc_sent :: nat
  fc_retry :: nat
  fc_dead :: nat

text \<open>
  \<open>send\<close> answers \<open>Inr delivered\<close>, or \<open>Inl text\<close> when it raises, with the rendered class and
  message; \<open>jitter\<close> is the number drawn if the message has to be retried.
\<close>

fun flush_all ::
    "outbox_config \<Rightarrow> (OutboxMessage \<Rightarrow> string + bool) \<Rightarrow> (OutboxMessage \<Rightarrow> rat) \<Rightarrow> int \<Rightarrow> timestamp \<Rightarrow>
     OutboxMessage list \<Rightarrow> outbox_db \<Rightarrow> flush_counts \<Rightarrow> outbox_db \<times> flush_counts" where
  "flush_all cfg send jitter now_ms st [] db c = (db, c)"
| "flush_all cfg send jitter now_ms st (m # ms) db c =
     (let c = c\<lparr>fc_attempted := fc_attempted c + 1\<rparr>;
          (delivered, error) =
            (case send m of
               Inr d \<Rightarrow> (d, if d then '''' else ''delivery reported failure'')
             | Inl text \<Rightarrow> (False, text))
      in if delivered
         then flush_all cfg send jitter now_ms st ms (mark_sent db (om_row_id m) None st) (c\<lparr>fc_sent := fc_sent c + 1\<rparr>)
         else (case mark_failed cfg db (om_row_id m) error now_ms (jitter m) st of
                 (db', DeadLettered _) \<Rightarrow> flush_all cfg send jitter now_ms st ms db' (c\<lparr>fc_dead := fc_dead c + 1\<rparr>)
               | (db', _) \<Rightarrow> flush_all cfg send jitter now_ms st ms db' (c\<lparr>fc_retry := fc_retry c + 1\<rparr>)))"

definition flush ::
    "outbox_config \<Rightarrow> (OutboxMessage \<Rightarrow> string + bool) \<Rightarrow> (OutboxMessage \<Rightarrow> rat) \<Rightarrow> outbox_db \<Rightarrow> int \<Rightarrow> int \<Rightarrow> timestamp \<Rightarrow>
     outbox_db \<times> flush_counts" where
  "flush cfg send jitter db limit now_ms st =
     (case claim_ready db limit now_ms st of
        (db', ms) \<Rightarrow>
          flush_all cfg send jitter now_ms st ms db' \<lparr>fc_attempted = 0, fc_sent = 0, fc_retry = 0, fc_dead = 0\<rparr>)"

section \<open>Inspection and operator actions\<close>

definition depth :: "outbox_db \<Rightarrow> outbox_state \<Rightarrow> nat" where
  "depth db s = count_where (\<lambda>r. ob_state r = s) (ox_rows db)"

definition dead_letters :: "outbox_db \<Rightarrow> int \<Rightarrow> outbox_row list" where
  "dead_letters db limit =
     sql_limit limit (sort_key (\<lambda>r. - ob_row_id r) (filter (\<lambda>r. ob_state r = ODead) (ox_rows db)))"

definition requeue_where :: "(outbox_row \<Rightarrow> bool) \<Rightarrow> int \<Rightarrow> timestamp \<Rightarrow> outbox_db \<Rightarrow> outbox_db \<times> nat" where
  "requeue_where p now_ms st db =
     (let hit = (\<lambda>r. ob_state r = ODead \<and> p r)
      in (ob_update hit (\<lambda>r. r\<lparr>ob_state := OPending, ob_attempts := 0, ob_next_attempt_ms := now_ms, ob_updated_at := st\<rparr>) db,
          count_where hit (ox_rows db)))"

fun requeue_each :: "string list \<Rightarrow> int \<Rightarrow> timestamp \<Rightarrow> outbox_db \<Rightarrow> nat \<Rightarrow> outbox_db \<times> nat" where
  "requeue_each [] now_ms st db acc = (db, acc)"
| "requeue_each (m # ms) now_ms st db acc =
     (case requeue_where (\<lambda>r. ob_message_id r = m) now_ms st db of
        (db', n) \<Rightarrow> requeue_each ms now_ms st db' (acc + n))"

definition requeue_dead :: "outbox_db \<Rightarrow> string list option \<Rightarrow> int \<Rightarrow> timestamp \<Rightarrow> outbox_db \<times> nat" where
  "requeue_dead db message_ids now_ms st =
     (case message_ids of
        None \<Rightarrow> requeue_where (\<lambda>_. True) now_ms st db
      | Some ids \<Rightarrow> requeue_each ids now_ms st db 0)"

definition purge_sent :: "outbox_db \<Rightarrow> rat \<Rightarrow> timestamp \<Rightarrow> outbox_db \<times> nat" where
  "purge_sent db older_than_s st =
     (let cutoff = st - py_trunc (older_than_s * 1000)
      in (drop_sent cutoff db, count_where (\<lambda>r. ob_state r = OSent \<and> ob_updated_at r < cutoff) (ox_rows db)))"

section \<open>Running the queue\<close>

text \<open>
  Everything a node does with its queue short of the operator's \<open>requeue_dead\<close>: outcomes are
  reported for messages that were claimed.
\<close>

inductive outbox_step :: "outbox_config \<Rightarrow> outbox_db \<Rightarrow> outbox_db \<Rightarrow> bool" for cfg where
  step_enqueue: "enqueue cfg db now_ms st destination env ttl nb = Inr (db', m) \<Longrightarrow> outbox_step cfg db db'"
| step_recover: "outbox_step cfg db (fst (recover_inflight db now_ms st))"
| step_claim: "outbox_step cfg db (fst (claim_ready db limit now_ms st))"
| step_sent: "outbox_step cfg db (mark_sent db row_id response st)"
| step_dead: "outbox_step cfg db (mark_dead db row_id error response st)"
| step_failed: "(\<exists>r \<in> set (ox_rows db). ob_row_id r = row_id \<and> ob_state r = OInflight) \<Longrightarrow>
    outbox_step cfg db (fst (mark_failed cfg db row_id error now_ms jitter st))"
| step_purge: "outbox_step cfg db (fst (purge_sent db older_than_s st))"

definition head_inflight :: "outbox_row list \<Rightarrow> bool" where
  "head_inflight rows \<longleftrightarrow> (\<forall>r \<in> set rows. ob_state r = OInflight \<longrightarrow> is_head rows r)"

text \<open>
  Identifiers increase and are never reused, message identifiers are unique, a message in flight
  is the oldest undelivered one of its destination, and the undelivered rows fit the capacity.
\<close>

definition outbox_inv :: "outbox_config \<Rightarrow> outbox_db \<Rightarrow> bool" where
  "outbox_inv cfg db \<longleftrightarrow>
     distinct (map ob_row_id (ox_rows db)) \<and> (\<forall>r \<in> set (ox_rows db). ob_row_id r \<le> ox_seq db) \<and>
     distinct (map ob_message_id (ox_rows db)) \<and> head_inflight (ox_rows db) \<and>
     count_where ob_active (ox_rows db) \<le> oc_capacity cfg"

definition demo_outbox_config :: outbox_config where
  "demo_outbox_config = \<lparr>oc_max_attempts = 12, oc_base_backoff_s = 1/2, oc_max_backoff_s = 300, oc_capacity = 10000,
     oc_parse_stamp = (\<lambda>v. case v of JInt i \<Rightarrow> Inr i | _ \<Rightarrow> Inl ValueError), oc_str = (\<lambda>_. ''?'')\<rparr>"

section \<open>The invariant\<close>

text \<open>An update that neither revives a row nor puts one in flight except a head keeps the order.\<close>

lemma head_inflight_update:
  assumes "head_inflight rows"
    and keep: "\<And>r. r \<in> set rows \<Longrightarrow> p r \<Longrightarrow> ob_row_id (f r) = ob_row_id r \<and> ob_destination (f r) = ob_destination r"
    and act: "\<And>r. r \<in> set rows \<Longrightarrow> p r \<Longrightarrow> ob_active (f r) \<Longrightarrow> ob_active r"
    and infl: "\<And>r. r \<in> set rows \<Longrightarrow> p r \<Longrightarrow> ob_state (f r) = OInflight \<Longrightarrow> ob_state r = OInflight \<or> is_head rows r"
  shows "head_inflight (update_where p f rows)"
proof -
  let ?g = "\<lambda>r. if p r then f r else r"
  have g: "ob_row_id (?g r) = ob_row_id r" "ob_destination (?g r) = ob_destination r"
    "ob_active (?g r) \<Longrightarrow> ob_active r" "ob_state (?g r) = OInflight \<Longrightarrow> is_head rows r"
    if r: "r \<in> set rows" for r
  proof -
    show "ob_row_id (?g r) = ob_row_id r" "ob_destination (?g r) = ob_destination r" using keep r by simp_all
    show "ob_active r" if "ob_active (?g r)" using that act r by (cases "p r") simp_all
    show "is_head rows r" if s: "ob_state (?g r) = OInflight"
    proof -
      have "ob_state r = OInflight \<or> is_head rows r"
      proof (cases "p r")
        case True
        with s infl [OF r True] show ?thesis by simp
      next
        case False
        with s show ?thesis by simp
      qed
      then show ?thesis using assms(1) r unfolding head_inflight_def by blast
    qed
  qed
  have "is_head (update_where p f rows) (?g r)" if "r \<in> set rows" "ob_state (?g r) = OInflight" for r
  proof -
    have "is_head rows r" using g(4) that by blast
    then have "ob_row_id r \<le> ob_row_id x" if "x \<in> set rows" "ob_active x" "ob_destination x = ob_destination r" for x
      using that unfolding is_head_def list_all_iff by blast
    then show ?thesis
      unfolding is_head_def list_all_iff set_update_where ball_simps(9)
      using g that(1) by (intro ballI impI) (simp only:)
  qed
  then show ?thesis unfolding head_inflight_def set_update_where by blast
qed

lemma head_inflight_filter: "head_inflight rows \<Longrightarrow> head_inflight (filter q rows)"
  by (auto simp: head_inflight_def is_head_def list_all_iff)

lemma head_inflight_append:
  assumes "head_inflight rows" and "ob_state r = OPending" and "\<forall>x \<in> set rows. ob_row_id x \<le> ob_row_id r"
  shows "head_inflight (rows @ [r])"
  using assms by (auto simp: head_inflight_def is_head_def list_all_iff)

lemma count_where_filter_le: "count_where p (filter q xs) \<le> count_where p xs"
  by (induction xs) auto

lemma outbox_inv_update:
  assumes inv: "outbox_inv cfg db"
    and "\<And>r. r \<in> set (ox_rows db) \<Longrightarrow> p r \<Longrightarrow> ob_row_id (f r) = ob_row_id r \<and>
           ob_message_id (f r) = ob_message_id r \<and> ob_destination (f r) = ob_destination r"
    and act: "\<And>r. r \<in> set (ox_rows db) \<Longrightarrow> p r \<Longrightarrow> ob_active (f r) \<Longrightarrow> ob_active r"
    and "\<And>r. r \<in> set (ox_rows db) \<Longrightarrow> p r \<Longrightarrow> ob_state (f r) = OInflight \<Longrightarrow>
           ob_state r = OInflight \<or> is_head (ox_rows db) r"
  shows "outbox_inv cfg (ob_update p f db)"
proof -
  let ?g = "\<lambda>r. if p r then f r else r"
  have maps: "map ob_row_id (update_where p f (ox_rows db)) = map ob_row_id (ox_rows db)"
    "map ob_message_id (update_where p f (ox_rows db)) = map ob_message_id (ox_rows db)"
    using assms(2) by (simp_all add: update_where_def)
  have "count_where ob_active (update_where p f (ox_rows db)) \<le> count_where ob_active (ox_rows db)"
    unfolding count_update_where by (rule count_where_mono) (use act in \<open>auto split: if_splits\<close>)
  moreover have "\<forall>r \<in> set (update_where p f (ox_rows db)). ob_row_id r \<le> ox_seq db"
    using inv assms(2) by (auto simp: set_update_where outbox_inv_def)
  moreover have "head_inflight (update_where p f (ox_rows db))"
    by (rule head_inflight_update) (use assms in \<open>auto simp: outbox_inv_def\<close>)
  ultimately show ?thesis
    using inv unfolding outbox_inv_def ob_update_def by (simp add: maps)
qed

lemma outbox_inv_filter:
  assumes "outbox_inv cfg db"
  shows "outbox_inv cfg (db\<lparr>ox_rows := filter q (ox_rows db)\<rparr>)"
  using assms count_where_filter_le [of ob_active q "ox_rows db"]
  by (auto simp: outbox_inv_def head_inflight_filter distinct_map_filter)

lemma outbox_inv_claim_prep:
  "outbox_inv cfg db \<Longrightarrow> outbox_inv cfg (drop_sent cutoff (expire_pending now_ms st db))"
  unfolding drop_sent_def
  by (rule outbox_inv_filter, unfold expire_pending_def, rule outbox_inv_update) (auto simp: ob_active_def)

lemma ready_rowsD:
  "r \<in> set (ready_rows db now_ms limit) \<Longrightarrow>
   r \<in> set (ox_rows db) \<and> ob_state r = OPending \<and> ob_next_attempt_ms r \<le> now_ms \<and> is_head (ox_rows db) r"
  by (auto simp: ready_rows_def sql_limit_def split: if_splits dest: in_set_takeD)

lemma row_id_inj:
  assumes "outbox_inv cfg db" "r \<in> set (ox_rows db)" "r' \<in> set (ox_rows db)" "ob_row_id r = ob_row_id r'"
  shows "r = r'"
  using assms by (auto simp: outbox_inv_def distinct_map dest: inj_onD)

lemma outbox_inv_claim:
  assumes "outbox_inv cfg db"
  shows "outbox_inv cfg (fst (claim_ready db limit now_ms st))"
proof -
  let ?db = "drop_sent (st - sent_retention_ms) (expire_pending now_ms st db)"
  have inv: "outbox_inv cfg ?db" using assms by (rule outbox_inv_claim_prep)
  have "ob_state r = OPending \<and> is_head (ox_rows ?db) r"
    if "r \<in> set (ox_rows ?db)" "ob_row_id r \<in> ob_row_id ` set (ready_rows ?db now_ms limit)" for r
  proof -
    from that(2) obtain r' where r': "r' \<in> set (ready_rows ?db now_ms limit)" and "ob_row_id r = ob_row_id r'" by blast
    with row_id_inj [OF inv that(1), of r'] ready_rowsD [OF r'] show ?thesis by simp
  qed
  then show ?thesis
    unfolding claim_ready_def Let_def fst_conv
    by (intro outbox_inv_update [OF inv]) (auto simp: ob_active_def)
qed

lemma outbox_inv_enqueue:
  assumes inv: "outbox_inv cfg db" and "enqueue cfg db now_ms st destination env ttl nb = Inr (db', m)"
  shows "outbox_inv cfg db'"
proof -
  obtain mid expiry where txn: "enqueue_txn cfg db now_ms st mid destination env expiry nb = Inr (db', m)"
    using assms(2) by (auto simp: enqueue_def Let_def bind_result_Inr_iff split: option.splits json.splits if_splits)
  show ?thesis
  proof (cases "ob_find db mid")
    case (Some e)
    with txn inv show ?thesis by (auto simp: enqueue_txn_def split: if_splits)
  next
    case None
    then have new: "mid \<notin> ob_message_id ` set (ox_rows db)" by (auto simp: ob_find_def find_None_all)
    have "ox_seq db + 1 \<notin> ob_row_id ` set (ox_rows db)" using inv by (force simp: outbox_inv_def)
    moreover have "\<forall>r \<in> set (ox_rows db). ob_row_id r \<le> ox_seq db + 1" using inv by (force simp: outbox_inv_def)
    ultimately show ?thesis
      using txn None new inv
      by (auto simp: enqueue_txn_def Let_def outbox_inv_def split: if_splits intro!: head_inflight_append)
  qed
qed

lemma outbox_inv_failed:
  assumes inv: "outbox_inv cfg db" and "\<exists>r \<in> set (ox_rows db). ob_row_id r = row_id \<and> ob_state r = OInflight"
  shows "outbox_inv cfg (fst (mark_failed cfg db row_id error now_ms jitter st))"
proof -
  have "ob_active r" if "r \<in> set (ox_rows db)" "ob_row_id r = row_id" for r
    using assms(2) row_id_inj [OF inv] that by (auto simp: ob_active_def)
  then show ?thesis
    using inv by (auto simp: mark_failed_def Let_def ob_active_def split: option.splits intro!: outbox_inv_update)
qed

lemma outbox_inv_step:
  assumes "outbox_step cfg db db'" and inv: "outbox_inv cfg db"
  shows "outbox_inv cfg db'"
  using assms(1)
proof cases
  case step_enqueue
  with inv show ?thesis by (blast intro: outbox_inv_enqueue)
next
  case step_recover
  then show ?thesis
    using inv by (auto simp: recover_inflight_def ob_active_def Let_def intro!: outbox_inv_update)
next
  case step_claim
  with inv show ?thesis by (simp add: outbox_inv_claim)
next
  case step_sent
  then show ?thesis using inv by (auto simp: mark_sent_def ob_active_def intro!: outbox_inv_update)
next
  case step_dead
  then show ?thesis using inv by (auto simp: mark_dead_def ob_active_def intro!: outbox_inv_update)
next
  case step_failed
  with inv show ?thesis by (simp add: outbox_inv_failed)
next
  case step_purge
  with inv show ?thesis by (simp add: purge_sent_def drop_sent_def Let_def outbox_inv_filter)
qed

interpretation outbox_run: invariant_system "\<lambda>db. db = outbox_empty" "outbox_step cfg" "outbox_inv cfg"
proof unfold_locales
  show "outbox_inv cfg db" if "db = outbox_empty" for db
    using that by (simp add: outbox_empty_def outbox_inv_def head_inflight_def)
  show "outbox_inv cfg t" if "outbox_inv cfg s" "outbox_step cfg s t" for s t
    using that by (rule outbox_inv_step [rotated])
qed

lemma inflight_least:
  assumes "outbox_inv cfg db" and "x \<in> set (ox_rows db)" and "ob_state x = OInflight"
    and "r \<in> set (ox_rows db)" and "ob_active r" and "ob_destination r = ob_destination x"
  shows "ob_row_id x \<le> ob_row_id r"
  using assms unfolding outbox_inv_def head_inflight_def is_head_def list_all_iff by blast

section \<open>One round of delivery\<close>

definition ob_row :: "outbox_db \<Rightarrow> int \<Rightarrow> outbox_row option" where
  "ob_row db i = find (\<lambda>r. ob_row_id r = i) (ox_rows db)"

text \<open>What a round promises for the row of one claimed message.\<close>

definition settled :: "outbox_config \<Rightarrow> (OutboxMessage \<Rightarrow> string + bool) \<Rightarrow> (OutboxMessage \<Rightarrow> rat) \<Rightarrow> int \<Rightarrow> OutboxMessage \<Rightarrow> outbox_row \<Rightarrow> bool" where
  "settled cfg send jitter now_ms m r =
     (if send m = Inr True then ob_state r = OSent \<and> ob_attempts r = om_attempts m
      else ob_attempts r = om_attempts m + 1 \<and> ob_last_error r \<noteq> None \<and>
           (if om_attempts m + 1 \<ge> oc_max_attempts cfg then ob_state r = ODead
            else ob_state r = OPending \<and>
                 ob_next_attempt_ms r = now_ms + py_trunc (backoff_s cfg (om_attempts m + 1) (jitter m) * 1000)))"

lemma ob_row_update:
  assumes "\<And>r. ob_row_id (f r) = ob_row_id r"
  shows "ob_row (ob_update (\<lambda>r. ob_row_id r = k) f db) i =
           (if i = k then map_option f (ob_row db i) else ob_row db i)"
proof -
  have "find (\<lambda>r. ob_row_id r = i) (update_where (\<lambda>r. ob_row_id r = k) f rows) =
     (if i = k then map_option f (find (\<lambda>r. ob_row_id r = i) rows) else find (\<lambda>r. ob_row_id r = i) rows)" for rows
    using assms by (induction rows) auto
  then show ?thesis by (simp add: ob_row_def ob_update_def)
qed

lemma ob_row_mark_sent:
  "ob_row (mark_sent db k resp st) i =
     (if i = k then map_option (\<lambda>r. r\<lparr>ob_state := OSent, ob_updated_at := st, ob_last_error := None, ob_response := resp\<rparr>) (ob_row db i)
      else ob_row db i)"
  unfolding mark_sent_def by (rule ob_row_update) simp

lemma ob_row_mark_failed_other: "i \<noteq> k \<Longrightarrow> ob_row (fst (mark_failed cfg db k e now_ms j st)) i = ob_row db i"
  by (simp add: mark_failed_def Let_def ob_row_update split: option.split)

lemma mark_failed_settled:
  assumes "ob_row db (om_row_id m) = Some r" and "ob_attempts r = om_attempts m" and "send m \<noteq> Inr True"
  shows "\<exists>r'. ob_row (fst (mark_failed cfg db (om_row_id m) e now_ms (jitter m) st)) (om_row_id m) = Some r' \<and>
           settled cfg send jitter now_ms m r'"
  using assms by (simp add: mark_failed_def Let_def ob_row_def [symmetric] ob_row_update settled_def)

text \<open>One turn of the loop, as a state change: \<open>flush_all\<close> is this turn iterated.\<close>

definition flush_one ::
    "outbox_config \<Rightarrow> (OutboxMessage \<Rightarrow> string + bool) \<Rightarrow> (OutboxMessage \<Rightarrow> rat) \<Rightarrow> int \<Rightarrow> timestamp \<Rightarrow> OutboxMessage \<Rightarrow> outbox_db \<Rightarrow> outbox_db" where
  "flush_one cfg send jitter now_ms st m db =
     (if send m = Inr True then mark_sent db (om_row_id m) None st
      else fst (mark_failed cfg db (om_row_id m)
             (case send m of Inr d \<Rightarrow> ''delivery reported failure'' | Inl text \<Rightarrow> text) now_ms (jitter m) st))"

lemma flush_all_Cons:
  "\<exists>c'. flush_all cfg send jitter now_ms st (m # ms) db c = flush_all cfg send jitter now_ms st ms (flush_one cfg send jitter now_ms st m db) c' \<and>
     fc_attempted c' = fc_attempted c + 1 \<and>
     fc_sent c' + fc_retry c' + fc_dead c' = fc_sent c + fc_retry c + fc_dead c + 1"
proof (cases "send m = Inr True")
  case True
  then show ?thesis by (intro exI conjI, simp add: flush_one_def) simp_all
next
  case False
  then have "(case send m of Inr d \<Rightarrow> (d, if d then '''' else ''delivery reported failure'') | Inl text \<Rightarrow> (False, text)) =
     (False, case send m of Inr d \<Rightarrow> ''delivery reported failure'' | Inl text \<Rightarrow> text)"
    by (auto split: sum.splits)
  moreover obtain db' oc where "mark_failed cfg db (om_row_id m)
       (case send m of Inr d \<Rightarrow> ''delivery reported failure'' | Inl text \<Rightarrow> text) now_ms (jitter m) st = (db', oc)"
    by fastforce
  ultimately show ?thesis
    using False by (cases oc) (intro exI conjI, simp add: flush_one_def, simp_all)+
qed

lemma flush_one_other: "i \<noteq> om_row_id m \<Longrightarrow> ob_row (flush_one cfg send jitter now_ms st m db) i = ob_row db i"
  by (simp add: flush_one_def ob_row_mark_sent ob_row_mark_failed_other)

lemma flush_one_settled:
  assumes "ob_row db (om_row_id m) = Some r" and "ob_attempts r = om_attempts m"
  shows "\<exists>r'. ob_row (flush_one cfg send jitter now_ms st m db) (om_row_id m) = Some r' \<and> settled cfg send jitter now_ms m r'"
proof (cases "send m = Inr True")
  case True
  with assms show ?thesis by (simp add: flush_one_def ob_row_mark_sent settled_def)
next
  case False
  with mark_failed_settled [OF assms, of send] show ?thesis by (simp add: flush_one_def)
qed

lemma flush_all_spec:
  assumes "distinct (map om_row_id ms)"
    and "\<forall>m \<in> set ms. \<exists>r. ob_row db (om_row_id m) = Some r \<and> ob_attempts r = om_attempts m"
    and "flush_all cfg send jitter now_ms st ms db c = (db', c')"
  shows "(\<forall>m \<in> set ms. \<exists>r. ob_row db' (om_row_id m) = Some r \<and> settled cfg send jitter now_ms m r) \<and>
    (\<forall>i. i \<notin> om_row_id ` set ms \<longrightarrow> ob_row db' i = ob_row db i) \<and>
    fc_attempted c' = fc_attempted c + length ms \<and>
    fc_sent c' + fc_retry c' + fc_dead c' = fc_sent c + fc_retry c + fc_dead c + length ms"
  using assms
proof (induction ms arbitrary: db c)
  case Nil
  then show ?case by simp
next
  case (Cons m ms)
  let ?db = "flush_one cfg send jitter now_ms st m db"
  obtain c1 where c1: "flush_all cfg send jitter now_ms st ms ?db c1 = (db', c')"
      "fc_attempted c1 = fc_attempted c + 1" "fc_sent c1 + fc_retry c1 + fc_dead c1 = fc_sent c + fc_retry c + fc_dead c + 1"
    using flush_all_Cons [of cfg send jitter now_ms st m ms db c] Cons.prems(3) by auto
  have fresh: "om_row_id m \<notin> om_row_id ` set ms" using Cons.prems(1) by simp
  have rows: "\<forall>x \<in> set ms. \<exists>r. ob_row ?db (om_row_id x) = Some r \<and> ob_attempts r = om_attempts x"
    using Cons.prems(1,2) by (auto simp: flush_one_other image_iff)
  have "distinct (map om_row_id ms)" using Cons.prems(1) by simp
  note ih = Cons.IH [OF this rows c1(1)]
  obtain r where r: "ob_row ?db (om_row_id m) = Some r" "settled cfg send jitter now_ms m r"
    using flush_one_settled Cons.prems(2) by (meson list.set_intros(1))
  have "ob_row db' (om_row_id m) = Some r" using ih fresh r(1) by simp
  with r(2) ih c1(2,3) show ?case by (simp add: flush_one_other)
qed

lemma claim_rows:
  assumes inv: "outbox_inv cfg db" and claim: "claim_ready db limit now_ms st = (db', ms)"
  shows "distinct (map om_row_id ms)" and "distinct (map om_destination ms)"
    and "m \<in> set ms \<Longrightarrow> \<exists>r. ob_row db' (om_row_id m) = Some r \<and> ob_attempts r = om_attempts m \<and>
       ob_state r = OInflight \<and> ob_destination r = om_destination m"
proof -
  let ?db = "drop_sent (st - sent_retention_ms) (expire_pending now_ms st db)"
  let ?rows = "ready_rows ?db now_ms limit"
  have inv1: "outbox_inv cfg ?db" using inv by (rule outbox_inv_claim_prep)
  have ms: "ms = map message_of ?rows" and db': "db' = ob_update (\<lambda>r. ob_row_id r \<in> ob_row_id ` set ?rows)
      (\<lambda>r. r\<lparr>ob_state := OInflight, ob_updated_at := st\<rparr>) ?db"
    using claim by (auto simp: claim_ready_def Let_def)
  have "distinct (map ob_row_id (ox_rows ?db))" using inv1 by (simp add: outbox_inv_def)
  then have d: "distinct ?rows"
    by (simp add: ready_rows_def sql_limit_def distinct_map)
  have eq: "r = r'" if "r \<in> set ?rows" "r' \<in> set ?rows" "ob_row_id r = ob_row_id r'" for r r'
    using that row_id_inj [OF inv1] ready_rowsD by blast
  have dest: "r = r'" if "r \<in> set ?rows" "r' \<in> set ?rows" "ob_destination r = ob_destination r'" for r r'
  proof -
    have "ob_row_id r \<le> ob_row_id r'" "ob_row_id r' \<le> ob_row_id r"
      using that ready_rowsD [of r ?db] ready_rowsD [of r' ?db]
      unfolding is_head_def list_all_iff ob_active_def by metis+
    then show ?thesis using that eq by simp
  qed
  show "distinct (map om_row_id ms)" "distinct (map om_destination ms)"
    using d eq dest unfolding ms by (auto simp: distinct_map inj_on_def message_of_def comp_def)
  have "\<exists>x. ob_row db' (ob_row_id r) = Some x \<and> ob_attempts x = ob_attempts r \<and> ob_state x = OInflight \<and>
      ob_destination x = ob_destination r" if r: "r \<in> set ?rows" for r
  proof -
    let ?x = "r\<lparr>ob_state := OInflight, ob_updated_at := st\<rparr>"
    have "distinct (map ob_row_id (ox_rows db'))"
      using outbox_inv_claim [OF inv, of limit now_ms st] claim by (simp add: outbox_inv_def)
    moreover have "?x \<in> set (ox_rows db')"
      using r ready_rowsD [OF r] unfolding db' ob_update_def by (auto simp: set_update_where image_iff)
    ultimately have "ob_row db' (ob_row_id ?x) = Some ?x"
      unfolding ob_row_def by (rule find_distinct_key)
    then show ?thesis by auto
  qed
  then show "\<exists>r. ob_row db' (om_row_id m) = Some r \<and> ob_attempts r = om_attempts m \<and>
      ob_state r = OInflight \<and> ob_destination r = om_destination m" if "m \<in> set ms"
    using that unfolding ms by (auto simp: message_of_def)
qed

section \<open>Properties\<close>

text \<open>
  Messages to one destination are attempted in enqueue order: a round claims at most one
  message per destination, and while a claimed message is in flight no other message to its
  destination is, and every message enqueued earlier for it has been delivered or has been given
  up. So a cancel never overtakes the order it cancels.
\<close>

theorem claim_preserves_order:
  assumes "reachable (\<lambda>db. db = outbox_empty) (outbox_step cfg) db"
    and "claim_ready db limit now_ms st = (db', ms)"
  shows "distinct (map om_destination ms) \<and>
    (\<forall>m \<in> set ms. \<forall>r \<in> set (ox_rows db').
       ob_destination r = om_destination m \<and> ob_row_id r \<noteq> om_row_id m \<longrightarrow>
       ob_state r \<noteq> OInflight \<and> (ob_row_id r < om_row_id m \<longrightarrow> ob_state r = OSent \<or> ob_state r = ODead))"
proof -
  from outbox_run.reachable_inv [OF assms(1)] have inv: "outbox_inv cfg db" .
  have inv': "outbox_inv cfg db'" using outbox_inv_claim [OF inv, of limit now_ms st] assms(2) by simp
  have "ob_state r \<noteq> OInflight \<and> (ob_row_id r < om_row_id m \<longrightarrow> ob_state r = OSent \<or> ob_state r = ODead)"
    if m: "m \<in> set ms" and "r \<in> set (ox_rows db')" "ob_destination r = om_destination m" "ob_row_id r \<noteq> om_row_id m" for m r
  proof -
    obtain x where row: "ob_row db' (om_row_id m) = Some x" and "ob_state x = OInflight" "ob_destination x = om_destination m"
      using claim_rows(3) [OF inv assms(2) m] by blast
    then have x: "x \<in> set (ox_rows db')" "ob_row_id x = om_row_id m" "ob_state x = OInflight" "ob_destination x = om_destination m"
      using find_Some_mem [OF row [unfolded ob_row_def]] by simp_all
    have "ob_active r \<Longrightarrow> ob_row_id x \<le> ob_row_id r"
      using inflight_least [OF inv' x(1,3) that(2)] that(3) x(4) by simp
    moreover have "ob_state r = OInflight \<Longrightarrow> ob_row_id r \<le> ob_row_id x"
      using inflight_least [OF inv' that(2) _ x(1)] that(3) x(3,4) by (simp add: ob_active_def)
    ultimately show ?thesis using that(4) x(2) by (cases "ob_state r") (auto simp: ob_active_def)
  qed
  with claim_rows(2) [OF inv assms(2)] show ?thesis by blast
qed

definition demo_outbox :: outbox_db where
  "demo_outbox = (case enqueue demo_outbox_config outbox_empty 0 0 ''agv-1'' [(''message_id'', JStr ''m1'')] None 0 of
     Inr (db, m) \<Rightarrow> (case enqueue demo_outbox_config db 0 0 ''agv-1'' [(''message_id'', JStr ''m2'')] None 0 of
       Inr (db', m') \<Rightarrow> db' | Inl _ \<Rightarrow> db) | Inl _ \<Rightarrow> outbox_empty)"

definition demo_outbox_row :: "int \<Rightarrow> string \<Rightarrow> outbox_row" where
  "demo_outbox_row i mid = \<lparr>ob_row_id = i, ob_message_id = mid, ob_destination = ''agv-1'', ob_kind = '''',
     ob_envelope = JObj [(''message_id'', JStr mid)], ob_state = OPending, ob_attempts = 0, ob_next_attempt_ms = 0,
     ob_expires_at_ms = None, ob_created_at = 0, ob_updated_at = 0, ob_last_error = None, ob_response = None\<rparr>"

lemma demo_outbox_eq: "demo_outbox = \<lparr>ox_rows = [demo_outbox_row 1 ''m1'', demo_outbox_row 2 ''m2''], ox_seq = 2\<rparr>"
  by code_simp

lemma demo_outbox_reachable:
  "reachable (\<lambda>db. db = outbox_empty) (outbox_step demo_outbox_config) demo_outbox"
proof -
  let ?one = "\<lparr>ox_rows = [demo_outbox_row 1 ''m1''], ox_seq = 1\<rparr>"
  have "\<exists>m. enqueue demo_outbox_config outbox_empty 0 0 ''agv-1'' [(''message_id'', JStr ''m1'')] None 0 = Inr (?one, m)"
    by (intro exI) code_simp
  then have "outbox_step demo_outbox_config outbox_empty ?one" by (blast intro: step_enqueue)
  moreover have "\<exists>m. enqueue demo_outbox_config ?one 0 0 ''agv-1'' [(''message_id'', JStr ''m2'')] None 0 = Inr (demo_outbox, m)"
    by (intro exI) code_simp
  then have "outbox_step demo_outbox_config ?one demo_outbox" by (blast intro: step_enqueue)
  ultimately show ?thesis by (blast intro: reachable_init reachable_step)
qed

theorem claim_preserves_order_witness:
  "distinct (map om_destination (snd (claim_ready demo_outbox 32 5 5)))"
  using claim_preserves_order [OF demo_outbox_reachable, of 32 5 5] by (metis prod.collapse)

text \<open>
  A round of delivery settles every message it claimed and touches no other row: a message
  \<open>send\<close> accepted is \<open>sent\<close>; every other one, also when \<open>send\<close> raises, has its attempt counted and
  is retried after the capped backoff or, at the attempt limit, is dead-lettered. The counts the
  round returns add up to the number of claimed messages.
\<close>

theorem flush_settles_claimed:
  assumes "reachable (\<lambda>db. db = outbox_empty) (outbox_step cfg) db"
    and "claim_ready db limit now_ms st = (db1, ms)"
    and "flush cfg send jitter db limit now_ms st = (db2, c)"
  shows "(\<forall>m \<in> set ms. \<exists>r. ob_row db2 (om_row_id m) = Some r \<and> settled cfg send jitter now_ms m r) \<and>
    (\<forall>i. i \<notin> om_row_id ` set ms \<longrightarrow> ob_row db2 i = ob_row db1 i) \<and>
    fc_attempted c = length ms \<and> fc_sent c + fc_retry c + fc_dead c = length ms"
proof -
  from outbox_run.reachable_inv [OF assms(1)] have inv: "outbox_inv cfg db" .
  have "\<forall>m \<in> set ms. \<exists>r. ob_row db1 (om_row_id m) = Some r \<and> ob_attempts r = om_attempts m"
    using claim_rows(3) [OF inv assms(2)] by blast
  from flush_all_spec [OF claim_rows(1) [OF inv assms(2)] this] assms(2,3)
  show ?thesis unfolding flush_def by fastforce
qed

theorem flush_settles_claimed_witness:
  "fc_attempted (snd (flush demo_outbox_config (\<lambda>m. Inl ''OSError: down'') (\<lambda>m. 1) demo_outbox 32 5 5)) = 1"
proof -
  have "length (snd (claim_ready demo_outbox 32 5 5)) = 1"
    unfolding demo_outbox_eq by code_simp
  then show ?thesis
    using flush_settles_claimed [OF demo_outbox_reachable, of 32 5 5] by (metis prod.collapse)
qed

lemma enqueue_retry:
  assumes "enqueue cfg db now_ms st destination env ttl nb = Inr (db', m)"
  obtains mid expiry where "map_of env ''message_id'' = Some (JStr mid)" "mid \<noteq> []"
    "enqueue_txn cfg db now_ms st mid destination env expiry nb = Inr (db', m)"
  using assms by (auto simp: enqueue_def Let_def bind_result_Inr_iff split: option.splits json.splits if_splits)

lemma enqueue_txn_found:
  assumes "enqueue_txn cfg db now_ms st mid destination env expiry nb = Inr (db', m)" and "py_eq (JObj env) (JObj env)"
  shows "\<exists>r. ob_find db' mid = Some r \<and> ob_destination r = destination \<and> ob_row_id r = om_row_id m \<and>
    py_eq (ob_envelope r) (JObj env)"
proof (cases "ob_find db mid")
  case (Some e)
  with assms show ?thesis by (auto simp: enqueue_txn_def split: if_splits)
next
  case None
  then have "find (\<lambda>r. ob_message_id r = mid) (ox_rows db @ [x]) = Some x" if "ob_message_id x = mid" for x
    using that unfolding ob_find_def by (simp add: find_append)
  with None assms show ?thesis by (auto simp: enqueue_txn_def ob_find_def Let_def split: if_splits)
qed

text \<open>
  Enqueueing is idempotent on the message identifier: repeating an accepted call for the same
  destination with the same envelope, at any later clock reading, changes nothing and returns the
  identifier of the row already there, unless the envelope has expired meanwhile; an accepted call
  with that identifier for another destination is impossible.
\<close>

theorem enqueue_idempotent:
  assumes "enqueue cfg db now_ms st destination env ttl nb = Inr (db', m)" and "py_eq (JObj env) (JObj env)"
  shows "(case enqueue cfg db' now_ms' st' destination env ttl' nb' of
            Inr (db'', m') \<Rightarrow> db'' = db' \<and> om_row_id m' = om_row_id m
          | Inl e \<Rightarrow> e = FaspError ''auth.envelope_expired'') \<and>
         (dest' \<noteq> destination \<longrightarrow> \<not> is_ok (enqueue cfg db' now_ms' st' dest' env ttl' nb'))"
proof -
  obtain mid expiry where mid: "map_of env ''message_id'' = Some (JStr mid)" "mid \<noteq> []"
      and txn: "enqueue_txn cfg db now_ms st mid destination env expiry nb = Inr (db', m)"
    by (rule enqueue_retry [OF assms(1)])
  obtain r where "ob_find db' mid = Some r" "ob_destination r = destination" "ob_row_id r = om_row_id m"
      "py_eq (ob_envelope r) (JObj env)"
    using enqueue_txn_found [OF txn assms(2)] by blast
  moreover obtain sd where "signed_deadline cfg env = Inr sd"
    using assms(1) mid by (auto simp: enqueue_def bind_result_Inr_iff)
  ultimately show ?thesis
    using mid by (simp add: enqueue_def enqueue_txn_def Let_def)
qed

theorem enqueue_idempotent_witness:
  "\<not> is_ok (enqueue demo_outbox_config demo_outbox 9 9 ''agv-2'' [(''message_id'', JStr ''m2'')] None 0)"
proof -
  have "\<exists>m. enqueue demo_outbox_config \<lparr>ox_rows = [demo_outbox_row 1 ''m1''], ox_seq = 1\<rparr> 0 0 ''agv-1''
      [(''message_id'', JStr ''m2'')] None 0 = Inr (demo_outbox, m)"
    by (intro exI) code_simp
  then obtain m where e: "enqueue demo_outbox_config \<lparr>ox_rows = [demo_outbox_row 1 ''m1''], ox_seq = 1\<rparr> 0 0 ''agv-1''
      [(''message_id'', JStr ''m2'')] None 0 = Inr (demo_outbox, m)" by blast
  have "py_eq (JObj [(''message_id'', JStr ''m2'')]) (JObj [(''message_id'', JStr ''m2'')])" by code_simp
  from enqueue_idempotent [OF e this, of 9 9 None 0 "''agv-2''"] show ?thesis by simp
qed

text \<open>
  The operator's \<open>requeue_dead\<close> does not keep the per-destination order: with message 1 dead
  and message 2 to the same destination in flight, requeueing puts message 1 back and the next
  round claims it while message 2 is still in flight.
\<close>

theorem requeue_dead_breaks_order:
  "let db1 = mark_dead demo_outbox 1 ''rejected'' None 0;
       (db2, ms2) = claim_ready db1 32 5 5;
       db3 = fst (requeue_dead db2 None 6 6);
       (db4, ms4) = claim_ready db3 32 7 7
   in map om_row_id ms2 = [2] \<and> map om_row_id ms4 = [1] \<and>
      map (\<lambda>r. (ob_destination r, ob_state r)) (ox_rows db4) = [(''agv-1'', OInflight), (''agv-1'', OInflight)]"
  unfolding demo_outbox_eq by code_simp

end
