(* ===== verification/Rate_Limit.thy ===== *)
theory Rate_Limit
  imports Prelude
begin

text \<open>
  The token-bucket limiter of \<^verbatim>\<open>src/fasp_harness/policy/ratelimit.py\<close>. The ordered dictionary of
  buckets is an association list with the least recently used key first; time, rate and tokens are
  exact rationals, so the rounding of floats is not represented. A virtual bucket per key, which
  a missing key has full, is the specification the bounded table refines.
\<close>

section \<open>The limiter\<close>

record bucket =
  bk_tokens :: rat
  bk_last_refill :: rat

record TokenBucketLimiter =
  tl_rate :: rat
  tl_burst :: int
  tl_max_keys :: nat
  tl_buckets :: "(string \<times> bucket) list"

text \<open>The constructor checks its arguments as Python values: a \<^verbatim>\<open>bool\<close> is refused as a count.\<close>

definition new_limiter :: "pyfloat \<Rightarrow> json \<Rightarrow> json \<Rightarrow> TokenBucketLimiter result" where
  "new_limiter rate_per_second burst max_keys =
     (case (rate_per_second, burst, max_keys) of
        (Fin r, JInt b, JInt m) \<Rightarrow>
          if r \<le> 0 \<or> b \<le> 0 \<or> m \<le> 0 then Inl ValueError
          else Inr \<lparr>tl_rate = r, tl_burst = b, tl_max_keys = nat m, tl_buckets = []\<rparr>
      | _ \<Rightarrow> Inl ValueError)"

definition del_key :: "string \<Rightarrow> (string \<times> bucket) list \<Rightarrow> (string \<times> bucket) list" where
  "del_key k bs = filter (\<lambda>kb. fst kb \<noteq> k) bs"

text \<open>Taking a token from a bucket, which goes to the end of the order.\<close>

definition consume :: "TokenBucketLimiter \<Rightarrow> string \<Rightarrow> bucket \<Rightarrow> (string \<times> bucket) list \<Rightarrow> TokenBucketLimiter \<times> bool" where
  "consume l key b rest =
     (if bk_tokens b < 1 then (l\<lparr>tl_buckets := rest @ [(key, b)]\<rparr>, False)
      else (l\<lparr>tl_buckets := rest @ [(key, b\<lparr>bk_tokens := bk_tokens b - 1\<rparr>)]\<rparr>, True))"

definition allow :: "TokenBucketLimiter \<Rightarrow> rat \<Rightarrow> string \<Rightarrow> TokenBucketLimiter \<times> bool" where
  "allow l now key =
     (case map_of (tl_buckets l) key of
        None \<Rightarrow>
          (let fresh = \<lparr>bk_tokens = of_int (tl_burst l), bk_last_refill = now\<rparr>
           in if length (tl_buckets l) \<ge> tl_max_keys l
              then (case tl_buckets l of
                      [] \<Rightarrow> consume l key fresh []
                    | (oldest_key, oldest) # rest \<Rightarrow>
                        if now - bk_last_refill oldest < of_int (tl_burst l) / tl_rate l then (l, False)
                        else consume l key fresh rest)
              else consume l key fresh (tl_buckets l))
      | Some b \<Rightarrow>
          (let elapsed = now - bk_last_refill b;
               b' = \<lparr>bk_tokens = min (of_int (tl_burst l)) (bk_tokens b + elapsed * tl_rate l), bk_last_refill = now\<rparr>
           in consume l key b' (del_key key (tl_buckets l))))"

section \<open>The specification: one full bucket per key\<close>

definition virtual_tokens :: "TokenBucketLimiter \<Rightarrow> string \<Rightarrow> rat \<Rightarrow> rat" where
  "virtual_tokens l k now =
     (case map_of (tl_buckets l) k of
        None \<Rightarrow> of_int (tl_burst l)
      | Some b \<Rightarrow> min (of_int (tl_burst l)) (bk_tokens b + (now - bk_last_refill b) * tl_rate l))"

text \<open>The table is well formed at a clock reading: bounded, keys unique, tokens between zero and the burst.\<close>

definition limiter_inv :: "rat \<Rightarrow> TokenBucketLimiter \<Rightarrow> bool" where
  "limiter_inv now l \<longleftrightarrow>
     0 < tl_rate l \<and> 0 < tl_burst l \<and> 0 < tl_max_keys l \<and>
     length (tl_buckets l) \<le> tl_max_keys l \<and> distinct (map fst (tl_buckets l)) \<and>
     (\<forall>kb \<in> set (tl_buckets l). 0 \<le> bk_tokens (snd kb) \<and> bk_tokens (snd kb) \<le> of_int (tl_burst l) \<and>
        bk_last_refill (snd kb) \<le> now)"

fun allow_all :: "TokenBucketLimiter \<Rightarrow> (rat \<times> string) list \<Rightarrow> TokenBucketLimiter \<times> bool list" where
  "allow_all l [] = (l, [])"
| "allow_all l ((now, k) # calls) =
     (case allow l now k of (l', ok) \<Rightarrow> (case allow_all l' calls of (l'', oks) \<Rightarrow> (l'', ok # oks)))"

text \<open>How many calls for a key were let through.\<close>

fun accepted :: "string \<Rightarrow> (rat \<times> string) list \<Rightarrow> bool list \<Rightarrow> nat" where
  "accepted k ((now, k') # calls) (ok # oks) = (if ok \<and> k' = k then 1 else 0) + accepted k calls oks"
| "accepted k _ _ = 0"

section \<open>One call\<close>

lemma del_key_props:
  "distinct (map fst bs) \<Longrightarrow> distinct (map fst (del_key k bs))"
  "k \<notin> fst ` set (del_key k bs)"
  "set (del_key k bs) \<subseteq> set bs"
  "k' \<noteq> k \<Longrightarrow> map_of (del_key k bs) k' = map_of bs k'"
  by (auto simp: del_key_def distinct_map_filter)
     (induction bs; auto simp: del_key_def)+

lemma length_del_key:
  assumes "map_of bs k = Some b"
  shows "length (del_key k bs) < length bs"
proof -
  have "(k, b) \<in> set bs" using assms by (rule map_of_SomeD)
  then show ?thesis unfolding del_key_def by (intro length_filter_less [of "(k, b)"]) auto
qed

lemma map_of_snoc:
  "k \<notin> fst ` set rest \<Longrightarrow> map_of (rest @ [(k, v)]) k' = (if k' = k then Some v else map_of rest k')"
  by (induction rest) auto

lemma consume_spec:
  assumes "consume l k b rest = (l', ok)"
  shows "ok \<longleftrightarrow> 1 \<le> bk_tokens b"
    and "tl_rate l' = tl_rate l" "tl_burst l' = tl_burst l" "tl_max_keys l' = tl_max_keys l"
    and "tl_buckets l' = rest @ [(k, b\<lparr>bk_tokens := bk_tokens b - (if ok then 1 else 0)\<rparr>)]"
  using assms by (auto simp: consume_def split: if_splits)

lemma consume_inv:
  assumes inv: "limiter_inv now l" and sub: "set rest \<subseteq> set (tl_buckets l)" and "distinct (map fst rest)"
    and "length rest < tl_max_keys l" and fresh: "k \<notin> fst ` set rest"
    and b: "0 \<le> bk_tokens b" "bk_tokens b \<le> of_int (tl_burst l)" "bk_last_refill b \<le> now"
    and c: "consume l k b rest = (l', ok)"
  shows "limiter_inv now l'"
proof -
  note spec = consume_spec [OF c]
  have "0 \<le> bk_tokens b - (if ok then 1 else 0)" using spec(1) b by simp
  then show ?thesis
    using inv sub assms(3,4) fresh b unfolding limiter_inv_def spec(2-5) by auto
qed

lemma limiter_inv_mono: "limiter_inv now l \<Longrightarrow> now \<le> now' \<Longrightarrow> limiter_inv now' l"
  unfolding limiter_inv_def by (meson order_trans)

text \<open>An idle bucket the table may forget is full, so forgetting it changes no virtual bucket.\<close>

lemma evictable_full:
  assumes "0 < (r::rat)" and "\<not> now - t < n / r" and "0 \<le> tok"
  shows "min n (tok + (now - t) * r) = n"
proof -
  have "n \<le> (now - t) * r" using assms(1,2) by (simp add: not_less pos_divide_le_eq)
  with assms(3) show ?thesis by simp
qed

lemma virtual_bounds:
  assumes "limiter_inv now l"
  shows "0 \<le> virtual_tokens l k now" and "virtual_tokens l k now \<le> of_int (tl_burst l)"
proof -
  have "0 \<le> bk_tokens b \<and> bk_last_refill b \<le> now" if "map_of (tl_buckets l) k = Some b" for b
    using assms map_of_SomeD [OF that] unfolding limiter_inv_def by fastforce
  with assms show "0 \<le> virtual_tokens l k now" "virtual_tokens l k now \<le> of_int (tl_burst l)"
    by (auto simp: virtual_tokens_def limiter_inv_def split: option.splits)
qed

text \<open>A call either changes nothing, or takes from the virtual bucket of its key.\<close>

lemma allow_cases:
  assumes inv: "limiter_inv now l" and al: "allow l now key = (l', ok)"
  obtains (refused) "ok = False" "l' = l"
    | (taken) rest where "consume l key \<lparr>bk_tokens = virtual_tokens l key now, bk_last_refill = now\<rparr> rest = (l', ok)"
        "set rest \<subseteq> set (tl_buckets l)" "distinct (map fst rest)" "length rest < tl_max_keys l" "key \<notin> fst ` set rest"
        "\<And>k. k \<noteq> key \<Longrightarrow> virtual_tokens (l\<lparr>tl_buckets := rest\<rparr>) k now = virtual_tokens l k now"
proof (cases "map_of (tl_buckets l) key")
  case (Some b)
  show ?thesis
  proof (rule taken)
    show "consume l key \<lparr>bk_tokens = virtual_tokens l key now, bk_last_refill = now\<rparr> (del_key key (tl_buckets l)) = (l', ok)"
      using Some al by (simp add: allow_def virtual_tokens_def)
    show "length (del_key key (tl_buckets l)) < tl_max_keys l"
      using length_del_key [OF Some] inv by (simp add: limiter_inv_def)
  qed (use inv in \<open>auto simp: del_key_props virtual_tokens_def limiter_inv_def dest: subsetD [OF del_key_props(3)] split: option.split\<close>)
next
  case None
  then have new: "key \<notin> fst ` set (tl_buckets l)" by (simp add: map_of_eq_None_iff)
  have fresh: "virtual_tokens l key now = of_int (tl_burst l)" using None by (simp add: virtual_tokens_def)
  show ?thesis
  proof (cases "length (tl_buckets l) < tl_max_keys l")
    case True
    with None al fresh new inv show ?thesis
      by (intro taken [of "tl_buckets l"]) (simp_all add: allow_def limiter_inv_def)
  next
    case False
    then obtain k0 b0 rest where bs: "tl_buckets l = (k0, b0) # rest"
      using inv by (cases "tl_buckets l") (auto simp: limiter_inv_def)
    show ?thesis
    proof (cases "now - bk_last_refill b0 < of_int (tl_burst l) / tl_rate l")
      case True
      with None False bs al show ?thesis by (intro refused) (auto simp: allow_def)
    next
      case ev: False
      have k0: "k0 \<notin> fst ` set rest" and tok: "0 \<le> bk_tokens b0" and r: "0 < tl_rate l"
        using inv bs by (auto simp: limiter_inv_def)
      then have "map_of rest k0 = None" by (simp add: map_of_eq_None_iff)
      with evictable_full [OF r ev tok]
      have "virtual_tokens (l\<lparr>tl_buckets := rest\<rparr>) k now = virtual_tokens l k now" if "k \<noteq> key" for k
        by (cases "k = k0") (simp_all add: virtual_tokens_def bs split: option.split)
      with ev None False bs al fresh new inv show ?thesis
        by (intro taken [of rest]) (auto simp: allow_def limiter_inv_def)
    qed
  qed
qed

lemma allow_spec:
  assumes inv0: "limiter_inv now0 l" and le: "now0 \<le> now" and al: "allow l now key = (l', ok)"
  shows "limiter_inv now l'" and "tl_rate l' = tl_rate l" and "tl_burst l' = tl_burst l"
    and "tl_max_keys l' = tl_max_keys l"
    and "ok \<Longrightarrow> 1 \<le> virtual_tokens l key now"
    and "virtual_tokens l' k now = virtual_tokens l k now - (if ok \<and> k = key then 1 else 0)"
proof -
  have inv: "limiter_inv now l" using inv0 le by (rule limiter_inv_mono)
  have "limiter_inv now l' \<and> tl_rate l' = tl_rate l \<and> tl_burst l' = tl_burst l \<and> tl_max_keys l' = tl_max_keys l \<and>
    (ok \<longrightarrow> 1 \<le> virtual_tokens l key now) \<and>
    virtual_tokens l' k now = virtual_tokens l k now - (if ok \<and> k = key then 1 else 0)"
    using inv al
  proof (cases rule: allow_cases)
    case refused
    with inv show ?thesis by simp
  next
    case (taken rest)
    note spec = consume_spec [OF taken(1)]
    have "limiter_inv now l'"
      by (rule consume_inv [OF inv taken(2-5) _ _ _ taken(1)]) (simp_all add: virtual_bounds [OF inv])
    moreover have "virtual_tokens l' k now = virtual_tokens l k now - (if ok \<and> k = key then 1 else 0)"
    proof (cases "k = key")
      case True
      then show ?thesis
        using virtual_bounds [OF inv, of key] spec(3)
        by (simp add: virtual_tokens_def [of l'] spec(5) map_of_snoc [OF taken(5)] del: map_of_append)
    next
      case False
      have "virtual_tokens l' k now = virtual_tokens (l\<lparr>tl_buckets := rest\<rparr>) k now"
        using False by (simp add: virtual_tokens_def spec(2,3,5) map_of_snoc [OF taken(5)] del: map_of_append split: option.split)
      with False taken(6) show ?thesis by simp
    qed
    ultimately show ?thesis using spec by simp
  qed
  then show "limiter_inv now l'" "tl_rate l' = tl_rate l" "tl_burst l' = tl_burst l" "tl_max_keys l' = tl_max_keys l"
    "ok \<Longrightarrow> 1 \<le> virtual_tokens l key now"
    "virtual_tokens l' k now = virtual_tokens l k now - (if ok \<and> k = key then 1 else 0)"
    by simp_all
qed

section \<open>A sequence of calls\<close>

lemma virtual_grow:
  assumes "limiter_inv now l" and "now \<le> now'"
  shows "virtual_tokens l k now' \<le> virtual_tokens l k now + (now' - now) * tl_rate l"
proof (cases "map_of (tl_buckets l) k")
  case None
  with assms show ?thesis by (simp add: virtual_tokens_def limiter_inv_def)
next
  case (Some b)
  have "0 \<le> (now' - now) * tl_rate l" using assms by (simp add: limiter_inv_def)
  with Some show ?thesis by (simp add: virtual_tokens_def min_def algebra_simps)
qed

lemma allow_all_spec:
  assumes "limiter_inv now l" and "sorted (map fst calls)" and "\<forall>c \<in> set calls. now \<le> fst c \<and> fst c \<le> till"
    and "now \<le> till" and "allow_all l calls = (l', oks)"
  shows "limiter_inv till l' \<and> tl_max_keys l' = tl_max_keys l \<and>
    of_nat (accepted k calls oks) + virtual_tokens l' k till \<le> virtual_tokens l k now + (till - now) * tl_rate l"
  using assms
proof (induction calls arbitrary: l now oks)
  case Nil
  then show ?case using virtual_grow by (auto intro: limiter_inv_mono)
next
  case (Cons c calls)
  obtain t key where c: "c = (t, key)" by (cases c)
  obtain l1 ok oks1 where s: "allow l t key = (l1, ok)" "allow_all l1 calls = (l', oks1)" "oks = ok # oks1"
    using Cons.prems(5) c by (auto split: prod.splits)
  have t: "now \<le> t" "t \<le> till" using Cons.prems(3) c by auto
  note one = allow_spec [OF Cons.prems(1) t(1) s(1)]
  have later: "\<forall>x \<in> set calls. t \<le> fst x \<and> fst x \<le> till" using Cons.prems(2,3) c by auto
  have srt: "sorted (map fst calls)" using Cons.prems(2) by simp
  note ih = Cons.IH [OF one(1) srt later t(2) s(2)]
  have "virtual_tokens l k t \<le> virtual_tokens l k now + (t - now) * tl_rate l"
    using virtual_grow [OF Cons.prems(1) t(1)] .
  with ih one(2,4) one(6) [of k] show ?case
    unfolding c s(3) by (auto simp: algebra_simps)
qed

lemma new_limiter_inv:
  assumes "new_limiter rate burst max_keys = Inr l"
  shows "limiter_inv now l" and "virtual_tokens l k t = of_int (tl_burst l)"
  using assms by (auto simp: new_limiter_def limiter_inv_def virtual_tokens_def split: pyfloat.splits json.splits if_splits)

section \<open>Properties\<close>


definition demo_limiter :: TokenBucketLimiter where
  "demo_limiter = \<lparr>tl_rate = 1, tl_burst = 2, tl_max_keys = 1, tl_buckets = []\<rparr>"


text \<open>
  A key is let through exactly when its virtual bucket holds a whole token, as long as the
  table has room or already holds the key; each success takes one token from that key's virtual
  bucket, and no other key's virtual bucket changes.
\<close>

theorem allow_refines_virtual_bucket:
  assumes "limiter_inv now l" and "map_of (tl_buckets l) key \<noteq> None \<or> length (tl_buckets l) < tl_max_keys l"
  shows "(snd (allow l now key) \<longleftrightarrow> 1 \<le> virtual_tokens l key now) \<and>
    virtual_tokens (fst (allow l now key)) k now =
      virtual_tokens l k now - (if snd (allow l now key) \<and> k = key then 1 else 0)"
proof -
  obtain l' ok where al: "allow l now key = (l', ok)" by fastforce
  have "ok \<longleftrightarrow> 1 \<le> virtual_tokens l key now"
  proof (cases "map_of (tl_buckets l) key")
    case None
    with assms(2) al show ?thesis
      by (auto simp: allow_def virtual_tokens_def dest: consume_spec(1))
  next
    case (Some b)
    with al show ?thesis
      by (auto simp: allow_def virtual_tokens_def Let_def dest: consume_spec(1))
  qed
  with allow_spec(6) [OF assms(1) order_refl al, of k] al show ?thesis by simp
qed

theorem allow_refines_virtual_bucket_witness:
  "snd (allow demo_limiter 0 ''a'') \<longleftrightarrow> 1 \<le> virtual_tokens demo_limiter ''a'' 0"
  using allow_refines_virtual_bucket [of 0 demo_limiter "''a''"]
  by (simp add: limiter_inv_def demo_limiter_def)

end
