(* ===== verification/Realtime.thy ===== *)
theory Realtime
  imports Prelude
begin

text \<open>
  The cyclic executor with its latency recorder (\<^verbatim>\<open>src/fasp_harness/realtime/scheduler.py\<close>) and the
  deadline watchdogs (\<^verbatim>\<open>realtime/watchdog.py\<close>). What the operating system and the work decide (how
  late a thread wakes, how long a cycle takes, whether the work raises or another thread calls
  \<^verbatim>\<open>stop()\<close>) is an environment given to the loop cycle by cycle; the loop has fuel, and with a bound
  on the cycles one unit more than the bound is enough.
\<close>

section \<open>Latency recorder\<close>

definition NS_PER_S :: int where
  "NS_PER_S = 1000000000"

definition BUCKET_EDGES_US :: "rat list" where
  "BUCKET_EDGES_US = concat (map (\<lambda>e. [10 ^ e, 2 * 10 ^ e, 5 * 10 ^ e]) [0..<8]) @ [100000000]"

record TimingRecorder =
  tr_count :: nat
  tr_total_us :: rat
  tr_min_us :: pyfloat
  tr_max_us :: pyfloat
  tr_buckets :: "nat list"

definition new_recorder :: TimingRecorder where
  "new_recorder = \<lparr>tr_count = 0, tr_total_us = 0, tr_min_us = PInf, tr_max_us = NInf,
     tr_buckets = replicate (length BUCKET_EDGES_US + 1) 0\<rparr>"

text \<open>\<^verbatim>\<open>bisect_left\<close> on a sorted list: how many entries are below the value.\<close>

definition bisect_left :: "rat list \<Rightarrow> rat \<Rightarrow> nat" where
  "bisect_left edges x = length (takeWhile (\<lambda>e. e < x) edges)"

definition record_us :: "TimingRecorder \<Rightarrow> rat \<Rightarrow> TimingRecorder" where
  "record_us r v =
     (let i = bisect_left BUCKET_EDGES_US \<bar>v\<bar>
      in r\<lparr>tr_count := tr_count r + 1, tr_total_us := tr_total_us r + v,
           tr_min_us := (if fl_less (Fin v) (tr_min_us r) then Fin v else tr_min_us r),
           tr_max_us := (if fl_less (tr_max_us r) (Fin v) then Fin v else tr_max_us r),
           tr_buckets := (tr_buckets r)[i := tr_buckets r ! i + 1]\<rparr>)"

definition record_ns :: "TimingRecorder \<Rightarrow> int \<Rightarrow> TimingRecorder" where
  "record_ns r v = record_us r (of_int v / 1000)"

definition quantile_target :: "nat \<Rightarrow> rat \<Rightarrow> int" where
  "quantile_target count fraction = max 1 (min (int count) (py_round (fraction * of_nat count)))"

fun quantile_scan :: "nat list \<Rightarrow> nat \<Rightarrow> nat \<Rightarrow> int \<Rightarrow> pyfloat \<Rightarrow> pyfloat" where
  "quantile_scan [] index seen target mx = mx"
| "quantile_scan (occupancy # bs) index seen target mx =
     (let seen = seen + occupancy
      in if int seen \<ge> target
         then (if index \<ge> length BUCKET_EDGES_US then mx
               else if fl_less mx (Fin (BUCKET_EDGES_US ! index)) then mx else Fin (BUCKET_EDGES_US ! index))
         else quantile_scan bs (index + 1) seen target mx)"

definition quantile_us :: "TimingRecorder \<Rightarrow> rat \<Rightarrow> pyfloat" where
  "quantile_us r fraction =
     (if tr_count r = 0 then Fin 0
      else quantile_scan (tr_buckets r) 0 0 (quantile_target (tr_count r) fraction) (tr_max_us r))"

section \<open>Executor\<close>

datatype OverrunPolicy = SKIP | CATCH_UP | FAIL_SAFE

record CyclicExecutor =
  cx_period_ns :: int
  cx_deadline_ns :: int
  cx_policy :: OverrunPolicy
  cx_stop :: bool
  cx_release_jitter :: TimingRecorder
  cx_execution :: TimingRecorder
  cx_response :: TimingRecorder
  cx_cycles :: int
  cx_overruns :: int
  cx_skipped :: int

definition new_executor :: "rat \<Rightarrow> rat option \<Rightarrow> OverrunPolicy \<Rightarrow> CyclicExecutor result" where
  "new_executor period_s deadline_s policy =
     (if period_s \<le> 0 then Inl ValueError
      else let d = (case deadline_s of None \<Rightarrow> period_s | Some d \<Rightarrow> d)
           in if \<not> (0 < d \<and> d \<le> period_s) then Inl ValueError
              else Inr \<lparr>cx_period_ns = py_trunc (period_s * of_int NS_PER_S),
                        cx_deadline_ns = py_trunc (d * of_int NS_PER_S), cx_policy = policy, cx_stop = False,
                        cx_release_jitter = new_recorder, cx_execution = new_recorder, cx_response = new_recorder,
                        cx_cycles = 0, cx_overruns = 0, cx_skipped = 0\<rparr>)"

text \<open>
  The environment of one cycle: how long after the release (or after the current time, when that
  is later) the thread wakes, how long the work takes, whether it raises, and whether \<^verbatim>\<open>stop()\<close> was
  called meanwhile.
\<close>

record cycle_env =
  ce_wake :: int
  ce_work :: int
  ce_raises :: bool
  ce_stop :: bool

text \<open>What happened in a cycle, kept for the specification only.\<close>

record cycle =
  cy_index :: int
  cy_release :: int
  cy_woke :: int
  cy_finished :: int

record loop_state =
  lp_x :: CyclicExecutor
  lp_now :: int
  lp_index :: int
  lp_trace :: "cycle list"
  lp_reported :: "(int \<times> int) list"

definition overran :: "CyclicExecutor \<Rightarrow> cycle \<Rightarrow> bool" where
  "overran x c \<longleftrightarrow> \<not> cy_finished c - cy_release c \<le> cx_deadline_ns x"

text \<open>The \<^verbatim>\<open>SKIP\<close> branch; floor division by a period of zero raises.\<close>

definition resync :: "int \<Rightarrow> int \<Rightarrow> int \<Rightarrow> CyclicExecutor \<Rightarrow> (CyclicExecutor \<times> int) result" where
  "resync origin finished index x =
     (if cx_period_ns x = 0 then Inl ZeroDivisionError
      else let missed = (finished - origin) div cx_period_ns x + 1 - index
           in if missed > 0 then Inr (x\<lparr>cx_skipped := cx_skipped x + missed\<rparr>, index + missed)
              else Inr (x, index))"

text \<open>Sleep until the release, run the work, and read the clock again.\<close>

definition cycle_of :: "int \<Rightarrow> cycle_env \<Rightarrow> loop_state \<Rightarrow> cycle" where
  "cycle_of origin env s =
     (let release = origin + lp_index s * cx_period_ns (lp_x s); woke = max (lp_now s) release + ce_wake env
      in \<lparr>cy_index = lp_index s, cy_release = release, cy_woke = woke, cy_finished = woke + ce_work env\<rparr>)"

definition record_cycle :: "CyclicExecutor \<Rightarrow> cycle \<Rightarrow> CyclicExecutor" where
  "record_cycle x c =
     x\<lparr>cx_release_jitter := record_ns (cx_release_jitter x) (cy_woke c - cy_release c),
       cx_execution := record_ns (cx_execution x) (cy_finished c - cy_woke c),
       cx_response := record_ns (cx_response x) (cy_finished c - cy_release c),
       cx_cycles := cx_cycles x + 1\<rparr>"

text \<open>What follows \<^verbatim>\<open>index += 1\<close>: the deadline check and the overrun policy.\<close>

definition check_deadline :: "int \<Rightarrow> cycle \<Rightarrow> loop_state \<Rightarrow> loop_state \<times> exn option" where
  "check_deadline origin c s =
     (if cy_finished c - cy_release c \<le> cx_deadline_ns (lp_x s) then (s, None)
      else let x = (lp_x s)\<lparr>cx_overruns := cx_overruns (lp_x s) + 1\<rparr>;
               s1 = s\<lparr>lp_x := x, lp_reported := lp_reported s @ [(lp_index s - 1, cy_finished c - cy_release c)]\<rparr>
           in case cx_policy x of
                FAIL_SAFE \<Rightarrow> (s1\<lparr>lp_x := x\<lparr>cx_stop := True\<rparr>\<rparr>, None)
              | SKIP \<Rightarrow> (case resync origin (cy_finished c) (lp_index s) x of
                          Inl e \<Rightarrow> (s1, Some e)
                        | Inr (x', index') \<Rightarrow> (s1\<lparr>lp_x := x', lp_index := index'\<rparr>, None))
              | CATCH_UP \<Rightarrow> (s1, None))"

definition run_cycle :: "int \<Rightarrow> cycle_env \<Rightarrow> loop_state \<Rightarrow> loop_state \<times> exn option" where
  "run_cycle origin env s =
     (let c = cycle_of origin env s;
          x = record_cycle (lp_x s) c;
          s1 = s\<lparr>lp_x := x\<lparr>cx_stop := (cx_stop x \<or> ce_stop env)\<rparr>, lp_now := cy_finished c, lp_trace := lp_trace s @ [c]\<rparr>
      in if ce_raises env then (s1, Some OtherException)
         else check_deadline origin c (s1\<lparr>lp_index := lp_index s + 1\<rparr>))"

fun run_loop :: "nat \<Rightarrow> int \<Rightarrow> int option \<Rightarrow> (int \<Rightarrow> cycle_env) \<Rightarrow> loop_state \<Rightarrow> (loop_state \<times> exn option) option" where
  "run_loop 0 origin cycles env s = None"
| "run_loop (Suc fuel) origin cycles env s =
     (if \<not> cx_stop (lp_x s) \<and> (case cycles of None \<Rightarrow> True | Some n \<Rightarrow> cx_cycles (lp_x s) < n)
      then (case run_cycle origin (env (cx_cycles (lp_x s))) s of
              (s', Some e) \<Rightarrow> Some (s', Some e)
            | (s', None) \<Rightarrow> run_loop fuel origin cycles env s')
      else Some (s, None))"

definition run :: "nat \<Rightarrow> CyclicExecutor \<Rightarrow> int \<Rightarrow> int option \<Rightarrow> (int \<Rightarrow> cycle_env) \<Rightarrow> (loop_state \<times> exn option) option" where
  "run fuel x origin cycles env =
     run_loop fuel origin cycles env \<lparr>lp_x = x, lp_now = origin, lp_index = 0, lp_trace = [], lp_reported = []\<rparr>"

definition deadline_miss_ratio :: "CyclicExecutor \<Rightarrow> rat" where
  "deadline_miss_ratio x = (if cx_cycles x = 0 then 0 else of_int (cx_overruns x) / of_int (cx_cycles x))"

definition meets :: "CyclicExecutor \<Rightarrow> rat \<Rightarrow> rat option \<Rightarrow> bool" where
  "meets x max_miss_ratio max_response_us =
     (if cx_cycles x = 0 then False
      else if deadline_miss_ratio x > max_miss_ratio then False
      else case max_response_us of
             Some m \<Rightarrow> \<not> fl_less (Fin m) (tr_max_us (cx_response x))
           | None \<Rightarrow> True)"

section \<open>Watchdogs\<close>

record DeadlineWatchdog =
  wd_name :: string
  wd_timeout_ns :: int
  wd_auto_reset :: bool
  wd_last_pet_ns :: int
  wd_expired :: bool
  wd_expiry_count :: nat
  wd_worst_gap_ns :: int

definition WatchdogExpired :: exn where
  "WatchdogExpired = FaspError ''safety.watchdog_expired''"

definition new_watchdog :: "string \<Rightarrow> rat \<Rightarrow> bool \<Rightarrow> int \<Rightarrow> DeadlineWatchdog result" where
  "new_watchdog name timeout_s auto_reset now_ns =
     (if timeout_s \<le> 0 then Inl ValueError
      else Inr \<lparr>wd_name = name, wd_timeout_ns = py_trunc (timeout_s * of_int NS_PER_S), wd_auto_reset = auto_reset,
                wd_last_pet_ns = now_ns, wd_expired = False, wd_expiry_count = 0, wd_worst_gap_ns = 0\<rparr>)"

definition pet :: "DeadlineWatchdog \<Rightarrow> int \<Rightarrow> DeadlineWatchdog" where
  "pet w now_ns =
     w\<lparr>wd_worst_gap_ns := max (wd_worst_gap_ns w) (now_ns - wd_last_pet_ns w), wd_last_pet_ns := now_ns,
       wd_expired := (if wd_expired w \<and> wd_auto_reset w then False else wd_expired w)\<rparr>"

definition reset :: "DeadlineWatchdog \<Rightarrow> int \<Rightarrow> DeadlineWatchdog" where
  "reset w now_ns = w\<lparr>wd_expired := False, wd_last_pet_ns := now_ns\<rparr>"

definition require_alive :: "DeadlineWatchdog \<Rightarrow> unit result" where
  "require_alive w = (if wd_expired w then Inl WatchdogExpired else Inr ())"

text \<open>The flag says whether this call tripped, which is when the expiry action runs.\<close>

definition poll :: "DeadlineWatchdog \<Rightarrow> int \<Rightarrow> DeadlineWatchdog \<times> bool" where
  "poll w now_ns =
     (if wd_expired w then (w, False)
      else let elapsed = now_ns - wd_last_pet_ns w
           in if elapsed \<le> wd_timeout_ns w then (w, False)
              else (w\<lparr>wd_expired := True, wd_expiry_count := wd_expiry_count w + 1,
                      wd_worst_gap_ns := max (wd_worst_gap_ns w) elapsed\<rparr>, True))"

text \<open>A group is a dictionary in insertion order.\<close>

type_synonym watchdog_group = "(string \<times> DeadlineWatchdog) list"

definition group_add :: "watchdog_group \<Rightarrow> DeadlineWatchdog \<Rightarrow> watchdog_group" where
  "group_add g w =
     (if wd_name w \<in> set (map fst g) then map (\<lambda>kw. if fst kw = wd_name w then (wd_name w, w) else kw) g
      else g @ [(wd_name w, w)])"

definition group_pet :: "watchdog_group \<Rightarrow> string \<Rightarrow> int \<Rightarrow> watchdog_group" where
  "group_pet g name now_ns = map (\<lambda>kw. if fst kw = name then (name, pet (snd kw) now_ns) else kw) g"

definition poll_all :: "watchdog_group \<Rightarrow> int \<Rightarrow> watchdog_group \<times> string list" where
  "poll_all g now_ns =
     (map (\<lambda>kw. (fst kw, fst (poll (snd kw) now_ns))) g,
      map fst (filter (\<lambda>kw. snd (poll (snd kw) now_ns)) g))"

definition any_expired :: "watchdog_group \<Rightarrow> bool" where
  "any_expired g = list_ex (\<lambda>kw. wd_expired (snd kw)) g"

datatype watchdog_op = Pet int | Poll int | Reset int

fun watchdog_apply :: "DeadlineWatchdog \<Rightarrow> watchdog_op \<Rightarrow> DeadlineWatchdog" where
  "watchdog_apply w (Pet t) = pet w t"
| "watchdog_apply w (Poll t) = fst (poll w t)"
| "watchdog_apply w (Reset t) = reset w t"

fun is_reset :: "watchdog_op \<Rightarrow> bool" where
  "is_reset (Reset _) = True"
| "is_reset _ = False"

section \<open>The schedule\<close>

definition env_ok :: "(int \<Rightarrow> cycle_env) \<Rightarrow> bool" where
  "env_ok env \<longleftrightarrow> (\<forall>n. 0 \<le> ce_wake (env n) \<and> 0 \<le> ce_work (env n))"

text \<open>
  The specification of a run: releases lie on the grid of the origin, in increasing order; under
  \<^verbatim>\<open>SKIP\<close> whatever follows an overrun is released after it has finished; and the counters agree with
  what happened.
\<close>

definition follows :: "CyclicExecutor \<Rightarrow> cycle \<Rightarrow> cycle \<Rightarrow> bool" where
  "follows x a b \<longleftrightarrow> cy_index a < cy_index b \<and> (cx_policy x = SKIP \<and> overran x a \<longrightarrow> cy_finished a < cy_release b)"

definition schedule_ok :: "int \<Rightarrow> loop_state \<Rightarrow> bool" where
  "schedule_ok origin s \<longleftrightarrow>
     (\<forall>c \<in> set (lp_trace s). cy_release c = origin + cy_index c * cx_period_ns (lp_x s) \<and> 0 \<le> cy_index c \<and>
        cy_release c \<le> cy_woke c \<and> cy_woke c \<le> cy_finished c) \<and>
     sorted_wrt (follows (lp_x s)) (lp_trace s) \<and>
     cx_cycles (lp_x s) = int (length (lp_trace s)) \<and>
     cx_overruns (lp_x s) = int (count_where (overran (lp_x s)) (lp_trace s)) \<and>
     lp_reported s = map (\<lambda>c. (cy_index c, cy_finished c - cy_release c)) (filter (overran (lp_x s)) (lp_trace s)) \<and>
     (cx_policy (lp_x s) = FAIL_SAFE \<and> 0 < cx_overruns (lp_x s) \<longrightarrow> cx_stop (lp_x s)) \<and>
     (cx_policy (lp_x s) \<noteq> SKIP \<longrightarrow> cx_skipped (lp_x s) = 0)"

text \<open>The part of the invariant that concerns the cycle to come.\<close>

definition next_ok :: "int \<Rightarrow> loop_state \<Rightarrow> bool" where
  "next_ok origin s \<longleftrightarrow>
     0 < cx_period_ns (lp_x s) \<and> 0 \<le> lp_index s \<and>
     lp_index s = cx_cycles (lp_x s) + cx_skipped (lp_x s) \<and>
     (\<forall>c \<in> set (lp_trace s). cy_index c < lp_index s \<and>
        (cx_policy (lp_x s) = SKIP \<and> overran (lp_x s) c \<longrightarrow> cy_finished c < origin + lp_index s * cx_period_ns (lp_x s)))"

lemma grid_mono: "0 < (p::int) \<Longrightarrow> i \<le> j \<Longrightarrow> f < origin + i * p \<Longrightarrow> f < origin + j * p"
  by (meson add_left_mono less_le_trans mult_right_mono order.strict_implies_order)

lemma resync_spec:
  assumes "0 < cx_period_ns x" and "resync origin finished index x = Inr (x', index')"
  shows "x' = x\<lparr>cx_skipped := cx_skipped x + (index' - index)\<rparr>" and "index \<le> index'"
    and "finished < origin + index' * cx_period_ns x"
proof -
  let ?q = "(finished - origin) div cx_period_ns x"
  have q: "finished - origin < (?q + 1) * cx_period_ns x"
  proof -
    have "finished - origin = ?q * cx_period_ns x + (finished - origin) mod cx_period_ns x" by simp
    moreover have "(finished - origin) mod cx_period_ns x < cx_period_ns x" using assms(1) by simp
    ultimately show ?thesis by (simp only: distrib_right mult_1)
  qed
  have i: "index' = max index (?q + 1)"
    using assms by (auto simp: resync_def Let_def split: if_splits)
  show "x' = x\<lparr>cx_skipped := cx_skipped x + (index' - index)\<rparr>" "index \<le> index'"
    using assms by (auto simp: resync_def Let_def split: if_splits)
  have "(?q + 1) * cx_period_ns x \<le> index' * cx_period_ns x" using assms(1) i by (simp add: mult_right_mono)
  with q show "finished < origin + index' * cx_period_ns x" by linarith
qed

lemma check_deadline_cases:
  assumes "check_deadline origin c s = (s', None)"
  obtains (met) "\<not> overran (lp_x s) c" "s' = s"
    | (skip) x3 i3 where "overran (lp_x s) c" "cx_policy (lp_x s) = SKIP"
        "resync origin (cy_finished c) (lp_index s) ((lp_x s)\<lparr>cx_overruns := cx_overruns (lp_x s) + 1\<rparr>) = Inr (x3, i3)"
        "s' = s\<lparr>lp_x := x3, lp_index := i3, lp_reported := lp_reported s @ [(lp_index s - 1, cy_finished c - cy_release c)]\<rparr>"
    | (other) "overran (lp_x s) c" "cx_policy (lp_x s) \<noteq> SKIP"
        "s' = s\<lparr>lp_x := (lp_x s)\<lparr>cx_overruns := cx_overruns (lp_x s) + 1,
                 cx_stop := (cx_stop (lp_x s) \<or> cx_policy (lp_x s) = FAIL_SAFE)\<rparr>,
               lp_reported := lp_reported s @ [(lp_index s - 1, cy_finished c - cy_release c)]\<rparr>"
proof (cases "overran (lp_x s) c")
  case False
  with assms show ?thesis by (intro met) (simp_all add: check_deadline_def overran_def)
next
  case True
  show ?thesis
  proof (cases "cx_policy (lp_x s)")
    case SKIP
    with True assms show ?thesis
      by (auto simp: check_deadline_def overran_def Let_def split: sum.splits intro: skip [OF True SKIP])
  qed (use True assms in \<open>auto simp: check_deadline_def overran_def Let_def intro: other [OF True]\<close>)
qed

text \<open>How a cycle moves the index and the counters on.\<close>

definition cycle_post :: "int \<Rightarrow> cycle \<Rightarrow> loop_state \<Rightarrow> loop_state \<Rightarrow> bool" where
  "cycle_post origin c s s' \<longleftrightarrow>
     lp_trace s' = lp_trace s \<and> cx_period_ns (lp_x s') = cx_period_ns (lp_x s) \<and>
     cx_deadline_ns (lp_x s') = cx_deadline_ns (lp_x s) \<and> cx_policy (lp_x s') = cx_policy (lp_x s) \<and>
     cx_cycles (lp_x s') = cx_cycles (lp_x s) \<and>
     cx_overruns (lp_x s') = cx_overruns (lp_x s) + (if overran (lp_x s) c then 1 else 0) \<and>
     lp_reported s' = lp_reported s @ (if overran (lp_x s) c then [(lp_index s - 1, cy_finished c - cy_release c)] else []) \<and>
     (cx_policy (lp_x s) = FAIL_SAFE \<and> overran (lp_x s) c \<longrightarrow> cx_stop (lp_x s')) \<and>
     (cx_stop (lp_x s) \<longrightarrow> cx_stop (lp_x s')) \<and>
     lp_index s \<le> lp_index s' \<and> cx_skipped (lp_x s') = cx_skipped (lp_x s) + (lp_index s' - lp_index s) \<and>
     (cx_policy (lp_x s) \<noteq> SKIP \<longrightarrow> lp_index s' = lp_index s) \<and>
     (cx_policy (lp_x s) = SKIP \<and> overran (lp_x s) c \<longrightarrow> cy_finished c < origin + lp_index s' * cx_period_ns (lp_x s))"

lemma check_deadline_post:
  assumes "0 < cx_period_ns (lp_x s)" and step: "check_deadline origin c s = (s', None)"
  shows "cycle_post origin c s s'"
  using step
proof (cases rule: check_deadline_cases)
  case met
  then show ?thesis by (simp add: cycle_post_def)
next
  case (skip x3 i3)
  have p: "0 < cx_period_ns ((lp_x s)\<lparr>cx_overruns := cx_overruns (lp_x s) + 1\<rparr>)" using assms(1) by simp
  note r = resync_spec [OF p skip(3)]
  show ?thesis using skip(1,2) r(2,3) by (simp add: cycle_post_def skip(4) r(1))
next
  case other
  then show ?thesis by (simp add: cycle_post_def)
qed

lemma schedule_step:
  assumes sched: "schedule_ok origin s" and nxt: "next_ok origin s"
    and e: "0 \<le> ce_wake env" "0 \<le> ce_work env" and step: "run_cycle origin env s = (s', None)"
  shows "schedule_ok origin s' \<and> next_ok origin s'"
proof -
  define c where "c = cycle_of origin env s"
  define s1 where "s1 = s\<lparr>lp_x := (record_cycle (lp_x s) c)\<lparr>cx_stop := (cx_stop (lp_x s) \<or> ce_stop env)\<rparr>,
    lp_now := cy_finished c, lp_trace := lp_trace s @ [c], lp_index := lp_index s + 1\<rparr>"
  have "check_deadline origin c s1 = (s', None)"
    using step by (auto simp: run_cycle_def Let_def c_def s1_def record_cycle_def split: if_splits)
  moreover have p: "0 < cx_period_ns (lp_x s)" using nxt by (simp add: next_ok_def)
  then have "0 < cx_period_ns (lp_x s1)" by (simp add: s1_def record_cycle_def)
  ultimately have post: "cycle_post origin c s1 s'" by (rule check_deadline_post [rotated])
  have x1: "cx_period_ns (lp_x s1) = cx_period_ns (lp_x s)" "cx_deadline_ns (lp_x s1) = cx_deadline_ns (lp_x s)"
    "cx_policy (lp_x s1) = cx_policy (lp_x s)" "cx_cycles (lp_x s1) = cx_cycles (lp_x s) + 1"
    "cx_overruns (lp_x s1) = cx_overruns (lp_x s)" "cx_skipped (lp_x s1) = cx_skipped (lp_x s)"
    "cx_stop (lp_x s) \<Longrightarrow> cx_stop (lp_x s1)" "lp_index s1 = lp_index s + 1" "lp_trace s1 = lp_trace s @ [c]"
    "lp_reported s1 = lp_reported s"
    by (simp_all add: s1_def record_cycle_def)
  have ov: "overran (lp_x s1) = overran (lp_x s)" "overran (lp_x s') = overran (lp_x s)"
    using post by (auto simp: overran_def x1 cycle_post_def)
  have fol: "follows (lp_x s') = follows (lp_x s)"
    using post by (intro ext) (simp add: follows_def ov x1 cycle_post_def)
  have c: "cy_index c = lp_index s" "cy_release c = origin + lp_index s * cx_period_ns (lp_x s)"
    "cy_release c \<le> cy_woke c" "cy_woke c \<le> cy_finished c"
    using e by (simp_all add: c_def cycle_of_def Let_def)
  have tr: "lp_trace s' = lp_trace s @ [c]" using post x1 by (simp add: cycle_post_def)
  have "cy_index a < lp_index s \<and>
      (cx_policy (lp_x s) = SKIP \<and> overran (lp_x s) a \<longrightarrow> cy_finished a < origin + lp_index s * cx_period_ns (lp_x s))"
    if "a \<in> set (lp_trace s)" for a
    using nxt that unfolding next_ok_def by blast
  then have "follows (lp_x s) a c" if "a \<in> set (lp_trace s)" for a
    using that unfolding follows_def c(1,2) by blast
  then have wrt: "sorted_wrt (follows (lp_x s)) (lp_trace s @ [c])"
    using sched by (simp add: schedule_ok_def sorted_wrt_append)
  note post' = post [unfolded cycle_post_def x1 ov] and sched' = sched [unfolded schedule_ok_def]
  have "schedule_ok origin s'"
    unfolding schedule_ok_def tr fol ov
  proof (intro conjI)
    have per: "cx_period_ns (lp_x s') = cx_period_ns (lp_x s)" using post' by blast
    have "0 \<le> cy_index c" using nxt c(1) unfolding next_ok_def by simp
    then show "\<forall>a \<in> set (lp_trace s @ [c]). cy_release a = origin + cy_index a * cx_period_ns (lp_x s') \<and> 0 \<le> cy_index a \<and>
        cy_release a \<le> cy_woke a \<and> cy_woke a \<le> cy_finished a"
      using conjunct1 [OF sched'] c unfolding per by fastforce
    show "sorted_wrt (follows (lp_x s)) (lp_trace s @ [c])" by (rule wrt)
    show "cx_cycles (lp_x s') = int (length (lp_trace s @ [c]))"
      using sched' post' by (metis length_append_singleton of_nat_Suc add.commute)
    have "cx_overruns (lp_x s') = cx_overruns (lp_x s) + (if overran (lp_x s) c then 1 else 0)"
      "cx_overruns (lp_x s) = int (count_where (overran (lp_x s)) (lp_trace s))" using sched' post' by blast+
    then show "cx_overruns (lp_x s') = int (count_where (overran (lp_x s)) (lp_trace s @ [c]))" by simp
    have "lp_reported s' = lp_reported s @ (if overran (lp_x s) c then [(lp_index s + 1 - 1, cy_finished c - cy_release c)] else [])"
      "lp_reported s = map (\<lambda>c. (cy_index c, cy_finished c - cy_release c)) (filter (overran (lp_x s)) (lp_trace s))"
      using sched' post' by blast+
    then show "lp_reported s' = map (\<lambda>c. (cy_index c, cy_finished c - cy_release c)) (filter (overran (lp_x s)) (lp_trace s @ [c]))"
      using c(1) by simp
    have "cx_policy (lp_x s') = cx_policy (lp_x s)"
      "cx_policy (lp_x s) = FAIL_SAFE \<Longrightarrow> overran (lp_x s) c \<Longrightarrow> cx_stop (lp_x s')"
      "cx_stop (lp_x s1) \<Longrightarrow> cx_stop (lp_x s')"
      "cx_policy (lp_x s) = FAIL_SAFE \<Longrightarrow> 0 < cx_overruns (lp_x s) \<Longrightarrow> cx_stop (lp_x s)"
      "cx_overruns (lp_x s') = cx_overruns (lp_x s) + (if overran (lp_x s) c then 1 else 0)"
      using sched' post' by blast+
    then show "cx_policy (lp_x s') = FAIL_SAFE \<and> 0 < cx_overruns (lp_x s') \<longrightarrow> cx_stop (lp_x s')"
      using x1(7) by (cases "overran (lp_x s) c") simp_all
    have "cx_policy (lp_x s') = cx_policy (lp_x s)" "cx_policy (lp_x s) \<noteq> SKIP \<Longrightarrow> cx_skipped (lp_x s) = 0"
      "cx_policy (lp_x s) \<noteq> SKIP \<Longrightarrow> lp_index s' = lp_index s + 1"
      "cx_skipped (lp_x s') = cx_skipped (lp_x s) + (lp_index s' - (lp_index s + 1))"
      using sched' post' by blast+
    then show "cx_policy (lp_x s') \<noteq> SKIP \<longrightarrow> cx_skipped (lp_x s') = 0" by simp
  qed
  moreover have "next_ok origin s'"
  proof -
    have less: "lp_index s < lp_index s'" using post by (simp add: cycle_post_def x1)
    have "cy_index a < lp_index s' \<and>
        (cx_policy (lp_x s) = SKIP \<and> overran (lp_x s) a \<longrightarrow> cy_finished a < origin + lp_index s' * cx_period_ns (lp_x s))"
      if "a \<in> set (lp_trace s @ [c])" for a
    proof (cases "a = c")
      case True
      with post less c show ?thesis by (simp add: cycle_post_def x1 ov)
    next
      case False
      with that nxt less grid_mono [OF p, of "lp_index s" "lp_index s'"] show ?thesis by (auto simp: next_ok_def)
    qed
    with nxt post less show ?thesis unfolding next_ok_def tr ov cycle_post_def x1 by auto
  qed
  ultimately show ?thesis ..
qed

lemma run_loop_schedule:
  assumes "schedule_ok origin s" and "next_ok origin s" and "env_ok env"
    and "run_loop fuel origin cycles env s = Some (s', None)"
  shows "schedule_ok origin s' \<and> next_ok origin s'"
  using assms
proof (induction fuel arbitrary: s)
  case 0
  then show ?case by simp
next
  case (Suc fuel)
  show ?case
  proof (cases "\<not> cx_stop (lp_x s) \<and> (case cycles of None \<Rightarrow> True | Some n \<Rightarrow> cx_cycles (lp_x s) < n)")
    case True
    then obtain s1 where s1: "run_cycle origin (env (cx_cycles (lp_x s))) s = (s1, None)"
        "run_loop fuel origin cycles env s1 = Some (s', None)"
      using Suc.prems(4) by (auto split: prod.splits option.splits)
    have "schedule_ok origin s1 \<and> next_ok origin s1"
      using Suc.prems(1-3) s1(1) by (intro schedule_step) (auto simp: env_ok_def)
    with Suc.IH s1(2) assms(3) show ?thesis by blast
  next
    case False
    with Suc.prems show ?thesis by auto
  qed
qed

lemma run_start:
  assumes "new_executor period_s deadline_s policy = Inr x" and "0 < cx_period_ns x"
  shows "schedule_ok origin \<lparr>lp_x = x, lp_now = origin, lp_index = 0, lp_trace = [], lp_reported = []\<rparr>"
    and "next_ok origin \<lparr>lp_x = x, lp_now = origin, lp_index = 0, lp_trace = [], lp_reported = []\<rparr>"
  using assms by (auto simp: new_executor_def schedule_ok_def next_ok_def Let_def split: if_splits option.splits)

section \<open>Quantiles\<close>

definition recorded :: "rat list \<Rightarrow> TimingRecorder" where
  "recorded vs = foldl record_us new_recorder vs"

definition bucket_of :: "rat \<Rightarrow> nat" where
  "bucket_of v = bisect_left BUCKET_EDGES_US \<bar>v\<bar>"

lemma bucket_of_less: "bucket_of v < length BUCKET_EDGES_US + 1"
  unfolding bucket_of_def bisect_left_def by (metis length_takeWhile_le less_Suc_eq_le Suc_eq_plus1)

lemma edges_sorted: "sorted BUCKET_EDGES_US"
  by code_simp

lemma bucket_of_edge:
  assumes "bucket_of v \<le> i" and "i < length BUCKET_EDGES_US"
  shows "v \<le> BUCKET_EDGES_US ! i"
proof -
  let ?j = "bucket_of v"
  have j: "?j < length BUCKET_EDGES_US" using assms by simp
  have "\<not> BUCKET_EDGES_US ! ?j < \<bar>v\<bar>"
    using nth_length_takeWhile [of "\<lambda>e. e < \<bar>v\<bar>" BUCKET_EDGES_US] j by (simp add: bucket_of_def bisect_left_def)
  moreover have "BUCKET_EDGES_US ! ?j \<le> BUCKET_EDGES_US ! i"
    using edges_sorted assms by (rule sorted_nth_mono)
  ultimately show ?thesis by linarith
qed

lemma sum_take_update:
  "j < length bs \<Longrightarrow> sum_list (take n (bs[j := bs ! j + 1])) = sum_list (take n (bs :: nat list)) + (if j < n then 1 else 0)"
proof (induction bs arbitrary: n j)
  case Nil
  then show ?case by simp
next
  case (Cons b bs)
  then show ?case by (cases n; cases j) auto
qed

lemma count_snoc: "count_where p (xs @ [x]) = count_where p xs + (if p x then 1 else 0)"
  by simp

text \<open>What a recorder knows of the samples it was given.\<close>

lemma recorded_spec:
  "tr_count (recorded vs) = length vs \<and> length (tr_buckets (recorded vs)) = length BUCKET_EDGES_US + 1 \<and>
   (\<forall>n. sum_list (take n (tr_buckets (recorded vs))) = count_where (\<lambda>v. bucket_of v < n) vs) \<and>
   (if vs = [] then tr_max_us (recorded vs) = NInf \<and> tr_min_us (recorded vs) = PInf
    else tr_max_us (recorded vs) = Fin (Max (set vs)) \<and> tr_min_us (recorded vs) = Fin (Min (set vs)))"
proof (induction vs rule: rev_induct)
  case Nil
  then show ?case by (auto simp: recorded_def new_recorder_def dest: in_set_takeD)
next
  case (snoc v vs)
  have r: "recorded (vs @ [v]) = record_us (recorded vs) v" by (simp add: recorded_def)
  have b: "bisect_left BUCKET_EDGES_US \<bar>v\<bar> = bucket_of v" by (simp add: bucket_of_def)
  have "sum_list (take n (tr_buckets (recorded (vs @ [v])))) = count_where (\<lambda>v. bucket_of v < n) (vs @ [v])" for n
    using snoc sum_take_update [of "bucket_of v" "tr_buckets (recorded vs)" n] bucket_of_less [of v]
    unfolding r record_us_def Let_def b count_snoc by simp
  moreover have "tr_count (recorded (vs @ [v])) = length (vs @ [v])"
      "length (tr_buckets (recorded (vs @ [v]))) = length BUCKET_EDGES_US + 1"
    using snoc unfolding r record_us_def Let_def by simp_all
  moreover have "tr_max_us (recorded (vs @ [v])) = Fin (Max (set (vs @ [v])))"
    using snoc unfolding r record_us_def Let_def by (cases "vs = []") (simp_all add: max_def del: Max_less_iff Max_le_iff)
  moreover have "tr_min_us (recorded (vs @ [v])) = Fin (Min (set (vs @ [v])))"
    using snoc unfolding r record_us_def Let_def by (cases "vs = []") (simp_all add: min_def not_le del: Min_gr_iff Min_ge_iff)
  ultimately show ?case by simp
qed

lemma quantile_scan_spec:
  assumes "bs = drop index all" and "int (sum_list (take index all)) < target" and "target \<le> int (sum_list all)"
    and "seen = sum_list (take index all)" and "length all = length BUCKET_EDGES_US + 1"
  shows "\<exists>i. i < length all \<and> target \<le> int (sum_list (take (Suc i) all)) \<and>
    quantile_scan bs index seen target mx =
      (if i \<ge> length BUCKET_EDGES_US then mx
       else if fl_less mx (Fin (BUCKET_EDGES_US ! i)) then mx else Fin (BUCKET_EDGES_US ! i))"
  using assms
proof (induction bs arbitrary: index seen)
  case Nil
  then have "take index all = all" by simp
  with Nil show ?case by simp
next
  case (Cons b bs)
  have lt: "index < length all" using Cons.prems(1) by (metis drop_all list.distinct(1) not_le)
  have b: "b = all ! index" "bs = drop (Suc index) all"
    using Cons.prems(1) lt by (metis Cons_nth_drop_Suc list.inject)+
  have seen: "seen + b = sum_list (take (Suc index) all)"
    using Cons.prems(4) b(1) lt by (simp add: take_Suc_conv_app_nth)
  show ?case
  proof (cases "int (seen + b) \<ge> target")
    case True
    with lt seen show ?thesis by (intro exI [of _ index]) (simp add: Let_def)
  next
    case False
    with seen Cons.IH [OF b(2) _ Cons.prems(3) seen Cons.prems(5)] show ?thesis by (simp add: Let_def)
  qed
qed

section \<open>Properties\<close>

text \<open>
  The executor does not drift. In every run that ends without an exception: each release lies
  on the grid \<open>origin + index * period\<close> and no cycle starts before its release; the releases
  increase; under \<^verbatim>\<open>SKIP\<close> every cycle after an overrun is released strictly after that overrun has
  finished, and every release is either run or counted as skipped; under \<^verbatim>\<open>FAIL_SAFE\<close> an overrun
  stops the loop; and the overrun counter and the overrun callbacks are exactly the cycles that
  missed their deadline.
\<close>

theorem schedule_never_drifts:
  assumes "new_executor period_s deadline_s policy = Inr x" and "0 < cx_period_ns x" and "env_ok env"
    and "run fuel x origin cycles env = Some (s, None)"
  shows "schedule_ok origin s \<and> lp_index s = int (length (lp_trace s)) + cx_skipped (lp_x s)"
proof -
  have "schedule_ok origin s \<and> next_ok origin s"
    using assms(4) unfolding run_def by (rule run_loop_schedule [OF run_start [OF assms(1,2)] assms(3)])
  then have "schedule_ok origin s" "lp_index s = cx_cycles (lp_x s) + cx_skipped (lp_x s)"
      "cx_cycles (lp_x s) = int (length (lp_trace s))"
    unfolding next_ok_def schedule_ok_def by blast+
  then show ?thesis by simp
qed

definition demo_env :: "int \<Rightarrow> cycle_env" where
  "demo_env n = \<lparr>ce_wake = 0, ce_work = (if n = 1 then 2500000000 else 1000), ce_raises = False, ce_stop = False\<rparr>"

theorem schedule_never_drifts_witness:
  "\<exists>x s. new_executor 1 None SKIP = Inr x \<and> run 4 x 0 (Some 3) demo_env = Some (s, None) \<and> schedule_ok 0 s \<and>
     map cy_release (lp_trace s) = [0, 1000000000, 4000000000] \<and> cx_skipped (lp_x s) = 2"
proof -
  obtain x where x: "new_executor 1 None SKIP = Inr x" "cx_period_ns x = 1000000000"
    by (simp add: new_executor_def Let_def NS_PER_S_def py_trunc_def)
  have env: "env_ok demo_env" by (simp add: env_ok_def demo_env_def)
  have tr: "map_option (\<lambda>r. (snd r, map cy_release (lp_trace (fst r)), cx_skipped (lp_x (fst r))))
      (case new_executor 1 None SKIP of Inr x \<Rightarrow> run 4 x 0 (Some 3) demo_env | Inl _ \<Rightarrow> None) =
      Some (None, [0, 1000000000, 4000000000], 2)"
    by code_simp
  then obtain s where s: "run 4 x 0 (Some 3) demo_env = Some (s, None)" "map cy_release (lp_trace s) = [0, 1000000000, 4000000000]"
      "cx_skipped (lp_x s) = 2"
    unfolding x(1) by auto
  from schedule_never_drifts [OF x(1) _ env s(1)] x(2) have "schedule_ok 0 s" by simp
  with x s show ?thesis by (intro exI [of _ x] exI [of _ s]) simp
qed

text \<open>
  A bounded run always returns: for any environment, one unit of fuel more than the number of
  cycles asked for is enough, whether the run ends by itself, by \<^verbatim>\<open>stop()\<close> or by an exception.
\<close>

theorem bounded_run_returns:
  "\<exists>s e. run (nat n + 1) (x\<lparr>cx_cycles := 0\<rparr>) origin (Some n) env = Some (s, e)"
proof -
  have cyc: "cx_cycles (lp_x s') = cx_cycles (lp_x s) + 1" if "run_cycle origin en s = (s', None)" for en s s'
    using that by (auto simp: run_cycle_def check_deadline_def resync_def record_cycle_def Let_def
        split: if_splits OverrunPolicy.splits)
  have enough: "\<exists>s' e. run_loop fuel origin (Some n) env s = Some (s', e)" if "nat (n - cx_cycles (lp_x s)) < fuel" for fuel s
    using that
  proof (induction fuel arbitrary: s)
    case 0
    then show ?case by simp
  next
    case (Suc fuel)
    show ?case
    proof (cases "\<not> cx_stop (lp_x s) \<and> cx_cycles (lp_x s) < n")
      case True
      obtain s1 e1 where s1: "run_cycle origin (env (cx_cycles (lp_x s))) s = (s1, e1)" by fastforce
      show ?thesis
      proof (cases e1)
        case None
        with s1 have "cx_cycles (lp_x s1) = cx_cycles (lp_x s) + 1" using cyc by simp
        with Suc.prems True have "nat (n - cx_cycles (lp_x s1)) < fuel" by linarith
        with Suc.IH True s1 None show ?thesis by simp
      qed (use True s1 in simp)
    qed auto
  qed
  show ?thesis unfolding run_def by (rule enough) simp
qed

text \<open>
  The percentiles in the timing evidence are upper bounds: of the samples recorded, at least
  the requested fraction (rounded as the code rounds it, and at least one) are no larger than the
  reported quantile, which is never larger than the exact maximum.
\<close>

theorem quantile_is_upper_bound:
  assumes "vs \<noteq> []"
  shows "\<exists>q. quantile_us (recorded vs) fraction = Fin q \<and> q \<le> Max (set vs) \<and>
    quantile_target (length vs) fraction \<le> int (count_where (\<lambda>v. v \<le> q) vs)"
proof -
  note spec = recorded_spec [of vs]
  let ?bs = "tr_buckets (recorded vs)" and ?t = "quantile_target (length vs) fraction"
  have len: "length ?bs = length BUCKET_EDGES_US + 1" using spec by blast
  have sums: "sum_list (take n ?bs) = count_where (\<lambda>v. bucket_of v < n) vs" for n using spec by blast
  have "sum_list ?bs = count_where (\<lambda>v. True) vs"
    using sums [of "length ?bs"] bucket_of_less len by (metis (no_types, lifting) count_where_cong take_all order_refl)
  then have tot: "sum_list ?bs = length vs" by (simp add: count_where_def)
  have t: "1 \<le> ?t" "?t \<le> int (length vs)" using assms by (auto simp: quantile_target_def Suc_le_eq)
  obtain i where i: "i < length ?bs" "?t \<le> int (sum_list (take (Suc i) ?bs))"
      "quantile_us (recorded vs) fraction =
         (if i \<ge> length BUCKET_EDGES_US then Fin (Max (set vs))
          else if fl_less (Fin (Max (set vs))) (Fin (BUCKET_EDGES_US ! i)) then Fin (Max (set vs)) else Fin (BUCKET_EDGES_US ! i))"
    using quantile_scan_spec [of ?bs 0 ?bs ?t 0 "Fin (Max (set vs))"] t tot len spec assms
    by (auto simp: quantile_us_def)
  define q where "q = (if i \<ge> length BUCKET_EDGES_US then Max (set vs) else min (Max (set vs)) (BUCKET_EDGES_US ! i))"
  have "quantile_us (recorded vs) fraction = Fin q" using i(3) by (simp add: q_def min_def)
  moreover have "q \<le> Max (set vs)" by (simp add: q_def)
  moreover have "count_where (\<lambda>v. bucket_of v < Suc i) vs \<le> count_where (\<lambda>v. v \<le> q) vs"
    by (rule count_where_mono) (auto simp: q_def intro: bucket_of_edge)
  ultimately show ?thesis using i(2) sums by (metis of_nat_le_iff order_trans)
qed

theorem quantile_is_upper_bound_witness:
  "\<exists>q. quantile_us (recorded [3, 40, 7000]) (1/2) = Fin q \<and> q \<le> Max (set [3, 40, 7000]) \<and>
     quantile_target (length [3, 40, 7000 :: rat]) (1/2) \<le> int (count_where (\<lambda>v. v \<le> q) [3, 40, 7000])"
  using quantile_is_upper_bound [of "[3, 40, 7000]" "1/2"] by simp

lemma expired_kept:
  "wd_expired w \<Longrightarrow> \<not> wd_auto_reset w \<Longrightarrow> \<not> is_reset op \<Longrightarrow>
   wd_expired (watchdog_apply w op) \<and> \<not> wd_auto_reset (watchdog_apply w op)"
  by (cases op) (auto simp: pet_def poll_def)

lemma expired_kept_all:
  "wd_expired w \<Longrightarrow> \<not> wd_auto_reset w \<Longrightarrow> \<forall>op \<in> set ops. \<not> is_reset op \<Longrightarrow>
   wd_expired (fold (\<lambda>op w. watchdog_apply w op) ops w)"
  by (induction ops arbitrary: w) (simp_all add: expired_kept)

text \<open>
  A watchdog trips and latches: checked later than its timeout after the last sign of life it
  trips, and from then on guarded code is refused through any sequence of signs of life and
  checks, whatever the clock says, until an explicit reset.
\<close>

theorem watchdog_latches:
  assumes "\<not> wd_auto_reset w" and "wd_timeout_ns w < t - wd_last_pet_ns w" and "\<forall>op \<in> set ops. \<not> is_reset op"
  shows "require_alive (fold (\<lambda>op w. watchdog_apply w op) ops (fst (poll w t))) = Inl WatchdogExpired"
proof -
  have "wd_expired (fst (poll w t))" "\<not> wd_auto_reset (fst (poll w t))"
    using assms(1,2) by (auto simp: poll_def Let_def)
  then have "wd_expired (fold (\<lambda>op w. watchdog_apply w op) ops (fst (poll w t)))"
    using assms(3) by (rule expired_kept_all)
  then show ?thesis by (simp add: require_alive_def)
qed

theorem watchdog_latches_witness:
  "\<exists>w. new_watchdog ''peer'' 1 False 0 = Inr w \<and>
     require_alive (fold (\<lambda>op w. watchdog_apply w op) [Pet 5, Poll 6] (fst (poll w 2000000000))) = Inl WatchdogExpired"
proof -
  let ?w = "\<lparr>wd_name = ''peer'', wd_timeout_ns = 1000000000, wd_auto_reset = False, wd_last_pet_ns = 0,
    wd_expired = False, wd_expiry_count = 0, wd_worst_gap_ns = 0\<rparr>"
  have "new_watchdog ''peer'' 1 False 0 = Inr ?w" by (simp add: new_watchdog_def NS_PER_S_def py_trunc_def)
  moreover have "require_alive (fold (\<lambda>op w. watchdog_apply w op) [Pet 5, Poll 6] (fst (poll ?w 2000000000))) = Inl WatchdogExpired"
    by (rule watchdog_latches) simp_all
  ultimately show ?thesis by blast
qed

end
