(* ===== verification/Fleet.thy ===== *)
theory Fleet
  imports Prelude
begin

text \<open>
  The vendor-neutral fleet vocabulary (\<^verbatim>\<open>src/fasp_harness/fleet/model.py\<close>) and the registry that puts
  several vendors' fleet managers behind one address space (\<^verbatim>\<open>fleet/adapter.py\<close>). A vendor adapter is a
  record of operations over a world \<open>'w\<close>: everything outside the coordinator. The texts that explain
  a refusal are constructors of \<open>reason\<close>. Coordinates are exact rationals, and every health record of
  one call carries the one time stamp the call is given.
\<close>

section \<open>Vocabulary\<close>

datatype StepKind = MOVE | PICK | DROP | CHARGE | DOCK | UNDOCK | WAIT | CUSTOM

fun step_kind_value :: "StepKind \<Rightarrow> string" where
  "step_kind_value MOVE = ''move''"
| "step_kind_value PICK = ''pick''"
| "step_kind_value DROP = ''drop''"
| "step_kind_value CHARGE = ''charge''"
| "step_kind_value DOCK = ''dock''"
| "step_kind_value UNDOCK = ''undock''"
| "step_kind_value WAIT = ''wait''"
| "step_kind_value CUSTOM = ''custom''"

definition all_step_kinds :: "StepKind list" where
  "all_step_kinds = [MOVE, PICK, DROP, CHARGE, DOCK, UNDOCK, WAIT, CUSTOM]"

definition step_kind_of :: "string \<Rightarrow> StepKind option" where
  "step_kind_of s = find (\<lambda>k. step_kind_value k = s) all_step_kinds"

datatype MissionState =
  MS_ACCEPTED | MS_PREFLIGHT | MS_ASSIGNED | MS_RUNNING | MS_PAUSED | MS_COMPLETED | MS_FAILED | MS_CANCELLED | MS_REJECTED

fun mission_state_value :: "MissionState \<Rightarrow> string" where
  "mission_state_value MS_ACCEPTED = ''ACCEPTED''"
| "mission_state_value MS_PREFLIGHT = ''PREFLIGHT''"
| "mission_state_value MS_ASSIGNED = ''ASSIGNED''"
| "mission_state_value MS_RUNNING = ''RUNNING''"
| "mission_state_value MS_PAUSED = ''PAUSED''"
| "mission_state_value MS_COMPLETED = ''COMPLETED''"
| "mission_state_value MS_FAILED = ''FAILED''"
| "mission_state_value MS_CANCELLED = ''CANCELLED''"
| "mission_state_value MS_REJECTED = ''REJECTED''"

definition terminal_state :: "MissionState \<Rightarrow> bool" where
  "terminal_state s \<longleftrightarrow> s \<in> {MS_COMPLETED, MS_FAILED, MS_CANCELLED, MS_REJECTED}"

datatype OperatingMode = AUTOMATIC | SEMIAUTOMATIC | MANUAL | SERVICE | TEACHIN

definition accepts_missions :: "OperatingMode \<Rightarrow> bool" where
  "accepts_missions m \<longleftrightarrow> m = AUTOMATIC"

record Pose =
  po_x :: rat
  po_y :: rat
  po_theta :: rat
  po_map_id :: string

definition schema_error :: exn where
  "schema_error = FaspError ''schema.invalid''"

text \<open>\<^verbatim>\<open>math.hypot\<close> is the parameter \<open>hypot\<close>.\<close>

definition distance_to :: "(rat \<Rightarrow> rat \<Rightarrow> rat) \<Rightarrow> Pose \<Rightarrow> Pose \<Rightarrow> rat result" where
  "distance_to hypot p q =
     (if po_map_id p \<noteq> po_map_id q then Inl schema_error else Inr (hypot (po_x q - po_x p) (po_y q - po_y p)))"

definition pose_to_dict :: "Pose \<Rightarrow> json" where
  "pose_to_dict p = JObj [(''x'', JFloat (Fin (po_x p))), (''y'', JFloat (Fin (po_y p))),
     (''theta'', JFloat (Fin (po_theta p))), (''map_id'', JStr (po_map_id p))]"

definition pose_from_dict :: "py_parse \<Rightarrow> json \<Rightarrow> Pose result" where
  "pose_from_dict fs value =
     (case value of
        JObj kvs \<Rightarrow>
          (case (map_of kvs ''x'', map_of kvs ''y'') of
             (Some jx, Some jy) \<Rightarrow>
               (case (to_float fs jx, to_float fs jy, to_float fs (case map_of kvs ''theta'' of None \<Rightarrow> JFloat (Fin 0) | Some j \<Rightarrow> j)) of
                  (Inr fx, Inr fy, Inr ft) \<Rightarrow>
                    (case (fx, fy, ft) of
                       (Fin x, Fin y, Fin theta) \<Rightarrow>
                         Inr \<lparr>po_x = x, po_y = y, po_theta = theta,
                              po_map_id = (case map_of kvs ''map_id'' of None \<Rightarrow> ''default'' | Some j \<Rightarrow> to_str fs j)\<rparr>
                     | _ \<Rightarrow> Inl schema_error)
                | _ \<Rightarrow> Inl schema_error)
           | _ \<Rightarrow> Inl schema_error)
      | _ \<Rightarrow> Inl schema_error)"

record MissionStep =
  st_step_id :: string
  st_kind :: StepKind
  st_node_id :: "string option"
  st_pose :: "Pose option"
  st_parameters :: "(string \<times> json) list"
  st_timeout_s :: rat
  st_blocking :: bool

definition opt_str :: "string option \<Rightarrow> json" where
  "opt_str v = (case v of None \<Rightarrow> JNull | Some s \<Rightarrow> JStr s)"

definition step_to_dict :: "MissionStep \<Rightarrow> json" where
  "step_to_dict s = JObj [(''step_id'', JStr (st_step_id s)), (''kind'', JStr (step_kind_value (st_kind s))),
     (''node_id'', opt_str (st_node_id s)),
     (''pose'', case st_pose s of None \<Rightarrow> JNull | Some p \<Rightarrow> pose_to_dict p),
     (''parameters'', JObj (st_parameters s)), (''timeout_s'', JFloat (Fin (st_timeout_s s))), (''blocking'', JBool (st_blocking s))]"

text \<open>\<^verbatim>\<open>value.get(key) or {}\<close>, which must then be an object.\<close>

definition object_or_empty :: "json \<Rightarrow> (string \<times> json) list result" where
  "object_or_empty v = (if truthy v then (case v of JObj kvs \<Rightarrow> Inr kvs | _ \<Rightarrow> Inl schema_error) else Inr [])"

definition timeout_of :: "json option \<Rightarrow> rat" where
  "timeout_of v =
     (case v of
        None \<Rightarrow> 300
      | Some j \<Rightarrow> (case as_number j of Some (Fin t) \<Rightarrow> if 0 < t \<and> t \<le> 86400 then t else 300 | _ \<Rightarrow> 300))"

text \<open>An optional pose is parsed only when it is an object.\<close>

definition pose_option :: "py_parse \<Rightarrow> json option \<Rightarrow> Pose option result" where
  "pose_option fs v =
     (case v of
        Some (JObj kvs) \<Rightarrow> (case pose_from_dict fs (JObj kvs) of Inl e \<Rightarrow> Inl e | Inr p \<Rightarrow> Inr (Some p))
      | _ \<Rightarrow> Inr None)"

definition step_from_dict :: "py_parse \<Rightarrow> string \<Rightarrow> json \<Rightarrow> MissionStep result" where
  "step_from_dict fs uuid value =
     (case value of
        JObj kvs \<Rightarrow>
          (case step_kind_of (py_lower (case map_of kvs ''kind'' of None \<Rightarrow> ''move'' | Some j \<Rightarrow> to_str fs j)) of
             None \<Rightarrow> Inl schema_error
           | Some kind \<Rightarrow>
               bind_result (pose_option fs (map_of kvs ''pose'')) (\<lambda>pose.
                 let node_id = get_or_null kvs ''node_id''
                 in if kind = MOVE \<and> node_id = JNull \<and> pose = None then Inl schema_error
                    else bind_result (object_or_empty (get_or_null kvs ''parameters'')) (\<lambda>parameters.
                      Inr \<lparr>st_step_id = (let j = get_or_null kvs ''step_id'' in if truthy j then to_str fs j else uuid),
                           st_kind = kind,
                           st_node_id = (if node_id = JNull then None else Some (to_str fs node_id)),
                           st_pose = pose, st_parameters = parameters, st_timeout_s = timeout_of (map_of kvs ''timeout_s''),
                           st_blocking = (case map_of kvs ''blocking'' of None \<Rightarrow> True | Some j \<Rightarrow> truthy j)\<rparr>)))
      | _ \<Rightarrow> Inl schema_error)"

definition MAX_MISSION_STEPS :: nat where
  "MAX_MISSION_STEPS = 256"

record Mission =
  mi_mission_id :: string
  mi_requested_by :: string
  mi_steps :: "MissionStep list"
  mi_priority :: int
  mi_fleet :: "string option"
  mi_vehicle_id :: "string option"
  mi_deadline_at :: "string option"
  mi_constraints :: "(string \<times> json) list"
  mi_created_at :: string

definition mission_to_dict :: "Mission \<Rightarrow> json" where
  "mission_to_dict m = JObj [(''mission_id'', JStr (mi_mission_id m)), (''requested_by'', JStr (mi_requested_by m)),
     (''steps'', JList (map step_to_dict (mi_steps m))), (''priority'', JInt (mi_priority m)),
     (''fleet'', opt_str (mi_fleet m)), (''vehicle_id'', opt_str (mi_vehicle_id m)), (''deadline_at'', opt_str (mi_deadline_at m)),
     (''constraints'', JObj (mi_constraints m)), (''created_at'', JStr (mi_created_at m))]"

text \<open>\<^verbatim>\<open>str(value[key])[:n] if value.get(key) else None\<close>.\<close>

definition text_or_none :: "py_parse \<Rightarrow> nat option \<Rightarrow> json \<Rightarrow> string option" where
  "text_or_none fs bound v =
     (if truthy v then Some (case bound of None \<Rightarrow> to_str fs v | Some n \<Rightarrow> take n (to_str fs v)) else None)"

definition priority_of :: "json option \<Rightarrow> int" where
  "priority_of v = (case Option.bind v as_int of Some p \<Rightarrow> if -100 \<le> p \<and> p \<le> 100 then p else 0 | None \<Rightarrow> 0)"

text \<open>The steps of a mission; \<open>uuids i\<close> is the identifier drawn for step \<open>i\<close> when it has none.\<close>

fun steps_from :: "py_parse \<Rightarrow> (nat \<Rightarrow> string) \<Rightarrow> nat \<Rightarrow> json list \<Rightarrow> MissionStep list result" where
  "steps_from fs uuids i [] = Inr []"
| "steps_from fs uuids i (j # js) =
     bind_result (step_from_dict fs (uuids i) j) (\<lambda>s. bind_result (steps_from fs uuids (Suc i) js) (\<lambda>ss. Inr (s # ss)))"

definition mission_from_dict :: "py_parse \<Rightarrow> (nat \<Rightarrow> string) \<Rightarrow> string \<Rightarrow> string \<Rightarrow> json \<Rightarrow> Mission result" where
  "mission_from_dict fs uuids created_at requested_by value =
     (case value of
        JObj kvs \<Rightarrow>
          (case map_of kvs ''steps'' of
             Some (JList raw_steps) \<Rightarrow>
               if \<not> (1 \<le> length raw_steps \<and> length raw_steps \<le> MAX_MISSION_STEPS) then Inl schema_error
               else bind_result (object_or_empty (get_or_null kvs ''constraints'')) (\<lambda>constraints.
                    bind_result (steps_from fs uuids 1 raw_steps) (\<lambda>steps.
                      Inr \<lparr>mi_mission_id = (let j = get_or_null kvs ''mission_id''
                                            in take 128 (if truthy j then to_str fs j else ''mission-'' @ uuids 0)),
                           mi_requested_by = requested_by, mi_steps = steps, mi_priority = priority_of (map_of kvs ''priority''),
                           mi_fleet = text_or_none fs (Some 64) (get_or_null kvs ''fleet''),
                           mi_vehicle_id = text_or_none fs (Some 128) (get_or_null kvs ''vehicle_id''),
                           mi_deadline_at = text_or_none fs None (get_or_null kvs ''deadline_at''),
                           mi_constraints = constraints, mi_created_at = created_at\<rparr>))
           | _ \<Rightarrow> Inl schema_error)
      | _ \<Rightarrow> Inl schema_error)"

text \<open>\<^verbatim>\<open>tuple(step.node_id for step in self.steps if step.node_id)\<close>.\<close>

fun node_name :: "string option \<Rightarrow> string list" where
  "node_name None = []"
| "node_name (Some n) = (if n = '''' then [] else [n])"

definition cells :: "Mission \<Rightarrow> string list" where
  "cells m = concat (map (\<lambda>s. node_name (st_node_id s)) (mi_steps m))"

section \<open>Vehicles\<close>

record VehicleCapabilities =
  vc_max_speed_mps :: rat
  vc_payload_kg :: rat
  vc_footprint_m :: "rat \<times> rat"
  vc_supported_steps :: "StepKind list"
  vc_charge_types :: "string list"
  vc_vendor :: string
  vc_model :: string
  vc_interface :: string

record VehicleState =
  vs_vehicle_id :: string
  vs_fleet :: string
  vs_online :: bool
  vs_operating_mode :: OperatingMode
  vs_pose :: "Pose option"
  vs_battery_ratio :: pyfloat
  vs_charging :: bool
  vs_driving :: bool
  vs_paused :: bool
  vs_errors :: "(string \<times> json) list list"
  vs_current_mission_id :: "string option"
  vs_velocity_mps :: pyfloat
  vs_safety_estop_active :: bool
  vs_protective_field_violated :: bool

datatype reason =
    VehicleOffline
  | VehicleMode OperatingMode
  | VehicleEstop
  | VehicleFieldViolated
  | VehicleFatalErrors nat
  | VehicleBusy string
  | VehicleBatteryLow pyfloat
  | VehicleAvailable
  | StepUnsupported StepKind
  | StepsSupported
  | AdapterFailed string

definition supports :: "VehicleCapabilities \<Rightarrow> Mission \<Rightarrow> bool \<times> reason" where
  "supports vc m =
     (case find (\<lambda>s. st_kind s \<notin> set (vc_supported_steps vc)) (mi_steps m) of
        Some s \<Rightarrow> (False, StepUnsupported (st_kind s))
      | None \<Rightarrow> (True, StepsSupported))"

definition fatal_errors :: "py_parse \<Rightarrow> VehicleState \<Rightarrow> (string \<times> json) list list" where
  "fatal_errors fs v =
     filter (\<lambda>e. py_upper (case map_of e ''level'' of None \<Rightarrow> '''' | Some j \<Rightarrow> to_str fs j) = ''FATAL'') (vs_errors v)"

definition dispatchable :: "py_parse \<Rightarrow> VehicleState \<Rightarrow> pyfloat \<Rightarrow> bool \<times> reason" where
  "dispatchable fs v minimum_battery =
     (if \<not> vs_online v then (False, VehicleOffline)
      else if \<not> accepts_missions (vs_operating_mode v) then (False, VehicleMode (vs_operating_mode v))
      else if vs_safety_estop_active v then (False, VehicleEstop)
      else if vs_protective_field_violated v then (False, VehicleFieldViolated)
      else if fatal_errors fs v \<noteq> [] then (False, VehicleFatalErrors (length (fatal_errors fs v)))
      else if (case vs_current_mission_id v of None \<Rightarrow> False | Some m \<Rightarrow> m \<noteq> '''')
      then (False, VehicleBusy (the (vs_current_mission_id v)))
      else if fl_less (vs_battery_ratio v) minimum_battery then (False, VehicleBatteryLow (vs_battery_ratio v))
      else (True, VehicleAvailable))"

section \<open>The registry\<close>

text \<open>One vendor's fleet manager: what \<^verbatim>\<open>FleetManagerAdapter\<close> lists, over the world it acts on.\<close>

record 'w adapter =
  ad_list_vehicles :: "'w \<Rightarrow> 'w \<times> VehicleState list result"
  ad_vehicle_state :: "'w \<Rightarrow> string \<Rightarrow> 'w \<times> VehicleState result"
  ad_capabilities :: "'w \<Rightarrow> string \<Rightarrow> 'w \<times> VehicleCapabilities result"
  ad_dispatch :: "'w \<Rightarrow> Mission \<Rightarrow> string \<Rightarrow> 'w \<times> json result"
  ad_cancel :: "'w \<Rightarrow> string \<Rightarrow> 'w \<times> bool result"
  ad_mission_state :: "'w \<Rightarrow> string \<Rightarrow> 'w \<times> MissionState result"
  ad_request_stop :: "'w \<Rightarrow> string \<Rightarrow> string \<Rightarrow> 'w \<times> bool result"

record health =
  he_healthy :: bool
  he_operation :: string
  he_checked_at :: timestamp

record 'w FleetRegistry =
  fr_adapters :: "(string \<times> 'w adapter) list"
  fr_health :: "(string \<times> health) list"
  fr_world :: 'w

text \<open>Assignment to a \<^verbatim>\<open>dict\<close>: a key that is there keeps its place.\<close>

fun put :: "string \<Rightarrow> 'a \<Rightarrow> (string \<times> 'a) list \<Rightarrow> (string \<times> 'a) list" where
  "put k v [] = [(k, v)]"
| "put k v ((k', v') # kvs) = (if k' = k then (k, v) # kvs else (k', v') # put k v kvs)"

definition FleetError :: exn where
  "FleetError = FaspError ''capability.unavailable''"

definition register :: "'w FleetRegistry \<Rightarrow> string \<Rightarrow> 'w adapter \<Rightarrow> timestamp \<Rightarrow> 'w FleetRegistry result" where
  "register reg fleet ad t =
     (if fleet = '''' \<or> CHR '':'' \<in> set fleet then Inl schema_error
      else Inr (reg\<lparr>fr_adapters := put fleet ad (fr_adapters reg),
                    fr_health := put fleet \<lparr>he_healthy = True, he_operation = ''registered'', he_checked_at = t\<rparr> (fr_health reg)\<rparr>))"

definition unregister :: "'w FleetRegistry \<Rightarrow> string \<Rightarrow> 'w FleetRegistry" where
  "unregister reg fleet =
     reg\<lparr>fr_adapters := filter (\<lambda>p. fst p \<noteq> fleet) (fr_adapters reg), fr_health := filter (\<lambda>p. fst p \<noteq> fleet) (fr_health reg)\<rparr>"

definition fleets :: "'w FleetRegistry \<Rightarrow> string list" where
  "fleets reg = sort (map fst (fr_adapters reg))"

definition adapter_of :: "'w FleetRegistry \<Rightarrow> string \<Rightarrow> 'w adapter result" where
  "adapter_of reg fleet = (case map_of (fr_adapters reg) fleet of None \<Rightarrow> Inl FleetError | Some ad \<Rightarrow> Inr ad)"

text \<open>\<^verbatim>\<open>str.partition(":")\<close> at the first colon.\<close>

definition split_address :: "string \<Rightarrow> (string \<times> string) result" where
  "split_address addr =
     (let fleet = takeWhile (\<lambda>c. c \<noteq> CHR '':'') addr; rest = dropWhile (\<lambda>c. c \<noteq> CHR '':'') addr
      in case rest of
           [] \<Rightarrow> Inl schema_error
         | _ # vehicle \<Rightarrow> if fleet = '''' \<or> vehicle = '''' then Inl schema_error else Inr (fleet, vehicle))"

definition address :: "string \<Rightarrow> string \<Rightarrow> string" where
  "address fleet vehicle_id = fleet @ CHR '':'' # vehicle_id"

text \<open>
  Running one adapter call: the health of the fleet is recorded either way, a protocol error passes
  and any other exception becomes a protocol error.
\<close>

definition guarded ::
    "'w FleetRegistry \<Rightarrow> string \<Rightarrow> string \<Rightarrow> timestamp \<Rightarrow> ('w \<Rightarrow> 'w \<times> 'a result) \<Rightarrow> 'w FleetRegistry \<times> 'a result" where
  "guarded reg fleet op t call =
     (case call (fr_world reg) of
        (w, r) \<Rightarrow>
          (reg\<lparr>fr_world := w,
               fr_health := put fleet \<lparr>he_healthy = is_ok r, he_operation = op, he_checked_at = t\<rparr> (fr_health reg)\<rparr>,
           (case r of
              Inr x \<Rightarrow> Inr x
            | Inl (FaspError c) \<Rightarrow> Inl (FaspError c)
            | Inl _ \<Rightarrow> Inl (FaspError ''transport.unreachable''))))"

text \<open>\<^verbatim>\<open>lambda: self.adapter(fleet).operation(...)\<close>: a fleet that is not registered fails inside the call.\<close>

definition on_adapter :: "'w FleetRegistry \<Rightarrow> string \<Rightarrow> ('w adapter \<Rightarrow> 'w \<Rightarrow> 'w \<times> 'a result) \<Rightarrow> 'w \<Rightarrow> 'w \<times> 'a result" where
  "on_adapter reg fleet operation w = (case adapter_of reg fleet of Inl e \<Rightarrow> (w, Inl e) | Inr ad \<Rightarrow> operation ad w)"

fun list_each :: "'w FleetRegistry \<Rightarrow> timestamp \<Rightarrow> string list \<Rightarrow> 'w FleetRegistry \<times> (string \<times> VehicleState) list result" where
  "list_each reg t [] = (reg, Inr [])"
| "list_each reg t (name # names) =
     (case adapter_of reg name of
        Inl e \<Rightarrow> (reg, Inl e)
      | Inr ad \<Rightarrow>
          (case guarded reg name ''list_vehicles'' t (ad_list_vehicles ad) of
             (reg1, listed) \<Rightarrow>
               (case list_each reg1 t names of
                  (reg2, Inl e) \<Rightarrow> (reg2, Inl e)
                | (reg2, Inr rest) \<Rightarrow>
                    (reg2, Inr ((case listed of
                                   Inl _ \<Rightarrow> []
                                 | Inr states \<Rightarrow> map (\<lambda>s. (address name (vs_vehicle_id s), s)) states) @ rest)))))"

definition list_vehicles ::
    "'w FleetRegistry \<Rightarrow> timestamp \<Rightarrow> string option \<Rightarrow> 'w FleetRegistry \<times> (string \<times> VehicleState) list result" where
  "list_vehicles reg t fleet =
     list_each reg t (case fleet of Some f \<Rightarrow> if f \<noteq> '''' then [f] else fleets reg | None \<Rightarrow> fleets reg)"

definition addressed ::
    "'w FleetRegistry \<Rightarrow> timestamp \<Rightarrow> string \<Rightarrow> string \<Rightarrow> (string \<Rightarrow> 'w adapter \<Rightarrow> 'w \<Rightarrow> 'w \<times> 'a result) \<Rightarrow>
     'w FleetRegistry \<times> 'a result" where
  "addressed reg t addr op operation =
     (case split_address addr of
        Inl e \<Rightarrow> (reg, Inl e)
      | Inr (fleet, vehicle_id) \<Rightarrow> guarded reg fleet op t (on_adapter reg fleet (operation vehicle_id)))"

definition vehicle_state :: "'w FleetRegistry \<Rightarrow> timestamp \<Rightarrow> string \<Rightarrow> 'w FleetRegistry \<times> VehicleState result" where
  "vehicle_state reg t addr = addressed reg t addr ''vehicle_state'' (\<lambda>v ad w. ad_vehicle_state ad w v)"

definition capabilities :: "'w FleetRegistry \<Rightarrow> timestamp \<Rightarrow> string \<Rightarrow> 'w FleetRegistry \<times> VehicleCapabilities result" where
  "capabilities reg t addr = addressed reg t addr ''capabilities'' (\<lambda>v ad w. ad_capabilities ad w v)"

definition dispatch :: "'w FleetRegistry \<Rightarrow> timestamp \<Rightarrow> Mission \<Rightarrow> string \<Rightarrow> 'w FleetRegistry \<times> json result" where
  "dispatch reg t m addr = addressed reg t addr ''dispatch'' (\<lambda>v ad w. ad_dispatch ad w m v)"

definition registry_cancel :: "'w FleetRegistry \<Rightarrow> timestamp \<Rightarrow> string \<Rightarrow> string \<Rightarrow> 'w FleetRegistry \<times> bool result" where
  "registry_cancel reg t fleet mid = guarded reg fleet ''cancel'' t (on_adapter reg fleet (\<lambda>ad w. ad_cancel ad w mid))"

definition registry_mission_state :: "'w FleetRegistry \<Rightarrow> timestamp \<Rightarrow> string \<Rightarrow> string \<Rightarrow> 'w FleetRegistry \<times> MissionState result" where
  "registry_mission_state reg t fleet mid =
     guarded reg fleet ''mission_state'' t (on_adapter reg fleet (\<lambda>ad w. ad_mission_state ad w mid))"

definition request_stop :: "'w FleetRegistry \<Rightarrow> timestamp \<Rightarrow> string \<Rightarrow> string \<Rightarrow> 'w FleetRegistry \<times> bool" where
  "request_stop reg t addr why =
     (case addressed reg t addr ''request_stop'' (\<lambda>v ad w. ad_request_stop ad w v why) of
        (reg', Inr ok) \<Rightarrow> (reg', ok)
      | (reg', Inl _) \<Rightarrow> (reg', False))"

fun stop_each ::
    "'w FleetRegistry \<Rightarrow> timestamp \<Rightarrow> string \<Rightarrow> string list \<Rightarrow> (string \<times> bool) list \<Rightarrow> 'w FleetRegistry \<times> (string \<times> bool) list" where
  "stop_each reg t why [] outcomes = (reg, outcomes)"
| "stop_each reg t why (a # as) outcomes =
     (case request_stop reg t a why of (reg1, ok) \<Rightarrow> stop_each reg1 t why as (put a ok outcomes))"

definition request_stop_all :: "'w FleetRegistry \<Rightarrow> timestamp \<Rightarrow> string \<Rightarrow> 'w FleetRegistry \<times> (string \<times> bool) list result" where
  "request_stop_all reg t why =
     (case list_vehicles reg t None of
        (reg1, Inl e) \<Rightarrow> (reg1, Inl e)
      | (reg1, Inr vs) \<Rightarrow> (case stop_each reg1 t why (map fst vs) [] of (reg2, oks) \<Rightarrow> (reg2, Inr oks)))"

section \<open>Selection\<close>

type_synonym considered = "(string \<times> bool \<times> reason) list"

definition wanted :: "Mission \<Rightarrow> string \<Rightarrow> VehicleState \<Rightarrow> bool" where
  "wanted m addr v =
     (case mi_vehicle_id m of
        None \<Rightarrow> True
      | Some want \<Rightarrow> want = '''' \<or> vs_vehicle_id v = want \<or> addr = want)"

text \<open>Eligibility of one vehicle, with the reason.\<close>

definition consider_vehicle ::
    "py_parse \<Rightarrow> 'w FleetRegistry \<Rightarrow> timestamp \<Rightarrow> Mission \<Rightarrow> pyfloat \<Rightarrow> string \<Rightarrow> VehicleState \<Rightarrow>
     'w FleetRegistry \<times> bool \<times> reason" where
  "consider_vehicle fs reg t m minimum_battery addr v =
     (case dispatchable fs v minimum_battery of
        (False, why) \<Rightarrow> (reg, False, why)
      | (True, _) \<Rightarrow>
          (case capabilities reg t addr of
             (reg', Inr vc) \<Rightarrow> (reg', supports vc m)
           | (reg', Inl (FaspError c)) \<Rightarrow> (reg', False, AdapterFailed c)
           | (reg', Inl _) \<Rightarrow> (reg', False, AdapterFailed '''')))"

fun select_loop ::
    "py_parse \<Rightarrow> 'w FleetRegistry \<Rightarrow> timestamp \<Rightarrow> Mission \<Rightarrow> pyfloat \<Rightarrow> (string \<times> VehicleState) list \<Rightarrow>
     (pyfloat \<times> string) option \<Rightarrow> considered \<Rightarrow> 'w FleetRegistry \<times> (pyfloat \<times> string) option \<times> considered" where
  "select_loop fs reg t m minimum_battery [] best seen = (reg, best, seen)"
| "select_loop fs reg t m minimum_battery ((addr, v) # rest) best seen =
     (if \<not> wanted m addr v then select_loop fs reg t m minimum_battery rest best seen
      else case consider_vehicle fs reg t m minimum_battery addr v of
             (reg1, ok, why) \<Rightarrow>
               select_loop fs reg1 t m minimum_battery rest
                 (if ok \<and> (case best of None \<Rightarrow> True | Some (score, _) \<Rightarrow> fl_less score (vs_battery_ratio v))
                  then Some (vs_battery_ratio v, addr) else best)
                 (seen @ [(addr, ok, why)]))"

definition select_vehicle ::
    "py_parse \<Rightarrow> 'w FleetRegistry \<Rightarrow> timestamp \<Rightarrow> Mission \<Rightarrow> pyfloat \<Rightarrow> 'w FleetRegistry \<times> (string option \<times> considered) result" where
  "select_vehicle fs reg t m minimum_battery =
     (case list_vehicles reg t (mi_fleet m) of
        (reg1, Inl e) \<Rightarrow> (reg1, Inl e)
      | (reg1, Inr vs) \<Rightarrow>
          (case select_loop fs reg1 t m minimum_battery vs None [] of
             (reg2, best, seen) \<Rightarrow> (reg2, Inr (map_option snd best, seen))))"

section \<open>Adapters that only read when they are asked to read\<close>

text \<open>
  What the coordinator relies on of a vendor adapter: the listing and the three queries do not act
  on the world. The simulated fleet provides it and interprets this locale; the VDA 5050 adapter
  does not, because it asks a vehicle whose factsheet it has not seen for it.
\<close>

locale reading_adapter =
  fixes ad :: "'w adapter"
  assumes list_reads: "fst (ad_list_vehicles ad w) = w"
    and state_reads: "fst (ad_vehicle_state ad w v) = w"
    and capabilities_reads: "fst (ad_capabilities ad w v) = w"
    and mission_state_reads: "fst (ad_mission_state ad w m) = w"

definition read_only :: "'w FleetRegistry \<Rightarrow> bool" where
  "read_only reg \<longleftrightarrow> (\<forall>p \<in> set (fr_adapters reg). reading_adapter (snd p))"

text \<open>Two registries that differ in the recorded health only.\<close>

definition same_fleet :: "'w FleetRegistry \<Rightarrow> 'w FleetRegistry \<Rightarrow> bool" where
  "same_fleet reg reg' \<longleftrightarrow> fr_adapters reg' = fr_adapters reg \<and> fr_world reg' = fr_world reg"

lemma same_fleet_refl [simp]: "same_fleet reg reg"
  by (simp add: same_fleet_def)

lemma same_fleet_trans: "same_fleet r1 r2 \<Longrightarrow> same_fleet r2 r3 \<Longrightarrow> same_fleet r1 r3"
  by (simp add: same_fleet_def)

lemma same_fleet_read_only: "same_fleet reg reg' \<Longrightarrow> read_only reg' \<longleftrightarrow> read_only reg"
  by (simp add: same_fleet_def read_only_def)

lemma adapter_of_reading:
  assumes "read_only reg" and "adapter_of reg fleet = Inr ad"
  shows "reading_adapter ad"
proof -
  have "map_of (fr_adapters reg) fleet = Some ad" using assms(2) by (auto simp: adapter_of_def split: option.splits)
  then have "(fleet, ad) \<in> set (fr_adapters reg)" by (rule map_of_SomeD)
  with assms(1) show ?thesis by (force simp: read_only_def)
qed

lemma guarded_adapters [simp]: "fr_adapters (fst (guarded reg fleet op t call)) = fr_adapters reg"
  by (simp add: guarded_def split: prod.split)

lemma guarded_world [simp]: "fr_world (fst (guarded reg fleet op t call)) = fst (call (fr_world reg))"
  by (simp add: guarded_def split: prod.split)

lemma guarded_same: "fst (call (fr_world reg)) = fr_world reg \<Longrightarrow> same_fleet reg (fst (guarded reg fleet op t call))"
  by (simp add: same_fleet_def)

lemma guarded_Inl: "snd (guarded reg fleet op t call) = Inl e \<Longrightarrow> \<exists>c. e = FaspError c"
  by (auto simp: guarded_def split: prod.splits sum.splits exn.splits)

lemma guarded_snd: "snd (guarded reg fleet op t call) = Inr x \<longleftrightarrow> snd (call (fr_world reg)) = Inr x"
  by (auto simp: guarded_def split: prod.splits sum.splits exn.splits)

lemma addressed_adapters [simp]: "fr_adapters (fst (addressed reg t addr op f)) = fr_adapters reg"
  by (auto simp: addressed_def split: sum.split prod.split)

lemma addressed_same:
  assumes "read_only reg" and f: "\<And>ad v w. reading_adapter ad \<Longrightarrow> fst (f v ad w) = w"
  shows "same_fleet reg (fst (addressed reg t addr op f))"
proof (cases "split_address addr")
  case (Inr p)
  have "fst (on_adapter reg (fst p) (f (snd p)) w) = w" for w
    using f adapter_of_reading [OF assms(1)] by (auto simp: on_adapter_def split: sum.split)
  then show ?thesis using Inr by (simp add: addressed_def split_beta guarded_same)
qed (simp add: addressed_def)

lemma addressed_Inr:
  "snd (addressed reg t addr op f) = Inr x \<longleftrightarrow>
     (\<exists>fleet v ad. split_address addr = Inr (fleet, v) \<and> adapter_of reg fleet = Inr ad \<and> snd (f v ad (fr_world reg)) = Inr x)"
  by (auto simp: addressed_def guarded_snd on_adapter_def split: sum.splits)

lemma split_address_Inl: "split_address addr = Inl e \<Longrightarrow> e = schema_error"
  by (auto simp: split_address_def Let_def split: list.splits if_splits)

lemma addressed_Inl: "snd (addressed reg t addr op f) = Inl e \<Longrightarrow> \<exists>c. e = FaspError c"
  by (auto simp: addressed_def schema_error_def dest: guarded_Inl dest!: split_address_Inl split: sum.splits)

lemmas query_defs = vehicle_state_def capabilities_def

lemma query_same:
  assumes "read_only reg"
  shows "same_fleet reg (fst (vehicle_state reg t addr))" "same_fleet reg (fst (capabilities reg t addr))"
  unfolding query_defs
  by (rule addressed_same [OF assms], simp add: reading_adapter.state_reads reading_adapter.capabilities_reads)+

lemma registry_mission_state_same:
  assumes "read_only reg"
  shows "same_fleet reg (fst (registry_mission_state reg t fleet mid))"
proof -
  have "fst (on_adapter reg fleet (\<lambda>ad w. ad_mission_state ad w mid) w) = w" for w
    using adapter_of_reading [OF assms] reading_adapter.mission_state_reads by (fastforce simp: on_adapter_def split: sum.split)
  then show ?thesis unfolding registry_mission_state_def by (intro guarded_same) simp
qed

lemma adapter_of_same: "same_fleet reg reg' \<Longrightarrow> adapter_of reg' fleet = adapter_of reg fleet"
  by (simp add: same_fleet_def adapter_of_def)

lemma capabilities_cong:
  "same_fleet reg reg' \<Longrightarrow> snd (capabilities reg' t' addr) = Inr vc \<longleftrightarrow> snd (capabilities reg t addr) = Inr vc"
  by (simp add: capabilities_def addressed_Inr adapter_of_same) (simp add: same_fleet_def)

lemma list_each_same:
  "read_only reg \<Longrightarrow> same_fleet reg (fst (list_each reg t names))"
proof (induction names arbitrary: reg)
  case (Cons name names)
  show ?case
  proof (cases "adapter_of reg name")
    case (Inr ad)
    let ?r1 = "fst (guarded reg name ''list_vehicles'' t (ad_list_vehicles ad))"
    have one: "same_fleet reg ?r1"
      using adapter_of_reading [OF Cons.prems Inr] by (intro guarded_same) (rule reading_adapter.list_reads)
    then have "same_fleet ?r1 (fst (list_each ?r1 t names))" using Cons same_fleet_read_only by blast
    with one have "same_fleet reg (fst (list_each ?r1 t names))" by (rule same_fleet_trans)
    then show ?thesis using Inr by (simp add: split_beta split: sum.split)
  qed simp
qed simp

lemma list_vehicles_same: "read_only reg \<Longrightarrow> same_fleet reg (fst (list_vehicles reg t fleet))"
  unfolding list_vehicles_def by (rule list_each_same)

section \<open>Selection picks the most charged eligible vehicle\<close>

text \<open>The specification: what a vehicle must be to get the mission.\<close>

definition eligible :: "py_parse \<Rightarrow> 'w FleetRegistry \<Rightarrow> timestamp \<Rightarrow> Mission \<Rightarrow> pyfloat \<Rightarrow> string \<Rightarrow> VehicleState \<Rightarrow> bool" where
  "eligible fs reg t m minimum_battery addr v \<longleftrightarrow>
     wanted m addr v \<and> vs_online v \<and> vs_operating_mode v = AUTOMATIC \<and> \<not> vs_safety_estop_active v \<and>
     \<not> vs_protective_field_violated v \<and> fatal_errors fs v = [] \<and> vs_current_mission_id v \<in> {None, Some ''''} \<and>
     \<not> fl_less (vs_battery_ratio v) minimum_battery \<and>
     (\<exists>vc. snd (capabilities reg t addr) = Inr vc \<and> (\<forall>s \<in> set (mi_steps m). st_kind s \<in> set (vc_supported_steps vc)))"

lemma dispatchable_iff:
  "fst (dispatchable fs v mb) \<longleftrightarrow>
     vs_online v \<and> vs_operating_mode v = AUTOMATIC \<and> \<not> vs_safety_estop_active v \<and> \<not> vs_protective_field_violated v \<and>
     fatal_errors fs v = [] \<and> vs_current_mission_id v \<in> {None, Some ''''} \<and> \<not> fl_less (vs_battery_ratio v) mb"
  by (auto simp: dispatchable_def accepts_missions_def split: option.splits)

lemma supports_iff: "fst (supports vc m) \<longleftrightarrow> (\<forall>s \<in> set (mi_steps m). st_kind s \<in> set (vc_supported_steps vc))"
  by (auto simp: supports_def find_None_all dest: find_Some_mem split: option.splits)

lemma eligible_iff:
  "eligible fs reg t m mb addr v \<longleftrightarrow>
     wanted m addr v \<and> fst (dispatchable fs v mb) \<and> (\<exists>vc. snd (capabilities reg t addr) = Inr vc \<and> fst (supports vc m))"
  unfolding eligible_def dispatchable_iff supports_iff by blast

lemma consider_vehicle_eligible:
  "wanted m addr v \<Longrightarrow> fst (snd (consider_vehicle fs reg t m mb addr v)) \<longleftrightarrow> eligible fs reg t m mb addr v"
  unfolding eligible_iff consider_vehicle_def by (auto split: prod.splits bool.splits sum.splits exn.splits)

lemma consider_vehicle_same:
  "read_only reg \<Longrightarrow> same_fleet reg (fst (consider_vehicle fs reg t m mb addr v))"
  using query_same(2) [of reg t addr]
  by (auto simp: consider_vehicle_def split: prod.splits bool.splits sum.splits exn.splits)

lemma eligible_cong: "same_fleet reg reg' \<Longrightarrow> eligible fs reg' t m mb addr v \<longleftrightarrow> eligible fs reg t m mb addr v"
  unfolding eligible_def by (simp add: capabilities_cong [of reg reg' t addr _ t])

lemma fl_less_trans: "fl_less a b \<Longrightarrow> fl_less b c \<Longrightarrow> fl_less a c"
  by (cases a; cases b; cases c) auto

text \<open>The choice alone, over a fixed notion of eligibility.\<close>

fun pick :: "(string \<Rightarrow> VehicleState \<Rightarrow> bool) \<Rightarrow> (string \<times> VehicleState) list \<Rightarrow> (pyfloat \<times> string) option \<Rightarrow> (pyfloat \<times> string) option" where
  "pick ok [] best = best"
| "pick ok ((a, v) # vs) best =
     pick ok vs (if ok a v \<and> (case best of None \<Rightarrow> True | Some (score, _) \<Rightarrow> fl_less score (vs_battery_ratio v))
                 then Some (vs_battery_ratio v, a) else best)"

lemma select_loop_pick:
  "read_only reg \<Longrightarrow>
     same_fleet reg (fst (select_loop fs reg t m mb vs best seen)) \<and>
     fst (snd (select_loop fs reg t m mb vs best seen)) = pick (eligible fs reg t m mb) vs best"
proof (induction vs arbitrary: reg best seen)
  case (Cons p vs)
  obtain a v where p: "p = (a, v)" by fastforce
  show ?case
  proof (cases "wanted m a v")
    case False
    then have "\<not> eligible fs reg t m mb a v" by (simp add: eligible_iff)
    with False Cons.IH [OF Cons.prems] show ?thesis by (simp add: p)
  next
    case True
    obtain reg1 ok why where con: "consider_vehicle fs reg t m mb a v = (reg1, ok, why)" by (metis prod_cases3)
    have ok: "ok \<longleftrightarrow> eligible fs reg t m mb a v" using consider_vehicle_eligible [OF True, of fs reg t mb] con by simp
    have same: "same_fleet reg reg1" using consider_vehicle_same [OF Cons.prems, of fs t m mb a v] con by simp
    then have el: "eligible fs reg1 t m mb = eligible fs reg t m mb" by (intro ext) (rule eligible_cong)
    have ro: "read_only reg1" using same Cons.prems same_fleet_read_only by blast
    show ?thesis using Cons.IH [OF ro] same_fleet_trans [OF same] True con ok el by (simp add: p)
  qed
qed simp

lemma pick_keeps:
  "pick ok vs (Some (s0, a0)) = Some (s, a) \<Longrightarrow> s = s0 \<or> fl_less s0 s"
proof (induction vs arbitrary: s0 a0)
  case (Cons p vs)
  then show ?case by (cases p) (fastforce split: if_splits dest: fl_less_trans)
qed simp

lemma pick_None: "pick ok vs best = None \<longleftrightarrow> best = None \<and> (\<forall>(a, v) \<in> set vs. \<not> ok a v)"
proof (induction vs arbitrary: best)
  case (Cons p vs)
  then show ?case by (cases p) (auto split: option.splits)
qed simp

lemma pick_mem:
  "pick ok vs best = Some (s, a) \<Longrightarrow>
     best = Some (s, a) \<or> (\<exists>v. (a, v) \<in> set vs \<and> ok a v \<and> s = vs_battery_ratio v)"
proof (induction vs arbitrary: best)
  case (Cons p vs)
  obtain b u where p: "p = (b, u)" by fastforce
  from Cons.IH [OF Cons.prems [unfolded p, simplified]] show ?case by (auto simp: p split: if_splits)
qed simp

lemma pick_best:
  "pick ok vs best = Some (s, a) \<Longrightarrow> (b, u) \<in> set vs \<Longrightarrow> ok b u \<Longrightarrow> \<not> fl_less s (vs_battery_ratio u)"
proof (induction vs arbitrary: best)
  case (Cons p vs)
  show ?case
  proof (cases "(b, u) \<in> set vs")
    case True
    then show ?thesis using Cons by (cases p) auto
  next
    case False
    then have p: "p = (b, u)" using Cons.prems(2) by auto
    let ?best = "if ok b u \<and> (case best of None \<Rightarrow> True | Some (score, _) \<Rightarrow> fl_less score (vs_battery_ratio u))
                 then Some (vs_battery_ratio u, b) else best"
    have run: "pick ok vs ?best = Some (s, a)" using Cons.prems(1) by (simp add: p)
    have irr: "\<not> fl_less x x" for x by (cases x) simp_all
    have "\<exists>s1 a1. ?best = Some (s1, a1) \<and> \<not> fl_less s1 (vs_battery_ratio u)"
      using Cons.prems(3) irr by (cases best) auto
    then obtain s1 a1 where b1: "?best = Some (s1, a1)" "\<not> fl_less s1 (vs_battery_ratio u)" by blast
    have "s = s1 \<or> fl_less s1 s" using run unfolding b1(1) by (rule pick_keeps)
    with b1(2) show ?thesis using fl_less_trans by blast
  qed
qed simp


section \<open>A mission definition reads back\<close>

lemma step_kind_of_value: "step_kind_of (py_lower (step_kind_value k)) = Some k"
proof -
  have "list_all (\<lambda>k. step_kind_of (py_lower (step_kind_value k)) = Some k) all_step_kinds" by code_simp
  moreover have "k \<in> set all_step_kinds" by (cases k) (simp_all add: all_step_kinds_def)
  ultimately show ?thesis by (simp add: list_all_iff)
qed

lemma pose_roundtrip: "pose_from_dict fs (pose_to_dict p) = Inr p"
  by (simp add: pose_from_dict_def pose_to_dict_def to_float_def)

lemma object_or_empty_JObj [simp]: "object_or_empty (JObj kvs) = Inr kvs"
  by (simp add: object_or_empty_def)

definition wf_step :: "MissionStep \<Rightarrow> bool" where
  "wf_step s \<longleftrightarrow> st_step_id s \<noteq> '''' \<and> (st_kind s = MOVE \<longrightarrow> st_node_id s \<noteq> None \<or> st_pose s \<noteq> None) \<and>
     0 < st_timeout_s s \<and> st_timeout_s s \<le> 86400"

lemma step_roundtrip:
  assumes "wf_step s"
  shows "step_from_dict fs u (step_to_dict s) = Inr s"
proof -
  have pose: "pose_option fs (Some (case st_pose s of None \<Rightarrow> JNull | Some p \<Rightarrow> pose_to_dict p)) = Inr (st_pose s)"
    using pose_roundtrip [of fs]
    by (cases "st_pose s") (simp_all add: pose_option_def, simp add: pose_to_dict_def)
  show ?thesis
    using assms pose step_kind_of_value [of "st_kind s"]
    by (simp add: step_from_dict_def step_to_dict_def wf_step_def opt_str_def get_or_null_def timeout_of_def split: option.split) auto
qed

lemma to_str_truthy: "(\<And>v. pp_str fs v \<noteq> '''') \<Longrightarrow> truthy j \<Longrightarrow> to_str fs j \<noteq> ''''"
  by (cases j) auto

lemma step_from_dict_wf:
  assumes str: "\<And>v. pp_str fs v \<noteq> ''''" and "u \<noteq> ''''" and "step_from_dict fs u j = Inr s"
  shows "wf_step s"
proof -
  obtain kvs kind where k: "j = JObj kvs"
    "step_kind_of (py_lower (case map_of kvs ''kind'' of None \<Rightarrow> ''move'' | Some j \<Rightarrow> to_str fs j)) = Some kind"
    using assms(3) by (auto simp: step_from_dict_def split: json.splits option.splits)
  have timeout: "0 < timeout_of v \<and> timeout_of v \<le> 86400" for v
    by (auto simp: timeout_of_def split: option.split pyfloat.split)
  show ?thesis
    using assms(2,3) to_str_truthy [OF str] timeout
    unfolding step_from_dict_def k(1) wf_step_def
    by (auto simp: k(2) [simplified] bind_result_Inr_iff Let_def split: if_splits option.splits)
qed

lemma steps_from_wf:
  assumes "\<And>v. pp_str fs v \<noteq> ''''" and "\<And>i. uuids i \<noteq> ''''"
  shows "steps_from fs uuids i js = Inr ss \<Longrightarrow> length ss = length js \<and> list_all wf_step ss"
proof (induction js arbitrary: i ss)
  case (Cons j js)
  then show ?case using step_from_dict_wf [OF assms(1) assms(2)] by (fastforce simp: bind_result_Inr_iff)
qed simp

lemma steps_roundtrip: "list_all wf_step ss \<Longrightarrow> steps_from fs uuids i (map step_to_dict ss) = Inr ss"
  by (induction ss arbitrary: i) (auto simp: step_roundtrip)

definition wf_mission :: "Mission \<Rightarrow> bool" where
  "wf_mission m \<longleftrightarrow> mi_mission_id m \<noteq> '''' \<and> length (mi_mission_id m) \<le> 128 \<and>
     1 \<le> length (mi_steps m) \<and> length (mi_steps m) \<le> MAX_MISSION_STEPS \<and> list_all wf_step (mi_steps m) \<and>
     -100 \<le> mi_priority m \<and> mi_priority m \<le> 100 \<and>
     mi_fleet m \<noteq> Some '''' \<and> mi_vehicle_id m \<noteq> Some '''' \<and> mi_deadline_at m \<noteq> Some '''' \<and>
     (case mi_fleet m of None \<Rightarrow> True | Some f \<Rightarrow> length f \<le> 64) \<and>
     (case mi_vehicle_id m of None \<Rightarrow> True | Some v \<Rightarrow> length v \<le> 128)"

lemma text_or_none_roundtrip:
  "v \<noteq> Some '''' \<Longrightarrow> (case (v, bound) of (Some s, Some n) \<Rightarrow> length s \<le> n | _ \<Rightarrow> True) \<Longrightarrow>
     text_or_none fs bound (opt_str v) = v"
  by (cases v; cases bound) (simp_all add: text_or_none_def opt_str_def)

lemma mission_roundtrip_wf:
  assumes "wf_mission m"
  shows "mission_from_dict fs uuids (mi_created_at m) (mi_requested_by m) (mission_to_dict m) = Inr m"
proof -
  have texts: "text_or_none fs (Some 64) (opt_str (mi_fleet m)) = mi_fleet m"
    "text_or_none fs (Some 128) (opt_str (mi_vehicle_id m)) = mi_vehicle_id m"
    "text_or_none fs None (opt_str (mi_deadline_at m)) = mi_deadline_at m"
    using assms by (auto intro!: text_or_none_roundtrip simp: wf_mission_def split: option.splits)
  show ?thesis
    using assms steps_roundtrip [of "mi_steps m" fs uuids 1]
    by (simp add: mission_from_dict_def mission_to_dict_def get_or_null_def texts wf_mission_def priority_of_def Suc_le_eq)
qed

lemma take_not_Nil: "s \<noteq> [] \<Longrightarrow> 0 < n \<Longrightarrow> take n s \<noteq> []"
  by (cases s; cases n) simp_all

lemma text_or_none_wf:
  assumes "\<And>v. pp_str fs v \<noteq> ''''" and "\<And>n. bound = Some n \<Longrightarrow> 0 < n"
  shows "text_or_none fs bound j \<noteq> Some '''' \<and>
         (case (text_or_none fs bound j, bound) of (Some s, Some n) \<Rightarrow> length s \<le> n | _ \<Rightarrow> True)"
  using to_str_truthy [OF assms(1), of j] assms(2) take_not_Nil [of "to_str fs j"]
  by (auto simp: text_or_none_def split: option.split)

lemma mission_from_dict_wf:
  assumes str: "\<And>v. pp_str fs v \<noteq> ''''" and uu: "\<And>i. uuids i \<noteq> ''''"
    and "mission_from_dict fs uuids t by j = Inr m"
  shows "wf_mission m \<and> mi_created_at m = t \<and> mi_requested_by m = by"
proof -
  obtain kvs raw where raw: "j = JObj kvs" "map_of kvs ''steps'' = Some (JList raw)" "1 \<le> length raw" "length raw \<le> MAX_MISSION_STEPS"
    using assms(3) by (auto simp: mission_from_dict_def split: json.splits option.splits if_splits)
  obtain steps where steps: "steps_from fs uuids 1 raw = Inr steps"
    and m: "mi_mission_id m = take 128 (let j = get_or_null kvs ''mission_id'' in if truthy j then to_str fs j else ''mission-'' @ uuids 0)"
      "mi_requested_by m = by" "mi_steps m = steps" "mi_priority m = priority_of (map_of kvs ''priority'')"
      "mi_fleet m = text_or_none fs (Some 64) (get_or_null kvs ''fleet'')"
      "mi_vehicle_id m = text_or_none fs (Some 128) (get_or_null kvs ''vehicle_id'')"
      "mi_deadline_at m = text_or_none fs None (get_or_null kvs ''deadline_at'')" "mi_created_at m = t"
    using assms(3) raw by (auto simp: mission_from_dict_def bind_result_Inr_iff Let_def)
  have prio: "-100 \<le> priority_of v \<and> priority_of v \<le> 100" for v
    by (auto simp: priority_of_def split: option.split)
  have "mi_mission_id m \<noteq> '''' \<and> length (mi_mission_id m) \<le> 128"
    using to_str_truthy [OF str] unfolding m(1) by (auto simp: Let_def intro!: take_not_Nil)
  moreover have "length steps = length raw" "list_all wf_step steps"
    using steps_from_wf [OF str uu steps] by blast+
  moreover note text_or_none_wf [OF str, of "Some 64" "get_or_null kvs ''fleet''"]
    text_or_none_wf [OF str, of "Some 128" "get_or_null kvs ''vehicle_id''"]
    text_or_none_wf [OF str, of None "get_or_null kvs ''deadline_at''"]
  ultimately show ?thesis unfolding wf_mission_def using m raw prio by (simp split: option.splits)
qed

text \<open>
  An accepted mission reads back from the definition that is stored for it: whatever object a
  mission was parsed from, printing the mission and parsing the print gives the same mission, with
  the identifiers, defaults and truncations of the first parse. The hypotheses are documented
  behaviour of the standard library: \<^verbatim>\<open>str()\<close> of a number, list or object and a fresh UUID are not
  empty.
\<close>

theorem mission_definition_roundtrip:
  assumes "\<And>v. pp_str fs v \<noteq> ''''" and "\<And>i. uuids i \<noteq> ''''"
    and "mission_from_dict fs uuids created_at peer j = Inr m"
  shows "mission_from_dict fs' uuids' created_at peer (mission_to_dict m) = Inr m"
proof -
  have wf: "wf_mission m" "mi_created_at m = created_at" "mi_requested_by m = peer"
    using mission_from_dict_wf [OF assms] by blast+
  show ?thesis using mission_roundtrip_wf [OF wf(1), of fs' uuids'] wf(2,3) by simp
qed

definition demo_std :: py_parse where
  "demo_std = \<lparr>pp_float = (\<lambda>_. None), pp_int = (\<lambda>_. None), pp_str = (\<lambda>_. ''?'')\<rparr>"

definition demo_mission_json :: json where
  "demo_mission_json = JObj [(''steps'', JList [JObj [(''kind'', JStr ''Move''), (''node_id'', JStr ''dock'')], JObj [(''kind'', JStr ''wait'')]]),
     (''priority'', JInt 500)]"

definition demo_mission :: Mission where
  "demo_mission = projr (mission_from_dict demo_std (\<lambda>i. ''u'') ''now'' ''peer'' demo_mission_json)"

lemma demo_mission_parses: "mission_from_dict demo_std (\<lambda>i. ''u'') ''now'' ''peer'' demo_mission_json = Inr demo_mission"
proof -
  have "is_ok (mission_from_dict demo_std (\<lambda>i. ''u'') ''now'' ''peer'' demo_mission_json)" by code_simp
  then show ?thesis by (auto simp: demo_mission_def is_ok_iff)
qed

theorem mission_definition_roundtrip_witness:
  "mission_from_dict demo_std (\<lambda>i. ''v'') ''now'' ''peer'' (mission_to_dict demo_mission) = Inr demo_mission"
  by (rule mission_definition_roundtrip [OF _ _ demo_mission_parses]) (simp_all add: demo_std_def)

section \<open>Addresses and stop requests\<close>

lemma split_address_address:
  assumes "fleet \<noteq> ''''" "CHR '':'' \<notin> set fleet" "vehicle_id \<noteq> ''''"
  shows "split_address (address fleet vehicle_id) = Inr (fleet, vehicle_id)"
proof -
  have "takeWhile (\<lambda>c. c \<noteq> CHR '':'') (fleet @ CHR '':'' # vehicle_id) = fleet"
    "dropWhile (\<lambda>c. c \<noteq> CHR '':'') (fleet @ CHR '':'' # vehicle_id) = CHR '':'' # vehicle_id"
    using assms(2) by (induction fleet) auto
  with assms show ?thesis by (simp add: split_address_def address_def)
qed

lemma list_each_total:
  "set names \<subseteq> set (map fst (fr_adapters reg)) \<Longrightarrow> \<exists>vs. snd (list_each reg t names) = Inr vs"
proof (induction names arbitrary: reg)
  case (Cons name names)
  obtain ad where ad: "adapter_of reg name = Inr ad"
    using Cons.prems by (cases "map_of (fr_adapters reg) name") (auto simp: adapter_of_def map_of_eq_None_iff)
  obtain reg1 listed where one: "guarded reg name ''list_vehicles'' t (ad_list_vehicles ad) = (reg1, listed)" by fastforce
  have "fr_adapters reg1 = fr_adapters reg" using one guarded_adapters by (metis fst_conv)
  then obtain vs where "snd (list_each reg1 t names) = Inr vs" using Cons by fastforce
  then show ?case using ad one by (simp add: split_beta split: sum.split)
qed simp

lemma put_keys: "set (map fst (put k v kvs)) = insert k (set (map fst kvs))"
  by (induction k v kvs rule: put.induct) auto

lemma stop_each_keys: "set (map fst (snd (stop_each reg t why as outcomes))) = set as \<union> set (map fst outcomes)"
proof (induction as arbitrary: reg outcomes)
  case (Cons a as)
  obtain reg1 ok where "request_stop reg t a why = (reg1, ok)" by fastforce
  then show ?case using Cons.IH [of reg1 "put a ok outcomes"] by (simp add: put_keys del: set_map)
qed simp

text \<open>
  A fleet-wide stop reaches everybody: the call never fails, however the adapters behave
  (offline managers, exceptions of any kind), and it has an outcome for every vehicle that was
  listed, so one failing vehicle never hides the others.
\<close>

theorem stop_all_reaches_every_vehicle:
  "\<exists>reg1 vs reg' outcomes. list_vehicles reg t None = (reg1, Inr vs) \<and> request_stop_all reg t why = (reg', Inr outcomes) \<and>
     set (map fst outcomes) = set (map fst vs)"
proof -
  obtain reg1 r where one: "list_vehicles reg t None = (reg1, r)" by fastforce
  have "\<exists>vs. snd (list_vehicles reg t None) = Inr vs"
    unfolding list_vehicles_def by (simp add: fleets_def list_each_total)
  with one obtain vs where r: "r = Inr vs" by auto
  obtain reg2 outcomes where two: "stop_each reg1 t why (map fst vs) [] = (reg2, outcomes)" by fastforce
  have "set (map fst outcomes) = set (map fst vs)"
    using stop_each_keys [of reg1 t why "map fst vs" "[]"] two by simp
  with one r two show ?thesis by (simp add: request_stop_all_def)
qed

end
