(* ===== verification/Simulated_Fleet.thy ===== *)
theory Simulated_Fleet
  imports Fleet
begin

text \<open>
  The in-process fleet manager of \<^verbatim>\<open>src/fasp_harness/fleet/simulated.py\<close> as a vendor adapter: its state is
  the world of the registry's adapter interface. The operations of the interface are here; the
  movement of the vehicles under \<^verbatim>\<open>advance\<close> (floating-point kinematics) is not. The time stamps of stop
  requests and reports are left out.
\<close>

record SimulatedVehicle =
  sm_vehicle_id :: string
  sm_pose :: Pose
  sm_battery_ratio :: pyfloat
  sm_speed_mps :: pyfloat
  sm_operating_mode :: OperatingMode
  sm_online :: bool
  sm_estop_active :: bool
  sm_field_violated :: bool
  sm_paused :: bool
  sm_errors :: "(string \<times> json) list list"
  sm_capabilities :: VehicleCapabilities
  sm_mission :: "Mission option"
  sm_step_index :: nat
  sm_step_elapsed_s :: pyfloat
  sm_mission_state :: MissionState

record SimulatedFleetManager =
  sf_fleet :: string
  sf_nodes :: "(string \<times> Pose) list"
  sf_vehicles :: "(string \<times> SimulatedVehicle) list"
  sf_missions :: "(string \<times> (string \<times> MissionState)) list"
  sf_stop_requests :: "(string \<times> string) list"

definition new_simulated_vehicle :: "string \<Rightarrow> SimulatedVehicle" where
  "new_simulated_vehicle vid =
     \<lparr>sm_vehicle_id = vid, sm_pose = \<lparr>po_x = 0, po_y = 0, po_theta = 0, po_map_id = ''default''\<rparr>, sm_battery_ratio = Fin 1,
      sm_speed_mps = Fin 1, sm_operating_mode = AUTOMATIC, sm_online = True, sm_estop_active = False, sm_field_violated = False,
      sm_paused = False, sm_errors = [],
      sm_capabilities = \<lparr>vc_max_speed_mps = 3 / 2, vc_payload_kg = 0, vc_footprint_m = (1, 3 / 5),
        vc_supported_steps = [MOVE, PICK, DROP, CHARGE, WAIT, DOCK, UNDOCK], vc_charge_types = [],
        vc_vendor = ''fasp-harness'', vc_model = ''simulated-amr'', vc_interface = ''in-process''\<rparr>,
      sm_mission = None, sm_step_index = 0, sm_step_elapsed_s = Fin 0, sm_mission_state = MS_COMPLETED\<rparr>"

definition new_simulated_fleet :: "string \<Rightarrow> (string \<times> Pose) list \<Rightarrow> SimulatedFleetManager" where
  "new_simulated_fleet fleet nodes =
     \<lparr>sf_fleet = fleet, sf_nodes = nodes, sf_vehicles = [], sf_missions = [], sf_stop_requests = []\<rparr>"

text \<open>\<open>v\<close> is the vehicle built from the keyword arguments.\<close>

definition add_vehicle :: "SimulatedFleetManager \<Rightarrow> SimulatedVehicle \<Rightarrow> SimulatedFleetManager" where
  "add_vehicle w v = w\<lparr>sf_vehicles := put (sm_vehicle_id v) v (sf_vehicles w)\<rparr>"

definition sim_vehicle :: "SimulatedFleetManager \<Rightarrow> string \<Rightarrow> SimulatedVehicle result" where
  "sim_vehicle w vid = (case map_of (sf_vehicles w) vid of None \<Rightarrow> Inl (FaspError ''capability.unavailable'') | Some v \<Rightarrow> Inr v)"

text \<open>A vehicle object is changed in place, under the key it is stored with.\<close>

definition set_vehicle :: "string \<Rightarrow> SimulatedVehicle \<Rightarrow> SimulatedFleetManager \<Rightarrow> SimulatedFleetManager" where
  "set_vehicle vid v w = w\<lparr>sf_vehicles := put vid v (sf_vehicles w)\<rparr>"

definition sim_charging :: "SimulatedVehicle \<Rightarrow> bool result" where
  "sim_charging v =
     (case sm_mission v of
        None \<Rightarrow> Inr False
      | Some m \<Rightarrow> if mi_steps m = [] then Inl IndexError
                 else Inr (st_kind (mi_steps m ! min (sm_step_index v) (length (mi_steps m) - 1)) = CHARGE))"

definition sim_state_of :: "SimulatedFleetManager \<Rightarrow> SimulatedVehicle \<Rightarrow> VehicleState result" where
  "sim_state_of w v =
     bind_result (sim_charging v) (\<lambda>charging.
       let driving = (sm_mission_state v = MS_RUNNING \<and> \<not> sm_paused v)
       in Inr \<lparr>vs_vehicle_id = sm_vehicle_id v, vs_fleet = sf_fleet w, vs_online = sm_online v, vs_operating_mode = sm_operating_mode v,
               vs_pose = Some (sm_pose v), vs_battery_ratio = sm_battery_ratio v, vs_charging = charging, vs_driving = driving,
               vs_paused = sm_paused v, vs_errors = sm_errors v, vs_current_mission_id = map_option mi_mission_id (sm_mission v),
               vs_velocity_mps = (if driving then sm_speed_mps v else Fin 0), vs_safety_estop_active = sm_estop_active v,
               vs_protective_field_violated = sm_field_violated v\<rparr>)"

definition sim_list_vehicles :: "SimulatedFleetManager \<Rightarrow> SimulatedFleetManager \<times> VehicleState list result" where
  "sim_list_vehicles w = (w, map_result (sim_state_of w) (sort_key sm_vehicle_id (map snd (sf_vehicles w))))"

definition sim_vehicle_state :: "SimulatedFleetManager \<Rightarrow> string \<Rightarrow> SimulatedFleetManager \<times> VehicleState result" where
  "sim_vehicle_state w vid = (w, bind_result (sim_vehicle w vid) (sim_state_of w))"

definition sim_capabilities :: "SimulatedFleetManager \<Rightarrow> string \<Rightarrow> SimulatedFleetManager \<times> VehicleCapabilities result" where
  "sim_capabilities w vid = (w, bind_result (sim_vehicle w vid) (\<lambda>v. Inr (sm_capabilities v)))"

definition unknown_node :: "SimulatedFleetManager \<Rightarrow> MissionStep \<Rightarrow> bool" where
  "unknown_node w s \<longleftrightarrow> st_kind s = MOVE \<and> st_pose s = None \<and>
     (case st_node_id s of None \<Rightarrow> True | Some n \<Rightarrow> map_of (sf_nodes w) n = None)"

definition sim_dispatch :: "SimulatedFleetManager \<Rightarrow> Mission \<Rightarrow> string \<Rightarrow> SimulatedFleetManager \<times> json result" where
  "sim_dispatch w m vid =
     (case sim_vehicle w vid of
        Inl e \<Rightarrow> (w, Inl e)
      | Inr v \<Rightarrow>
          if sm_mission v \<noteq> None then (w, Inl (FaspError ''resource.exhausted''))
          else if list_ex (unknown_node w) (mi_steps m) then (w, Inl schema_error)
          else ((set_vehicle vid (v\<lparr>sm_mission := Some m, sm_step_index := 0, sm_step_elapsed_s := Fin 0, sm_mission_state := MS_ASSIGNED\<rparr>) w)
                  \<lparr>sf_missions := put (mi_mission_id m) (vid, MS_ASSIGNED) (sf_missions w)\<rparr>,
                Inr (JObj [(''interface'', JStr ''simulated''), (''vehicle'', JStr vid), (''steps'', JInt (int (length (mi_steps m))))])))"

text \<open>Whether the vehicle a mission was given to still runs it.\<close>

definition runs :: "SimulatedVehicle option \<Rightarrow> string \<Rightarrow> bool" where
  "runs v mid = (case v of None \<Rightarrow> False | Some v' \<Rightarrow> (case sm_mission v' of None \<Rightarrow> False | Some m \<Rightarrow> mi_mission_id m = mid))"

definition sim_cancel :: "SimulatedFleetManager \<Rightarrow> string \<Rightarrow> SimulatedFleetManager \<times> bool result" where
  "sim_cancel w mid =
     (case map_of (sf_missions w) mid of
        None \<Rightarrow> (w, Inr False)
      | Some (vid, state) \<Rightarrow>
          if terminal_state state then (w, Inr False)
          else (let veh = map_of (sf_vehicles w) vid;
                    w1 = (if runs veh mid
                          then set_vehicle vid ((the veh)\<lparr>sm_mission := None, sm_step_index := 0, sm_mission_state := MS_CANCELLED\<rparr>) w
                          else w)
                in (w1\<lparr>sf_missions := put mid (vid, MS_CANCELLED) (sf_missions w1)\<rparr>, Inr True)))"

definition sim_mission_state :: "SimulatedFleetManager \<Rightarrow> string \<Rightarrow> SimulatedFleetManager \<times> MissionState result" where
  "sim_mission_state w mid =
     (w, case map_of (sf_missions w) mid of
           None \<Rightarrow> Inl (FaspError ''capability.unavailable'')
         | Some (vid, recorded) \<Rightarrow>
             Inr (if runs (map_of (sf_vehicles w) vid) mid then sm_mission_state (the (map_of (sf_vehicles w) vid)) else recorded))"

definition sim_fleet_stop :: "SimulatedFleetManager \<Rightarrow> string \<Rightarrow> string \<Rightarrow> SimulatedFleetManager \<times> bool result" where
  "sim_fleet_stop w vid why =
     (case sim_vehicle w vid of
        Inl e \<Rightarrow> (w, Inl e)
      | Inr v \<Rightarrow> ((set_vehicle vid (v\<lparr>sm_paused := True\<rparr>) w)\<lparr>sf_stop_requests := sf_stop_requests w @ [(vid, take 120 why)]\<rparr>, Inr True))"

text \<open>Steps, as \<^verbatim>\<open>advance\<close> finishes them.\<close>

definition sim_complete :: "string \<Rightarrow> SimulatedFleetManager \<Rightarrow> SimulatedFleetManager" where
  "sim_complete vid w =
     (case map_of (sf_vehicles w) vid of
        None \<Rightarrow> w
      | Some v \<Rightarrow>
          (set_vehicle vid (v\<lparr>sm_mission_state := MS_COMPLETED, sm_mission := None, sm_step_index := 0\<rparr>) w)
            \<lparr>sf_missions := (case sm_mission v of
                               None \<Rightarrow> sf_missions w
                             | Some m \<Rightarrow> put (mi_mission_id m) (sm_vehicle_id v, MS_COMPLETED) (sf_missions w))\<rparr>)"

definition sim_finish_step :: "string \<Rightarrow> SimulatedFleetManager \<Rightarrow> SimulatedFleetManager" where
  "sim_finish_step vid w =
     (case map_of (sf_vehicles w) vid of
        None \<Rightarrow> w
      | Some v \<Rightarrow>
          (let w1 = set_vehicle vid (v\<lparr>sm_step_index := sm_step_index v + 1, sm_step_elapsed_s := Fin 0\<rparr>) w
           in (case sm_mission v of
                 None \<Rightarrow> w1
               | Some m \<Rightarrow> if sm_step_index v + 1 \<ge> length (mi_steps m) then sim_complete vid w1 else w1)))"

definition simulated_adapter :: "SimulatedFleetManager adapter" where
  "simulated_adapter =
     \<lparr>ad_list_vehicles = sim_list_vehicles, ad_vehicle_state = sim_vehicle_state, ad_capabilities = sim_capabilities,
      ad_dispatch = sim_dispatch, ad_cancel = sim_cancel, ad_mission_state = sim_mission_state, ad_request_stop = sim_fleet_stop\<rparr>"

interpretation simulated_fleet: reading_adapter simulated_adapter
  by unfold_locales (simp_all add: simulated_adapter_def sim_list_vehicles_def sim_vehicle_state_def sim_capabilities_def sim_mission_state_def)

section \<open>Behaviour\<close>

lemma map_of_put: "map_of (put k v kvs) k' = (if k' = k then Some v else map_of kvs k')"
  by (induction k v kvs rule: put.induct) auto

text \<open>A dispatched mission is assigned until it is finished or cancelled, and its vehicle takes no other.\<close>

lemma sim_dispatch_takes_vehicle:
  assumes "sim_dispatch w m vid = (w', Inr r)"
  shows "sim_mission_state w' (mi_mission_id m) = (w', Inr MS_ASSIGNED) \<and>
         sim_dispatch w' m' vid = (w', Inl (FaspError ''resource.exhausted''))"
proof -
  obtain v where v: "sim_vehicle w vid = Inr v" "sm_mission v = None" "\<not> list_ex (unknown_node w) (mi_steps m)"
    using assms by (auto simp: sim_dispatch_def split: sum.splits if_splits)
  then show ?thesis
    using assms by (auto simp: sim_dispatch_def sim_mission_state_def sim_vehicle_def set_vehicle_def map_of_put runs_def)
qed

text \<open>A mission the vendor has cancelled stays cancelled, and a second cancel is refused.\<close>

lemma sim_cancel_final:
  assumes "sim_cancel w mid = (w', Inr True)"
  shows "sim_mission_state w' mid = (w', Inr MS_CANCELLED) \<and> sim_cancel w' mid = (w', Inr False)"
  using assms
  by (auto simp: sim_cancel_def sim_mission_state_def set_vehicle_def map_of_put runs_def terminal_state_def Let_def
           split: option.splits if_splits prod.splits)

section \<open>A registry with one simulated fleet\<close>

definition demo_world :: SimulatedFleetManager where
  "demo_world = add_vehicle (new_simulated_fleet ''sim'' [(''dock'', \<lparr>po_x = 1, po_y = 2, po_theta = 0, po_map_id = ''default''\<rparr>)])
     (new_simulated_vehicle ''A1'')"

definition demo_registry :: "SimulatedFleetManager FleetRegistry" where
  "demo_registry = \<lparr>fr_adapters = [(''sim'', simulated_adapter)], fr_health = [], fr_world = demo_world\<rparr>"

lemma demo_registry_read_only: "read_only demo_registry"
  by (simp add: read_only_def demo_registry_def simulated_fleet.reading_adapter_axioms)

lemmas demo_fleet_simps =
  demo_registry_def demo_world_def simulated_adapter_def

text \<open>One vehicle is listed, and it can have the demonstration mission.\<close>

definition demo_listing :: "(string \<times> VehicleState) list" where
  "demo_listing = projr (snd (list_vehicles demo_registry 0 (mi_fleet demo_mission)))"

lemma demo_listing_ok:
  "is_ok (snd (list_vehicles demo_registry 0 (mi_fleet demo_mission)))" "map fst demo_listing = [''sim:A1'']"
  by code_simp+

lemma demo_listing_eligible:
  "list_all (\<lambda>(a, v). wanted demo_mission a v \<and> fst (dispatchable demo_std v (Fin (3 / 20))) \<and>
     (case snd (capabilities demo_registry 0 a) of Inr vc \<Rightarrow> fst (supports vc demo_mission) | Inl _ \<Rightarrow> False)) demo_listing"
  by code_simp


end
