(* ===== verification/Work_Items.thy ===== *)
theory Work_Items
  imports Audit_Chain
begin

text \<open>
  The durable lifecycle of every unit of work: \<^verbatim>\<open>src/fasp_harness/storage/work_items_repo.py\<close>, and its
  two projections, intent tasks (\<^verbatim>\<open>storage/tasks_repo.py\<close>) and fleet missions
  (\<^verbatim>\<open>storage/missions_repo.py\<close>). The table is a list of rows; a write transaction is one state
  change, since it commits or rolls back as a whole. The hash of the audit chain is a parameter.
\<close>

section \<open>State\<close>

datatype WorkState = QUEUED | RUNNING | SUCCEEDED | FAILED | CANCELLED | UNKNOWN

fun work_state_text :: "WorkState \<Rightarrow> string" where
  "work_state_text QUEUED = ''queued''"
| "work_state_text RUNNING = ''running''"
| "work_state_text SUCCEEDED = ''succeeded''"
| "work_state_text FAILED = ''failed''"
| "work_state_text CANCELLED = ''cancelled''"
| "work_state_text UNKNOWN = ''unknown''"

definition ACTIVE_STATES :: "WorkState list" where
  "ACTIVE_STATES = [QUEUED, RUNNING]"

definition TERMINAL_STATES :: "WorkState list" where
  "TERMINAL_STATES = [SUCCEEDED, FAILED, CANCELLED, UNKNOWN]"

record work_row =
  wi_work_id :: string
  wi_kind :: string
  wi_owner :: string
  wi_idempotency_key :: string
  wi_capability :: "string option"
  wi_intent_id :: "string option"
  wi_state :: WorkState
  wi_phase :: "string option"
  wi_payload :: "json option"
  wi_metadata :: "(string \<times> json) list"
  wi_result :: "json option"
  wi_error :: "json option"
  wi_lease_until :: "timestamp option"
  wi_priority :: int
  wi_assigned_to :: "string option"
  wi_fence :: "int option"
  wi_dispatched_at :: "timestamp option"
  wi_deadline_at :: "string option"
  wi_created_at :: timestamp
  wi_updated_at :: timestamp

record 'h work_db =
  wd_items :: "work_row list"
  wd_log :: "'h audit_row list"

text \<open>The audit chain a repository was built with: the hash and the genesis value, or none.\<close>

type_synonym 'h audit_ref = "(('h audit_payload \<Rightarrow> 'h) \<times> 'h) option"

definition wi_active :: "work_row \<Rightarrow> bool" where
  "wi_active r = (wi_state r = QUEUED \<or> wi_state r = RUNNING)"

section \<open>The repository\<close>

definition work_get :: "'h work_db \<Rightarrow> string \<Rightarrow> string option \<Rightarrow> work_row option" where
  "work_get db work_id kind =
     find (\<lambda>r. wi_work_id r = work_id \<and> (case kind of None \<Rightarrow> True | Some k \<Rightarrow> wi_kind r = k)) (wd_items db)"

definition find_by_key :: "'h work_db \<Rightarrow> string \<Rightarrow> string \<Rightarrow> work_row option" where
  "find_by_key db kind key = find (\<lambda>r. wi_kind r = kind \<and> wi_idempotency_key r = key) (wd_items db)"

definition work_audit ::
    "'h audit_ref \<Rightarrow> 'h audit_row list \<Rightarrow> string option \<Rightarrow> string \<Rightarrow> (string \<times> json) list \<Rightarrow> timestamp \<Rightarrow> 'h audit_row list" where
  "work_audit aud lg event work_id detail at_time =
     (case (aud, event) of
        (Some (hx, gen), Some ev) \<Rightarrow> if ev \<noteq> '''' then audit_append hx gen lg ev work_id (JObj detail) at_time else lg
      | _ \<Rightarrow> lg)"

record new_work =
  nw_work_id :: string
  nw_kind :: string
  nw_owner :: string
  nw_idempotency_key :: string
  nw_capability :: "string option"
  nw_intent_id :: "string option"
  nw_payload :: "json option"
  nw_metadata :: "(string \<times> json) list"
  nw_priority :: int
  nw_deadline_at :: "string option"
  nw_phase :: "string option"

definition work_row_of :: "new_work \<Rightarrow> timestamp \<Rightarrow> work_row" where
  "work_row_of w at_time =
     \<lparr>wi_work_id = nw_work_id w, wi_kind = nw_kind w, wi_owner = nw_owner w, wi_idempotency_key = nw_idempotency_key w,
      wi_capability = nw_capability w, wi_intent_id = nw_intent_id w, wi_state = QUEUED, wi_phase = nw_phase w,
      wi_payload = nw_payload w, wi_metadata = nw_metadata w, wi_result = None, wi_error = None, wi_lease_until = None,
      wi_priority = nw_priority w, wi_assigned_to = None, wi_fence = None, wi_dispatched_at = None,
      wi_deadline_at = nw_deadline_at w, wi_created_at = at_time, wi_updated_at = at_time\<rparr>"

definition clashes :: "new_work \<Rightarrow> work_row \<Rightarrow> bool" where
  "clashes w r \<longleftrightarrow> wi_work_id r = nw_work_id w \<or> (wi_kind r = nw_kind w \<and> wi_idempotency_key r = nw_idempotency_key w)"

definition count_active :: "'h work_db \<Rightarrow> string option \<Rightarrow> nat" where
  "count_active db kind =
     count_where (\<lambda>r. (case kind of None \<Rightarrow> True | Some k \<Rightarrow> wi_kind r = k) \<and> wi_active r) (wd_items db)"

text \<open>An empty kind violates the table's check constraint, which is not an idempotency conflict.\<close>

definition work_create ::
    "'h audit_ref \<Rightarrow> 'h work_db \<Rightarrow> new_work \<Rightarrow> timestamp \<Rightarrow> string option \<Rightarrow> (string \<times> json) list \<Rightarrow> nat option \<Rightarrow>
     ('h work_db \<times> bool) result" where
  "work_create aud db w at_time audit_event audit_detail max_active =
     (if list_ex (clashes w) (wd_items db) then Inr (db, False)
      else if (case max_active of None \<Rightarrow> False | Some m \<Rightarrow> count_active db (Some (nw_kind w)) \<ge> m) then Inl AdmissionRejected
      else if nw_kind w = '''' then Inl OtherException
      else Inr (\<lparr>wd_items = wd_items db @ [work_row_of w at_time],
                 wd_log = work_audit aud (wd_log db) audit_event (nw_work_id w) audit_detail at_time\<rparr>, True))"

text \<open>An argument that may be left out, as \<^verbatim>\<open>_UNSET\<close> marks it.\<close>

datatype 'a upd = Unset | SetTo 'a

fun updated :: "'a upd \<Rightarrow> 'a \<Rightarrow> 'a" where
  "updated Unset old = old"
| "updated (SetTo new) old = new"

record work_change =
  wc_phase :: "string option upd"
  wc_result :: "json option upd"
  wc_error :: "json option upd"
  wc_lease_until :: "timestamp option upd"
  wc_metadata_patch :: "(string \<times> json) list"
  wc_assigned_to :: "string option upd"
  wc_fence :: "int option upd"
  wc_dispatched_at :: "timestamp option upd"
  wc_audit_event :: "string option"
  wc_audit_detail :: "(string \<times> json) list"

definition no_change :: work_change where
  "no_change = \<lparr>wc_phase = Unset, wc_result = Unset, wc_error = Unset, wc_lease_until = Unset, wc_metadata_patch = [],
     wc_assigned_to = Unset, wc_fence = Unset, wc_dispatched_at = Unset, wc_audit_event = None, wc_audit_detail = []\<rparr>"

definition apply_change :: "work_change \<Rightarrow> WorkState \<Rightarrow> timestamp \<Rightarrow> work_row \<Rightarrow> work_row" where
  "apply_change ch state at_time r =
     r\<lparr>wi_state := state, wi_updated_at := at_time, wi_phase := updated (wc_phase ch) (wi_phase r),
       wi_result := updated (wc_result ch) (wi_result r), wi_error := updated (wc_error ch) (wi_error r),
       wi_lease_until := updated (wc_lease_until ch) (wi_lease_until r),
       wi_assigned_to := updated (wc_assigned_to ch) (wi_assigned_to r), wi_fence := updated (wc_fence ch) (wi_fence r),
       wi_dispatched_at := updated (wc_dispatched_at ch) (wi_dispatched_at r),
       wi_metadata := dict_update (wi_metadata r) (wc_metadata_patch ch)\<rparr>"

definition work_transition ::
    "'h audit_ref \<Rightarrow> 'h work_db \<Rightarrow> string \<Rightarrow> string \<Rightarrow> WorkState list \<Rightarrow> string option list option \<Rightarrow> WorkState \<Rightarrow> timestamp \<Rightarrow>
     work_change \<Rightarrow> 'h work_db \<times> bool" where
  "work_transition aud db work_id kind expected_states expected_phases state at_time ch =
     (case work_get db work_id (Some kind) of
        None \<Rightarrow> (db, False)
      | Some row \<Rightarrow>
          if wi_state row \<notin> set expected_states then (db, False)
          else if (case expected_phases of None \<Rightarrow> False | Some ps \<Rightarrow> wi_phase row \<notin> set ps) then (db, False)
          else (\<lparr>wd_items = update_where (\<lambda>r. wi_work_id r = work_id \<and> wi_kind r = kind \<and> wi_state r = wi_state row)
                              (apply_change ch state at_time) (wd_items db),
                 wd_log = work_audit aud (wd_log db) (wc_audit_event ch) work_id
                   (dict_update [(''kind'', JStr kind), (''from'', JStr (work_state_text (wi_state row))),
                                 (''to'', JStr (work_state_text state))] (wc_audit_detail ch)) at_time\<rparr>, True))"

definition sql_take :: "int \<Rightarrow> 'a list \<Rightarrow> 'a list" where
  "sql_take n xs = (if n < 0 then xs else take (nat n) xs)"

definition work_active :: "'h work_db \<Rightarrow> string \<Rightarrow> int \<Rightarrow> work_row list" where
  "work_active db kind limit =
     sql_take limit (sort_key (\<lambda>r. - wi_priority r) (sort_key wi_created_at
       (filter (\<lambda>r. wi_kind r = kind \<and> wi_active r) (wd_items db))))"

definition stale_queued :: "'h work_db \<Rightarrow> string \<Rightarrow> timestamp \<Rightarrow> int \<Rightarrow> work_row list" where
  "stale_queued db kind before limit =
     sql_take limit (sort_key wi_created_at
       (filter (\<lambda>r. wi_kind r = kind \<and> wi_state r = QUEUED \<and> wi_created_at r < before) (wd_items db)))"

definition for_assignee :: "'h work_db \<Rightarrow> string \<Rightarrow> string \<Rightarrow> int \<Rightarrow> work_row list" where
  "for_assignee db kind assigned_to limit =
     sql_take limit (sort_key (\<lambda>r. - wi_updated_at r)
       (filter (\<lambda>r. wi_kind r = kind \<and> wi_assigned_to r = Some assigned_to) (wd_items db)))"

definition outcome_unknown_error :: json where
  "outcome_unknown_error = JObj [(''code'', JStr ''task.outcome_unknown''),
     (''detail'', JStr ''Execution was interrupted; verify the external operation before retrying.'')]"

definition expire_one :: "'h audit_ref \<Rightarrow> timestamp \<Rightarrow> string \<Rightarrow> 'h work_db \<Rightarrow> 'h work_db \<times> bool" where
  "expire_one aud now_stamp work_id db =
     work_transition aud db work_id ''intent'' [RUNNING] None UNKNOWN now_stamp
       (no_change\<lparr>wc_error := SetTo (Some outcome_unknown_error), wc_phase := SetTo (Some ''outcome_unknown''),
                  wc_lease_until := SetTo None, wc_audit_event := Some ''task.outcome_unknown''\<rparr>)"

fun expire_each :: "'h audit_ref \<Rightarrow> timestamp \<Rightarrow> string list \<Rightarrow> 'h work_db \<Rightarrow> 'h work_db \<times> string list" where
  "expire_each aud now_stamp [] db = (db, [])"
| "expire_each aud now_stamp (k # ks) db =
     (case expire_one aud now_stamp k db of
        (db1, ok) \<Rightarrow>
          (case expire_each aud now_stamp ks db1 of
             (db2, expired) \<Rightarrow>
               (db2, if ok then (if take 7 k = ''intent:'' then drop 7 k else k) # expired else expired)))"

definition stale_running :: "timestamp \<Rightarrow> work_row \<Rightarrow> bool" where
  "stale_running now_stamp r \<longleftrightarrow> wi_kind r = ''intent'' \<and> wi_state r = RUNNING \<and>
     (case wi_lease_until r of None \<Rightarrow> False | Some t \<Rightarrow> t < now_stamp)"

definition expire_stale_intents :: "'h audit_ref \<Rightarrow> timestamp \<Rightarrow> 'h work_db \<Rightarrow> 'h work_db \<times> string list" where
  "expire_stale_intents aud now_stamp db =
     expire_each aud now_stamp (map wi_work_id (filter (stale_running now_stamp) (wd_items db))) db"

section \<open>Tasks\<close>

definition task_work_id :: "string \<Rightarrow> string" where
  "task_work_id key = ''intent:'' @ key"

datatype TaskState = TProposed | TRunning | TCompleted | TFailed | TCancelled | TUnknown | TRejected | TCancelPending

fun task_state_of :: "WorkState \<Rightarrow> TaskState" where
  "task_state_of QUEUED = TProposed"
| "task_state_of RUNNING = TRunning"
| "task_state_of SUCCEEDED = TCompleted"
| "task_state_of FAILED = TFailed"
| "task_state_of CANCELLED = TCancelled"
| "task_state_of UNKNOWN = TUnknown"

definition task_state :: "work_row \<Rightarrow> TaskState" where
  "task_state r =
     (if wi_phase r = Some ''rejected'' then TRejected
      else if wi_phase r = Some ''cancel_requested'' then TCancelPending
      else task_state_of (wi_state r))"

definition task_get :: "'h work_db \<Rightarrow> string \<Rightarrow> (TaskState \<times> work_row) option" where
  "task_get db key = map_option (\<lambda>r. (task_state r, r)) (work_get db (task_work_id key) (Some ''intent''))"

definition task_transition ::
    "'h audit_ref \<Rightarrow> 'h work_db \<Rightarrow> string \<Rightarrow> WorkState list \<Rightarrow> string option list option \<Rightarrow> WorkState \<Rightarrow> timestamp \<Rightarrow> work_change \<Rightarrow>
     'h work_db \<times> bool" where
  "task_transition aud db key expected phases state at_time ch =
     work_transition aud db (task_work_id key) ''intent'' expected phases state at_time ch"

definition count_inflight :: "'h work_db \<Rightarrow> nat" where
  "count_inflight db = count_active db (Some ''intent'')"

definition propose ::
    "'h audit_ref \<Rightarrow> 'h work_db \<Rightarrow> string \<Rightarrow> string option \<Rightarrow> string \<Rightarrow> string \<Rightarrow> timestamp \<Rightarrow> json option \<Rightarrow> nat option \<Rightarrow>
     ('h work_db \<times> bool) result" where
  "propose aud db key intent_id capability from_peer at_time payload max_active =
     work_create aud db \<lparr>nw_work_id = task_work_id key, nw_kind = ''intent'', nw_owner = from_peer, nw_idempotency_key = key,
        nw_capability = Some capability, nw_intent_id = intent_id, nw_payload = payload, nw_metadata = [], nw_priority = 0,
        nw_deadline_at = None, nw_phase = None\<rparr> at_time (Some ''task.proposed'')
       [(''capability'', JStr capability), (''from_peer'', JStr from_peer)] max_active"

definition task_reject :: "'h audit_ref \<Rightarrow> 'h work_db \<Rightarrow> string \<Rightarrow> json \<Rightarrow> timestamp \<Rightarrow> 'h work_db \<times> bool" where
  "task_reject aud db key error at_time =
     task_transition aud db key [QUEUED] None FAILED at_time
       (no_change\<lparr>wc_phase := SetTo (Some ''rejected''), wc_error := SetTo (Some error), wc_audit_event := Some ''task.rejected''\<rparr>)"

definition start_running :: "'h audit_ref \<Rightarrow> 'h work_db \<Rightarrow> string \<Rightarrow> timestamp \<Rightarrow> timestamp \<Rightarrow> 'h work_db \<times> bool" where
  "start_running aud db key lease_until at_time =
     task_transition aud db key [QUEUED] None RUNNING at_time
       (no_change\<lparr>wc_phase := SetTo None, wc_lease_until := SetTo (Some lease_until), wc_audit_event := Some ''task.running''\<rparr>)"

definition task_complete :: "'h audit_ref \<Rightarrow> 'h work_db \<Rightarrow> string \<Rightarrow> json \<Rightarrow> timestamp \<Rightarrow> 'h work_db \<times> bool" where
  "task_complete aud db key result at_time =
     task_transition aud db key [RUNNING] (Some [None, Some ''cancel_requested'']) SUCCEEDED at_time
       (no_change\<lparr>wc_phase := SetTo None, wc_result := SetTo (Some result), wc_lease_until := SetTo None,
                  wc_audit_event := Some ''task.completed''\<rparr>)"

definition task_fail :: "'h audit_ref \<Rightarrow> 'h work_db \<Rightarrow> string \<Rightarrow> json \<Rightarrow> timestamp \<Rightarrow> 'h work_db \<times> bool" where
  "task_fail aud db key error at_time =
     task_transition aud db key [RUNNING] (Some [None, Some ''cancel_requested'']) FAILED at_time
       (no_change\<lparr>wc_phase := SetTo None, wc_error := SetTo (Some error), wc_lease_until := SetTo None,
                  wc_audit_event := Some ''task.failed''\<rparr>)"

definition request_cancel :: "'h audit_ref \<Rightarrow> 'h work_db \<Rightarrow> string \<Rightarrow> timestamp \<Rightarrow> 'h work_db \<times> bool" where
  "request_cancel aud db key at_time =
     task_transition aud db key [RUNNING] (Some [None]) RUNNING at_time
       (no_change\<lparr>wc_phase := SetTo (Some ''cancel_requested''), wc_audit_event := Some ''task.cancel_requested''\<rparr>)"

definition cancel_immediately :: "'h audit_ref \<Rightarrow> 'h work_db \<Rightarrow> string \<Rightarrow> timestamp \<Rightarrow> 'h work_db \<times> bool" where
  "cancel_immediately aud db key at_time =
     (case task_transition aud db key [QUEUED] None CANCELLED at_time (no_change\<lparr>wc_audit_event := Some ''task.cancelled''\<rparr>) of
        (db1, True) \<Rightarrow> (db1, True)
      | (db1, False) \<Rightarrow>
          task_transition aud db1 key [RUNNING] (Some [Some ''cancel_requested'']) CANCELLED at_time
            (no_change\<lparr>wc_phase := SetTo None, wc_lease_until := SetTo None, wc_audit_event := Some ''task.cancelled''\<rparr>))"

definition resume_running :: "'h audit_ref \<Rightarrow> 'h work_db \<Rightarrow> string \<Rightarrow> timestamp \<Rightarrow> 'h work_db \<times> bool" where
  "resume_running aud db key at_time =
     task_transition aud db key [RUNNING] (Some [Some ''cancel_requested'']) RUNNING at_time
       (no_change\<lparr>wc_phase := SetTo None, wc_audit_event := Some ''task.cancel_declined''\<rparr>)"

definition task_reconcile ::
    "'h audit_ref \<Rightarrow> 'h work_db \<Rightarrow> string \<Rightarrow> bool \<Rightarrow> timestamp \<Rightarrow> json option \<Rightarrow> json option \<Rightarrow> 'h work_db \<times> bool" where
  "task_reconcile aud db key completed at_time result error =
     task_transition aud db key [UNKNOWN] None (if completed then SUCCEEDED else FAILED) at_time
       (no_change\<lparr>wc_phase := SetTo (Some ''reconciled''), wc_result := SetTo result,
                  wc_error := SetTo (if \<not> completed then error else None), wc_audit_event := Some ''task.reconciled'',
                  wc_audit_detail := [(''verified_state'', JStr (if completed then ''completed'' else ''failed''))]\<rparr>)"

definition unknown_tasks :: "'h work_db \<Rightarrow> int \<Rightarrow> string list" where
  "unknown_tasks db limit =
     map wi_idempotency_key (sql_take limit (sort_key wi_updated_at
       (filter (\<lambda>r. wi_kind r = ''intent'' \<and> wi_state r = UNKNOWN) (wd_items db))))"

section \<open>Missions\<close>

text \<open>\<^verbatim>\<open>_STATE_TO_LIFECYCLE\<close>; a state that is not a key is a \<^verbatim>\<open>KeyError\<close>.\<close>

definition STATE_TO_LIFECYCLE :: "(string \<times> WorkState) list" where
  "STATE_TO_LIFECYCLE =
     [(''ACCEPTED'', QUEUED), (''PREFLIGHT'', QUEUED), (''ASSIGNED'', RUNNING), (''RUNNING'', RUNNING), (''PAUSED'', RUNNING),
      (''COMPLETED'', SUCCEEDED), (''FAILED'', FAILED), (''CANCELLED'', CANCELLED), (''REJECTED'', FAILED)]"

definition ACTIVE_MISSION_STATES :: "string list" where
  "ACTIVE_MISSION_STATES = [''ACCEPTED'', ''PREFLIGHT'', ''ASSIGNED'', ''RUNNING'', ''PAUSED'']"

definition mission_state :: "work_row \<Rightarrow> string" where
  "mission_state r =
     (if wi_state r = SUCCEEDED then ''COMPLETED''
      else if wi_state r = CANCELLED then ''CANCELLED''
      else if wi_state r = FAILED then (if wi_phase r = Some ''rejected'' then ''REJECTED'' else ''FAILED'')
      else let phase = (if wi_phase r = Some ''dispatching'' then Some ''assigned'' else wi_phase r)
           in py_upper (case phase of
                Some p \<Rightarrow> if p \<noteq> '''' then p else if wi_state r = QUEUED then ''ACCEPTED'' else ''RUNNING''
              | None \<Rightarrow> if wi_state r = QUEUED then ''ACCEPTED'' else ''RUNNING''))"

definition mission_work_id :: "string \<Rightarrow> string" where
  "mission_work_id mid = ''mission:'' @ mid"

definition mission_get :: "'h work_db \<Rightarrow> string \<Rightarrow> (string \<times> work_row) option" where
  "mission_get db mid = map_option (\<lambda>r. (mission_state r, r)) (work_get db (mission_work_id mid) (Some ''mission''))"

definition str_or_null :: "string option \<Rightarrow> json" where
  "str_or_null v = (case v of None \<Rightarrow> JNull | Some s \<Rightarrow> JStr s)"

definition mission_accept ::
    "'h audit_ref \<Rightarrow> 'h work_db \<Rightarrow> string \<Rightarrow> string \<Rightarrow> json \<Rightarrow> int \<Rightarrow> string option \<Rightarrow> string option \<Rightarrow> timestamp \<Rightarrow>
     ('h work_db \<times> bool) result" where
  "mission_accept aud db mid requested_by defn priority fleet deadline_at at_time =
     work_create aud db \<lparr>nw_work_id = mission_work_id mid, nw_kind = ''mission'', nw_owner = requested_by, nw_idempotency_key = mid,
        nw_capability = None, nw_intent_id = None, nw_payload = Some defn,
        nw_metadata = [(''fleet'', str_or_null fleet), (''vehicle_id'', JNull), (''preflight'', JNull)],
        nw_priority = priority, nw_deadline_at = deadline_at, nw_phase = Some ''accepted''\<rparr> at_time None [] None"

record mission_columns =
  mc_phase :: "string upd"
  mc_expected_phases :: "string option list upd"
  mc_fleet :: "string option upd"
  mc_vehicle_id :: "string option upd"
  mc_preflight :: "json upd"
  mc_result :: "json option upd"
  mc_error :: "json option upd"
  mc_fence :: "int option upd"
  mc_dispatched_at :: "timestamp option upd"

definition no_columns :: mission_columns where
  "no_columns = \<lparr>mc_phase = Unset, mc_expected_phases = Unset, mc_fleet = Unset, mc_vehicle_id = Unset, mc_preflight = Unset,
     mc_result = Unset, mc_error = Unset, mc_fence = Unset, mc_dispatched_at = Unset\<rparr>"

definition patch_of :: "mission_columns \<Rightarrow> (string \<times> json) list" where
  "patch_of cs =
     (case mc_fleet cs of Unset \<Rightarrow> [] | SetTo v \<Rightarrow> [(''fleet'', str_or_null v)]) @
     (case mc_vehicle_id cs of Unset \<Rightarrow> [] | SetTo v \<Rightarrow> [(''vehicle_id'', str_or_null v)]) @
     (case mc_preflight cs of Unset \<Rightarrow> [] | SetTo v \<Rightarrow> [(''preflight'', v)])"

definition mission_transition ::
    "'h audit_ref \<Rightarrow> 'h work_db \<Rightarrow> string \<Rightarrow> string list \<Rightarrow> string \<Rightarrow> mission_columns \<Rightarrow> timestamp \<Rightarrow> ('h work_db \<times> bool) result" where
  "mission_transition aud db mid expected new_state cs at_time =
     (let known = filter (\<lambda>s. s \<in> set (map fst STATE_TO_LIFECYCLE)) expected;
          lifecycle_states = map (\<lambda>s. the (map_of STATE_TO_LIFECYCLE s)) known;
          phases = map (\<lambda>s. Some (py_lower s)) known
      in case map_of STATE_TO_LIFECYCLE new_state of
           None \<Rightarrow> Inl KeyError
         | Some state \<Rightarrow>
             Inr (work_transition aud db (mission_work_id mid) ''mission'' lifecycle_states
                    (Some (updated (mc_expected_phases cs) phases)) state at_time
                    (no_change\<lparr>wc_phase := SetTo (Some (updated (mc_phase cs) (py_lower new_state))),
                       wc_metadata_patch := patch_of cs, wc_result := mc_result cs, wc_error := mc_error cs,
                       wc_assigned_to := mc_vehicle_id cs, wc_fence := mc_fence cs, wc_dispatched_at := mc_dispatched_at cs\<rparr>)))"

definition prepare_dispatch ::
    "'h audit_ref \<Rightarrow> 'h work_db \<Rightarrow> string \<Rightarrow> string \<Rightarrow> string \<Rightarrow> int option \<Rightarrow> json \<Rightarrow> timestamp \<Rightarrow> ('h work_db \<times> bool) result" where
  "prepare_dispatch aud db mid vehicle_id fleet fence preflight at_time =
     mission_transition aud db mid [''ACCEPTED'', ''PREFLIGHT''] ''RUNNING''
       (no_columns\<lparr>mc_phase := SetTo ''dispatching'', mc_vehicle_id := SetTo (Some vehicle_id), mc_fleet := SetTo (Some fleet),
                   mc_fence := SetTo fence, mc_preflight := SetTo preflight, mc_dispatched_at := SetTo (Some at_time)\<rparr>) at_time"

definition mark_assigned :: "'h audit_ref \<Rightarrow> 'h work_db \<Rightarrow> string \<Rightarrow> timestamp \<Rightarrow> ('h work_db \<times> bool) result" where
  "mark_assigned aud db mid at_time =
     mission_transition aud db mid [''RUNNING''] ''ASSIGNED'' (no_columns\<lparr>mc_expected_phases := SetTo [Some ''dispatching'']\<rparr>) at_time"

definition assign ::
    "'h audit_ref \<Rightarrow> 'h work_db \<Rightarrow> string \<Rightarrow> string \<Rightarrow> string \<Rightarrow> int option \<Rightarrow> json \<Rightarrow> timestamp \<Rightarrow> ('h work_db \<times> bool) result" where
  "assign aud db mid vehicle_id fleet fence preflight at_time =
     mission_transition aud db mid [''ACCEPTED'', ''PREFLIGHT''] ''ASSIGNED''
       (no_columns\<lparr>mc_vehicle_id := SetTo (Some vehicle_id), mc_fleet := SetTo (Some fleet),
                   mc_fence := SetTo fence, mc_preflight := SetTo preflight, mc_dispatched_at := SetTo (Some at_time)\<rparr>) at_time"

definition mission_finish ::
    "'h audit_ref \<Rightarrow> 'h work_db \<Rightarrow> string \<Rightarrow> string \<Rightarrow> json option \<Rightarrow> json option \<Rightarrow> timestamp \<Rightarrow> ('h work_db \<times> bool) result" where
  "mission_finish aud db mid state result error at_time =
     mission_transition aud db mid ACTIVE_MISSION_STATES state
       (no_columns\<lparr>mc_result := (case result of None \<Rightarrow> Unset | Some v \<Rightarrow> SetTo (Some v)),
                   mc_error := (case error of None \<Rightarrow> Unset | Some v \<Rightarrow> SetTo (Some v)),
                   mc_expected_phases := SetTo (map (\<lambda>s. Some (py_lower s)) ACTIVE_MISSION_STATES @ [Some ''dispatching''])\<rparr>) at_time"

definition active_missions :: "'h work_db \<Rightarrow> int \<Rightarrow> (string \<times> work_row) list" where
  "active_missions db limit = map (\<lambda>r. (mission_state r, r)) (work_active db ''mission'' limit)"

section \<open>Steps\<close>

text \<open>
  Everything the two projections do to the table; a mission transition may name any of the active
  states as expected, as the mission service does when it reconciles, and any new state.
\<close>

inductive work_step :: "'h audit_ref \<Rightarrow> nat option \<Rightarrow> 'h work_db \<Rightarrow> 'h work_db \<Rightarrow> bool" for aud cap where
  s_propose: "propose aud db key iid cp peer t payload cap = Inr (db', ok) \<Longrightarrow> work_step aud cap db db'"
| s_reject: "work_step aud cap db (fst (task_reject aud db key err t))"
| s_start: "work_step aud cap db (fst (start_running aud db key lease t))"
| s_complete: "work_step aud cap db (fst (task_complete aud db key res t))"
| s_fail: "work_step aud cap db (fst (task_fail aud db key err t))"
| s_request_cancel: "work_step aud cap db (fst (request_cancel aud db key t))"
| s_cancel: "work_step aud cap db (fst (cancel_immediately aud db key t))"
| s_resume: "work_step aud cap db (fst (resume_running aud db key t))"
| s_expire: "work_step aud cap db (fst (expire_stale_intents aud t db))"
| s_reconcile: "work_step aud cap db (fst (task_reconcile aud db key completed t res0 err0))"
| s_accept: "mission_accept aud db mid by d pr fl dl t = Inr (db', ok) \<Longrightarrow> work_step aud cap db db'"
| s_mission: "set expected \<subseteq> set ACTIVE_MISSION_STATES \<Longrightarrow>
    mission_transition aud db mid expected new_state cs t = Inr (db', ok) \<Longrightarrow> work_step aud cap db db'"

text \<open>The public life of a task.\<close>

inductive task_arrow :: "TaskState \<Rightarrow> TaskState \<Rightarrow> bool" where
  "task_arrow TProposed TRunning" | "task_arrow TProposed TRejected" | "task_arrow TProposed TCancelled"
| "task_arrow TRunning TCompleted" | "task_arrow TRunning TFailed" | "task_arrow TRunning TCancelPending"
| "task_arrow TRunning TUnknown" | "task_arrow TCancelPending TCompleted" | "task_arrow TCancelPending TFailed"
| "task_arrow TCancelPending TCancelled" | "task_arrow TCancelPending TRunning" | "task_arrow TCancelPending TUnknown"
| "task_arrow TUnknown TCompleted" | "task_arrow TUnknown TFailed"

inductive_simps task_arrow_simps: "task_arrow s t"

text \<open>Rows of intents are filed under their key and carry only the phases their state allows.\<close>

definition task_row_ok :: "work_row \<Rightarrow> bool" where
  "task_row_ok r \<longleftrightarrow>
     wi_kind r = ''intent'' \<longrightarrow>
       wi_work_id r = task_work_id (wi_idempotency_key r) \<and>
       (case wi_state r of
          QUEUED \<Rightarrow> wi_phase r = None
        | RUNNING \<Rightarrow> wi_phase r = None \<or> wi_phase r = Some ''cancel_requested''
        | SUCCEEDED \<Rightarrow> wi_phase r = None \<or> wi_phase r = Some ''reconciled''
        | FAILED \<Rightarrow> wi_phase r = None \<or> wi_phase r = Some ''rejected'' \<or> wi_phase r = Some ''reconciled''
        | CANCELLED \<Rightarrow> wi_phase r = None
        | UNKNOWN \<Rightarrow> wi_phase r = Some ''outcome_unknown'')"

definition log_intact :: "'h audit_ref \<Rightarrow> 'h audit_row list \<Rightarrow> bool" where
  "log_intact aud lg = (case aud of None \<Rightarrow> True | Some (hx, gen) \<Rightarrow> audit_intact hx gen lg)"

definition work_inv :: "'h audit_ref \<Rightarrow> nat option \<Rightarrow> 'h work_db \<Rightarrow> bool" where
  "work_inv aud cap db \<longleftrightarrow>
     distinct (map wi_work_id (wd_items db)) \<and>
     distinct (map (\<lambda>r. (wi_kind r, wi_idempotency_key r)) (wd_items db)) \<and>
     (\<forall>r \<in> set (wd_items db). task_row_ok r) \<and>
     (case cap of None \<Rightarrow> True | Some m \<Rightarrow> count_active db (Some ''intent'') \<le> m) \<and>
     log_intact aud (wd_log db)"

section \<open>How rows move\<close>

definition settled_state :: "WorkState \<Rightarrow> bool" where
  "settled_state s \<longleftrightarrow> s = SUCCEEDED \<or> s = FAILED \<or> s = CANCELLED"

text \<open>One change of one row, as every operation makes it.\<close>

definition row_arrow :: "work_row \<Rightarrow> work_row \<Rightarrow> bool" where
  "row_arrow r r' \<longleftrightarrow>
     wi_work_id r' = wi_work_id r \<and> wi_kind r' = wi_kind r \<and> wi_idempotency_key r' = wi_idempotency_key r \<and>
     wi_owner r' = wi_owner r \<and> \<not> settled_state (wi_state r) \<and> (wi_active r' \<longrightarrow> wi_active r) \<and>
     (task_row_ok r \<longrightarrow> task_row_ok r' \<and> (wi_kind r = ''intent'' \<longrightarrow> task_arrow (task_state r) (task_state r')))"

definition evolves :: "'h work_db \<Rightarrow> 'h work_db \<Rightarrow> bool" where
  "evolves db db' \<longleftrightarrow> (\<forall>r \<in> set (wd_items db). \<exists>r' \<in> set (wd_items db'). row_arrow\<^sup>*\<^sup>* r r')"

lemma evolves_refl: "evolves db db"
  unfolding evolves_def by blast

lemma evolves_trans: "evolves db db' \<Longrightarrow> evolves db' db'' \<Longrightarrow> evolves db db''"
  unfolding evolves_def by (meson rtranclp_trans)

lemma work_audit_intact: "log_intact aud lg \<Longrightarrow> log_intact aud (work_audit aud lg ev wid det t)"
  by (auto simp: log_intact_def work_audit_def audit_append_intact split: option.splits)

lemma work_transition_cases:
  assumes "distinct (map wi_work_id (wd_items db))"
  obtains (refused) "work_transition aud db wid kind xs ph st t ch = (db, False)"
  | (taken) row lg where
      "work_transition aud db wid kind xs ph st t ch =
         (\<lparr>wd_items = update_where (\<lambda>r. r = row) (apply_change ch st t) (wd_items db), wd_log = lg\<rparr>, True)"
      "row \<in> set (wd_items db)" "wi_work_id row = wid" "wi_kind row = kind" "wi_state row \<in> set xs"
      "case ph of None \<Rightarrow> True | Some ps \<Rightarrow> wi_phase row \<in> set ps"
      "\<exists>ev det. lg = work_audit aud (wd_log db) ev wid det t"
proof (cases "work_get db wid (Some kind)")
  case None
  then show ?thesis by (intro refused) (simp add: work_transition_def)
next
  case (Some row)
  have row: "row \<in> set (wd_items db)" "wi_work_id row = wid" "wi_kind row = kind"
    using find_Some_mem [OF Some [unfolded work_get_def]] by simp_all
  show ?thesis
  proof (cases "wi_state row \<in> set xs \<and> (case ph of None \<Rightarrow> True | Some ps \<Rightarrow> wi_phase row \<in> set ps)")
    case False
    with Some show ?thesis by (intro refused) (auto simp: work_transition_def split: option.splits)
  next
    case True
    have only: "(wi_work_id r = wid \<and> wi_kind r = kind \<and> wi_state r = wi_state row) \<longleftrightarrow> r = row" if "r \<in> set (wd_items db)" for r
      using assms row that by (auto simp: distinct_map dest: inj_onD)
    have "update_where (\<lambda>r. wi_work_id r = wid \<and> wi_kind r = kind \<and> wi_state r = wi_state row) (apply_change ch st t) (wd_items db) =
        update_where (\<lambda>r. r = row) (apply_change ch st t) (wd_items db)"
      unfolding update_where_def by (rule map_cong) (simp_all add: only)
    with True Some row show ?thesis
      by (intro taken [of row]) (auto simp: work_transition_def split: option.splits)
  qed
qed

lemma work_transition_ok:
  assumes inv: "work_inv aud cap db"
    and arrow: "\<And>r. wi_work_id r = wid \<Longrightarrow> wi_kind r = kind \<Longrightarrow> wi_state r \<in> set xs \<Longrightarrow>
        (case ph of None \<Rightarrow> True | Some ps \<Rightarrow> wi_phase r \<in> set ps) \<Longrightarrow> row_arrow r (apply_change ch st t r)"
    and step: "work_transition aud db wid kind xs ph st t ch = (db', ok)"
  shows "work_inv aud cap db' \<and> evolves db db'"
proof -
  have "distinct (map wi_work_id (wd_items db))" using inv by (simp add: work_inv_def)
  then show ?thesis
  proof (cases rule: work_transition_cases [of db aud wid kind xs ph st t ch])
    case refused
    with step inv show ?thesis by (simp add: evolves_refl)
  next
    case (taken row lg)
    let ?f = "apply_change ch st t"
    have ar: "row_arrow row (?f row)" using arrow taken(3-6) by blast
    have db': "db' = \<lparr>wd_items = update_where (\<lambda>r. r = row) ?f (wd_items db), wd_log = lg\<rparr>" using step taken(1) by simp
    have keys: "map wi_work_id (wd_items db') = map wi_work_id (wd_items db)"
      "map (\<lambda>r. (wi_kind r, wi_idempotency_key r)) (wd_items db') = map (\<lambda>r. (wi_kind r, wi_idempotency_key r)) (wd_items db)"
      unfolding db' using ar by (auto simp: update_where_def row_arrow_def)
    have rows: "\<forall>r \<in> set (wd_items db'). task_row_ok r"
      using inv ar taken(2) unfolding db' work_inv_def row_arrow_def by (auto simp: set_update_where)
    have "count_active db' (Some ''intent'') \<le> count_active db (Some ''intent'')"
      unfolding count_active_def db' using ar by (auto simp: count_update_where row_arrow_def intro!: count_where_mono split: if_splits)
    moreover have "log_intact aud (wd_log db')"
      using taken(7) inv unfolding db' work_inv_def by (auto simp: work_audit_intact)
    ultimately have "work_inv aud cap db'"
      using inv rows unfolding work_inv_def keys by (auto split: option.splits)
    moreover have "evolves db db'"
      unfolding evolves_def db' using ar by (auto simp: set_update_where)
    ultimately show ?thesis ..
  qed
qed

lemma work_create_ok:
  assumes inv: "work_inv aud cap db" and new: "work_create aud db w t ev det mx = Inr (db', ok)"
    and intent: "nw_kind w = ''intent'' \<Longrightarrow> nw_phase w = None \<and> mx = cap \<and> nw_work_id w = task_work_id (nw_idempotency_key w)"
  shows "work_inv aud cap db' \<and> evolves db db'"
proof (cases "list_ex (clashes w) (wd_items db)")
  case True
  with new inv show ?thesis by (simp add: work_create_def evolves_refl)
next
  case False
  then have fresh: "nw_work_id w \<notin> wi_work_id ` set (wd_items db)"
    "(nw_kind w, nw_idempotency_key w) \<notin> (\<lambda>r. (wi_kind r, wi_idempotency_key r)) ` set (wd_items db)"
    by (auto simp: list_ex_iff clashes_def)
  have full: "case mx of None \<Rightarrow> True | Some m \<Rightarrow> count_active db (Some (nw_kind w)) < m"
    and db': "db' = \<lparr>wd_items = wd_items db @ [work_row_of w t], wd_log = work_audit aud (wd_log db) ev (nw_work_id w) det t\<rparr>"
    using new False by (auto simp: work_create_def split: if_splits option.splits)
  have "case cap of None \<Rightarrow> True | Some m \<Rightarrow> count_active db' (Some ''intent'') \<le> m"
    using inv full intent unfolding db' work_inv_def
    by (cases "nw_kind w = ''intent''") (auto simp: count_active_def work_row_of_def split: option.splits)
  moreover have "task_row_ok (work_row_of w t)"
    using intent by (simp add: task_row_ok_def work_row_of_def)
  ultimately have "work_inv aud cap db'"
    using inv fresh unfolding work_inv_def db' by (simp add: work_row_of_def work_audit_intact)
  moreover have "evolves db db'" unfolding evolves_def db' by auto
  ultimately show ?thesis ..
qed

lemmas arrow_simps = row_arrow_def apply_change_def no_change_def settled_state_def wi_active_def task_row_ok_def
  task_state_def task_arrow_simps

lemma pair_step: "work_inv aud cap db \<Longrightarrow> (\<And>db' ok. p = (db', ok) \<Longrightarrow> work_inv aud cap db' \<and> evolves db db') \<Longrightarrow>
  work_inv aud cap (fst p) \<and> evolves db (fst p)"
  by (cases p) simp

lemma task_transition_ok:
  assumes "work_inv aud cap db"
    and "\<And>r. wi_kind r = ''intent'' \<Longrightarrow> wi_state r \<in> set xs \<Longrightarrow>
        (case ph of None \<Rightarrow> True | Some ps \<Rightarrow> wi_phase r \<in> set ps) \<Longrightarrow> row_arrow r (apply_change ch st t r)"
  shows "work_inv aud cap (fst (task_transition aud db key xs ph st t ch)) \<and>
    evolves db (fst (task_transition aud db key xs ph st t ch))"
  unfolding task_transition_def
  by (rule pair_step [OF assms(1)]) (rule work_transition_ok [OF assms(1) assms(2)])

lemma expire_each_ok:
  assumes "work_inv aud cap db"
  shows "work_inv aud cap (fst (expire_each aud now ks db)) \<and> evolves db (fst (expire_each aud now ks db))"
  using assms
proof (induction ks arbitrary: db)
  case Nil
  then show ?case by (simp add: evolves_refl)
next
  case (Cons k ks)
  obtain db1 ok where one: "expire_one aud now k db = (db1, ok)" by fastforce
  have "work_inv aud cap db1 \<and> evolves db db1"
    by (rule work_transition_ok [OF Cons.prems _ one [unfolded expire_one_def]]) (auto simp: arrow_simps split: WorkState.splits)
  with Cons.IH [of db1] one show ?case by (auto simp: split_beta intro: evolves_trans)
qed

lemma cancel_ok:
  assumes "work_inv aud cap db"
  shows "work_inv aud cap (fst (cancel_immediately aud db key t)) \<and> evolves db (fst (cancel_immediately aud db key t))"
proof -
  let ?first = "task_transition aud db key [QUEUED] None CANCELLED t (no_change\<lparr>wc_audit_event := Some ''task.cancelled''\<rparr>)"
  have 1: "work_inv aud cap (fst ?first) \<and> evolves db (fst ?first)"
    by (rule task_transition_ok [OF assms]) (auto simp: arrow_simps split: WorkState.splits)
  let ?second = "task_transition aud (fst ?first) key [RUNNING] (Some [Some ''cancel_requested'']) CANCELLED t
    (no_change\<lparr>wc_phase := SetTo None, wc_lease_until := SetTo None, wc_audit_event := Some ''task.cancelled''\<rparr>)"
  have 2: "work_inv aud cap (fst ?second) \<and> evolves (fst ?first) (fst ?second)"
    by (rule task_transition_ok) (use 1 in \<open>auto simp: arrow_simps split: WorkState.splits\<close>)
  show ?thesis
  proof (cases "snd ?first")
    case True
    with 1 show ?thesis by (simp add: cancel_immediately_def split_beta)
  next
    case False
    with 1 2 show ?thesis by (auto simp: cancel_immediately_def split_beta intro: evolves_trans)
  qed
qed

lemma lifecycle_active: "s \<in> set ACTIVE_MISSION_STATES \<Longrightarrow> the (map_of STATE_TO_LIFECYCLE s) \<in> {QUEUED, RUNNING}"
  by (auto simp: ACTIVE_MISSION_STATES_def STATE_TO_LIFECYCLE_def)

lemma mission_transition_ok:
  assumes inv: "work_inv aud cap db" and "set expected \<subseteq> set ACTIVE_MISSION_STATES"
    and step: "mission_transition aud db mid expected new_state cs t = Inr (db', ok)"
  shows "work_inv aud cap db' \<and> evolves db db'"
proof -
  let ?known = "filter (\<lambda>s. s \<in> set (map fst STATE_TO_LIFECYCLE)) expected"
  have act: "set (map (\<lambda>s. the (map_of STATE_TO_LIFECYCLE s)) ?known) \<subseteq> {QUEUED, RUNNING}"
    using assms(2) lifecycle_active by auto
  obtain st ph ch where w: "work_transition aud db (mission_work_id mid) ''mission''
      (map (\<lambda>s. the (map_of STATE_TO_LIFECYCLE s)) ?known) ph st t ch = (db', ok)"
    using step by (auto simp: mission_transition_def Let_def split: option.splits)
  show ?thesis
    by (rule work_transition_ok [OF inv _ w]) (use act in \<open>force simp: row_arrow_def apply_change_def settled_state_def wi_active_def task_row_ok_def\<close>)
qed

lemma work_step_ok:
  assumes "work_step aud cap db db'" and inv: "work_inv aud cap db"
  shows "work_inv aud cap db' \<and> evolves db db'"
  using assms(1)
proof cases
  case s_propose
  then show ?thesis unfolding propose_def by (rule work_create_ok [OF inv]) simp
next
  case s_accept
  then show ?thesis unfolding mission_accept_def by (rule work_create_ok [OF inv]) simp
next
  case s_mission
  then show ?thesis using mission_transition_ok [OF inv] by blast
next
  case s_expire
  then show ?thesis using expire_each_ok [OF inv] by (simp add: expire_stale_intents_def)
next
  case s_cancel
  then show ?thesis using cancel_ok [OF inv] by simp
qed (auto simp: task_reject_def start_running_def task_complete_def task_fail_def request_cancel_def resume_running_def
      task_reconcile_def arrow_simps split: WorkState.splits intro!: task_transition_ok [OF inv])

definition work_empty :: "'h work_db" where
  "work_empty = \<lparr>wd_items = [], wd_log = []\<rparr>"

interpretation work_run: invariant_system "\<lambda>db. db = work_empty" "work_step aud cap" "work_inv aud cap"
proof unfold_locales
  show "work_inv aud cap db" if "db = work_empty" for db
    using that by (auto simp: work_empty_def work_inv_def count_active_def log_intact_def audit_intact_Nil split: option.splits)
  show "work_inv aud cap t" if "work_inv aud cap s" "work_step aud cap s t" for s t
    using work_step_ok [OF that(2,1)] by blast
qed

lemma work_steps_evolve:
  assumes "(work_step aud cap)\<^sup>*\<^sup>* db db'" and "work_inv aud cap db"
  shows "work_inv aud cap db' \<and> evolves db db'"
  using assms
proof (induction rule: rtranclp_induct)
  case base
  then show ?case by (simp add: evolves_refl)
next
  case (step db1 db2)
  then show ?case using work_step_ok evolves_trans by blast
qed

lemma row_arrows:
  assumes "row_arrow\<^sup>*\<^sup>* r r'"
  shows "wi_work_id r' = wi_work_id r \<and> wi_kind r' = wi_kind r \<and> wi_owner r' = wi_owner r \<and>
    wi_idempotency_key r' = wi_idempotency_key r \<and>
    (settled_state (wi_state r) \<longrightarrow> r' = r) \<and>
    (task_row_ok r \<longrightarrow> task_row_ok r' \<and> (wi_kind r = ''intent'' \<longrightarrow> task_arrow\<^sup>*\<^sup>* (task_state r) (task_state r')))"
  using assms
proof (induction rule: rtranclp_induct)
  case base
  then show ?case by simp
next
  case (step r1 r2)
  then have a: "row_arrow r1 r2" by blast
  then have ids: "wi_work_id r2 = wi_work_id r1" "wi_kind r2 = wi_kind r1" "wi_owner r2 = wi_owner r1"
      "wi_idempotency_key r2 = wi_idempotency_key r1" "\<not> settled_state (wi_state r1)"
    and ok: "task_row_ok r1 \<Longrightarrow> task_row_ok r2"
      "task_row_ok r1 \<Longrightarrow> wi_kind r1 = ''intent'' \<Longrightarrow> task_arrow (task_state r1) (task_state r2)"
    unfolding row_arrow_def by blast+
  show ?case
  proof (intro conjI impI)
    show "r2 = r" if "settled_state (wi_state r)" using that ids(5) step.IH by simp
    show "task_arrow\<^sup>*\<^sup>* (task_state r) (task_state r2)" if "task_row_ok r" "wi_kind r = ''intent''"
      using that step.IH ok(2) by (metis rtranclp.rtrancl_into_rtrancl)
  qed (use step.IH ids ok(1) in simp_all)
qed

lemma work_get_iff:
  assumes "distinct (map wi_work_id (wd_items db))"
  shows "work_get db wid (Some kind) = Some r \<longleftrightarrow> r \<in> set (wd_items db) \<and> wi_work_id r = wid \<and> wi_kind r = kind"
proof
  assume "work_get db wid (Some kind) = Some r"
  from find_Some_mem [OF this [unfolded work_get_def]]
  show "r \<in> set (wd_items db) \<and> wi_work_id r = wid \<and> wi_kind r = kind" by simp
next
  assume r: "r \<in> set (wd_items db) \<and> wi_work_id r = wid \<and> wi_kind r = kind"
  then obtain r' where r': "work_get db wid (Some kind) = Some r'"
    unfolding work_get_def by (cases "find (\<lambda>r. wi_work_id r = wid \<and> wi_kind r = kind) (wd_items db)") (auto simp: find_None_all)
  have "r' = r" using find_Some_mem [OF r' [unfolded work_get_def]] r assms by (auto simp: distinct_map dest: inj_onD)
  with r' show "work_get db wid (Some kind) = Some r" by simp
qed

lemma task_later:
  assumes "reachable (\<lambda>db. db = work_empty) (work_step aud cap) db" and "(work_step aud cap)\<^sup>*\<^sup>* db db'"
    and "task_get db key = Some (s, r)"
  obtains s' r' where "task_get db' key = Some (s', r')" "row_arrow\<^sup>*\<^sup>* r r'" "s = task_state r" "s' = task_state r'"
    "wi_kind r = ''intent''" "task_row_ok r"
proof -
  have inv: "work_inv aud cap db" using assms(1) by (rule work_run.reachable_inv)
  then have inv': "work_inv aud cap db'" and ev: "evolves db db'" using work_steps_evolve [OF assms(2)] by blast+
  have d: "distinct (map wi_work_id (wd_items db))" "distinct (map wi_work_id (wd_items db'))"
    using inv inv' by (simp_all add: work_inv_def)
  have r: "r \<in> set (wd_items db)" "wi_work_id r = task_work_id key" "wi_kind r = ''intent''" "s = task_state r"
    using assms(3) by (auto simp: task_get_def work_get_iff [OF d(1)])
  then obtain r' where r': "r' \<in> set (wd_items db')" "row_arrow\<^sup>*\<^sup>* r r'" using ev by (auto simp: evolves_def)
  have "task_get db' key = Some (task_state r', r')"
    using r' r row_arrows [OF r'(2)] by (simp add: task_get_def work_get_iff [OF d(2)])
  moreover have "task_row_ok r" using inv r(1) by (simp add: work_inv_def)
  ultimately show ?thesis using that r' r by blast
qed

definition demo_aud :: "nat audit_ref" where
  "demo_aud = Some (\<lambda>p. Suc (ap_prev_hash p), 0)"

definition demo_work :: "nat work_db" where
  "demo_work = (case propose demo_aud work_empty ''k'' None ''observe.x'' ''peer'' 1 None (Some 8) of
     Inr (db, ok) \<Rightarrow> db | Inl _ \<Rightarrow> work_empty)"

definition demo_done :: "nat work_db" where
  "demo_done = fst (task_complete demo_aud (fst (start_running demo_aud demo_work ''k'' 100 2)) ''k'' (JInt 7) 3)"

lemma demo_work_reachable: "reachable (\<lambda>db. db = work_empty) (work_step demo_aud (Some 8)) demo_work"
proof -
  have "\<exists>ok. propose demo_aud work_empty ''k'' None ''observe.x'' ''peer'' 1 None (Some 8) = Inr (demo_work, ok)"
    by (auto simp: demo_work_def propose_def work_create_def work_empty_def count_active_def)
  then have "work_step demo_aud (Some 8) work_empty demo_work" by (blast intro: s_propose)
  then show ?thesis by (blast intro: reachable_init reachable_step)
qed

lemma demo_done_steps: "(work_step demo_aud (Some 8))\<^sup>*\<^sup>* demo_work demo_done"
  unfolding demo_done_def by (meson rtranclp.rtrancl_into_rtrancl rtranclp.rtrancl_refl s_start s_complete)

lemma demo_done_reachable: "reachable (\<lambda>db. db = work_empty) (work_step demo_aud (Some 8)) demo_done"
  unfolding demo_done_def by (rule reachable_step [OF reachable_step [OF demo_work_reachable s_start] s_complete])

lemma demo_states:
  "map_option fst (task_get demo_work ''k'') = Some TProposed" "map_option fst (task_get demo_done ''k'') = Some TCompleted"
  by code_simp+

section \<open>Properties\<close>



text \<open>
  A finished task is final: once a task is completed, failed, cancelled or rejected, no
  operation of the store changes anything of its row, so its result is what was first recorded.
\<close>

theorem finished_task_is_final:
  assumes "reachable (\<lambda>db. db = work_empty) (work_step aud cap) db" and "(work_step aud cap)\<^sup>*\<^sup>* db db'"
    and "task_get db key = Some (s, r)" and "s \<in> {TCompleted, TFailed, TCancelled, TRejected}"
  shows "task_get db' key = Some (s, r)"
proof -
  obtain s' r' where n: "task_get db' key = Some (s', r')" "row_arrow\<^sup>*\<^sup>* r r'" "s = task_state r" "s' = task_state r'"
      "wi_kind r = ''intent''" "task_row_ok r"
    by (rule task_later [OF assms(1-3)])
  have "settled_state (wi_state r)"
    using assms(4) n(3,5,6) by (cases "wi_state r") (auto simp: task_state_def task_row_ok_def settled_state_def split: if_splits)
  with row_arrows [OF n(2)] n show ?thesis by simp
qed

theorem finished_task_is_final_witness:
  "map_option fst (task_get (fst (cancel_immediately demo_aud demo_done ''k'' 9)) ''k'') = Some TCompleted"
proof -
  obtain r where r: "task_get demo_done ''k'' = Some (TCompleted, r)" using demo_states(2) by auto
  have "(work_step demo_aud (Some 8))\<^sup>*\<^sup>* demo_done (fst (cancel_immediately demo_aud demo_done ''k'' 9))"
    by (blast intro: s_cancel)
  from finished_task_is_final [OF demo_done_reachable this r] show ?thesis by simp
qed

text \<open>
  The store's invariant: in every reachable state work identifiers and idempotency keys are
  unique, the active intents never exceed the admission bound the tasks are proposed with, and the
  audit log verifies.
\<close>

theorem work_reachable_inv:
  assumes "reachable (\<lambda>db. db = work_empty) (work_step (Some (hx, gen)) (Some m)) db"
  shows "distinct (map wi_work_id (wd_items db)) \<and> distinct (map (\<lambda>r. (wi_kind r, wi_idempotency_key r)) (wd_items db)) \<and>
    count_inflight db \<le> m \<and> fst (audit_verify hx gen (wd_log db))"
proof -
  have "work_inv (Some (hx, gen)) (Some m) db" using assms by (rule work_run.reachable_inv)
  then show ?thesis by (auto simp: work_inv_def count_inflight_def log_intact_def intact_verify)
qed

theorem work_reachable_inv_witness:
  "count_inflight demo_done \<le> 8 \<and> fst (audit_verify (\<lambda>p. Suc (ap_prev_hash p)) 0 (wd_log demo_done))"
  using work_reachable_inv [OF demo_done_reachable [unfolded demo_aud_def]] by simp

end
