(* ===== verification/Modbus.thy ===== *)
theory Modbus
  imports Prelude "HOL-Library.Word"
begin

unbundle bit_operations_syntax

text \<open>
  Modbus/TCP, \<^verbatim>\<open>src/fasp_harness/industrial/modbus.py\<close>: the bit packing, the request handling of the
  in-process server, the client with its framing, and the named signal map over it. Bytes are
  \<open>8 word\<close>; a device is a state with a function from the bytes the client sends to the bytes that
  come back before the connection ends or times out, so a truncated, empty or garbled reply is a
  value of it. The four address spaces are maps, as the dictionaries of the data store are.
\<close>

type_synonym byte = "8 word"

section \<open>Bytes\<close>

text \<open>\<^verbatim>\<open>struct.pack(">H", n)\<close> and its inverse.\<close>

definition pack_H :: "nat \<Rightarrow> byte list" where
  "pack_H n = [of_nat (n div 256), of_nat n]"

definition unpack_H :: "byte \<Rightarrow> byte \<Rightarrow> nat" where
  "unpack_H hi lo = 256 * unat hi + unat lo"

section \<open>Bit packing\<close>

definition unpack_bit :: "byte list \<Rightarrow> nat \<Rightarrow> bool result" where
  "unpack_bit payload index =
     (if index div 8 < length payload then Inr (bit (payload ! (index div 8)) (index mod 8)) else Inl IndexError)"

definition unpack_bits :: "byte list \<Rightarrow> nat \<Rightarrow> bool list result" where
  "unpack_bits payload quantity = map_result (unpack_bit payload) [0..<quantity]"

fun pack_loop :: "nat \<Rightarrow> bool list \<Rightarrow> byte list \<Rightarrow> byte list" where
  "pack_loop index [] packed = packed"
| "pack_loop index (v # vs) packed =
     pack_loop (index + 1) vs
       (if v then packed[index div 8 := packed ! (index div 8) OR push_bit (index mod 8) 1] else packed)"

definition pack_bits :: "bool list \<Rightarrow> byte list" where
  "pack_bits values = pack_loop 0 values (replicate ((length values + 7) div 8) 0)"

section \<open>Data store and server\<close>

record ModbusDataStore =
  ds_coils :: "nat \<rightharpoonup> bool"
  ds_discrete_inputs :: "nat \<rightharpoonup> bool"
  ds_holding_registers :: "nat \<rightharpoonup> nat"
  ds_input_registers :: "nat \<rightharpoonup> nat"
  ds_read_only_coils :: "nat set"

definition read_bits :: "(nat \<rightharpoonup> bool) \<Rightarrow> nat \<Rightarrow> nat \<Rightarrow> bool list" where
  "read_bits space address quantity =
     map (\<lambda>i. case space (address + i) of None \<Rightarrow> False | Some b \<Rightarrow> b) [0..<quantity]"

definition read_registers :: "(nat \<rightharpoonup> nat) \<Rightarrow> nat \<Rightarrow> nat \<Rightarrow> nat list" where
  "read_registers space address quantity =
     map (\<lambda>i. case space (address + i) of None \<Rightarrow> 0 | Some v \<Rightarrow> v mod 65536) [0..<quantity]"

text \<open>\<^verbatim>\<open>struct.unpack(">HH", pdu[1:5])\<close>: \<open>None\<close> is \<^verbatim>\<open>struct.error\<close>, for a slice that is too short.\<close>

definition unpack_HH :: "byte list \<Rightarrow> (nat \<times> nat) option" where
  "unpack_HH pdu =
     (case take 4 (drop 1 pdu) of
        [a, b, c, d] \<Rightarrow> Some (unpack_H a b, unpack_H c d)
      | _ \<Rightarrow> None)"

definition unpack_HHB :: "byte list \<Rightarrow> (nat \<times> nat \<times> nat) option" where
  "unpack_HHB pdu =
     (case take 5 (drop 1 pdu) of
        [a, b, c, d, e] \<Rightarrow> Some (unpack_H a b, unpack_H c d, unat e)
      | _ \<Rightarrow> None)"

fun write_loop :: "nat \<Rightarrow> nat \<Rightarrow> nat \<Rightarrow> byte list \<Rightarrow> ModbusDataStore \<Rightarrow> ModbusDataStore" where
  "write_loop address offset 0 pdu store = store"
| "write_loop address offset (Suc n) pdu store =
     write_loop address (offset + 1) n pdu
       (store\<lparr>ds_holding_registers := (ds_holding_registers store)
          (address + offset \<mapsto> unpack_H (pdu ! (6 + offset * 2)) (pdu ! (7 + offset * 2)))\<rparr>)"

definition exception_reply :: "byte \<Rightarrow> byte \<Rightarrow> byte list" where
  "exception_reply function code = [function OR 0x80, code]"

definition serve_pdu :: "ModbusDataStore \<Rightarrow> byte list \<Rightarrow> ModbusDataStore \<times> byte list" where
  "serve_pdu store pdu =
     (case pdu of
        [] \<Rightarrow> (store, [0x80, 0x03])
      | function # _ \<Rightarrow>
          if function = 0x01 \<or> function = 0x02 then
            (case unpack_HH pdu of
               None \<Rightarrow> (store, exception_reply function 0x03)
             | Some (address, quantity) \<Rightarrow>
                 if \<not> (1 \<le> quantity \<and> quantity \<le> 2000) then (store, exception_reply function 0x03)
                 else let space = (if function = 0x01 then ds_coils store else ds_discrete_inputs store);
                          payload = pack_bits (read_bits space address quantity)
                      in (store, [function, of_nat (length payload)] @ payload))
          else if function = 0x03 \<or> function = 0x04 then
            (case unpack_HH pdu of
               None \<Rightarrow> (store, exception_reply function 0x03)
             | Some (address, quantity) \<Rightarrow>
                 if \<not> (1 \<le> quantity \<and> quantity \<le> 125) then (store, exception_reply function 0x03)
                 else let space = (if function = 0x03 then ds_holding_registers store else ds_input_registers store)
                      in (store, [function, of_nat (quantity * 2)] @ concat (map pack_H (read_registers space address quantity))))
          else if function = 0x05 then
            (case unpack_HH pdu of
               None \<Rightarrow> (store, exception_reply function 0x03)
             | Some (address, value) \<Rightarrow>
                 if value \<noteq> 0 \<and> value \<noteq> 0xFF00 then (store, exception_reply function 0x03)
                 else if address \<in> ds_read_only_coils store then (store, exception_reply function 0x02)
                 else (store\<lparr>ds_coils := (ds_coils store)(address \<mapsto> value = 0xFF00)\<rparr>, take 5 pdu))
          else if function = 0x06 then
            (case unpack_HH pdu of
               None \<Rightarrow> (store, exception_reply function 0x03)
             | Some (address, value) \<Rightarrow>
                 (store\<lparr>ds_holding_registers := (ds_holding_registers store)(address \<mapsto> value)\<rparr>, take 5 pdu))
          else if function = 0x10 then
            (case unpack_HHB pdu of
               None \<Rightarrow> (store, exception_reply function 0x03)
             | Some (address, quantity, byte_count) \<Rightarrow>
                 if byte_count \<noteq> quantity * 2 \<or> length pdu < 6 + byte_count then (store, exception_reply function 0x03)
                 else (write_loop address 0 quantity pdu store, function # pack_H address @ pack_H quantity))
          else (store, exception_reply function 0x01))"

section \<open>Framing\<close>

definition MAX_PDU_BYTES :: nat where
  "MAX_PDU_BYTES = 253"

definition mbap_header :: "nat \<Rightarrow> nat \<Rightarrow> nat \<Rightarrow> byte \<Rightarrow> byte list" where
  "mbap_header transaction protocol len unit = pack_H transaction @ pack_H protocol @ pack_H len @ [unit]"

fun mbap_unpack :: "byte list \<Rightarrow> (nat \<times> nat \<times> nat \<times> byte) option" where
  "mbap_unpack [a, b, c, d, e, f, u] = Some (unpack_H a b, unpack_H c d, unpack_H e f, u)"
| "mbap_unpack _ = None"

text \<open>\<^verbatim>\<open>_recv_exactly\<close> on what is still to come on a connection.\<close>

definition recv_exactly :: "nat \<Rightarrow> byte list \<Rightarrow> (byte list \<times> byte list) option" where
  "recv_exactly count stream = (if length stream < count then None else Some (take count stream, drop count stream))"

text \<open>One turn of the connection handler: the store afterwards and the bytes sent back.\<close>

definition serve_frame :: "ModbusDataStore \<Rightarrow> byte list \<Rightarrow> ModbusDataStore \<times> byte list" where
  "serve_frame store stream =
     (case recv_exactly 7 stream of
        None \<Rightarrow> (store, [])
      | Some (header, rest) \<Rightarrow>
          (case mbap_unpack header of
             None \<Rightarrow> (store, [])
           | Some (transaction, protocol, len, unit) \<Rightarrow>
               if protocol \<noteq> 0 \<or> \<not> (2 \<le> len \<and> len \<le> MAX_PDU_BYTES + 1) then (store, [])
               else (case recv_exactly (len - 1) rest of
                       None \<Rightarrow> (store, [])
                     | Some (body, _) \<Rightarrow>
                         (case serve_pdu store body of
                            (store', response) \<Rightarrow>
                              (store', mbap_header transaction 0 (length response + 1) unit @ response)))))"

section \<open>Client\<close>

type_synonym 'd device = "'d \<Rightarrow> byte list \<Rightarrow> 'd \<times> byte list"

record ModbusTcpClient =
  mc_unit_id :: byte
  mc_transaction :: nat
  mc_connected :: bool

definition ModbusError :: "string \<Rightarrow> exn" where
  "ModbusError code = FaspError code"

definition modbus_transport_error :: exn where
  "modbus_transport_error = ModbusError ''transport.unreachable''"

definition ModbusExceptionResponse :: exn where
  "ModbusExceptionResponse = ModbusError ''capability.unavailable''"

definition check_quantity :: "int \<Rightarrow> int \<Rightarrow> unit result" where
  "check_quantity quantity maximum = guard_else (1 \<le> quantity \<and> quantity \<le> maximum) (ModbusError ''schema.invalid'')"

definition check_address :: "int \<Rightarrow> unit result" where
  "check_address address = guard_else (0 \<le> address \<and> address \<le> 0xFFFF) (ModbusError ''schema.invalid'')"

text \<open>What the client makes of the bytes it gets back; the flag says that it drops the connection.\<close>

definition read_reply :: "nat \<Rightarrow> byte list \<Rightarrow> byte list \<Rightarrow> bool \<times> byte list result" where
  "read_reply expected pdu stream =
     (case recv_exactly 7 stream of
        None \<Rightarrow> (True, Inl modbus_transport_error)
      | Some (header, rest) \<Rightarrow>
          (case mbap_unpack header of
             None \<Rightarrow> (True, Inl StructError)
           | Some (transaction, protocol, len, _) \<Rightarrow>
               if protocol \<noteq> 0 \<or> \<not> (2 \<le> len \<and> len \<le> MAX_PDU_BYTES + 1) then (True, Inl (ModbusError ''schema.invalid''))
               else (case recv_exactly (len - 1) rest of
                       None \<Rightarrow> (True, Inl modbus_transport_error)
                     | Some (body, _) \<Rightarrow>
                         (False,
                          if transaction \<noteq> expected then Inl (ModbusError ''schema.invalid'')
                          else if bit (body ! 0) 7 then Inl ModbusExceptionResponse
                          else if body ! 0 \<noteq> pdu ! 0 then Inl (ModbusError ''schema.invalid'')
                          else Inr body))))"

definition transact ::
    "'d device \<Rightarrow> ModbusTcpClient \<Rightarrow> 'd \<Rightarrow> byte list \<Rightarrow> ModbusTcpClient \<times> 'd \<times> byte list result" where
  "transact dev c d pdu =
     (let expected = (mc_transaction c + 1) mod 65536;
          frame = mbap_header expected 0 (length pdu + 1) (mc_unit_id c) @ pdu;
          (d', stream) = dev d frame;
          (drop, r) = read_reply expected pdu stream
      in (c\<lparr>mc_transaction := expected, mc_connected := \<not> drop\<rparr>, d', r))"

definition request :: "byte \<Rightarrow> nat \<Rightarrow> nat \<Rightarrow> byte list" where
  "request function a b = function # pack_H a @ pack_H b"

text \<open>
  The bit readers differ in the function code only, and so do the register readers; a reply that
  is shorter than it should be makes \<^verbatim>\<open>unpack_bits\<close> raise an \<^verbatim>\<open>IndexError\<close>.
\<close>

definition client_read_bits ::
    "byte \<Rightarrow> 'd device \<Rightarrow> ModbusTcpClient \<Rightarrow> 'd \<Rightarrow> int \<Rightarrow> int \<Rightarrow> ModbusTcpClient \<times> 'd \<times> bool list result" where
  "client_read_bits function dev c d address quantity =
     (case bind_result (check_address address) (\<lambda>_. check_quantity quantity 2000) of
        Inl e \<Rightarrow> (c, d, Inl e)
      | Inr _ \<Rightarrow>
          (case transact dev c d (request function (nat address) (nat quantity)) of
             (c', d', r) \<Rightarrow> (c', d', bind_result r (\<lambda>body. unpack_bits (drop 2 body) (nat quantity)))))"

definition read_coils :: "'d device \<Rightarrow> ModbusTcpClient \<Rightarrow> 'd \<Rightarrow> int \<Rightarrow> int \<Rightarrow> ModbusTcpClient \<times> 'd \<times> bool list result" where
  "read_coils = client_read_bits 0x01"

definition read_discrete_inputs :: "'d device \<Rightarrow> ModbusTcpClient \<Rightarrow> 'd \<Rightarrow> int \<Rightarrow> int \<Rightarrow> ModbusTcpClient \<times> 'd \<times> bool list result" where
  "read_discrete_inputs = client_read_bits 0x02"

text \<open>\<^verbatim>\<open>struct.iter_unpack(">H", ...)\<close> wants an even number of bytes.\<close>

fun iter_unpack_H :: "byte list \<Rightarrow> nat list result" where
  "iter_unpack_H [] = Inr []"
| "iter_unpack_H [_] = Inl StructError"
| "iter_unpack_H (a # b # bs) = bind_result (iter_unpack_H bs) (\<lambda>vs. Inr (unpack_H a b # vs))"

definition client_read_registers ::
    "byte \<Rightarrow> 'd device \<Rightarrow> ModbusTcpClient \<Rightarrow> 'd \<Rightarrow> int \<Rightarrow> int \<Rightarrow> ModbusTcpClient \<times> 'd \<times> nat list result" where
  "client_read_registers function dev c d address quantity =
     (case bind_result (check_address address) (\<lambda>_. check_quantity quantity 125) of
        Inl e \<Rightarrow> (c, d, Inl e)
      | Inr _ \<Rightarrow>
          (case transact dev c d (request function (nat address) (nat quantity)) of
             (c', d', r) \<Rightarrow> (c', d', bind_result r (\<lambda>body. iter_unpack_H (take (nat quantity * 2) (drop 2 body))))))"

definition read_holding_registers :: "'d device \<Rightarrow> ModbusTcpClient \<Rightarrow> 'd \<Rightarrow> int \<Rightarrow> int \<Rightarrow> ModbusTcpClient \<times> 'd \<times> nat list result" where
  "read_holding_registers = client_read_registers 0x03"

definition read_input_registers :: "'d device \<Rightarrow> ModbusTcpClient \<Rightarrow> 'd \<Rightarrow> int \<Rightarrow> int \<Rightarrow> ModbusTcpClient \<times> 'd \<times> nat list result" where
  "read_input_registers = client_read_registers 0x04"

definition write_coil :: "'d device \<Rightarrow> ModbusTcpClient \<Rightarrow> 'd \<Rightarrow> int \<Rightarrow> bool \<Rightarrow> ModbusTcpClient \<times> 'd \<times> unit result" where
  "write_coil dev c d address value =
     (case check_address address of
        Inl e \<Rightarrow> (c, d, Inl e)
      | Inr _ \<Rightarrow>
          (case transact dev c d (request 0x05 (nat address) (if value then 0xFF00 else 0)) of
             (c', d', r) \<Rightarrow> (c', d', bind_result r (\<lambda>_. Inr ()))))"

definition write_register :: "'d device \<Rightarrow> ModbusTcpClient \<Rightarrow> 'd \<Rightarrow> int \<Rightarrow> int \<Rightarrow> ModbusTcpClient \<times> 'd \<times> unit result" where
  "write_register dev c d address value =
     (case bind_result (check_address address) (\<lambda>_. guard_else (0 \<le> value \<and> value \<le> 0xFFFF) (ModbusError ''schema.invalid'')) of
        Inl e \<Rightarrow> (c, d, Inl e)
      | Inr _ \<Rightarrow>
          (case transact dev c d (request 0x06 (nat address) (nat value)) of
             (c', d', r) \<Rightarrow> (c', d', bind_result r (\<lambda>_. Inr ()))))"

definition write_registers :: "'d device \<Rightarrow> ModbusTcpClient \<Rightarrow> 'd \<Rightarrow> int \<Rightarrow> int list \<Rightarrow> ModbusTcpClient \<times> 'd \<times> unit result" where
  "write_registers dev c d address values =
     (case bind_result (check_address address) (\<lambda>_. check_quantity (int (length values)) 123) of
        Inl e \<Rightarrow> (c, d, Inl e)
      | Inr _ \<Rightarrow>
          (let payload = concat (map (\<lambda>v. pack_H (nat (v mod 65536))) values)
           in case transact dev c d (request 0x10 (nat address) (length values) @ [of_nat (length payload)] @ payload) of
                (c', d', r) \<Rightarrow> (c', d', bind_result r (\<lambda>_. Inr ()))))"

section \<open>Signals\<close>

record SignalMapping =
  sm_name :: string
  sm_space :: string
  sm_address :: int
  sm_active_low :: bool
  sm_safety_relevant :: bool

definition evaluate :: "SignalMapping \<Rightarrow> bool \<Rightarrow> bool" where
  "evaluate s raw = (if sm_active_low s then \<not> raw else raw)"

type_synonym SafetyRegisterMap = "SignalMapping list"

definition new_register_map :: "SignalMapping list \<Rightarrow> SafetyRegisterMap result" where
  "new_register_map signals =
     (if \<not> distinct (map sm_name signals) then Inl (FaspError ''schema.invalid'') else Inr signals)"

text \<open>
  One address space of \<^verbatim>\<open>SafetyRegisterMap.read\<close>: one block from the lowest to the highest address.
  The spaces are visited in the order of their first signal, where Python iterates over a set.
\<close>

definition read_space ::
    "'d device \<Rightarrow> ModbusTcpClient \<Rightarrow> 'd \<Rightarrow> SafetyRegisterMap \<Rightarrow> string \<Rightarrow> ModbusTcpClient \<times> 'd \<times> (string \<times> bool) list result" where
  "read_space dev c d signals space =
     (let in_space = filter (\<lambda>s. sm_space s = space) signals;
          low = Min (set (map sm_address in_space));
          high = Max (set (map sm_address in_space))
      in if space = ''coil'' \<or> space = ''discrete_input''
         then (case (if space = ''coil'' then read_coils else read_discrete_inputs) dev c d low (high - low + 1) of
                 (c', d', r) \<Rightarrow>
                   (c', d', bind_result r (\<lambda>block.
                      Inr (map (\<lambda>s. (sm_name s, evaluate s (block ! nat (sm_address s - low)))) in_space))))
         else (c, d, Inl (FaspError ''schema.invalid'')))"

fun read_spaces ::
    "'d device \<Rightarrow> ModbusTcpClient \<Rightarrow> 'd \<Rightarrow> SafetyRegisterMap \<Rightarrow> string list \<Rightarrow> ModbusTcpClient \<times> 'd \<times> (string \<times> bool) list result" where
  "read_spaces dev c d signals [] = (c, d, Inr [])"
| "read_spaces dev c d signals (space # spaces) =
     (case read_space dev c d signals space of
        (c', d', Inl e) \<Rightarrow> (c', d', Inl e)
      | (c', d', Inr here) \<Rightarrow>
          (case read_spaces dev c' d' signals spaces of
             (c'', d'', r) \<Rightarrow> (c'', d'', bind_result r (\<lambda>more. Inr (here @ more)))))"

definition map_read ::
    "'d device \<Rightarrow> ModbusTcpClient \<Rightarrow> 'd \<Rightarrow> SafetyRegisterMap \<Rightarrow> ModbusTcpClient \<times> 'd \<times> (string \<times> bool) list result" where
  "map_read dev c d signals = read_spaces dev c d signals (remdups (map sm_space signals))"

definition writable_signal :: "SafetyRegisterMap \<Rightarrow> string \<Rightarrow> SignalMapping result" where
  "writable_signal signals name =
     (case find (\<lambda>s. sm_name s = name) signals of
        None \<Rightarrow> Inl (FaspError ''schema.invalid'')
      | Some s \<Rightarrow> if sm_safety_relevant s then Inl LayerViolation else Inr s)"

section \<open>Round trips of the encoding\<close>

lemma unat_byte [simp]: "unat (of_nat n :: byte) = n mod 256"
  by (simp add: unsigned_of_nat take_bit_eq_mod)

lemma unpack_pack_H: "n < 65536 \<Longrightarrow> unpack_H (of_nat (n div 256)) (of_nat n) = n"
  by (simp add: unpack_H_def)

lemma length_pack_H [simp]: "length (pack_H n) = 2"
  by (simp add: pack_H_def)

lemma length_pack_loop [simp]: "length (pack_loop i vs packed) = length packed"
  by (induction i vs packed rule: pack_loop.induct) auto

lemma length_pack_bits [simp]: "length (pack_bits vs) = (length vs + 7) div 8"
  by (simp add: pack_bits_def)

lemma bit_set_bit:
  assumes "j div 8 < length packed" "i div 8 < length packed"
  shows "bit (packed[i div 8 := packed ! (i div 8) OR push_bit (i mod 8) 1] ! (j div 8) :: byte) (j mod 8) \<longleftrightarrow>
    j = i \<or> bit (packed ! (j div 8)) (j mod 8)"
proof (cases "j div 8 = i div 8")
  case False
  with assms show ?thesis by auto
next
  case True
  have "j = i \<longleftrightarrow> j mod 8 = i mod 8" using True by (metis div_mult_mod_eq)
  with True assms show ?thesis by (auto simp: bit_or_iff push_bit_of_1 bit_exp_iff)
qed

lemma pack_loop_bit:
  assumes "i + length vs \<le> 8 * length packed" and "j < 8 * length packed"
    and "\<And>k. i \<le> k \<Longrightarrow> k < 8 * length packed \<Longrightarrow> \<not> bit (packed ! (k div 8)) (k mod 8)"
  shows "bit (pack_loop i vs packed ! (j div 8)) (j mod 8) \<longleftrightarrow>
    (if j < i then bit (packed ! (j div 8)) (j mod 8) else j < i + length vs \<and> vs ! (j - i))"
  using assms
proof (induction i vs packed rule: pack_loop.induct)
  case (1 index packed)
  then show ?case by auto
next
  case (2 index v vs packed)
  let ?p = "if v then packed[index div 8 := packed ! (index div 8) OR push_bit (index mod 8) 1] else packed"
  have len: "length ?p = length packed" by simp
  have div: "k div 8 < length packed" if "k < 8 * length packed" for k using that by (simp add: less_mult_imp_div_less mult.commute)
  have ind: "index < 8 * length packed" using "2.prems"(1) by simp
  have b: "bit (?p ! (k div 8)) (k mod 8) \<longleftrightarrow> (v \<and> k = index) \<or> bit (packed ! (k div 8)) (k mod 8)" if "k < 8 * length packed" for k
    using bit_set_bit [OF div [OF that] div [OF ind]] by auto
  have "bit (pack_loop (index + 1) vs ?p ! (j div 8)) (j mod 8) \<longleftrightarrow>
      (if j < index + 1 then bit (?p ! (j div 8)) (j mod 8) else j < index + 1 + length vs \<and> vs ! (j - (index + 1)))"
    using "2.prems" b by (intro "2.IH") (auto simp: len)
  then show ?case
    using b [OF "2.prems"(2)] "2.prems"(2,3)
    by (auto simp: nth_Cons' less_Suc_eq not_less dest: order_antisym)
qed

lemma pack_bits_bit: "j < length vs \<Longrightarrow> bit (pack_bits vs ! (j div 8)) (j mod 8) \<longleftrightarrow> vs ! j"
  unfolding pack_bits_def
  by (subst pack_loop_bit) (auto simp: nth_replicate less_mult_imp_div_less mult.commute)

lemma unpack_pack_bits: "unpack_bits (pack_bits vs) (length vs) = Inr vs"
proof -
  have "unpack_bit (pack_bits vs) i = Inr (vs ! i)" if "i < length vs" for i
    using that pack_bits_bit [OF that] by (auto simp: unpack_bit_def)
  then show ?thesis
    unfolding unpack_bits_def map_result_Inr_iff by (simp add: list_all2_conv_all_nth)
qed

lemma iter_unpack_pack:
  "\<forall>v \<in> set vs. v < 65536 \<Longrightarrow> iter_unpack_H (concat (map pack_H vs)) = Inr vs"
  by (induction vs) (simp_all add: pack_H_def unpack_pack_H)

lemma length_concat_pack_H [simp]: "length (concat (map pack_H vs)) = 2 * length vs"
  by (induction vs) simp_all

lemma unpack_HH_request:
  "a < 65536 \<Longrightarrow> b < 65536 \<Longrightarrow> unpack_HH (request f a b) = Some (a, b)"
  by (simp add: unpack_HH_def request_def pack_H_def unpack_pack_H)

lemma mbap_roundtrip:
  "t < 65536 \<Longrightarrow> p < 65536 \<Longrightarrow> l < 65536 \<Longrightarrow> mbap_unpack (mbap_header t p l u) = Some (t, p, l, u)"
  by (simp add: mbap_header_def pack_H_def unpack_pack_H)

lemma length_mbap [simp]: "length (mbap_header t p l u) = 7"
  by (simp add: mbap_header_def)

section \<open>Client against server\<close>

lemma recv_header [simp]: "recv_exactly 7 (mbap_header t p l u @ bs) = Some (mbap_header t p l u, bs)"
  by (simp add: recv_exactly_def)

lemma recv_all [simp]: "recv_exactly (length bs) bs = Some (bs, [])"
  by (simp add: recv_exactly_def)

lemma serve_frame_ok:
  assumes "t < 65536" and "1 \<le> length pdu" and "length pdu \<le> MAX_PDU_BYTES"
  shows "serve_frame store (mbap_header t 0 (length pdu + 1) u @ pdu) =
    (case serve_pdu store pdu of (store', r) \<Rightarrow> (store', mbap_header t 0 (length r + 1) u @ r))"
  using assms by (simp add: serve_frame_def mbap_roundtrip MAX_PDU_BYTES_def)

text \<open>A well-formed exchange: the client gets the server's answer, unless that is an exception reply.\<close>

lemma transact_server:
  assumes "1 \<le> length pdu" and "length pdu \<le> MAX_PDU_BYTES"
    and "serve_pdu store pdu = (store', r)" and "1 \<le> length r" and "length r \<le> MAX_PDU_BYTES"
  shows "\<exists>c'. transact serve_frame c store pdu =
    (c', store', if bit (r ! 0) 7 then Inl ModbusExceptionResponse
                 else if r ! 0 \<noteq> pdu ! 0 then Inl (ModbusError ''schema.invalid'') else Inr r)"
proof -
  let ?t = "(mc_transaction c + 1) mod 65536"
  have t: "?t < 65536" by simp
  have "serve_frame store (mbap_header ?t 0 (length pdu + 1) (mc_unit_id c) @ pdu) =
      (store', mbap_header ?t 0 (length r + 1) (mc_unit_id c) @ r)"
    using serve_frame_ok [OF t assms(1,2)] assms(3) by simp
  then show ?thesis
    using assms(4,5) t by (simp add: transact_def read_reply_def mbap_roundtrip MAX_PDU_BYTES_def)
qed

lemma serve_read_bits:
  assumes "f = 0x01 \<or> f = 0x02" and "a < 65536" and "1 \<le> q" and "q \<le> 2000"
  shows "serve_pdu store (request f a q) =
    (store, [f, of_nat ((q + 7) div 8)] @ pack_bits (read_bits (if f = 0x01 then ds_coils store else ds_discrete_inputs store) a q))"
proof -
  have "unpack_HH (request f a q) = Some (a, q)" using assms by (intro unpack_HH_request) auto
  then show ?thesis using assms by (auto simp: serve_pdu_def request_def read_bits_def Let_def)
qed

lemma serve_read_registers:
  assumes "f = 0x03 \<or> f = 0x04" and "a < 65536" and "1 \<le> q" and "q \<le> 125"
  shows "serve_pdu store (request f a q) =
    (store, [f, of_nat (q * 2)] @ concat (map pack_H (read_registers (if f = 0x03 then ds_holding_registers store else ds_input_registers store) a q)))"
proof -
  have "unpack_HH (request f a q) = Some (a, q)" using assms by (intro unpack_HH_request) auto
  then show ?thesis using assms by (auto simp: serve_pdu_def request_def Let_def)
qed

lemma length_request [simp]: "length (request f a b) = 5"
  by (simp add: request_def)

lemma client_read_bits_server:
  assumes "f = 0x01 \<or> f = 0x02" and "0 \<le> a" "a \<le> 0xFFFF" "1 \<le> q" "q \<le> 2000"
  shows "\<exists>c'. client_read_bits f serve_frame c store a q =
    (c', store, Inr (read_bits (if f = 0x01 then ds_coils store else ds_discrete_inputs store) (nat a) (nat q)))"
proof -
  let ?bs = "read_bits (if f = 0x01 then ds_coils store else ds_discrete_inputs store) (nat a) (nat q)"
  let ?r = "[f, of_nat ((nat q + 7) div 8)] @ pack_bits ?bs"
  have lb: "length ?bs = nat q" by (simp add: read_bits_def)
  have s: "serve_pdu store (request f (nat a) (nat q)) = (store, ?r)"
    using assms by (intro serve_read_bits) auto
  have len: "1 \<le> length ?r" "length ?r \<le> MAX_PDU_BYTES" using assms(4,5) by (simp_all add: lb MAX_PDU_BYTES_def)
  have f: "\<not> bit (?r ! 0) 7" "?r ! 0 = request f (nat a) (nat q) ! 0"
    using assms(1) by (auto simp: request_def)
  obtain c' where t: "transact serve_frame c store (request f (nat a) (nat q)) = (c', store, Inr ?r)"
    using transact_server [OF _ _ s len, of c] f by (auto simp: MAX_PDU_BYTES_def)
  have "unpack_bits (drop 2 ?r) (nat q) = Inr ?bs"
    using unpack_pack_bits [of ?bs] lb by simp
  with t assms show ?thesis by (simp add: client_read_bits_def check_address_def check_quantity_def)
qed

section \<open>Properties\<close>

text \<open>
  Packing status bits and unpacking them gives them back, for any number of bits.
\<close>

theorem pack_unpack_roundtrip:
  "unpack_bits (pack_bits vs) (length vs) = Inr vs \<and> length (pack_bits vs) = (length vs + 7) div 8"
  by (simp add: unpack_pack_bits)

text \<open>
  What the client reads is what the device holds: over a connection that delivers the bytes,
  reading coils, discrete inputs or registers in the permitted range returns the stored values,
  and reading changes nothing on the device.
\<close>

theorem client_reads_store:
  assumes "0 \<le> a" "a \<le> 0xFFFF" "1 \<le> q" "q \<le> 125"
  shows "snd (read_coils serve_frame c store a q) = (store, Inr (read_bits (ds_coils store) (nat a) (nat q))) \<and>
    snd (read_discrete_inputs serve_frame c store a q) = (store, Inr (read_bits (ds_discrete_inputs store) (nat a) (nat q))) \<and>
    snd (read_holding_registers serve_frame c store a q) = (store, Inr (read_registers (ds_holding_registers store) (nat a) (nat q))) \<and>
    snd (read_input_registers serve_frame c store a q) = (store, Inr (read_registers (ds_input_registers store) (nat a) (nat q)))"
proof -
  have regs: "snd (client_read_registers f serve_frame c store a q) =
      (store, Inr (read_registers (if f = 0x03 then ds_holding_registers store else ds_input_registers store) (nat a) (nat q)))"
    if f: "f = 0x03 \<or> f = 0x04" for f
  proof -
    let ?vs = "read_registers (if f = 0x03 then ds_holding_registers store else ds_input_registers store) (nat a) (nat q)"
    let ?r = "[f, of_nat (nat q * 2)] @ concat (map pack_H ?vs)"
    have lv: "length ?vs = nat q" and "\<forall>v \<in> set ?vs. v < 65536" by (auto simp: read_registers_def split: option.split)
    then have it: "iter_unpack_H (take (nat q * 2) (drop 2 ?r)) = Inr ?vs"
      using iter_unpack_pack [of ?vs] by (simp add: mult.commute)
    have s: "serve_pdu store (request f (nat a) (nat q)) = (store, ?r)"
      using f assms by (intro serve_read_registers) auto
    have len: "1 \<le> length ?r" "length ?r \<le> MAX_PDU_BYTES" using assms(3,4) by (simp_all add: lv MAX_PDU_BYTES_def)
    have "\<not> bit (?r ! 0) 7" "?r ! 0 = request f (nat a) (nat q) ! 0" using f by (auto simp: request_def)
    then obtain c' where "transact serve_frame c store (request f (nat a) (nat q)) = (c', store, Inr ?r)"
      using transact_server [OF _ _ s len, of c] by (auto simp: MAX_PDU_BYTES_def)
    with it assms show ?thesis by (simp add: client_read_registers_def check_address_def check_quantity_def)
  qed
  obtain c1 c2 where "client_read_bits 0x01 serve_frame c store a q = (c1, store, Inr (read_bits (ds_coils store) (nat a) (nat q)))"
      "client_read_bits 0x02 serve_frame c store a q = (c2, store, Inr (read_bits (ds_discrete_inputs store) (nat a) (nat q)))"
    using client_read_bits_server [of "0x01" a q c store] client_read_bits_server [of "0x02" a q c store] assms by auto
  with regs [of "0x03"] regs [of "0x04"] show ?thesis
    by (simp add: read_coils_def read_discrete_inputs_def read_holding_registers_def read_input_registers_def)
qed

definition demo_store :: ModbusDataStore where
  "demo_store = \<lparr>ds_coils = Map.empty, ds_discrete_inputs = [0 \<mapsto> True, 1 \<mapsto> True], ds_holding_registers = [7 \<mapsto> 4242],
     ds_input_registers = Map.empty, ds_read_only_coils = {}\<rparr>"

theorem client_reads_store_witness:
  "snd (read_discrete_inputs serve_frame \<lparr>mc_unit_id = 1, mc_transaction = 65535, mc_connected = True\<rparr> demo_store 0 3) =
     (demo_store, Inr [True, True, False])"
proof -
  have "read_bits (ds_discrete_inputs demo_store) (nat 0) (nat 3) = [True, True, False]" by code_simp
  with client_reads_store [of 0 3 "\<lparr>mc_unit_id = 1, mc_transaction = 65535, mc_connected = True\<rparr>" demo_store]
  show ?thesis by simp
qed

text \<open>
  A device never has to guess: whatever bytes arrive as a request, the server answers with a
  reply that fits a frame, and every reply to a function code other than the three write codes
  leaves the store as it was, so observing a safety controller cannot change it.
\<close>

theorem serve_pdu_total_and_reads_pure:
  "1 \<le> length (snd (serve_pdu store pdu)) \<and> length (snd (serve_pdu store pdu)) \<le> MAX_PDU_BYTES \<and>
   (fst (serve_pdu store pdu) = store \<or> (pdu \<noteq> [] \<and> pdu ! 0 \<in> {0x05, 0x06, 0x10}))"
proof -
  have q: "length (pack_bits (read_bits sp a q)) \<le> 251" if "q \<le> 2000" for sp a q
    using that by (simp add: read_bits_def)
  have r: "length (concat (map pack_H (read_registers sp a q))) \<le> 251" if "q \<le> 125" for sp a q
    using that length_concat_pack_H [of "read_registers sp a q"] by (simp add: read_registers_def del: length_concat_pack_H map_map)
  note defs = serve_pdu_def exception_reply_def MAX_PDU_BYTES_def Let_def
  show ?thesis
  proof (cases pdu)
    case Nil
    then show ?thesis by (simp add: defs)
  next
    case (Cons f ps)
    consider (bits) "f = 0x01 \<or> f = 0x02" | (regs) "f \<noteq> 0x01" "f \<noteq> 0x02" "f = 0x03 \<or> f = 0x04"
      | (wr) "f \<noteq> 0x01" "f \<noteq> 0x02" "f \<noteq> 0x03" "f \<noteq> 0x04" "f = 0x05 \<or> f = 0x06 \<or> f = 0x10"
      | (bad) "f \<noteq> 0x01" "f \<noteq> 0x02" "f \<noteq> 0x03" "f \<noteq> 0x04" "f \<noteq> 0x05" "f \<noteq> 0x06" "f \<noteq> 0x10"
      by blast
    then show ?thesis
    proof cases
      case bits
      with Cons q show ?thesis by (cases "unpack_HH pdu") (simp_all add: defs split_beta)
    next
      case regs
      with Cons r show ?thesis by (cases "unpack_HH pdu") (simp_all add: defs split_beta)
    next
      case wr
      have "1 \<le> length (snd (serve_pdu store pdu)) \<and> length (snd (serve_pdu store pdu)) \<le> MAX_PDU_BYTES"
      proof (cases "f = 0x10")
        case True
        with Cons show ?thesis by (cases "unpack_HHB pdu") (simp_all add: defs split_beta)
      next
        case False
        with wr Cons show ?thesis by (cases "unpack_HH pdu") (auto simp: defs split_beta)
      qed
      with wr(5) Cons show ?thesis by auto
    next
      case bad
      with Cons show ?thesis by (simp add: defs)
    qed
  qed
qed

text \<open>
  A written coil reads back: when the address is not a read-only coil, writing it through the
  client and reading it again returns what was written; a read-only coil refuses the write and
  keeps its value.
\<close>

theorem write_coil_reads_back:
  assumes "0 \<le> a" "a \<le> 0xFFFF"
  shows "case write_coil serve_frame c store a v of
    (c', store', r) \<Rightarrow>
      if nat a \<in> ds_read_only_coils store then store' = store \<and> r = Inl ModbusExceptionResponse
      else r = Inr () \<and> snd (snd (read_coils serve_frame c' store' a 1)) = Inr [v]"
proof -
  let ?val = "if v then 0xFF00 else 0 :: nat"
  let ?pdu = "request 0x05 (nat a) ?val"
  have hh: "unpack_HH ?pdu = Some (nat a, ?val)" using assms by (intro unpack_HH_request) auto
  have t5: "take 5 ?pdu = ?pdu" by simp
  have p0: "?pdu ! 0 = 0x05" by (simp add: request_def)
  show ?thesis
  proof (cases "nat a \<in> ds_read_only_coils store")
    case True
    have s: "serve_pdu store ?pdu = (store, exception_reply 0x05 0x02)"
      using hh True by (auto simp: serve_pdu_def request_def)
    have "bit (exception_reply 0x05 0x02 ! 0) 7" by (simp add: exception_reply_def)
    then obtain c' where "transact serve_frame c store ?pdu = (c', store, Inl ModbusExceptionResponse)"
      using transact_server [OF _ _ s, of c] by (auto simp: MAX_PDU_BYTES_def exception_reply_def)
    with True assms show ?thesis by (simp add: write_coil_def check_address_def)
  next
    case False
    let ?store = "store\<lparr>ds_coils := (ds_coils store)(nat a \<mapsto> v)\<rparr>"
    have s: "serve_pdu store ?pdu = (?store, ?pdu)"
      using hh False t5 by (auto simp: serve_pdu_def request_def)
    obtain c' where c': "transact serve_frame c store ?pdu = (c', ?store, Inr ?pdu)"
      using transact_server [OF _ _ s, of c] p0 by (auto simp: MAX_PDU_BYTES_def)
    obtain c'' where "client_read_bits 0x01 serve_frame c' ?store a 1 = (c'', ?store, Inr (read_bits (ds_coils ?store) (nat a) (nat 1)))"
      using client_read_bits_server [of "0x01" a 1 c' ?store] assms by auto
    with c' False assms show ?thesis
      by (simp add: write_coil_def check_address_def read_coils_def read_bits_def)
  qed
qed

theorem write_coil_reads_back_witness:
  "case write_coil serve_frame \<lparr>mc_unit_id = 1, mc_transaction = 0, mc_connected = True\<rparr> demo_store 9 True of
     (c', store', r) \<Rightarrow> r = Inr () \<and> snd (snd (read_coils serve_frame c' store' 9 1)) = Inr [True]"
  using write_coil_reads_back [of 9 demo_store True "\<lparr>mc_unit_id = 1, mc_transaction = 0, mc_connected = True\<rparr>"]
  by (simp add: demo_store_def split: prod.splits)

end
