(* ===== verification/Safety.thy ===== *)
theory Safety
  imports Modbus Layers
begin

text \<open>
  Observing the safety controller and latching halts: the drivers of
  \<^verbatim>\<open>src/fasp_harness/safety/drivers.py\<close> and the supervisor of \<^verbatim>\<open>safety/interlock.py\<close>. A driver is a state
  with its two operations, which may raise; the simulated controller and the Modbus controller are
  two drivers. Clock readings are arguments. What other threads do while a clear is being checked
  is part of the clear operation's input, so the race the code guards against is representable.
\<close>

section \<open>Status samples\<close>

record SafetyStatus =
  ss_reachable :: bool
  ss_estop_clear :: bool
  ss_protective_stop_clear :: bool
  ss_guards_closed :: bool
  ss_reset_required :: bool
  ss_signals :: "(string \<times> bool) list"
  ss_device :: string
  ss_age_ms :: rat
  ss_stale :: bool
  ss_detail :: string

definition safe_to_move :: "SafetyStatus \<Rightarrow> bool" where
  "safe_to_move s \<longleftrightarrow> ss_reachable s \<and> \<not> ss_stale s \<and> ss_estop_clear s \<and> ss_protective_stop_clear s \<and>
     ss_guards_closed s \<and> \<not> ss_reset_required s"

definition unreachable :: "string \<Rightarrow> string \<Rightarrow> SafetyStatus" where
  "unreachable device detail = \<lparr>ss_reachable = False, ss_estop_clear = False, ss_protective_stop_clear = False,
     ss_guards_closed = False, ss_reset_required = True, ss_signals = [], ss_device = device, ss_age_ms = 0,
     ss_stale = True, ss_detail = detail\<rparr>"

text \<open>The driver interface: read the state, ask for a stop.\<close>

record 'd driver =
  dr_device :: string
  dr_read :: "'d \<Rightarrow> 'd \<times> SafetyStatus result"
  dr_stop :: "'d \<Rightarrow> string \<Rightarrow> 'd \<times> bool result"

section \<open>The simulated controller\<close>

record SimulatedSafetyController =
  sc_device :: string
  sc_estop_pressed :: bool
  sc_zone_violated :: bool
  sc_guard_open :: bool
  sc_latched :: bool
  sc_reset_required :: bool
  sc_stop_requests :: "string list"
  sc_unreachable :: bool

definition new_simulated :: "string \<Rightarrow> SimulatedSafetyController" where
  "new_simulated device = \<lparr>sc_device = device, sc_estop_pressed = False, sc_zone_violated = False, sc_guard_open = False,
     sc_latched = False, sc_reset_required = False, sc_stop_requests = [], sc_unreachable = False\<rparr>"

definition press_estop :: "SimulatedSafetyController \<Rightarrow> SimulatedSafetyController" where
  "press_estop c = c\<lparr>sc_estop_pressed := True, sc_latched := True, sc_reset_required := True\<rparr>"

definition release_estop :: "SimulatedSafetyController \<Rightarrow> SimulatedSafetyController" where
  "release_estop c = c\<lparr>sc_estop_pressed := False\<rparr>"

definition set_zone_violated :: "bool \<Rightarrow> SimulatedSafetyController \<Rightarrow> SimulatedSafetyController" where
  "set_zone_violated v c =
     (let c = c\<lparr>sc_zone_violated := v\<rparr> in if v then c\<lparr>sc_latched := True, sc_reset_required := True\<rparr> else c)"

definition set_guard_open :: "bool \<Rightarrow> SimulatedSafetyController \<Rightarrow> SimulatedSafetyController" where
  "set_guard_open v c =
     (let c = c\<lparr>sc_guard_open := v\<rparr> in if v then c\<lparr>sc_latched := True, sc_reset_required := True\<rparr> else c)"

definition set_unreachable :: "bool \<Rightarrow> SimulatedSafetyController \<Rightarrow> SimulatedSafetyController" where
  "set_unreachable v c = c\<lparr>sc_unreachable := v\<rparr>"

definition manual_reset :: "SimulatedSafetyController \<Rightarrow> SimulatedSafetyController \<times> bool" where
  "manual_reset c =
     (if sc_estop_pressed c \<or> sc_zone_violated c \<or> sc_guard_open c then (c, False)
      else (c\<lparr>sc_latched := False, sc_reset_required := False\<rparr>, True))"

definition sim_read_status :: "SimulatedSafetyController \<Rightarrow> SafetyStatus" where
  "sim_read_status c =
     (if sc_unreachable c then unreachable (sc_device c) ''Simulated controller is unreachable.''
      else \<lparr>ss_reachable = True, ss_estop_clear = (\<not> sc_estop_pressed c \<and> \<not> sc_latched c),
            ss_protective_stop_clear = (\<not> sc_zone_violated c \<and> \<not> sc_latched c),
            ss_guards_closed = (\<not> sc_guard_open c), ss_reset_required = sc_reset_required c,
            ss_signals = [(''estop_channel_a'', \<not> sc_estop_pressed c), (''estop_channel_b'', \<not> sc_estop_pressed c),
              (''zone_clear'', \<not> sc_zone_violated c), (''guard_closed'', \<not> sc_guard_open c), (''stop_latched'', sc_latched c)],
            ss_device = sc_device c, ss_age_ms = 0, ss_stale = False, ss_detail = ''''\<rparr>)"

definition sim_request_stop :: "SimulatedSafetyController \<Rightarrow> string \<Rightarrow> SimulatedSafetyController" where
  "sim_request_stop c reason =
     c\<lparr>sc_stop_requests := sc_stop_requests c @ [take 200 reason], sc_latched := True, sc_reset_required := True\<rparr>"

definition sim_driver :: "string \<Rightarrow> SimulatedSafetyController driver" where
  "sim_driver device = \<lparr>dr_device = device, dr_read = (\<lambda>c. (c, Inr (sim_read_status c))),
     dr_stop = (\<lambda>c reason. (sim_request_stop c reason, Inr True))\<rparr>"

section \<open>The Modbus controller\<close>

definition DEFAULT_SAFETY_SIGNALS :: "SignalMapping list" where
  "DEFAULT_SAFETY_SIGNALS =
     [\<lparr>sm_name = ''estop_channel_a'', sm_space = ''discrete_input'', sm_address = 0, sm_active_low = True, sm_safety_relevant = True\<rparr>,
      \<lparr>sm_name = ''estop_channel_b'', sm_space = ''discrete_input'', sm_address = 1, sm_active_low = True, sm_safety_relevant = True\<rparr>,
      \<lparr>sm_name = ''zone_violated'', sm_space = ''discrete_input'', sm_address = 2, sm_active_low = False, sm_safety_relevant = True\<rparr>,
      \<lparr>sm_name = ''guard_open'', sm_space = ''discrete_input'', sm_address = 3, sm_active_low = False, sm_safety_relevant = True\<rparr>,
      \<lparr>sm_name = ''reset_required'', sm_space = ''discrete_input'', sm_address = 4, sm_active_low = False, sm_safety_relevant = True\<rparr>]"

record 'd ModbusSafetyController =
  ms_client :: ModbusTcpClient
  ms_device_state :: 'd
  ms_register_map :: SafetyRegisterMap
  ms_stop_coil :: "int option"

definition signal_or :: "(string \<times> bool) list \<Rightarrow> string \<Rightarrow> bool \<Rightarrow> bool" where
  "signal_or signals name dflt = (case map_of signals name of None \<Rightarrow> dflt | Some b \<Rightarrow> b)"

definition status_of_signals :: "string \<Rightarrow> (string \<times> bool) list \<Rightarrow> SafetyStatus" where
  "status_of_signals device signals =
     (let channel_a = signal_or signals ''estop_channel_a'' False;
          channel_b = signal_or signals ''estop_channel_b'' channel_a;
          channels_agree = (channel_a = channel_b)
      in \<lparr>ss_reachable = True, ss_estop_clear = (channel_a \<and> channel_b \<and> channels_agree),
          ss_protective_stop_clear = (\<not> signal_or signals ''zone_violated'' True),
          ss_guards_closed = (\<not> signal_or signals ''guard_open'' True),
          ss_reset_required = signal_or signals ''reset_required'' False,
          ss_signals = signals, ss_device = device, ss_age_ms = 0, ss_stale = False,
          ss_detail = (if channels_agree then '''' else ''E-stop channel discrepancy: treat as not clear and inspect the circuit.'')\<rparr>)"

text \<open>
  Modbus and protocol errors become an unreachable status, with the error code standing for its
  text; any other exception escapes.
\<close>

definition modbus_read_status ::
    "'d device \<Rightarrow> string \<Rightarrow> 'd ModbusSafetyController \<Rightarrow> 'd ModbusSafetyController \<times> SafetyStatus result" where
  "modbus_read_status dev device m =
     (case map_read dev (ms_client m) (ms_device_state m) (ms_register_map m) of
        (c', d', r) \<Rightarrow>
          (m\<lparr>ms_client := c', ms_device_state := d'\<rparr>,
           case r of
             Inl (FaspError code) \<Rightarrow> Inr (unreachable device code)
           | Inl e \<Rightarrow> Inl e
           | Inr signals \<Rightarrow> Inr (status_of_signals device signals)))"

definition modbus_request_stop ::
    "'d device \<Rightarrow> 'd ModbusSafetyController \<Rightarrow> string \<Rightarrow> 'd ModbusSafetyController \<times> bool result" where
  "modbus_request_stop dev m reason =
     (case ms_stop_coil m of
        None \<Rightarrow> (m, Inr False)
      | Some coil \<Rightarrow>
          (case write_coil dev (ms_client m) (ms_device_state m) coil True of
             (c', d', r) \<Rightarrow>
               (m\<lparr>ms_client := c', ms_device_state := d'\<rparr>,
                case r of Inl (FaspError _) \<Rightarrow> Inr False | Inl e \<Rightarrow> Inl e | Inr _ \<Rightarrow> Inr True)))"

definition modbus_driver :: "'d device \<Rightarrow> string \<Rightarrow> 'd ModbusSafetyController driver" where
  "modbus_driver dev device = \<lparr>dr_device = device, dr_read = modbus_read_status dev device, dr_stop = modbus_request_stop dev\<rparr>"

section \<open>The supervisor\<close>

definition LOCAL_OPERATOR :: string where
  "LOCAL_OPERATOR = ''local-operator''"

definition NETWORK_ORIGINS :: "string set" where
  "NETWORK_ORIGINS = {''peer'', ''network'', ''fleet'', ''cloud'', ''wms'', ''mes'', ''erp'', ''twin'', ''watchdog'', ''supervisor''}"

record SafetyFunction =
  sf_id :: string
  sf_description :: string
  sf_integrity_level :: string
  sf_standard :: string
  sf_implemented_by :: string
  sf_response_time_ms :: "rat option"
  sf_demand_sources :: "string list"
  sf_verified_by :: "string list"
  sf_layer :: Layer

text \<open>\<^verbatim>\<open>__post_init__\<close>: a declaration at another layer is refused.\<close>

definition new_safety_function :: "SafetyFunction \<Rightarrow> SafetyFunction result" where
  "new_safety_function f = (if sf_layer f \<noteq> L1_SAFETY then Inl LayerViolation else Inr f)"

definition implemented_in_software_here :: "SafetyFunction \<Rightarrow> bool" where
  "implemented_in_software_here f \<longleftrightarrow>
     py_lower (py_strip (sf_implemented_by f)) \<in> {''fasp'', ''fasp-harness'', ''this software'', ''software'', ''python''}"

record SafetyDemand =
  sd_sequence :: nat
  sd_source :: string
  sd_origin :: string
  sd_reason :: string
  sd_at :: timestamp
  sd_status :: SafetyStatus
  sd_forwarded :: bool

record 'd SafetySupervisor =
  sv_driver :: "('d driver \<times> 'd) option"
  sv_stale_after_s :: rat
  sv_max_speed_mps :: rat
  sv_require_controller :: bool
  sv_latched :: bool
  sv_sequence :: nat
  sv_demands :: "SafetyDemand list"
  sv_functions :: "string \<rightharpoonup> SafetyFunction"
  sv_last_status :: "SafetyStatus option"
  sv_last_sample :: "rat option"
  sv_poll_failures :: nat

definition register_function :: "'d SafetySupervisor \<Rightarrow> SafetyFunction \<Rightarrow> 'd SafetySupervisor" where
  "register_function s f = s\<lparr>sv_functions := (sv_functions s)(sf_id f \<mapsto> f)\<rparr>"

definition latch_locked ::
    "'d SafetySupervisor \<Rightarrow> timestamp \<Rightarrow> string \<Rightarrow> string \<Rightarrow> string \<Rightarrow> SafetyStatus \<Rightarrow> 'd SafetySupervisor \<times> SafetyDemand" where
  "latch_locked s st source origin reason status =
     (let (drv, forwarded) =
            (case sv_driver s of
               None \<Rightarrow> (None, False)
             | Some (dr, d) \<Rightarrow>
                 (case dr_stop dr d reason of
                    (d', Inr ok) \<Rightarrow> (Some (dr, d'), ok)
                  | (d', Inl e) \<Rightarrow> (Some (dr, d'), False)));
          demand = \<lparr>sd_sequence = sv_sequence s + 1, sd_source = take 120 source, sd_origin = take 60 origin,
                    sd_reason = take 200 reason, sd_at = st, sd_status = status, sd_forwarded = forwarded\<rparr>;
          demands = sv_demands s @ [demand]
      in (s\<lparr>sv_latched := True, sv_sequence := sv_sequence s + 1, sv_driver := drv,
            sv_demands := drop (length demands - 256) demands\<rparr>, demand))"

fun exn_name :: "exn \<Rightarrow> string" where
  "exn_name (FaspError _) = ''FaspError''"
| "exn_name ValueError = ''ValueError''"
| "exn_name IndexError = ''IndexError''"
| "exn_name KeyError = ''KeyError''"
| "exn_name TypeError = ''TypeError''"
| "exn_name StructError = ''error''"
| "exn_name ZeroDivisionError = ''ZeroDivisionError''"
| "exn_name OtherException = ''Exception''"

text \<open>Reading the driver: an exception becomes an unreachable status and is counted.\<close>

definition sample :: "'d SafetySupervisor \<Rightarrow> 'd SafetySupervisor \<times> SafetyStatus" where
  "sample s =
     (case sv_driver s of
        None \<Rightarrow> (s, unreachable ''none'' ''No safety controller driver is configured.'')
      | Some (dr, d) \<Rightarrow>
          (case dr_read dr d of
             (d', Inr status) \<Rightarrow> (s\<lparr>sv_driver := Some (dr, d')\<rparr>, status)
           | (d', Inl e) \<Rightarrow> (s\<lparr>sv_driver := Some (dr, d'), sv_poll_failures := sv_poll_failures s + 1\<rparr>,
                            unreachable (dr_device dr) (''Driver raised '' @ exn_name e @ ''.''))))"

definition sup_poll :: "'d SafetySupervisor \<Rightarrow> rat \<Rightarrow> timestamp \<Rightarrow> 'd SafetySupervisor \<times> SafetyStatus" where
  "sup_poll s mt st =
     (case sample s of
        (s1, status) \<Rightarrow>
          let s2 = s1\<lparr>sv_last_status := Some status, sv_last_sample := Some mt\<rparr>
          in (if ss_reachable status \<and> \<not> safe_to_move status \<and> \<not> sv_latched s2
              then fst (latch_locked s2 st ''safety-controller'' ''controller''
                          (if ss_detail status \<noteq> '''' then ss_detail status else ''Safety controller reports a demand.'') status)
              else s2, status))"

definition current_status :: "'d SafetySupervisor \<Rightarrow> rat \<Rightarrow> SafetyStatus" where
  "current_status s mt =
     (case (sv_last_status s, sv_last_sample s) of
        (Some status, Some sampled) \<Rightarrow>
          (let age_ms = (mt - sampled) * 1000; stale = (age_ms > sv_stale_after_s s * 1000)
           in status\<lparr>ss_age_ms := age_ms, ss_stale := (stale \<or> ss_stale status),
                ss_detail := (if ss_detail status \<noteq> '''' then ss_detail status
                              else if stale then ''Sample is older than the configured staleness budget.'' else '''')\<rparr>)
      | _ \<Rightarrow> unreachable (case sv_driver s of None \<Rightarrow> ''none'' | Some (dr, _) \<Rightarrow> dr_device dr)
               ''The safety controller has never been sampled.'')"

definition demand_halt ::
    "'d SafetySupervisor \<Rightarrow> rat \<Rightarrow> timestamp \<Rightarrow> string \<Rightarrow> string \<Rightarrow> string \<Rightarrow> 'd SafetySupervisor \<times> SafetyDemand" where
  "demand_halt s mt st source reason origin = latch_locked s st source origin reason (current_status s mt)"

text \<open>
  \<open>during\<close> lists the halt demands of other threads that arrive after the controller was polled and
  before the re-check under the lock.
\<close>

fun halt_all :: "'d SafetySupervisor \<Rightarrow> (rat \<times> timestamp \<times> string \<times> string \<times> string) list \<Rightarrow> 'd SafetySupervisor" where
  "halt_all s [] = s"
| "halt_all s ((mt, st, source, reason, origin) # hs) = halt_all (fst (demand_halt s mt st source reason origin)) hs"

record cleared =
  cl_cleared_by :: string
  cl_note :: string
  cl_at :: timestamp
  cl_demands_before_clear :: nat

definition clear ::
    "'d SafetySupervisor \<Rightarrow> rat \<Rightarrow> timestamp \<Rightarrow> (rat \<times> timestamp \<times> string \<times> string \<times> string) list \<Rightarrow> string \<Rightarrow>
     string \<Rightarrow> string \<Rightarrow> 'd SafetySupervisor \<times> cleared result" where
  "clear s mt st during origin operator remark =
     (if origin \<noteq> LOCAL_OPERATOR \<or> origin \<in> NETWORK_ORIGINS then (s, Inl LayerViolation)
      else let sequence_before_poll = sv_sequence s
           in case sup_poll s mt st of
                (s1, status) \<Rightarrow>
                  let s2 = halt_all s1 during
                  in if sv_driver s \<noteq> None \<and> \<not> ss_reachable status then (s2, Inl (FaspError ''safety.precondition_failed''))
                     else if sv_driver s \<noteq> None \<and> \<not> safe_to_move status then (s2, Inl (FaspError ''safety.precondition_failed''))
                     else if sv_sequence s2 \<noteq> sequence_before_poll then (s2, Inl (FaspError ''safety.precondition_failed''))
                     else (s2\<lparr>sv_latched := False\<rparr>,
                           Inr \<lparr>cl_cleared_by = take 120 operator, cl_note = take 200 remark, cl_at = st,
                                cl_demands_before_clear = sv_sequence s2\<rparr>))"

definition permit_motion :: "'d SafetySupervisor \<Rightarrow> rat \<Rightarrow> pyfloat \<Rightarrow> bool \<Rightarrow> unit result" where
  "permit_motion s mt requested_speed reservation_active =
     (let status = current_status s mt;
          rest = (if \<not> reservation_active then Inl (FaspError ''safety.precondition_failed'')
                  else if \<not> (fl_leq (Fin 0) requested_speed \<and> fl_leq requested_speed (Fin (sv_max_speed_mps s)))
                  then Inl (FaspError ''safety.speed_limit'')
                  else Inr ())
      in if sv_latched s then Inl (FaspError ''safety.estop_active'')
         else if sv_driver s = None
         then (if sv_require_controller s then Inl (FaspError ''safety.precondition_failed'') else rest)
         else if \<not> ss_reachable status then Inl (FaspError ''safety.precondition_failed'')
         else if ss_stale status then Inl (FaspError ''safety.precondition_failed'')
         else if \<not> safe_to_move status then Inl (FaspError ''safety.estop_active'')
         else rest)"

definition permitted :: "'d SafetySupervisor \<Rightarrow> rat \<Rightarrow> pyfloat \<Rightarrow> bool \<Rightarrow> bool" where
  "permitted s mt requested_speed reservation_active = is_ok (permit_motion s mt requested_speed reservation_active)"

record safety_report =
  rp_halt_requested :: bool
  rp_halt_reason :: "string option"
  rp_safe_to_move :: bool
  rp_demand_count :: nat
  rp_recent :: "SafetyDemand list"

definition sup_status :: "'d SafetySupervisor \<Rightarrow> rat \<Rightarrow> safety_report" where
  "sup_status s mt =
     (let demands = drop (length (sv_demands s) - 5) (sv_demands s)
      in \<lparr>rp_halt_requested = sv_latched s,
          rp_halt_reason = (if demands = [] then None else Some (sd_reason (last demands))),
          rp_safe_to_move = (\<not> sv_latched s \<and> safe_to_move (current_status s mt)),
          rp_demand_count = sv_sequence s, rp_recent = demands\<rparr>)"

section \<open>Operations as steps\<close>

datatype sup_op =
    OpPoll rat timestamp
  | OpHalt rat timestamp string string string
  | OpClear rat timestamp "(rat \<times> timestamp \<times> string \<times> string \<times> string) list" string string string

fun sup_apply :: "'d SafetySupervisor \<Rightarrow> sup_op \<Rightarrow> 'd SafetySupervisor" where
  "sup_apply s (OpPoll mt st) = fst (sup_poll s mt st)"
| "sup_apply s (OpHalt mt st source reason origin) = fst (demand_halt s mt st source reason origin)"
| "sup_apply s (OpClear mt st during origin operator remark) = fst (clear s mt st during origin operator remark)"

fun local_clear :: "sup_op \<Rightarrow> bool" where
  "local_clear (OpClear _ _ _ origin _ _) = (origin = LOCAL_OPERATOR)"
| "local_clear _ = False"

section \<open>Lemmas\<close>

lemma unreachable_unsafe [simp]: "\<not> safe_to_move (unreachable device detail)"
  by (simp add: safe_to_move_def unreachable_def)

lemma local_not_network [simp]: "LOCAL_OPERATOR \<notin> NETWORK_ORIGINS"
  by (simp add: LOCAL_OPERATOR_def NETWORK_ORIGINS_def)

lemma latch_locked_simps [simp]:
  "sv_latched (fst (latch_locked s st source origin reason status))"
  "sv_sequence (fst (latch_locked s st source origin reason status)) = sv_sequence s + 1"
  by (auto simp: latch_locked_def Let_def split: prod.split)

lemma sample_simps [simp]:
  "sv_latched (fst (sample s)) = sv_latched s" "sv_sequence (fst (sample s)) = sv_sequence s"
  "sv_demands (fst (sample s)) = sv_demands s"
  by (auto simp: sample_def split: option.split prod.split sum.split)

lemma sup_poll_latched: "sv_latched s \<Longrightarrow> sv_latched (fst (sup_poll s mt st)) \<and> sv_sequence (fst (sup_poll s mt st)) = sv_sequence s"
  using sample_simps [of s] by (auto simp: sup_poll_def Let_def split_beta)

lemma halt_all_sequence: "sv_sequence (halt_all s during) = sv_sequence s + length during"
  by (induction s during rule: halt_all.induct) (auto simp: demand_halt_def)

lemma halt_all_latched: "sv_latched s \<or> during \<noteq> [] \<Longrightarrow> sv_latched (halt_all s during)"
  by (induction s during rule: halt_all.induct) (auto simp: demand_halt_def)

lemma clear_refused_keeps:
  assumes "sv_latched s" and "origin \<noteq> LOCAL_OPERATOR"
  shows "fst (clear s mt st during origin operator remark) = s"
  using assms by (simp add: clear_def)

lemma latch_kept:
  "sv_latched s \<Longrightarrow> \<not> local_clear op \<Longrightarrow> sv_latched (sup_apply s op)"
  by (cases op) (simp_all add: sup_poll_latched demand_halt_def clear_refused_keeps)

lemma latch_kept_all:
  "sv_latched s \<Longrightarrow> \<forall>op \<in> set ops. \<not> local_clear op \<Longrightarrow> sv_latched (fold (\<lambda>op s. sup_apply s op) ops s)"
  by (induction ops arbitrary: s) (simp_all add: latch_kept)

text \<open>The bounded history: the last demands, the newest numbered with the total count.\<close>

definition history_ok :: "'d SafetySupervisor \<Rightarrow> bool" where
  "history_ok s \<longleftrightarrow> length (sv_demands s) = min 256 (sv_sequence s) \<and>
     (\<forall>i < length (sv_demands s). sd_sequence (sv_demands s ! i) = sv_sequence s - length (sv_demands s) + i + 1)"

lemma history_latch: "history_ok s \<Longrightarrow> history_ok (fst (latch_locked s st source origin reason status))"
proof -
  assume h: "history_ok s"
  define demand where "demand = snd (latch_locked s st source origin reason status)"
  have eq: "sv_demands (fst (latch_locked s st source origin reason status)) =
      drop (length (sv_demands s @ [demand]) - 256) (sv_demands s @ [demand])"
      and sq: "sd_sequence demand = sv_sequence s + 1"
    by (simp_all add: demand_def latch_locked_def Let_def split_beta)
  have n: "length (sv_demands s) = min 256 (sv_sequence s)" using h by (simp add: history_ok_def)
  have old: "sd_sequence (sv_demands s ! j) = sv_sequence s - length (sv_demands s) + j + 1" if "j < length (sv_demands s)" for j
    using h that by (simp add: history_ok_def)
  let ?ds = "drop (length (sv_demands s @ [demand]) - 256) (sv_demands s @ [demand])"
  have len: "length ?ds = min 256 (sv_sequence s + 1)" using n by simp
  have "sd_sequence (?ds ! i) = sv_sequence s + 1 - length ?ds + i + 1" if "i < length ?ds" for i
  proof (cases "length (sv_demands s) < 256")
    case True
    with that n len old [of i] sq show ?thesis by (auto simp: nth_append less_Suc_eq)
  next
    case False
    then have "?ds = drop 1 (sv_demands s) @ [demand]" using n by simp
    with that n len False old [of "Suc i"] sq show ?thesis by (auto simp: nth_append less_Suc_eq)
  qed
  with len show "history_ok (fst (latch_locked s st source origin reason status))"
    unfolding history_ok_def eq latch_locked_simps by blast
qed

lemma history_frame: "sv_demands t = sv_demands s \<Longrightarrow> sv_sequence t = sv_sequence s \<Longrightarrow> history_ok s \<Longrightarrow> history_ok t"
  by (simp add: history_ok_def)

lemma history_poll: "history_ok s \<Longrightarrow> history_ok (fst (sup_poll s mt st))"
proof -
  assume h: "history_ok s"
  let ?s = "(fst (sample s))\<lparr>sv_last_status := Some (snd (sample s)), sv_last_sample := Some mt\<rparr>"
  have "history_ok ?s" using h by (rule history_frame [rotated 2]) simp_all
  then show ?thesis by (simp add: sup_poll_def split_beta Let_def history_latch)
qed

lemma history_halts: "history_ok s \<Longrightarrow> history_ok (halt_all s during)"
  by (induction s during rule: halt_all.induct) (auto simp: demand_halt_def history_latch)

lemma history_clear: "history_ok s \<Longrightarrow> history_ok (fst (clear s mt st during origin operator remark))"
  using history_halts [OF history_poll, of s mt st during]
  by (auto simp: clear_def Let_def split_beta history_ok_def)

lemma history_apply: "history_ok s \<Longrightarrow> history_ok (sup_apply s op)"
  by (cases op) (simp_all add: history_poll history_clear history_latch demand_halt_def)

section \<open>Drivers that honour a stop request\<close>

text \<open>
  What a supervisor may expect of a controller with a request input: once a request was delivered
  the controller does not report itself safe. The client's lemma: a halt that was forwarded cannot
  be cleared before the controller itself has been reset.
\<close>

locale stopping_driver =
  fixes drv :: "'d driver"
  assumes stop_delivered: "dr_stop drv d reason = (d', Inr True) \<Longrightarrow> \<not> (\<exists>d'' st. dr_read drv d' = (d'', Inr st) \<and> safe_to_move st)"
begin

lemma forwarded_halt_not_clearable:
  assumes "sv_driver s = Some (drv, d)"
    and "demand_halt s mt st source reason origin = (s1, demand)" and "sd_forwarded demand"
  shows "\<not> is_ok (snd (clear s1 mt' st' during origin' operator remark))"
proof -
  obtain d' where stop: "dr_stop drv d reason = (d', Inr True)" and s1: "sv_driver s1 = Some (drv, d')"
    using assms by (auto simp: demand_halt_def latch_locked_def Let_def split: prod.splits sum.splits)
  have "\<not> safe_to_move (snd (sample s1))"
    using stop_delivered [OF stop] s1 by (auto simp: sample_def unreachable_def safe_to_move_def split: prod.split sum.split)
  then show ?thesis
    using s1 by (auto simp: clear_def sup_poll_def Let_def split_beta)
qed

end

interpretation simulated: stopping_driver "sim_driver device"
proof unfold_locales
  fix d d' :: SimulatedSafetyController and reason
  assume "dr_stop (sim_driver device) d reason = (d', Inr True)"
  then have "d' = sim_request_stop d reason" by (simp add: sim_driver_def)
  then show "\<not> (\<exists>d'' st. dr_read (sim_driver device) d' = (d'', Inr st) \<and> safe_to_move st)"
    by (cases "sc_unreachable d") (simp_all add: sim_driver_def sim_request_stop_def sim_read_status_def, simp add: safe_to_move_def)
qed

section \<open>Properties\<close>

text \<open>
  A latched halt stays latched against everything a network can do: through any sequence of
  polls, halts and attempts to clear from any origin other than the local operator, motion is
  refused at every moment, whatever the controller reports.
\<close>

theorem latched_halt_refuses_motion:
  assumes "sv_latched s" and "\<forall>op \<in> set ops. \<not> local_clear op"
  shows "permit_motion (fold (\<lambda>op s. sup_apply s op) ops s) mt speed reservation = Inl (FaspError ''safety.estop_active'')"
  using latch_kept_all [OF assms] by (simp add: permit_motion_def)

definition demo_supervisor :: "SimulatedSafetyController SafetySupervisor" where
  "demo_supervisor = \<lparr>sv_driver = Some (sim_driver ''plc'', new_simulated ''plc''), sv_stale_after_s = 2, sv_max_speed_mps = 3/2,
     sv_require_controller = True, sv_latched = False, sv_sequence = 0, sv_demands = [], sv_functions = Map.empty,
     sv_last_status = None, sv_last_sample = None, sv_poll_failures = 0\<rparr>"

theorem latched_halt_refuses_motion_witness:
  "permit_motion (fold (\<lambda>op s. sup_apply s op) [OpClear 1 1 [] ''peer'' ''mallory'' '''', OpPoll 2 2]
     (fst (demand_halt demo_supervisor 0 0 ''agv-2'' ''obstacle'' ''peer''))) 3 (Fin 0) True =
   Inl (FaspError ''safety.estop_active'')"
  by (rule latched_halt_refuses_motion) (simp_all add: demand_halt_def LOCAL_OPERATOR_def)



text \<open>
  Motion is permitted exactly when no halt is latched, a controller that must be observable
  was sampled recently enough and says in every channel that it is safe (or there is none and none
  is required), a reservation is active, and the requested speed is a number between zero and the
  limit. A speed that is not a number is refused.
\<close>

theorem permit_motion_iff:
  "permit_motion s mt speed reservation = Inr () \<longleftrightarrow>
     \<not> sv_latched s \<and> reservation \<and> (\<exists>v. speed = Fin v \<and> 0 \<le> v \<and> v \<le> sv_max_speed_mps s) \<and>
     (case sv_driver s of
        None \<Rightarrow> \<not> sv_require_controller s
      | Some _ \<Rightarrow> \<exists>status sampled. sv_last_status s = Some status \<and> sv_last_sample s = Some sampled \<and>
                   safe_to_move status \<and> mt - sampled \<le> sv_stale_after_s s)"
proof -
  have speed: "fl_leq (Fin 0) speed \<and> fl_leq speed (Fin (sv_max_speed_mps s)) \<longleftrightarrow> (\<exists>v. speed = Fin v \<and> 0 \<le> v \<and> v \<le> sv_max_speed_mps s)"
    by (cases speed) auto
  have status: "ss_reachable (current_status s mt) \<and> \<not> ss_stale (current_status s mt) \<and> safe_to_move (current_status s mt) \<longleftrightarrow>
      (\<exists>status sampled. sv_last_status s = Some status \<and> sv_last_sample s = Some sampled \<and>
         safe_to_move status \<and> mt - sampled \<le> sv_stale_after_s s)"
    by (cases "sv_last_status s"; cases "sv_last_sample s")
       (auto simp: current_status_def unreachable_def safe_to_move_def Let_def not_less)
  show ?thesis
    unfolding permit_motion_def Let_def speed using status by (cases "sv_driver s") auto
qed

text \<open>
  The demand history is bounded and honest: starting from an empty history, after any sequence
  of operations the supervisor keeps the most recent 256 demands, numbered consecutively up to the
  total count, which counts every demand ever latched.
\<close>

theorem demand_history_bounded:
  assumes "sv_demands s = []" and "sv_sequence s = 0"
  shows "history_ok (fold (\<lambda>op s. sup_apply s op) ops s)"
proof -
  have "history_ok s" using assms by (simp add: history_ok_def)
  then show ?thesis by (induction ops arbitrary: s) (simp_all add: history_apply)
qed

theorem demand_history_bounded_witness:
  "history_ok (fold (\<lambda>op s. sup_apply s op) [OpHalt 0 0 ''a'' ''b'' ''peer'', OpPoll 1 1] demo_supervisor)"
  by (rule demand_history_bounded) (simp_all add: demo_supervisor_def)

text \<open>
  A halt forwarded to the simulated controller cannot be cleared, by anybody and at any time
  before the controller itself is reset at the machine.
\<close>

theorem forwarded_halt_needs_local_reset:
  assumes "sv_driver s = Some (sim_driver device, c)"
  shows "\<not> is_ok (snd (clear (fst (demand_halt s mt st source reason origin)) mt' st' during origin' operator remark))"
proof -
  obtain s1 demand where d: "demand_halt s mt st source reason origin = (s1, demand)" by fastforce
  then have "sd_forwarded demand"
    using assms by (auto simp: demand_halt_def latch_locked_def sim_driver_def Let_def)
  from simulated.forwarded_halt_not_clearable [OF assms d this] d show ?thesis by simp
qed

theorem forwarded_halt_needs_local_reset_witness:
  "\<not> is_ok (snd (clear (fst (demand_halt demo_supervisor 0 0 ''agv'' ''r'' ''peer'')) 1 1 [] LOCAL_OPERATOR ''op'' ''''))"
  by (rule forwarded_halt_needs_local_reset) (simp add: demo_supervisor_def)

text \<open>
  With the shipped signal map a controller whose inputs all read zero, as they do when every
  wire of the safety circuit is cut, is reported safe to move: only the two E-stop channels are
  inverted, and the inversion makes the broken channel read as clear.
\<close>

theorem cut_wires_read_safe:
  "case snd (modbus_read_status serve_frame ''plc''
      \<lparr>ms_client = \<lparr>mc_unit_id = 1, mc_transaction = 0, mc_connected = True\<rparr>,
       ms_device_state = \<lparr>ds_coils = Map.empty, ds_discrete_inputs = (\<lambda>_. Some False), ds_holding_registers = Map.empty,
         ds_input_registers = Map.empty, ds_read_only_coils = {}\<rparr>,
       ms_register_map = DEFAULT_SAFETY_SIGNALS, ms_stop_coil = None\<rparr>) of
     Inr status \<Rightarrow> safe_to_move status \<and> map snd (ss_signals status) = [True, True, False, False, False]
   | Inl e \<Rightarrow> False"
proof -
  let ?c = "\<lparr>mc_unit_id = 1, mc_transaction = 0, mc_connected = True\<rparr>"
  let ?d = "\<lparr>ds_coils = Map.empty, ds_discrete_inputs = (\<lambda>_. Some False), ds_holding_registers = Map.empty,
    ds_input_registers = Map.empty, ds_read_only_coils = {}\<rparr>"
  obtain c' where "client_read_bits 0x02 serve_frame ?c ?d 0 5 = (c', ?d, Inr (read_bits (\<lambda>_. Some False) 0 5))"
    using client_read_bits_server [of "0x02" 0 5 ?c ?d] by auto
  moreover have "read_bits (\<lambda>_. Some False) 0 5 = [False, False, False, False, False]" by (simp add: read_bits_def upt_rec)
  moreover have "Min {0, 1, 2, 3, 4 :: int} = 0" "Max {0, 1, 2, 3, 4 :: int} = 4" by simp_all
  ultimately have "snd (snd (map_read serve_frame ?c ?d DEFAULT_SAFETY_SIGNALS)) =
      Inr [(''estop_channel_a'', True), (''estop_channel_b'', True), (''zone_violated'', False), (''guard_open'', False), (''reset_required'', False)]"
    by (simp add: map_read_def read_space_def DEFAULT_SAFETY_SIGNALS_def read_discrete_inputs_def evaluate_def Let_def)
  then show ?thesis
    by (simp add: modbus_read_status_def split_beta status_of_signals_def signal_or_def safe_to_move_def Let_def)
qed

end
