(* ===== verification/Lease.thy ===== *)
theory Lease
  imports Prelude
begin

text \<open>
  Leader election with fencing tokens: \<^verbatim>\<open>src/fasp_harness/edge/lease.py\<close>. The \<^verbatim>\<open>leases\<close> table is a map
  from role names to rows (the name is its primary key), shared by every node; each node has its
  own \<open>LeaderLease\<close> object with the proof of leadership it holds. Two step relations run any
  number of nodes against one table: one in which every call reads an arbitrary clock, and one in
  which all nodes read the same clock, which never runs backwards.
\<close>

section \<open>State\<close>

record FencedOperation =
  fo_name :: string
  fo_holder :: string
  fo_fence :: int
  fo_expires_at_ms :: int

record lease_row =
  lr_holder :: string
  lr_fence :: int
  lr_acquired_at :: timestamp
  lr_renewed_at :: timestamp
  lr_expires_at_ms :: int
  lr_metadata :: "json option"

type_synonym lease_table = "string \<rightharpoonup> lease_row"

record LeaderLease =
  ll_name :: string
  ll_node_id :: string
  ll_ttl_ms :: int
  ll_held :: "FencedOperation option"

text \<open>What the callbacks \<^verbatim>\<open>on_acquire\<close> and \<^verbatim>\<open>on_lose\<close> are told.\<close>

datatype lease_event = OnAcquire FencedOperation | OnLose

section \<open>Operations\<close>

definition valid_now :: "FencedOperation \<Rightarrow> int \<Rightarrow> bool" where
  "valid_now op now_ms = (now_ms < fo_expires_at_ms op)"

definition new_leader_lease :: "string \<Rightarrow> string \<Rightarrow> rat \<Rightarrow> LeaderLease result" where
  "new_leader_lease name node_id ttl_s =
     (if ttl_s \<le> 0 then Inl ValueError
      else Inr \<lparr>ll_name = name, ll_node_id = node_id, ll_ttl_ms = \<lfloor>ttl_s * 1000\<rfloor>, ll_held = None\<rparr>)"

text \<open>
  The transaction of \<^verbatim>\<open>try_acquire\<close>: the table afterwards, the operation minted, and whether the
  term changed. \<open>st\<close> is what \<^verbatim>\<open>stamp()\<close> returns.
\<close>

definition acquire_txn ::
    "lease_table \<Rightarrow> LeaderLease \<Rightarrow> int \<Rightarrow> timestamp \<Rightarrow> json option \<Rightarrow> lease_table \<times> FencedOperation option \<times> bool" where
  "acquire_txn db l now_ms st metadata =
     (let expires = now_ms + ll_ttl_ms l in
      case db (ll_name l) of
        None \<Rightarrow>
          (db(ll_name l \<mapsto> \<lparr>lr_holder = ll_node_id l, lr_fence = 1, lr_acquired_at = st, lr_renewed_at = st,
                           lr_expires_at_ms = expires, lr_metadata = metadata\<rparr>),
           Some \<lparr>fo_name = ll_name l, fo_holder = ll_node_id l, fo_fence = 1, fo_expires_at_ms = expires\<rparr>, True)
      | Some row \<Rightarrow>
          (if lr_holder row = ll_node_id l \<and> lr_expires_at_ms row > now_ms
           then (db(ll_name l \<mapsto> row\<lparr>lr_renewed_at := st, lr_expires_at_ms := expires\<rparr>),
                 Some \<lparr>fo_name = ll_name l, fo_holder = ll_node_id l, fo_fence = lr_fence row,
                       fo_expires_at_ms = expires\<rparr>, False)
           else if lr_expires_at_ms row \<le> now_ms
           then (db(ll_name l \<mapsto> row\<lparr>lr_holder := ll_node_id l, lr_fence := lr_fence row + 1, lr_acquired_at := st,
                                   lr_renewed_at := st, lr_expires_at_ms := expires, lr_metadata := metadata\<rparr>),
                 Some \<lparr>fo_name = ll_name l, fo_holder = ll_node_id l, fo_fence = lr_fence row + 1,
                       fo_expires_at_ms = expires\<rparr>, True)
           else (db, None, False)))"

definition try_acquire ::
    "lease_table \<Rightarrow> LeaderLease \<Rightarrow> int \<Rightarrow> timestamp \<Rightarrow> json option \<Rightarrow>
     lease_table \<times> LeaderLease \<times> FencedOperation option \<times> lease_event list" where
  "try_acquire db l now_ms st metadata =
     (case acquire_txn db l now_ms st metadata of
        (db', acquired, changed) \<Rightarrow>
          (db', l\<lparr>ll_held := acquired\<rparr>, acquired,
           (if acquired = None \<and> ll_held l \<noteq> None then [OnLose] else []) @
           (case acquired of Some op \<Rightarrow> if changed then [OnAcquire op] else [] | None \<Rightarrow> [])))"

definition release :: "lease_table \<Rightarrow> LeaderLease \<Rightarrow> lease_table \<times> LeaderLease \<times> bool \<times> lease_event list" where
  "release db l =
     (case db (ll_name l) of
        Some row \<Rightarrow>
          (if lr_holder row \<noteq> ll_node_id l then (db, l\<lparr>ll_held := None\<rparr>, False, [])
           else (db(ll_name l \<mapsto> row\<lparr>lr_expires_at_ms := 0, lr_fence := lr_fence row + 1\<rparr>),
                 l\<lparr>ll_held := None\<rparr>, True, [OnLose]))
      | None \<Rightarrow> (db, l\<lparr>ll_held := None\<rparr>, False, []))"

definition is_leader :: "LeaderLease \<Rightarrow> int \<Rightarrow> bool" where
  "is_leader l now_ms = (case ll_held l of None \<Rightarrow> False | Some op \<Rightarrow> valid_now op now_ms)"

definition held :: "LeaderLease \<Rightarrow> int \<Rightarrow> FencedOperation result" where
  "held l now_ms =
     (case ll_held l of
        None \<Rightarrow> Inl LeaseLost
      | Some op \<Rightarrow> if \<not> valid_now op now_ms then Inl LeaseLost else Inr op)"

definition guard :: "lease_table \<Rightarrow> int \<Rightarrow> FencedOperation \<Rightarrow> unit result" where
  "guard db now_ms operation =
     (case db (fo_name operation) of
        None \<Rightarrow> Inl LeaseLost
      | Some row \<Rightarrow>
          if lr_fence row > fo_fence operation then Inl LeaseLost
          else if lr_holder row \<noteq> fo_holder operation \<or> lr_expires_at_ms row \<le> now_ms then Inl LeaseLost
          else Inr ())"

record lease_view =
  lv_name :: string
  lv_acquired_at :: "timestamp option"
  lv_renewed_at :: "timestamp option"
  lv_holder :: "string option"
  lv_fence :: int
  lv_expires_in_ms :: "int option"
  lv_healthy :: bool
  lv_self_is_leader :: bool

definition observe :: "lease_table \<Rightarrow> LeaderLease \<Rightarrow> int \<Rightarrow> lease_view" where
  "observe db l now_ms =
     (case db (ll_name l) of
        None \<Rightarrow> \<lparr>lv_name = ll_name l, lv_acquired_at = None, lv_renewed_at = None, lv_holder = None, lv_fence = 0, lv_expires_in_ms = None, lv_healthy = False, lv_self_is_leader = False\<rparr>
      | Some row \<Rightarrow>
          \<lparr>lv_name = ll_name l, lv_acquired_at = Some (lr_acquired_at row),
           lv_renewed_at = Some (lr_renewed_at row), lv_holder = Some (lr_holder row), lv_fence = lr_fence row,
           lv_expires_in_ms = Some (lr_expires_at_ms row - now_ms),
           lv_healthy = (lr_expires_at_ms row > now_ms),
           lv_self_is_leader = (lr_holder row = ll_node_id l \<and> lr_expires_at_ms row > now_ms)\<rparr>)"

section \<open>Many nodes, one table\<close>

text \<open>
  \<open>ls_nodes n\<close> is the lease object of the node with identifier \<open>n\<close>; \<open>ls_minted\<close> collects
  every operation any node was ever given, also those their holders have long lost.
\<close>

record lease_sys =
  ls_db :: lease_table
  ls_nodes :: "string \<Rightarrow> LeaderLease"
  ls_minted :: "FencedOperation set"
  ls_clock :: int

definition sys_acquire :: "lease_sys \<Rightarrow> string \<Rightarrow> int \<Rightarrow> timestamp \<Rightarrow> json option \<Rightarrow> lease_sys" where
  "sys_acquire s n now_ms st metadata =
     (case try_acquire (ls_db s) (ls_nodes s n) now_ms st metadata of
        (db', l', acquired, events) \<Rightarrow>
          s\<lparr>ls_db := db', ls_nodes := (ls_nodes s)(n := l'),
            ls_minted := ls_minted s \<union> set_option acquired\<rparr>)"

definition sys_release :: "lease_sys \<Rightarrow> string \<Rightarrow> lease_sys" where
  "sys_release s n =
     (case release (ls_db s) (ls_nodes s n) of
        (db', l', released, events) \<Rightarrow> s\<lparr>ls_db := db', ls_nodes := (ls_nodes s)(n := l')\<rparr>)"

definition lease_init :: "lease_sys \<Rightarrow> bool" where
  "lease_init s \<longleftrightarrow> ls_db s = Map.empty \<and> ls_minted s = {} \<and>
     (\<forall>n. ll_node_id (ls_nodes s n) = n \<and> ll_held (ls_nodes s n) = None \<and> ll_ttl_ms (ls_nodes s n) \<ge> 0)"

inductive lease_step :: "lease_sys \<Rightarrow> lease_sys \<Rightarrow> bool" where
  acquire_any: "lease_step s (sys_acquire s n now_ms st metadata)"
| release_any: "lease_step s (sys_release s n)"

inductive lease_clock_step :: "lease_sys \<Rightarrow> lease_sys \<Rightarrow> bool" where
  acquire_clock: "lease_clock_step s (sys_acquire s n (ls_clock s) st metadata)"
| release_clock: "lease_clock_step s (sys_release s n)"
| tick: "0 \<le> d \<Longrightarrow> lease_clock_step s (s\<lparr>ls_clock := ls_clock s + d\<rparr>)"

inductive_cases lease_clock_stepE: "lease_clock_step s t"

text \<open>The system the witnesses start from: every node campaigns for one role with a 15 s term.\<close>

definition demo_sys :: lease_sys where
  "demo_sys = \<lparr>ls_db = Map.empty,
     ls_nodes = (\<lambda>n. \<lparr>ll_name = ''fleet'', ll_node_id = n, ll_ttl_ms = 15000, ll_held = None\<rparr>),
     ls_minted = {}, ls_clock = 0\<rparr>"

section \<open>Fences\<close>

text \<open>
  The invariant behind the fencing argument: no operation carries a fence beyond the stored one,
  one with the stored fence belongs to the stored holder, and a fence names one holder per role.
\<close>

definition fence_inv :: "lease_sys \<Rightarrow> bool" where
  "fence_inv s \<longleftrightarrow>
     (\<forall>n. ll_node_id (ls_nodes s n) = n) \<and>
     (\<forall>op \<in> ls_minted s. \<exists>row. ls_db s (fo_name op) = Some row \<and> fo_fence op \<le> lr_fence row \<and>
        (fo_fence op = lr_fence row \<longrightarrow> fo_holder op = lr_holder row)) \<and>
     (\<forall>op \<in> ls_minted s. \<forall>op' \<in> ls_minted s.
        fo_name op = fo_name op' \<and> fo_fence op = fo_fence op' \<longrightarrow> fo_holder op = fo_holder op')"

text \<open>
  With one clock for all nodes: a held, unexpired proof agrees with the stored row.
\<close>

definition clock_inv :: "lease_sys \<Rightarrow> bool" where
  "clock_inv s \<longleftrightarrow>
     (\<forall>n. ll_node_id (ls_nodes s n) = n \<and> ll_ttl_ms (ls_nodes s n) \<ge> 0) \<and>
     (\<forall>n op. ll_held (ls_nodes s n) = Some op \<longrightarrow>
        fo_name op = ll_name (ls_nodes s n) \<and> fo_holder op = n \<and>
        (ls_clock s < fo_expires_at_ms op \<longrightarrow>
           (\<exists>row. ls_db s (fo_name op) = Some row \<and> lr_holder row = n \<and> lr_fence row = fo_fence op \<and>
              lr_expires_at_ms row = fo_expires_at_ms op)))"

lemmas acquire_defs = sys_acquire_def try_acquire_def acquire_txn_def Let_def

lemma fence_inv_init: "lease_init s \<Longrightarrow> fence_inv s"
  by (simp add: lease_init_def fence_inv_def)

text \<open>The two outcomes of \<^verbatim>\<open>try_acquire\<close>: another node's term is still running, or a row is written.\<close>

lemma acquire_txn_cases:
  obtains (refused) old where "db (ll_name l) = Some old" "lr_holder old \<noteq> ll_node_id l"
      "now_ms < lr_expires_at_ms old" "acquire_txn db l now_ms st md = (db, None, False)"
  | (granted) op row changed where "acquire_txn db l now_ms st md = (db(ll_name l \<mapsto> row), Some op, changed)"
      "fo_name op = ll_name l" "fo_holder op = ll_node_id l" "lr_holder row = ll_node_id l"
      "fo_fence op = lr_fence row" "fo_expires_at_ms op = lr_expires_at_ms row"
      "lr_expires_at_ms row = now_ms + ll_ttl_ms l"
      "\<And>old. db (ll_name l) = Some old \<Longrightarrow>
         (lr_fence old < lr_fence row \<and> lr_expires_at_ms old \<le> now_ms) \<or>
         (lr_fence old = lr_fence row \<and> lr_holder old = ll_node_id l)"
proof (cases "db (ll_name l)")
  case None
  then show ?thesis
    by (intro granted, simp add: acquire_txn_def Let_def) simp_all
next
  case (Some old)
  consider "lr_holder old = ll_node_id l" "lr_expires_at_ms old > now_ms"
    | "lr_expires_at_ms old \<le> now_ms"
    | "lr_holder old \<noteq> ll_node_id l" "lr_expires_at_ms old > now_ms"
    by linarith
  then show ?thesis
  proof cases
    case 1
    with Some show ?thesis
      by (intro granted [where row = "old\<lparr>lr_renewed_at := st, lr_expires_at_ms := now_ms + ll_ttl_ms l\<rparr>"
            and op = "\<lparr>fo_name = ll_name l, fo_holder = ll_node_id l, fo_fence = lr_fence old,
                       fo_expires_at_ms = now_ms + ll_ttl_ms l\<rparr>" and changed = False])
         (simp_all add: acquire_txn_def Let_def)
  next
    case 2
    with Some show ?thesis by (intro granted, simp add: acquire_txn_def Let_def) simp_all
  next
    case 3
    with Some show ?thesis by (intro refused) (simp_all add: acquire_txn_def Let_def)
  qed
qed

lemma sys_acquire_cases:
  obtains (refused) old where "ls_db s (ll_name (ls_nodes s n)) = Some old"
      "lr_holder old \<noteq> ll_node_id (ls_nodes s n)" "now_ms < lr_expires_at_ms old"
      "sys_acquire s n now_ms st md = s\<lparr>ls_nodes := (ls_nodes s)(n := (ls_nodes s n)\<lparr>ll_held := None\<rparr>)\<rparr>"
  | (granted) op row where
      "sys_acquire s n now_ms st md =
         s\<lparr>ls_db := (ls_db s)(fo_name op \<mapsto> row), ls_nodes := (ls_nodes s)(n := (ls_nodes s n)\<lparr>ll_held := Some op\<rparr>),
           ls_minted := insert op (ls_minted s)\<rparr>"
      "fo_name op = ll_name (ls_nodes s n)" "fo_holder op = ll_node_id (ls_nodes s n)"
      "lr_holder row = fo_holder op" "fo_fence op = lr_fence row" "fo_expires_at_ms op = lr_expires_at_ms row"
      "\<And>old. ls_db s (fo_name op) = Some old \<Longrightarrow>
         (lr_fence old < lr_fence row \<and> lr_expires_at_ms old \<le> now_ms) \<or>
         (lr_fence old = lr_fence row \<and> lr_holder old = fo_holder op)"
proof (cases rule: acquire_txn_cases [of "ls_db s" "ls_nodes s n" now_ms st md])
  case (refused old)
  then show ?thesis by (intro that(1)) (simp_all add: sys_acquire_def try_acquire_def)
next
  case (granted op row changed)
  note g = this
  show ?thesis
  proof (rule that(2))
    show "sys_acquire s n now_ms st md =
       s\<lparr>ls_db := (ls_db s)(fo_name op \<mapsto> row), ls_nodes := (ls_nodes s)(n := (ls_nodes s n)\<lparr>ll_held := Some op\<rparr>),
         ls_minted := insert op (ls_minted s)\<rparr>"
      by (simp add: sys_acquire_def try_acquire_def g(1,2))
    show "(lr_fence old < lr_fence row \<and> lr_expires_at_ms old \<le> now_ms) \<or>
        (lr_fence old = lr_fence row \<and> lr_holder old = fo_holder op)" if "ls_db s (fo_name op) = Some old" for old
      using g(8) [of old] that unfolding g(2,3) by blast
  qed (simp_all only: g)
qed

lemma sys_release_cases:
  obtains (kept) "sys_release s n = s\<lparr>ls_nodes := (ls_nodes s)(n := (ls_nodes s n)\<lparr>ll_held := None\<rparr>)\<rparr>"
  | (released) old row where
      "sys_release s n = s\<lparr>ls_db := (ls_db s)(ll_name (ls_nodes s n) \<mapsto> row),
         ls_nodes := (ls_nodes s)(n := (ls_nodes s n)\<lparr>ll_held := None\<rparr>)\<rparr>"
      "ls_db s (ll_name (ls_nodes s n)) = Some old" "lr_fence row = lr_fence old + 1"
      "lr_holder old = ll_node_id (ls_nodes s n)"
proof (cases "ls_db s (ll_name (ls_nodes s n))")
  case None
  then show ?thesis by (intro kept) (simp add: sys_release_def release_def)
next
  case (Some old)
  show ?thesis
  proof (cases "lr_holder old = ll_node_id (ls_nodes s n)")
    case True
    with Some show ?thesis by (intro released, simp add: sys_release_def release_def) simp_all
  next
    case False
    with Some show ?thesis by (intro kept) (simp add: sys_release_def release_def)
  qed
qed

lemma sys_acquire_frame [simp]:
  "ll_node_id (ls_nodes (sys_acquire s n now_ms st md) m) = ll_node_id (ls_nodes s m)"
  "ll_name (ls_nodes (sys_acquire s n now_ms st md) m) = ll_name (ls_nodes s m)"
  "ll_ttl_ms (ls_nodes (sys_acquire s n now_ms st md) m) = ll_ttl_ms (ls_nodes s m)"
  "ls_clock (sys_acquire s n now_ms st md) = ls_clock s"
  by (cases rule: sys_acquire_cases [of s n now_ms st md]; simp)+

lemma sys_release_frame [simp]:
  "ll_node_id (ls_nodes (sys_release s n) m) = ll_node_id (ls_nodes s m)"
  "ll_name (ls_nodes (sys_release s n) m) = ll_name (ls_nodes s m)"
  "ll_ttl_ms (ls_nodes (sys_release s n) m) = ll_ttl_ms (ls_nodes s m)"
  "ls_clock (sys_release s n) = ls_clock s"
  "ls_minted (sys_release s n) = ls_minted s"
  by (cases rule: sys_release_cases [of s n]; simp)+

lemma row_kept_or_raised:
  assumes "lease_step s t" and "ls_db s name = Some old"
  shows "\<exists>row. ls_db t name = Some row \<and> lr_fence old \<le> lr_fence row"
  using assms(1)
proof cases
  case (acquire_any n now_ms st md)
  show ?thesis
  proof (cases rule: sys_acquire_cases [of s n now_ms st md])
    case (refused r)
    with acquire_any assms(2) show ?thesis by simp
  next
    case (granted op row)
    with acquire_any assms(2) show ?thesis by (cases "name = fo_name op") force+
  qed
next
  case (release_any n)
  show ?thesis
    using assms(2) unfolding release_any
    by (cases rule: sys_release_cases [of s n]; cases "name = ll_name (ls_nodes s n)") auto
qed

lemma fence_inv_rowD:
  assumes "fence_inv s" and "op \<in> ls_minted s"
  obtains row where "ls_db s (fo_name op) = Some row" and "fo_fence op \<le> lr_fence row"
    and "fo_fence op = lr_fence row \<Longrightarrow> fo_holder op = lr_holder row"
  using assms unfolding fence_inv_def by blast

lemma fence_inv_refl:
  assumes "fence_inv s" and "ls_db t = ls_db s" and "ls_minted t = ls_minted s"
    and "\<And>n. ll_node_id (ls_nodes t n) = ll_node_id (ls_nodes s n)"
  shows "fence_inv t"
  using assms(1) unfolding fence_inv_def assms(2-4) .

lemma fence_inv_acquire:
  assumes inv: "fence_inv s"
  shows "fence_inv (sys_acquire s n now_ms st md)"
proof (cases rule: sys_acquire_cases [of s n now_ms st md])
  case (refused old)
  then show ?thesis by (intro fence_inv_refl [OF inv]) simp_all
next
  case (granted op row)
  have old: "fo_fence x < lr_fence row \<or> (fo_fence x = lr_fence row \<and> fo_holder x = lr_holder row)"
    if x: "x \<in> ls_minted s" and nm: "fo_name x = fo_name op" for x
  proof -
    obtain r where r: "ls_db s (fo_name x) = Some r" and "fo_fence x \<le> lr_fence r"
      and "fo_fence x = lr_fence r \<Longrightarrow> fo_holder x = lr_holder r"
      using fence_inv_rowD [OF inv x] by blast
    moreover have "lr_fence r < lr_fence row \<or> (lr_fence r = lr_fence row \<and> lr_holder r = lr_holder row)"
      using granted(4) granted(7) [of r] r nm by auto
    ultimately show ?thesis by fastforce
  qed
  have rows: "\<exists>r. ls_db (sys_acquire s n now_ms st md) (fo_name x) = Some r \<and> fo_fence x \<le> lr_fence r \<and>
        (fo_fence x = lr_fence r \<longrightarrow> fo_holder x = lr_holder r)" if x: "x \<in> insert op (ls_minted s)" for x
  proof (cases "fo_name x = fo_name op")
    case True
    with x granted(4,5) old [of x] show ?thesis unfolding granted(1) by auto
  next
    case False
    with x have "x \<in> ls_minted s" by auto
    from fence_inv_rowD [OF inv this] False show ?thesis unfolding granted(1) by auto
  qed
  have uniq: "fo_holder x = fo_holder y"
    if "x \<in> insert op (ls_minted s)" "y \<in> insert op (ls_minted s)" "fo_name x = fo_name y" "fo_fence x = fo_fence y"
    for x y
  proof (cases "x \<in> ls_minted s \<and> y \<in> ls_minted s")
    case True
    with inv that(3,4) show ?thesis unfolding fence_inv_def by blast
  next
    case False
    with that old [of x] old [of y] granted(4,5) show ?thesis by auto
  qed
  show ?thesis
    unfolding fence_inv_def
  proof (intro conjI ballI allI impI)
    fix x
    assume "x \<in> ls_minted (sys_acquire s n now_ms st md)"
    then show "\<exists>r. ls_db (sys_acquire s n now_ms st md) (fo_name x) = Some r \<and> fo_fence x \<le> lr_fence r \<and>
        (fo_fence x = lr_fence r \<longrightarrow> fo_holder x = lr_holder r)"
      by (intro rows) (simp add: granted(1))
  next
    fix x y
    assume "x \<in> ls_minted (sys_acquire s n now_ms st md)" "y \<in> ls_minted (sys_acquire s n now_ms st md)"
      and "fo_name x = fo_name y \<and> fo_fence x = fo_fence y"
    then show "fo_holder x = fo_holder y" by (intro uniq) (simp_all add: granted(1))
  next
    show "ll_node_id (ls_nodes (sys_acquire s n now_ms st md) m) = m" for m
      using inv unfolding fence_inv_def by simp
  qed
qed

lemma fence_inv_release:
  assumes "fence_inv s"
  shows "fence_inv (sys_release s n)"
proof (cases rule: sys_release_cases [of s n])
  case kept
  then show ?thesis by (intro fence_inv_refl [OF assms]) simp_all
next
  case (released old row)
  have "\<exists>r. ls_db (sys_release s n) (fo_name x) = Some r \<and> fo_fence x \<le> lr_fence r \<and>
      (fo_fence x = lr_fence r \<longrightarrow> fo_holder x = lr_holder r)" if x: "x \<in> ls_minted s" for x
  proof -
    obtain r where "ls_db s (fo_name x) = Some r" "fo_fence x \<le> lr_fence r"
        "fo_fence x = lr_fence r \<Longrightarrow> fo_holder x = lr_holder r"
      using fence_inv_rowD [OF assms x] by blast
    with released(2,3) show ?thesis
      unfolding released(1) by (cases "fo_name x = ll_name (ls_nodes s n)") auto
  qed
  with assms show ?thesis unfolding fence_inv_def sys_release_frame by blast
qed

lemma fence_inv_step: "lease_step s t \<Longrightarrow> fence_inv s \<Longrightarrow> fence_inv t"
  by (induction rule: lease_step.induct) (auto intro: fence_inv_acquire fence_inv_release)

interpretation fenced: invariant_system lease_init lease_step fence_inv
  by unfold_locales (auto intro: fence_inv_init fence_inv_step)

lemma row_raised_steps:
  assumes "lease_step\<^sup>*\<^sup>* s t" and "ls_db s name = Some old"
  shows "\<exists>row. ls_db t name = Some row \<and> lr_fence old \<le> lr_fence row"
  using assms
proof (induction rule: rtranclp_induct)
  case base
  then show ?case by simp
next
  case (step t u)
  then obtain r where "ls_db t name = Some r" "lr_fence old \<le> lr_fence r" by blast
  with row_kept_or_raised [OF step(2)] show ?case by force
qed

lemma guard_Inr_iff:
  "guard db now_ms op = Inr () \<longleftrightarrow>
     (\<exists>row. db (fo_name op) = Some row \<and> lr_fence row \<le> fo_fence op \<and> lr_holder row = fo_holder op \<and>
        now_ms < lr_expires_at_ms row)"
  by (auto simp: guard_def split: option.splits)

section \<open>Properties\<close>

text \<open>
  C25. No split brain: in every reachable state, if the guard admits two operations on the same
  role, then they belong to the same leadership term: the same holder and the same fence. The
  nodes' clocks need not agree: each of the two checks may read any clock.
\<close>

theorem guard_mutual_exclusion:
  assumes "reachable lease_init lease_step s" and "op \<in> ls_minted s" and "op' \<in> ls_minted s"
    and "fo_name op = fo_name op'"
    and "guard (ls_db s) t op = Inr ()" and "guard (ls_db s) t' op' = Inr ()"
  shows "fo_holder op = fo_holder op' \<and> fo_fence op = fo_fence op'"
proof -
  from fenced.reachable_inv [OF assms(1)] have inv: "fence_inv s" .
  obtain row where row: "ls_db s (fo_name op) = Some row" "lr_fence row \<le> fo_fence op"
      "lr_fence row \<le> fo_fence op'" "lr_holder row = fo_holder op" "lr_holder row = fo_holder op'"
    using assms(4-6) by (auto simp: guard_Inr_iff)
  have "fo_fence op \<le> lr_fence row" and "fo_fence op' \<le> lr_fence row"
    using fence_inv_rowD [OF inv assms(2)] fence_inv_rowD [OF inv assms(3)] assms(4) row(1)
    by (metis option.inject)+
  with row show ?thesis by simp
qed

lemma demo_sys_init: "lease_init demo_sys"
  by (simp add: demo_sys_def lease_init_def)

lemma demo_sys_reachable: "reachable lease_init step demo_sys"
  by (rule reachable_init) (rule demo_sys_init)

theorem guard_mutual_exclusion_witness:
  "let op = \<lparr>fo_name = ''fleet'', fo_holder = ''a'', fo_fence = 1, fo_expires_at_ms = 15000\<rparr>;
       op' = \<lparr>fo_name = ''fleet'', fo_holder = ''a'', fo_fence = 1, fo_expires_at_ms = 20000\<rparr>
   in fo_holder op = fo_holder op' \<and> fo_fence op = fo_fence op'"
proof -
  let ?s = "sys_acquire (sys_acquire demo_sys ''a'' 0 0 None) ''a'' 5000 5000 None"
  have r: "reachable lease_init lease_step ?s"
    by (rule reachable_step, rule reachable_step, rule demo_sys_reachable) (rule acquire_any)+
  let ?op = "\<lparr>fo_name = ''fleet'', fo_holder = ''a'', fo_fence = 1, fo_expires_at_ms = 15000\<rparr>"
  let ?op' = "\<lparr>fo_name = ''fleet'', fo_holder = ''a'', fo_fence = 1, fo_expires_at_ms = 20000\<rparr>"
  have m: "?op \<in> ls_minted ?s" "?op' \<in> ls_minted ?s"
    by (simp_all add: acquire_defs demo_sys_def)
  have g: "guard (ls_db ?s) 6000 ?op = Inr ()" "guard (ls_db ?s) 7000 ?op' = Inr ()"
    by (simp_all add: acquire_defs demo_sys_def guard_def)
  show ?thesis
    using guard_mutual_exclusion [OF r m _ g] by simp
qed

text \<open>
  C26. A superseded leader stays refused: once the stored fence has moved past the one an
  operation carries, the guard refuses that operation in every later state, whatever any node does
  and whatever its clock says.
\<close>

theorem superseded_operation_refused_forever:
  assumes "ls_db s (fo_name op) = Some row" and "fo_fence op < lr_fence row" and "lease_step\<^sup>*\<^sup>* s t"
  shows "guard (ls_db t) now_ms op = Inl LeaseLost"
proof -
  from row_raised_steps [OF assms(3,1)] assms(2)
  obtain row' where "ls_db t (fo_name op) = Some row'" and "fo_fence op < lr_fence row'"
    by force
  then show ?thesis by (simp add: guard_def)
qed

theorem superseded_operation_refused_forever_witness:
  "guard (ls_db (sys_acquire (sys_acquire demo_sys ''a'' 0 0 None) ''b'' 15000 15000 None)) 0
     \<lparr>fo_name = ''fleet'', fo_holder = ''a'', fo_fence = 1, fo_expires_at_ms = 15000\<rparr> = Inl LeaseLost"
  by (rule superseded_operation_refused_forever
      [where s = "sys_acquire (sys_acquire demo_sys ''a'' 0 0 None) ''b'' 15000 15000 None"
         and row = "\<lparr>lr_holder = ''b'', lr_fence = 2, lr_acquired_at = 15000, lr_renewed_at = 15000,
                     lr_expires_at_ms = 30000, lr_metadata = None\<rparr>"])
     (simp_all add: acquire_defs demo_sys_def)

lemma clock_inv_init: "lease_init s \<Longrightarrow> clock_inv s"
  by (simp add: lease_init_def clock_inv_def)

lemma clock_inv_rowD:
  assumes "clock_inv s" and "ll_held (ls_nodes s n) = Some op" and "ls_clock s < fo_expires_at_ms op"
  obtains row where "ls_db s (fo_name op) = Some row" and "lr_holder row = n" and "lr_fence row = fo_fence op"
    and "lr_expires_at_ms row = fo_expires_at_ms op"
  using assms unfolding clock_inv_def by blast

lemma clock_inv_idD:
  assumes "clock_inv s"
  shows "ll_node_id (ls_nodes s n) = n"
    and "ll_held (ls_nodes s n) = Some op \<Longrightarrow> fo_name op = ll_name (ls_nodes s n) \<and> fo_holder op = n"
  using assms by (simp_all add: clock_inv_def)

text \<open>It is enough to show the row of every proof that is still held and running.\<close>

lemma clock_invI:
  assumes "clock_inv s"
    and "\<And>n. ll_node_id (ls_nodes t n) = ll_node_id (ls_nodes s n) \<and> ll_ttl_ms (ls_nodes t n) = ll_ttl_ms (ls_nodes s n) \<and>
           ll_name (ls_nodes t n) = ll_name (ls_nodes s n)"
    and "\<And>n op. ll_held (ls_nodes t n) = Some op \<Longrightarrow> fo_name op = ll_name (ls_nodes s n) \<and> fo_holder op = n"
    and "\<And>n op. ll_held (ls_nodes t n) = Some op \<Longrightarrow> ls_clock t < fo_expires_at_ms op \<Longrightarrow>
           \<exists>row. ls_db t (fo_name op) = Some row \<and> lr_holder row = n \<and> lr_fence row = fo_fence op \<and>
             lr_expires_at_ms row = fo_expires_at_ms op"
  shows "clock_inv t"
  using assms(1) unfolding clock_inv_def assms(2)
  using assms(2,3,4) by (auto simp: clock_inv_def)

lemma clock_inv_acquire:
  assumes inv: "clock_inv s"
  shows "clock_inv (sys_acquire s n (ls_clock s) st md)"
proof (cases rule: sys_acquire_cases [of s n "ls_clock s" st md])
  case (refused old)
  have eq: "m \<noteq> n \<and> ll_held (ls_nodes s m) = Some x"
    if "ll_held (ls_nodes (sys_acquire s n (ls_clock s) st md) m) = Some x" for m x
    using that by (cases "m = n") (simp_all add: refused(4))
  show ?thesis
  proof (rule clock_invI [OF inv])
    fix m x
    assume held: "ll_held (ls_nodes (sys_acquire s n (ls_clock s) st md) m) = Some x"
    then show "fo_name x = ll_name (ls_nodes s m) \<and> fo_holder x = m"
      using eq clock_inv_idD(2) [OF inv] by blast
    assume "ls_clock (sys_acquire s n (ls_clock s) st md) < fo_expires_at_ms x"
    with eq [OF held] show "\<exists>r. ls_db (sys_acquire s n (ls_clock s) st md) (fo_name x) = Some r \<and> lr_holder r = m \<and>
        lr_fence r = fo_fence x \<and> lr_expires_at_ms r = fo_expires_at_ms x"
      using clock_inv_rowD [OF inv] by (simp add: refused(4)) metis
  qed simp
next
  case (granted op row)
  show ?thesis
  proof (rule clock_invI [OF inv])
    fix m x
    assume "ll_held (ls_nodes (sys_acquire s n (ls_clock s) st md) m) = Some x"
    then show "fo_name x = ll_name (ls_nodes s m) \<and> fo_holder x = m"
      using granted(2,3) clock_inv_idD [OF inv] by (auto simp: granted(1) fun_upd_apply split: if_splits)
  next
    fix m x
    assume held: "ll_held (ls_nodes (sys_acquire s n (ls_clock s) st md) m) = Some x"
      and live: "ls_clock (sys_acquire s n (ls_clock s) st md) < fo_expires_at_ms x"
    show "\<exists>r. ls_db (sys_acquire s n (ls_clock s) st md) (fo_name x) = Some r \<and> lr_holder r = m \<and>
        lr_fence r = fo_fence x \<and> lr_expires_at_ms r = fo_expires_at_ms x"
    proof (cases "m = n")
      case True
      with held granted clock_inv_idD(1) [OF inv] show ?thesis by (auto simp: granted(1))
    next
      case False
      with held live have "ll_held (ls_nodes s m) = Some x" "ls_clock s < fo_expires_at_ms x"
        by (simp_all add: granted(1))
      then obtain r where r: "ls_db s (fo_name x) = Some r" "lr_holder r = m" "lr_fence r = fo_fence x"
          "lr_expires_at_ms r = fo_expires_at_ms x"
        using clock_inv_rowD [OF inv] by blast
      have "fo_name x \<noteq> fo_name op"
        using granted(3) granted(7) [of r] r False live clock_inv_idD(1) [OF inv] by auto
      with r show ?thesis by (simp add: granted(1))
    qed
  qed simp
qed

lemma clock_inv_release:
  assumes inv: "clock_inv s"
  shows "clock_inv (sys_release s n)"
proof (rule clock_invI [OF inv])
  fix m x
  assume held: "ll_held (ls_nodes (sys_release s n) m) = Some x"
  have m: "m \<noteq> n" "ll_held (ls_nodes s m) = Some x"
    using held by (cases rule: sys_release_cases [of s n]; cases "m = n"; simp)+
  then show "fo_name x = ll_name (ls_nodes s m) \<and> fo_holder x = m" using clock_inv_idD(2) [OF inv] by blast
  assume "ls_clock (sys_release s n) < fo_expires_at_ms x"
  with m obtain r where r: "ls_db s (fo_name x) = Some r" "lr_holder r = m" "lr_fence r = fo_fence x"
      "lr_expires_at_ms r = fo_expires_at_ms x"
    using clock_inv_rowD [OF inv] by (metis sys_release_frame(4))
  then have "ls_db (sys_release s n) (fo_name x) = Some r"
    using m(1) clock_inv_idD(1) [OF inv] by (cases rule: sys_release_cases [of s n]) auto
  with r show "\<exists>r. ls_db (sys_release s n) (fo_name x) = Some r \<and> lr_holder r = m \<and>
      lr_fence r = fo_fence x \<and> lr_expires_at_ms r = fo_expires_at_ms x" by blast
qed simp

lemma clock_inv_tick:
  assumes inv: "clock_inv s" and "0 \<le> d"
  shows "clock_inv (s\<lparr>ls_clock := ls_clock s + d\<rparr>)"
proof (rule clock_invI [OF inv])
  fix m x
  assume held: "ll_held (ls_nodes (s\<lparr>ls_clock := ls_clock s + d\<rparr>) m) = Some x"
  then show "fo_name x = ll_name (ls_nodes s m) \<and> fo_holder x = m"
    using clock_inv_idD(2) [OF inv] by simp
  assume "ls_clock (s\<lparr>ls_clock := ls_clock s + d\<rparr>) < fo_expires_at_ms x"
  with held \<open>0 \<le> d\<close> have "ll_held (ls_nodes s m) = Some x" "ls_clock s < fo_expires_at_ms x" by simp_all
  then show "\<exists>r. ls_db (s\<lparr>ls_clock := ls_clock s + d\<rparr>) (fo_name x) = Some r \<and> lr_holder r = m \<and>
      lr_fence r = fo_fence x \<and> lr_expires_at_ms r = fo_expires_at_ms x"
    using clock_inv_rowD [OF inv] by simp metis
qed simp

lemma clock_inv_step: "lease_clock_step s t \<Longrightarrow> clock_inv s \<Longrightarrow> clock_inv t"
  by (erule lease_clock_stepE) (simp_all add: clock_inv_acquire clock_inv_release clock_inv_tick)

interpretation clocked: invariant_system lease_init lease_clock_step clock_inv
  by unfold_locales (auto intro: clock_inv_init clock_inv_step)

text \<open>
  When all nodes read one clock that never runs backwards, at most one node believes it is the
  leader of a role at any moment, and the operation it holds passes the guard against the stored
  row.
\<close>

theorem at_most_one_leader:
  assumes "reachable lease_init lease_clock_step s"
    and "is_leader (ls_nodes s n) (ls_clock s)" and "is_leader (ls_nodes s m) (ls_clock s)"
    and "ll_name (ls_nodes s n) = ll_name (ls_nodes s m)"
  shows "n = m \<and> (\<exists>op. held (ls_nodes s n) (ls_clock s) = Inr op \<and> guard (ls_db s) (ls_clock s) op = Inr ())"
proof -
  from clocked.reachable_inv [OF assms(1)] have inv: "clock_inv s" .
  from assms(2) obtain op where op: "ll_held (ls_nodes s n) = Some op" "ls_clock s < fo_expires_at_ms op"
    by (auto simp: is_leader_def valid_now_def split: option.splits)
  from assms(3) obtain op' where op': "ll_held (ls_nodes s m) = Some op'" "ls_clock s < fo_expires_at_ms op'"
    by (auto simp: is_leader_def valid_now_def split: option.splits)
  have "n = m"
    using clock_inv_rowD [OF inv op] clock_inv_rowD [OF inv op']
      clock_inv_idD(2) [OF inv op(1)] clock_inv_idD(2) [OF inv op'(1)] assms(4)
    by (metis option.inject)
  moreover have "held (ls_nodes s n) (ls_clock s) = Inr op" using op by (simp add: held_def valid_now_def)
  moreover have "guard (ls_db s) (ls_clock s) op = Inr ()"
    using clock_inv_rowD [OF inv op] clock_inv_idD(2) [OF inv op(1)] op(2)
    unfolding guard_Inr_iff by (metis order_refl)
  ultimately show ?thesis by blast
qed

theorem at_most_one_leader_witness:
  "\<exists>op. held (ls_nodes (sys_acquire demo_sys ''a'' 0 0 None) ''a'') 0 = Inr op"
proof -
  let ?s = "sys_acquire demo_sys ''a'' 0 0 None"
  have "lease_clock_step demo_sys (sys_acquire demo_sys ''a'' (ls_clock demo_sys) 0 None)"
    by (rule acquire_clock)
  then have r: "reachable lease_init lease_clock_step ?s"
    by (intro reachable_step [OF demo_sys_reachable]) (simp add: demo_sys_def)
  have l: "is_leader (ls_nodes ?s ''a'') (ls_clock ?s)"
    by (simp add: acquire_defs demo_sys_def is_leader_def valid_now_def)
  have "ls_clock ?s = 0" by (simp add: acquire_defs demo_sys_def)
  with at_most_one_leader [OF r l l] show ?thesis by auto
qed

end
