(* ===== verification/Reservations.thy ===== *)
theory Reservations
  imports Prelude
begin

text \<open>
  Space-time reservations and the local safety gate: \<^verbatim>\<open>src/fasp_harness/robotics.py\<close> over
  \<^verbatim>\<open>storage/reservations_repo.py\<close>. The two tables are one list of reservations with their segments
  (the segment table has the reservation's identifier in every row and is always written with it).
  Positions are exact rationals; the number parsers of the standard library are the parameter
  \<open>fs\<close> (\<open>py_parse\<close> of the prelude).
\<close>

section \<open>State\<close>

record volume =
  vo_frame_id :: string
  vo_minimum :: "rat list"
  vo_maximum :: "rat list"

record segment =
  sg_cell :: string
  sg_start_ms :: int
  sg_end_ms :: int
  sg_guard_ms :: int
  sg_volume :: "volume option"

datatype reservation_state = Granted | Released

record reservation =
  rs_id :: string
  rs_owner :: string
  rs_state :: reservation_state
  rs_lease_until_ms :: int
  rs_segments :: "segment list"

type_synonym reservation_db = "reservation list"

section \<open>Validation\<close>

definition MAX_LEASE_MS :: int where
  "MAX_LEASE_MS = 120000"

definition MAX_SEGMENTS :: nat where
  "MAX_SEGMENTS = 256"

definition MAX_GUARD_MS :: int where
  "MAX_GUARD_MS = 30000"

definition MAX_VOLUME_EXTENT_M :: rat where
  "MAX_VOLUME_EXTENT_M = 1000"

definition schema_invalid :: exn where
  "schema_invalid = FaspError ''schema.invalid''"

text \<open>Three numbers, all finite.\<close>

fun finite_rats :: "pyfloat list \<Rightarrow> rat list option" where
  "finite_rats [] = Some []"
| "finite_rats (Fin x # fs) = map_option ((#) x) (finite_rats fs)"
| "finite_rats (_ # fs) = None"

definition validate_volume :: "py_parse \<Rightarrow> json \<Rightarrow> volume option result" where
  "validate_volume fs volume =
     (case volume of
        JNull \<Rightarrow> Inr None
      | JObj kvs \<Rightarrow>
          (case (map_of kvs ''frame_id'', map_of kvs ''minimum_m'', map_of kvs ''maximum_m'') of
             (Some (JStr frame_id), minimum, maximum) \<Rightarrow>
               if frame_id = '''' then Inl schema_invalid
               else (case (minimum, maximum) of
                  (Some (JList lo), Some (JList hi)) \<Rightarrow>
                    if length lo \<noteq> 3 \<or> length hi \<noteq> 3 then Inl schema_invalid
                    else (case (map_result (to_float fs) lo, map_result (to_float fs) hi) of
                            (Inr flo, Inr fhi) \<Rightarrow>
                              (case (finite_rats flo, finite_rats fhi) of
                                 (Some low, Some high) \<Rightarrow>
                                   if list_ex (\<lambda>(a, b). a \<ge> b) (zip low high) then Inl schema_invalid
                                   else if list_ex (\<lambda>(a, b). b - a > MAX_VOLUME_EXTENT_M) (zip low high) then Inl schema_invalid
                                   else Inr (Some \<lparr>vo_frame_id = take 128 frame_id, vo_minimum = low, vo_maximum = high\<rparr>)
                               | _ \<Rightarrow> Inl schema_invalid)
                          | _ \<Rightarrow> Inl schema_invalid)
                | _ \<Rightarrow> Inl schema_invalid)
           | _ \<Rightarrow> Inl schema_invalid)
      | _ \<Rightarrow> Inl schema_invalid)"

text \<open>The guard: a number other than a \<^verbatim>\<open>bool\<close>, finite, between zero and the bound; zero when missing.\<close>

definition validate_guard :: "json option \<Rightarrow> int result" where
  "validate_guard guard =
     (case guard of
        None \<Rightarrow> Inr 0
      | Some (JInt g) \<Rightarrow> if 0 \<le> g \<and> g \<le> MAX_GUARD_MS then Inr g else Inl schema_invalid
      | Some (JFloat (Fin g)) \<Rightarrow> if 0 \<le> g \<and> g \<le> of_int MAX_GUARD_MS then Inr (py_trunc g) else Inl schema_invalid
      | _ \<Rightarrow> Inl schema_invalid)"

definition json_or_null :: "json option \<Rightarrow> json" where
  "json_or_null v = (case v of None \<Rightarrow> JNull | Some j \<Rightarrow> j)"

definition validate_segment :: "py_parse \<Rightarrow> int \<Rightarrow> json \<Rightarrow> segment result" where
  "validate_segment fs now_ms segment =
     (case segment of
        JObj kvs \<Rightarrow>
          (case map_of kvs ''cell'' of
             Some (JStr cell) \<Rightarrow>
               (case (Option.bind (map_of kvs ''start_ms'') as_int, Option.bind (map_of kvs ''end_ms'') as_int) of
                  (Some start, Some stop) \<Rightarrow>
                    if start < now_ms - 2000 \<or> stop \<le> start \<or> stop - start > MAX_LEASE_MS then Inl schema_invalid
                    else bind_result (validate_guard (map_of kvs ''guard_ms'')) (\<lambda>guard.
                         bind_result (validate_volume fs (json_or_null (map_of kvs ''volume''))) (\<lambda>vol.
                           Inr \<lparr>sg_cell = take 128 cell, sg_start_ms = start, sg_end_ms = stop, sg_guard_ms = guard, sg_volume = vol\<rparr>))
                | _ \<Rightarrow> Inl schema_invalid)
           | _ \<Rightarrow> Inl schema_invalid)
      | _ \<Rightarrow> Inl schema_invalid)"

definition validate_segments :: "py_parse \<Rightarrow> int \<Rightarrow> json \<Rightarrow> segment list result" where
  "validate_segments fs now_ms segments =
     (case segments of
        JList xs \<Rightarrow>
          if \<not> (1 \<le> length xs \<and> length xs \<le> MAX_SEGMENTS) then Inl schema_invalid
          else map_result (validate_segment fs now_ms) xs
      | _ \<Rightarrow> Inl schema_invalid)"

section \<open>The repository\<close>

definition rs_active :: "int \<Rightarrow> reservation \<Rightarrow> bool" where
  "rs_active now_ms r \<longleftrightarrow> rs_state r = Granted \<and> rs_lease_until_ms r > now_ms"

definition get_active :: "reservation_db \<Rightarrow> string \<Rightarrow> int \<Rightarrow> reservation option" where
  "get_active db rid now_ms = find (\<lambda>r. rs_id r = rid \<and> rs_active now_ms r) db"

text \<open>The dilated window of a segment, and the two overlap tests of \<^verbatim>\<open>_find_conflict\<close>.\<close>

definition guard_start :: "segment \<Rightarrow> int" where
  "guard_start s = sg_start_ms s - sg_guard_ms s"

definition guard_end :: "segment \<Rightarrow> int" where
  "guard_end s = sg_end_ms s + sg_guard_ms s"

definition time_overlap :: "segment \<Rightarrow> segment \<Rightarrow> bool" where
  "time_overlap stored proposed \<longleftrightarrow> guard_start stored < guard_end proposed \<and> guard_end stored > guard_start proposed"

definition box_overlap :: "segment \<Rightarrow> segment \<Rightarrow> bool" where
  "box_overlap stored proposed \<longleftrightarrow>
     (case (sg_volume stored, sg_volume proposed) of
        (Some v, Some w) \<Rightarrow>
          vo_frame_id v = vo_frame_id w \<and>
          vo_minimum v ! 0 < vo_maximum w ! 0 \<and> vo_maximum v ! 0 > vo_minimum w ! 0 \<and>
          vo_minimum v ! 1 < vo_maximum w ! 1 \<and> vo_maximum v ! 1 > vo_minimum w ! 1 \<and>
          vo_minimum v ! 2 < vo_maximum w ! 2 \<and> vo_maximum v ! 2 > vo_minimum w ! 2
      | _ \<Rightarrow> False)"

definition find_conflict :: "reservation_db \<Rightarrow> segment \<Rightarrow> int \<Rightarrow> segment option" where
  "find_conflict db proposed now_ms =
     (let stored = concat (map rs_segments (filter (rs_active now_ms) db))
      in case find (\<lambda>s. time_overlap s proposed \<and> sg_cell s = sg_cell proposed) stored of
           Some s \<Rightarrow> Some s
         | None \<Rightarrow> (if sg_volume proposed = None then None else find (\<lambda>s. time_overlap s proposed \<and> box_overlap s proposed) stored))"

datatype outcome = Existing string | Conflict segment bool

fun first_conflict :: "reservation_db \<Rightarrow> segment list \<Rightarrow> int \<Rightarrow> outcome option" where
  "first_conflict db [] now_ms = None"
| "first_conflict db (p # ps) now_ms =
     (case find_conflict db p now_ms of
        Some s \<Rightarrow> Some (Conflict s (sg_cell s \<noteq> sg_cell p))
      | None \<Rightarrow> first_conflict db ps now_ms)"

definition grant_row :: "reservation \<Rightarrow> reservation_db \<Rightarrow> reservation_db" where
  "grant_row r db =
     (if list_ex (\<lambda>x. rs_id x = rs_id r) db then update_where (\<lambda>x. rs_id x = rs_id r) (\<lambda>_. r) db else db @ [r])"

definition request_atomic :: "reservation_db \<Rightarrow> string \<Rightarrow> string \<Rightarrow> segment list \<Rightarrow> int \<Rightarrow> int \<Rightarrow> reservation_db \<times> outcome option" where
  "request_atomic db rid owner segments lease_until_ms now_ms =
     (case get_active db rid now_ms of
        Some existing \<Rightarrow> (db, Some (Existing (rs_owner existing)))
      | None \<Rightarrow>
          (case first_conflict db segments now_ms of
             Some c \<Rightarrow> (db, Some c)
           | None \<Rightarrow> (grant_row \<lparr>rs_id = rid, rs_owner = owner, rs_state = Granted, rs_lease_until_ms = lease_until_ms,
                                 rs_segments = segments\<rparr> db, None)))"

definition repo_release :: "reservation_db \<Rightarrow> string \<Rightarrow> string \<Rightarrow> int \<Rightarrow> reservation_db \<times> bool" where
  "repo_release db owner rid now_ms =
     (let hit = (\<lambda>r. rs_id r = rid \<and> rs_owner r = owner \<and> rs_active now_ms r)
      in (update_where hit (\<lambda>r. r\<lparr>rs_state := Released\<rparr>) db, list_ex hit db))"

definition sweep_expired :: "reservation_db \<Rightarrow> int \<Rightarrow> reservation_db" where
  "sweep_expired db now_ms = filter (\<lambda>r. \<not> (rs_state r \<noteq> Granted \<or> rs_lease_until_ms r \<le> now_ms)) db"

section \<open>The reservation book\<close>

datatype reply =
    GrantReply reservation
  | RejectReply string int bool

text \<open>\<^verbatim>\<open>int(payload.get("lease_ms", 30_000))\<close>.\<close>

definition lease_of :: "py_parse \<Rightarrow> json option \<Rightarrow> int result" where
  "lease_of fs v =
     (case v of
        None \<Rightarrow> Inr 30000
      | Some (JFloat (Fin x)) \<Rightarrow> Inr (py_trunc x)
      | Some (JFloat NaN) \<Rightarrow> Inl ValueError
      | Some (JFloat _) \<Rightarrow> Inl OtherException
      | Some (JStr s) \<Rightarrow> (case pp_int fs s of Some i \<Rightarrow> Inr i | None \<Rightarrow> Inl ValueError)
      | Some j \<Rightarrow> (case as_int j of Some i \<Rightarrow> Inr i | None \<Rightarrow> Inl TypeError))"

text \<open>\<^verbatim>\<open>payload.get("reservation_id") or str(uuid.uuid4())\<close>; \<open>uuid\<close> is the identifier drawn.\<close>

definition reservation_id_of :: "string \<Rightarrow> json option \<Rightarrow> string result" where
  "reservation_id_of uuid v =
     (case v of
        None \<Rightarrow> Inr uuid
      | Some j \<Rightarrow> if \<not> truthy j then Inr uuid
                 else (case j of JStr s \<Rightarrow> if length s > 128 then Inl schema_invalid else Inr s | _ \<Rightarrow> Inl schema_invalid))"

definition lease_bound :: "int \<Rightarrow> int \<Rightarrow> segment list \<Rightarrow> int" where
  "lease_bound now_ms lease_ms segments = min (now_ms + lease_ms) (Max (set (map guard_end segments)) + 2000)"

definition request ::
    "py_parse \<Rightarrow> reservation_db \<Rightarrow> int \<Rightarrow> string \<Rightarrow> string \<Rightarrow> (string \<times> json) list \<Rightarrow> reservation_db \<times> reply result" where
  "request fs db0 now_ms uuid owner payload =
     (let db = sweep_expired db0 now_ms
      in case reservation_id_of uuid (map_of payload ''reservation_id'') of
           Inl e \<Rightarrow> (db, Inl e)
         | Inr rid \<Rightarrow>
             (case lease_of fs (map_of payload ''lease_ms'') of
                Inl e \<Rightarrow> (db, Inl e)
              | Inr lease_ms \<Rightarrow>
                  if \<not> (1000 \<le> lease_ms \<and> lease_ms \<le> MAX_LEASE_MS) then (db, Inl schema_invalid)
                  else (case validate_segments fs now_ms (json_or_null (map_of payload ''segments'')) of
                          Inl e \<Rightarrow> (db, Inl e)
                        | Inr segments \<Rightarrow>
                            (let until = lease_bound now_ms lease_ms segments
                             in case request_atomic db rid owner segments until now_ms of
                                  (db', None) \<Rightarrow>
                                    (db', Inr (GrantReply \<lparr>rs_id = rid, rs_owner = owner, rs_state = Granted,
                                                           rs_lease_until_ms = until, rs_segments = segments\<rparr>))
                                | (db', Some (Existing holder)) \<Rightarrow>
                                    (db', if holder = owner
                                          then (case get_active db' rid now_ms of Some r \<Rightarrow> Inr (GrantReply r) | None \<Rightarrow> Inl TypeError)
                                          else Inl (FaspError ''fleet.reservation_conflict''))
                                | (db', Some (Conflict s vol)) \<Rightarrow>
                                    (db', Inr (RejectReply rid (max (now_ms + 250) (sg_end_ms s)) vol))))))"

definition book_release :: "reservation_db \<Rightarrow> int \<Rightarrow> string \<Rightarrow> string \<Rightarrow> reservation_db \<times> unit result" where
  "book_release db now_ms owner rid =
     (case repo_release db owner rid now_ms of
        (db', True) \<Rightarrow> (db', Inr ())
      | (db', False) \<Rightarrow> (db', Inl (FaspError ''fleet.reservation_not_found'')))"

inductive book_step :: "py_parse \<Rightarrow> reservation_db \<Rightarrow> reservation_db \<Rightarrow> bool" for fs where
  b_request: "book_step fs db (fst (request fs db now_ms uuid owner payload))"
| b_release: "book_step fs db (fst (book_release db now_ms owner rid))"

section \<open>The local safety gate\<close>

record LocalSafetyGate =
  lg_maximum_speed_mps :: rat
  lg_halt_requested :: bool
  lg_halt_reason :: "string option"
  lg_last_check :: "(bool \<times> bool \<times> bool \<times> bool \<times> pyfloat) option"

definition new_gate :: "rat \<Rightarrow> LocalSafetyGate" where
  "new_gate mx = \<lparr>lg_maximum_speed_mps = mx, lg_halt_requested = False, lg_halt_reason = None, lg_last_check = None\<rparr>"

definition request_halt :: "LocalSafetyGate \<Rightarrow> string \<Rightarrow> LocalSafetyGate" where
  "request_halt g reason = g\<lparr>lg_halt_requested := True, lg_halt_reason := Some reason\<rparr>"

definition clear_halt :: "LocalSafetyGate \<Rightarrow> LocalSafetyGate" where
  "clear_halt g = g\<lparr>lg_halt_requested := False, lg_halt_reason := None\<rparr>"

definition validate_motion ::
    "LocalSafetyGate \<Rightarrow> pyfloat \<Rightarrow> bool \<Rightarrow> bool \<Rightarrow> bool \<Rightarrow> bool \<Rightarrow> LocalSafetyGate \<times> unit result" where
  "validate_motion g speed estop_clear obstacle_clear localization_healthy reservation_active =
     (g\<lparr>lg_last_check := Some (estop_clear, obstacle_clear, localization_healthy, reservation_active, speed)\<rparr>,
      if lg_halt_requested g then Inl (FaspError ''safety.estop_active'')
      else if \<not> estop_clear then Inl (FaspError ''safety.estop_active'')
      else if \<not> obstacle_clear \<or> \<not> localization_healthy then Inl (FaspError ''safety.precondition_failed'')
      else if \<not> reservation_active then Inl (FaspError ''safety.precondition_failed'')
      else if \<not> (fl_leq (Fin 0) speed \<and> fl_leq speed (Fin (lg_maximum_speed_mps g))) then Inl (FaspError ''safety.speed_limit'')
      else Inr ())"

section \<open>No two grants conflict\<close>

definition conflicts :: "segment \<Rightarrow> segment \<Rightarrow> bool" where
  "conflicts s t \<longleftrightarrow> time_overlap s t \<and> (sg_cell s = sg_cell t \<or> box_overlap s t)"

lemma conflicts_sym: "conflicts s t \<longleftrightarrow> conflicts t s"
  by (auto simp: conflicts_def time_overlap_def box_overlap_def split: option.splits)

text \<open>
  Every two different granted reservations in the table are apart in dilated space-time,
  whatever the clock says now.
\<close>

definition book_inv :: "reservation_db \<Rightarrow> bool" where
  "book_inv db \<longleftrightarrow>
     distinct (map rs_id db) \<and>
     (\<forall>r \<in> set db. \<forall>r' \<in> set db. rs_id r \<noteq> rs_id r' \<and> rs_state r = Granted \<and> rs_state r' = Granted \<longrightarrow>
        (\<forall>s \<in> set (rs_segments r). \<forall>s' \<in> set (rs_segments r'). \<not> conflicts s s'))"

lemma find_conflict_None:
  assumes "find_conflict db p now_ms = None" and "r \<in> set db" and "rs_active now_ms r" and "s \<in> set (rs_segments r)"
  shows "\<not> conflicts s p"
proof -
  let ?stored = "concat (map rs_segments (filter (rs_active now_ms) db))"
  have s: "s \<in> set ?stored" using assms by auto
  have "find (\<lambda>s. time_overlap s p \<and> sg_cell s = sg_cell p) ?stored = None"
    using assms(1) by (auto simp: find_conflict_def Let_def split: option.splits)
  then have "\<not> (time_overlap s p \<and> sg_cell s = sg_cell p)" using s unfolding find_None_all by blast
  moreover have "\<not> (time_overlap s p \<and> box_overlap s p)"
  proof (cases "sg_volume p")
    case None
    then show ?thesis by (simp add: box_overlap_def split: option.splits)
  next
    case (Some v)
    then have "find (\<lambda>s. time_overlap s p \<and> box_overlap s p) ?stored = None"
      using assms(1) by (auto simp: find_conflict_def Let_def split: option.splits)
    then show ?thesis using s unfolding find_None_all by blast
  qed
  ultimately show ?thesis by (auto simp: conflicts_def)
qed

lemma first_conflict_None:
  "first_conflict db ps now_ms = None \<Longrightarrow> p \<in> set ps \<Longrightarrow> find_conflict db p now_ms = None"
  by (induction ps) (auto split: option.splits)

lemma book_inv_filter: "book_inv db \<Longrightarrow> book_inv (filter p db)"
  by (auto simp: book_inv_def distinct_map_filter)

lemma book_inv_sweep: "book_inv db \<Longrightarrow> book_inv (sweep_expired db now_ms)"
  unfolding sweep_expired_def by (rule book_inv_filter)

lemma swept_active: "r \<in> set (sweep_expired db now_ms) \<Longrightarrow> rs_active now_ms r"
  by (auto simp: sweep_expired_def rs_active_def)

lemma book_inv_request_atomic:
  assumes inv: "book_inv db" and act: "\<forall>r \<in> set db. rs_active now_ms r"
  shows "book_inv (fst (request_atomic db rid owner segs until now_ms))"
proof (cases "get_active db rid now_ms = None \<and> first_conflict db segs now_ms = None")
  case False
  with inv show ?thesis by (auto simp: request_atomic_def split: option.splits)
next
  case True
  let ?new = "\<lparr>rs_id = rid, rs_owner = owner, rs_state = Granted, rs_lease_until_ms = until, rs_segments = segs\<rparr>"
  have fresh: "rid \<notin> rs_id ` set db" using True act by (auto simp: get_active_def find_None_all)
  then have "fst (request_atomic db rid owner segs until now_ms) = db @ [?new]"
    using True by (auto simp: request_atomic_def grant_row_def list_ex_iff)
  moreover have apart: "\<not> conflicts s p" if "r \<in> set db" "s \<in> set (rs_segments r)" "p \<in> set segs" for r s p
    using find_conflict_None first_conflict_None True that act by blast
  then have "\<not> conflicts p s" if "r \<in> set db" "s \<in> set (rs_segments r)" "p \<in> set segs" for r s p
    using that conflicts_sym by blast
  ultimately show ?thesis using inv fresh apart by (auto simp: book_inv_def)
qed

text \<open>A request sweeps, and then either stops or runs the one atomic transaction.\<close>

lemma request_db:
  "fst (request fs db now_ms uuid owner payload) = sweep_expired db now_ms \<or>
   (\<exists>rid segs until. fst (request fs db now_ms uuid owner payload) =
      fst (request_atomic (sweep_expired db now_ms) rid owner segs until now_ms))"
proof (cases "reservation_id_of uuid (map_of payload ''reservation_id'')")
  case (Inr rid)
  note r = this
  show ?thesis
  proof (cases "lease_of fs (map_of payload ''lease_ms'')")
    case (Inr lease_ms)
    note l = this
    show ?thesis
    proof (cases "validate_segments fs now_ms (json_or_null (map_of payload ''segments''))")
      case (Inr segs)
      obtain db' oc where at: "request_atomic (sweep_expired db now_ms) rid owner segs (lease_bound now_ms lease_ms segs) now_ms = (db', oc)"
        by fastforce
      show ?thesis
      proof (cases "1000 \<le> lease_ms \<and> lease_ms \<le> MAX_LEASE_MS")
        case True
        then have "fst (request fs db now_ms uuid owner payload) = db'"
          using r l Inr at by (cases oc; cases "the oc") (simp_all add: request_def Let_def)
        with at show ?thesis by (metis fst_conv)
      qed (use r l in \<open>simp add: request_def Let_def\<close>)
    qed (use r l in \<open>simp add: request_def Let_def\<close>)
  qed (use r in \<open>simp add: request_def Let_def\<close>)
qed (simp add: request_def Let_def)

lemma book_inv_request:
  assumes "book_inv db"
  shows "book_inv (fst (request fs db now_ms uuid owner payload))"
proof -
  have swept: "book_inv (sweep_expired db now_ms)" using assms by (rule book_inv_sweep)
  have act: "\<forall>r \<in> set (sweep_expired db now_ms). rs_active now_ms r" using swept_active by blast
  from request_db [of fs db now_ms uuid owner payload] show ?thesis
    using swept book_inv_request_atomic [OF swept act] by (elim disjE exE) simp_all
qed

lemma book_inv_map:
  assumes inv: "book_inv db"
    and f: "\<And>r. rs_id (f r) = rs_id r" "\<And>r. rs_segments (f r) = rs_segments r" "\<And>r. rs_state (f r) = Granted \<Longrightarrow> rs_state r = Granted"
  shows "book_inv (map f db)"
proof -
  have "map rs_id (map f db) = map rs_id db" using f(1) by simp
  then have "distinct (map rs_id (map f db))" using inv unfolding book_inv_def by (simp only:)
  moreover have "\<not> conflicts s s'"
    if "x \<in> set db" "y \<in> set db" "rs_id (f x) \<noteq> rs_id (f y)" "rs_state (f x) = Granted" "rs_state (f y) = Granted"
      "s \<in> set (rs_segments (f x))" "s' \<in> set (rs_segments (f y))" for x y s s'
    using inv f(3) that unfolding book_inv_def f(1,2) by blast
  ultimately show ?thesis unfolding book_inv_def set_map by blast
qed

lemma book_inv_release:
  assumes "book_inv db"
  shows "book_inv (fst (book_release db now_ms owner rid))"
proof -
  let ?f = "\<lambda>r. if rs_id r = rid \<and> rs_owner r = owner \<and> rs_active now_ms r then r\<lparr>rs_state := Released\<rparr> else r"
  have "fst (book_release db now_ms owner rid) = map ?f db"
    by (simp add: book_release_def repo_release_def Let_def update_where_def split: bool.split)
  moreover have "book_inv (map ?f db)" by (rule book_inv_map [OF assms]) (simp_all split: if_splits)
  ultimately show ?thesis by (simp only:)
qed

interpretation book: invariant_system "\<lambda>db. db = []" "book_step fs" book_inv
proof unfold_locales
  show "book_inv db" if "db = []" for db using that by (simp add: book_inv_def)
  show "book_inv t" if "book_inv s" "book_step fs s t" for s t
    using that(2,1) by (cases rule: book_step.cases) (simp_all add: book_inv_request book_inv_release)
qed

section \<open>What a grant is\<close>

lemma validate_guard_bounds:
  "validate_guard g = Inr x \<Longrightarrow> 0 \<le> x \<and> x \<le> MAX_GUARD_MS"
  by (auto simp: validate_guard_def py_trunc_def floor_le_iff MAX_GUARD_MS_def split: option.splits json.splits pyfloat.splits if_splits)

lemma validate_segment_window:
  assumes "validate_segment fs now_ms j = Inr s"
  shows "now_ms - 2000 \<le> sg_start_ms s \<and> sg_start_ms s < sg_end_ms s \<and> 0 \<le> sg_guard_ms s"
proof -
  obtain kvs where j: "j = JObj kvs" using assms by (cases j) (simp_all add: validate_segment_def)
  obtain cell where cell: "map_of kvs ''cell'' = Some (JStr cell)"
    using assms unfolding validate_segment_def j by (auto split: option.splits json.splits)
  obtain start stop where ss: "Option.bind (map_of kvs ''start_ms'') as_int = Some start" "Option.bind (map_of kvs ''end_ms'') as_int = Some stop"
    using assms unfolding validate_segment_def j by (simp add: cell split: option.splits)
  have win: "\<not> (start < now_ms - 2000 \<or> stop \<le> start \<or> stop - start > MAX_LEASE_MS)"
    using assms unfolding validate_segment_def j by (simp add: cell ss split: if_splits)
  then obtain guard vol where "validate_guard (map_of kvs ''guard_ms'') = Inr guard"
    "s = \<lparr>sg_cell = take 128 cell, sg_start_ms = start, sg_end_ms = stop, sg_guard_ms = guard, sg_volume = vol\<rparr>"
    using assms unfolding validate_segment_def j by (auto simp: cell ss bind_result_Inr_iff)
  then show ?thesis using win validate_guard_bounds by auto
qed

lemma validate_segments_window:
  assumes "validate_segments fs now_ms j = Inr segs"
  shows "segs \<noteq> [] \<and> length segs \<le> MAX_SEGMENTS \<and>
         (\<forall>s \<in> set segs. now_ms - 2000 \<le> sg_start_ms s \<and> sg_start_ms s < sg_end_ms s \<and> 0 \<le> sg_guard_ms s)"
proof -
  obtain xs where xs: "j = JList xs" "1 \<le> length xs" "length xs \<le> MAX_SEGMENTS" "map_result (validate_segment fs now_ms) xs = Inr segs"
    using assms by (auto simp: validate_segments_def split: json.splits if_splits)
  then have all: "list_all2 (\<lambda>x y. validate_segment fs now_ms x = Inr y) xs segs" by (simp add: map_result_Inr_iff)
  have "now_ms - 2000 \<le> sg_start_ms s \<and> sg_start_ms s < sg_end_ms s \<and> 0 \<le> sg_guard_ms s" if mem: "s \<in> set segs" for s
  proof -
    obtain i where "i < length segs" "s = segs ! i" using mem by (auto simp: in_set_conv_nth)
    then have "validate_segment fs now_ms (xs ! i) = Inr s" using list_all2_nthD2 [OF all] by blast
    then show ?thesis by (rule validate_segment_window)
  qed
  moreover have "length xs = length segs" using all by (rule list_all2_lengthD)
  ultimately show ?thesis using xs by auto
qed

text \<open>The lease of a validated request starts in the future and is bounded.\<close>

lemma lease_bound_live:
  assumes "validate_segments fs now_ms j = Inr segs" and "1000 \<le> lease_ms"
  shows "now_ms < lease_bound now_ms lease_ms segs"
proof -
  have segs: "segs \<noteq> []" "\<forall>s \<in> set segs. now_ms - 2000 \<le> sg_start_ms s \<and> sg_start_ms s < sg_end_ms s \<and> 0 \<le> sg_guard_ms s"
    using validate_segments_window [OF assms(1)] by blast+
  then obtain s where s: "s \<in> set segs" by (meson list.set_sel(1))
  then have "guard_end s \<le> Max (set (map guard_end segs))" by simp
  moreover have "now_ms - 2000 < guard_end s" using segs(2) s by (fastforce simp: guard_end_def)
  ultimately show ?thesis using assms(2) by (simp add: lease_bound_def)
qed

lemma grant_row_mem: "r \<in> set (grant_row r db)"
  by (auto simp: grant_row_def update_where_def list_ex_iff)

lemma request_atomic_granted:
  assumes "request_atomic db rid owner segs until now_ms = (db', None)"
  shows "\<lparr>rs_id = rid, rs_owner = owner, rs_state = Granted, rs_lease_until_ms = until, rs_segments = segs\<rparr> \<in> set db'"
  using assms grant_row_mem by (auto simp: request_atomic_def split: option.splits)

lemma request_atomic_existing:
  assumes "request_atomic db rid owner segs until now_ms = (db', Some (Existing holder))"
  shows "db' = db \<and> (\<exists>r. get_active db rid now_ms = Some r \<and> rs_owner r = holder)"
proof (cases "get_active db rid now_ms")
  case None
  have "first_conflict d ps now_ms \<noteq> Some (Existing h)" for d ps h
    by (induction ps) (auto split: option.splits)
  with None assms show ?thesis by (auto simp: request_atomic_def split: option.splits)
qed (use assms in \<open>auto simp: request_atomic_def\<close>)

lemma get_active_Some:
  "get_active db rid now_ms = Some r \<Longrightarrow> r \<in> set db \<and> rs_id r = rid \<and> rs_active now_ms r"
  by (auto simp: get_active_def find_Some_iff)

text \<open>
  A grant is what it says: when a request answers with a grant, the reservation granted is a row
  of the book, belongs to the requester, is granted and its lease is still running (whatever start
  and lease length were asked for). A reservation that was not there before has a lease of at most
  two minutes and at least one and at most 256 segments.
\<close>

theorem grant_is_stored_and_live:
  assumes "request fs db now_ms uuid owner payload = (db', Inr (GrantReply r))"
  shows "r \<in> set db' \<and> rs_owner r = owner \<and> rs_active now_ms r \<and>
         (r \<in> set db \<or>
          rs_lease_until_ms r \<le> now_ms + MAX_LEASE_MS \<and> rs_segments r \<noteq> [] \<and> length (rs_segments r) \<le> MAX_SEGMENTS)"
proof -
  let ?db = "sweep_expired db now_ms"
  obtain rid lease_ms segs where
    rid: "reservation_id_of uuid (map_of payload ''reservation_id'') = Inr rid"
    and lease: "lease_of fs (map_of payload ''lease_ms'') = Inr lease_ms" "1000 \<le> lease_ms" "lease_ms \<le> MAX_LEASE_MS"
    and segs: "validate_segments fs now_ms (json_or_null (map_of payload ''segments'')) = Inr segs"
    using assms unfolding request_def Let_def by (auto split: sum.splits if_splits)
  define until where "until = lease_bound now_ms lease_ms segs"
  have live: "now_ms < until" "until \<le> now_ms + MAX_LEASE_MS"
    using lease_bound_live [OF segs lease(2)] lease(3) by (simp_all add: until_def lease_bound_def)
  obtain d oc where at: "request_atomic ?db rid owner segs until now_ms = (d, oc)" by fastforce
  note req = assms rid lease segs at [unfolded until_def]
  show ?thesis
  proof (cases oc)
    case None
    then have "db' = d" "r = \<lparr>rs_id = rid, rs_owner = owner, rs_state = Granted, rs_lease_until_ms = until, rs_segments = segs\<rparr>"
      using req by (simp_all add: request_def Let_def until_def)
    then show ?thesis
      using request_atomic_granted [of ?db rid owner segs until now_ms d] at None live validate_segments_window [OF segs]
      by (simp add: rs_active_def)
  next
    case (Some out)
    then obtain holder where holder: "out = Existing holder" using req by (cases out) (simp_all add: request_def Let_def)
    then obtain x where x: "d = ?db" "get_active ?db rid now_ms = Some x" "rs_owner x = holder"
      using request_atomic_existing at Some by blast
    then have "db' = ?db" "r = x" "holder = owner"
      using req Some holder by (auto simp: request_def Let_def split: if_splits option.splits)
    then show ?thesis using get_active_Some [OF x(2)] x(3) by (auto simp: sweep_expired_def)
  qed
qed

section \<open>Properties of the book\<close>

definition demo_parse :: py_parse where
  "demo_parse = \<lparr>pp_float = (\<lambda>_. None), pp_int = (\<lambda>_. None), pp_str = (\<lambda>_. ''?'')\<rparr>"

definition demo_segment :: "string \<Rightarrow> int \<Rightarrow> int \<Rightarrow> int \<Rightarrow> json" where
  "demo_segment cell start stop guard =
     JObj [(''cell'', JStr cell), (''start_ms'', JInt start), (''end_ms'', JInt stop), (''guard_ms'', JInt guard)]"

definition demo_payload :: "string \<Rightarrow> json \<Rightarrow> (string \<times> json) list" where
  "demo_payload rid seg = [(''reservation_id'', JStr rid), (''lease_ms'', JInt 1000), (''segments'', JList [seg])]"

definition demo_book :: reservation_db where
  "demo_book =
     fst (request demo_parse
       (fst (request demo_parse [] 0 ''u'' ''r1'' (demo_payload ''a'' (demo_segment ''c'' 0 5000 200))))
       100 ''v'' ''r2'' (demo_payload ''b'' (demo_segment ''c'' 5400 6000 200)))"

lemma demo_book_reachable: "reachable (\<lambda>db. db = []) (book_step demo_parse) demo_book"
  unfolding demo_book_def by (blast intro: reachable_step reachable_init b_request)


lemma demo_book_rows:
  "map (\<lambda>r. (rs_id r, rs_state r, rs_segments r)) demo_book =
     [(''a'', Granted, [\<lparr>sg_cell = ''c'', sg_start_ms = 0, sg_end_ms = 5000, sg_guard_ms = 200, sg_volume = None\<rparr>]),
      (''b'', Granted, [\<lparr>sg_cell = ''c'', sg_start_ms = 5400, sg_end_ms = 6000, sg_guard_ms = 200, sg_volume = None\<rparr>])]"
  by code_simp


theorem grant_is_stored_and_live_witness:
  "\<exists>db' r. request demo_parse [] 0 ''u'' ''r1'' (demo_payload ''a'' (demo_segment ''c'' 0 5000 200)) = (db', Inr (GrantReply r)) \<and>
     r \<in> set db' \<and> rs_owner r = ''r1'' \<and> rs_lease_until_ms r \<le> 120000"
proof -
  let ?res = "request demo_parse [] 0 ''u'' ''r1'' (demo_payload ''a'' (demo_segment ''c'' 0 5000 200))"
  have "case ?res of (_, Inr (GrantReply _)) \<Rightarrow> True | _ \<Rightarrow> False" by code_simp
  then obtain db' r where "?res = (db', Inr (GrantReply r))" by (auto split: prod.splits sum.splits reply.splits)
  with grant_is_stored_and_live [OF this] show ?thesis by (auto simp: MAX_LEASE_MS_def)
qed

text \<open>
  The lease is the minimum of the two bounds, so it can end before the window it protects: the
  robot of the first request holds its cell until 5200 ms (5000 and a guard of 200), but the lease
  of 1000 ms it asked for lets the book grant the same cell to another robot from 1000 ms on.
\<close>

theorem lease_can_end_before_window:
  "\<exists>db r db' r'.
     request demo_parse [] 0 ''u'' ''r1'' (demo_payload ''a'' (demo_segment ''c'' 0 5000 200)) = (db, Inr (GrantReply r)) \<and>
     request demo_parse db 1000 ''v'' ''r2'' (demo_payload ''b'' (demo_segment ''c'' 2000 4000 200)) = (db', Inr (GrantReply r')) \<and>
     (\<exists>s \<in> set (rs_segments r). \<exists>s' \<in> set (rs_segments r'). conflicts s s')"
proof -
  let ?one = "request demo_parse [] 0 ''u'' ''r1'' (demo_payload ''a'' (demo_segment ''c'' 0 5000 200))"
  let ?two = "request demo_parse (fst ?one) 1000 ''v'' ''r2'' (demo_payload ''b'' (demo_segment ''c'' 2000 4000 200))"
  have "case (?one, ?two) of
          ((_, Inr (GrantReply r)), (_, Inr (GrantReply r'))) \<Rightarrow> \<exists>s \<in> set (rs_segments r). \<exists>s' \<in> set (rs_segments r'). conflicts s s'
        | _ \<Rightarrow> False" by code_simp
  then obtain db r db' r' where "?one = (db, Inr (GrantReply r))" "?two = (db', Inr (GrantReply r'))"
    "\<exists>s \<in> set (rs_segments r). \<exists>s' \<in> set (rs_segments r'). conflicts s s'"
    by (cases ?one; cases ?two) (auto split: sum.splits reply.splits)
  then show ?thesis by (metis fst_conv)
qed

end
