(* ===== verification/Mission_Service.thy ===== *)
theory Mission_Service
  imports Simulated_Fleet Work_Items Safety Lease Reservations
begin

text \<open>
  The path a mission takes (\<^verbatim>\<open>src/fasp_harness/fleet/service.py\<close>): durable record, safety gate, leadership,
  selection, twin preflight, reservation, fenced dispatch, reconciliation. The service owns nothing
  but the names of its reservations; its state bundles the tables and objects it calls, each with
  the definitions of its own theory.

  The twin is a parameter: \<open>ms_preflight\<close> is the preflight of the configured site model (or none) and
  \<open>ms_trusted\<close> the verdict of the twin on a vehicle. What other threads and other nodes do while a
  submission runs is explicit: \<open>before\<close> acts on the state between the reservation and the fence check,
  \<open>after\<close> between the vendor's answer and the bookkeeping. The clock is read anew each time.
\<close>

section \<open>State\<close>

record PreflightResult =
  pr_feasible :: bool
  pr_occupancy :: "(string \<times> int \<times> int) list"
  pr_dict :: json

type_synonym occupied = "(string \<times> int \<times> int \<times> string) list"

type_synonym preflight = "Mission \<Rightarrow> Pose \<Rightarrow> string \<Rightarrow> pyfloat \<Rightarrow> VehicleCapabilities \<Rightarrow> occupied \<Rightarrow> int \<Rightarrow> PreflightResult result"

record ('h, 'w, 'd) MissionService =
  ms_work :: "'h work_db"
  ms_registry :: "'w FleetRegistry"
  ms_audit :: "'h audit_ref"
  ms_supervisor :: "'d SafetySupervisor option"
  ms_lease :: "LeaderLease option"
  ms_leases :: lease_table
  ms_preflight :: "preflight option"
  ms_trusted :: "(string \<Rightarrow> bool) option"
  ms_reservations :: "reservation_db option"
  ms_reserved :: "string \<rightharpoonup> string"
  ms_minimum_battery :: pyfloat

text \<open>Clock readings: \<^verbatim>\<open>stamp()\<close>, the monotonic clock, and \<^verbatim>\<open>time.time()\<close> in milliseconds at its \<open>i\<close>-th reading.\<close>

record clocks =
  ck_stamp :: timestamp
  ck_mono :: rat
  ck_ms :: "nat \<Rightarrow> int"

datatype mission_reply =
    MissionDuplicate "(string \<times> work_row) option"
  | MissionDispatched string string json
  | MissionCancelled bool
  | MissionTooLate string

section \<open>Helpers\<close>

definition ms_log ::
    "('h, 'w, 'd) MissionService \<Rightarrow> timestamp \<Rightarrow> string \<Rightarrow> string \<Rightarrow> (string \<times> json) list \<Rightarrow> ('h, 'w, 'd) MissionService" where
  "ms_log s st event subject detail =
     (case ms_audit s of
        None \<Rightarrow> s
      | Some (hx, gen) \<Rightarrow>
          s\<lparr>ms_work := (ms_work s)\<lparr>wd_log := audit_append hx gen (wd_log (ms_work s)) event subject (JObj detail) st\<rparr>\<rparr>)"

definition reservation_name :: "string \<Rightarrow> string" where
  "reservation_name mid = ''mission-'' @ mid"

definition release_reservation :: "('h, 'w, 'd) MissionService \<Rightarrow> int \<Rightarrow> string \<Rightarrow> ('h, 'w, 'd) MissionService" where
  "release_reservation s now_ms mid =
     (case ms_reservations s of
        None \<Rightarrow> s
      | Some book \<Rightarrow>
          (case ms_reserved s mid of
             None \<Rightarrow> s
           | Some owner \<Rightarrow> s\<lparr>ms_reserved := (ms_reserved s)(mid := None),
                             ms_reservations := Some (fst (book_release book now_ms owner (reservation_name mid)))\<rparr>))"

definition existing_reservations :: "('h, 'w, 'd) MissionService \<Rightarrow> int \<Rightarrow> occupied" where
  "existing_reservations s now_ms =
     (case ms_reservations s of
        None \<Rightarrow> []
      | Some book \<Rightarrow>
          take 4096 (concat (map (\<lambda>r. map (\<lambda>g. (sg_cell g, sg_start_ms g, sg_end_ms g, rs_owner r)) (rs_segments r))
            (filter (rs_active now_ms) book))))"

definition origin_pose :: Pose where
  "origin_pose = \<lparr>po_x = 0, po_y = 0, po_theta = 0, po_map_id = ''default''\<rparr>"

definition run_preflight ::
    "clocks \<Rightarrow> ('h, 'w, 'd) MissionService \<Rightarrow> Mission \<Rightarrow> string \<Rightarrow> string \<Rightarrow>
     ('h, 'w, 'd) MissionService \<times> PreflightResult option result" where
  "run_preflight ck s m addr vehicle_id =
     (case ms_preflight s of
        None \<Rightarrow> (s, Inr None)
      | Some pf \<Rightarrow>
          if (case ms_trusted s of None \<Rightarrow> False | Some trusted \<Rightarrow> \<not> trusted vehicle_id)
          then (ms_log s (ck_stamp ck) ''mission.preflight_skipped'' (mi_requested_by m)
                  [(''mission_id'', JStr (mi_mission_id m)), (''vehicle'', JStr addr),
                   (''reason'', JStr ''twin has diverged from this vehicle'')], Inr None)
          else (case vehicle_state (ms_registry s) (ck_stamp ck) addr of
                  (reg1, Inl e) \<Rightarrow> (s\<lparr>ms_registry := reg1\<rparr>, Inl e)
                | (reg1, Inr v) \<Rightarrow>
                    (case capabilities reg1 (ck_stamp ck) addr of
                       (reg2, Inl e) \<Rightarrow> (s\<lparr>ms_registry := reg2\<rparr>, Inl e)
                     | (reg2, Inr vc) \<Rightarrow>
                         (let s' = s\<lparr>ms_registry := reg2\<rparr>
                          in (s', (case pf m (case vs_pose v of None \<Rightarrow> origin_pose | Some p \<Rightarrow> p) vehicle_id (vs_battery_ratio v) vc
                                         (existing_reservations s' (ck_ms ck 1)) (ck_ms ck 2) of
                                     Inl e \<Rightarrow> Inl e
                                   | Inr p \<Rightarrow> Inr (Some p)))))))"

definition MAX_RESERVED_CELLS :: nat where
  "MAX_RESERVED_CELLS = 64"

definition segment_json :: "string \<times> int \<times> int \<Rightarrow> json" where
  "segment_json w = (case w of (cell, start, stop) \<Rightarrow> JObj [(''cell'', JStr cell), (''start_ms'', JInt start), (''end_ms'', JInt stop)])"

definition reserve ::
    "py_parse \<Rightarrow> clocks \<Rightarrow> ('h, 'w, 'd) MissionService \<Rightarrow> Mission \<Rightarrow> string \<Rightarrow> PreflightResult option \<Rightarrow>
     ('h, 'w, 'd) MissionService \<times> unit result" where
  "reserve fs ck s m addr pre =
     (case (ms_reservations s, pre) of
        (Some book, Some p) \<Rightarrow>
          if pr_occupancy p = [] then (s, Inr ())
          else (let windows = take MAX_RESERVED_CELLS (pr_occupancy p);
                    horizon = Max (set (map (\<lambda>(_, _, stop). stop) windows)) - ck_ms ck 3;
                    payload = [(''reservation_id'', JStr (reservation_name (mi_mission_id m))),
                               (''lease_ms'', JInt (max 1000 (min 120000 (horizon + 2000)))),
                               (''segments'', JList (map segment_json windows))]
                in case Reservations.request fs book (ck_ms ck 4) '''' addr payload of
                     (book', Inl e) \<Rightarrow> (s\<lparr>ms_reservations := Some book'\<rparr>, Inl e)
                   | (book', Inr (RejectReply _ _ _)) \<Rightarrow>
                       (s\<lparr>ms_reservations := Some book'\<rparr>, Inl (FaspError ''fleet.reservation_conflict''))
                   | (book', Inr (GrantReply _)) \<Rightarrow>
                       (s\<lparr>ms_reservations := Some book', ms_reserved := (ms_reserved s)(mi_mission_id m \<mapsto> addr)\<rparr>, Inr ()))
      | _ \<Rightarrow> (s, Inr ()))"

section \<open>Dispatch\<close>

text \<open>What the first six steps hand to the seventh.\<close>

record plan =
  pl_operation :: "FencedOperation option"
  pl_address :: string
  pl_fleet :: string
  pl_preflight :: "PreflightResult option"

definition preflight_json :: "PreflightResult option \<Rightarrow> json" where
  "preflight_json p = (case p of None \<Rightarrow> JNull | Some r \<Rightarrow> pr_dict r)"

definition safety_gate :: "clocks \<Rightarrow> ('h, 'w, 'd) MissionService \<Rightarrow> unit result" where
  "safety_gate ck s = (case ms_supervisor s of None \<Rightarrow> Inr () | Some sv \<Rightarrow> permit_motion sv (ck_mono ck) (Fin 0) True)"

definition leadership :: "clocks \<Rightarrow> ('h, 'w, 'd) MissionService \<Rightarrow> FencedOperation option result" where
  "leadership ck s =
     (case ms_lease s of None \<Rightarrow> Inr None | Some l \<Rightarrow> (case held l (ck_ms ck 0) of Inl e \<Rightarrow> Inl e | Inr op \<Rightarrow> Inr (Some op)))"

definition record_preflight ::
    "clocks \<Rightarrow> ('h, 'w, 'd) MissionService \<Rightarrow> Mission \<Rightarrow> PreflightResult option \<Rightarrow> ('h, 'w, 'd) MissionService \<times> unit result" where
  "record_preflight ck s m pre =
     (case pre of
        None \<Rightarrow> (s, Inr ())
      | Some p \<Rightarrow>
          (case mission_transition (ms_audit s) (ms_work s) (mi_mission_id m) [''ACCEPTED''] ''PREFLIGHT''
                  (no_columns\<lparr>mc_preflight := SetTo (pr_dict p)\<rparr>) (ck_stamp ck) of
             Inl e \<Rightarrow> (s, Inl e)
           | Inr (db, _) \<Rightarrow>
               (s\<lparr>ms_work := db\<rparr>, if pr_feasible p then Inr () else Inl (FaspError ''policy.preflight_failed''))))"

text \<open>Steps 2 to 6.\<close>

definition make_plan ::
    "py_parse \<Rightarrow> clocks \<Rightarrow> ('h, 'w, 'd) MissionService \<Rightarrow> Mission \<Rightarrow> ('h, 'w, 'd) MissionService \<times> plan result" where
  "make_plan fs ck s m =
     (case safety_gate ck s of
        Inl e \<Rightarrow> (s, Inl e)
      | Inr _ \<Rightarrow>
     (case leadership ck s of
        Inl e \<Rightarrow> (s, Inl e)
      | Inr operation \<Rightarrow>
     (case select_vehicle fs (ms_registry s) (ck_stamp ck) m (ms_minimum_battery s) of
        (reg, Inl e) \<Rightarrow> (s\<lparr>ms_registry := reg\<rparr>, Inl e)
      | (reg, Inr (None, _)) \<Rightarrow> (s\<lparr>ms_registry := reg\<rparr>, Inl (FaspError ''resource.exhausted''))
      | (reg, Inr (Some addr, _)) \<Rightarrow>
     (case split_address addr of
        Inl e \<Rightarrow> (s\<lparr>ms_registry := reg\<rparr>, Inl e)
      | Inr (fleet, vehicle_id) \<Rightarrow>
     (case run_preflight ck (s\<lparr>ms_registry := reg\<rparr>) m addr vehicle_id of
        (s1, Inl e) \<Rightarrow> (s1, Inl e)
      | (s1, Inr pre) \<Rightarrow>
     (case record_preflight ck s1 m pre of
        (s2, Inl e) \<Rightarrow> (s2, Inl e)
      | (s2, Inr _) \<Rightarrow>
     (case reserve fs ck s2 m addr pre of
        (s3, Inl e) \<Rightarrow> (s3, Inl e)
      | (s3, Inr _) \<Rightarrow> (s3, Inr \<lparr>pl_operation = operation, pl_address = addr, pl_fleet = fleet, pl_preflight = pre\<rparr>))))))))"

text \<open>The fence check at the moment of effect.\<close>

definition fence_check :: "clocks \<Rightarrow> ('h, 'w, 'd) MissionService \<Rightarrow> plan \<Rightarrow> unit result" where
  "fence_check ck s pl =
     (case (ms_lease s, pl_operation pl) of
        (Some _, Some op) \<Rightarrow> guard (ms_leases s) (ck_ms ck 5) op
      | _ \<Rightarrow> Inr ())"

text \<open>A mission that left the state the dispatch expected: the answers, by the state it is in now.\<close>

definition not_queued ::
    "clocks \<Rightarrow> ('h, 'w, 'd) MissionService \<Rightarrow> Mission \<Rightarrow> ('h, 'w, 'd) MissionService \<times> mission_reply result" where
  "not_queued ck s m =
     (let current = mission_get (ms_work s) (mi_mission_id m); s' = release_reservation s (ck_ms ck 6) (mi_mission_id m)
      in (s', case current of
                None \<Rightarrow> Inl (FaspError ''task.state_conflict'')
              | Some (state, _) \<Rightarrow>
                  if state = ''CANCELLED'' then Inr (MissionCancelled False)
                  else if state \<in> {''COMPLETED'', ''FAILED'', ''REJECTED''} then Inr (MissionTooLate state)
                  else Inl (FaspError ''task.state_conflict'')))"

definition after_dispatch ::
    "clocks \<Rightarrow> ('h, 'w, 'd) MissionService \<Rightarrow> Mission \<Rightarrow> plan \<Rightarrow> json \<Rightarrow> ('h, 'w, 'd) MissionService \<times> mission_reply result" where
  "after_dispatch ck s m pl vendor =
     (let mid = mi_mission_id m;
          dispatched = (\<lambda>s. let s1 = ms_log s (ck_stamp ck) ''mission.dispatched'' (mi_requested_by m)
                              [(''mission_id'', JStr mid), (''vehicle'', JStr (pl_address pl)),
                               (''fence'', case pl_operation pl of None \<Rightarrow> JNull | Some op \<Rightarrow> JInt (fo_fence op))]
                            in (s1, Inr (MissionDispatched
                                  (case mission_get (ms_work s1) mid of None \<Rightarrow> ''ASSIGNED'' | Some (state, _) \<Rightarrow> state)
                                  (pl_address pl) vendor)))
      in case mark_assigned (ms_audit s) (ms_work s) mid (ck_stamp ck) of
           Inl e \<Rightarrow> (s, Inl e)
         | Inr (db, True) \<Rightarrow> dispatched (s\<lparr>ms_work := db\<rparr>)
         | Inr (db, False) \<Rightarrow>
             (let s1 = s\<lparr>ms_work := db\<rparr>; released = release_reservation s1 (ck_ms ck 7) mid
              in case mission_get db mid of
                   None \<Rightarrow> (released, Inl (FaspError ''task.state_conflict''))
                 | Some (state, row) \<Rightarrow>
                     if state = ''CANCELLED'' then (released, Inr (MissionCancelled True))
                     else if wi_state row \<noteq> RUNNING
                     then (released, if wi_state row \<in> {SUCCEEDED, FAILED} then Inr (MissionTooLate state)
                                     else Inl (FaspError ''task.state_conflict''))
                     else dispatched s1))"

text \<open>Step 7. The mission is marked as dispatching before the vendor hears of it.\<close>

definition commit_plan ::
    "clocks \<Rightarrow> (('h, 'w, 'd) MissionService \<Rightarrow> ('h, 'w, 'd) MissionService) \<Rightarrow> ('h, 'w, 'd) MissionService \<Rightarrow> Mission \<Rightarrow> plan \<Rightarrow>
     ('h, 'w, 'd) MissionService \<times> mission_reply result" where
  "commit_plan ck after s m pl =
     (case fence_check ck s pl of
        Inl e \<Rightarrow> (s, Inl e)
      | Inr _ \<Rightarrow>
          (case prepare_dispatch (ms_audit s) (ms_work s) (mi_mission_id m) (pl_address pl) (pl_fleet pl)
                  (map_option fo_fence (pl_operation pl)) (preflight_json (pl_preflight pl)) (ck_stamp ck) of
             Inl e \<Rightarrow> (s, Inl e)
           | Inr (db, False) \<Rightarrow> not_queued ck (s\<lparr>ms_work := db\<rparr>) m
           | Inr (db, True) \<Rightarrow>
               (case dispatch (ms_registry s) (ck_stamp ck) m (pl_address pl) of
                  (reg, Inl (FaspError c)) \<Rightarrow>
                    (release_reservation (s\<lparr>ms_work := db, ms_registry := reg\<rparr>) (ck_ms ck 6) (mi_mission_id m), Inl (FaspError c))
                | (reg, Inl e) \<Rightarrow> (s\<lparr>ms_work := db, ms_registry := reg\<rparr>, Inl e)
                | (reg, Inr vendor) \<Rightarrow> after_dispatch ck (after (s\<lparr>ms_work := db, ms_registry := reg\<rparr>)) m pl vendor)))"

definition ms_dispatch ::
    "py_parse \<Rightarrow> clocks \<Rightarrow> (('h, 'w, 'd) MissionService \<Rightarrow> ('h, 'w, 'd) MissionService) \<Rightarrow>
     (('h, 'w, 'd) MissionService \<Rightarrow> ('h, 'w, 'd) MissionService) \<Rightarrow> ('h, 'w, 'd) MissionService \<Rightarrow> Mission \<Rightarrow>
     ('h, 'w, 'd) MissionService \<times> mission_reply result" where
  "ms_dispatch fs ck before after s m =
     (case make_plan fs ck s m of
        (s1, Inl e) \<Rightarrow> (s1, Inl e)
      | (s1, Inr pl) \<Rightarrow> commit_plan ck after (before s1) m pl)"

definition reject_mission :: "clocks \<Rightarrow> ('h, 'w, 'd) MissionService \<Rightarrow> Mission \<Rightarrow> string \<Rightarrow> ('h, 'w, 'd) MissionService \<times> exn" where
  "reject_mission ck s m code =
     (case mission_finish (ms_audit s) (ms_work s) (mi_mission_id m) ''REJECTED'' None (Some (JObj [(''code'', JStr code)])) (ck_stamp ck) of
        Inl e \<Rightarrow> (s, e)
      | Inr (db, _) \<Rightarrow>
          (ms_log (release_reservation (s\<lparr>ms_work := db\<rparr>) (ck_ms ck 8) (mi_mission_id m)) (ck_stamp ck) ''mission.rejected''
             (mi_requested_by m) [(''mission_id'', JStr (mi_mission_id m)), (''code'', JStr code)], FaspError code))"

definition submit ::
    "py_parse \<Rightarrow> clocks \<Rightarrow> (('h, 'w, 'd) MissionService \<Rightarrow> ('h, 'w, 'd) MissionService) \<Rightarrow>
     (('h, 'w, 'd) MissionService \<Rightarrow> ('h, 'w, 'd) MissionService) \<Rightarrow> ('h, 'w, 'd) MissionService \<Rightarrow> Mission \<Rightarrow>
     ('h, 'w, 'd) MissionService \<times> mission_reply result" where
  "submit fs ck before after s m =
     (case mission_accept (ms_audit s) (ms_work s) (mi_mission_id m) (mi_requested_by m) (mission_to_dict m) (mi_priority m)
             (mi_fleet m) (mi_deadline_at m) (ck_stamp ck) of
        Inl e \<Rightarrow> (s, Inl e)
      | Inr (db, False) \<Rightarrow> (s\<lparr>ms_work := db\<rparr>, Inr (MissionDuplicate (mission_get db (mi_mission_id m))))
      | Inr (db, True) \<Rightarrow>
          (case ms_dispatch fs ck before after
                  (ms_log (s\<lparr>ms_work := db\<rparr>) (ck_stamp ck) ''mission.accepted'' (mi_requested_by m)
                     [(''mission_id'', JStr (mi_mission_id m)), (''steps'', JInt (int (length (mi_steps m))))]) m of
             (s1, Inr r) \<Rightarrow> (s1, Inr r)
           | (s1, Inl (FaspError c)) \<Rightarrow> (case reject_mission ck s1 m c of (s2, e) \<Rightarrow> (s2, Inl e))
           | (s1, Inl _) \<Rightarrow> (case reject_mission ck s1 m ''internal.adapter_error'' of (s2, e) \<Rightarrow> (s2, Inl e))))"

section \<open>Lifecycle\<close>

text \<open>The fleet a mission record names: \<^verbatim>\<open>metadata.get("fleet")\<close>, when it is not empty.\<close>

definition record_fleet :: "work_row \<Rightarrow> string option" where
  "record_fleet r = (case get_or_null (wi_metadata r) ''fleet'' of JStr f \<Rightarrow> if f = '''' then None else Some f | _ \<Rightarrow> None)"

definition at_vendor :: "work_row \<Rightarrow> bool" where
  "at_vendor r = (case wi_result r of Some (JObj kvs) \<Rightarrow> truthy (get_or_null kvs ''cancelled_at_vendor'') | _ \<Rightarrow> False)"

definition cancelled_result :: "bool \<Rightarrow> json" where
  "cancelled_result b = JObj [(''cancelled_at_vendor'', JBool b)]"

definition TERMINAL_MISSION_STATES :: "string list" where
  "TERMINAL_MISSION_STATES = [''COMPLETED'', ''FAILED'', ''CANCELLED'', ''REJECTED'']"

definition cancel_done ::
    "clocks \<Rightarrow> ('h, 'w, 'd) MissionService \<Rightarrow> string \<Rightarrow> string \<Rightarrow> bool \<Rightarrow> ('h, 'w, 'd) MissionService \<times> mission_reply result" where
  "cancel_done ck s mid requested_by vendor =
     (ms_log (release_reservation s (ck_ms ck 0) mid) (ck_stamp ck) ''mission.cancelled'' requested_by
        [(''mission_id'', JStr mid), (''at_vendor'', JBool vendor)], Inr (MissionCancelled vendor))"

text \<open>\<open>during\<close> is what other threads do while the vendor is asked.\<close>

definition cancel ::
    "clocks \<Rightarrow> (('h, 'w, 'd) MissionService \<Rightarrow> ('h, 'w, 'd) MissionService) \<Rightarrow> ('h, 'w, 'd) MissionService \<Rightarrow> string \<Rightarrow> string \<Rightarrow>
     ('h, 'w, 'd) MissionService \<times> mission_reply result" where
  "cancel ck during s mid requested_by =
     (case mission_get (ms_work s) mid of
        None \<Rightarrow> (s, Inl schema_error)
      | Some (state, record) \<Rightarrow>
     (if wi_owner record \<noteq> requested_by then (s, Inl (FaspError ''auth.not_authorized''))
      else if state \<in> set TERMINAL_MISSION_STATES then (s, Inr (MissionTooLate state))
      else case mission_transition (ms_audit s) (ms_work s) mid [''ACCEPTED'', ''PREFLIGHT''] ''CANCELLED''
                  (no_columns\<lparr>mc_result := SetTo (Some (cancelled_result False))\<rparr>) (ck_stamp ck) of
             Inl e \<Rightarrow> (s, Inl e)
           | Inr (db, True) \<Rightarrow> cancel_done ck (s\<lparr>ms_work := db\<rparr>) mid requested_by False
           | Inr (db, False) \<Rightarrow>
     (let s1 = s\<lparr>ms_work := db\<rparr>; (state1, current) = (case mission_get db mid of None \<Rightarrow> (state, record) | Some c \<Rightarrow> c)
      in if state1 = ''CANCELLED'' then (s1, Inr (MissionCancelled (at_vendor current)))
         else if state1 \<in> {''COMPLETED'', ''FAILED'', ''REJECTED''} then (s1, Inr (MissionTooLate state1))
         else case record_fleet current of
                None \<Rightarrow> (s1, Inr (MissionTooLate state1))
              | Some fleet \<Rightarrow>
     (case registry_cancel (ms_registry s1) (ck_stamp ck) fleet mid of
        (reg, answer) \<Rightarrow>
          (let s2 = during (s1\<lparr>ms_registry := reg\<rparr>)
           in if answer \<noteq> Inr True
              then (s2, Inr (MissionTooLate (case mission_get (ms_work s2) mid of None \<Rightarrow> state1 | Some (st, _) \<Rightarrow> st)))
              else case mission_finish (ms_audit s2) (ms_work s2) mid ''CANCELLED'' (Some (cancelled_result True)) None (ck_stamp ck) of
                     Inl e \<Rightarrow> (s2, Inl e)
                   | Inr (db2, True) \<Rightarrow> cancel_done ck (s2\<lparr>ms_work := db2\<rparr>) mid requested_by True
                   | Inr (db2, False) \<Rightarrow>
                       (let s3 = s2\<lparr>ms_work := db2\<rparr>; state3 = (case mission_get db2 mid of None \<Rightarrow> state1 | Some (st, _) \<Rightarrow> st)
                        in if state3 \<noteq> ''CANCELLED'' then (s3, Inr (MissionTooLate state3))
                           else cancel_done ck s3 mid requested_by True))))))"

record summary =
  su_checked :: nat
  su_updated :: nat
  su_released :: nat

text \<open>One mission of the reconciliation, as it was when the active missions were read.\<close>

definition reconcile_one ::
    "clocks \<Rightarrow> ('h, 'w, 'd) MissionService \<Rightarrow> summary \<Rightarrow> string \<times> work_row \<Rightarrow> ('h, 'w, 'd) MissionService \<times> summary" where
  "reconcile_one ck s su rec =
     (case rec of
        (record_state, row) \<Rightarrow>
          (let su1 = su\<lparr>su_checked := su_checked su + 1\<rparr>;
               wid = wi_work_id row;
               mid = (if take 8 wid = ''mission:'' then drop 8 wid else wid)
           in case record_fleet row of
                None \<Rightarrow> (s, su1)
              | Some fleet \<Rightarrow>
                  (case registry_mission_state (ms_registry s) (ck_stamp ck) fleet mid of
                     (reg, Inl _) \<Rightarrow> (s\<lparr>ms_registry := reg\<rparr>, su1)
                   | (reg, Inr state) \<Rightarrow>
                       (let s1 = s\<lparr>ms_registry := reg\<rparr>;
                            finished = (if terminal_state state
                              then mission_finish (ms_audit s1) (ms_work s1) mid (mission_state_value state)
                                     (Some (JObj [(''reconciled'', JBool True)])) None (ck_stamp ck)
                              else Inr (ms_work s1, False))
                        in case finished of
                             Inr (db, True) \<Rightarrow>
                               (release_reservation (s1\<lparr>ms_work := db\<rparr>) (ck_ms ck 0) mid,
                                su1\<lparr>su_updated := su_updated su1 + 1, su_released := su_released su1 + 1\<rparr>)
                           | Inr (db, False) \<Rightarrow>
                               if mission_state_value state \<noteq> record_state \<or> wi_phase row = Some ''dispatching''
                               then (case mission_transition (ms_audit s1) db mid [record_state] (mission_state_value state)
                                            (no_columns\<lparr>mc_expected_phases := SetTo [wi_phase row]\<rparr>) (ck_stamp ck) of
                                       Inl e \<Rightarrow> (s1\<lparr>ms_work := db\<rparr>, su1)
                                     | Inr (db', _) \<Rightarrow> (s1\<lparr>ms_work := db'\<rparr>, su1\<lparr>su_updated := su_updated su1 + 1\<rparr>))
                               else (s1\<lparr>ms_work := db\<rparr>, su1)
                           | Inl e \<Rightarrow> (s1, su1)))))"

fun reconcile_each ::
    "clocks \<Rightarrow> ('h, 'w, 'd) MissionService \<Rightarrow> summary \<Rightarrow> (string \<times> work_row) list \<Rightarrow> ('h, 'w, 'd) MissionService \<times> summary" where
  "reconcile_each ck s su [] = (s, su)"
| "reconcile_each ck s su (r # rs) = (case reconcile_one ck s su r of (s1, su1) \<Rightarrow> reconcile_each ck s1 su1 rs)"

definition reconcile :: "clocks \<Rightarrow> ('h, 'w, 'd) MissionService \<Rightarrow> ('h, 'w, 'd) MissionService \<times> summary" where
  "reconcile ck s = reconcile_each ck s \<lparr>su_checked = 0, su_updated = 0, su_released = 0\<rparr> (active_missions (ms_work s) 500)"

text \<open>The supervisory halt: the latch first, then the stop requests.\<close>

definition halt_fleet ::
    "clocks \<Rightarrow> ('h, 'w, 'd) MissionService \<Rightarrow> string \<Rightarrow> string \<Rightarrow> string \<Rightarrow> ('h, 'w, 'd) MissionService \<times> (string \<times> bool) list result" where
  "halt_fleet ck s why source origin =
     (let sup' = map_option (\<lambda>sv. fst (demand_halt sv (ck_mono ck) (ck_stamp ck) source why origin)) (ms_supervisor s)
      in case request_stop_all (ms_registry s) (ck_stamp ck) why of
           (reg, Inl e) \<Rightarrow> (s\<lparr>ms_supervisor := sup', ms_registry := reg\<rparr>, Inl e)
         | (reg, Inr outcomes) \<Rightarrow>
             (ms_log (s\<lparr>ms_supervisor := sup', ms_registry := reg\<rparr>) (ck_stamp ck) ''fleet.halt_requested'' source
                [(''reason'', JStr (take 200 why)), (''vehicles'', JInt (int (length outcomes))),
                 (''acknowledged'', JInt (int (count_where snd outcomes)))], Inr outcomes))"

definition mission_status :: "('h, 'w, 'd) MissionService \<Rightarrow> string \<Rightarrow> (string \<times> work_row) result" where
  "mission_status s mid = (case mission_get (ms_work s) mid of None \<Rightarrow> Inl schema_error | Some r \<Rightarrow> Inr r)"

definition require_leadership :: "clocks \<Rightarrow> ('h, 'w, 'd) MissionService \<Rightarrow> unit result" where
  "require_leadership ck s = (case ms_lease s of None \<Rightarrow> Inr () | Some l \<Rightarrow> if is_leader l (ck_ms ck 0) then Inr () else Inl LeaseLost)"

section \<open>What each part of a submission leaves alone\<close>

lemma ms_log_frame [simp]:
  "ms_registry (ms_log s st ev sub d) = ms_registry s" "ms_supervisor (ms_log s st ev sub d) = ms_supervisor s"
  "ms_lease (ms_log s st ev sub d) = ms_lease s" "ms_leases (ms_log s st ev sub d) = ms_leases s"
  "ms_minimum_battery (ms_log s st ev sub d) = ms_minimum_battery s" "ms_audit (ms_log s st ev sub d) = ms_audit s"
  "wd_items (ms_work (ms_log s st ev sub d)) = wd_items (ms_work s)"
  by (simp_all add: ms_log_def split: option.split)

lemma release_reservation_frame [simp]:
  "ms_registry (release_reservation s t mid) = ms_registry s" "ms_work (release_reservation s t mid) = ms_work s"
  "ms_audit (release_reservation s t mid) = ms_audit s" "ms_supervisor (release_reservation s t mid) = ms_supervisor s"
  by (simp_all add: release_reservation_def split: option.split)

lemma reserve_frame [simp]:
  "ms_registry (fst (reserve fs ck s m addr pre)) = ms_registry s" "ms_work (fst (reserve fs ck s m addr pre)) = ms_work s"
  "ms_audit (fst (reserve fs ck s m addr pre)) = ms_audit s" "ms_lease (fst (reserve fs ck s m addr pre)) = ms_lease s"
  by (auto simp: reserve_def Let_def split: option.split prod.split sum.split reply.split)

lemma record_preflight_frame [simp]:
  "ms_registry (fst (record_preflight ck s m pre)) = ms_registry s" "ms_audit (fst (record_preflight ck s m pre)) = ms_audit s"
  "ms_lease (fst (record_preflight ck s m pre)) = ms_lease s"
  by (auto simp: record_preflight_def split: option.split prod.split sum.split)

lemma run_preflight_frame [simp]:
  "wd_items (ms_work (fst (run_preflight ck s m addr v))) = wd_items (ms_work s)" "ms_audit (fst (run_preflight ck s m addr v)) = ms_audit s"
  "ms_lease (fst (run_preflight ck s m addr v)) = ms_lease s"
  by (auto simp: run_preflight_def Let_def split: option.split prod.split sum.split)

lemma run_preflight_same:
  assumes "read_only (ms_registry s)"
  shows "same_fleet (ms_registry s) (ms_registry (fst (run_preflight ck s m addr v)))"
proof -
  obtain reg1 r1 where 1: "vehicle_state (ms_registry s) (ck_stamp ck) addr = (reg1, r1)" by fastforce
  then have s1: "same_fleet (ms_registry s) reg1" using query_same(1) [OF assms, of "ck_stamp ck" addr] by simp
  obtain reg2 r2 where 2: "capabilities reg1 (ck_stamp ck) addr = (reg2, r2)" by fastforce
  have "same_fleet reg1 reg2" using query_same(2) [of reg1 "ck_stamp ck" addr] 2 s1 assms same_fleet_read_only by fastforce
  with s1 have "same_fleet (ms_registry s) reg2" by (rule same_fleet_trans)
  with s1 1 2 show ?thesis by (auto simp: run_preflight_def Let_def split: option.split sum.split)
qed

lemma select_vehicle_same:
  assumes "read_only reg"
  shows "same_fleet reg (fst (select_vehicle fs reg t m mb))"
proof -
  obtain reg1 r where l: "list_vehicles reg t (mi_fleet m) = (reg1, r)" by fastforce
  then have one: "same_fleet reg reg1" using list_vehicles_same [OF assms, of t "mi_fleet m"] by simp
  then have "read_only reg1" using assms same_fleet_read_only by blast
  then have "same_fleet reg1 (fst (select_loop fs reg1 t m mb vs None []))" for vs using select_loop_pick by blast
  with one have "same_fleet reg (fst (select_loop fs reg1 t m mb vs None []))" for vs using same_fleet_trans by blast
  with one l show ?thesis by (simp add: select_vehicle_def split_beta split: sum.split)
qed

lemma make_plan_same:
  assumes "read_only (ms_registry s)"
  shows "same_fleet (ms_registry s) (ms_registry (fst (make_plan fs ck s m)))"
proof -
  obtain reg r where sel: "select_vehicle fs (ms_registry s) (ck_stamp ck) m (ms_minimum_battery s) = (reg, r)" by fastforce
  then have one: "same_fleet (ms_registry s) reg" using select_vehicle_same [OF assms, of fs "ck_stamp ck" m] by (metis fst_conv)
  then have ro: "read_only reg" using assms same_fleet_read_only by blast
  have two: "same_fleet (ms_registry s) (ms_registry (fst (run_preflight ck (s\<lparr>ms_registry := reg\<rparr>) m addr v)))" for addr v
    using same_fleet_trans [OF one] run_preflight_same [of "s\<lparr>ms_registry := reg\<rparr>" ck m addr v] ro by simp
  let ?pre = "\<lambda>addr v. run_preflight ck (s\<lparr>ms_registry := reg\<rparr>) m addr v"
  let ?rec = "\<lambda>addr v p. record_preflight ck (fst (?pre addr v)) m p"
  have three: "ms_registry (fst (reserve fs ck (fst (?rec addr v p)) m addr p)) = ms_registry (fst (?pre addr v))" for addr v p by simp
  show ?thesis
    unfolding make_plan_def sel
    by (auto simp: one split: sum.split option.split prod.split)
      (metis fst_conv two three record_preflight_frame(1) reserve_frame(1))+
qed

text \<open>A plan runs the preflight, records it and reserves, or stops on the way.\<close>

lemma make_plan_runs:
  obtains "fst (make_plan fs ck s m) = s"
  | reg addr v where "fst (make_plan fs ck s m) \<in> {s\<lparr>ms_registry := reg\<rparr>,
      fst (run_preflight ck (s\<lparr>ms_registry := reg\<rparr>) m addr v)}"
  | reg addr v pre where "fst (make_plan fs ck s m) \<in> {
      fst (record_preflight ck (fst (run_preflight ck (s\<lparr>ms_registry := reg\<rparr>) m addr v)) m pre),
      fst (reserve fs ck (fst (record_preflight ck (fst (run_preflight ck (s\<lparr>ms_registry := reg\<rparr>) m addr v)) m pre)) m addr pre)}"
proof (cases "\<exists>op reg addr seen fleet v. safety_gate ck s = Inr () \<and> leadership ck s = Inr op \<and>
    select_vehicle fs (ms_registry s) (ck_stamp ck) m (ms_minimum_battery s) = (reg, Inr (Some addr, seen)) \<and>
    split_address addr = Inr (fleet, v)")
  case False
  then have "fst (make_plan fs ck s m) = s \<or> (\<exists>reg. fst (make_plan fs ck s m) = s\<lparr>ms_registry := reg\<rparr>)"
    by (auto simp: make_plan_def split: sum.split option.split prod.split)
  with that(1,2) show ?thesis by blast
next
  case True
  then obtain op reg addr seen fleet v where t: "safety_gate ck s = Inr ()" "leadership ck s = Inr op"
    "select_vehicle fs (ms_registry s) (ck_stamp ck) m (ms_minimum_battery s) = (reg, Inr (Some addr, seen))"
    "split_address addr = Inr (fleet, v)" by blast
  obtain s1 r1 where 1: "run_preflight ck (s\<lparr>ms_registry := reg\<rparr>) m addr v = (s1, r1)" by fastforce
  show ?thesis
  proof (cases r1)
    case (Inl e)
    with t 1 have "fst (make_plan fs ck s m) = s1" by (simp add: make_plan_def)
    with 1 show ?thesis by (intro that(2) [of reg addr v]) simp
  next
    case (Inr pre)
    obtain s2 r2 where 2: "record_preflight ck s1 m pre = (s2, r2)" by fastforce
    obtain s3 r3 where 3: "reserve fs ck s2 m addr pre = (s3, r3)" by fastforce
    have "fst (make_plan fs ck s m) \<in> {s2, s3}"
      using t 1 2 3 Inr by (simp add: make_plan_def split: sum.split)
    with 1 2 3 show ?thesis by (intro that(3) [of reg addr v pre]) simp
  qed
qed

lemma make_plan_frame [simp]:
  "ms_lease (fst (make_plan fs ck s m)) = ms_lease s" "ms_audit (fst (make_plan fs ck s m)) = ms_audit s"
  by (rule make_plan_runs [of fs ck s m]; auto)+

lemma make_plan_Inr:
  assumes "make_plan fs ck s m = (s1, Inr pl)"
  shows "safety_gate ck s = Inr () \<and> leadership ck s = Inr (pl_operation pl) \<and>
    (\<exists>reg seen. select_vehicle fs (ms_registry s) (ck_stamp ck) m (ms_minimum_battery s) = (reg, Inr (Some (pl_address pl), seen)))"
  using assms unfolding make_plan_def
  by (auto split: sum.splits option.splits prod.splits)

lemma work_transition_True:
  assumes "work_transition aud db wid kind xs ph st t ch = (db', True)"
  shows "\<exists>row. work_get db wid (Some kind) = Some row \<and> wi_state row \<in> set xs \<and> (case ph of None \<Rightarrow> True | Some ps \<Rightarrow> wi_phase row \<in> set ps) \<and>
     work_get db' wid (Some kind) = Some (apply_change ch st t row)"
proof -
  obtain row where row: "work_get db wid (Some kind) = Some row" "wi_state row \<in> set xs" "case ph of None \<Rightarrow> True | Some ps \<Rightarrow> wi_phase row \<in> set ps"
    and items: "wd_items db' = update_where (\<lambda>r. wi_work_id r = wid \<and> wi_kind r = kind \<and> wi_state r = wi_state row) (apply_change ch st t) (wd_items db)"
    using assms by (auto simp: work_transition_def split: option.splits if_splits)
  have keys: "wi_work_id (apply_change ch st t r) = wi_work_id r" "wi_kind (apply_change ch st t r) = wi_kind r" for r
    by (simp_all add: apply_change_def)
  have "find (\<lambda>r. wi_work_id r = wid \<and> wi_kind r = kind) (update_where (\<lambda>r. wi_work_id r = wid \<and> wi_kind r = kind \<and> wi_state r = wi_state row) (apply_change ch st t) rows) = Some (apply_change ch st t row)"
    if "find (\<lambda>r. wi_work_id r = wid \<and> wi_kind r = kind) rows = Some row" for rows
    using that by (induction rows) (auto simp: keys split: if_splits)
  with row show ?thesis by (auto simp: work_get_def items)
qed

lemma prepare_dispatch_True:
  assumes "prepare_dispatch aud db mid addr fleet fence pre t = Inr (db', True)"
  shows "\<exists>row. mission_get db' mid = Some (''ASSIGNED'', row) \<and> wi_state row = RUNNING \<and> wi_phase row = Some ''dispatching'' \<and>
     wi_assigned_to row = Some addr \<and> wi_fence row = fence"
proof -
  obtain xs ph ch where w: "work_transition aud db (mission_work_id mid) ''mission'' xs ph RUNNING t ch = (db', True)"
    and ch: "wc_phase ch = SetTo (Some ''dispatching'')" "wc_assigned_to ch = SetTo (Some addr)" "wc_fence ch = SetTo fence"
    using assms by (auto simp: prepare_dispatch_def mission_transition_def STATE_TO_LIFECYCLE_def no_columns_def no_change_def Let_def)
  have upper: "py_upper ''assigned'' = ''ASSIGNED''" by code_simp
  obtain row where "work_get db' (mission_work_id mid) (Some ''mission'') = Some (apply_change ch RUNNING t row)"
    using work_transition_True [OF w] by blast
  then have "mission_get db' mid = Some (''ASSIGNED'', apply_change ch RUNNING t row)"
    by (simp add: mission_get_def mission_state_def apply_change_def ch upper)
  then show ?thesis by (intro exI [of _ "apply_change ch RUNNING t row"]) (simp add: apply_change_def ch)
qed

text \<open>The states of a submission that the properties speak about: after the durable record, and at the moment of effect.\<close>

definition accepted :: "clocks \<Rightarrow> ('h, 'w, 'd) MissionService \<Rightarrow> Mission \<Rightarrow> ('h, 'w, 'd) MissionService" where
  "accepted ck s m =
     ms_log (s\<lparr>ms_work := fst (projr (mission_accept (ms_audit s) (ms_work s) (mi_mission_id m) (mi_requested_by m) (mission_to_dict m)
                (mi_priority m) (mi_fleet m) (mi_deadline_at m) (ck_stamp ck)))\<rparr>) (ck_stamp ck) ''mission.accepted'' (mi_requested_by m)
       [(''mission_id'', JStr (mi_mission_id m)), (''steps'', JInt (int (length (mi_steps m))))]"

definition at_effect ::
    "py_parse \<Rightarrow> clocks \<Rightarrow> (('h, 'w, 'd) MissionService \<Rightarrow> ('h, 'w, 'd) MissionService) \<Rightarrow> ('h, 'w, 'd) MissionService \<Rightarrow> Mission \<Rightarrow>
     ('h, 'w, 'd) MissionService" where
  "at_effect fs ck before s m = before (fst (make_plan fs ck (accepted ck s m) m))"

lemma mission_accept_total:
  "\<exists>db fresh. mission_accept aud db0 mid by d p f dl t = Inr (db, fresh) \<and> (\<not> fresh \<longrightarrow> db = db0) \<and>
     (fresh \<longrightarrow> mission_get db0 mid = None)"
  by (auto simp: mission_accept_def work_create_def mission_get_def work_get_def list_ex_iff clashes_def find_None_all)

lemma reject_mission_frame [simp]: "ms_registry (fst (reject_mission ck s m c)) = ms_registry s"
  by (auto simp: reject_mission_def split: sum.split prod.split)

lemma not_queued_frame [simp]: "ms_registry (fst (not_queued ck s m)) = ms_registry s"
  by (simp add: not_queued_def Let_def)

lemma after_dispatch_frame [simp]: "ms_registry (fst (after_dispatch ck s m pl v)) = ms_registry s"
  by (auto simp: after_dispatch_def Let_def split: sum.split prod.split bool.split option.split)

lemma commit_plan_world:
  assumes quiet: "\<And>x. fr_world (ms_registry (after x)) = fr_world (ms_registry x)"
    and "fr_world (ms_registry (fst (commit_plan ck after q m pl))) \<noteq> fr_world (ms_registry q)"
  shows "fence_check ck q pl = Inr () \<and>
    (\<exists>db. prepare_dispatch (ms_audit q) (ms_work q) (mi_mission_id m) (pl_address pl) (pl_fleet pl)
       (map_option fo_fence (pl_operation pl)) (preflight_json (pl_preflight pl)) (ck_stamp ck) = Inr (db, True))"
  using assms(2) quiet unfolding commit_plan_def
  by (auto split: sum.splits prod.splits bool.splits)

text \<open>A mission that is new is recorded and dispatched, and rejected when the dispatch raises.\<close>

lemma submit_fresh:
  assumes acc: "mission_accept (ms_audit s) (ms_work s) (mi_mission_id m) (mi_requested_by m) (mission_to_dict m)
      (mi_priority m) (mi_fleet m) (mi_deadline_at m) (ck_stamp ck) = Inr (db, True)"
    and d: "ms_dispatch fs ck before after (accepted ck s m) m = (s1, r)"
  shows "submit fs ck before after s m =
    (case r of
       Inr a \<Rightarrow> (s1, Inr a)
     | Inl (FaspError c) \<Rightarrow> (fst (reject_mission ck s1 m c), Inl (snd (reject_mission ck s1 m c)))
     | Inl _ \<Rightarrow> (fst (reject_mission ck s1 m ''internal.adapter_error''), Inl (snd (reject_mission ck s1 m ''internal.adapter_error''))))"
  using d by (simp add: submit_def acc accepted_def split_beta split: sum.split exn.split)

lemma submit_cases:
  obtains (duplicate) "submit fs ck before after s m = (s, Inr (MissionDuplicate (mission_get (ms_work s) (mi_mission_id m))))"
  | (run) "mission_get (ms_work s) (mi_mission_id m) = None"
      "ms_registry (fst (submit fs ck before after s m)) = ms_registry (fst (ms_dispatch fs ck before after (accepted ck s m) m))"
proof -
  obtain db fresh where acc: "mission_accept (ms_audit s) (ms_work s) (mi_mission_id m) (mi_requested_by m) (mission_to_dict m)
      (mi_priority m) (mi_fleet m) (mi_deadline_at m) (ck_stamp ck) = Inr (db, fresh)"
    and old: "\<not> fresh \<longrightarrow> db = ms_work s" "fresh \<longrightarrow> mission_get (ms_work s) (mi_mission_id m) = None"
    using mission_accept_total by blast
  show ?thesis
  proof (cases fresh)
    case False
    with acc old show ?thesis by (intro duplicate) (simp add: submit_def)
  next
    case True
    obtain s1 r where d: "ms_dispatch fs ck before after (accepted ck s m) m = (s1, r)" by fastforce
    have acc': "mission_accept (ms_audit s) (ms_work s) (mi_mission_id m) (mi_requested_by m) (mission_to_dict m)
        (mi_priority m) (mi_fleet m) (mi_deadline_at m) (ck_stamp ck) = Inr (db, True)" using acc True by simp
    have "ms_registry (fst (submit fs ck before after s m)) = ms_registry s1"
      unfolding submit_fresh [OF acc' d] by (simp split: sum.split exn.split)
    with True old d show ?thesis by (intro run) simp_all
  qed
qed

lemma accepted_frame [simp]:
  "ms_registry (accepted ck s m) = ms_registry s" "ms_supervisor (accepted ck s m) = ms_supervisor s"
  "ms_lease (accepted ck s m) = ms_lease s" "ms_minimum_battery (accepted ck s m) = ms_minimum_battery s"
  by (simp_all add: accepted_def)

lemma safety_gate_latch: "safety_gate ck s = Inr () \<Longrightarrow> ms_supervisor s = Some sv \<Longrightarrow> \<not> sv_latched sv"
  by (auto simp: safety_gate_def permit_motion_def Let_def split: if_splits)

lemma select_vehicle_eligible:
  assumes "read_only reg" and "select_vehicle fs reg t m mb = (reg', Inr (Some a, seen))"
  shows "\<exists>reg1 vs v. list_vehicles reg t (mi_fleet m) = (reg1, Inr vs) \<and> (a, v) \<in> set vs \<and> eligible fs reg t m mb a v"
proof -
  obtain reg1 vs where l: "list_vehicles reg t (mi_fleet m) = (reg1, Inr vs)"
    using assms(2) by (auto simp: select_vehicle_def split: prod.splits sum.splits)
  have one: "same_fleet reg reg1" using list_vehicles_same [OF assms(1), of t "mi_fleet m"] l by simp
  then have ro: "read_only reg1" using assms(1) same_fleet_read_only by blast
  have el: "eligible fs reg1 t m mb = eligible fs reg t m mb" using one by (intro ext) (rule eligible_cong)
  have "map_option snd (pick (eligible fs reg t m mb) vs None) = Some a"
    using assms(2) l select_loop_pick [OF ro, of fs t m mb vs None "[]"] el by (auto simp: select_vehicle_def split: prod.splits)
  then obtain sc where "pick (eligible fs reg t m mb) vs None = Some (sc, a)" by auto
  from pick_mem [OF this] l show ?thesis by auto
qed

end
