(* ===== verification/Programs.thy ===== *)
theory Programs
  imports Prelude
begin

text \<open>
  Handlers that run on several threads over one shared state. A handler is a program: a sequence of
  atomic actions, each a database transaction or a call of an external component, with pure code in
  between; what happens next may depend on what an action returned. A pool of threads takes steps in
  any order, new programs may arrive and the environment may act at any time.

  The locale \<open>token_system\<close> gives the counting argument the handlers need: a budget of the
  shared state that only shrinks, of which a transition may hand tokens to the thread that makes it.
\<close>

datatype ('s, 'r) prog = Done 'r | Act "'s \<Rightarrow> 's \<times> ('s, 'r) prog"

primrec bind_prog :: "('s, 'a) prog \<Rightarrow> ('a \<Rightarrow> ('s, 'b) prog) \<Rightarrow> ('s, 'b) prog" where
  "bind_prog (Done r) k = k r"
| "bind_prog (Act f) k = Act (map_prod id (\<lambda>p. bind_prog p k) \<circ> f)"

definition atomic :: "('s \<Rightarrow> 's \<times> 'a) \<Rightarrow> ('s, 'a) prog" where
  "atomic f = Act (\<lambda>s. (fst (f s), Done (snd (f s))))"

text \<open>The program run alone, with nobody else touching the state.\<close>

primrec run_prog :: "('s, 'r) prog \<Rightarrow> 's \<Rightarrow> 's \<times> 'r" where
  "run_prog (Done r) = (\<lambda>s. (s, r))"
| "run_prog (Act f) = (\<lambda>s. case (map_prod id run_prog \<circ> f) s of (s', g) \<Rightarrow> g s')"

lemma run_bind [simp]: "run_prog (bind_prog p k) s = (case run_prog p s of (s', r) \<Rightarrow> run_prog (k r) s')"
proof (induction p arbitrary: s)
  case (Done r)
  show ?case by simp
next
  case (Act f)
  obtain s' p where "f s = (s', p)" by (cases "f s")
  then show ?case using Act.IH [OF rangeI, of p s s'] by (simp add: snds.intros)
qed

lemma run_atomic [simp]: "run_prog (atomic f) s = f s"
  by (simp add: atomic_def)

lemma bind_atomic: "bind_prog (atomic f) k = Act (\<lambda>s. (fst (f s), k (snd (f s))))"
  by (simp add: atomic_def comp_def)

section \<open>Traces\<close>

text \<open>The actions of one thread with the states it saw, anything having happened in between.\<close>

inductive trace :: "('s, 'r) prog \<Rightarrow> ('s \<times> 's) list \<Rightarrow> ('s, 'r) prog \<Rightarrow> bool" where
  trace_Nil: "trace p [] p"
| trace_Cons: "f s = (s', p) \<Longrightarrow> trace p tr q \<Longrightarrow> trace (Act f) ((s, s') # tr) q"

inductive_cases trace_DoneE: "trace (Done r) tr q"
inductive_cases trace_ActE: "trace (Act f) tr q"

lemma trace_Act_iff:
  "trace (Act f) tr q \<longleftrightarrow> (tr = [] \<and> q = Act f) \<or> (\<exists>s s' p tr'. tr = (s, s') # tr' \<and> f s = (s', p) \<and> trace p tr' q)"
  by (auto elim: trace_ActE intro: trace.intros)

lemma trace_atomic_bindE:
  assumes "trace (bind_prog (atomic f) k) tr q"
  obtains "tr = []" | s tr' where "tr = (s, fst (f s)) # tr'" and "trace (k (snd (f s))) tr' q"
  using assms unfolding bind_atomic by (auto elim!: trace_ActE)

text \<open>The trace of a sequence stops within the first program, or is a complete trace of it and a trace of the rest.\<close>

lemma trace_bind:
  assumes "trace (bind_prog p k) tr q"
  shows "(\<exists>p'. trace p tr p' \<and> q = bind_prog p' k) \<or> (\<exists>tr1 tr2 r. tr = tr1 @ tr2 \<and> trace p tr1 (Done r) \<and> trace (k r) tr2 q)"
  using assms
proof (induction p arbitrary: tr)
  case (Done r)
  then have "trace (k r) tr q" by simp
  then show ?case using trace_Nil by (metis append_Nil)
next
  case (Act f)
  have "trace (Act (map_prod id (\<lambda>p. bind_prog p k) \<circ> f)) tr q" using Act.prems by simp
  then consider (1) "tr = []" "q = bind_prog (Act f) k"
    | (2) s s' p' tr' where "tr = (s, s') # tr'" "(map_prod id (\<lambda>p. bind_prog p k) \<circ> f) s = (s', p')" "trace p' tr' q"
    unfolding trace_Act_iff by auto
  then show ?case
  proof cases
    case 1
    then have "trace (Act f) tr (Act f) \<and> q = bind_prog (Act f) k" by (simp add: trace_Nil)
    then show ?thesis by blast
  next
    case 2
    obtain p where f: "f s = (s', p)" and p': "p' = bind_prog p k" using 2 by (cases "f s") auto
    have "(s', p) \<in> range f" using f by (metis rangeI)
    then have "(\<exists>p''. trace p tr' p'' \<and> q = bind_prog p'' k) \<or>
        (\<exists>tr1 tr2 r. tr' = tr1 @ tr2 \<and> trace p tr1 (Done r) \<and> trace (k r) tr2 q)"
      by (rule Act.IH) (use 2 p' in \<open>simp_all add: snds.intros\<close>)
    then show ?thesis
    proof (elim disjE exE conjE)
      fix p'' assume "trace p tr' p''" "q = bind_prog p'' k"
      then show ?thesis using trace_Cons [of f s s' p, OF f] 2 by blast
    next
      fix tr1 tr2 r assume "tr' = tr1 @ tr2" "trace p tr1 (Done r)" "trace (k r) tr2 q"
      then have "tr = ((s, s') # tr1) @ tr2 \<and> trace (Act f) ((s, s') # tr1) (Done r) \<and> trace (k r) tr2 q"
        using trace_Cons [of f s s' p, OF f] 2 by simp
      then show ?thesis by blast
    qed
  qed
qed

text \<open>The trace of a program nobody interrupts, and that a field none of its actions changes is the same at the end.\<close>

lemma trace_of_run:
  assumes "run_prog p s = (s', r)"
  shows "\<exists>tr. trace p tr (Done r) \<and> ((\<forall>(a, b) \<in> set tr. g b = g a) \<longrightarrow> g s' = g s)"
  using assms
proof (induction p arbitrary: s)
  case (Done r')
  then show ?case by (intro exI [of _ "[]"]) (simp add: trace_Nil)
next
  case (Act f)
  obtain s1 p where f: "f s = (s1, p)" by (cases "f s")
  then have "(s1, p) \<in> range f" by (metis rangeI)
  then have "\<exists>tr. trace p tr (Done r) \<and> ((\<forall>(a, b) \<in> set tr. g b = g a) \<longrightarrow> g s' = g s1)"
    by (rule Act.IH) (use Act.prems f in \<open>simp_all add: snds.intros\<close>)
  then obtain tr where "trace p tr (Done r)" "(\<forall>(a, b) \<in> set tr. g b = g a) \<longrightarrow> g s' = g s1" by blast
  then show ?case using trace_Cons [of f s s1 p tr "Done r"] f by (intro exI [of _ "(s, s1) # tr"]) auto
qed

section \<open>Pools of threads\<close>

inductive pool_step ::
    "('s \<Rightarrow> 's \<Rightarrow> ('s, 'r) prog option \<Rightarrow> bool) \<Rightarrow> 's \<times> ('s, 'r) prog list \<Rightarrow> 's \<times> ('s, 'r) prog list \<Rightarrow> bool" for env where
  thread: "i < length ps \<Longrightarrow> ps ! i = Act f \<Longrightarrow> f s = (s', p) \<Longrightarrow> pool_step env (s, ps) (s', ps[i := p])"
| arrival: "env s s' (Some p) \<Longrightarrow> pool_step env (s, ps) (s', ps @ [p])"
| outside: "env s s' None \<Longrightarrow> pool_step env (s, ps) (s', ps)"
| crash: "env s s' None \<Longrightarrow> pool_step env (s, ps) (s', [])"

text \<open>
  A program is safe with \<open>n\<close> tokens when every action is a transition \<open>R\<close> of the shared state and pays
  with a token for every unit it adds to the cost; a transition may hand out tokens, \<open>gain\<close>.
\<close>

inductive safe ::
    "('s \<Rightarrow> bool) \<Rightarrow> ('s \<Rightarrow> 's \<Rightarrow> bool) \<Rightarrow> ('s \<Rightarrow> nat) \<Rightarrow> ('s \<Rightarrow> 's \<Rightarrow> nat) \<Rightarrow> nat \<Rightarrow> ('s, 'r) prog \<Rightarrow> bool"
    for I R cost gain where
  safe_Done: "safe I R cost gain n (Done r)"
| safe_Act: "(\<And>s. I s \<Longrightarrow> R s (fst (f s)) \<and> cost (fst (f s)) + m s \<le> cost s + n + gain s (fst (f s)) \<and>
      safe I R cost gain (m s) (snd (f s))) \<Longrightarrow> safe I R cost gain n (Act f)"

inductive_cases safe_ActE: "safe I R cost gain n (Act f)"

lemma safe_bind:
  assumes "safe I R cost gain n p" and "\<And>m r. safe I R cost gain m (k r)"
  shows "safe I R cost gain n (bind_prog p k)"
  using assms(1)
proof (induction rule: safe.induct)
  case (safe_Done n r)
  show ?case using assms(2) by simp
next
  case (safe_Act f m n)
  then show ?case by (auto intro!: safe.safe_Act [where m = m])
qed

lemma safe_atomic_bind:
  assumes "\<And>s. I s \<Longrightarrow> R s (fst (f s)) \<and> cost (fst (f s)) + m s \<le> cost s + n + gain s (fst (f s))"
    and "\<And>s. I s \<Longrightarrow> safe I R cost gain (m s) (k (snd (f s)))"
  shows "safe I R cost gain n (bind_prog (atomic f) k)"
  unfolding bind_atomic by (rule safe_Act [where m = m]) (use assms in simp)

text \<open>An action that adds nothing to the cost, whatever the thread holds.\<close>

lemma safe_atomic:
  assumes "\<And>s. I s \<Longrightarrow> R s (fst (f s)) \<and> cost (fst (f s)) \<le> cost s"
  shows "safe I R cost gain n (atomic f)"
  unfolding atomic_def
proof (rule safe_Act [where m = "\<lambda>_. n"])
  fix s assume "I s"
  from assms [OF this] show "R s (fst (fst (f s), Done (snd (f s)))) \<and> cost (fst (fst (f s), Done (snd (f s)))) + n
      \<le> cost s + n + gain s (fst (fst (f s), Done (snd (f s)))) \<and> safe I R cost gain n (snd (fst (f s), Done (snd (f s))))"
    by (simp add: safe_Done)
qed

lemma safe_trace:
  assumes "trace p tr q" and "safe (\<lambda>_. True) R cost gain n p"
  shows "\<forall>(s, s') \<in> set tr. R s s'"
  using assms
proof (induction arbitrary: n rule: trace.induct)
  case (trace_Nil p)
  show ?case by simp
next
  case (trace_Cons f s s' p tr q)
  obtain m where m: "\<And>s. R s (fst (f s)) \<and> safe (\<lambda>_. True) R cost gain (m s) (snd (f s))"
    using trace_Cons.prems by (auto elim!: safe_ActE)
  from m [of s] trace_Cons.hyps(1) have "R s s'" "safe (\<lambda>_. True) R cost gain (m s) p" by simp_all
  with trace_Cons.IH show ?case by auto
qed

lemma safe_run:
  assumes "safe I R cost gain n p" and "\<And>s s'. I s \<Longrightarrow> R s s' \<Longrightarrow> I s'" and "I s"
  shows "I (fst (run_prog p s)) \<and> R\<^sup>*\<^sup>* s (fst (run_prog p s))"
  using assms(1,3)
proof (induction arbitrary: s rule: safe.induct)
  case (safe_Done n r)
  then show ?case by simp
next
  case (safe_Act f m n)
  obtain s' p where f: "f s = (s', p)" by (cases "f s")
  have "R s s'" using safe_Act.IH safe_Act.prems f by fastforce
  moreover have "I s'" using assms(2) safe_Act.prems calculation by blast
  moreover have "I (fst (run_prog p s')) \<and> R\<^sup>*\<^sup>* s' (fst (run_prog p s'))"
    using safe_Act.IH [OF safe_Act.prems] f calculation(2) by simp
  ultimately show ?case using f by (simp add: converse_rtranclp_into_rtranclp)
qed

text \<open>A thread that nobody interrupts runs its program to the end.\<close>

lemma run_in_pool:
  assumes "run_prog p s = (s', r)" and "i < length ps" and "ps ! i = p"
  shows "(pool_step env)\<^sup>*\<^sup>* (s, ps) (s', ps[i := Done r])"
  using assms
proof (induction p arbitrary: s ps)
  case (Done r')
  then have "ps[i := Done r] = ps" by (metis Pair_inject list_update_id run_prog.simps(1))
  then show ?case using Done by simp
next
  case (Act f)
  obtain s1 p where f: "f s = (s1, p)" by (cases "f s")
  have "pool_step env (s, ps) (s1, ps[i := p])" by (rule thread [of i ps f]) (use Act.prems f in simp_all)
  moreover have "(s1, p) \<in> range f" using f by (metis rangeI)
  then have "(pool_step env)\<^sup>*\<^sup>* (s1, ps[i := p]) (s', (ps[i := p])[i := Done r])"
    by (rule Act.IH) (use Act.prems f in \<open>simp_all add: snds.intros\<close>)
  ultimately show ?case by (metis converse_rtranclp_into_rtranclp list_update_overwrite)
qed

text \<open>
  The contract of a system: transitions keep the invariant, what they hand out comes from the budget
  of the state, and the environment neither adds to the cost nor brings programs that need tokens.
\<close>

locale token_system =
  fixes I :: "'s \<Rightarrow> bool" and R :: "'s \<Rightarrow> 's \<Rightarrow> bool" and cost budget :: "'s \<Rightarrow> nat" and gain :: "'s \<Rightarrow> 's \<Rightarrow> nat"
    and env :: "'s \<Rightarrow> 's \<Rightarrow> ('s, 'r) prog option \<Rightarrow> bool"
  assumes R_inv: "I s \<Longrightarrow> R s s' \<Longrightarrow> I s'"
    and R_budget: "I s \<Longrightarrow> R s s' \<Longrightarrow> budget s' + gain s s' \<le> budget s"
    and env_R: "I s \<Longrightarrow> env s s' a \<Longrightarrow> R s s' \<and> cost s' \<le> cost s"
    and env_safe: "I s \<Longrightarrow> env s s' (Some p) \<Longrightarrow> safe I R cost gain 0 p"
begin

definition accounted :: "nat \<Rightarrow> 's \<times> ('s, 'r) prog list \<Rightarrow> bool" where
  "accounted B c \<longleftrightarrow>
     I (fst c) \<and> (\<exists>ns. list_all2 (safe I R cost gain) ns (snd c) \<and> cost (fst c) + sum_list ns + budget (fst c) \<le> B)"

lemma accounted_start: "I s \<Longrightarrow> cost s + budget s \<le> B \<Longrightarrow> accounted B (s, [])"
  by (auto simp: accounted_def)

lemma accountedI:
  assumes "I s" and "list_all2 (safe I R cost gain) ns ps" and "cost s + sum_list ns + budget s \<le> B"
  shows "accounted B (s, ps)"
  using assms by (auto simp: accounted_def)

text \<open>What a step takes from the budget without handing it out is gone.\<close>

lemma accounted_step_strict:
  assumes "accounted B c" and "pool_step env c c'"
  shows "accounted (B + budget (fst c') + gain (fst c) (fst c') - budget (fst c)) c'"
proof -
  obtain ns where ns: "I (fst c)" "list_all2 (safe I R cost gain) ns (snd c)" "cost (fst c) + sum_list ns + budget (fst c) \<le> B"
    using assms(1) by (auto simp: accounted_def)
  show ?thesis using assms(2)
  proof cases
    case (thread i ps f s s' p)
    have len: "length ns = length ps" using list_all2_lengthD [OF ns(2)] thread by simp
    have "safe I R cost gain (ns ! i) (Act f)" using list_all2_nthD [OF ns(2), of i] thread len by simp
    then obtain m where m: "\<And>s. I s \<Longrightarrow> R s (fst (f s)) \<and> cost (fst (f s)) + m s \<le> cost s + ns ! i + gain s (fst (f s)) \<and>
        safe I R cost gain (m s) (snd (f s))"
      by (elim safe_ActE) blast
    have mine: "R s s' \<and> cost s' + m s \<le> cost s + ns ! i + gain s s' \<and> safe I R cost gain (m s) p"
      using m [of s] ns(1) thread by simp
    have all: "list_all2 (safe I R cost gain) (ns[i := m s]) (ps[i := p])"
      using ns(2) mine thread by (simp add: list_all2_update_cong)
    have "sum_list (ns[i := m s]) + ns ! i = sum_list ns + m s"
      using sum_list_update [of i ns "m s"] thread len elem_le_sum_list [of i ns] by simp
    then show ?thesis
      using thread mine ns all R_inv [of s s'] by (auto intro!: accountedI [where ns = "ns[i := m s]"])
  next
    case (arrival s s' p ps)
    have "list_all2 (safe I R cost gain) (ns @ [0]) (ps @ [p])"
      using ns env_safe [of s s' p] arrival by (simp add: list_all2_appendI)
    then show ?thesis
      using arrival ns env_R [of s s' "Some p"] R_inv [of s s'] by (auto intro!: accountedI [where ns = "ns @ [0]"])
  next
    case (outside s s' ps)
    then show ?thesis using ns env_R [of s s' None] R_inv [of s s'] by (auto intro!: accountedI [where ns = ns])
  next
    case (crash s s' ps)
    then show ?thesis using ns env_R [of s s' None] R_inv [of s s'] by (auto intro!: accountedI [where ns = "[]"])
  qed
qed

lemma step_R:
  assumes "accounted B c" and "pool_step env c c'"
  shows "R (fst c) (fst c')"
proof -
  obtain ns where ns: "I (fst c)" "list_all2 (safe I R cost gain) ns (snd c)"
    using assms(1) by (auto simp: accounted_def)
  show ?thesis using assms(2)
  proof cases
    case (thread i ps f s s' p)
    have "safe I R cost gain (ns ! i) (Act f)"
      using list_all2_nthD [OF ns(2), of i] list_all2_lengthD [OF ns(2)] thread by simp
    then show ?thesis using ns(1) thread by (auto elim!: safe_ActE)
  qed (use ns env_R in auto)
qed

lemma accounted_mono: "accounted B c \<Longrightarrow> B \<le> B' \<Longrightarrow> accounted B' c"
  unfolding accounted_def by (meson order_trans)

lemma accounted_step:
  assumes "accounted B c" and "pool_step env c c'"
  shows "accounted B c'"
proof -
  have "I (fst c)" using assms(1) by (simp add: accounted_def)
  then have "budget (fst c') + gain (fst c) (fst c') \<le> budget (fst c)" using R_budget step_R [OF assms] by blast
  then show ?thesis by (intro accounted_mono [OF accounted_step_strict [OF assms]]) simp
qed

lemma accounted_steps: "(pool_step env)\<^sup>*\<^sup>* c c' \<Longrightarrow> accounted B c \<Longrightarrow> accounted B c'"
  by (induction rule: rtranclp_induct) (auto dest: accounted_step)

lemma bounded:
  assumes "(pool_step env)\<^sup>*\<^sup>* c c'" and "accounted B c"
  shows "I (fst c') \<and> cost (fst c') + budget (fst c') \<le> B"
  using accounted_steps [OF assms] by (fastforce simp: accounted_def)

end

end
