(* ===== verification/Json_Text.thy ===== *)
theory Json_Text
  imports Prelude "HOL-Library.Word"
begin

text \<open>
  The JSON text the harness writes for its own bookkeeping: \<^verbatim>\<open>_plain_json\<close> of
  \<^verbatim>\<open>src/fasp_harness/core.py\<close>, which is \<^verbatim>\<open>json.dumps\<close> with sorted keys, no white space, no escaping of
  characters outside ASCII and no special floats, encoded in UTF-8. How a float is printed (its
  shortest decimal form) is the parameter \<open>float_text\<close>.
\<close>

type_synonym bytes = "8 word list"

fun nat_text :: "nat \<Rightarrow> string" where
  "nat_text n = (if n < 10 then [char_of (48 + n)] else nat_text (n div 10) @ [char_of (48 + n mod 10)])"

declare nat_text.simps [simp del]

definition int_text :: "int \<Rightarrow> string" where
  "int_text i = (if i < 0 then ''-'' @ nat_text (nat (- i)) else nat_text (nat i))"

definition hex_digit :: "nat \<Rightarrow> char" where
  "hex_digit v = (if v < 10 then char_of (48 + v) else char_of (87 + v))"

definition escape_char :: "char \<Rightarrow> string" where
  "escape_char c =
     (let n = (of_char c :: nat) in
      if n = 34 then [char_of (92 :: nat), c]
      else if n = 92 then [c, c]
      else if n = 10 then [char_of (92 :: nat), CHR ''n'']
      else if n = 13 then [char_of (92 :: nat), CHR ''r'']
      else if n = 9 then [char_of (92 :: nat), CHR ''t'']
      else if n = 8 then [char_of (92 :: nat), CHR ''b'']
      else if n = 12 then [char_of (92 :: nat), CHR ''f'']
      else if n < 32 then [char_of (92 :: nat)] @ ''u00'' @ [hex_digit (n div 16), hex_digit (n mod 16)]
      else [c])"

definition quote_text :: "string \<Rightarrow> string" where
  "quote_text s = [char_of (34 :: nat)] @ concat (map escape_char s) @ [char_of (34 :: nat)]"

fun comma_join :: "string list \<Rightarrow> string" where
  "comma_join [] = []"
| "comma_join [x] = x"
| "comma_join (x # xs) = x @ '','' @ comma_join xs"

fun all_some :: "'a option list \<Rightarrow> 'a list option" where
  "all_some [] = Some []"
| "all_some (None # xs) = None"
| "all_some (Some x # xs) = map_option ((#) x) (all_some xs)"

text \<open>\<open>None\<close> is the \<^verbatim>\<open>ValueError\<close> of a special float.\<close>

fun json_dumps :: "(rat \<Rightarrow> string) \<Rightarrow> json \<Rightarrow> string option" where
  "json_dumps float_text JNull = Some ''null''"
| "json_dumps float_text (JBool b) = Some (if b then ''true'' else ''false'')"
| "json_dumps float_text (JInt i) = Some (int_text i)"
| "json_dumps float_text (JFloat f) = (case f of Fin r \<Rightarrow> Some (float_text r) | _ \<Rightarrow> None)"
| "json_dumps float_text (JStr s) = Some (quote_text s)"
| "json_dumps float_text (JList xs) =
     map_option (\<lambda>ts. ''['' @ comma_join ts @ '']'') (all_some (map (json_dumps float_text) xs))"
| "json_dumps float_text (JObj kvs) =
     map_option (\<lambda>ts. ''{'' @ comma_join ts @ ''}'')
       (all_some (map (\<lambda>(k, t). map_option (\<lambda>v. quote_text k @ '':'' @ v) t)
          (sort_key fst (map (\<lambda>kv. (fst kv, json_dumps float_text (snd kv))) kvs))))"

definition utf8_char :: "char \<Rightarrow> bytes" where
  "utf8_char c =
     (let n = (of_char c :: nat) in
      if n < 128 then [of_nat n] else [of_nat (192 + n div 64), of_nat (128 + n mod 64)])"

definition utf8 :: "string \<Rightarrow> bytes" where
  "utf8 s = concat (map utf8_char s)"

definition plain_json :: "(rat \<Rightarrow> string) \<Rightarrow> json \<Rightarrow> bytes option" where
  "plain_json float_text v = map_option utf8 (json_dumps float_text v)"

end
