(* ===== verification/Artifacts.thy ===== *)
theory Artifacts
  imports Json_Text
begin

text \<open>
  Content-addressed storage of large results: \<^verbatim>\<open>src/fasp_harness/artifacts/store.py\<close>. The metadata and
  access tables are lists of rows, the directory is a map from file names (the hexadecimal digest,
  within its shard) to bytes. SHA-256 is the parameter \<open>sha\<close>. Anything may happen to the files behind
  the store's back: the step relation has an event that replaces the directory.
\<close>

record artifact_row =
  at_artifact_id :: string
  at_media_type :: string
  at_digest :: string
  at_size_bytes :: nat
  at_created_by :: string
  at_created_at :: timestamp
  at_retention_until :: "timestamp option"
  at_storage_path :: string

record ArtifactStore =
  as_rows :: "artifact_row list"
  as_access :: "(string \<times> string) list"
  as_files :: "string \<rightharpoonup> bytes"
  as_max_total_bytes :: nat

definition total_bytes :: "ArtifactStore \<Rightarrow> nat" where
  "total_bytes s = sum_list (map at_size_bytes (as_rows s))"

definition digest_of :: "(bytes \<Rightarrow> string) \<Rightarrow> bytes \<Rightarrow> string" where
  "digest_of sha data = ''sha-256:'' @ sha data"

definition expired_at :: "timestamp \<Rightarrow> artifact_row \<Rightarrow> bool" where
  "expired_at cutoff r = (case at_retention_until r of None \<Rightarrow> False | Some t \<Rightarrow> t \<le> cutoff)"

text \<open>\<open>stuck\<close> are the paths the operating system does not unlink; the error is ignored.\<close>

definition purge_expired :: "ArtifactStore \<Rightarrow> timestamp \<Rightarrow> (string \<Rightarrow> bool) \<Rightarrow> ArtifactStore \<times> nat" where
  "purge_expired s cutoff stuck =
     (let gone = filter (expired_at cutoff) (as_rows s)
      in if gone = [] then (s, 0)
         else (s\<lparr>as_rows := filter (\<lambda>r. at_artifact_id r \<notin> set (map at_artifact_id gone)) (as_rows s),
                 as_access := filter (\<lambda>a. fst a \<notin> set (map at_artifact_id gone)) (as_access s),
                 as_files := (\<lambda>p. if p \<in> set (map at_storage_path gone) \<and> \<not> stuck p then None else as_files s p)\<rparr>,
               length gone))"

definition artifact_get :: "ArtifactStore \<Rightarrow> string \<Rightarrow> artifact_row option" where
  "artifact_get s aid = find (\<lambda>r. at_artifact_id r = aid) (as_rows s)"

definition can_fetch :: "ArtifactStore \<Rightarrow> string \<Rightarrow> string \<Rightarrow> bool" where
  "can_fetch s aid peer_id \<longleftrightarrow> (aid, peer_id) \<in> set (as_access s)"

text \<open>
  \<open>token\<close> is the random part of a new identifier; one that is taken violates the primary key after
  the bytes have been written.
\<close>

definition put_locked ::
    "(bytes \<Rightarrow> string) \<Rightarrow> ArtifactStore \<Rightarrow> string \<Rightarrow> bytes \<Rightarrow> string \<Rightarrow> string \<Rightarrow> timestamp \<Rightarrow> int option \<Rightarrow>
     ArtifactStore \<times> artifact_row result" where
  "put_locked sha s token data media_type created_by at_time retention =
     (let digest = digest_of sha data
      in case find (\<lambda>r. at_digest r = digest) (as_rows s) of
           Some existing \<Rightarrow>
             (s\<lparr>as_access := (if (at_artifact_id existing, created_by) \<in> set (as_access s) then as_access s
                              else as_access s @ [(at_artifact_id existing, created_by)])\<rparr>, Inr existing)
         | None \<Rightarrow>
             if total_bytes s + length data > as_max_total_bytes s then (s, Inl (FaspError ''resource.exhausted''))
             else (let aid = ''artifact-'' @ token;
                       path = sha data;
                       s1 = s\<lparr>as_files := (as_files s)(path \<mapsto> data)\<rparr>;
                       row = \<lparr>at_artifact_id = aid, at_media_type = media_type, at_digest = digest, at_size_bytes = length data,
                              at_created_by = created_by, at_created_at = at_time,
                              at_retention_until = map_option (\<lambda>d. at_time + d) retention, at_storage_path = path\<rparr>
                   in if artifact_get s aid \<noteq> None then (s1, Inl OtherException)
                      else (s1\<lparr>as_rows := as_rows s @ [row], as_access := as_access s @ [(aid, created_by)]\<rparr>, Inr row)))"

definition artifact_put ::
    "(bytes \<Rightarrow> string) \<Rightarrow> ArtifactStore \<Rightarrow> timestamp \<Rightarrow> (string \<Rightarrow> bool) \<Rightarrow> string \<Rightarrow> bytes \<Rightarrow> string \<Rightarrow> string \<Rightarrow> timestamp \<Rightarrow> int option \<Rightarrow>
     ArtifactStore \<times> artifact_row result" where
  "artifact_put sha s now stuck token data media_type created_by at_time retention =
     put_locked sha (fst (purge_expired s now stuck)) token data media_type created_by at_time retention"

definition read_bytes :: "(bytes \<Rightarrow> string) \<Rightarrow> ArtifactStore \<Rightarrow> string \<Rightarrow> bytes option result" where
  "read_bytes sha s aid =
     (case artifact_get s aid of
        None \<Rightarrow> Inr None
      | Some r \<Rightarrow>
          (case as_files s (at_storage_path r) of
             None \<Rightarrow> Inl (FaspError ''storage.artifact_unavailable'')
           | Some data \<Rightarrow>
               if length data \<noteq> at_size_bytes r \<or> digest_of sha data \<noteq> at_digest r
               then Inl (FaspError ''storage.artifact_corrupt'') else Inr (Some data)))"

text \<open>One event, at the time \<open>now\<close> the process reads for its purge.\<close>

inductive artifact_step :: "(bytes \<Rightarrow> string) \<Rightarrow> timestamp \<Rightarrow> ArtifactStore \<Rightarrow> ArtifactStore \<Rightarrow> bool" for sha now where
  a_put: "artifact_step sha now s (fst (artifact_put sha s now stuck token data mt by t ret))"
| a_purge: "artifact_step sha now s (fst (purge_expired s now stuck))"
| a_tamper: "artifact_step sha now s (s\<lparr>as_files := files\<rparr>)"

definition some_artifact_step :: "(bytes \<Rightarrow> string) \<Rightarrow> ArtifactStore \<Rightarrow> ArtifactStore \<Rightarrow> bool" where
  "some_artifact_step sha s t \<longleftrightarrow> (\<exists>now. artifact_step sha now s t)"

text \<open>An event that happens while the record \<open>r\<close> is within its retention.\<close>

definition step_within :: "(bytes \<Rightarrow> string) \<Rightarrow> artifact_row \<Rightarrow> ArtifactStore \<Rightarrow> ArtifactStore \<Rightarrow> bool" where
  "step_within sha r s t \<longleftrightarrow> (\<exists>now. \<not> expired_at now r \<and> artifact_step sha now s t)"

definition empty_store :: "nat \<Rightarrow> ArtifactStore" where
  "empty_store cap = \<lparr>as_rows = [], as_access = [], as_files = Map.empty, as_max_total_bytes = cap\<rparr>"

section \<open>The invariant\<close>

definition store_inv :: "nat \<Rightarrow> ArtifactStore \<Rightarrow> bool" where
  "store_inv cap s \<longleftrightarrow>
     as_max_total_bytes s = cap \<and> total_bytes s \<le> cap \<and> distinct (map at_artifact_id (as_rows s)) \<and> distinct (map at_digest (as_rows s)) \<and>
     (\<forall>a \<in> set (as_access s). \<exists>r \<in> set (as_rows s). at_artifact_id r = fst a)"

lemma sum_list_filter_le: "sum_list (map f (filter p xs)) \<le> sum_list (map f xs)" for f :: "'a \<Rightarrow> nat"
  by (induction xs) auto

lemma purge_frame [simp]:
  "as_max_total_bytes (fst (purge_expired s now stuck)) = as_max_total_bytes s"
  "set (as_rows (fst (purge_expired s now stuck))) \<subseteq> set (as_rows s)"
  by (auto simp: purge_expired_def Let_def)

lemma purge_inv:
  assumes "store_inv cap s"
  shows "store_inv cap (fst (purge_expired s now stuck))"
proof -
  let ?gone = "set (map at_artifact_id (filter (expired_at now) (as_rows s)))"
  have "total_bytes s \<le> cap" using assms by (simp add: store_inv_def)
  then have "sum_list (map at_size_bytes (filter (\<lambda>r. at_artifact_id r \<notin> ?gone) (as_rows s))) \<le> cap"
    using sum_list_filter_le unfolding total_bytes_def by (rule order_trans [rotated])
  with assms show ?thesis
    by (fastforce simp: store_inv_def purge_expired_def Let_def total_bytes_def distinct_map_filter)
qed

lemma put_locked_inv:
  assumes inv: "store_inv cap s"
  shows "store_inv cap (fst (put_locked sha s token data mt by t ret))"
proof (cases "find (\<lambda>r. at_digest r = digest_of sha data) (as_rows s)")
  case (Some r)
  have "r \<in> set (as_rows s)" using find_Some_mem [OF Some] by simp
  with Some inv show ?thesis by (auto simp: put_locked_def Let_def store_inv_def total_bytes_def)
next
  case None
  then have fresh: "digest_of sha data \<notin> at_digest ` set (as_rows s)" by (auto simp: find_None_all)
  show ?thesis
  proof (cases "total_bytes s + length data > as_max_total_bytes s \<or> artifact_get s (''artifact-'' @ token) \<noteq> None")
    case True
    with None inv show ?thesis by (auto simp: put_locked_def Let_def store_inv_def total_bytes_def)
  next
    case False
    then have "''artifact-'' @ token \<notin> at_artifact_id ` set (as_rows s)" by (auto simp: artifact_get_def find_None_all)
    with False None inv fresh show ?thesis
      by (auto simp: put_locked_def Let_def store_inv_def total_bytes_def)
  qed
qed

lemma artifact_step_inv:
  assumes inv: "store_inv cap s" and step: "artifact_step sha now s t"
  shows "store_inv cap t"
  using step
proof cases
  case a_put
  then show ?thesis unfolding artifact_put_def by (simp add: put_locked_inv [OF purge_inv [OF inv]])
next
  case a_purge
  then show ?thesis by (simp add: purge_inv [OF inv])
next
  case a_tamper
  then show ?thesis using inv by (simp add: store_inv_def total_bytes_def)
qed

interpretation artifacts: invariant_system "\<lambda>s. s = empty_store cap" "some_artifact_step sha" "store_inv cap"
proof unfold_locales
  show "store_inv cap s" if "s = empty_store cap" for s using that by (simp add: empty_store_def store_inv_def total_bytes_def)
  show "store_inv cap t" if "store_inv cap s" and "some_artifact_step sha s t" for s t
    using that artifact_step_inv unfolding some_artifact_step_def by blast
qed

section \<open>What a record promises\<close>

text \<open>A record that is still there is the record that was there: rows are never changed, and identifiers are not reused while they live.\<close>

lemma put_locked_rows:
  "as_rows (fst (put_locked sha s token data mt by t ret)) = as_rows s \<or>
   (\<exists>r. as_rows (fst (put_locked sha s token data mt by t ret)) = as_rows s @ [r] \<and> artifact_get s (at_artifact_id r) = None)"
  by (auto simp: put_locked_def Let_def split: option.split)

lemma artifact_get_iff:
  assumes "store_inv cap s"
  shows "artifact_get s aid = Some r \<longleftrightarrow> r \<in> set (as_rows s) \<and> at_artifact_id r = aid"
proof
  show "r \<in> set (as_rows s) \<and> at_artifact_id r = aid" if "artifact_get s aid = Some r"
    using find_Some_mem [OF that [unfolded artifact_get_def]] by simp
  show "artifact_get s aid = Some r" if "r \<in> set (as_rows s) \<and> at_artifact_id r = aid"
    using that assms find_distinct_key [of at_artifact_id "as_rows s" r] by (auto simp: artifact_get_def store_inv_def)
qed

definition kept :: "artifact_row \<Rightarrow> string \<Rightarrow> ArtifactStore \<Rightarrow> bool" where
  "kept r peer s \<longleftrightarrow> r \<in> set (as_rows s) \<and> (at_artifact_id r, peer) \<in> set (as_access s)"

lemma purge_keeps:
  assumes "store_inv cap s" and "kept r peer s" and "\<not> expired_at now r"
  shows "kept r peer (fst (purge_expired s now stuck))"
proof -
  have "r' = r" if "r' \<in> set (as_rows s)" "at_artifact_id r' = at_artifact_id r" for r'
    using assms that by (auto simp: store_inv_def kept_def distinct_map inj_on_def)
  with assms show ?thesis by (auto simp: kept_def purge_expired_def Let_def)
qed

lemma put_locked_keeps: "kept r peer s \<Longrightarrow> kept r peer (fst (put_locked sha s token data mt by t ret))"
  by (auto simp: kept_def put_locked_def Let_def split: option.split)

lemma step_keeps:
  assumes "store_inv cap s" and "kept r peer s" and "step_within sha r s t"
  shows "store_inv cap t \<and> kept r peer t"
proof -
  obtain now where fresh: "\<not> expired_at now r" and step: "artifact_step sha now s t"
    using assms(3) unfolding step_within_def by blast
  have "kept r peer t" using step
  proof cases
    case a_put
    then show ?thesis unfolding artifact_put_def by (simp add: put_locked_keeps purge_keeps [OF assms(1,2) fresh])
  next
    case a_purge
    then show ?thesis by (simp add: purge_keeps [OF assms(1,2) fresh])
  next
    case a_tamper
    then show ?thesis using assms(2) by (simp add: kept_def)
  qed
  with artifact_step_inv [OF assms(1) step] show ?thesis ..
qed

lemma steps_keep:
  assumes "(step_within sha r)\<^sup>*\<^sup>* s t" and "store_inv cap s" and "kept r peer s"
  shows "store_inv cap t \<and> kept r peer t"
  using assms by (induction rule: rtranclp_induct) (auto dest: step_keeps)

lemma put_locked_result:
  assumes "put_locked sha s token data mt by t ret = (s', Inr r)"
  shows "kept r by s' \<and> at_digest r = digest_of sha data"
  using assms find_Some_mem [of "\<lambda>r. at_digest r = digest_of sha data" "as_rows s"]
  by (auto simp: put_locked_def Let_def kept_def split: option.splits if_splits)

lemma read_bytes_of_kept:
  assumes "store_inv cap s" and "kept r peer s" and "at_digest r = digest_of sha data"
    and "\<And>d. sha d = sha data \<Longrightarrow> d = data"
  shows "read_bytes sha s (at_artifact_id r) \<in> {Inr (Some data), Inl (FaspError ''storage.artifact_unavailable''), Inl (FaspError ''storage.artifact_corrupt'')}"
proof -
  have "artifact_get s (at_artifact_id r) = Some r"
    using assms(2) artifact_get_iff [OF assms(1)] by (simp add: kept_def)
  moreover have "d = data" if "digest_of sha d = digest_of sha data" for d
    using that assms(4) by (simp add: digest_of_def)
  ultimately show ?thesis using assms(3) by (auto simp: read_bytes_def split: option.split)
qed

text \<open>
  C15. Whatever happens to the files on disk, a stored artifact is never read back as different bytes:
  after a put of \<open>data\<close> (bytes without a second preimage of their digest) answered with record \<open>r\<close>, and any sequence of puts, purges and changes of the
  directory within the retention of \<open>r\<close>, reading \<open>r\<close> gives exactly \<open>data\<close> or one of the two storage
  errors, never silence and never other bytes, and the peer it was stored for may still fetch it.
\<close>

theorem artifact_integrity:
  assumes "\<And>d. sha d = sha data \<Longrightarrow> d = data"
    and "reachable (\<lambda>s. s = empty_store cap) (some_artifact_step sha) s"
    and "artifact_put sha s now stuck token data mt by t ret = (s1, Inr r)"
    and "(step_within sha r)\<^sup>*\<^sup>* s1 s2"
  shows "read_bytes sha s2 (at_artifact_id r) \<in> {Inr (Some data), Inl (FaspError ''storage.artifact_unavailable''), Inl (FaspError ''storage.artifact_corrupt'')} \<and>
         can_fetch s2 (at_artifact_id r) by"
proof -
  have inv: "store_inv cap s" using artifacts.reachable_inv [OF assms(2)] .
  then have inv1: "store_inv cap s1"
    using put_locked_inv [OF purge_inv [OF inv]] assms(3) unfolding artifact_put_def by (metis fst_conv)
  have put: "kept r by s1 \<and> at_digest r = digest_of sha data"
    using put_locked_result assms(3) unfolding artifact_put_def by blast
  have "store_inv cap s2 \<and> kept r by s2" using steps_keep [OF assms(4) inv1] put by blast
  then show ?thesis
    using read_bytes_of_kept [of cap s2 r "by" sha data] put assms(1) by (simp add: can_fetch_def kept_def)
qed

text \<open>
  The store stays bounded: in every reachable state the recorded sizes sum to at most the configured limit,
  no two records share an identifier or a digest, and no access right outlives its record.
\<close>

theorem artifact_store_bounded:
  assumes "reachable (\<lambda>s. s = empty_store cap) (some_artifact_step sha) s"
  shows "store_inv cap s"
  using artifacts.reachable_inv [OF assms] .

text \<open>A run on a toy digest: store, lose the directory to corruption, read.\<close>

definition demo_sha :: "bytes \<Rightarrow> string" where
  "demo_sha d = map (\<lambda>b. char_of (unat b)) d"

lemma demo_sha_inj: "demo_sha d = demo_sha e \<Longrightarrow> d = e"
proof (induction d arbitrary: e)
  case Nil
  then show ?case by (simp add: demo_sha_def)
next
  case (Cons b d)
  then obtain c e' where e: "e = c # e'" "char_of (unat b) = (char_of (unat c) :: char)" "demo_sha d = demo_sha e'"
    by (auto simp: demo_sha_def)
  from e(2) have "unat b mod 256 = unat c mod 256" by (metis of_char_of)
  then have "b = c" using unsigned_less [of b, where 'a = nat] unsigned_less [of c, where 'a = nat] by (simp add: unsigned_word_eqI)
  with e Cons.IH [OF e(3)] show ?case by simp
qed

theorem artifact_integrity_witness:
  "let (s1, r) = artifact_put demo_sha (empty_store 4) 10 (\<lambda>_. False) ''a'' [1, 2] ''m'' ''p'' 10 (Some 5);
       s2 = s1\<lparr>as_files := [demo_sha [1, 2] \<mapsto> [1, 3]]\<rparr>
   in r = Inr (the (artifact_get s1 ''artifact-a'')) \<and>
      read_bytes demo_sha s1 ''artifact-a'' = Inr (Some [1, 2]) \<and>
      read_bytes demo_sha s2 ''artifact-a'' \<in> {Inr (Some [1, 2]), Inl (FaspError ''storage.artifact_unavailable''), Inl (FaspError ''storage.artifact_corrupt'')} \<and>
      can_fetch s2 ''artifact-a'' ''p''"
proof -
  define s1 where "s1 = fst (artifact_put demo_sha (empty_store 4) 10 (\<lambda>_. False) ''a'' [1, 2] ''m'' ''p'' 10 (Some 5))"
  define r where "r = the (artifact_get s1 ''artifact-a'')"
  define s2 where "s2 = s1\<lparr>as_files := [demo_sha [1, 2] \<mapsto> [1, 3]]\<rparr>"
  note ev = artifact_put_def put_locked_def purge_expired_def empty_store_def Let_def artifact_get_def total_bytes_def expired_at_def
  have put: "artifact_put demo_sha (empty_store 4) 10 (\<lambda>_. False) ''a'' [1, 2] ''m'' ''p'' 10 (Some 5) = (s1, Inr r)"
    by (simp add: s1_def r_def ev)
  have r: "at_artifact_id r = ''artifact-a''" "\<not> expired_at 12 r" by (simp_all add: r_def s1_def ev)
  have "step_within demo_sha r s1 s2"
    unfolding step_within_def s2_def using r(2) artifact_step.a_tamper by blast
  then have steps: "(step_within demo_sha r)\<^sup>*\<^sup>* s1 s2" by blast
  have init: "reachable (\<lambda>s. s = empty_store 4) (some_artifact_step demo_sha) (empty_store 4)"
    by (simp add: reachable_init)
  have "read_bytes demo_sha s1 ''artifact-a'' = Inr (Some [1, 2])"
    by (simp add: s1_def ev read_bytes_def digest_of_def)
  with artifact_integrity [OF demo_sha_inj init put steps] put r show ?thesis
    by (simp add: s2_def r_def)
qed

theorem artifact_store_bounded_witness:
  "store_inv 4 (fst (purge_expired (empty_store 4) 7 (\<lambda>_. False)))"
proof -
  have init: "reachable (\<lambda>s. s = empty_store 4) (some_artifact_step demo_sha) (empty_store 4)"
    by (simp add: reachable_init)
  have "some_artifact_step demo_sha (empty_store 4) (fst (purge_expired (empty_store 4) 7 (\<lambda>_. False)))"
    unfolding some_artifact_step_def by (intro exI [of _ 7] artifact_step.a_purge)
  then show ?thesis by (rule artifact_store_bounded [OF reachable_step [OF init]])
qed

end
