(* ===== verification/Timestamps.thy ===== *)
theory Timestamps
  imports Prelude
begin

text \<open>
  \<^verbatim>\<open>src/fasp_harness/timestamps.py\<close> and the part of the calendar of the standard library it uses. An
  instant is a number of milliseconds since the epoch; \<open>stamp\<close> writes it in the fixed-width UTC form
  every table stores, \<open>parse_stamp\<close> reads the RFC 3339 forms the wire contract lets through, in
  microseconds. The lemmas show that stored stamps can be compared as text, which is what the SQL of
  the repositories does and what the other theories use when they compare instants as numbers.
\<close>

section \<open>The calendar\<close>

definition is_leap :: "int \<Rightarrow> bool" where
  "is_leap y \<longleftrightarrow> y mod 4 = 0 \<and> (y mod 100 \<noteq> 0 \<or> y mod 400 = 0)"

definition days_in_month :: "int \<Rightarrow> int \<Rightarrow> int" where
  "days_in_month y m = (if m = 2 then (if is_leap y then 29 else 28) else if m \<in> {4, 6, 9, 11} then 30 else 31)"

definition days_before_year :: "int \<Rightarrow> int" where
  "days_before_year y = (y - 1) * 365 + (y - 1) div 4 - (y - 1) div 100 + (y - 1) div 400"

definition year_length :: "int \<Rightarrow> int" where
  "year_length y = (if is_leap y then 366 else 365)"

fun days_before_month :: "int \<Rightarrow> nat \<Rightarrow> int" where
  "days_before_month y 0 = 0"
| "days_before_month y (Suc 0) = 0"
| "days_before_month y (Suc m) = days_before_month y m + days_in_month y (int m)"

definition ymd2ord :: "int \<Rightarrow> nat \<Rightarrow> int \<Rightarrow> int" where
  "ymd2ord y m d = days_before_year y + days_before_month y m + d"

text \<open>The date of an ordinal: the year whose days contain it, then the month, then the day.\<close>

function find_year :: "int \<Rightarrow> int \<Rightarrow> int" where
  "find_year n y = (if y < 1 \<or> days_before_year (y + 1) \<ge> n then y else find_year n (y + 1))"
  by auto

lemma div_step:
  assumes "0 < (c :: int)"
  shows "y div c = (y - 1) div c + (if y mod c = 0 then 1 else 0)"
proof (cases "y mod c = 0")
  case True
  then obtain q where q: "y = q * c" by (auto simp: mod_eq_0_iff_dvd dvd_def mult.commute)
  have "(y - 1) div c = q - 1"
    using assms by (intro int_div_pos_eq [of _ _ _ "c - 1"]) (auto simp: q algebra_simps)
  then show ?thesis using True q assms by simp
next
  case False
  have eq: "y - 1 = c * (y div c) + (y mod c - 1)" by simp
  have "0 \<le> y mod c - 1" using False pos_mod_sign [OF assms, of y] by linarith
  moreover have "y mod c - 1 < c" using pos_mod_bound [OF assms, of y] by linarith
  ultimately have "(y - 1) div c = y div c" using eq by (intro int_div_pos_eq [of _ _ _ "y mod c - 1"]) (simp_all)
  with False show ?thesis by simp
qed

lemma days_before_year_Suc: "days_before_year (y + 1) = days_before_year y + year_length y"
proof -
  have h: "y mod 100 = 0" if "y mod 400 = 0"
    using that dvd_trans [of 100 400 y] by (simp add: mod_eq_0_iff_dvd)
  have q: "y mod 4 = 0" if "y mod 100 = 0"
    using that dvd_trans [of 4 100 y] by (simp add: mod_eq_0_iff_dvd)
  have step: "y div 4 = (y - 1) div 4 + (if y mod 4 = 0 then 1 else 0)" "y div 100 = (y - 1) div 100 + (if y mod 100 = 0 then 1 else 0)"
    "y div 400 = (y - 1) div 400 + (if y mod 400 = 0 then 1 else 0)"
    by (rule div_step, simp)+
  have "days_before_year (y + 1) = y * 365 + y div 4 - y div 100 + y div 400"
    by (simp add: days_before_year_def)
  also have "\<dots> = days_before_year y + 365 + (if y mod 4 = 0 then 1 else 0) - (if y mod 100 = 0 then 1 else 0) +
      (if y mod 400 = 0 then 1 else 0)"
    unfolding days_before_year_def step by simp
  also have "\<dots> = days_before_year y + year_length y"
    using h q unfolding year_length_def is_leap_def
    by (cases "y mod 4 = 0"; cases "y mod 100 = 0"; cases "y mod 400 = 0") simp_all
  finally show ?thesis .
qed

lemma year_length_bounds: "365 \<le> year_length y" "year_length y \<le> 366"
  by (simp_all add: year_length_def)

termination find_year
proof (relation "measure (\<lambda>(n, y). nat (n - days_before_year y))")
  show "wf (measure (\<lambda>(n, y). nat (n - days_before_year y)))" by simp
  fix n y :: int
  assume "\<not> (y < 1 \<or> days_before_year (y + 1) \<ge> n)"
  then show "((n, y + 1), (n, y)) \<in> measure (\<lambda>(n, y). nat (n - days_before_year y))"
    using days_before_year_Suc [of y] year_length_bounds [of y] by simp
qed

declare find_year.simps [simp del]

definition find_month :: "int \<Rightarrow> int \<Rightarrow> nat" where
  "find_month y k = (case find (\<lambda>m. k \<le> days_before_month y (Suc m)) [1..<12] of Some m \<Rightarrow> m | None \<Rightarrow> 12)"

definition ord2ymd :: "int \<Rightarrow> int \<times> nat \<times> int" where
  "ord2ymd n =
     (let y = find_year n (max 1 (n div 366)); k = n - days_before_year y; m = find_month y k
      in (y, m, k - days_before_month y m))"

definition epoch_ordinal :: int where
  "epoch_ordinal = ymd2ord 1970 1 1"

section \<open>Writing\<close>

definition digit :: "nat \<Rightarrow> char" where
  "digit v = char_of (48 + v mod 10)"

fun pad :: "nat \<Rightarrow> nat \<Rightarrow> string" where
  "pad 0 v = []"
| "pad (Suc w) v = pad w (v div 10) @ [digit v]"

definition DAY_MS :: int where
  "DAY_MS = 24 * 60 * 60 * 1000"

definition stamp :: "timestamp \<Rightarrow> string" where
  "stamp t =
     (let (y, m, d) = ord2ymd (t div DAY_MS + epoch_ordinal); k = nat (t mod DAY_MS)
      in pad 4 (nat y) @ ''-'' @ pad 2 m @ ''-'' @ pad 2 (nat d) @ ''T'' @ pad 2 (k div 3600000) @ '':'' @
         pad 2 (k div 60000 mod 60) @ '':'' @ pad 2 (k div 1000 mod 60) @ ''.'' @ pad 3 (k mod 1000) @ ''Z'')"

text \<open>The instants a \<^verbatim>\<open>datetime\<close> can denote: the years 1 to 9999.\<close>

definition representable :: "timestamp \<Rightarrow> bool" where
  "representable t \<longleftrightarrow> 1 \<le> t div DAY_MS + epoch_ordinal \<and> t div DAY_MS + epoch_ordinal \<le> days_before_year 10000"

section \<open>Reading\<close>

definition digit_value :: "char \<Rightarrow> nat option" where
  "digit_value c = (let n = (of_char c :: nat) in if 48 \<le> n \<and> n \<le> 57 then Some (n - 48) else None)"

text \<open>Exactly \<open>n\<close> digits from the front.\<close>

fun take_digits :: "nat \<Rightarrow> nat \<Rightarrow> string \<Rightarrow> (nat \<times> string) option" where
  "take_digits 0 acc s = Some (acc, s)"
| "take_digits (Suc n) acc [] = None"
| "take_digits (Suc n) acc (c # s) =
     (case digit_value c of None \<Rightarrow> None | Some v \<Rightarrow> take_digits n (10 * acc + v) s)"

definition take_char :: "char \<Rightarrow> string \<Rightarrow> string option" where
  "take_char c s = (case s of [] \<Rightarrow> None | x # xs \<Rightarrow> if x = c then Some xs else None)"

text \<open>The optional fraction of a second, in microseconds: a point and one to six digits.\<close>

definition take_fraction :: "string \<Rightarrow> (nat \<times> string) option" where
  "take_fraction s =
     (case take_char CHR ''.'' s of
        None \<Rightarrow> Some (0, s)
      | Some r \<Rightarrow>
          (let n = length (takeWhile (\<lambda>c. digit_value c \<noteq> None) r)
           in if 1 \<le> n \<and> n \<le> 6 then map_option (\<lambda>(v, r'). (v * 10 ^ (6 - n), r')) (take_digits n 0 r) else None))"

text \<open>The offset in minutes: \<^verbatim>\<open>Z\<close>, or a sign, two digits, a colon and two digits, at the end of the text.\<close>

definition take_offset :: "string \<Rightarrow> int option" where
  "take_offset s =
     (if s = ''Z'' then Some 0
      else case s of
        [] \<Rightarrow> None
      | c # r \<Rightarrow>
          if c = CHR ''+'' \<or> c = CHR ''-''
          then Option.bind (take_digits 2 0 r) (\<lambda>(h, r1). Option.bind (take_char CHR '':'' r1) (\<lambda>r2.
               Option.bind (take_digits 2 0 r2) (\<lambda>(m, r3).
               if r3 = [] then Some ((if c = CHR ''-'' then -1 else 1) * int (60 * h + m)) else None)))
          else None)"

record wire_time =
  wt_year :: nat
  wt_month :: nat
  wt_day :: nat
  wt_hour :: nat
  wt_minute :: nat
  wt_second :: nat
  wt_micro :: nat
  wt_offset :: int

definition take_field :: "nat \<Rightarrow> char \<Rightarrow> string \<Rightarrow> (nat \<times> string) option" where
  "take_field n sep s = Option.bind (take_digits n 0 s) (\<lambda>(v, r). map_option (\<lambda>r'. (v, r')) (take_char sep r))"

definition match_wire_time :: "string \<Rightarrow> wire_time option" where
  "match_wire_time s =
     Option.bind (take_field 4 CHR ''-'' s) (\<lambda>(y, s). Option.bind (take_field 2 CHR ''-'' s) (\<lambda>(m, s).
     Option.bind (take_field 2 CHR ''T'' s) (\<lambda>(d, s). Option.bind (take_field 2 CHR '':'' s) (\<lambda>(h, s).
     Option.bind (take_field 2 CHR '':'' s) (\<lambda>(mi, s). Option.bind (take_digits 2 0 s) (\<lambda>(sec, s).
     Option.bind (take_fraction s) (\<lambda>(us, s). Option.bind (take_offset s) (\<lambda>off.
     Some \<lparr>wt_year = y, wt_month = m, wt_day = d, wt_hour = h, wt_minute = mi, wt_second = sec, wt_micro = us, wt_offset = off\<rparr>))))))))"

definition wire_time_ok :: "wire_time \<Rightarrow> bool" where
  "wire_time_ok w \<longleftrightarrow>
     1 \<le> wt_year w \<and> 1 \<le> wt_month w \<and> wt_month w \<le> 12 \<and> 1 \<le> wt_day w \<and>
     int (wt_day w) \<le> days_in_month (int (wt_year w)) (int (wt_month w)) \<and>
     wt_hour w \<le> 23 \<and> wt_minute w \<le> 59 \<and> wt_second w \<le> 59 \<and> \<bar>wt_offset w\<bar> < 24 * 60"

definition instant_us :: "wire_time \<Rightarrow> int" where
  "instant_us w =
     ((((ymd2ord (int (wt_year w)) (wt_month w) (int (wt_day w)) - epoch_ordinal) * 24 + int (wt_hour w)) * 60 +
       int (wt_minute w) - wt_offset w) * 60 + int (wt_second w)) * 1000000 + int (wt_micro w)"

text \<open>\<open>None\<close> is the \<^verbatim>\<open>ValueError\<close> of a text outside the forms above or of a date that does not exist.\<close>

definition parse_stamp :: "string \<Rightarrow> int option" where
  "parse_stamp s =
     (case match_wire_time s of None \<Rightarrow> None | Some w \<Rightarrow> if wire_time_ok w then Some (instant_us w) else None)"

section \<open>The calendar is a bijection\<close>

lemma days_before_year_mono:
  assumes "y \<le> z"
  shows "days_before_year y \<le> days_before_year z"
  using assms
proof (induction z rule: int_ge_induct)
  case base
  show ?case by simp
next
  case (step z)
  then show ?case using days_before_year_Suc [of z] year_length_bounds [of z] by linarith
qed

lemma days_before_year_le: "1 \<le> y \<Longrightarrow> days_before_year y \<le> 366 * (y - 1)"
proof (induction y rule: int_ge_induct)
  case base
  show ?case by (simp add: days_before_year_def)
next
  case (step y)
  then show ?case using days_before_year_Suc [of y] year_length_bounds(2) [of y] by (simp add: algebra_simps)
qed

lemma find_year_spec:
  "1 \<le> y \<Longrightarrow> days_before_year y < n \<Longrightarrow>
   1 \<le> find_year n y \<and> days_before_year (find_year n y) < n \<and> n \<le> days_before_year (find_year n y + 1)"
proof (induction n y rule: find_year.induct)
  case (1 n y)
  show ?case
  proof (cases "days_before_year (y + 1) \<ge> n")
    case True
    then show ?thesis using 1 by (subst (1 2 3) find_year.simps) simp
  next
    case False
    then have "find_year n y = find_year n (y + 1)" using 1 by (subst find_year.simps) simp
    with 1 False show ?thesis by simp
  qed
qed

lemma days_before_month_values:
  "days_before_month y (Suc 0) = 0" "days_before_month y 2 = 31"
  "days_before_month y 3 = (if is_leap y then 60 else 59)" "days_before_month y 4 = (if is_leap y then 91 else 90)"
  "days_before_month y 5 = (if is_leap y then 121 else 120)" "days_before_month y 6 = (if is_leap y then 152 else 151)"
  "days_before_month y 7 = (if is_leap y then 182 else 181)" "days_before_month y 8 = (if is_leap y then 213 else 212)"
  "days_before_month y 9 = (if is_leap y then 244 else 243)" "days_before_month y 10 = (if is_leap y then 274 else 273)"
  "days_before_month y 11 = (if is_leap y then 305 else 304)" "days_before_month y 12 = (if is_leap y then 335 else 334)"
  by (simp_all add: eval_nat_numeral days_in_month_def)

lemma find_month_spec:
  assumes "1 \<le> k" and "k \<le> year_length y"
  shows "1 \<le> find_month y k \<and> find_month y k \<le> 12 \<and> days_before_month y (find_month y k) < k \<and>
         k \<le> days_before_month y (find_month y k) + days_in_month y (int (find_month y k))"
proof -
  have months: "[1..<12] = [Suc 0, 2, 3, 4, 5, 6, 7, 8, 9, 10, 11]" by (simp add: upt_rec eval_nat_numeral)
  have next_months: "Suc (Suc 0) = 2" "Suc 2 = 3" "Suc 3 = 4" "Suc 4 = 5" "Suc 5 = 6" "Suc 6 = 7" "Suc 7 = 8" "Suc 8 = 9" "Suc 9 = 10"
    "Suc 10 = 11" "Suc 11 = 12" by simp_all
  show ?thesis
  proof (cases "is_leap y")
    case True
    with assms show ?thesis
      unfolding find_month_def months
      by (simp add: days_before_month_values next_months days_in_month_def year_length_def)
  next
    case False
    with assms show ?thesis
      unfolding find_month_def months
      by (simp add: days_before_month_values next_months days_in_month_def year_length_def)
  qed
qed

definition date_ok :: "int \<Rightarrow> nat \<Rightarrow> int \<Rightarrow> bool" where
  "date_ok y m d \<longleftrightarrow> 1 \<le> y \<and> 1 \<le> m \<and> m \<le> 12 \<and> 1 \<le> d \<and> d \<le> days_in_month y (int m)"

lemma ord2ymd_spec:
  assumes "1 \<le> n" and "ord2ymd n = (y, m, d)"
  shows "date_ok y m d \<and> ymd2ord y m d = n"
proof -
  define y0 where "y0 = max 1 (n div 366)"
  have "days_before_year y0 < n"
  proof (cases "n div 366 \<le> 1")
    case True
    then show ?thesis using assms(1) by (simp add: y0_def days_before_year_def)
  next
    case False
    have "366 * (n div 366) \<le> n" by (metis minus_mod_eq_mult_div mult.commute pos_mod_sign diff_ge_0_iff_ge diff_add_cancel le_add_same_cancel1 zero_less_numeral)
    then show ?thesis using False days_before_year_le [of y0] by (simp add: y0_def)
  qed
  then have year: "1 \<le> y \<and> days_before_year y < n \<and> n \<le> days_before_year (y + 1)"
    using find_year_spec [of y0 n] assms(2) by (auto simp: y0_def ord2ymd_def Let_def)
  have m: "m = find_month y (n - days_before_year y)" and d: "d = n - days_before_year y - days_before_month y m"
    using assms(2) by (auto simp: ord2ymd_def Let_def)
  have "1 \<le> n - days_before_year y" "n - days_before_year y \<le> year_length y"
    using year days_before_year_Suc [of y] by linarith+
  then show ?thesis using find_month_spec [of "n - days_before_year y" y] year m d by (simp add: date_ok_def ymd2ord_def)
qed

lemma days_before_month_Suc: "1 \<le> m \<Longrightarrow> days_before_month y (Suc m) = days_before_month y m + days_in_month y (int m)"
  by (cases m) simp_all

lemma days_before_month_later:
  assumes "1 \<le> m" and "m < m'"
  shows "days_before_month y m + days_in_month y (int m) \<le> days_before_month y m'"
proof -
  have "Suc m \<le> m'" using assms by simp
  then show ?thesis
  proof (induction m' rule: dec_induct)
    case base
    show ?case using days_before_month_Suc [OF assms(1)] by simp
  next
    case (step k)
    have "0 \<le> days_in_month y (int k)" by (simp add: days_in_month_def)
    with step assms show ?case by (simp add: days_before_month_Suc)
  qed
qed

lemma year_end: "date_ok y m d \<Longrightarrow> days_before_month y m + d \<le> year_length y"
proof -
  assume ok: "date_ok y m d"
  have last: "days_before_month y 12 + 31 = year_length y" by (simp add: days_before_month_values year_length_def)
  show ?thesis
  proof (cases "m = 12")
    case True
    with ok last show ?thesis by (simp add: date_ok_def days_in_month_def)
  next
    case False
    with ok have "days_before_month y m + days_in_month y (int m) \<le> days_before_month y 12"
      by (intro days_before_month_later) (auto simp: date_ok_def)
    with ok last show ?thesis by (simp add: date_ok_def)
  qed
qed

lemma days_before_month_nonneg: "0 \<le> days_before_month y m"
  by (induction y m rule: days_before_month.induct) (simp_all add: days_in_month_def)

text \<open>The calendar order of dates is the order of their ordinals.\<close>

lemma ymd2ord_less:
  assumes "date_ok y m d" and "date_ok y' m' d'"
    and "y < y' \<or> (y = y' \<and> (m < m' \<or> (m = m' \<and> d < d')))"
  shows "ymd2ord y m d < ymd2ord y' m' d'"
proof -
  consider (year) "y + 1 \<le> y'" | (month) "y = y'" "m < m'" | (day) "y = y'" "m = m'" "d < d'"
    using assms(3) by linarith
  then show ?thesis
  proof cases
    case year
    then have "days_before_year y + year_length y \<le> days_before_year y'"
      using days_before_year_mono [OF year] days_before_year_Suc [of y] by simp
    then show ?thesis using year_end [OF assms(1)] assms(2) days_before_month_nonneg [of y' m'] by (simp add: ymd2ord_def date_ok_def)
  next
    case month
    then have "days_before_month y m + days_in_month y (int m) \<le> days_before_month y' m'"
      using days_before_month_later [of m m' y] assms(1) by (simp add: date_ok_def)
    then show ?thesis using assms(1,2) month by (simp add: ymd2ord_def date_ok_def)
  next
    case day
    then show ?thesis by (simp add: ymd2ord_def)
  qed
qed

section \<open>Fixed-width numbers\<close>

lemma of_char_digit: "(of_char (digit v) :: nat) = 48 + v mod 10"
proof -
  have "v mod 10 < 10" by simp
  then show ?thesis by (simp add: digit_def)
qed

lemma digit_value_digit [simp]: "digit_value (digit v) = Some (v mod 10)"
proof -
  have "v mod 10 < 10" by simp
  then show ?thesis by (simp add: digit_value_def of_char_digit Let_def)
qed

lemma length_pad [simp]: "length (pad w v) = w"
  by (induction w arbitrary: v) simp_all

lemma take_digits_append: "take_digits (a + b) acc s = Option.bind (take_digits a acc s) (\<lambda>(v, r). take_digits b v r)"
proof (induction a arbitrary: acc s)
  case 0
  show ?case by simp
next
  case (Suc a)
  then show ?case by (cases s) (simp_all split: option.split)
qed

lemma take_digits_pad: "v < 10 ^ w \<Longrightarrow> take_digits w acc (pad w v @ r) = Some (acc * 10 ^ w + v, r)"
proof (induction w arbitrary: v acc r)
  case 0
  then show ?case by simp
next
  case (Suc w)
  then have "v div 10 < 10 ^ w" by (simp add: div_less_iff_less_mult)
  then have "take_digits w acc (pad w (v div 10) @ digit v # r) = Some (acc * 10 ^ w + v div 10, digit v # r)" by (rule Suc.IH)
  then have "take_digits (w + 1) acc (pad (Suc w) v @ r) = Some (10 * (acc * 10 ^ w + v div 10) + v mod 10, r)"
    by (simp only: take_digits_append) simp
  then show ?case by (simp add: algebra_simps)
qed

lemma digit_less: "a mod 10 < b mod 10 \<Longrightarrow> digit a < digit b"
  by (simp add: less_char_def of_char_digit)

lemma same_prefix_less [simp]: "p @ x < p @ y \<longleftrightarrow> x < y" for p :: string
  by (induction p) simp_all

lemma pad_less: "v < v' \<Longrightarrow> v' < 10 ^ w \<Longrightarrow> pad w v @ r < pad w v' @ r'"
proof (induction w arbitrary: v v' r r')
  case 0
  then show ?case by simp
next
  case (Suc w)
  show ?case
  proof (cases "v div 10 = v' div 10")
    case True
    then have "v mod 10 < v' mod 10" using Suc.prems(1) by (metis div_mult_mod_eq nat_add_left_cancel_less)
    with True show ?thesis by (simp add: digit_less)
  next
    case False
    then have "v div 10 < v' div 10" using Suc.prems(1) by (simp add: div_le_mono le_neq_implies_less)
    moreover have "v' div 10 < 10 ^ w" using Suc.prems(2) by (simp add: div_less_iff_less_mult)
    ultimately show ?thesis using Suc.IH by simp
  qed
qed

lemma pad_digits: "\<forall>c \<in> set (pad w v). digit_value c \<noteq> None"
  by (induction w arbitrary: v) auto

lemma take_field_pad: "v < 10 ^ w \<Longrightarrow> take_field w c (pad w v @ c # r) = Some (v, r)"
  by (simp add: take_field_def take_digits_pad take_char_def)

lemma take_fraction_pad:
  assumes "v < 1000"
  shows "take_fraction (''.'' @ pad 3 v @ ''Z'') = Some (v * 1000, ''Z'')"
proof -
  have "digit_value CHR ''Z'' = None" by (simp add: digit_value_def)
  then have "takeWhile (\<lambda>c. digit_value c \<noteq> None) (pad 3 v @ ''Z'') = pad 3 v"
    using pad_digits [of 3 v] by (simp add: takeWhile_append)
  then show ?thesis using assms take_digits_pad [of v 3 0 "''Z''"] by (simp add: take_fraction_def take_char_def Let_def)
qed

lemma match_printed:
  assumes "y < 10000" "m < 100" "d < 100" "h < 100" "mi < 100" "s < 100" "ms < 1000"
  shows "match_wire_time (pad 4 y @ ''-'' @ pad 2 m @ ''-'' @ pad 2 d @ ''T'' @ pad 2 h @ '':'' @ pad 2 mi @ '':'' @ pad 2 s @
           ''.'' @ pad 3 ms @ ''Z'') =
         Some \<lparr>wt_year = y, wt_month = m, wt_day = d, wt_hour = h, wt_minute = mi, wt_second = s, wt_micro = ms * 1000, wt_offset = 0\<rparr>"
  using assms take_fraction_pad [of ms]
  by (simp add: match_wire_time_def take_field_pad take_digits_pad take_offset_def del: pad.simps)

section \<open>Stored stamps\<close>

text \<open>The fields of a printed instant.\<close>

lemma stamp_fields:
  assumes "representable t"
  obtains y m d k where "stamp t = pad 4 y @ ''-'' @ pad 2 m @ ''-'' @ pad 2 d @ ''T'' @ pad 2 (k div 3600000) @ '':'' @
         pad 2 (k div 60000 mod 60) @ '':'' @ pad 2 (k div 1000 mod 60) @ ''.'' @ pad 3 (k mod 1000) @ ''Z''"
    and "date_ok (int y) m (int d)" and "y < 10000" and "d \<le> 31" and "k < 86400000"
    and "t = (ymd2ord (int y) m (int d) - epoch_ordinal) * 86400000 + int k"
proof -
  define n where "n = t div DAY_MS + epoch_ordinal"
  define k where "k = nat (t mod DAY_MS)"
  obtain y m d where o: "ord2ymd n = (y, m, d)" by (metis prod_cases3)
  have n: "1 \<le> n" "n \<le> days_before_year 10000" using assms by (simp_all add: representable_def n_def)
  have ok: "date_ok y m d" "ymd2ord y m d = n" using ord2ymd_spec [OF n(1) o] by simp_all
  have "days_before_year y < days_before_year 10000"
    using ok n(2) days_before_month_nonneg [of y m] by (simp add: ymd2ord_def date_ok_def)
  then have "y < 10000" using days_before_year_mono [of 10000 y] by linarith
  moreover have "d \<le> 31" using ok(1) by (simp add: date_ok_def days_in_month_def split: if_splits)
  moreover have k: "k < 86400000" "int k = t mod DAY_MS"
    using pos_mod_bound [of DAY_MS t] pos_mod_sign [of DAY_MS t] by (simp_all add: k_def DAY_MS_def)
  moreover have "t = (ymd2ord y m d - epoch_ordinal) * 86400000 + int k"
    using k(2) ok(2) by (simp add: n_def DAY_MS_def)
  moreover have "int (nat y) = y" "int (nat d) = d" using ok(1) by (simp_all add: date_ok_def)
  moreover have "stamp t = pad 4 (nat y) @ ''-'' @ pad 2 m @ ''-'' @ pad 2 (nat d) @ ''T'' @ pad 2 (k div 3600000) @ '':'' @
         pad 2 (k div 60000 mod 60) @ '':'' @ pad 2 (k div 1000 mod 60) @ ''.'' @ pad 3 (k mod 1000) @ ''Z''"
    using o by (simp add: stamp_def n_def k_def Let_def)
  ultimately show thesis using that [of "nat y" m "nat d" k] ok by (simp add: nat_less_iff nat_le_iff date_ok_def)
qed

lemma nested_units: "k = a * 1000 + r \<Longrightarrow> a = b * 60 + s \<Longrightarrow> b = c * 60 + m \<Longrightarrow> k = (c * 60 + m) * 60000 + s * 1000 + r" for k :: nat
  by simp

lemma clock_fields:
  "k = (k div 3600000 * 60 + k div 60000 mod 60) * 60000 + (k div 1000 mod 60) * 1000 + k mod 1000" for k :: nat
proof (rule nested_units)
  show "k = k div 1000 * 1000 + k mod 1000" by simp
  show "k div 1000 = k div 60000 * 60 + k div 1000 mod 60"
    using div_mult_mod_eq [of "k div 1000" 60] by (simp add: div_mult2_eq [symmetric])
  show "k div 60000 = k div 3600000 * 60 + k div 60000 mod 60"
    using div_mult_mod_eq [of "k div 60000" 60] by (simp add: div_mult2_eq [symmetric])
qed

lemma parse_stamp_stamp:
  assumes "representable t"
  shows "parse_stamp (stamp t) = Some (t * 1000)"
proof -
  obtain y m d k where f: "stamp t = pad 4 y @ ''-'' @ pad 2 m @ ''-'' @ pad 2 d @ ''T'' @ pad 2 (k div 3600000) @ '':'' @
         pad 2 (k div 60000 mod 60) @ '':'' @ pad 2 (k div 1000 mod 60) @ ''.'' @ pad 3 (k mod 1000) @ ''Z''"
    and ok: "date_ok (int y) m (int d)" "y < 10000" "d \<le> 31" "k < 86400000"
    and t: "t = (ymd2ord (int y) m (int d) - epoch_ordinal) * 86400000 + int k"
    using stamp_fields [OF assms] by metis
  have h: "k div 3600000 \<le> 23" using ok(4) by (simp add: less_Suc_eq_le [symmetric] div_less_iff_less_mult)
  have mod60: "x mod 60 \<le> 59" for x :: nat using mod_less_divisor [of 60 x] by simp
  have "match_wire_time (stamp t) =
      Some \<lparr>wt_year = y, wt_month = m, wt_day = d, wt_hour = k div 3600000, wt_minute = k div 60000 mod 60,
            wt_second = k div 1000 mod 60, wt_micro = k mod 1000 * 1000, wt_offset = 0\<rparr>" (is "_ = Some ?w")
    unfolding f using ok h mod60 [of "k div 60000"] mod60 [of "k div 1000"] by (intro match_printed) (auto simp: date_ok_def)
  moreover have "wire_time_ok ?w" using ok h mod60 by (simp add: wire_time_ok_def date_ok_def)
  moreover have "instant_us ?w = t * 1000"
  proof -
    have "int k = (int (k div 3600000) * 60 + int (k div 60000 mod 60)) * 60000 + int (k div 1000 mod 60) * 1000 + int (k mod 1000)"
      using arg_cong [OF clock_fields [of k], of int] by (simp only: of_nat_add of_nat_mult of_nat_numeral)
    then show ?thesis unfolding t by (simp only: instant_us_def wire_time.simps) (simp add: algebra_simps)
  qed
  ultimately show ?thesis by (simp add: parse_stamp_def)
qed

text \<open>
  What \<open>stamp\<close> writes, \<open>parse_stamp\<close> reads back: every instant of the years 1 to 9999 survives the
  round trip through its stored text at millisecond precision.
\<close>

theorem stamp_roundtrip:
  assumes "representable t"
  shows "parse_stamp (stamp t) = Some (t * 1000)"
  using assms by (rule parse_stamp_stamp)

theorem stamp_roundtrip_witness: "parse_stamp (stamp 1735689599999) = Some 1735689599999000"
proof -
  have "representable 1735689599999" by (simp add: representable_def DAY_MS_def epoch_ordinal_def ymd2ord_def days_before_year_def)
  from stamp_roundtrip [OF this] show ?thesis by simp
qed

lemma lex_units:
  assumes "(c * 60 + m) * 60000 + s * 1000 + r < (c' * 60 + m') * 60000 + s' * 1000 + (r' :: nat)"
    and "m < 60" "s < 60" "r < 1000" "m' < 60" "s' < 60" "r' < 1000"
  shows "c < c' \<or> (c = c' \<and> (m < m' \<or> (m = m' \<and> (s < s' \<or> (s = s' \<and> r < r')))))"
proof (rule ccontr)
  assume no: "\<not> ?thesis"
  consider (c) "c' + 1 \<le> c" | (m) "c = c'" "m' + 1 \<le> m" | (s) "c = c'" "m = m'" "s' + 1 \<le> s" | (r) "c = c'" "m = m'" "s = s'" "r' \<le> r"
    using no by fastforce
  then show False
  proof cases
    case c
    then have "(c' + 1) * 3600000 \<le> c * 3600000" by (rule mult_le_mono1)
    with assms show False by (simp add: algebra_simps)
  next
    case m
    then have "(m' + 1) * 60000 \<le> m * 60000" by (intro mult_le_mono1)
    with m(1) assms show False by (simp add: algebra_simps)
  next
    case s
    with assms show False by simp
  next
    case r
    with assms show False by simp
  qed
qed

lemma clock_less:
  assumes "k < k'"
  shows "k div 3600000 < k' div (3600000 :: nat) \<or> (k div 3600000 = k' div 3600000 \<and>
     (k div 60000 mod 60 < k' div 60000 mod 60 \<or> (k div 60000 mod 60 = k' div 60000 mod 60 \<and>
     (k div 1000 mod 60 < k' div 1000 mod 60 \<or> (k div 1000 mod 60 = k' div 1000 mod 60 \<and> k mod 1000 < k' mod 1000)))))"
  by (rule lex_units) (use assms clock_fields [of k] clock_fields [of k'] in simp_all)

lemma date_eq:
  assumes "date_ok y m d" and "date_ok y' m' d'" and "ymd2ord y m d = ymd2ord y' m' d'"
  shows "y = y' \<and> m = m' \<and> d = d'"
  using ymd2ord_less [OF assms(1,2)] ymd2ord_less [OF assms(2,1)] assms(3) by (cases "y = y'"; cases "m = m'"; cases "d = d'") (auto simp: neq_iff)

lemma date_less:
  assumes "date_ok y m d" and "date_ok y' m' d'" and "ymd2ord y m d < ymd2ord y' m' d'"
  shows "y < y' \<or> (y = y' \<and> (m < m' \<or> (m = m' \<and> d < d')))"
proof (rule ccontr)
  assume no: "\<not> ?thesis"
  then have "(y' < y \<or> (y' = y \<and> (m' < m \<or> (m' = m \<and> d' < d)))) \<or> (y = y' \<and> m = m' \<and> d = d')"
    using linorder_less_linear [of y y'] linorder_less_linear [of m m'] linorder_less_linear [of d d'] by blast
  then show False using ymd2ord_less [OF assms(2,1)] assms(3) by auto
qed

lemma split_days:
  assumes "a * 86400000 + int k < b * 86400000 + int k'" and "k < 86400000" and "k' < 86400000"
  shows "a < b \<or> (a = b \<and> k < k')"
proof (cases "b + 1 \<le> a")
  case True
  then have "(b + 1) * 86400000 \<le> a * 86400000" by (rule mult_right_mono) simp
  with assms show ?thesis by (simp add: algebra_simps)
next
  case False
  with assms show ?thesis by (cases "a = b") auto
qed

lemma stamp_strict_mono:
  assumes "representable t" and "representable u" and "t < u"
  shows "stamp t < stamp u"
proof -
  obtain y m d k where f: "stamp t = pad 4 y @ ''-'' @ pad 2 m @ ''-'' @ pad 2 d @ ''T'' @ pad 2 (k div 3600000) @ '':'' @
         pad 2 (k div 60000 mod 60) @ '':'' @ pad 2 (k div 1000 mod 60) @ ''.'' @ pad 3 (k mod 1000) @ ''Z''"
    and ok: "date_ok (int y) m (int d)" "y < 10000" "d \<le> 31" "k < 86400000"
    and t: "t = (ymd2ord (int y) m (int d) - epoch_ordinal) * 86400000 + int k"
    using stamp_fields [OF assms(1)] by metis
  obtain y' m' d' k' where f': "stamp u = pad 4 y' @ ''-'' @ pad 2 m' @ ''-'' @ pad 2 d' @ ''T'' @ pad 2 (k' div 3600000) @ '':'' @
         pad 2 (k' div 60000 mod 60) @ '':'' @ pad 2 (k' div 1000 mod 60) @ ''.'' @ pad 3 (k' mod 1000) @ ''Z''"
    and ok': "date_ok (int y') m' (int d')" "y' < 10000" "d' \<le> 31" "k' < 86400000"
    and u: "u = (ymd2ord (int y') m' (int d') - epoch_ordinal) * 86400000 + int k'"
    using stamp_fields [OF assms(2)] by metis
  have width: "m' < 10 ^ 2" "d' < 10 ^ 2" "y' < 10 ^ 4" "k' div 3600000 < 10 ^ 2" "k' div 60000 mod 60 < 10 ^ 2"
    "k' div 1000 mod 60 < 10 ^ 2" "k' mod 1000 < 10 ^ 3"
    using ok' mod_less_divisor [of 60 "k' div 60000"] mod_less_divisor [of 60 "k' div 1000"]
    by (simp_all add: date_ok_def div_less_iff_less_mult)
  consider (date) "ymd2ord (int y) m (int d) < ymd2ord (int y') m' (int d')"
    | (clock) "ymd2ord (int y) m (int d) = ymd2ord (int y') m' (int d')" "k < k'"
    using assms(3) split_days [of "ymd2ord (int y) m (int d) - epoch_ordinal" k "ymd2ord (int y') m' (int d') - epoch_ordinal" k'] ok(4) ok'(4)
    unfolding t u by auto
  then show ?thesis
  proof cases
    case date
    then show ?thesis
      using date_less [OF ok(1) ok'(1) date] width unfolding f f' by (auto simp: pad_less simp del: pad.simps)
  next
    case clock
    then show ?thesis
      using date_eq [OF ok(1) ok'(1) clock(1)] clock_less [OF clock(2)] width unfolding f f'
      by (auto simp: pad_less simp del: pad.simps)
  qed
qed

text \<open>
  Comparing stored stamps as text is comparing the instants: for instants of the years 1 to 9999, the string order
  of their stamps, which the SQL comparisons of every repository use, is the order in time.
\<close>

theorem stamp_order:
  assumes "representable t" and "representable u"
  shows "(stamp t < stamp u \<longleftrightarrow> t < u) \<and> (stamp t \<le> stamp u \<longleftrightarrow> t \<le> u) \<and> (stamp t = stamp u \<longleftrightarrow> t = u)"
  using stamp_strict_mono [OF assms] stamp_strict_mono [OF assms(2,1)] by (cases t u rule: linorder_cases) auto

theorem stamp_order_witness: "stamp 999 < stamp 1000 \<and> \<not> stamp 86400000 \<le> stamp 86399999"
proof -
  have r: "representable 999" "representable 1000" "representable 86400000" "representable 86399999"
    by (simp_all add: representable_def DAY_MS_def epoch_ordinal_def ymd2ord_def days_before_year_def)
  from stamp_order [OF r(1,2)] stamp_order [OF r(3,4)] show ?thesis by simp
qed

end
