(* ===== verification/Intents.thy ===== *)
theory Intents
  imports Programs Layers Trust Work_Items Artifacts Timestamps
begin

text \<open>
  The life of an intent in the harness: \<^verbatim>\<open>intent.propose\<close>, \<^verbatim>\<open>task.cancel\<close>, \<^verbatim>\<open>task.status\<close>, \<^verbatim>\<open>artifact.fetch\<close>,
  reconciliation and crash recovery of \<^verbatim>\<open>src/fasp_harness/core.py\<close>. Every handler is a program of atomic
  actions (a transaction of a repository, a read, a call of the adapter), so that any number of them
  may run at once. The adapter is a parameter: what it declares, what its calls return and whether
  they return within the lease. Human-readable details of errors are left out, as everywhere.
\<close>

section \<open>The adapter and the node\<close>

text \<open>A value an adapter returns: JSON, or something \<^verbatim>\<open>json.dumps\<close> refuses.\<close>

datatype py_value = Plain json | NotJson

datatype adapter_result = Returned py_value | RaisedFasp string | Raised

text \<open>Whether \<^verbatim>\<open>future.result(timeout=lease_seconds)\<close> saw the result in time.\<close>

datatype adapter_reply = InTime adapter_result | Late adapter_result

text \<open>
  What the adapter declares at a time, what its \<open>n\<close>-th call returns, and its two optional hooks (\<open>None\<close>
  inside is a hook that raised).
\<close>

record adapter =
  ad_capabilities :: "timestamp \<Rightarrow> (string \<times> attr) list option list"
  ad_handle :: "nat \<Rightarrow> (string \<times> json) list \<Rightarrow> adapter_reply"
  ad_cancel :: "(timestamp \<Rightarrow> string \<Rightarrow> bool option) option"
  ad_reconcile :: "(timestamp \<Rightarrow> string \<Rightarrow> json option \<Rightarrow> py_value option) option"

record late_call =
  lc_key :: string
  lc_from_peer :: string
  lc_intent_id :: "string option"
  lc_result :: adapter_result

record 'h node =
  nd_now :: timestamp
  nd_work :: "'h work_db"
  nd_trust :: "'h trust_db"
  nd_artifacts :: ArtifactStore
  nd_submitted :: "(string \<times> (string \<times> json) list) list"
  nd_late :: "late_call list"
  nd_pushed :: "(string \<times> json) list"

text \<open>What a harness is configured with, and the randomness and operating system behind its artifact store.\<close>

record 'h harness =
  hs_audit :: "'h audit_ref"
  hs_max_inflight :: nat
  hs_adapter :: adapter
  hs_guard :: LayerGuard
  hs_declarations :: "string \<rightharpoonup> CapabilityDeclaration"
  hs_str_of :: "attr \<Rightarrow> string"
  hs_float_text :: "rat \<Rightarrow> string"
  hs_sha :: "bytes \<Rightarrow> string"
  hs_token :: "timestamp \<Rightarrow> bytes \<Rightarrow> string"
  hs_stuck :: "string \<Rightarrow> bool"

section \<open>Actions\<close>

definition work_action :: "('h work_db \<Rightarrow> timestamp \<Rightarrow> 'h work_db \<times> 'a) \<Rightarrow> ('h node, 'a) prog" where
  "work_action f = atomic (\<lambda>s. case f (nd_work s) (nd_now s) of (db, r) \<Rightarrow> (s\<lparr>nd_work := db\<rparr>, r))"

definition look :: "('h node \<Rightarrow> 'a) \<Rightarrow> ('h node, 'a) prog" where
  "look f = atomic (\<lambda>s. (s, f s))"

definition push :: "string \<Rightarrow> json \<Rightarrow> ('h node, unit) prog" where
  "push peer_id message = atomic (\<lambda>s. (s\<lparr>nd_pushed := nd_pushed s @ [(peer_id, message)]\<rparr>, ()))"

section \<open>Responses\<close>

definition opt_json :: "string option \<Rightarrow> json" where
  "opt_json v = (case v of None \<Rightarrow> JNull | Some s \<Rightarrow> JStr s)"

definition error_or_empty :: "json option \<Rightarrow> json" where
  "error_or_empty e = (case e of Some v \<Rightarrow> if truthy v then v else JObj [] | None \<Rightarrow> JObj [])"

definition task_response :: "TaskState \<Rightarrow> work_row \<Rightarrow> json" where
  "task_response state r =
     (case state of
        TCompleted \<Rightarrow> (case wi_result r of Some v \<Rightarrow> v | None \<Rightarrow> JNull)
      | TFailed \<Rightarrow> JObj [(''type'', JStr ''task.fail''), (''intent_id'', opt_json (wi_intent_id r)),
           (''idempotency_key'', JStr (wi_idempotency_key r)), (''status'', JStr ''failed''),
           (''error'', error_or_empty (wi_error r)), (''completed_at'', JStr (stamp (wi_updated_at r)))]
      | TCancelled \<Rightarrow> JObj [(''type'', JStr ''task.cancelled''), (''idempotency_key'', JStr (wi_idempotency_key r))]
      | TUnknown \<Rightarrow> JObj [(''type'', JStr ''task.unknown''), (''idempotency_key'', JStr (wi_idempotency_key r)), (''status'', JStr ''unknown'')]
      | TRejected \<Rightarrow> JObj [(''type'', JStr ''task.fail''), (''intent_id'', opt_json (wi_intent_id r)),
           (''idempotency_key'', JStr (wi_idempotency_key r)), (''status'', JStr ''failed''), (''phase'', JStr ''rejected''),
           (''error'', error_or_empty (wi_error r)), (''completed_at'', JStr (stamp (wi_updated_at r)))]
      | TProposed \<Rightarrow> JObj [(''type'', JStr ''task.progress''), (''idempotency_key'', JStr (wi_idempotency_key r)), (''status'', JStr ''queued'')]
      | TRunning \<Rightarrow> JObj [(''type'', JStr ''task.progress''), (''idempotency_key'', JStr (wi_idempotency_key r)), (''status'', JStr ''running'')]
      | TCancelPending \<Rightarrow> JObj [(''type'', JStr ''task.progress''), (''idempotency_key'', JStr (wi_idempotency_key r)), (''status'', JStr ''running''),
           (''phase'', JStr ''cancel_requested'')])"

text \<open>\<^verbatim>\<open>_task_response(self.tasks.get(key))\<close>; subscripting a missing row raises.\<close>

definition recorded_response :: "string \<Rightarrow> ('h node, json result) prog" where
  "recorded_response key =
     look (\<lambda>s. case task_get (nd_work s) key of None \<Rightarrow> Inl TypeError | Some (st, r) \<Rightarrow> Inr (task_response st r))"

definition error_json :: "string \<Rightarrow> json" where
  "error_json code = JObj [(''code'', JStr code)]"

definition reject_task :: "'h harness \<Rightarrow> string \<Rightarrow> string \<Rightarrow> ('h node, json result) prog" where
  "reject_task h key code =
     bind_prog (work_action (\<lambda>db t. task_reject (hs_audit h) db key (error_json code) t)) (\<lambda>_. Done (Inl (FaspError code)))"

section \<open>Outcomes\<close>

definition ARTIFACT_INLINE_THRESHOLD_BYTES :: nat where
  "ARTIFACT_INLINE_THRESHOLD_BYTES = 8 * 1024"

definition ARTIFACT_RETENTION_MS :: int where
  "ARTIFACT_RETENTION_MS = 7 * 24 * 60 * 60 * 1000"

definition put_artifact :: "'h harness \<Rightarrow> bytes \<Rightarrow> string \<Rightarrow> ('h node, artifact_row result) prog" where
  "put_artifact h data created_by =
     atomic (\<lambda>s. case artifact_put (hs_sha h) (nd_artifacts s) (nd_now s) (hs_stuck h) (hs_token h (nd_now s) data) data
                       ''application/json'' created_by (nd_now s) (Some ARTIFACT_RETENTION_MS) of
                   (a, r) \<Rightarrow> (s\<lparr>nd_artifacts := a\<rparr>, r))"

definition materialize_output :: "'h harness \<Rightarrow> py_value \<Rightarrow> string \<Rightarrow> ('h node, (string \<times> json) list result) prog" where
  "materialize_output h output created_by =
     (case output of
        NotJson \<Rightarrow> Done (Inl TypeError)
      | Plain v \<Rightarrow>
          (case plain_json (hs_float_text h) v of
             None \<Rightarrow> Done (Inl ValueError)
           | Some encoded \<Rightarrow>
               if length encoded \<le> ARTIFACT_INLINE_THRESHOLD_BYTES then Done (Inr [(''output'', v)])
               else bind_prog (put_artifact h encoded created_by) (\<lambda>r. Done (
                 case r of
                   Inl e \<Rightarrow> Inl e
                 | Inr a \<Rightarrow> Inr [(''artifact'', JObj [(''artifact_id'', JStr (at_artifact_id a)), (''digest'', JStr (at_digest a)),
                                 (''media_type'', JStr (at_media_type a)), (''size_bytes'', JInt (int (at_size_bytes a)))])]))))"

definition pushed :: "json \<Rightarrow> json" where
  "pushed response = JObj [(''fasp'', JStr ''fasp/1.0''), (''type'', JStr ''task.push''), (''response'', response)]"

text \<open>The tail of both branches: what a committed outcome answers and pushes, or what the record says instead.\<close>

definition commit_outcome :: "string \<Rightarrow> string \<Rightarrow> bool \<Rightarrow> json \<Rightarrow> bool \<Rightarrow> ('h node, json result) prog" where
  "commit_outcome key from_peer push_it result committed =
     (if \<not> committed then recorded_response key
      else if push_it then bind_prog (push from_peer (pushed result)) (\<lambda>_. Done (Inr result))
      else Done (Inr result))"

definition fail_outcome :: "'h harness \<Rightarrow> string \<Rightarrow> string \<Rightarrow> string option \<Rightarrow> string \<Rightarrow> bool \<Rightarrow> ('h node, json result) prog" where
  "fail_outcome h key from_peer intent_id code push_it =
     bind_prog (look nd_now) (\<lambda>t.
       let result = JObj [(''type'', JStr ''task.fail''), (''intent_id'', opt_json intent_id), (''idempotency_key'', JStr key),
                          (''status'', JStr ''failed''), (''error'', error_json code), (''completed_at'', JStr (stamp t))]
       in bind_prog (work_action (\<lambda>db t. task_fail (hs_audit h) db key (error_json code) t)) (commit_outcome key from_peer push_it result))"

definition complete_outcome ::
    "'h harness \<Rightarrow> string \<Rightarrow> string \<Rightarrow> string option \<Rightarrow> (string \<times> json) list \<Rightarrow> bool \<Rightarrow> ('h node, json result) prog" where
  "complete_outcome h key from_peer intent_id materialized push_it =
     bind_prog (look nd_now) (\<lambda>t.
       let result = JObj (dict_update [(''type'', JStr ''task.result''), (''intent_id'', opt_json intent_id), (''idempotency_key'', JStr key),
                          (''status'', JStr ''completed''), (''completed_at'', JStr (stamp t))] materialized)
       in bind_prog (work_action (\<lambda>db t. task_complete (hs_audit h) db key result t)) (commit_outcome key from_peer push_it result))"

text \<open>
  An adapter's value that cannot be stored fails the task; an exception of the artifact store that is
  neither a protocol error nor one of the two JSON errors escapes.
\<close>

definition apply_task_outcome ::
    "'h harness \<Rightarrow> string \<Rightarrow> string \<Rightarrow> string option \<Rightarrow> adapter_result \<Rightarrow> bool \<Rightarrow> ('h node, json result) prog" where
  "apply_task_outcome h key from_peer intent_id outcome push_it =
     (case outcome of
        RaisedFasp code \<Rightarrow> fail_outcome h key from_peer intent_id code push_it
      | Raised \<Rightarrow> fail_outcome h key from_peer intent_id ''internal.adapter_error'' push_it
      | Returned output \<Rightarrow>
          bind_prog (materialize_output h output from_peer) (\<lambda>m.
            case m of
              Inr materialized \<Rightarrow> complete_outcome h key from_peer intent_id materialized push_it
            | Inl (FaspError code) \<Rightarrow> fail_outcome h key from_peer intent_id code push_it
            | Inl TypeError \<Rightarrow> fail_outcome h key from_peer intent_id ''internal.adapter_error'' push_it
            | Inl ValueError \<Rightarrow> fail_outcome h key from_peer intent_id ''internal.adapter_error'' push_it
            | Inl e \<Rightarrow> Done (Inl e)))"

definition on_adapter_done :: "'h harness \<Rightarrow> late_call \<Rightarrow> ('h node, json result) prog" where
  "on_adapter_done h c = apply_task_outcome h (lc_key c) (lc_from_peer c) (lc_intent_id c) (lc_result c) True"

section \<open>Execution\<close>

definition submit_call :: "'h harness \<Rightarrow> string \<Rightarrow> (string \<times> json) list \<Rightarrow> ('h node, adapter_reply) prog" where
  "submit_call h key intent =
     atomic (\<lambda>s. (s\<lparr>nd_submitted := nd_submitted s @ [(key, intent)]\<rparr>, ad_handle (hs_adapter h) (length (nd_submitted s)) intent))"

definition register_late :: "late_call \<Rightarrow> ('h node, unit) prog" where
  "register_late c = atomic (\<lambda>s. (s\<lparr>nd_late := nd_late s @ [c]\<rparr>, ()))"

definition text_of :: "(string \<times> json) list \<Rightarrow> string \<Rightarrow> string option" where
  "text_of kvs k = (case map_of kvs k of Some (JStr s) \<Rightarrow> Some s | _ \<Rightarrow> None)"

definition run_adapter_bounded ::
    "'h harness \<Rightarrow> string \<Rightarrow> (string \<times> json) list \<Rightarrow> string \<Rightarrow> ('h node, json result) prog" where
  "run_adapter_bounded h key intent from_peer =
     bind_prog (submit_call h key intent) (\<lambda>reply.
       case reply of
         Late r \<Rightarrow>
           bind_prog (register_late \<lparr>lc_key = key, lc_from_peer = from_peer, lc_intent_id = text_of intent ''intent_id'', lc_result = r\<rparr>)
             (\<lambda>_. Done (Inr (JObj [(''type'', JStr ''task.progress''), (''idempotency_key'', JStr key), (''status'', JStr ''running'')])))
       | InTime r \<Rightarrow> apply_task_outcome h key from_peer (text_of intent ''intent_id'') r False)"

definition attr_json :: "attr \<Rightarrow> json" where
  "attr_json a = (case a of ALayer l \<Rightarrow> JInt (layer_value l) | AInteraction i \<Rightarrow> JInt (interaction_value i) | AVal v \<Rightarrow> v)"

text \<open>\<^verbatim>\<open>{item["id"]: item ...}\<close>, with the identifiers that are strings: a later item of one identifier wins.\<close>

fun capability_items :: "(string \<times> attr) list option list \<Rightarrow> (string \<times> (string \<times> attr) list) list result" where
  "capability_items [] = Inr []"
| "capability_items (None # items) = Inl TypeError"
| "capability_items (Some kvs # items) =
     (case map_option attr_json (map_of kvs ''id'') of
        None \<Rightarrow> Inl KeyError
      | Some (JList _) \<Rightarrow> Inl TypeError
      | Some (JObj _) \<Rightarrow> Inl TypeError
      | Some (JStr s) \<Rightarrow> bind_result (capability_items items) (\<lambda>rest. Inr ((s, kvs) # rest))
      | Some _ \<Rightarrow> capability_items items)"

definition find_capability :: "(string \<times> (string \<times> attr) list) list \<Rightarrow> string \<Rightarrow> (string \<times> attr) list option" where
  "find_capability items capability = map_of (rev items) capability"

text \<open>\<^verbatim>\<open>risk in EXECUTABLE_RISK_CLASSES\<close>: only a string can be a member, a list or an object cannot be hashed.\<close>

definition risk_class :: "(string \<Rightarrow> bool) \<Rightarrow> json \<Rightarrow> bool result" where
  "risk_class test risk = (case risk of JStr s \<Rightarrow> Inr (test s) | JList _ \<Rightarrow> Inl TypeError | JObj _ \<Rightarrow> Inl TypeError | _ \<Rightarrow> Inr False)"

definition risk_matches :: "(string \<times> json) list \<Rightarrow> json \<Rightarrow> bool" where
  "risk_matches intent risk = (case map_of intent ''risk'' of None \<Rightarrow> True | Some v \<Rightarrow> py_eq v risk)"

text \<open>The grant an intent names: none, an identifier, or a value no grant has as its identifier.\<close>

definition intent_grant :: "(string \<times> json) list \<Rightarrow> (string option) result" where
  "intent_grant intent =
     (case map_of intent ''grant'' of
        Some (JObj g) \<Rightarrow> (case map_of g ''id'' of
            None \<Rightarrow> Inr None | Some JNull \<Rightarrow> Inr None | Some (JStr s) \<Rightarrow> Inr (Some s)
          | Some (JList _) \<Rightarrow> Inl OtherException | Some (JObj _) \<Rightarrow> Inl OtherException
          | Some _ \<Rightarrow> Inl (FaspError ''auth.not_authorized''))
      | _ \<Rightarrow> Inr None)"

definition grant_check ::
    "string \<Rightarrow> string \<Rightarrow> (string \<times> json) list \<Rightarrow> bool \<Rightarrow> ('h node, unit result) prog" where
  "grant_check from_peer capability intent required =
     look (\<lambda>s. bind_result (intent_grant intent) (\<lambda>gid.
       validate_grant_if_required (nd_trust s) (nd_now s) from_peer capability gid required None))"

definition DEFAULT_TASK_LEASE :: rat where
  "DEFAULT_TASK_LEASE = 30"

definition lease_seconds :: "(string \<times> attr) list \<Rightarrow> pyfloat" where
  "lease_seconds item =
     (case map_option attr_json (map_of item ''max_runtime_s'') of
        None \<Rightarrow> Fin DEFAULT_TASK_LEASE
      | Some v \<Rightarrow> (case as_number v of Some f \<Rightarrow> if fl_less (Fin 0) f then f else Fin DEFAULT_TASK_LEASE
                   | None \<Rightarrow> Fin DEFAULT_TASK_LEASE))"

text \<open>\<^verbatim>\<open>stamp(now() + timedelta(seconds=lease_seconds))\<close>; a date beyond the year 9999 overflows.\<close>

definition lease_end :: "timestamp \<Rightarrow> pyfloat \<Rightarrow> timestamp option" where
  "lease_end t lease =
     (case lease of Fin r \<Rightarrow> let e = t + \<lfloor>r * 1000\<rfloor> in if representable e then Some e else None | _ \<Rightarrow> None)"

definition try_start :: "'h harness \<Rightarrow> string \<Rightarrow> pyfloat \<Rightarrow> ('h node, bool result) prog" where
  "try_start h key lease =
     work_action (\<lambda>db t. case lease_end t lease of
        None \<Rightarrow> (db, Inl OtherException)
      | Some e \<Rightarrow> (case start_running (hs_audit h) db key e t of (db', ok) \<Rightarrow> (db', Inr ok)))"

definition start_and_run ::
    "'h harness \<Rightarrow> string \<Rightarrow> (string \<times> json) list \<Rightarrow> string \<Rightarrow> pyfloat \<Rightarrow> ('h node, json result) prog" where
  "start_and_run h key intent from_peer lease =
     bind_prog (try_start h key lease) (\<lambda>started.
       case started of
         Inl e \<Rightarrow> Done (Inl e)
       | Inr False \<Rightarrow> recorded_response key
       | Inr True \<Rightarrow> run_adapter_bounded h key intent from_peer)"

definition layer_check :: "'h harness \<Rightarrow> string \<Rightarrow> (string \<times> attr) list \<Rightarrow> unit result" where
  "layer_check h capability item =
     (case hs_declarations h capability of
        Some d \<Rightarrow> check_capability (hs_guard h) d
      | None \<Rightarrow> bind_result (from_mapping (hs_str_of h) (Some item)) (check_capability (hs_guard h)))"

text \<open>A failed check that is a protocol error rejects the task; any other exception leaves it queued.\<close>

definition reject_or_raise :: "'h harness \<Rightarrow> string \<Rightarrow> exn \<Rightarrow> ('h node, json result) prog" where
  "reject_or_raise h key e = (case e of FaspError code \<Rightarrow> reject_task h key code | _ \<Rightarrow> Done (Inl e))"

definition check_risk_and_run ::
    "'h harness \<Rightarrow> string \<Rightarrow> (string \<times> json) list \<Rightarrow> string \<Rightarrow> string \<Rightarrow> (string \<times> attr) list \<Rightarrow> ('h node, json result) prog" where
  "check_risk_and_run h key intent from_peer capability item =
     (case map_option attr_json (map_of item ''risk'') of
        None \<Rightarrow> Done (Inl KeyError)
      | Some risk \<Rightarrow>
          if \<not> risk_matches intent risk then reject_task h key ''policy.requires_confirmation''
          else (case risk_class is_executable risk of
                  Inl e \<Rightarrow> Done (Inl e)
                | Inr False \<Rightarrow> reject_task h key ''policy.requires_confirmation''
                | Inr True \<Rightarrow>
                    bind_prog (grant_check from_peer capability intent (risk_class requires_grant risk = Inr True)) (\<lambda>g.
                      case g of
                        Inl e \<Rightarrow> reject_or_raise h key e
                      | Inr u \<Rightarrow> start_and_run h key intent from_peer (lease_seconds item))))"

definition execute_admitted_intent ::
    "'h harness \<Rightarrow> string \<Rightarrow> (string \<times> json) list \<Rightarrow> string \<Rightarrow> string list \<Rightarrow> ('h node, json result) prog" where
  "execute_admitted_intent h key intent from_peer allowed_prefixes =
     (case text_of intent ''capability'' of
        None \<Rightarrow> reject_task h key ''auth.not_authorized''
      | Some capability \<Rightarrow>
          if capability = '''' \<or> \<not> allows capability allowed_prefixes then reject_task h key ''auth.not_authorized''
          else bind_prog (look (\<lambda>s. capability_items (ad_capabilities (hs_adapter h) (nd_now s)))) (\<lambda>items.
            case items of
              Inl e \<Rightarrow> Done (Inl e)
            | Inr cs \<Rightarrow>
                (case find_capability cs capability of
                   None \<Rightarrow> reject_task h key ''capability.unavailable''
                 | Some item \<Rightarrow>
                     (case layer_check h capability item of
                        Inl e \<Rightarrow> reject_or_raise h key e
                      | Inr u \<Rightarrow> check_risk_and_run h key intent from_peer capability item))))"

section \<open>The handlers\<close>

text \<open>The error a rejected task is answered with when it is proposed again.\<close>

definition recorded_error :: "json option \<Rightarrow> exn" where
  "recorded_error e =
     (case error_or_empty e of
        JObj kvs \<Rightarrow> (case map_of kvs ''code'' of
            None \<Rightarrow> FaspError ''policy.requires_confirmation'' | Some (JStr c) \<Rightarrow> FaspError c | Some _ \<Rightarrow> OtherException)
      | _ \<Rightarrow> OtherException)"

definition terminal_task :: "TaskState \<Rightarrow> bool" where
  "terminal_task st \<longleftrightarrow> st \<in> {TCompleted, TFailed, TCancelled, TRejected, TUnknown}"

text \<open>\<^verbatim>\<open>existing["payload"] != intent\<close>, or for a row without a payload the two columns.\<close>

definition same_request :: "work_row \<Rightarrow> string \<Rightarrow> (string \<times> json) list \<Rightarrow> bool" where
  "same_request r capability intent =
     (case wi_payload r of
        Some p \<Rightarrow> py_eq p (JObj intent)
      | None \<Rightarrow> wi_capability r = Some capability \<and> wi_intent_id r = text_of intent ''intent_id'')"

definition answer_duplicate ::
    "'h harness \<Rightarrow> string \<Rightarrow> string \<Rightarrow> string \<Rightarrow> (string \<times> json) list \<Rightarrow> string list \<Rightarrow> (TaskState \<times> work_row) option \<Rightarrow>
     ('h node, json result) prog" where
  "answer_duplicate h from_peer key capability intent scopes existing =
     (case existing of
        None \<Rightarrow> Done (Inl (FaspError ''auth.not_authorized''))
      | Some (st, r) \<Rightarrow>
          if wi_owner r \<noteq> from_peer then Done (Inl (FaspError ''auth.not_authorized''))
          else if \<not> same_request r capability intent then Done (Inl (FaspError ''schema.idempotency_conflict''))
          else if st = TRejected then Done (Inl (recorded_error (wi_error r)))
          else if terminal_task st then Done (Inr (task_response st r))
          else if st = TProposed
          then execute_admitted_intent h key (case wi_payload r of Some (JObj p) \<Rightarrow> p | _ \<Rightarrow> intent) from_peer scopes
          else Done (Inr (task_response st r)))"

definition handle_intent ::
    "'h harness \<Rightarrow> string \<Rightarrow> (string \<times> json) list \<Rightarrow> string list \<Rightarrow> ('h node, json result) prog" where
  "handle_intent h from_peer intent scopes =
     (case (text_of intent ''idempotency_key'', (case map_of intent ''capability'' of None \<Rightarrow> Some '''' | _ \<Rightarrow> text_of intent ''capability'')) of
        (Some key, Some capability) \<Rightarrow>
          if key = '''' then Done (Inl (FaspError ''schema.invalid''))
          else if \<not> allows capability scopes then Done (Inl (FaspError ''auth.not_authorized''))
          else bind_prog (work_action (\<lambda>db t.
                 case propose (hs_audit h) db key (text_of intent ''intent_id'') capability from_peer t (Some (JObj intent))
                        (Some (hs_max_inflight h)) of
                   Inl e \<Rightarrow> (db, Inl e) | Inr (db', ok) \<Rightarrow> (db', Inr ok))) (\<lambda>r.
               case r of
                 Inl e \<Rightarrow> Done (Inl e)
               | Inr True \<Rightarrow> execute_admitted_intent h key intent from_peer scopes
               | Inr False \<Rightarrow>
                   bind_prog (look (\<lambda>s. task_get (nd_work s) key))
                     (answer_duplicate h from_peer key capability intent scopes))
      | _ \<Rightarrow> Done (Inl (FaspError ''schema.invalid'')))"

definition payload_key :: "(string \<times> json) list \<Rightarrow> string option" where
  "payload_key payload = (case text_of payload ''idempotency_key'' of Some k \<Rightarrow> if k = '''' then None else Some k | None \<Rightarrow> None)"

definition cancelled_response :: "string \<Rightarrow> json" where
  "cancelled_response key = JObj [(''type'', JStr ''task.cancelled''), (''idempotency_key'', JStr key)]"

fun task_state_text :: "TaskState \<Rightarrow> string" where
  "task_state_text TProposed = ''queued''"
| "task_state_text TRunning = ''running''"
| "task_state_text TCancelPending = ''running''"
| "task_state_text TCompleted = ''completed''"
| "task_state_text TFailed = ''failed''"
| "task_state_text TCancelled = ''cancelled''"
| "task_state_text TUnknown = ''unknown''"
| "task_state_text TRejected = ''rejected''"

definition too_late :: "string \<Rightarrow> (TaskState \<times> work_row) option \<Rightarrow> json result" where
  "too_late key task =
     (case task of
        None \<Rightarrow> Inl TypeError
      | Some (st, r) \<Rightarrow>
          if st = TCancelled then Inr (cancelled_response key)
          else Inr (JObj ([(''type'', JStr ''task.too_late''), (''idempotency_key'', JStr key), (''status'', JStr (task_state_text st)),
                           (''outcome'', task_response st r)] @
                          (if st = TCancelPending then [(''phase'', JStr ''cancel_requested'')] else []))))"

definition read_task :: "string \<Rightarrow> ('h node, (TaskState \<times> work_row) option) prog" where
  "read_task key = look (\<lambda>s. task_get (nd_work s) key)"

definition ask_adapter_to_cancel :: "'h harness \<Rightarrow> string \<Rightarrow> ('h node, json result) prog" where
  "ask_adapter_to_cancel h key =
     bind_prog (look (\<lambda>s. case ad_cancel (hs_adapter h) of None \<Rightarrow> False | Some hook \<Rightarrow> hook (nd_now s) key = Some True)) (\<lambda>accepted.
     bind_prog (if accepted then work_action (\<lambda>db t. cancel_immediately (hs_audit h) db key t) else Done False) (\<lambda>cancelled.
     if cancelled then Done (Inr (cancelled_response key))
     else bind_prog (work_action (\<lambda>db t. resume_running (hs_audit h) db key t)) (\<lambda>_.
          bind_prog (read_task key) (\<lambda>task. Done (too_late key task)))))"

definition cancel_running :: "'h harness \<Rightarrow> string \<Rightarrow> (TaskState \<times> work_row) option \<Rightarrow> ('h node, json result) prog" where
  "cancel_running h key task =
     (case task of
        None \<Rightarrow> Done (Inl TypeError)
      | Some (st, r) \<Rightarrow>
          if st \<noteq> TRunning then Done (too_late key task)
          else bind_prog (work_action (\<lambda>db t. request_cancel (hs_audit h) db key t)) (\<lambda>asked.
               if asked then ask_adapter_to_cancel h key else Done (too_late key task)))"

definition handle_cancel :: "'h harness \<Rightarrow> string \<Rightarrow> (string \<times> json) list \<Rightarrow> ('h node, json result) prog" where
  "handle_cancel h from_peer payload =
     (case payload_key payload of
        None \<Rightarrow> Done (Inl (FaspError ''schema.invalid''))
      | Some key \<Rightarrow>
          bind_prog (read_task key) (\<lambda>task.
          case task of
            None \<Rightarrow> Done (Inl (FaspError ''schema.invalid''))
          | Some (st, r) \<Rightarrow>
              if wi_owner r \<noteq> from_peer then Done (Inl (FaspError ''auth.not_authorized''))
              else bind_prog (work_action (\<lambda>db t. cancel_immediately (hs_audit h) db key t)) (\<lambda>cancelled.
                   if cancelled then Done (Inr (cancelled_response key))
                   else bind_prog (read_task key) (cancel_running h key))))"

definition handle_task_status :: "string \<Rightarrow> (string \<times> json) list \<Rightarrow> ('h node, json result) prog" where
  "handle_task_status from_peer payload =
     (case payload_key payload of
        None \<Rightarrow> Done (Inl (FaspError ''schema.invalid''))
      | Some key \<Rightarrow>
          look (\<lambda>s. case task_get (nd_work s) key of
                      None \<Rightarrow> Inl (FaspError ''schema.invalid'')
                    | Some (st, r) \<Rightarrow> if wi_owner r \<noteq> from_peer then Inl (FaspError ''schema.invalid'') else Inr (task_response st r)))"

definition MAX_INLINE_BYTES :: nat where
  "MAX_INLINE_BYTES = 64 * 1024"

text \<open>The bytes of an artifact travel as a base64 text, the parameter \<open>b64\<close>.\<close>

definition handle_artifact_fetch ::
    "'h harness \<Rightarrow> (bytes \<Rightarrow> string) \<Rightarrow> string \<Rightarrow> (string \<times> json) list \<Rightarrow> ('h node, json result) prog" where
  "handle_artifact_fetch h b64 from_peer payload =
     (case text_of payload ''artifact_id'' of
        None \<Rightarrow> Done (Inl (FaspError ''schema.invalid''))
      | Some aid \<Rightarrow>
          bind_prog (look (\<lambda>s. artifact_get (nd_artifacts s) aid)) (\<lambda>artifact.
          bind_prog (look (\<lambda>s. can_fetch (nd_artifacts s) aid from_peer)) (\<lambda>allowed.
          case artifact of
            None \<Rightarrow> Done (Inl (FaspError ''auth.not_authorized''))
          | Some a \<Rightarrow>
              if \<not> allowed then Done (Inl (FaspError ''auth.not_authorized''))
              else bind_prog (look (\<lambda>s. read_bytes (hs_sha h) (nd_artifacts s) aid)) (\<lambda>r.
                case r of
                  Inl e \<Rightarrow> Done (Inl e)
                | Inr None \<Rightarrow> Done (Inl (FaspError ''resource.too_large''))
                | Inr (Some d) \<Rightarrow>
                    if length d > MAX_INLINE_BYTES then Done (Inl (FaspError ''resource.too_large''))
                    else Done (Inr (JObj [(''artifact_id'', JStr aid), (''media_type'', JStr (at_media_type a)),
                                          (''digest'', JStr (at_digest a)), (''payload'', JStr (b64 d))]))))))"

section \<open>Reconciliation and recovery\<close>

datatype evidence = Completed py_value | Failed string | NoEvidence | BadEvidence

text \<open>What the reconcile hook's answer amounts to; a status that cannot be hashed raises.\<close>

definition read_evidence :: "py_value option \<Rightarrow> evidence" where
  "read_evidence v =
     (case v of
        Some (Plain (JObj kvs)) \<Rightarrow>
          (case map_of kvs ''status'' of
             Some (JStr st) \<Rightarrow>
               if st = ''completed'' then Completed (Plain (get_or_null kvs ''output''))
               else if st = ''failed''
               then (case map_of kvs ''error'' of
                       Some (JObj e) \<Rightarrow> (case (map_of e ''code'', map_of e ''detail'') of (Some (JStr c), Some (JStr _)) \<Rightarrow> Failed c | _ \<Rightarrow> NoEvidence)
                     | _ \<Rightarrow> NoEvidence)
               else NoEvidence
           | Some (JList _) \<Rightarrow> BadEvidence
           | Some (JObj _) \<Rightarrow> BadEvidence
           | _ \<Rightarrow> NoEvidence)
      | _ \<Rightarrow> NoEvidence)"

definition settle_completed :: "'h harness \<Rightarrow> string \<Rightarrow> TaskState \<Rightarrow> work_row \<Rightarrow> py_value \<Rightarrow> ('h node, json result) prog" where
  "settle_completed h key st r output =
     bind_prog (look nd_now) (\<lambda>t.
     bind_prog (materialize_output h output (wi_owner r)) (\<lambda>m.
     case m of
       Inr materialized \<Rightarrow>
         bind_prog (work_action (\<lambda>db t'. task_reconcile (hs_audit h) db key True t'
           (Some (JObj (dict_update [(''type'', JStr ''task.result''), (''intent_id'', opt_json (wi_intent_id r)), (''idempotency_key'', JStr key),
              (''status'', JStr ''completed''), (''completed_at'', JStr (stamp t))] materialized))) None)) (\<lambda>_. recorded_response key)
     | Inl (FaspError _) \<Rightarrow> Done (Inr (task_response st r))
     | Inl TypeError \<Rightarrow> Done (Inr (task_response st r))
     | Inl ValueError \<Rightarrow> Done (Inr (task_response st r))
     | Inl e \<Rightarrow> Done (Inl e)))"

definition reconcile_task :: "'h harness \<Rightarrow> string \<Rightarrow> ('h node, json result) prog" where
  "reconcile_task h key =
     bind_prog (read_task key) (\<lambda>task.
     case task of
       None \<Rightarrow> Done (Inl (FaspError ''schema.invalid''))
     | Some (st, r) \<Rightarrow>
         if st \<noteq> TUnknown then Done (Inr (task_response st r))
         else (case ad_reconcile (hs_adapter h) of
                 None \<Rightarrow> Done (Inr (task_response st r))
               | Some hook \<Rightarrow>
                   bind_prog (look (\<lambda>s. read_evidence (hook (nd_now s) key (wi_payload r)))) (\<lambda>ev.
                   case ev of
                     NoEvidence \<Rightarrow> Done (Inr (task_response st r))
                   | BadEvidence \<Rightarrow> Done (Inl TypeError)
                   | Completed output \<Rightarrow> settle_completed h key st r output
                   | Failed code \<Rightarrow>
                       bind_prog (work_action (\<lambda>db t. task_reconcile (hs_audit h) db key False t None (Some (error_json code))))
                         (\<lambda>_. recorded_response key))))"

definition has_settled_status :: "json \<Rightarrow> bool" where
  "has_settled_status v =
     (case v of JObj kvs \<Rightarrow> (case map_of kvs ''status'' of Some (JStr st) \<Rightarrow> st \<in> {''completed'', ''failed''} | _ \<Rightarrow> False) | _ \<Rightarrow> False)"

fun reconcile_each :: "'h harness \<Rightarrow> string list \<Rightarrow> nat \<Rightarrow> ('h node, nat result) prog" where
  "reconcile_each h [] n = Done (Inr n)"
| "reconcile_each h (key # keys) n =
     bind_prog (reconcile_task h key) (\<lambda>r.
       case r of Inl e \<Rightarrow> Done (Inl e) | Inr v \<Rightarrow> reconcile_each h keys (if has_settled_status v then n + 1 else n))"

definition counters :: "(string \<times> nat) list \<Rightarrow> json" where
  "counters kvs = JObj (map (\<lambda>(k, n). (k, JInt (int n))) kvs)"

definition reconcile_unknown_tasks :: "'h harness \<Rightarrow> int \<Rightarrow> ('h node, json result) prog" where
  "reconcile_unknown_tasks h limit =
     bind_prog (look (\<lambda>s. unknown_tasks (nd_work s) limit)) (\<lambda>keys.
     bind_prog (reconcile_each h keys 0) (\<lambda>r.
     case r of
       Inl e \<Rightarrow> Done (Inl e)
     | Inr n \<Rightarrow>
         bind_prog (look (\<lambda>s. length (unknown_tasks (nd_work s) limit))) (\<lambda>left.
           Done (Inr (counters [(''checked'', length keys), (''resolved'', n), (''remaining'', left)])))))"

text \<open>What recovery writes for a task it could not start: only when the task is still queued.\<close>

definition reject_if_queued :: "'h harness \<Rightarrow> string \<Rightarrow> string \<Rightarrow> ('h node, unit) prog" where
  "reject_if_queued h key code =
     bind_prog (read_task key) (\<lambda>task.
       if (case task of Some (st, r) \<Rightarrow> st = TProposed | None \<Rightarrow> False)
       then bind_prog (work_action (\<lambda>db t. task_reject (hs_audit h) db key (error_json code) t)) (\<lambda>_. Done ())
       else Done ())"

definition recover_one :: "'h harness \<Rightarrow> work_row \<Rightarrow> ('h node, bool) prog" where
  "recover_one h item =
     (let key = wi_idempotency_key item; failed = (\<lambda>e. case e of
            FaspError code \<Rightarrow> bind_prog (reject_if_queued h key code) (\<lambda>_. Done False)
          | _ \<Rightarrow> bind_prog (reject_if_queued h key ''internal.recovery_error'') (\<lambda>_. Done False))
      in case wi_payload item of
           Some (JObj intent) \<Rightarrow>
             bind_prog (look (\<lambda>s. harness_peer (nd_trust s) (nd_now s) (wi_owner item))) (\<lambda>peer.
             case peer of
               Inl e \<Rightarrow> failed e
             | Inr p \<Rightarrow>
                 bind_prog (execute_admitted_intent h key intent (wi_owner item) (av_prefixes p)) (\<lambda>r.
                 case r of Inr v \<Rightarrow> Done True | Inl e \<Rightarrow> failed e))
         | _ \<Rightarrow> bind_prog (work_action (\<lambda>db t. task_reject (hs_audit h) db key (error_json ''task.interrupted'') t)) (\<lambda>_. Done False))"

fun recover_each :: "'h harness \<Rightarrow> work_row list \<Rightarrow> nat \<Rightarrow> ('h node, nat) prog" where
  "recover_each h [] n = Done n"
| "recover_each h (item # items) n =
     bind_prog (recover_one h item) (\<lambda>ok. recover_each h items (if ok then n + 1 else n))"

definition recover_interrupted_intents :: "'h harness \<Rightarrow> int \<Rightarrow> int \<Rightarrow> ('h node, json result) prog" where
  "recover_interrupted_intents h older_than_ms limit =
     bind_prog (look (\<lambda>s. stale_queued (nd_work s) ''intent'' (nd_now s - older_than_ms) limit)) (\<lambda>stale.
     bind_prog (recover_each h stale 0) (\<lambda>n.
       Done (Inr (counters [(''checked'', length stale), (''recovered'', n)]))))"

end
