(* ===== verification/Intent_Safety.thy ===== *)
theory Intent_Safety
  imports Intents
begin

text \<open>
  What the intent handlers guarantee when any number of them run at once: the adapter is called at
  most once for a key, never for a task that was cancelled or rejected before it started, and only
  after every gate. The environment may move the clock, change the trust tables and the artifact
  store at will, take any step of the work store, deliver late adapter results and crash the process.
\<close>

inductive intent_env :: "'h harness \<Rightarrow> 'h node \<Rightarrow> 'h node \<Rightarrow> ('h node, json result) prog option \<Rightarrow> bool" for h where
  e_intent: "intent_env h s s (Some (handle_intent h peer intent scopes))"
| e_cancel: "intent_env h s s (Some (handle_cancel h peer payload))"
| e_status: "intent_env h s s (Some (handle_task_status peer payload))"
| e_fetch: "intent_env h s s (Some (handle_artifact_fetch h b64 peer payload))"
| e_reconcile: "intent_env h s s (Some (reconcile_task h key))"
| e_reconcile_all: "intent_env h s s (Some (reconcile_unknown_tasks h limit))"
| e_recover: "intent_env h s s (Some (recover_interrupted_intents h older limit))"
| e_late: "c \<in> set (nd_late s) \<Longrightarrow> intent_env h s (s\<lparr>nd_late := remove1 c (nd_late s)\<rparr>) (Some (on_adapter_done h c))"
| e_lost: "intent_env h s (s\<lparr>nd_late := []\<rparr>) None"
| e_clock: "intent_env h s (s\<lparr>nd_now := t\<rparr>) None"
| e_trust: "intent_env h s (s\<lparr>nd_trust := trust\<rparr>) None"
| e_artifacts: "intent_env h s (s\<lparr>nd_artifacts := store\<rparr>) None"
| e_work: "work_step (hs_audit h) (Some (hs_max_inflight h)) (nd_work s) db \<Longrightarrow> intent_env h s (s\<lparr>nd_work := db\<rparr>) None"

definition node_inv :: "'h harness \<Rightarrow> 'h node \<Rightarrow> bool" where
  "node_inv h s \<longleftrightarrow> work_inv (hs_audit h) (Some (hs_max_inflight h)) (nd_work s)"

definition node_step :: "'h harness \<Rightarrow> 'h node \<Rightarrow> 'h node \<Rightarrow> bool" where
  "node_step h s s' \<longleftrightarrow> node_inv h s' \<and> evolves (nd_work s) (nd_work s')"

text \<open>A task that may still be started: not proposed yet, or queued.\<close>

definition startable :: "'h work_db \<Rightarrow> string \<Rightarrow> bool" where
  "startable db key = (case task_get db key of None \<Rightarrow> True | Some (st, r) \<Rightarrow> st = TProposed)"

definition is_running :: "'h work_db \<Rightarrow> string \<Rightarrow> bool" where
  "is_running db key = (case task_get db key of None \<Rightarrow> False | Some (st, r) \<Rightarrow> st = TRunning)"

definition calls :: "string \<Rightarrow> 'h node \<Rightarrow> nat" where
  "calls key s = length (filter (\<lambda>c. fst c = key) (nd_submitted s))"

definition starts_left :: "string \<Rightarrow> 'h node \<Rightarrow> nat" where
  "starts_left key s = (if startable (nd_work s) key then 1 else 0)"

definition start_gain :: "string \<Rightarrow> 'h node \<Rightarrow> 'h node \<Rightarrow> nat" where
  "start_gain key s s' = (if startable (nd_work s) key \<and> is_running (nd_work s') key then 1 else 0)"

lemma task_arrows_to_proposed: "task_arrow\<^sup>*\<^sup>* st TProposed \<Longrightarrow> st = TProposed"
  by (erule rtranclp.cases) (auto simp: task_arrow_simps)

lemma task_get_evolves:
  assumes "work_inv aud cap db" and "work_inv aud cap db'" and "evolves db db'" and "task_get db key = Some (st, r)"
  obtains r' where "task_get db' key = Some (task_state r', r')" and "task_arrow\<^sup>*\<^sup>* st (task_state r')"
proof -
  have d: "distinct (map wi_work_id (wd_items db))" "distinct (map wi_work_id (wd_items db'))"
    using assms(1,2) by (simp_all add: work_inv_def)
  have r: "r \<in> set (wd_items db)" "wi_work_id r = task_work_id key" "wi_kind r = ''intent''" "st = task_state r"
    using assms(4) by (auto simp: task_get_def work_get_iff [OF d(1)])
  then obtain r' where r': "r' \<in> set (wd_items db')" "row_arrow\<^sup>*\<^sup>* r r'" using assms(3) by (auto simp: evolves_def)
  have "task_row_ok r" using assms(1) r(1) by (simp add: work_inv_def)
  with row_arrows [OF r'(2)] r r' show ?thesis
    by (intro that [of r']) (simp_all add: task_get_def work_get_iff [OF d(2)])
qed

lemma startable_evolves:
  assumes "work_inv aud cap db" and "work_inv aud cap db'" and "evolves db db'" and "startable db' key"
  shows "startable db key"
proof (cases "task_get db key")
  case None
  then show ?thesis by (simp add: startable_def)
next
  case (Some p)
  then obtain st r where sr: "task_get db key = Some (st, r)" by (cases p) simp
  from task_get_evolves [OF assms(1-3) sr] obtain r' where "task_get db' key = Some (task_state r', r')" "task_arrow\<^sup>*\<^sup>* st (task_state r')"
    by blast
  with assms(4) sr show ?thesis using task_arrows_to_proposed by (auto simp: startable_def)
qed

lemma running_not_startable: "is_running db key \<Longrightarrow> \<not> startable db key"
  by (auto simp: is_running_def startable_def split: option.splits)

lemma starts_left_budget:
  assumes "node_inv h s" and "node_step h s s'"
  shows "starts_left key s' + start_gain key s s' \<le> starts_left key s"
proof -
  have "startable (nd_work s') key \<Longrightarrow> startable (nd_work s) key"
    using assms startable_evolves unfolding node_inv_def node_step_def by blast
  then show ?thesis using running_not_startable by (auto simp: starts_left_def start_gain_def)
qed

section \<open>Quiet programs\<close>

named_theorems quiet \<open>programs that need no tokens\<close>

abbreviation quiet_prog :: "'h harness \<Rightarrow> string \<Rightarrow> nat \<Rightarrow> ('h node, 'r) prog \<Rightarrow> bool" where
  "quiet_prog h key n p \<equiv> safe (node_inv h) (node_step h) (calls key) (start_gain key) n p"

lemma node_step_frame: "node_inv h s \<Longrightarrow> nd_work s' = nd_work s \<Longrightarrow> node_step h s s'"
  by (simp add: node_step_def node_inv_def evolves_refl)

lemma node_step_work:
  assumes "node_inv h s" and "work_step (hs_audit h) (Some (hs_max_inflight h)) (nd_work s) db" and "nd_work s' = db"
  shows "node_step h s s'"
  using work_step_ok [OF assms(2)] assms by (simp add: node_step_def node_inv_def)

lemma quiet_Done [quiet]: "quiet_prog h key n (Done r)"
  by (rule safe_Done)

lemma quiet_look [quiet]: "quiet_prog h key n (look f)"
  unfolding look_def by (rule safe_atomic) (simp add: node_step_frame)

lemma quiet_push [quiet]: "quiet_prog h key n (push peer m)"
  unfolding push_def by (rule safe_atomic) (simp add: node_step_frame calls_def)

lemma quiet_register [quiet]: "quiet_prog h key n (register_late c)"
  unfolding register_late_def by (rule safe_atomic) (simp add: node_step_frame calls_def)

lemma quiet_put_artifact [quiet]: "quiet_prog h key n (put_artifact h data by)"
  unfolding put_artifact_def by (rule safe_atomic) (simp add: node_step_frame calls_def split_beta)

lemma quiet_work:
  assumes "\<And>db t. work_inv (hs_audit h) (Some (hs_max_inflight h)) db \<Longrightarrow>
    work_step (hs_audit h) (Some (hs_max_inflight h)) db (fst (f db t)) \<or> fst (f db t) = db"
  shows "quiet_prog h key n (work_action f)"
  unfolding work_action_def
proof (rule safe_atomic)
  fix s assume s: "node_inv h s"
  have "node_step h s (s\<lparr>nd_work := fst (f (nd_work s) (nd_now s))\<rparr>)"
    using assms [of "nd_work s" "nd_now s"] s node_step_work [OF s] node_step_frame [OF s] by (auto simp: node_inv_def)
  then show "node_step h s (fst (case f (nd_work s) (nd_now s) of (db, r) \<Rightarrow> (s\<lparr>nd_work := db\<rparr>, r))) \<and>
      calls key (fst (case f (nd_work s) (nd_now s) of (db, r) \<Rightarrow> (s\<lparr>nd_work := db\<rparr>, r))) \<le> calls key s"
    by (simp add: split_beta calls_def)
qed

lemma quiet_transactions [quiet]:
  "quiet_prog h key n (work_action (\<lambda>db t. task_reject (hs_audit h) db k e t))"
  "quiet_prog h key n (work_action (\<lambda>db t. task_complete (hs_audit h) db k v t))"
  "quiet_prog h key n (work_action (\<lambda>db t. task_fail (hs_audit h) db k e t))"
  "quiet_prog h key n (work_action (\<lambda>db t. request_cancel (hs_audit h) db k t))"
  "quiet_prog h key n (work_action (\<lambda>db t. cancel_immediately (hs_audit h) db k t))"
  "quiet_prog h key n (work_action (\<lambda>db t. resume_running (hs_audit h) db k t))"
  "quiet_prog h key n (work_action (\<lambda>db t. task_reconcile (hs_audit h) db k c t r e'))"
  by (rule quiet_work; blast intro: work_step.intros)+

lemma quiet_propose [quiet]:
  "quiet_prog h key n (work_action (\<lambda>db t. case propose (hs_audit h) db k iid cp peer t pl (Some (hs_max_inflight h)) of
     Inl e \<Rightarrow> (db, Inl e) | Inr (db', ok) \<Rightarrow> (db', Inr ok)))"
  by (rule quiet_work) (auto intro: s_propose split: sum.split)

lemmas quiet_bind [quiet] = safe_bind

lemma quiet_recorded_response [quiet]: "quiet_prog h key n (recorded_response k)"
  unfolding recorded_response_def by (intro quiet)

lemma quiet_read_task [quiet]: "quiet_prog h key n (read_task k)"
  unfolding read_task_def by (intro quiet)

lemma quiet_reject_task [quiet]: "quiet_prog h key n (reject_task h k code)"
  unfolding reject_task_def by (intro quiet)

lemma quiet_reject_or_raise [quiet]: "quiet_prog h key n (reject_or_raise h k e)"
  unfolding reject_or_raise_def by (cases e) (simp_all add: quiet)

lemma quiet_materialize [quiet]: "quiet_prog h key n (materialize_output h v by)"
  unfolding materialize_output_def by (auto intro!: quiet split: py_value.split option.split)

lemma quiet_commit [quiet]: "quiet_prog h key n (commit_outcome k peer p v ok)"
  unfolding commit_outcome_def by (auto intro!: quiet)

lemma quiet_fail_outcome [quiet]: "quiet_prog h key n (fail_outcome h k peer iid code p)"
  unfolding fail_outcome_def Let_def by (intro quiet)

lemma quiet_complete_outcome [quiet]: "quiet_prog h key n (complete_outcome h k peer iid m p)"
  unfolding complete_outcome_def Let_def by (intro quiet)

lemma quiet_apply [quiet]: "quiet_prog h key n (apply_task_outcome h k peer iid outcome p)"
  unfolding apply_task_outcome_def
  by (auto intro!: quiet split: adapter_result.split sum.split exn.split)

lemma quiet_done_callback [quiet]: "quiet_prog h key n (on_adapter_done h c)"
  unfolding on_adapter_done_def by (intro quiet)

lemma quiet_grant_check [quiet]: "quiet_prog h key n (grant_check peer cp intent req)"
  unfolding grant_check_def by (intro quiet)

section \<open>The one action that pays\<close>

lemma start_running_moves:
  assumes inv: "work_inv aud cap db" and "start_running aud db key e t = (db', True)"
  shows "startable db key \<and> is_running db' key"
proof -
  have d: "distinct (map wi_work_id (wd_items db))" using inv by (simp add: work_inv_def)
  have "work_step aud cap db (fst (start_running aud db key e t))" by (rule s_start)
  then have "work_inv aud cap db'" using work_step_ok [OF _ inv] assms(2) by fastforce
  then have d': "distinct (map wi_work_id (wd_items db'))" by (simp add: work_inv_def)
  let ?ch = "no_change\<lparr>wc_phase := SetTo None, wc_lease_until := SetTo (Some e), wc_audit_event := Some ''task.running''\<rparr>"
  from d show ?thesis
  proof (cases rule: work_transition_cases [of db aud "task_work_id key" "''intent''" "[QUEUED]" None RUNNING t ?ch])
    case refused
    with assms(2) show ?thesis by (simp add: start_running_def task_transition_def)
  next
    case (taken row lg)
    have row: "task_get db key = Some (task_state row, row)" using taken(2-4) by (simp add: task_get_def work_get_iff [OF d])
    have "task_row_ok row" using inv taken(2) by (simp add: work_inv_def)
    then have "task_state row = TProposed" using taken(4,5) by (simp add: task_row_ok_def task_state_def)
    moreover have "apply_change ?ch RUNNING t row \<in> set (wd_items db')"
      using assms(2) taken(1,2) by (auto simp: start_running_def task_transition_def set_update_where)
    then have "task_get db' key = Some (TRunning, apply_change ?ch RUNNING t row)"
      using taken(3,4) by (simp add: task_get_def work_get_iff [OF d'] apply_change_def no_change_def task_state_def)
    ultimately show ?thesis using row by (simp add: startable_def is_running_def)
  qed
qed

lemma quiet_run_adapter: "quiet_prog h key (if k = key then Suc n else n) (run_adapter_bounded h k intent peer)"
  unfolding run_adapter_bounded_def submit_call_def
proof (rule safe_atomic_bind [where m = "\<lambda>_. n"])
  fix s assume s: "node_inv h s"
  have "calls key (s\<lparr>nd_submitted := nd_submitted s @ [(k, intent)]\<rparr>) = calls key s + (if k = key then 1 else 0)"
    by (simp add: calls_def)
  moreover have "node_step h s (s\<lparr>nd_submitted := nd_submitted s @ [(k, intent)]\<rparr>)" by (rule node_step_frame [OF s]) simp
  ultimately show "node_step h s (fst (s\<lparr>nd_submitted := nd_submitted s @ [(k, intent)]\<rparr>, ad_handle (hs_adapter h) (length (nd_submitted s)) intent)) \<and>
     calls key (fst (s\<lparr>nd_submitted := nd_submitted s @ [(k, intent)]\<rparr>, ad_handle (hs_adapter h) (length (nd_submitted s)) intent)) + n
     \<le> calls key s + (if k = key then Suc n else n) +
       start_gain key s (fst (s\<lparr>nd_submitted := nd_submitted s @ [(k, intent)]\<rparr>, ad_handle (hs_adapter h) (length (nd_submitted s)) intent))"
    by simp
qed (auto intro!: quiet split: adapter_reply.split)

lemma quiet_start_and_run [quiet]: "quiet_prog h key n (start_and_run h k intent peer lease)"
proof -
  define act where "act = (\<lambda>s :: 'a node.
    case (case lease_end (nd_now s) lease of
        None \<Rightarrow> (nd_work s, Inl OtherException)
      | Some e \<Rightarrow> (case start_running (hs_audit h) (nd_work s) k e (nd_now s) of (db', ok) \<Rightarrow> (db', Inr ok))) of
      (db, r) \<Rightarrow> (s\<lparr>nd_work := db\<rparr>, r :: bool result))"
  let ?tokens = "\<lambda>s. if snd (act s) = Inr True \<and> k = key then Suc n else n"
  have "quiet_prog h key n (bind_prog (atomic act) (\<lambda>started. case started of
      Inl e \<Rightarrow> Done (Inl e) | Inr False \<Rightarrow> recorded_response k | Inr True \<Rightarrow> run_adapter_bounded h k intent peer))"
  proof (rule safe_atomic_bind [where m = ?tokens])
    fix s assume s: "node_inv h s"
    show "quiet_prog h key (?tokens s) (case snd (act s) of
        Inl e \<Rightarrow> Done (Inl e) | Inr False \<Rightarrow> recorded_response k | Inr True \<Rightarrow> run_adapter_bounded h k intent peer)"
      using quiet_run_adapter [of h key k n intent peer]
      by (auto intro!: quiet split: sum.split bool.split)
    show "node_step h s (fst (act s)) \<and> calls key (fst (act s)) + ?tokens s \<le> calls key s + n + start_gain key s (fst (act s))"
    proof (cases "lease_end (nd_now s) lease")
      case None
      with s show ?thesis by (simp add: act_def node_step_frame calls_def)
    next
      case (Some e)
      obtain db ok where st: "start_running (hs_audit h) (nd_work s) k e (nd_now s) = (db, ok)" by fastforce
      have act: "act s = (s\<lparr>nd_work := db\<rparr>, Inr ok)" using Some st by (simp add: act_def)
      have "node_step h s (s\<lparr>nd_work := db\<rparr>)"
        by (rule node_step_work [OF s]) (use s_start [of "hs_audit h" "Some (hs_max_inflight h)" "nd_work s" k e "nd_now s"] st in simp_all)
      moreover have "start_gain k s (s\<lparr>nd_work := db\<rparr>) = 1" if ok
        using start_running_moves [OF s [unfolded node_inv_def], of k e "nd_now s" db] st that by (simp add: start_gain_def)
      ultimately show ?thesis using act by (auto simp: calls_def)
    qed
  qed
  then show ?thesis by (simp add: start_and_run_def try_start_def work_action_def act_def)
qed

lemma quiet_check_risk [quiet]: "quiet_prog h key n (check_risk_and_run h k intent peer cp item)"
  unfolding check_risk_and_run_def by (auto intro!: quiet split: option.split sum.split bool.split)

lemma quiet_execute [quiet]: "quiet_prog h key n (execute_admitted_intent h k intent peer scopes)"
  unfolding execute_admitted_intent_def by (auto intro!: quiet split: option.split sum.split)

lemma quiet_duplicate [quiet]: "quiet_prog h key n (answer_duplicate h peer k cp intent scopes existing)"
  unfolding answer_duplicate_def by (auto intro!: quiet split: option.split)

lemma quiet_handle_intent [quiet]: "quiet_prog h key n (handle_intent h peer intent scopes)"
  unfolding handle_intent_def by (auto intro!: quiet split: option.split sum.split bool.split)

lemma quiet_ask [quiet]: "quiet_prog h key n (ask_adapter_to_cancel h k)"
  unfolding ask_adapter_to_cancel_def by (auto intro!: quiet)

lemma quiet_cancel_running [quiet]: "quiet_prog h key n (cancel_running h k task)"
  unfolding cancel_running_def by (auto intro!: quiet split: option.split)

lemma quiet_cancel [quiet]: "quiet_prog h key n (handle_cancel h peer payload)"
  unfolding handle_cancel_def by (auto intro!: quiet split: option.split)

lemma quiet_status [quiet]: "quiet_prog h key n (handle_task_status peer payload)"
  unfolding handle_task_status_def by (auto intro!: quiet split: option.split)

lemma quiet_fetch [quiet]: "quiet_prog h key n (handle_artifact_fetch h b64 peer payload)"
  unfolding handle_artifact_fetch_def by (auto intro!: quiet split: option.split sum.split)

lemma quiet_settle [quiet]: "quiet_prog h key n (settle_completed h k st r v)"
  unfolding settle_completed_def by (auto intro!: quiet split: sum.split exn.split)

lemma quiet_reconcile [quiet]: "quiet_prog h key n (reconcile_task h k)"
  unfolding reconcile_task_def by (auto intro!: quiet split: option.split evidence.split)

lemma quiet_reconcile_each [quiet]: "quiet_prog h key n (reconcile_each h ks c)"
  by (induction ks arbitrary: n c) (auto intro!: quiet split: sum.split)

lemma quiet_reconcile_unknown [quiet]: "quiet_prog h key n (reconcile_unknown_tasks h limit)"
  unfolding reconcile_unknown_tasks_def by (auto intro!: quiet split: sum.split)

lemma quiet_reject_if_queued [quiet]: "quiet_prog h key n (reject_if_queued h k code)"
  unfolding reject_if_queued_def by (auto intro!: quiet)

lemma quiet_recover_one [quiet]: "quiet_prog h key n (recover_one h item)"
  unfolding recover_one_def Let_def by (auto intro!: quiet split: option.split json.split sum.split exn.split)

lemma quiet_recover_each [quiet]: "quiet_prog h key n (recover_each h items c)"
  by (induction items arbitrary: n c) (auto intro!: quiet)

lemma quiet_recover [quiet]: "quiet_prog h key n (recover_interrupted_intents h older limit)"
  unfolding recover_interrupted_intents_def by (auto intro!: quiet)

interpretation intents: token_system "node_inv h" "node_step h" "calls key" "starts_left key" "start_gain key" "intent_env h"
proof unfold_locales
  show "node_inv h s'" if "node_step h s s'" for s s' :: "'a node" using that by (simp add: node_step_def)
  show "starts_left key s' + start_gain key s s' \<le> starts_left key s" if "node_inv h s" "node_step h s s'" for s s' :: "'a node"
    using that by (rule starts_left_budget)
  show "node_step h s s' \<and> calls key s' \<le> calls key s" if "node_inv h s" "intent_env h s s' a" for s s' :: "'a node" and a
    using that(2)
  proof cases
    case (e_work db)
    then show ?thesis using node_step_work [OF that(1)] by (simp add: calls_def)
  qed (simp_all add: node_step_frame [OF that(1)] calls_def)
  show "quiet_prog h key 0 p" if "intent_env h s s' (Some p)" for s s' :: "'a node" and p
    using that by cases (simp_all add: quiet)
qed

text \<open>A node that has just been set up.\<close>

definition fresh_node :: "'h node \<Rightarrow> bool" where
  "fresh_node s \<longleftrightarrow> nd_work s = work_empty \<and> nd_submitted s = []"

lemma fresh_inv: "fresh_node s \<Longrightarrow> node_inv h s"
  by (simp add: fresh_node_def node_inv_def work_run.init_inv)

lemma fresh_accounted:
  assumes "fresh_node s"
  shows "intents.accounted h key 1 (s, [])"
proof (rule intents.accounted_start)
  show "node_inv h s" using assms by (rule fresh_inv)
  show "calls key s + starts_left key s \<le> 1" using assms by (simp add: fresh_node_def calls_def starts_left_def)
qed

lemma distinct_by_count:
  assumes "\<And>k. length (filter (\<lambda>c. fst c = k) xs) \<le> 1"
  shows "distinct (map fst xs)"
  using assms
proof (induction xs)
  case Nil
  show ?case by simp
next
  case (Cons x xs)
  have "length (filter (\<lambda>c. fst c = k) xs) \<le> 1" for k
    using Cons.prems [of k] by (simp split: if_splits)
  moreover have "filter (\<lambda>c. fst c = fst x) xs = []" using Cons.prems [of "fst x"] by simp
  ultimately show ?case using Cons.IH by (force simp: filter_empty_conv)
qed

section \<open>Gates\<close>

text \<open>Programs that never call the adapter.\<close>

abbreviation silent :: "('h node, 'r) prog \<Rightarrow> bool" where
  "silent p \<equiv> safe (\<lambda>_. True) (\<lambda>s s'. nd_submitted s' = nd_submitted s) (\<lambda>_. 0) (\<lambda>_ _. 0) 0 p"

named_theorems silents \<open>programs that never call the adapter\<close>

lemma silent_Done [silents]: "silent (Done r)"
  by (rule safe_Done)

lemma silent_bind [silents]:
  assumes "silent p" and "\<And>r. silent (k r)"
  shows "silent (bind_prog p k)"
proof -
  have "safe (\<lambda>_. True) (\<lambda>s s'. nd_submitted s' = nd_submitted s) (\<lambda>_. 0) (\<lambda>_ _. 0) n p \<Longrightarrow> n = 0 \<Longrightarrow> silent (bind_prog p k)" for n
  proof (induction rule: safe.induct)
    case (safe_Done n r)
    show ?case using assms(2) by simp
  next
    case (safe_Act f m n)
    then show ?case by (auto intro!: safe.safe_Act [where m = m])
  qed
  with assms(1) show ?thesis by blast
qed

lemma silent_look [silents]: "silent (look f)"
  unfolding look_def by (rule safe_atomic) simp

lemma silent_work [silents]: "silent (work_action f)"
  unfolding work_action_def by (rule safe_atomic) (simp add: split_beta)

lemma silent_rest [silents]: "silent (push peer m)" "silent (register_late c)" "silent (put_artifact h data by)"
  unfolding push_def register_late_def put_artifact_def by (rule safe_atomic, simp add: split_beta)+

lemma silent_recorded_response [silents]: "silent (recorded_response k)"
  unfolding recorded_response_def by (intro silents)

lemma silent_reject [silents]: "silent (reject_task h k code)" "silent (reject_or_raise h k e)"
  unfolding reject_or_raise_def reject_task_def by (cases e; auto intro!: silents)+

lemma silent_materialize [silents]: "silent (materialize_output h v by)"
  unfolding materialize_output_def by (auto intro!: silents split: py_value.split option.split)

lemma silent_apply [silents]: "silent (apply_task_outcome h k peer iid outcome p)"
  unfolding apply_task_outcome_def fail_outcome_def complete_outcome_def commit_outcome_def Let_def
  by (auto intro!: silents split: adapter_result.split sum.split exn.split)

text \<open>A thread has called the adapter when one of its actions extended the log.\<close>

definition called :: "('h node \<times> 'h node) list \<Rightarrow> bool" where
  "called tr \<longleftrightarrow> (\<exists>(s, s') \<in> set tr. nd_submitted s' \<noteq> nd_submitted s)"

lemma silent_not_called: "silent p \<Longrightarrow> trace p tr q \<Longrightarrow> \<not> called tr"
  using safe_trace [of p tr q "\<lambda>s s'. nd_submitted s' = nd_submitted s"] by (fastforce simp: called_def)

lemma called_Cons_quiet: "nd_submitted (fst x) = nd_submitted (snd x) \<Longrightarrow> called (x # tr) \<longleftrightarrow> called tr"
  by (auto simp: called_def split_beta)

text \<open>The start that went before, seen by the thread itself.\<close>

definition started_in :: "'h harness \<Rightarrow> string \<Rightarrow> ('h node \<times> 'h node) list \<Rightarrow> bool" where
  "started_in h key tr \<longleftrightarrow>
     (\<exists>(s, s') \<in> set tr. \<exists>e. start_running (hs_audit h) (nd_work s) key e (nd_now s) = (nd_work s', True))"

lemma start_and_run_called:
  assumes "trace (start_and_run h key intent peer lease) tr q" and "called tr"
  shows "started_in h key tr"
proof -
  define act where "act = (\<lambda>s :: 'a node.
    case (case lease_end (nd_now s) lease of
        None \<Rightarrow> (nd_work s, Inl OtherException)
      | Some e \<Rightarrow> (case start_running (hs_audit h) (nd_work s) key e (nd_now s) of (db', ok) \<Rightarrow> (db', Inr ok))) of
      (db, r) \<Rightarrow> (s\<lparr>nd_work := db\<rparr>, r :: bool result))"
  have "trace (bind_prog (atomic act) (\<lambda>started. case started of
      Inl e \<Rightarrow> Done (Inl e) | Inr False \<Rightarrow> recorded_response key | Inr True \<Rightarrow> run_adapter_bounded h key intent peer)) tr q"
    using assms(1) by (simp add: start_and_run_def try_start_def work_action_def act_def)
  then show ?thesis
  proof (cases rule: trace_atomic_bindE)
    case 1
    with assms(2) show ?thesis by (simp add: called_def)
  next
    case (2 s tr')
    have same: "nd_submitted (fst (act s)) = nd_submitted s" by (simp add: act_def split_beta)
    then have "called tr'" using assms(2) 2(1) by (simp add: called_Cons_quiet)
    then have ok: "snd (act s) = Inr True"
      using 2(2) silent_not_called by (auto split: sum.splits bool.splits intro: silents)
    then obtain e where e: "lease_end (nd_now s) lease = Some e" by (auto simp: act_def split: option.splits)
    obtain db b where st: "start_running (hs_audit h) (nd_work s) key e (nd_now s) = (db, b)" by fastforce
    have "act s = (s\<lparr>nd_work := db\<rparr>, Inr b)" using e st by (simp add: act_def)
    with ok st have "start_running (hs_audit h) (nd_work s) key e (nd_now s) = (nd_work (fst (act s)), True)" by simp
    then show ?thesis using 2(1) unfolding started_in_def by (intro bexI [of _ "(s, fst (act s))"]) auto
  qed
qed

text \<open>The grant check that went before, on the trust tables as they were at that moment.\<close>

definition grant_passed :: "string \<Rightarrow> string \<Rightarrow> (string \<times> json) list \<Rightarrow> bool \<Rightarrow> ('h node \<times> 'h node) list \<Rightarrow> bool" where
  "grant_passed peer capability intent required tr \<longleftrightarrow>
     (\<exists>(s, s') \<in> set tr. \<exists>gid. intent_grant intent = Inr gid \<and>
        validate_grant_if_required (nd_trust s) (nd_now s) peer capability gid required None = Inr ())"

lemma started_in_Cons: "started_in h key tr \<Longrightarrow> started_in h key (x # tr)"
  by (auto simp: started_in_def)

lemma grant_passed_Cons: "grant_passed peer cp intent req tr \<Longrightarrow> grant_passed peer cp intent req (x # tr)"
  by (auto simp: grant_passed_def)

lemma trace_look_bindE:
  assumes "trace (bind_prog (look f) k) tr q" and "called tr"
  obtains s tr' where "tr = (s, s) # tr'" and "trace (k (f s)) tr' q" and "called tr'"
  using assms(1) unfolding look_def
proof (cases rule: trace_atomic_bindE)
  case 1
  with assms(2) show ?thesis by (simp add: called_def)
next
  case (2 s tr')
  with assms(2) show ?thesis by (intro that [of s tr']) (auto simp: called_Cons_quiet)
qed

lemma check_risk_called:
  assumes "trace (check_risk_and_run h key intent peer cp item) tr q" and "called tr"
  shows "\<exists>risk. map_option attr_json (map_of item ''risk'') = Some (JStr risk) \<and> risk_matches intent (JStr risk) \<and> is_executable risk \<and>
           grant_passed peer cp intent (requires_grant risk) tr \<and> started_in h key tr"
proof -
  have loud: "\<not> silent (check_risk_and_run h key intent peer cp item)" using silent_not_called assms by blast
  then obtain v where v: "map_option attr_json (map_of item ''risk'') = Some v"
    by (cases "map_option attr_json (map_of item ''risk'')") (auto simp: check_risk_and_run_def intro: silents)
  have m: "risk_matches intent v" using loud v by (cases "risk_matches intent v") (auto simp: check_risk_and_run_def intro: silents)
  have x: "risk_class is_executable v = Inr True"
  proof (cases "risk_class is_executable v")
    case (Inl e)
    with loud v m show ?thesis by (auto simp: check_risk_and_run_def intro: silents)
  next
    case (Inr b)
    with loud v m show ?thesis by (cases b) (auto simp: check_risk_and_run_def intro: silents)
  qed
  then obtain risk where risk: "v = JStr risk" "is_executable risk" by (auto simp: risk_class_def split: json.splits)
  have "trace (bind_prog (grant_check peer cp intent (risk_class requires_grant v = Inr True)) (\<lambda>g.
      case g of Inl e \<Rightarrow> reject_or_raise h key e | Inr u \<Rightarrow> start_and_run h key intent peer (lease_seconds item))) tr q"
    using assms(1) v m x by (simp add: check_risk_and_run_def)
  then obtain s tr' where tr: "tr = (s, s) # tr'" "called tr'"
    and rest: "trace (case bind_result (intent_grant intent) (\<lambda>gid. validate_grant_if_required (nd_trust s) (nd_now s) peer cp gid (risk_class requires_grant v = Inr True) None) of
        Inl e \<Rightarrow> reject_or_raise h key e | Inr u \<Rightarrow> start_and_run h key intent peer (lease_seconds item)) tr' q"
    unfolding grant_check_def by (rule trace_look_bindE [OF _ assms(2)])
  obtain u where ok: "bind_result (intent_grant intent) (\<lambda>gid. validate_grant_if_required (nd_trust s) (nd_now s) peer cp gid (risk_class requires_grant v = Inr True) None) = Inr u"
    using rest tr(2) silent_not_called by (fastforce intro: silents split: sum.splits)
  then have "grant_passed peer cp intent (requires_grant risk) tr"
    unfolding grant_passed_def tr(1) by (auto simp: bind_result_Inr_iff risk risk_class_def)
  moreover have "started_in h key tr" unfolding tr(1)
    using start_and_run_called [OF _ tr(2)] rest ok by (auto intro: started_in_Cons)
  ultimately show ?thesis using v m risk by auto
qed

definition capability_declared ::
    "'h harness \<Rightarrow> string \<Rightarrow> (string \<times> attr) list \<Rightarrow> ('h node \<times> 'h node) list \<Rightarrow> bool" where
  "capability_declared h cp item tr \<longleftrightarrow>
     (\<exists>(s, s') \<in> set tr. \<exists>items. capability_items (ad_capabilities (hs_adapter h) (nd_now s)) = Inr items \<and> find_capability items cp = Some item)"

text \<open>
  C3. The adapter is called only past every gate: whatever other threads do between the actions of the thread that executes an
  admitted intent, when it calls the adapter, the requested capability was in the peer's scopes, the adapter declared it at that
  time, the declaration passed the layer guard, its risk is an executable class and not contradicted by the request, the grant
  check passed on the trust tables of the moment it was made, and the thread itself won the start of the task.
\<close>

theorem adapter_called_past_every_gate:
  assumes "trace (execute_admitted_intent h key intent peer scopes) tr q" and "called tr"
  shows "\<exists>cp item risk. text_of intent ''capability'' = Some cp \<and> allows cp scopes \<and> capability_declared h cp item tr \<and>
           layer_check h cp item = Inr () \<and> map_option attr_json (map_of item ''risk'') = Some (JStr risk) \<and>
           risk_matches intent (JStr risk) \<and> is_executable risk \<and> grant_passed peer cp intent (requires_grant risk) tr \<and> started_in h key tr"
proof -
  have loud: "\<not> silent (execute_admitted_intent h key intent peer scopes)" using silent_not_called assms by blast
  then obtain cp where cp: "text_of intent ''capability'' = Some cp"
    by (cases "text_of intent ''capability''") (auto simp: execute_admitted_intent_def intro: silents)
  have ok: "cp \<noteq> ''''" "allows cp scopes"
    using loud cp by (auto simp: execute_admitted_intent_def intro: silents split: if_splits)
  then obtain s tr' where tr: "tr = (s, s) # tr'" "called tr'"
    and rest: "trace (case capability_items (ad_capabilities (hs_adapter h) (nd_now s)) of
              Inl e \<Rightarrow> Done (Inl e)
            | Inr cs \<Rightarrow>
                (case find_capability cs cp of
                   None \<Rightarrow> reject_task h key ''capability.unavailable''
                 | Some item \<Rightarrow>
                     (case layer_check h cp item of
                        Inl e \<Rightarrow> reject_or_raise h key e
                      | Inr u \<Rightarrow> check_risk_and_run h key intent peer cp item))) tr' q"
    using assms(1) cp by (auto simp: execute_admitted_intent_def elim!: trace_look_bindE [OF _ assms(2)])
  have loud': "\<not> silent p" if "trace p tr' q" for p using silent_not_called that tr(2) by blast
  obtain items where items: "capability_items (ad_capabilities (hs_adapter h) (nd_now s)) = Inr items"
    using loud' [OF rest] by (auto intro: silents split: sum.splits)
  obtain item where item: "find_capability items cp = Some item"
    using loud' [OF rest] items by (auto intro: silents split: option.splits)
  obtain u where layer: "layer_check h cp item = Inr u"
    using loud' [OF rest] items item by (auto intro: silents split: sum.splits)
  have "trace (check_risk_and_run h key intent peer cp item) tr' q" using rest items item layer by simp
  from check_risk_called [OF this tr(2)] obtain risk where
    risk: "map_option attr_json (map_of item ''risk'') = Some (JStr risk)" "risk_matches intent (JStr risk)" "is_executable risk"
      "grant_passed peer cp intent (requires_grant risk) tr'" "started_in h key tr'"
    by blast
  have "capability_declared h cp item tr" unfolding capability_declared_def tr(1) using items item by auto
  moreover have "grant_passed peer cp intent (requires_grant risk) tr" "started_in h key tr"
    unfolding tr(1) using risk(4,5) by (simp_all add: grant_passed_Cons started_in_Cons)
  ultimately show ?thesis using cp ok layer risk by auto
qed

section \<open>At most once\<close>

text \<open>
  C1. No effect twice: however many proposals, duplicates, cancellations, reconciliations and recoveries run at once, in whatever
  order their actions interleave with each other, with late adapter results, with changes of the clock, the trust tables, the
  artifact store and the work store, and across crashes, the adapter is called at most once for every idempotency key, and only for
  a task that has left the queue.
\<close>

theorem adapter_called_at_most_once:
  assumes "fresh_node s\<^sub>0" and "(pool_step (intent_env h))\<^sup>*\<^sup>* (s\<^sub>0, []) (s, ps)"
  shows "distinct (map fst (nd_submitted s)) \<and> (\<forall>c \<in> set (nd_submitted s). \<not> startable (nd_work s) (fst c))"
proof -
  have bound: "calls key s + starts_left key s \<le> 1" for key
    using intents.bounded [OF assms(2) fresh_accounted [OF assms(1)]] by fastforce
  have "distinct (map fst (nd_submitted s))"
    by (rule distinct_by_count) (use bound in \<open>auto simp: calls_def dest: add_leD1\<close>)
  moreover have "\<not> startable (nd_work s) (fst c)" if "c \<in> set (nd_submitted s)" for c
  proof -
    have "0 < calls (fst c) s" using that by (auto simp: calls_def filter_empty_conv)
    with bound [of "fst c"] show ?thesis by (auto simp: starts_left_def split: if_splits)
  qed
  ultimately show ?thesis by blast
qed

text \<open>
  C2. A task that leaves the queue in any other way than by starting is never executed: if one step takes it from proposed to
  cancelled or rejected, no later step of any thread, whatever it had already checked, calls the adapter for it.
\<close>

theorem cancelled_before_start_never_called:
  assumes "fresh_node s\<^sub>0" and "(pool_step (intent_env h))\<^sup>*\<^sup>* (s\<^sub>0, []) (s, ps)"
    and "task_get (nd_work s) key = Some (TProposed, r)"
    and "pool_step (intent_env h) (s, ps) (s\<^sub>1, ps\<^sub>1)"
    and "task_get (nd_work s\<^sub>1) key = Some (st, r\<^sub>1)" and "st \<in> {TCancelled, TRejected}"
    and "(pool_step (intent_env h))\<^sup>*\<^sup>* (s\<^sub>1, ps\<^sub>1) (s\<^sub>2, ps\<^sub>2)"
  shows "key \<notin> fst ` set (nd_submitted s\<^sub>2)"
proof -
  have "intents.accounted h key 1 (s, ps)"
    using intents.accounted_steps [OF assms(2) fresh_accounted [OF assms(1)]] .
  from intents.accounted_step_strict [OF this assms(4)]
  have "intents.accounted h key (1 + starts_left key s\<^sub>1 + start_gain key s s\<^sub>1 - starts_left key s) (s\<^sub>1, ps\<^sub>1)" by simp
  moreover have "starts_left key s = 1" "starts_left key s\<^sub>1 = 0" "start_gain key s s\<^sub>1 = 0"
    using assms(3,5,6) by (auto simp: starts_left_def start_gain_def startable_def is_running_def)
  ultimately have "intents.accounted h key 0 (s\<^sub>1, ps\<^sub>1)" by simp
  from intents.bounded [OF assms(7) this] have "calls key s\<^sub>2 = 0" by simp
  then show ?thesis by (auto simp: calls_def filter_empty_conv)
qed

section \<open>Duplicates\<close>

lemma propose_known:
  assumes "task_get db key = Some (st, r)"
  shows "propose aud db key iid cp peer t pl mx = Inr (db, False)"
proof -
  have "r \<in> set (wd_items db) \<and> wi_work_id r = task_work_id key"
    using assms find_Some_mem unfolding task_get_def work_get_def by fastforce
  then show ?thesis by (auto simp: propose_def work_create_def clashes_def list_ex_iff)
qed

text \<open>
  C6. A proposal whose key is already known and not queued changes nothing at all: it is refused when the task belongs to another
  peer or was bound to a different request, it repeats the recorded rejection, and otherwise it returns what the record says.
\<close>

theorem duplicate_answered_from_record:
  assumes "text_of intent ''idempotency_key'' = Some key" and "key \<noteq> ''''"
    and "text_of intent ''capability'' = Some cp" and "allows cp scopes"
    and "task_get (nd_work s) key = Some (st, r)" and "st \<noteq> TProposed"
  shows "run_prog (handle_intent h peer intent scopes) s =
     (s, if wi_owner r \<noteq> peer then Inl (FaspError ''auth.not_authorized'')
         else if \<not> same_request r cp intent then Inl (FaspError ''schema.idempotency_conflict'')
         else if st = TRejected then Inl (recorded_error (wi_error r))
         else Inr (task_response st r))"
proof -
  have cp: "(case map_of intent ''capability'' of None \<Rightarrow> Some '''' | _ \<Rightarrow> text_of intent ''capability'') = Some cp"
    using assms(3) by (auto simp: text_of_def split: option.splits)
  have "run_prog (handle_intent h peer intent scopes) s = run_prog (answer_duplicate h peer key cp intent scopes (Some (st, r))) s"
    using assms(1,2,4,5) cp by (simp add: handle_intent_def work_action_def look_def propose_known [OF assms(5)])
  then show ?thesis using assms(6) by (simp add: answer_duplicate_def)
qed

section \<open>Recovery\<close>

lemma node_steps_not_startable:
  assumes "(node_step h)\<^sup>*\<^sup>* s s'" and "node_inv h s" and "\<not> startable (nd_work s) key"
  shows "node_inv h s' \<and> \<not> startable (nd_work s') key"
  using assms
proof (induction rule: rtranclp_induct)
  case base
  then show ?case by simp
next
  case (step s1 s2)
  then have "node_inv h s2" "evolves (nd_work s1) (nd_work s2)" by (simp_all add: node_step_def)
  then show ?case using step startable_evolves unfolding node_inv_def by blast
qed

lemma quiet_run:
  assumes "quiet_prog h key n p" and "node_inv h s" and "run_prog p s = (s', r)"
  shows "node_inv h s' \<and> (node_step h)\<^sup>*\<^sup>* s s'"
  using safe_run [OF assms(1) _ assms(2)] assms(3) by (auto simp: node_step_def)

lemma queued_transition_leaves_queue:
  assumes inv: "work_inv aud cap db" and "task_transition aud db key [QUEUED] None st t ch = (db', ok)" and "st \<noteq> QUEUED"
    and "task_get db key \<noteq> None" and ch: "wc_phase ch = SetTo (Some ''rejected'') \<or> wc_phase ch = SetTo None"
  shows "\<not> startable db' key"
proof -
  have d: "distinct (map wi_work_id (wd_items db))" using inv by (simp add: work_inv_def)
  from d show ?thesis
  proof (cases rule: work_transition_cases [of db aud "task_work_id key" "''intent''" "[QUEUED]" None st t ch])
    case refused
    then have db': "db' = db" and "\<not> ok" using assms(2) by (simp_all add: task_transition_def)
    obtain s0 r where r: "task_get db key = Some (s0, r)" using assms(4) by auto
    have w: "work_get db (task_work_id key) (Some ''intent'') = Some r" "s0 = task_state r" using r by (auto simp: task_get_def)
    then have "wi_state r \<noteq> QUEUED" using refused by (auto simp: work_transition_def)
    then show ?thesis using r w(2) by (cases "wi_state r") (auto simp: db' startable_def task_state_def)
  next
    case (taken row lg)
    have items: "wd_items db' = update_where (\<lambda>r. r = row) (apply_change ch st t) (wd_items db)"
      using assms(2) taken(1) by (auto simp: task_transition_def)
    have "map wi_work_id (wd_items db') = map wi_work_id (wd_items db)"
      unfolding items by (auto simp: update_where_def apply_change_def)
    then have d': "distinct (map wi_work_id (wd_items db'))" using d by simp
    have "apply_change ch st t row \<in> set (wd_items db')" unfolding items using taken(2) by (auto simp: set_update_where)
    then have "task_get db' key = Some (task_state (apply_change ch st t row), apply_change ch st t row)"
      using taken(3,4) by (simp add: task_get_def work_get_iff [OF d'] apply_change_def)
    then show ?thesis using assms(3) ch by (cases st) (auto simp: startable_def task_state_def apply_change_def)
  qed
qed

lemma reject_leaves_queue:
  assumes "node_inv h s" and "task_get (nd_work s) key \<noteq> None" and "task_reject (hs_audit h) (nd_work s) key e t = (db, ok)"
  shows "\<not> startable db key"
  using queued_transition_leaves_queue [OF assms(1) [unfolded node_inv_def] assms(3) [unfolded task_reject_def]] assms(2)
  by simp

text \<open>A task that is recorded stays recorded; one that has left the queue stays out of it.\<close>

definition known :: "'h node \<Rightarrow> string \<Rightarrow> bool" where
  "known s key \<longleftrightarrow> task_get (nd_work s) key \<noteq> None"

lemma node_steps_known:
  assumes "(node_step h)\<^sup>*\<^sup>* s s'" and "node_inv h s" and "known s key"
  shows "node_inv h s' \<and> known s' key"
  using assms
proof (induction rule: rtranclp_induct)
  case base
  then show ?case by simp
next
  case (step s1 s2)
  then have inv: "node_inv h s1" "node_inv h s2" and ev: "evolves (nd_work s1) (nd_work s2)" by (simp_all add: node_step_def)
  obtain st r where "task_get (nd_work s1) key = Some (st, r)" using step by (auto simp: known_def)
  then obtain r' where "task_get (nd_work s2) key = Some (task_state r', r')"
    by (rule task_get_evolves [OF inv(1) [unfolded node_inv_def] inv(2) [unfolded node_inv_def] ev])
  with inv show ?case by (simp add: known_def)
qed

lemmas quiet_settled = node_steps_not_startable [OF conjunct2 [OF quiet_run]]

lemma start_and_run_settles:
  assumes inv: "node_inv h s" and "known s key" and run: "run_prog (start_and_run h key intent peer lease) s = (s', Inr v)"
  shows "\<not> startable (nd_work s') key"
proof -
  obtain e where e: "lease_end (nd_now s) lease = Some e"
    using run by (cases "lease_end (nd_now s) lease") (simp_all add: start_and_run_def try_start_def work_action_def)
  obtain db ok where st: "start_running (hs_audit h) (nd_work s) key e (nd_now s) = (db, ok)" by fastforce
  let ?s = "s\<lparr>nd_work := db\<rparr>"
  have out: "\<not> startable (nd_work ?s) key"
    using queued_transition_leaves_queue [OF inv [unfolded node_inv_def] st [unfolded start_running_def]] assms(2)
    by (simp add: known_def)
  have inv1: "node_inv h ?s"
    using work_step_ok [OF s_start [of "hs_audit h" "Some (hs_max_inflight h)" "nd_work s" key e "nd_now s"]] inv st
    by (simp add: node_inv_def)
  have rest: "run_prog (if ok then run_adapter_bounded h key intent peer else recorded_response key) ?s = (s', Inr v)"
    using run e st by (cases ok) (simp_all add: start_and_run_def try_start_def work_action_def)
  have "quiet_prog h key (Suc 0) (if ok then run_adapter_bounded h key intent peer else recorded_response key)"
    using quiet_run_adapter [of h key key 0 intent peer] by (simp add: quiet)
  from quiet_settled [OF this inv1 rest inv1 out] show ?thesis by simp
qed

lemma reject_task_raises: "snd (run_prog (reject_task h key code) s) = Inl (FaspError code)"
  by (simp add: reject_task_def work_action_def split_beta)

lemma reject_or_raise_raises: "\<exists>e'. snd (run_prog (reject_or_raise h key e) s) = Inl e'"
  by (cases e) (simp_all add: reject_or_raise_def reject_task_raises)

lemma execute_settles:
  assumes inv: "node_inv h s" and known: "known s key" and run: "run_prog (execute_admitted_intent h key intent peer scopes) s = (s', Inr v)"
  shows "\<not> startable (nd_work s') key"
proof -
  note raise = reject_task_raises reject_or_raise_raises
  obtain lease where "run_prog (start_and_run h key intent peer lease) s = (s', Inr v)"
  proof -
    have "\<exists>lease. run_prog (start_and_run h key intent peer lease) s = (s', Inr v)"
      using run raise(1) [of h key _ s] raise(2) [of h key _ s]
      by (auto simp: execute_admitted_intent_def check_risk_and_run_def grant_check_def look_def
            split: option.splits if_splits sum.splits bool.splits) (metis Inl_Inr_False prod.sel(2))+
    then show thesis using that by blast
  qed
  then show ?thesis using start_and_run_settles [OF inv known] by blast
qed

lemma reject_if_queued_settles:
  assumes inv: "node_inv h s" and known: "known s key" and run: "run_prog (reject_if_queued h key code) s = (s', u)"
  shows "\<not> startable (nd_work s') key"
proof -
  obtain st r where g: "task_get (nd_work s) key = Some (st, r)" using known by (auto simp: known_def)
  show ?thesis
  proof (cases "st = TProposed")
    case True
    obtain db ok where rj: "task_reject (hs_audit h) (nd_work s) key (error_json code) (nd_now s) = (db, ok)" by fastforce
    have "s' = s\<lparr>nd_work := db\<rparr>"
      using run g True rj by (simp add: reject_if_queued_def read_task_def look_def work_action_def)
    then show ?thesis using reject_leaves_queue [OF inv _ rj] known by (simp add: known_def)
  next
    case False
    then show ?thesis using run g by (auto simp: reject_if_queued_def read_task_def look_def startable_def)
  qed
qed

lemma recovery_failure_settles:
  assumes "node_inv h s" and "known s key"
    and "run_prog (case e of
            FaspError code \<Rightarrow> bind_prog (reject_if_queued h key code) (\<lambda>_. Done False)
          | _ \<Rightarrow> bind_prog (reject_if_queued h key ''internal.recovery_error'') (\<lambda>_. Done False)) s = (s', ok)"
  shows "\<not> startable (nd_work s') key"
proof -
  obtain code where "run_prog (bind_prog (reject_if_queued h key code) (\<lambda>_. Done False)) s = (s', ok)"
    using assms(3) by (cases e) auto
  then have "run_prog (reject_if_queued h key code) s = (s', ())" by (auto split: prod.splits)
  then show ?thesis by (rule reject_if_queued_settles [OF assms(1,2)])
qed

lemma recover_one_settles:
  assumes inv: "node_inv h s" and known: "known s (wi_idempotency_key item)" and run: "run_prog (recover_one h item) s = (s', ok)"
  shows "\<not> startable (nd_work s') (wi_idempotency_key item)"
proof (cases "\<exists>intent. wi_payload item = Some (JObj intent)")
  case False
  obtain db b where rj: "task_reject (hs_audit h) (nd_work s) (wi_idempotency_key item) (error_json ''task.interrupted'') (nd_now s) = (db, b)"
    by fastforce
  have "s' = s\<lparr>nd_work := db\<rparr>"
    using run False rj by (auto simp: recover_one_def Let_def work_action_def split: option.splits json.splits)
  then show ?thesis using reject_leaves_queue [OF inv _ rj] known by (simp add: known_def)
next
  case True
  then obtain intent where p: "wi_payload item = Some (JObj intent)" by blast
  let ?key = "wi_idempotency_key item"
  show ?thesis
  proof (cases "harness_peer (nd_trust s) (nd_now s) (wi_owner item)")
    case (Inl e)
    then show ?thesis using run p
      by (intro recovery_failure_settles [OF inv known]) (simp add: recover_one_def Let_def look_def)
  next
    case (Inr view)
    obtain s1 r where ex: "run_prog (execute_admitted_intent h ?key intent (wi_owner item) (av_prefixes view)) s = (s1, r)" by fastforce
    have later: "node_inv h s1 \<and> known s1 ?key"
      using node_steps_known [OF conjunct2 [OF quiet_run [OF quiet_execute inv ex]] inv known] .
    show ?thesis
    proof (cases r)
      case (Inr v)
      then show ?thesis using run p \<open>harness_peer _ _ _ = _\<close> ex execute_settles [OF inv known] by (simp add: recover_one_def Let_def look_def)
    next
      case (Inl e)
      then show ?thesis using run p \<open>harness_peer _ _ _ = _\<close> ex
        by (intro recovery_failure_settles [OF conjunct1 [OF later] conjunct2 [OF later]]) (simp add: recover_one_def Let_def look_def)
    qed
  qed
qed

lemma recover_each_settles:
  assumes "node_inv h s" and "\<forall>item \<in> set items. known s (wi_idempotency_key item)" and "run_prog (recover_each h items n) s = (s', m)"
  shows "\<forall>item \<in> set items. \<not> startable (nd_work s') (wi_idempotency_key item)"
  using assms
proof (induction items arbitrary: s n)
  case Nil
  then show ?case by simp
next
  case (Cons item items)
  obtain s1 ok where one: "run_prog (recover_one h item) s = (s1, ok)" by fastforce
  have steps: "node_inv h s1" "(node_step h)\<^sup>*\<^sup>* s s1"
    using quiet_run [OF quiet_recover_one Cons.prems(1) one] by blast+
  have rest: "run_prog (recover_each h items (if ok then n + 1 else n)) s1 = (s', m)" using Cons.prems(3) one by simp
  have "\<forall>item \<in> set items. known s1 (wi_idempotency_key item)"
    using node_steps_known [OF steps(2) Cons.prems(1)] Cons.prems(2) by simp
  then have "\<forall>item \<in> set items. \<not> startable (nd_work s') (wi_idempotency_key item)" using Cons.IH [OF steps(1) _ rest] by blast
  moreover have "\<not> startable (nd_work s1) (wi_idempotency_key item)"
    using recover_one_settles [OF Cons.prems(1) _ one] Cons.prems(2) by simp
  then have "\<not> startable (nd_work s') (wi_idempotency_key item)" using quiet_settled [OF quiet_recover_each steps(1) rest steps(1)] by blast
  ultimately show ?case by simp
qed

lemma set_sql_take: "set (sql_take n xs) \<subseteq> set xs"
  by (simp add: sql_take_def set_take_subset)

lemma stale_known:
  assumes "node_inv h s" and "item \<in> set (stale_queued (nd_work s) ''intent'' before limit)"
  shows "known s (wi_idempotency_key item)"
proof -
  have item: "item \<in> set (wd_items (nd_work s))" "wi_kind item = ''intent''"
    using assms(2) set_sql_take by (fastforce simp: stale_queued_def)+
  moreover have "task_row_ok item" and d: "distinct (map wi_work_id (wd_items (nd_work s)))"
    using assms(1) item(1) by (simp_all add: node_inv_def work_inv_def)
  ultimately have "work_get (nd_work s) (task_work_id (wi_idempotency_key item)) (Some ''intent'') = Some item"
    by (simp add: work_get_iff task_row_ok_def)
  then show ?thesis by (simp add: known_def task_get_def)
qed

text \<open>
  C7. Recovery leaves nothing stranded: after a recovery sweep, every queued intent it selected as stale has left the queue, whatever
  the adapter, the trust tables and the artifact store did to it: it was started, rejected with a reason, or had been moved on before.
\<close>

theorem recovery_settles_every_stale_intent:
  assumes "node_inv h s" and "run_prog (recover_interrupted_intents h older limit) s = (s', answer)"
    and "item \<in> set (stale_queued (nd_work s) ''intent'' (nd_now s - older) limit)"
  shows "\<not> startable (nd_work s') (wi_idempotency_key item)"
proof -
  let ?stale = "stale_queued (nd_work s) ''intent'' (nd_now s - older) limit"
  obtain n where "run_prog (recover_each h ?stale 0) s = (s', n)"
    using assms(2) by (auto simp: recover_interrupted_intents_def look_def split: prod.splits)
  with recover_each_settles [OF assms(1)] stale_known [OF assms(1)] assms(3) show ?thesis by blast
qed

section \<open>A run\<close>

definition demo_adapter :: adapter where
  "demo_adapter =
     \<lparr>ad_capabilities = (\<lambda>_. [Some [(''id'', AVal (JStr ''observe.x'')), (''risk'', AVal (JStr ''observe''))]]),
      ad_handle = (\<lambda>_ _. Late (Returned (Plain (JInt 7)))), ad_cancel = None, ad_reconcile = None\<rparr>"

definition demo_harness :: "nat harness" where
  "demo_harness =
     \<lparr>hs_audit = None, hs_max_inflight = 4, hs_adapter = demo_adapter, hs_guard = \<lparr>allow_layer2_dispatch = False\<rparr>,
      hs_declarations = Map.empty, hs_str_of = (\<lambda>_. ''''), hs_float_text = (\<lambda>_. ''0''), hs_sha = demo_sha,
      hs_token = (\<lambda>_ _. ''t''), hs_stuck = (\<lambda>_. False)\<rparr>"

definition demo_node :: "nat node" where
  "demo_node = \<lparr>nd_now = 0, nd_work = work_empty, nd_trust = trust_empty, nd_artifacts = empty_store 0,
     nd_submitted = [], nd_late = [], nd_pushed = []\<rparr>"

definition demo_intent :: "(string \<times> json) list" where
  "demo_intent = [(''idempotency_key'', JStr ''k''), (''capability'', JStr ''observe.x'')]"

definition demo_propose :: "(nat node, json result) prog" where
  "demo_propose = handle_intent demo_harness ''p'' demo_intent [''observe'']"

lemma demo_layer: "layer_check demo_harness ''observe.x'' [(''id'', AVal (JStr ''observe.x'')), (''risk'', AVal (JStr ''observe''))] = Inr ()"
  by code_simp

lemma demo_allows: "allows ''observe.x'' [''observe'']"
  by code_simp

definition demo_queued :: "nat work_db" where
  "demo_queued = (case propose None work_empty ''k'' None ''observe.x'' ''p'' 0 (Some (JObj demo_intent)) (Some 4) of
     Inr (db, ok) \<Rightarrow> db | Inl e \<Rightarrow> work_empty)"

definition demo_started :: "nat work_db" where
  "demo_started = fst (start_running None demo_queued ''k'' 30000 0)"

definition demo_after :: "nat node" where
  "demo_after = demo_node\<lparr>nd_work := demo_started, nd_submitted := [(''k'', demo_intent)],
     nd_late := [\<lparr>lc_key = ''k'', lc_from_peer = ''p'', lc_intent_id = None, lc_result = Returned (Plain (JInt 7))\<rparr>]\<rparr>"

definition demo_progress :: json where
  "demo_progress = JObj [(''type'', JStr ''task.progress''), (''idempotency_key'', JStr ''k''), (''status'', JStr ''running'')]"

lemma demo_transactions:
  "propose None work_empty ''k'' None ''observe.x'' ''p'' 0 (Some (JObj demo_intent)) (Some 4) = Inr (demo_queued, True)"
  "start_running None demo_queued ''k'' 30000 0 = (demo_started, True)"
  "lease_end 0 (Fin 30) = Some 30000"
  "map_option fst (task_get demo_queued ''k'') = Some TProposed"
  "map_option fst (task_get demo_started ''k'') = Some TRunning"
proof -
  show p: "propose None work_empty ''k'' None ''observe.x'' ''p'' 0 (Some (JObj demo_intent)) (Some 4) = Inr (demo_queued, True)"
    by (simp add: demo_queued_def propose_def work_create_def work_empty_def count_active_def)
  have "snd (start_running None demo_queued ''k'' 30000 0) = True" by code_simp
  then show "start_running None demo_queued ''k'' 30000 0 = (demo_started, True)" by (simp add: demo_started_def prod_eq_iff)
  show "lease_end 0 (Fin 30) = Some 30000"
    by (simp add: lease_end_def representable_def DAY_MS_def epoch_ordinal_def ymd2ord_def days_before_year_def)
  show "map_option fst (task_get demo_queued ''k'') = Some TProposed" by code_simp
  show "map_option fst (task_get demo_started ''k'') = Some TRunning" by code_simp
qed

lemma demo_config:
  "hs_audit demo_harness = None" "hs_max_inflight demo_harness = 4" "ad_cancel (hs_adapter demo_harness) = None"
  "capability_items (ad_capabilities (hs_adapter demo_harness) t) = Inr [(''observe.x'', [(''id'', AVal (JStr ''observe.x'')), (''risk'', AVal (JStr ''observe''))])]"
  "ad_handle (hs_adapter demo_harness) n i = Late (Returned (Plain (JInt 7)))"
  by (simp_all add: demo_harness_def demo_adapter_def attr_json_def)

lemma demo_risk: "is_executable ''observe''" "\<not> requires_grant ''observe''"
  by code_simp+

lemma demo_keys:
  "text_of demo_intent ''idempotency_key'' = Some ''k''" "text_of demo_intent ''capability'' = Some ''observe.x''"
  "text_of demo_intent ''intent_id'' = None" "map_of demo_intent ''capability'' = Some (JStr ''observe.x'')"
  "intent_grant demo_intent = Inr None" "risk_matches demo_intent v"
  by (simp_all add: demo_intent_def text_of_def intent_grant_def risk_matches_def)

lemma demo_fields: "nd_work demo_node = work_empty" "nd_now demo_node = 0"
  by (simp_all add: demo_node_def)

lemma demo_execute:
  "run_prog (execute_admitted_intent demo_harness ''k'' demo_intent ''p'' [''observe'']) (demo_node\<lparr>nd_work := demo_queued\<rparr>) = (demo_after, Inr demo_progress)"
  by (simp add: execute_admitted_intent_def demo_keys demo_allows look_def demo_config find_capability_def demo_layer
        check_risk_and_run_def attr_json_def risk_class_def demo_risk grant_check_def validate_grant_if_required_def
        start_and_run_def try_start_def lease_seconds_def DEFAULT_TASK_LEASE_def work_action_def demo_transactions
        run_adapter_bounded_def submit_call_def register_late_def demo_after_def demo_node_def demo_progress_def)

lemma demo_first: "run_prog demo_propose demo_node = (demo_after, Inr demo_progress)"
  unfolding demo_propose_def handle_intent_def
  by (simp add: demo_keys demo_allows work_action_def demo_config demo_fields demo_transactions demo_execute)

lemma demo_twice:
  "(pool_step (intent_env demo_harness))\<^sup>*\<^sup>* (demo_node, []) (demo_after, [Done (Inr demo_progress), demo_propose])"
proof -
  have new: "intent_env demo_harness s s (Some demo_propose)" for s
    unfolding demo_propose_def by (rule e_intent)
  have a1: "pool_step (intent_env demo_harness) (demo_node, []) (demo_node, [demo_propose])"
    using arrival [of "intent_env demo_harness", OF new, of demo_node "[]"] by simp
  have a2: "(pool_step (intent_env demo_harness))\<^sup>*\<^sup>* (demo_node, [demo_propose]) (demo_after, [Done (Inr demo_progress)])"
    using run_in_pool [OF demo_first, of 0 "[demo_propose]"] by simp
  have a3: "pool_step (intent_env demo_harness) (demo_after, [Done (Inr demo_progress)]) (demo_after, [Done (Inr demo_progress), demo_propose])"
    using arrival [of "intent_env demo_harness", OF new, of demo_after "[Done (Inr demo_progress)]"] by simp
  from a1 a2 a3 show ?thesis by (meson converse_rtranclp_into_rtranclp rtranclp.rtrancl_into_rtrancl)
qed

lemma demo_fresh: "fresh_node demo_node"
  by (simp add: fresh_node_def demo_node_def)

theorem adapter_called_at_most_once_witness:
  "nd_submitted demo_after = [(''k'', demo_intent)] \<and> distinct (map fst (nd_submitted demo_after)) \<and> \<not> startable (nd_work demo_after) ''k''"
  using adapter_called_at_most_once [OF demo_fresh demo_twice] by (simp add: demo_after_def)

text \<open>A queued task that is cancelled, in a node where a second proposal of it is under way.\<close>

definition demo_cancelled :: "nat work_db" where
  "demo_cancelled = fst (cancel_immediately None demo_queued ''k'' 0)"

lemma demo_cancel_states: "map_option fst (task_get demo_cancelled ''k'') = Some TCancelled"
  by code_simp

theorem cancelled_before_start_never_called_witness:
  "''k'' \<notin> fst ` set (nd_submitted (demo_node\<lparr>nd_work := demo_cancelled\<rparr>))"
proof -
  let ?q = "demo_node\<lparr>nd_work := demo_queued\<rparr>" and ?c = "demo_node\<lparr>nd_work := demo_cancelled\<rparr>"
  obtain r where r: "task_get demo_queued ''k'' = Some (TProposed, r)" using demo_transactions(4) by auto
  obtain r1 where r1: "task_get demo_cancelled ''k'' = Some (TCancelled, r1)" using demo_cancel_states by auto
  have "intent_env demo_harness demo_node ?q None"
    by (rule e_work) (simp add: demo_config demo_fields s_propose [OF demo_transactions(1)])
  then have 1: "pool_step (intent_env demo_harness) (demo_node, []) (?q, [])" by (rule outside)
  have new: "intent_env demo_harness ?q ?q (Some demo_propose)" unfolding demo_propose_def by (rule e_intent)
  have 2: "pool_step (intent_env demo_harness) (?q, []) (?q, [demo_propose])"
    using arrival [of "intent_env demo_harness", OF new, of "[]"] by simp
  have "work_step None (Some 4) demo_queued demo_cancelled" unfolding demo_cancelled_def by (rule s_cancel)
  then have "intent_env demo_harness ?q (?q\<lparr>nd_work := demo_cancelled\<rparr>) None" by (intro e_work) (simp add: demo_config)
  then have 3: "pool_step (intent_env demo_harness) (?q, [demo_propose]) (?c, [demo_propose])"
    using outside [of "intent_env demo_harness" ?q ?c "[demo_propose]"] by simp
  have "(pool_step (intent_env demo_harness))\<^sup>*\<^sup>* (demo_node, []) (?q, [demo_propose])" using 1 2 by simp
  from cancelled_before_start_never_called [OF demo_fresh this _ 3 _ _ rtranclp.rtrancl_refl, of "''k''" r TCancelled r1] r r1
  show ?thesis by simp
qed

theorem duplicate_answered_from_record_witness:
  "fst (run_prog demo_propose demo_after) = demo_after \<and> run_prog (handle_intent demo_harness ''q'' demo_intent [''observe'']) demo_after = (demo_after, Inl (FaspError ''auth.not_authorized''))"
proof -
  obtain r where r: "task_get (nd_work demo_after) ''k'' = Some (TRunning, r)" using demo_transactions(5) by (auto simp: demo_after_def)
  have "map_option (wi_owner \<circ> snd) (task_get demo_started ''k'') = Some ''p''" by code_simp
  then have "wi_owner r = ''p''" using r by (simp add: demo_after_def)
  with duplicate_answered_from_record [OF demo_keys(1) _ demo_keys(2) demo_allows r, of demo_harness "''p''"]
    duplicate_answered_from_record [OF demo_keys(1) _ demo_keys(2) demo_allows r, of demo_harness "''q''"]
  show ?thesis by (simp add: demo_propose_def)
qed

theorem adapter_called_past_every_gate_witness:
  "\<exists>tr cp item risk. trace (execute_admitted_intent demo_harness ''k'' demo_intent ''p'' [''observe'']) tr (Done (Inr demo_progress)) \<and>
     called tr \<and> allows cp [''observe''] \<and> layer_check demo_harness cp item = Inr () \<and> is_executable risk \<and>
     grant_passed ''p'' cp demo_intent (requires_grant risk) tr \<and> started_in demo_harness ''k'' tr"
proof -
  obtain tr where tr: "trace (execute_admitted_intent demo_harness ''k'' demo_intent ''p'' [''observe'']) tr (Done (Inr demo_progress))"
    and chain: "(\<forall>(a, b) \<in> set tr. nd_submitted b = nd_submitted a) \<longrightarrow> nd_submitted demo_after = nd_submitted (demo_node\<lparr>nd_work := demo_queued\<rparr>)"
    using trace_of_run [OF demo_execute, of nd_submitted] by blast
  have "nd_submitted demo_after \<noteq> nd_submitted (demo_node\<lparr>nd_work := demo_queued\<rparr>)" by (simp add: demo_after_def demo_node_def)
  with chain have "called tr" by (auto simp: called_def)
  with adapter_called_past_every_gate [OF tr this] tr show ?thesis by blast
qed

theorem recovery_settles_every_stale_intent_witness:
  "\<not> startable (nd_work (fst (run_prog (recover_interrupted_intents demo_harness 120000 8) (demo_node\<lparr>nd_work := demo_queued, nd_now := 200000\<rparr>)))) ''k''"
proof -
  let ?s = "demo_node\<lparr>nd_work := demo_queued, nd_now := 200000\<rparr>"
  obtain s' a where run: "run_prog (recover_interrupted_intents demo_harness 120000 8) ?s = (s', a)" by fastforce
  have "work_inv None (Some 4) demo_queued"
    using work_step_ok [OF s_propose [OF demo_transactions(1)] work_run.init_inv [OF refl]] by simp
  then have inv: "node_inv demo_harness ?s" by (simp add: node_inv_def demo_config)
  have "map wi_idempotency_key (stale_queued demo_queued ''intent'' 80000 8) = [''k'']" by code_simp
  then obtain item where "item \<in> set (stale_queued demo_queued ''intent'' 80000 8)" "wi_idempotency_key item = ''k''" by auto
  with recovery_settles_every_stale_intent [OF inv run, of item] run show ?thesis by simp
qed

end
