(* ===== verification/Signing.thy ===== *)
theory Signing
  imports Json_Text
begin

text \<open>
  Signed records: \<^verbatim>\<open>src/fasp_harness/crypto/envelope.py\<close>. The unpadded base64url codec is written out; Ed25519
  and the RFC 8785 canonicalizer are third-party code and parameters: \<open>canon\<close> (\<open>None\<close> when it refuses a
  value), the signing function and the verification of a signature with a public key.
\<close>

section \<open>Base64url\<close>

definition sextet_char :: "nat \<Rightarrow> char" where
  "sextet_char n =
     (if n < 26 then char_of (65 + n) else if n < 52 then char_of (97 + (n - 26))
      else if n < 62 then char_of (48 + (n - 52)) else if n = 62 then CHR ''-'' else CHR ''_'')"

definition char_sextet :: "char \<Rightarrow> nat option" where
  "char_sextet c =
     (let n = (of_char c :: nat) in
      if 65 \<le> n \<and> n \<le> 90 then Some (n - 65) else if 97 \<le> n \<and> n \<le> 122 then Some (n - 97 + 26)
      else if 48 \<le> n \<and> n \<le> 57 then Some (n - 48 + 52) else if n = 45 then Some 62 else if n = 95 then Some 63 else None)"

text \<open>The bytes as numbers, three at a time, to sextets, and back. Trailing bits of a short last group are dropped by the decoder.\<close>

fun to_sextets :: "nat list \<Rightarrow> nat list" where
  "to_sextets [] = []"
| "to_sextets [a] = [a div 4, a mod 4 * 16]"
| "to_sextets [a, b] = [a div 4, a mod 4 * 16 + b div 16, b mod 16 * 4]"
| "to_sextets (a # b # c # r) = [a div 4, a mod 4 * 16 + b div 16, b mod 16 * 4 + c div 64, c mod 64] @ to_sextets r"

fun from_sextets :: "nat list \<Rightarrow> nat list option" where
  "from_sextets [] = Some []"
| "from_sextets [x] = None"
| "from_sextets [x, y] = Some [x * 4 + y div 16]"
| "from_sextets [x, y, z] = Some [x * 4 + y div 16, y mod 16 * 16 + z div 4]"
| "from_sextets (x # y # z # w # r) =
     map_option (\<lambda>bs. [x * 4 + y div 16, y mod 16 * 16 + z div 4, z mod 4 * 64 + w] @ bs) (from_sextets r)"

definition b64 :: "bytes \<Rightarrow> string" where
  "b64 data = map sextet_char (to_sextets (map unat data))"

definition unb64 :: "string \<Rightarrow> bytes result" where
  "unb64 value =
     (case all_some (map char_sextet value) of
        None \<Rightarrow> Inl ValueError
      | Some xs \<Rightarrow>
          (case from_sextets xs of
             None \<Rightarrow> Inl ValueError
           | Some bs \<Rightarrow> let decoded = map of_nat bs in if b64 decoded \<noteq> value then Inl ValueError else Inr decoded))"

section \<open>Signing and verification\<close>

definition unsigned_fields :: "(string \<times> json) list \<Rightarrow> (string \<times> json) list" where
  "unsigned_fields value = filter (\<lambda>kv. fst kv \<noteq> ''signature'') value"

definition sign ::
    "(json \<Rightarrow> bytes option) \<Rightarrow> (bytes \<Rightarrow> bytes) \<Rightarrow> string \<Rightarrow> (string \<times> json) list \<Rightarrow> (string \<times> json) list result" where
  "sign canon ed_sign kid value =
     (case canon (JObj (unsigned_fields value)) of
        None \<Rightarrow> Inl ValueError
      | Some content \<Rightarrow>
          Inr (dict_put ''signature'' (JObj [(''alg'', JStr ''Ed25519''), (''kid'', JStr kid), (''value'', JStr (b64 (ed_sign content)))]) value))"

text \<open>\<open>ed_verify key signature content\<close> is false also when the key cannot be loaded.\<close>

definition verify_canonical ::
    "(bytes \<Rightarrow> bytes \<Rightarrow> bytes \<Rightarrow> bool) \<Rightarrow> (string \<times> json) list \<Rightarrow> string \<Rightarrow> bytes \<Rightarrow> string option \<Rightarrow> unit result" where
  "verify_canonical ed_verify value public_b64 content expected_kid =
     (case map_of value ''signature'' of
        Some (JObj sg) \<Rightarrow>
          (case (map_of sg ''alg'', map_of sg ''value'', map_of sg ''kid'') of
             (Some (JStr alg), Some (JStr v), Some (JStr kid)) \<Rightarrow>
               if alg = ''Ed25519'' \<and> 1 \<le> length kid \<and> length kid \<le> 128 \<and> (case expected_kid of None \<Rightarrow> True | Some k \<Rightarrow> kid = k)
               then (case (unb64 public_b64, unb64 v) of
                       (Inr key, Inr s) \<Rightarrow> if ed_verify key s content then Inr () else Inl (FaspError ''auth.invalid_signature'')
                     | _ \<Rightarrow> Inl (FaspError ''auth.invalid_signature''))
               else Inl (FaspError ''auth.invalid_signature'')
           | _ \<Rightarrow> Inl (FaspError ''auth.invalid_signature''))
      | _ \<Rightarrow> Inl (FaspError ''auth.invalid_signature''))"

definition verify ::
    "(json \<Rightarrow> bytes option) \<Rightarrow> (bytes \<Rightarrow> bytes \<Rightarrow> bytes \<Rightarrow> bool) \<Rightarrow> json \<Rightarrow> string \<Rightarrow> string option \<Rightarrow> unit result" where
  "verify canon ed_verify value public_b64 expected_kid =
     (case value of
        JObj kvs \<Rightarrow>
          (case canon (JObj (unsigned_fields kvs)) of
             None \<Rightarrow> Inl (FaspError ''auth.invalid_signature'')
           | Some content \<Rightarrow> verify_canonical ed_verify kvs public_b64 content expected_kid)
      | _ \<Rightarrow> Inl (FaspError ''auth.invalid_signature''))"

section \<open>The codec\<close>

lemma char_sextet_char: "n < 64 \<Longrightarrow> char_sextet (sextet_char n) = Some n"
proof -
  assume "n < 64"
  then consider "n < 26" | "26 \<le> n" "n < 52" | "52 \<le> n" "n < 62" | "n = 62" | "n = 63" by linarith
  then show "char_sextet (sextet_char n) = Some n"
    by cases (auto simp: sextet_char_def char_sextet_def Let_def)
qed

lemma from_to_sextets: "\<forall>b \<in> set bs. b < 256 \<Longrightarrow> from_sextets (to_sextets bs) = Some bs"
proof (induction bs rule: to_sextets.induct)
  case (4 a b c r)
  have "b div 16 < 16" "c div 64 < 4" using 4 by (simp_all add: div_less_iff_less_mult)
  then show ?case using 4 by simp
next
  case (3 a b)
  have "b div 16 < 16" using 3 by (simp add: div_less_iff_less_mult)
  then show ?case by simp
qed simp_all

lemma length_to_sextets: "length (to_sextets bs) = (4 * length bs + 2) div 3"
proof (induction bs rule: to_sextets.induct)
  case (4 a b c r)
  have "length (to_sextets (a # b # c # r)) = 4 + length (to_sextets r)" by simp
  also have "\<dots> = (4 * length (a # b # c # r) + 2) div 3" unfolding 4 by simp
  finally show ?case .
qed simp_all

lemma length_b64: "length (b64 data) = (4 * length data + 2) div 3"
  by (simp add: b64_def length_to_sextets)

lemma to_sextets_small: "\<forall>b \<in> set bs. b < 256 \<Longrightarrow> \<forall>x \<in> set (to_sextets bs). x < 64"
proof (induction bs rule: to_sextets.induct)
  case (4 a b c r)
  have m: "a mod 4 < 4" "b mod 16 < 16" "c mod 64 < 64" by simp_all
  have "a div 4 < 64" "b div 16 < 16" "c div 64 < 4" using 4 by (simp_all add: div_less_iff_less_mult)
  with m have "a mod 4 * 16 + b div 16 < 64" "b mod 16 * 4 + c div 64 < 64" by linarith+
  with \<open>a div 4 < 64\<close> 4 show ?case by simp
next
  case (3 a b)
  have m: "a mod 4 < 4" "b mod 16 < 16" by simp_all
  have "a div 4 < 64" "b div 16 < 16" using 3 by (simp_all add: div_less_iff_less_mult)
  with m have "a mod 4 * 16 + b div 16 < 64" "b mod 16 * 4 < 64" by linarith+
  with \<open>a div 4 < 64\<close> show ?case by simp
next
  case (2 a)
  have m: "a mod 4 < 4" by simp
  then have "a mod 4 * 16 < 64" by linarith
  moreover have "a div 4 < 64" using 2 by (simp add: div_less_iff_less_mult)
  ultimately show ?case by simp
qed simp

lemma all_some_map: "\<forall>x \<in> set xs. f x = Some (g x) \<Longrightarrow> all_some (map f xs) = Some (map g xs)"
  by (induction xs) simp_all

lemma unat_octet: "unat (b :: 8 word) < 256"
  using unsigned_less [of b, where 'a = nat] by simp

lemma unb64_b64: "unb64 (b64 data) = Inr data"
proof -
  have small: "\<forall>b \<in> set (map unat data). b < 256" using unat_octet by auto
  have "all_some (map char_sextet (b64 data)) = Some (to_sextets (map unat data))"
    unfolding b64_def map_map
    using all_some_map [of "to_sextets (map unat data)" "char_sextet \<circ> sextet_char" id] to_sextets_small [OF small] char_sextet_char
    by simp
  moreover have "map of_nat (map unat data) = data" by (induction data) simp_all
  ultimately show ?thesis by (simp add: unb64_def from_to_sextets [OF small])
qed

text \<open>
  The base64url codec is a bijection: every byte string is read back from its encoding, and a text is accepted only if it is the
  one canonical encoding of the bytes it gives, so no two texts stand for the same key or signature.
\<close>

theorem base64url_canonical: "unb64 value = Inr data \<longleftrightarrow> value = b64 data"
proof
  show "value = b64 data" if "unb64 value = Inr data"
    using that by (auto simp: unb64_def Let_def split: option.splits if_splits)
  show "unb64 value = Inr data" if "value = b64 data" using that by (simp add: unb64_b64)
qed

text \<open>
  What a system signs, its peers accept: if Ed25519 verifies the signatures it makes, and canonicalization does not refuse the
  record, then signing a record gives one that verifies against the encoded public key, with or without naming the key identifier
  it was signed under, and the signed record keeps every other field.
\<close>

theorem sign_verifies:
  assumes "\<And>m. ed_verify pub (ed_sign m) m"
    and "canon (JObj (unsigned_fields value)) = Some content" and "1 \<le> length kid" and "length kid \<le> 128" and "expected \<in> {None, Some kid}"
  shows "\<exists>signed. sign canon ed_sign kid value = Inr signed \<and> unsigned_fields signed = unsigned_fields value \<and>
           verify canon ed_verify (JObj signed) (b64 pub) expected = Inr ()"
proof -
  let ?sg = "[(''alg'', JStr ''Ed25519''), (''kid'', JStr kid), (''value'', JStr (b64 (ed_sign content)))]"
  let ?signed = "dict_put ''signature'' (JObj ?sg) value"
  have sg: "map_of ?signed ''signature'' = Some (JObj ?sg)" by simp
  have un: "unsigned_fields ?signed = unsigned_fields value" by (simp add: unsigned_fields_def)
  have "verify_canonical ed_verify ?signed (b64 pub) content expected = Inr ()"
    unfolding verify_canonical_def sg using assms(1,3-5) by (auto simp: unb64_b64)
  then have "verify canon ed_verify (JObj ?signed) (b64 pub) expected = Inr ()" using assms(2) un by (simp add: verify_def)
  with un assms(2) show ?thesis by (simp add: sign_def)
qed

theorem sign_verifies_witness:
  "\<exists>signed. sign (\<lambda>v. Some [1]) (\<lambda>m. m) ''k'' [(''a'', JNull)] = Inr signed \<and> unsigned_fields signed = unsigned_fields [(''a'', JNull)] \<and>
     verify (\<lambda>v. Some [1]) (\<lambda>p s m. s = m) (JObj signed) (b64 [7]) (Some ''k'') = Inr ()"
  by (rule sign_verifies [where content = "[1]"]) simp_all

end
