(* ===== verification/Contracts.thy ===== *)
theory Contracts
  imports Policy Timestamps Signing
begin

text \<open>
  What may come in over the wire: \<^verbatim>\<open>src/fasp_harness/protocol/contracts.py\<close>. Every check is a function to a
  result, in the order of the source, so that the error a malformed record gets is the one the code
  raises first. The canonicalizer is the parameter \<open>canon\<close>, as in the theory of signing; characters beyond
  the first 256, and with them lone surrogates, are not represented.
\<close>

section \<open>Limits\<close>

definition PROTOCOL :: string where "PROTOCOL = ''fasp/1.0''"

definition MAX_RECORD_BYTES :: nat where "MAX_RECORD_BYTES = 64 * 1024"

definition MAX_JSON_DEPTH :: nat where "MAX_JSON_DEPTH = 32"

definition MAX_JSON_NODES :: nat where "MAX_JSON_NODES = 8192"

definition MAX_CLOCK_SKEW_SECONDS :: int where "MAX_CLOCK_SKEW_SECONDS = 60"

definition MAX_VOLATILE_LIFETIME_S :: int where "MAX_VOLATILE_LIFETIME_S = 5"

definition VOLATILE_FEATURE :: string where "VOLATILE_FEATURE = ''fasp.volatile.v1''"

definition VOLATILE_KINDS :: "string set" where "VOLATILE_KINDS = {''heartbeat'', ''stream.packet''}"

definition SUPPORTED_FEATURES :: "string set" where
  "SUPPORTED_FEATURES = {''fasp.required-features.v1'', VOLATILE_FEATURE}"

definition invalid :: exn where "invalid = FaspError ''schema.invalid''"

definition require :: "bool \<Rightarrow> unit result" where
  "require b = guard_else b invalid"

definition text_ok :: "json \<Rightarrow> nat \<Rightarrow> bool" where
  "text_ok v maximum = (case v of JStr s \<Rightarrow> 1 \<le> length s \<and> length s \<le> maximum | _ \<Rightarrow> False)"

section \<open>Structure\<close>

text \<open>The integers a double represents exactly.\<close>

definition safe_integer :: "int \<Rightarrow> bool" where
  "safe_integer i \<longleftrightarrow> \<bar>i\<bar> \<le> 2 ^ 53 - 1"

definition number_ok :: "json \<Rightarrow> bool" where
  "number_ok v =
     (case v of
        JInt i \<Rightarrow> safe_integer i
      | JFloat f \<Rightarrow> (case f of Fin r \<Rightarrow> \<not> (of_int \<lfloor>r\<rfloor> = r \<and> 2 ^ 53 - 1 < \<bar>r\<bar>) | _ \<Rightarrow> False)
      | _ \<Rightarrow> True)"

definition children :: "json \<Rightarrow> json list" where
  "children v =
     (case v of JObj kvs \<Rightarrow> concat (map (\<lambda>(k, c). [JStr k, c]) kvs) | JList xs \<Rightarrow> xs | _ \<Rightarrow> [])"

text \<open>The work list of \<^verbatim>\<open>validate_json\<close> is a stack: children are pushed in order, the last one is looked at first.\<close>

function validate_pending :: "nat \<Rightarrow> (json \<times> nat) list \<Rightarrow> unit result" where
  "validate_pending nodes [] = Inr ()"
| "validate_pending nodes ((item, depth) # pending) =
     (if nodes + 1 > MAX_JSON_NODES \<or> depth > MAX_JSON_DEPTH then Inl (FaspError ''resource.too_large'')
      else if \<not> number_ok item then Inl invalid
      else validate_pending (nodes + 1) (rev (map (\<lambda>c. (c, depth + 1)) (children item)) @ pending))"
  by pat_completeness auto

termination validate_pending
  by (relation "measure (\<lambda>(nodes, pending). MAX_JSON_NODES - nodes)") auto

definition validate_json :: "json \<Rightarrow> unit result" where
  "validate_json v = validate_pending 0 [(v, 0)]"

section \<open>Fields\<close>

definition record_shape :: "(json \<Rightarrow> bytes option) \<Rightarrow> json \<Rightarrow> string list \<Rightarrow> bytes result" where
  "record_shape canon value required =
     (case value of
        JObj kvs \<Rightarrow>
          if \<not> set required \<subseteq> fst ` set kvs then Inl invalid
          else bind_result (validate_json value) (\<lambda>_.
            case (canon (JObj (unsigned_fields kvs)), map_option canon (map_of kvs ''signature'')) of
              (None, _) \<Rightarrow> Inl ValueError
            | (_, None) \<Rightarrow> Inl KeyError
            | (_, Some None) \<Rightarrow> Inl ValueError
            | (Some content, Some (Some signature_bytes)) \<Rightarrow>
                if length content + 13 + length signature_bytes > MAX_RECORD_BYTES then Inl (FaspError ''resource.too_large'')
                else (case map_of kvs ''fasp'' of
                        None \<Rightarrow> Inl KeyError
                      | Some (JStr v) \<Rightarrow> if v \<noteq> PROTOCOL then Inl (FaspError ''protocol.unsupported_version'') else Inr content
                      | Some _ \<Rightarrow> Inl invalid))
      | _ \<Rightarrow> Inl invalid)"

text \<open>RFC 3339 with an explicit offset, in microseconds since the epoch; a date that does not exist is refused too.\<close>

definition timestamp_field :: "json \<Rightarrow> int result" where
  "timestamp_field v =
     (case v of JStr s \<Rightarrow> (case parse_stamp s of Some t \<Rightarrow> Inr t | None \<Rightarrow> Inl invalid) | _ \<Rightarrow> Inl invalid)"

definition lifetime :: "(string \<times> json) list \<Rightarrow> bool \<Rightarrow> (int option \<times> int) result" where
  "lifetime kvs issued_required =
     bind_result (timestamp_field (get_or_null kvs ''expires_at'')) (\<lambda>expires.
     bind_result (if issued_required \<or> map_of kvs ''issued_at'' \<noteq> None
                  then bind_result (timestamp_field (get_or_null kvs ''issued_at'')) (\<lambda>t. Inr (Some t)) else Inr None) (\<lambda>issued.
     bind_result (require (case issued of None \<Rightarrow> True | Some t \<Rightarrow> t < expires)) (\<lambda>_. Inr (issued, expires))))"

definition id_char :: "char \<Rightarrow> bool" where
  "id_char c = (char_sextet c \<noteq> None)"

definition system_id_ok :: "json \<Rightarrow> bool" where
  "system_id_ok v =
     (case v of JStr s \<Rightarrow> take 12 s = ''fasp:system:'' \<and> length s = 12 + 43 \<and> list_all id_char (drop 12 s) | _ \<Rightarrow> False)"

definition feature_ok :: "json \<Rightarrow> bool" where
  "feature_ok v = (case v of JStr s \<Rightarrow> s \<noteq> '''' \<and> length s \<le> 128 | _ \<Rightarrow> False)"

definition feature_names :: "json list \<Rightarrow> string list" where
  "feature_names fs = map (\<lambda>v. case v of JStr s \<Rightarrow> s | _ \<Rightarrow> '''') fs"

definition features_field :: "json \<Rightarrow> unit result" where
  "features_field v =
     (case v of
        JList fs \<Rightarrow>
          bind_result (require (length fs \<le> 32 \<and> list_all feature_ok fs)) (\<lambda>_.
          bind_result (require (distinct (feature_names fs))) (\<lambda>_.
          guard_else (set (feature_names fs) \<subseteq> SUPPORTED_FEATURES) (FaspError ''protocol.unsupported_feature'')))
      | _ \<Rightarrow> Inl invalid)"

definition features_of :: "(string \<times> json) list \<Rightarrow> json" where
  "features_of kvs = (case map_of kvs ''required_features'' of None \<Rightarrow> JList [] | Some v \<Rightarrow> v)"

definition required_features :: "(string \<times> json) list \<Rightarrow> unit result" where
  "required_features kvs = features_field (features_of kvs)"

definition requires_volatile :: "(string \<times> json) list \<Rightarrow> bool" where
  "requires_volatile kvs = (case features_of kvs of JList fs \<Rightarrow> JStr VOLATILE_FEATURE \<in> set fs | _ \<Rightarrow> False)"

definition check_peer_features :: "(string \<times> json) list \<Rightarrow> json \<Rightarrow> unit result" where
  "check_peer_features idc features =
     bind_result (features_field features) (\<lambda>_.
       if \<not> truthy features then Inr ()
       else (let advertised = (case map_of idc ''protocol_support'' of
                                 None \<Rightarrow> JList []
                               | Some (JObj support) \<Rightarrow> (case map_of support ''features'' of None \<Rightarrow> JList [] | Some v \<Rightarrow> v)
                               | Some _ \<Rightarrow> JList [])
             in case (advertised, features) of
                  (JList ads, JList fs) \<Rightarrow>
                    guard_else (list_all (\<lambda>v. as_str v \<noteq> None) ads \<and> JStr ''fasp.required-features.v1'' \<in> set ads \<and> set fs \<subseteq> set ads)
                      (FaspError ''protocol.unsupported_feature'')
                | _ \<Rightarrow> Inl (FaspError ''protocol.unsupported_feature'')))"

fun check_all :: "unit result list \<Rightarrow> unit result" where
  "check_all [] = Inr ()"
| "check_all (r # rs) = bind_result r (\<lambda>_. check_all rs)"

definition text_if_given :: "(string \<times> json) list \<Rightarrow> nat \<Rightarrow> string \<Rightarrow> unit result" where
  "text_if_given kvs maximum name = require (get_or_null kvs name = JNull \<or> text_ok (get_or_null kvs name) maximum)"

text \<open>The delivery field: whether the envelope is volatile.\<close>

definition delivery_of :: "(string \<times> json) list \<Rightarrow> bool result" where
  "delivery_of kvs =
     (case map_of kvs ''delivery'' of
        None \<Rightarrow> Inr False
      | Some v \<Rightarrow> if v = JStr ''durable'' then Inr False else if v = JStr ''volatile'' then Inr True else Inl invalid)"

definition check_volatile :: "(string \<times> json) list \<Rightarrow> int \<Rightarrow> int \<Rightarrow> unit result" where
  "check_volatile kvs issued expires =
     bind_result (guard_else ((case get_or_null kvs ''kind'' of JStr k \<Rightarrow> k \<in> VOLATILE_KINDS | _ \<Rightarrow> False) \<and> requires_volatile kvs)
                    (FaspError ''protocol.unsupported_delivery'')) (\<lambda>_.
     bind_result (require (text_ok (get_or_null kvs ''receiver_instance'') 128)) (\<lambda>_.
     require (expires - issued \<le> MAX_VOLATILE_LIFETIME_S * 1000000)))"

definition envelope_fields :: "string list" where
  "envelope_fields = [''fasp'', ''kind'', ''message_id'', ''from'', ''to'', ''issued_at'', ''expires_at'', ''nonce'', ''payload'', ''signature'']"

definition envelope_shape :: "(json \<Rightarrow> bytes option) \<Rightarrow> json \<Rightarrow> (int \<times> int \<times> bytes) result" where
  "envelope_shape canon value =
     bind_result (record_shape canon value envelope_fields) (\<lambda>content.
     case value of
       JObj kvs \<Rightarrow>
         bind_result (check_all (map (\<lambda>n. require (text_ok (get_or_null kvs n) 128)) [''kind'', ''message_id'', ''nonce''])) (\<lambda>_.
         bind_result (check_all (map (\<lambda>n. require (system_id_ok (get_or_null kvs n))) [''from'', ''to''])) (\<lambda>_.
         bind_result (check_all (map (text_if_given kvs 128) [''conversation_id'', ''causation_id''])) (\<lambda>_.
         bind_result (require (case get_or_null kvs ''payload'' of JObj _ \<Rightarrow> True | _ \<Rightarrow> False)) (\<lambda>_.
         bind_result (required_features kvs) (\<lambda>_.
         bind_result (lifetime kvs True) (\<lambda>(issued, expires).
         bind_result (delivery_of kvs) (\<lambda>volatile.
         case issued of
           None \<Rightarrow> Inl TypeError
         | Some i \<Rightarrow>
             bind_result (if volatile then check_volatile kvs i expires else Inr ()) (\<lambda>_. Inr (i, expires, content)))))))))
     | _ \<Rightarrow> Inl invalid)"

definition id_card_fields :: "string list" where
  "id_card_fields = [''fasp'', ''type'', ''system_id'', ''public_key'', ''endpoints'', ''expires_at'', ''signature'']"

definition endpoints_ok :: "json \<Rightarrow> bool" where
  "endpoints_ok v = (case v of JObj es \<Rightarrow> list_all (\<lambda>(k, e). e = JNull \<or> as_str e \<noteq> None) es | _ \<Rightarrow> False)"

definition text_if_present :: "(string \<times> json) list \<Rightarrow> nat \<Rightarrow> string \<Rightarrow> unit result" where
  "text_if_present kvs maximum name = require (case map_of kvs name of None \<Rightarrow> True | Some v \<Rightarrow> text_ok v maximum)"

definition key_id_matches :: "(string \<times> json) list \<Rightarrow> bool" where
  "key_id_matches kvs =
     (case map_of kvs ''key_id'' of
        None \<Rightarrow> True
      | Some k \<Rightarrow> (case get_or_null kvs ''signature'' of JObj sg \<Rightarrow> py_eq (get_or_null sg ''kid'') k | _ \<Rightarrow> False))"

definition id_card_shape :: "(json \<Rightarrow> bytes option) \<Rightarrow> json \<Rightarrow> (int option \<times> int \<times> bytes) result" where
  "id_card_shape canon value =
     bind_result (record_shape canon value id_card_fields) (\<lambda>content.
     case value of
       JObj kvs \<Rightarrow>
         bind_result (require (get_or_null kvs ''type'' = JStr ''id_card'')) (\<lambda>_.
         bind_result (require (system_id_ok (get_or_null kvs ''system_id''))) (\<lambda>_.
         bind_result (require (text_ok (get_or_null kvs ''public_key'') 43)) (\<lambda>_.
         bind_result (require (endpoints_ok (get_or_null kvs ''endpoints''))) (\<lambda>_.
         bind_result (check_all [text_if_present kvs 256 ''display_name'', text_if_present kvs 128 ''instance_id'', text_if_present kvs 128 ''key_id'']) (\<lambda>_.
         bind_result (guard_else (key_id_matches kvs) (FaspError ''auth.invalid_signature'')) (\<lambda>_.
         bind_result (required_features kvs) (\<lambda>_.
         bind_result (lifetime kvs False) (\<lambda>(issued, expires). Inr (issued, expires, content)))))))))
     | _ \<Rightarrow> Inl invalid)"

section \<open>Scopes, numbers and payloads\<close>

text \<open>\<^verbatim>\<open>[A-Za-z0-9_-]+(?:\.[A-Za-z0-9_-]+)*\.?\<close>\<close>

definition scope_text_ok :: "string \<Rightarrow> bool" where
  "scope_text_ok s = list_all (\<lambda>part. part \<noteq> [] \<and> list_all id_char part) (py_split CHR ''.'' (normalize_scope s))"

definition scope_ok :: "json \<Rightarrow> bool" where
  "scope_ok v = (text_ok v 256 \<and> (case v of JStr s \<Rightarrow> scope_text_ok s | _ \<Rightarrow> False))"

definition check_scopes :: "json \<Rightarrow> unit result" where
  "check_scopes v = (case v of JList xs \<Rightarrow> require (length xs \<le> 128 \<and> list_all scope_ok xs) | _ \<Rightarrow> Inl invalid)"

text \<open>\<^verbatim>\<open>math.isfinite\<close> converts an integer to a double first, which overflows for the largest ones.\<close>

definition float_overflows :: "int \<Rightarrow> bool" where
  "float_overflows i \<longleftrightarrow> 2 ^ 1024 - 2 ^ 970 \<le> \<bar>i\<bar>"

definition check_number :: "json \<Rightarrow> rat \<Rightarrow> rat \<Rightarrow> bool \<Rightarrow> unit result" where
  "check_number v minimum maximum integer =
     (case v of
        JInt i \<Rightarrow> if float_overflows i then Inl OtherException else require (minimum \<le> of_int i \<and> of_int i \<le> maximum)
      | JFloat (Fin r) \<Rightarrow> require (\<not> integer \<and> minimum \<le> r \<and> r \<le> maximum)
      | _ \<Rightarrow> Inl invalid)"

definition payload_names :: "string \<Rightarrow> string list" where
  "payload_names kind =
     (if kind = ''intent.propose'' then [''intent_id'', ''idempotency_key'', ''capability'', ''risk'', ''objective'']
      else if kind \<in> {''task.cancel'', ''task.status''} then [''idempotency_key'']
      else if kind = ''artifact.fetch'' then [''artifact_id'']
      else if kind = ''receipt.processed'' then [''message_id'']
      else if take 7 kind = ''stream.'' then [''stream_id'', ''capability'']
      else if take 12 kind = ''reservation.'' then [''reservation_id'']
      else if kind \<in> {''mission.status'', ''mission.cancel''} then [''mission_id'']
      else [])"

definition number_if_present :: "(string \<times> json) list \<Rightarrow> string \<Rightarrow> rat \<Rightarrow> rat \<Rightarrow> bool \<Rightarrow> unit result" where
  "number_if_present kvs name minimum maximum integer =
     (case map_of kvs name of None \<Rightarrow> Inr () | Some v \<Rightarrow> check_number v minimum maximum integer)"

definition payload_shape :: "string \<Rightarrow> (string \<times> json) list \<Rightarrow> unit result" where
  "payload_shape kind payload =
     bind_result (require (kind \<noteq> ''intent.propose'' \<or>
                    (case map_of payload ''constraints'' of None \<Rightarrow> True | Some (JObj _) \<Rightarrow> True | Some _ \<Rightarrow> False))) (\<lambda>_.
     bind_result (check_all (map (\<lambda>n. text_if_given payload (if n = ''objective'' then MAX_RECORD_BYTES else 256) n) (payload_names kind))) (\<lambda>_.
     bind_result (if kind = ''inbox.pull'' then number_if_present payload ''cursor'' 0 253402300799 False else Inr ()) (\<lambda>_.
     bind_result (if kind = ''stream.pull'' then number_if_present payload ''after_sequence'' (-1) (2 ^ 53 - 1) True else Inr ()) (\<lambda>_.
     if kind = ''reservation.request'' then number_if_present payload ''lease_ms'' 1000 120000 True else Inr ()))))"

definition operator_fields :: "string \<Rightarrow> string list" where
  "operator_fields path =
     (if path = ''/pair/confirm'' then [''peer_id'', ''pair_code''] else if path = ''/pair/revoke'' then [''peer_id'']
      else if path = ''/grants/issue'' then [''subject_peer''] else if path = ''/grants/revoke'' then [''grant_id''] else [])"

definition operator_payload :: "string \<Rightarrow> (string \<times> json) list \<Rightarrow> unit result" where
  "operator_payload path payload =
     bind_result (check_all (map (\<lambda>n. require (text_ok (get_or_null payload n) 256)) (operator_fields path))) (\<lambda>_.
     bind_result (check_all (map (\<lambda>n. if get_or_null payload n = JNull then Inr () else check_scopes (get_or_null payload n))
                    [''allowed_capability_prefixes'', ''capability_prefixes''])) (\<lambda>_.
     bind_result (if path = ''/grants/issue''
        then bind_result (check_scopes (get_or_null payload ''capability_prefixes'')) (\<lambda>_.
             bind_result (check_number (case map_of payload ''duration_seconds'' of None \<Rightarrow> JInt 3600 | Some v \<Rightarrow> v) 1 (90 * 86400) True) (\<lambda>_.
             bind_result (text_if_given payload 1024 ''purpose'') (\<lambda>_.
             require (case get_or_null payload ''constraints'' of JNull \<Rightarrow> True | JObj _ \<Rightarrow> True | _ \<Rightarrow> False))))
        else Inr ()) (\<lambda>_.
     if path = ''/pair/revoke'' then check_all (map (text_if_given payload 1024) [''reason'', ''revocation_ref'']) else Inr ())))"

section \<open>What the structural check admits\<close>

text \<open>The reference: nodes (object keys count), nesting, and numbers, each by recursion on the value.\<close>

fun json_nodes :: "json \<Rightarrow> nat" where
  "json_nodes (JObj kvs) = 1 + sum_list (map (\<lambda>kv. 1 + json_nodes (snd kv)) kvs)"
| "json_nodes (JList xs) = 1 + sum_list (map json_nodes xs)"
| "json_nodes v = 1"

fun json_depth :: "json \<Rightarrow> nat" where
  "json_depth (JObj kvs) = foldr max (map (\<lambda>kv. 1 + json_depth (snd kv)) kvs) 0"
| "json_depth (JList xs) = foldr max (map (\<lambda>x. 1 + json_depth x) xs) 0"
| "json_depth v = 0"

fun numbers_ok :: "json \<Rightarrow> bool" where
  "numbers_ok (JObj kvs) = list_all (\<lambda>kv. numbers_ok (snd kv)) kvs"
| "numbers_ok (JList xs) = list_all numbers_ok xs"
| "numbers_ok v = number_ok v"

lemma nodes_children: "json_nodes v = 1 + sum_list (map json_nodes (children v))"
proof (cases v)
  case (JObj kvs)
  have "sum_list (map (\<lambda>kv. 1 + json_nodes (snd kv)) kvs) = sum_list (map json_nodes (concat (map (\<lambda>(k, c). [JStr k, c]) kvs)))"
    by (induction kvs) auto
  with JObj show ?thesis by (simp add: children_def)
qed (simp_all add: children_def)

lemma foldr_max_le: "foldr max xs 0 \<le> (n :: nat) \<longleftrightarrow> (\<forall>x \<in> set xs. x \<le> n)"
  by (induction xs) auto

lemma depth_children: "d + json_depth v \<le> D \<longleftrightarrow> d \<le> D \<and> (\<forall>c \<in> set (children v). (d + 1) + json_depth c \<le> D)"
proof -
  have shift: "d + foldr max xs 0 \<le> D \<longleftrightarrow> d \<le> D \<and> (\<forall>x \<in> set xs. d + x \<le> D)" for xs
    using foldr_max_le [of xs "D - d"] by (cases "d \<le> D") (auto simp: le_diff_conv2 add.commute)
  show ?thesis
  proof (cases v)
    case (JObj kvs)
    then show ?thesis unfolding JObj json_depth.simps shift by (fastforce simp: children_def)
  next
    case (JList xs)
    then show ?thesis unfolding JList json_depth.simps shift by (auto simp: children_def)
  qed (simp_all add: children_def)
qed

lemma numbers_children: "numbers_ok v \<longleftrightarrow> number_ok v \<and> (\<forall>c \<in> set (children v). numbers_ok c)"
  by (cases v) (fastforce simp: children_def number_ok_def list_all_iff)+

lemma validate_pending_iff:
  "nodes \<le> MAX_JSON_NODES \<Longrightarrow>
   validate_pending nodes pending = Inr () \<longleftrightarrow>
     nodes + sum_list (map (\<lambda>(v, d). json_nodes v) pending) \<le> MAX_JSON_NODES \<and>
     (\<forall>(v, d) \<in> set pending. d + json_depth v \<le> MAX_JSON_DEPTH \<and> numbers_ok v)"
proof (induction nodes pending rule: validate_pending.induct)
  case (1 nodes)
  then show ?case by simp
next
  case (2 nodes item depth pending)
  let ?kids = "map (\<lambda>c. (c, depth + 1)) (children item)"
  have sum: "nodes + sum_list (map (\<lambda>(v, d). json_nodes v) ((item, depth) # pending)) =
      (nodes + 1) + sum_list (map (\<lambda>(v, d). json_nodes v) (rev ?kids @ pending))"
    using nodes_children [of item] by (simp add: rev_map [symmetric] comp_def)
  have all: "(\<forall>(v, d) \<in> set ((item, depth) # pending). d + json_depth v \<le> MAX_JSON_DEPTH \<and> numbers_ok v) \<longleftrightarrow>
      depth \<le> MAX_JSON_DEPTH \<and> number_ok item \<and>
      (\<forall>(v, d) \<in> set (rev ?kids @ pending). d + json_depth v \<le> MAX_JSON_DEPTH \<and> numbers_ok v)"
  proof -
    have "(\<forall>(v, d) \<in> set (rev ?kids @ pending). d + json_depth v \<le> MAX_JSON_DEPTH \<and> numbers_ok v) \<longleftrightarrow>
        (\<forall>c \<in> set (children item). (depth + 1) + json_depth c \<le> MAX_JSON_DEPTH) \<and> (\<forall>c \<in> set (children item). numbers_ok c) \<and>
        (\<forall>(v, d) \<in> set pending. d + json_depth v \<le> MAX_JSON_DEPTH \<and> numbers_ok v)"
      by (simp add: ball_Un) blast
    with depth_children [of depth item MAX_JSON_DEPTH] numbers_children [of item] show ?thesis by simp blast
  qed
  show ?case
  proof (cases "nodes + 1 > MAX_JSON_NODES \<or> depth > MAX_JSON_DEPTH \<or> \<not> number_ok item")
    case True
    then show ?thesis unfolding sum all using nodes_children [of item] by auto
  next
    case False
    with 2 show ?thesis unfolding sum all by auto
  qed
qed

lemma validate_json_exact:
  "validate_json v = Inr () \<longleftrightarrow> json_nodes v \<le> MAX_JSON_NODES \<and> json_depth v \<le> MAX_JSON_DEPTH \<and> numbers_ok v"
  using validate_pending_iff [of 0 "[(v, 0)]"] by (simp add: validate_json_def)


section \<open>What a record promises its handlers\<close>

lemma require_Inr [simp]: "require b = Inr u \<longleftrightarrow> b"
  by (simp add: require_def)

lemma check_all_Inr: "check_all rs = Inr () \<longleftrightarrow> (\<forall>r \<in> set rs. r = Inr ())"
  by (induction rs) (auto simp: bind_result_Inr_iff)

lemma text_ok_iff: "text_ok v n \<longleftrightarrow> (\<exists>s. v = JStr s \<and> 1 \<le> length s \<and> length s \<le> n)"
  by (cases v) (auto simp: text_ok_def)

lemma record_shape_sound:
  assumes "record_shape canon value required = Inr content"
  shows "\<exists>kvs. value = JObj kvs \<and> set required \<subseteq> fst ` set kvs \<and> validate_json value = Inr () \<and>
     canon (JObj (unsigned_fields kvs)) = Some content \<and> length content \<le> MAX_RECORD_BYTES \<and> map_of kvs ''fasp'' = Some (JStr PROTOCOL)"
  using assms
  by (cases "value")
     (auto simp: record_shape_def bind_result_Inr_iff split: if_splits option.splits json.splits)


definition demo_id :: string where
  "demo_id = ''fasp:system:AAAAAAAAAAAAAAAAAAAAAAAAAAAAAAAAAAAAAAAAAAA''"

definition demo_envelope :: "(string \<times> json) list" where
  "demo_envelope =
     [(''fasp'', JStr ''fasp/1.0''), (''kind'', JStr ''heartbeat''), (''message_id'', JStr ''m''), (''from'', JStr demo_id), (''to'', JStr demo_id),
      (''issued_at'', JStr (stamp 1704067200000)), (''expires_at'', JStr (stamp 1704067202500)), (''nonce'', JStr ''n''),
      (''payload'', JObj []), (''delivery'', JStr ''volatile''), (''receiver_instance'', JStr ''i''),
      (''required_features'', JList [JStr ''fasp.volatile.v1'']), (''signature'', JObj [(''alg'', JStr ''Ed25519''), (''kid'', JStr ''k''), (''value'', JStr (b64 [9]))])]"

lemma demo_envelope_accepted:
  "envelope_shape (\<lambda>_. Some []) (JObj demo_envelope) = Inr (1704067200000000, 1704067202500000, [])"
proof -
  have rep: "representable 1704067200000" "representable 1704067202500"
    by (simp_all add: representable_def DAY_MS_def epoch_ordinal_def ymd2ord_def days_before_year_def)
  have "validate_json (JObj demo_envelope) = Inr ()"
    by (simp add: validate_json_exact demo_envelope_def MAX_JSON_NODES_def MAX_JSON_DEPTH_def number_ok_def)
  then have rec: "record_shape (\<lambda>_. Some []) (JObj demo_envelope) envelope_fields = Inr []"
    by (simp add: record_shape_def demo_envelope_def envelope_fields_def MAX_RECORD_BYTES_def PROTOCOL_def)
  have "system_id_ok (JStr demo_id)"
    by (simp add: system_id_ok_def demo_id_def id_char_def char_sextet_def)
  moreover have "lifetime demo_envelope True = Inr (Some 1704067200000000, 1704067202500000)"
    using parse_stamp_stamp [OF rep(1)] parse_stamp_stamp [OF rep(2)]
    by (simp add: lifetime_def demo_envelope_def get_or_null_def timestamp_field_def require_def)
  moreover have "delivery_of demo_envelope = Inr True" by (simp add: delivery_of_def demo_envelope_def)
  moreover have "required_features demo_envelope = Inr ()"
    by (simp add: required_features_def features_of_def features_field_def demo_envelope_def require_def feature_ok_def feature_names_def
          SUPPORTED_FEATURES_def VOLATILE_FEATURE_def)
  moreover have "check_volatile demo_envelope 1704067200000000 1704067202500000 = Inr ()"
    by (simp add: check_volatile_def demo_envelope_def get_or_null_def VOLATILE_KINDS_def requires_volatile_def features_of_def
          VOLATILE_FEATURE_def require_def text_ok_def MAX_VOLATILE_LIFETIME_S_def)
  moreover have "get_or_null demo_envelope ''kind'' = JStr ''heartbeat''" "get_or_null demo_envelope ''message_id'' = JStr ''m''"
      "get_or_null demo_envelope ''nonce'' = JStr ''n''" "get_or_null demo_envelope ''from'' = JStr demo_id" "get_or_null demo_envelope ''to'' = JStr demo_id"
      "get_or_null demo_envelope ''payload'' = JObj []" "get_or_null demo_envelope ''conversation_id'' = JNull" "get_or_null demo_envelope ''causation_id'' = JNull"
    by (simp_all add: demo_envelope_def get_or_null_def)
  ultimately show ?thesis
    unfolding envelope_shape_def rec by (simp add: require_def text_ok_def text_if_given_def)
qed


section \<open>Scopes and the policy\<close>

lemma id_char_not_special: "id_char c \<Longrightarrow> c \<noteq> CHR ''*'' \<and> c \<noteq> CHR ''.''"
  by (auto simp: id_char_def char_sextet_def)

lemma scope_text_well_formed: "scope_text_ok s \<Longrightarrow> well_formed_name (normalize_scope s)"
  unfolding scope_text_ok_def well_formed_name_def
  by (fastforce simp: segment_ok_def list_all_iff dest: id_char_not_special)

text \<open>
  A scope list the contract admits is one the policy understands: every accepted scope names a well-formed capability prefix without
  wildcards, and it allows that very capability, so confirming a pairing never stores a scope that silently allows nothing.
\<close>

theorem admitted_scopes_are_effective:
  assumes "check_scopes (JList xs) = Inr ()" and "JStr s \<in> set xs"
  shows "well_formed_name (normalize_scope s) \<and> allows (normalize_scope s) [s]"
proof -
  have "scope_ok (JStr s)" using assms by (auto simp: check_scopes_def list_all_iff)
  then have wf: "well_formed_name (normalize_scope s)" using scope_text_well_formed by (simp add: scope_ok_def)
  then have "allows (normalize_scope s) [s]" by (simp add: allows_def matches_scope_alt)
  with wf show ?thesis ..
qed

theorem admitted_scopes_are_effective_witness: "allows (normalize_scope ''fleet.reserve.'') [''fleet.reserve.'']"
proof -
  have "check_scopes (JList [JStr ''fleet.reserve.'']) = Inr ()"
    by (simp add: check_scopes_def require_def scope_ok_def text_ok_def scope_text_ok_def normalize_scope_def id_char_def char_sextet_def)
  from admitted_scopes_are_effective [OF this] show ?thesis by simp
qed

text \<open>
  The operator's endpoint does not bound integers before it converts them: an integer of more than
  308 digits as the duration of a grant escapes as an overflow instead of a schema error.
\<close>

theorem operator_number_overflows:
  "operator_payload ''/grants/issue'' [(''subject_peer'', JStr ''p''), (''capability_prefixes'', JList []), (''duration_seconds'', JInt (2 ^ 1024))] =
   Inl OtherException"
  by (simp add: operator_payload_def operator_fields_def get_or_null_def text_ok_def check_scopes_def require_def check_number_def float_overflows_def)

end
