(* ===== verification/Ingress.thy ===== *)
theory Ingress
  imports Programs Contracts Trust Rate_Limit
begin

text \<open>
  The one door of the protocol: \<^verbatim>\<open>FaspHarness._verify_envelope\<close> and \<^verbatim>\<open>accept\<close> of \<^verbatim>\<open>src/fasp_harness/core.py\<close>,
  the durable inbox of \<^verbatim>\<open>storage/inbox_repo.py\<close> and the bounded replay window of \<^verbatim>\<open>protocol/volatile.py\<close>. The
  handlers are a parameter: a program over their own part of the state, the world, for every kind of
  message. Instants are in microseconds. Metrics are left out.
\<close>

section \<open>The durable inbox\<close>

record inbox_row =
  ib_message_id :: string
  ib_conversation_id :: json
  ib_causation_id :: json
  ib_from_peer :: string
  ib_kind :: string
  ib_issued_at :: int
  ib_received_at :: int
  ib_envelope :: "(string \<times> json) list"
  ib_response :: "json option"

definition text_field :: "(string \<times> json) list \<Rightarrow> string \<Rightarrow> string" where
  "text_field kvs k = (case map_of kvs k of Some (JStr s) \<Rightarrow> s | _ \<Rightarrow> '''')"

definition inbox_find :: "inbox_row list \<Rightarrow> string \<Rightarrow> inbox_row option" where
  "inbox_find rows mid = find (\<lambda>r. ib_message_id r = mid) rows"

definition row_of_envelope :: "(string \<times> json) list \<Rightarrow> int \<Rightarrow> int \<Rightarrow> json option \<Rightarrow> inbox_row" where
  "row_of_envelope env issued received response =
     \<lparr>ib_message_id = text_field env ''message_id'', ib_conversation_id = get_or_null env ''conversation_id'',
      ib_causation_id = get_or_null env ''causation_id'', ib_from_peer = text_field env ''from'', ib_kind = text_field env ''kind'',
      ib_issued_at = issued, ib_received_at = received, ib_envelope = env, ib_response = response\<rparr>"

definition insert_if_new ::
    "inbox_row list \<Rightarrow> (string \<times> json) list \<Rightarrow> int \<Rightarrow> int \<Rightarrow> json option \<Rightarrow> inbox_row list \<times> bool result" where
  "insert_if_new rows env issued received response =
     (case inbox_find rows (text_field env ''message_id'') of
        None \<Rightarrow> (rows @ [row_of_envelope env issued received response], Inr True)
      | Some r \<Rightarrow>
          if ib_from_peer r \<noteq> text_field env ''from'' \<or> \<not> py_eq (JObj (ib_envelope r)) (JObj env)
          then (rows, Inl (FaspError ''auth.replay_conflict'')) else (rows, Inr False))"

definition set_response :: "inbox_row list \<Rightarrow> string \<Rightarrow> json option \<Rightarrow> inbox_row list" where
  "set_response rows mid response = update_where (\<lambda>r. ib_message_id r = mid) (\<lambda>r. r\<lparr>ib_response := response\<rparr>) rows"

definition discard_unprocessed :: "inbox_row list \<Rightarrow> string \<Rightarrow> inbox_row list" where
  "discard_unprocessed rows mid = filter (\<lambda>r. \<not> (ib_message_id r = mid \<and> ib_response r = None)) rows"

definition get_response :: "inbox_row list \<Rightarrow> string \<Rightarrow> json option" where
  "get_response rows mid = (case inbox_find rows mid of None \<Rightarrow> None | Some r \<Rightarrow> ib_response r)"

text \<open>The cursor is a number of seconds.\<close>

definition pull_since :: "inbox_row list \<Rightarrow> string \<Rightarrow> rat \<Rightarrow> (string \<times> json) list list" where
  "pull_since rows from_peer cursor =
     map ib_envelope (filter (\<lambda>r. of_int (ib_issued_at r) > cursor * 1000000)
       (filter (\<lambda>r. ib_from_peer r = from_peer \<and> ib_kind r \<noteq> ''inbox.pull'') rows))"

section \<open>The volatile window\<close>

text \<open>The heap of expiries is the list of its entries in the order they leave it.\<close>

record VolatileInbox =
  vi_capacity :: nat
  vi_entries :: "(string \<times> string \<times> json) list"
  vi_expiry :: "(int \<times> string) list"

definition new_volatile :: "json \<Rightarrow> VolatileInbox result" where
  "new_volatile capacity =
     (case capacity of JInt c \<Rightarrow> if c < 1 then Inl ValueError else Inr \<lparr>vi_capacity = nat c, vi_entries = [], vi_expiry = []\<rparr> | _ \<Rightarrow> Inl ValueError)"

definition drop_expired :: "VolatileInbox \<Rightarrow> int \<Rightarrow> VolatileInbox" where
  "drop_expired vi current =
     vi\<lparr>vi_entries := filter (\<lambda>e. fst e \<notin> snd ` set (takeWhile (\<lambda>x. fst x \<le> current) (vi_expiry vi))) (vi_entries vi),
        vi_expiry := dropWhile (\<lambda>x. fst x \<le> current) (vi_expiry vi)\<rparr>"

text \<open>What the window says before the handler is called: an error, a recorded response, or nothing.\<close>

definition volatile_check :: "VolatileInbox \<Rightarrow> int \<Rightarrow> string \<Rightarrow> string \<Rightarrow> int \<Rightarrow> json option result" where
  "volatile_check vi current mid digest expires =
     (if expires \<le> current then Inl (FaspError ''auth.envelope_expired'')
      else case map_of (vi_entries vi) mid of
             Some (d, response) \<Rightarrow> if d \<noteq> digest then Inl (FaspError ''auth.replay_conflict'') else Inr (Some response)
           | None \<Rightarrow> if length (vi_entries vi) \<ge> vi_capacity vi then Inl (FaspError ''resource.exhausted'') else Inr None)"

definition volatile_record :: "VolatileInbox \<Rightarrow> string \<Rightarrow> string \<Rightarrow> int \<Rightarrow> json \<Rightarrow> VolatileInbox" where
  "volatile_record vi mid digest expires response =
     vi\<lparr>vi_entries := (mid, digest, response) # vi_entries vi, vi_expiry := insort_key fst (expires, mid) (vi_expiry vi)\<rparr>"

definition volatile_accept ::
    "VolatileInbox \<Rightarrow> int \<Rightarrow> string \<Rightarrow> string \<Rightarrow> int \<Rightarrow> ('w \<Rightarrow> 'w \<times> json result) \<Rightarrow> 'w \<Rightarrow> VolatileInbox \<times> 'w \<times> (bool \<times> json) result" where
  "volatile_accept vi current mid digest expires handle w =
     (let vi1 = drop_expired vi current
      in case volatile_check vi1 current mid digest expires of
           Inl e \<Rightarrow> (vi1, w, Inl e)
         | Inr (Some response) \<Rightarrow> (vi1, w, Inr (True, response))
         | Inr None \<Rightarrow>
             (case handle w of
                (w', Inl e) \<Rightarrow> (vi1, w', Inl e)
              | (w', Inr response) \<Rightarrow> (volatile_record vi1 mid digest expires response, w', Inr (False, response))))"

definition volatile_clear :: "VolatileInbox \<Rightarrow> VolatileInbox" where
  "volatile_clear vi = vi\<lparr>vi_entries := [], vi_expiry := []\<rparr>"

section \<open>The harness at its door\<close>

text \<open>How a handler ends: an answer, a refusal for lack of capacity before any effect, another protocol error, or any other exception.\<close>

datatype handler_outcome = Answer json | Refused | FailedWith string | Crashed exn

record ('h, 'w) ingress =
  ig_now :: int
  ig_monotonic :: rat
  ig_trust :: "'h trust_db"
  ig_limiter :: TokenBucketLimiter
  ig_volatile_limiter :: TokenBucketLimiter
  ig_inbox :: "inbox_row list"
  ig_inflight :: "string set"
  ig_volatile :: VolatileInbox
  ig_world :: 'w

record 'w door =
  dr_system_id :: string
  dr_instance_id :: string
  dr_canon :: "json \<Rightarrow> bytes option"
  dr_ed_verify :: "bytes \<Rightarrow> bytes \<Rightarrow> bytes \<Rightarrow> bool"
  dr_digest :: "bytes \<Rightarrow> string"
  dr_handler :: "string \<Rightarrow> (string \<times> json) list \<Rightarrow> authentication_view \<Rightarrow> ('w, handler_outcome) prog"

definition DISPATCH :: "string list" where
  "DISPATCH =
     [''intent.propose'', ''task.cancel'', ''task.status'', ''artifact.fetch'', ''inbox.pull'', ''receipt.processed'',
      ''stream.open'', ''stream.packet'', ''stream.pull'', ''stream.subscribe'', ''stream.unsubscribe'', ''stream.close'',
      ''reservation.request'', ''reservation.release'', ''safety.halt'', ''safety.status'', ''safety.evidence'',
      ''mission.dispatch'', ''mission.cancel'', ''mission.status'', ''fleet.status'', ''incident.report'', ''heartbeat'']"

definition see :: "(('h, 'w) ingress \<Rightarrow> 'a) \<Rightarrow> (('h, 'w) ingress, 'a) prog" where
  "see f = atomic (\<lambda>s. (s, f s))"

primrec on_world :: "('w, 'r) prog \<Rightarrow> (('h, 'w) ingress, 'r) prog" where
  "on_world (Done r) = Done r"
| "on_world (Act f) = Act (\<lambda>s. (\<lambda>(w, p). (s\<lparr>ig_world := w\<rparr>, p)) (map_prod id on_world (f (ig_world s))))"

section \<open>Verification\<close>

definition check_times :: "'w door \<Rightarrow> (string \<times> json) list \<Rightarrow> bool \<Rightarrow> int \<Rightarrow> int \<Rightarrow> int \<Rightarrow> unit result" where
  "check_times d env volatile issued expires current =
     bind_result (guard_else (\<not> (expires \<le> current \<or> issued > current + MAX_CLOCK_SKEW_SECONDS * 1000000)) (FaspError ''auth.envelope_expired'')) (\<lambda>_.
     if \<not> volatile then Inr ()
     else bind_result (guard_else (get_or_null env ''receiver_instance'' = JStr (dr_instance_id d)) (FaspError ''auth.wrong_instance'')) (\<lambda>_.
          guard_else (expires \<le> current + MAX_VOLATILE_LIFETIME_S * 1000000) (FaspError ''auth.envelope_expired'')))"

definition is_volatile :: "(string \<times> json) list \<Rightarrow> bool" where
  "is_volatile env = (map_of env ''delivery'' = Some (JStr ''volatile''))"

definition check_signature :: "'w door \<Rightarrow> (string \<times> json) list \<Rightarrow> bytes \<Rightarrow> authentication_view \<Rightarrow> unit result" where
  "check_signature d env content peer =
     (case av_public_key peer of
        None \<Rightarrow> Inl TypeError
      | Some key \<Rightarrow> verify_canonical (dr_ed_verify d) env key content (av_kid peer))"

definition take_token :: "bool \<Rightarrow> string \<Rightarrow> (('h, 'w) ingress, bool) prog" where
  "take_token volatile peer_id =
     atomic (\<lambda>s. if volatile
       then (case allow (ig_volatile_limiter s) (ig_monotonic s) peer_id of (l, ok) \<Rightarrow> (s\<lparr>ig_volatile_limiter := l\<rparr>, ok))
       else (case allow (ig_limiter s) (ig_monotonic s) peer_id of (l, ok) \<Rightarrow> (s\<lparr>ig_limiter := l\<rparr>, ok)))"

definition verify_envelope ::
    "'w door \<Rightarrow> json \<Rightarrow> (('h, 'w) ingress, ((string \<times> json) list \<times> authentication_view \<times> int \<times> int \<times> bytes) result) prog" where
  "verify_envelope d value =
     (case (envelope_shape (dr_canon d) value, value) of
        (Inl e, _) \<Rightarrow> Done (Inl e)
      | (Inr (issued, expires, content), JObj env) \<Rightarrow>
          if get_or_null env ''to'' \<noteq> JStr (dr_system_id d) then Done (Inl (FaspError ''auth.wrong_audience''))
          else bind_prog (see ig_now) (\<lambda>current.
            case check_times d env (is_volatile env) issued expires current of
              Inl e \<Rightarrow> Done (Inl e)
            | Inr u \<Rightarrow>
                bind_prog (see (\<lambda>s. harness_peer (ig_trust s) (ig_now s div 1000) (text_field env ''from''))) (\<lambda>peer.
                case peer of
                  Inl e \<Rightarrow> Done (Inl e)
                | Inr p \<Rightarrow>
                    (case check_signature d env content p of
                       Inl e \<Rightarrow> Done (Inl e)
                     | Inr u' \<Rightarrow>
                         bind_prog (take_token (is_volatile env) (text_field env ''from'')) (\<lambda>ok.
                         Done (if ok then Inr (env, p, issued, expires, content) else Inl (FaspError ''resource.exhausted''))))))
      | (Inr _, _) \<Rightarrow> Done (Inl TypeError))"

section \<open>Acceptance\<close>

definition claim_message :: "string \<Rightarrow> (('h, 'w) ingress, bool) prog" where
  "claim_message mid =
     atomic (\<lambda>s. if mid \<in> ig_inflight s then (s, False) else (s\<lparr>ig_inflight := insert mid (ig_inflight s)\<rparr>, True))"

definition release_message :: "string \<Rightarrow> (('h, 'w) ingress, unit) prog" where
  "release_message mid = atomic (\<lambda>s. (s\<lparr>ig_inflight := ig_inflight s - {mid}\<rparr>, ()))"

definition recorded :: "string \<Rightarrow> (('h, 'w) ingress, json option) prog" where
  "recorded mid = see (\<lambda>s. get_response (ig_inbox s) mid)"

definition admit :: "(string \<times> json) list \<Rightarrow> int \<Rightarrow> json option \<Rightarrow> (('h, 'w) ingress, bool result) prog" where
  "admit env issued response =
     atomic (\<lambda>s. case insert_if_new (ig_inbox s) env issued (ig_now s) response of (rows, r) \<Rightarrow> (s\<lparr>ig_inbox := rows\<rparr>, r))"

definition change_inbox :: "(inbox_row list \<Rightarrow> inbox_row list) \<Rightarrow> (('h, 'w) ingress, unit) prog" where
  "change_inbox f = atomic (\<lambda>s. (s\<lparr>ig_inbox := f (ig_inbox s)\<rparr>, ()))"

definition protocol_error :: "string \<Rightarrow> json" where
  "protocol_error code = JObj [(''type'', JStr ''protocol.error''), (''error'', JObj [(''code'', JStr code)])]"

text \<open>The handler and what is recorded of its end; the claim is released in every case.\<close>

definition dispatch_claimed ::
    "string \<Rightarrow> bool \<Rightarrow> ('w, handler_outcome) prog \<Rightarrow> (('h, 'w) ingress, (bool \<times> json option) result) prog" where
  "dispatch_claimed mid inserted handler =
     bind_prog (on_world handler) (\<lambda>outcome.
     case outcome of
       Refused \<Rightarrow>
         bind_prog (change_inbox (\<lambda>rows. discard_unprocessed rows mid)) (\<lambda>_.
         bind_prog (release_message mid) (\<lambda>_. Done (Inl AdmissionRejected)))
     | FailedWith code \<Rightarrow>
         bind_prog (change_inbox (\<lambda>rows. set_response rows mid (Some (protocol_error code)))) (\<lambda>_.
         bind_prog (release_message mid) (\<lambda>_. Done (Inl (FaspError code))))
     | Crashed e \<Rightarrow> bind_prog (release_message mid) (\<lambda>_. Done (Inl e))
     | Answer response \<Rightarrow>
         bind_prog (change_inbox (\<lambda>rows. set_response rows mid (Some response))) (\<lambda>_.
         bind_prog (release_message mid) (\<lambda>_. Done (Inr (\<not> inserted, Some response)))))"

definition accept_durable ::
    "(string \<times> json) list \<Rightarrow> int \<Rightarrow> ('w, handler_outcome) prog \<Rightarrow> (('h, 'w) ingress, (bool \<times> json option) result) prog" where
  "accept_durable env issued handler =
     (let mid = text_field env ''message_id'' in
      bind_prog (claim_message mid) (\<lambda>claimed.
      if \<not> claimed then bind_prog (recorded mid) (\<lambda>r. Done (Inr (True, r)))
      else bind_prog (admit env issued None) (\<lambda>inserted.
        case inserted of
          Inl e \<Rightarrow> bind_prog (release_message mid) (\<lambda>_. Done (Inl e))
        | Inr True \<Rightarrow> dispatch_claimed mid True handler
        | Inr False \<Rightarrow>
            bind_prog (recorded mid) (\<lambda>r.
            case r of
              Some response \<Rightarrow> bind_prog (release_message mid) (\<lambda>_. Done (Inr (True, Some response)))
            | None \<Rightarrow> dispatch_claimed mid False handler))))"

definition heartbeat_response :: "int \<Rightarrow> json" where
  "heartbeat_response t = JObj [(''type'', JStr ''heartbeat''), (''server_time'', JStr (stamp (t div 1000)))]"

definition accept_heartbeat :: "(string \<times> json) list \<Rightarrow> int \<Rightarrow> (('h, 'w) ingress, (bool \<times> json option) result) prog" where
  "accept_heartbeat env issued =
     bind_prog (see ig_now) (\<lambda>t.
     bind_prog (admit env issued (Some (heartbeat_response t))) (\<lambda>inserted.
     case inserted of
       Inl e \<Rightarrow> Done (Inl e)
     | Inr True \<Rightarrow> Done (Inr (False, Some (heartbeat_response t)))
     | Inr False \<Rightarrow> bind_prog (recorded (text_field env ''message_id'')) (\<lambda>r. Done (Inr (True, r)))))"

text \<open>The handler of a volatile message runs inside the lock of the window, here as one action.\<close>

fun outcome_result :: "handler_outcome \<Rightarrow> json result" where
  "outcome_result (Answer v) = Inr v"
| "outcome_result Refused = Inl AdmissionRejected"
| "outcome_result (FailedWith code) = Inl (FaspError code)"
| "outcome_result (Crashed e) = Inl e"

definition accept_volatile ::
    "'w door \<Rightarrow> (string \<times> json) list \<Rightarrow> int \<Rightarrow> bytes \<Rightarrow> ('w, handler_outcome) prog \<Rightarrow> (('h, 'w) ingress, (bool \<times> json option) result) prog" where
  "accept_volatile d env expires content handler =
     atomic (\<lambda>s. case volatile_accept (ig_volatile s) (ig_now s) (text_field env ''message_id'') (dr_digest d content) expires
                       (\<lambda>w. case run_prog handler w of (w', o') \<Rightarrow> (w', outcome_result o')) (ig_world s) of
                   (vi, w, r) \<Rightarrow> (s\<lparr>ig_volatile := vi, ig_world := w\<rparr>, map_sum id (\<lambda>(dup, v). (dup, Some v)) r))"

definition payload_of :: "(string \<times> json) list \<Rightarrow> (string \<times> json) list" where
  "payload_of env = (case map_of env ''payload'' of Some (JObj p) \<Rightarrow> p | _ \<Rightarrow> [])"

definition check_kind :: "string option \<Rightarrow> (string \<times> json) list \<Rightarrow> unit result" where
  "check_kind expected_kind env =
     (let kind = text_field env ''kind'' in
      bind_result (guard_else (case expected_kind of None \<Rightarrow> True | Some k \<Rightarrow> kind = k) (FaspError ''protocol.unsupported_kind'')) (\<lambda>_.
      bind_result (guard_else (kind \<in> set DISPATCH) (FaspError ''protocol.unsupported_kind'')) (\<lambda>_.
      bind_result (payload_shape kind (payload_of env)) (\<lambda>_.
      guard_else (\<not> (kind = ''stream.open'' \<and> get_or_null (payload_of env) ''storage'' = JStr ''memory'' \<and> \<not> requires_volatile env))
        (FaspError ''protocol.unsupported_delivery'')))))"

definition accept ::
    "'w door \<Rightarrow> json \<Rightarrow> string option \<Rightarrow> (('h, 'w) ingress, (bool \<times> json option) result) prog" where
  "accept d value expected_kind =
     bind_prog (verify_envelope d value) (\<lambda>v.
     case v of
       Inl e \<Rightarrow> Done (Inl e)
     | Inr (env, peer, issued, expires, content) \<Rightarrow>
         (case check_kind expected_kind env of
            Inl e \<Rightarrow> Done (Inl e)
          | Inr u \<Rightarrow>
              let handler = dr_handler d (text_field env ''kind'') env peer in
              if is_volatile env then accept_volatile d env expires content handler
              else if text_field env ''kind'' = ''heartbeat'' then accept_heartbeat env issued
              else accept_durable env issued handler))"

section \<open>Delivery and replay\<close>

lemma run_see [simp]: "run_prog (see f) s = (s, f s)"
  by (simp add: see_def)

lemma run_on_world [simp]:
  "run_prog (on_world p) s = (s\<lparr>ig_world := fst (run_prog p (ig_world s))\<rparr>, snd (run_prog p (ig_world s)))"
proof (induction p arbitrary: s)
  case (Done r)
  show ?case by simp
next
  case (Act f)
  obtain w p where f: "f (ig_world s) = (w, p)" by (cases "f (ig_world s)")
  then have "(w, p) \<in> range f" by (metis rangeI)
  then have "run_prog (on_world p) (s\<lparr>ig_world := w\<rparr>) =
      ((s\<lparr>ig_world := w\<rparr>)\<lparr>ig_world := fst (run_prog p w)\<rparr>, snd (run_prog p w))"
    using Act.IH [of "(w, p)" p "s\<lparr>ig_world := w\<rparr>"] by (simp add: snds.intros)
  with f show ?case by (simp add: split_beta)
qed

lemma inbox_find_None: "inbox_find rows mid = None \<longleftrightarrow> (\<forall>r \<in> set rows. ib_message_id r \<noteq> mid)"
  by (simp add: inbox_find_def find_None_all)

lemma inbox_find_snoc:
  "inbox_find rows mid = None \<Longrightarrow> ib_message_id r = mid \<Longrightarrow> inbox_find (rows @ [r]) mid = Some r"
  by (simp add: inbox_find_def find_append)

lemma set_response_snoc:
  "inbox_find rows mid = None \<Longrightarrow> ib_message_id r = mid \<Longrightarrow> set_response (rows @ [r]) mid v = rows @ [r\<lparr>ib_response := v\<rparr>]"
  by (auto simp: set_response_def update_where_def inbox_find_None intro: map_idI)

lemma discard_snoc:
  "inbox_find rows mid = None \<Longrightarrow> ib_message_id r = mid \<Longrightarrow> ib_response r = None \<Longrightarrow> discard_unprocessed (rows @ [r]) mid = rows"
  by (auto simp: discard_unprocessed_def inbox_find_None filter_id_conv)

lemma row_of_envelope_fields [simp]:
  "ib_message_id (row_of_envelope env i t v) = text_field env ''message_id''" "ib_from_peer (row_of_envelope env i t v) = text_field env ''from''"
  "ib_envelope (row_of_envelope env i t v) = env" "ib_response (row_of_envelope env i t v) = v"
  by (simp_all add: row_of_envelope_def)

text \<open>What is left in the inbox after a first delivery: the row with its response, the bare row of a crash, or nothing.\<close>

definition recorded_rows :: "inbox_row list \<Rightarrow> inbox_row \<Rightarrow> handler_outcome \<Rightarrow> inbox_row list" where
  "recorded_rows rows row outcome =
     (case outcome of
        Answer v \<Rightarrow> rows @ [row\<lparr>ib_response := Some v\<rparr>]
      | FailedWith code \<Rightarrow> rows @ [row\<lparr>ib_response := Some (protocol_error code)\<rparr>]
      | Crashed e \<Rightarrow> rows @ [row]
      | Refused \<Rightarrow> rows)"

text \<open>
  C5. A first delivery runs its handler once and records how it ended: the answer or the protocol error with the message, the message
  alone after a crash, and nothing at all after a refusal for lack of capacity, so that the sender may retry the same envelope.
\<close>

theorem first_delivery:
  assumes "text_field env ''message_id'' = mid" and "mid \<notin> ig_inflight s" and "inbox_find (ig_inbox s) mid = None"
    and "run_prog handler (ig_world s) = (w, outcome)"
  shows "run_prog (accept_durable env issued handler) s =
     (s\<lparr>ig_world := w, ig_inbox := recorded_rows (ig_inbox s) (row_of_envelope env issued (ig_now s) None) outcome\<rparr>,
      map_sum id (\<lambda>v. (False, Some v)) (outcome_result outcome))"
proof -
  have inflight: "insert mid (ig_inflight s) - {mid} = ig_inflight s" using assms(2) by simp
  show ?thesis
    using assms(1,3,4) assms(2)
    by (cases outcome)
       (simp_all add: accept_durable_def Let_def claim_message_def admit_def insert_if_new_def dispatch_claimed_def change_inbox_def
          release_message_def set_response_snoc discard_snoc recorded_rows_def inflight)
qed

text \<open>
  A replay is answered from the record: when the same envelope arrives again from the same peer after its outcome was recorded, it
  gets exactly that response, marked as a duplicate, and nothing in the state changes: no handler runs.
\<close>

theorem replay_answered_from_record:
  assumes "text_field env ''message_id'' = mid" and "mid \<notin> ig_inflight s"
    and "inbox_find (ig_inbox s) mid = Some r" and "ib_response r = Some v"
    and "ib_from_peer r = text_field env ''from''" and "py_eq (JObj (ib_envelope r)) (JObj env)"
  shows "run_prog (accept_durable env issued handler) s = (s, Inr (True, Some v))"
proof -
  have inflight: "insert mid (ig_inflight s) - {mid} = ig_inflight s" using assms(2) by simp
  show ?thesis
    using assms(1-6)
    by (simp add: accept_durable_def Let_def claim_message_def admit_def insert_if_new_def recorded_def get_response_def release_message_def inflight)
qed

text \<open>A message identifier that is bound to another envelope is refused without any change.\<close>

theorem replay_conflict_refused:
  assumes "text_field env ''message_id'' = mid" and "mid \<notin> ig_inflight s" and "inbox_find (ig_inbox s) mid = Some r"
    and "ib_from_peer r \<noteq> text_field env ''from'' \<or> \<not> py_eq (JObj (ib_envelope r)) (JObj env)"
  shows "run_prog (accept_durable env issued handler) s = (s, Inl (FaspError ''auth.replay_conflict''))"
proof -
  have inflight: "insert mid (ig_inflight s) - {mid} = ig_inflight s" using assms(2) by simp
  show ?thesis
    using assms(1-4)
    by (simp add: accept_durable_def Let_def claim_message_def admit_def insert_if_new_def release_message_def inflight)
qed

text \<open>
  While a message is being dispatched, any envelope with its identifier is answered from the record without
  comparing the two: after the response is written and before the claim is released, another peer that
  sends the same identifier is given the first peer's response.
\<close>

theorem inflight_answer_skips_conflict_check:
  assumes "text_field env ''message_id'' = mid" and "mid \<in> ig_inflight s"
    and "inbox_find (ig_inbox s) mid = Some r" and "ib_response r = Some v"
  shows "run_prog (accept_durable env issued handler) s = (s, Inr (True, Some v))"
  using assms by (simp add: accept_durable_def Let_def claim_message_def recorded_def get_response_def)

definition demo_state :: "inbox_row list \<Rightarrow> string set \<Rightarrow> (nat, nat) ingress" where
  "demo_state rows busy =
     \<lparr>ig_now = 5, ig_monotonic = 0, ig_trust = trust_empty, ig_limiter = demo_limiter, ig_volatile_limiter = demo_limiter,
      ig_inbox = rows, ig_inflight = busy, ig_volatile = \<lparr>vi_capacity = 2, vi_entries = [], vi_expiry = []\<rparr>, ig_world = 0\<rparr>"

definition demo_message :: "(string \<times> json) list" where
  "demo_message = [(''message_id'', JStr ''m''), (''from'', JStr ''p''), (''kind'', JStr ''task.status'')]"

definition demo_count :: "(nat, handler_outcome) prog" where
  "demo_count = atomic (\<lambda>n. (n + 1, Answer (JInt 7)))"

theorem first_delivery_witness:
  "ig_world (fst (run_prog (accept_durable demo_message 0 demo_count) (demo_state [] {}))) = 1"
  using first_delivery [of demo_message "''m''" "demo_state [] {}" demo_count 1 "Answer (JInt 7)" 0]
  by (simp add: demo_message_def text_field_def demo_state_def inbox_find_def demo_count_def)

theorem replay_answered_from_record_witness:
  "run_prog (accept_durable demo_message 0 demo_count) (demo_state [row_of_envelope demo_message 0 5 (Some (JInt 7))] {}) =
   (demo_state [row_of_envelope demo_message 0 5 (Some (JInt 7))] {}, Inr (True, Some (JInt 7)))"
  by (rule replay_answered_from_record [where mid = "''m''" and r = "row_of_envelope demo_message 0 5 (Some (JInt 7))"])
     (simp_all add: demo_message_def text_field_def demo_state_def inbox_find_def)

section \<open>The volatile window\<close>

definition volatile_inv :: "nat \<Rightarrow> VolatileInbox \<Rightarrow> bool" where
  "volatile_inv cap vi \<longleftrightarrow>
     vi_capacity vi = cap \<and> length (vi_entries vi) \<le> cap \<and> distinct (map fst (vi_entries vi)) \<and> distinct (map snd (vi_expiry vi)) \<and>
     sorted (map fst (vi_expiry vi)) \<and> fst ` set (vi_entries vi) = snd ` set (vi_expiry vi)"

lemma sorted_split:
  "sorted (map fst xs) \<Longrightarrow> takeWhile (\<lambda>x. fst x \<le> t) xs = filter (\<lambda>x. fst x \<le> t) xs \<and> dropWhile (\<lambda>x. fst x \<le> t) xs = filter (\<lambda>x. t < fst x) xs"
  for xs :: "(int \<times> 'a) list"
proof (induction xs)
  case Nil
  show ?case by simp
next
  case (Cons x xs)
  show ?case
  proof (cases "fst x \<le> t")
    case True
    with Cons show ?thesis by simp
  next
    case False
    then have "\<forall>y \<in> set xs. t < fst y" using Cons.prems by fastforce
    with False show ?thesis by (simp add: filter_empty_conv filter_id_conv not_le [symmetric])
  qed
qed

lemma drop_expired_alt:
  assumes "sorted (map fst (vi_expiry vi))"
  shows "drop_expired vi t =
     vi\<lparr>vi_entries := filter (\<lambda>e. \<not> (\<exists>x \<in> set (vi_expiry vi). fst x \<le> t \<and> snd x = fst e)) (vi_entries vi),
        vi_expiry := filter (\<lambda>x. t < fst x) (vi_expiry vi)\<rparr>"
proof -
  have "fst e \<notin> snd ` set (takeWhile (\<lambda>x. fst x \<le> t) (vi_expiry vi)) \<longleftrightarrow> \<not> (\<exists>x \<in> set (vi_expiry vi). fst x \<le> t \<and> snd x = fst e)" for e :: "string \<times> string \<times> json"
    using sorted_split [OF assms, of t] by force
  then show ?thesis using sorted_split [OF assms, of t] by (simp add: drop_expired_def)
qed

lemma drop_expired_inv:
  assumes "volatile_inv cap vi"
  shows "volatile_inv cap (drop_expired vi t)"
proof -
  have s: "sorted (map fst (vi_expiry vi))" and ids: "fst ` set (vi_entries vi) = snd ` set (vi_expiry vi)"
    and d: "distinct (map snd (vi_expiry vi))" using assms by (simp_all add: volatile_inv_def)
  have one: "x = y" if "x \<in> set (vi_expiry vi)" "y \<in> set (vi_expiry vi)" "snd x = snd y" for x y
    using d that unfolding distinct_map by (blast dest: inj_onD)
  have "k \<in> fst ` {e \<in> set (vi_entries vi). \<not> (\<exists>x \<in> set (vi_expiry vi). fst x \<le> t \<and> snd x = fst e)} \<longleftrightarrow>
        k \<in> snd ` {x \<in> set (vi_expiry vi). t < fst x}" for k
  proof
    assume "k \<in> fst ` {e \<in> set (vi_entries vi). \<not> (\<exists>x \<in> set (vi_expiry vi). fst x \<le> t \<and> snd x = fst e)}"
    then have "k \<in> snd ` set (vi_expiry vi)" and "\<not> (\<exists>x \<in> set (vi_expiry vi). fst x \<le> t \<and> snd x = k)" using ids by auto
    then show "k \<in> snd ` {x \<in> set (vi_expiry vi). t < fst x}" by (auto simp: not_le)
  next
    assume "k \<in> snd ` {x \<in> set (vi_expiry vi). t < fst x}"
    then obtain x where x: "x \<in> set (vi_expiry vi)" "t < fst x" "k = snd x" by auto
    then have "k \<in> fst ` set (vi_entries vi)" using ids by auto
    moreover have "\<not> (\<exists>y \<in> set (vi_expiry vi). fst y \<le> t \<and> snd y = k)"
    proof
      assume "\<exists>y \<in> set (vi_expiry vi). fst y \<le> t \<and> snd y = k"
      then obtain y where "y \<in> set (vi_expiry vi)" "fst y \<le> t" "snd y = k" by blast
      with one [of x y] x show False by simp
    qed
    ultimately show "k \<in> fst ` {e \<in> set (vi_entries vi). \<not> (\<exists>x \<in> set (vi_expiry vi). fst x \<le> t \<and> snd x = fst e)}" by auto
  qed
  then have "fst ` set (vi_entries (drop_expired vi t)) = snd ` set (vi_expiry (drop_expired vi t))"
    unfolding drop_expired_alt [OF s] by (simp add: set_eq_iff)
  moreover have "length (vi_entries (drop_expired vi t)) \<le> cap"
    using assms unfolding drop_expired_alt [OF s] volatile_inv_def by (auto intro: order_trans [OF length_filter_le])
  moreover have "vi_capacity (drop_expired vi t) = cap" "distinct (map fst (vi_entries (drop_expired vi t)))"
    "distinct (map snd (vi_expiry (drop_expired vi t)))" "sorted (map fst (vi_expiry (drop_expired vi t)))"
    using assms unfolding drop_expired_alt [OF s] volatile_inv_def by (simp_all add: distinct_map_filter sorted_filter)
  ultimately show ?thesis by (simp add: volatile_inv_def)
qed

lemma volatile_record_inv:
  assumes "volatile_inv cap vi" and "volatile_check vi t mid digest expires = Inr None"
  shows "volatile_inv cap (volatile_record vi mid digest expires v)"
proof -
  have "map_of (vi_entries vi) mid = None" "length (vi_entries vi) < vi_capacity vi"
    using assms(2) by (auto simp: volatile_check_def split: if_splits option.splits)
  then have new: "mid \<notin> fst ` set (vi_entries vi)" "mid \<notin> snd ` set (vi_expiry vi)" "length (vi_entries vi) < cap"
    using assms(1) by (auto simp: map_of_eq_None_iff volatile_inv_def)
  have "distinct (map snd (insort_key fst (expires, mid) xs)) \<longleftrightarrow> distinct (map snd xs) \<and> mid \<notin> snd ` set xs" for xs :: "(int \<times> string) list"
    by (induction xs) (auto simp: set_insort_key)
  with assms(1) new show ?thesis
    by (auto simp: volatile_inv_def volatile_record_def set_insort_key sorted_insort_key)
qed

lemma volatile_accept_inv:
  assumes "volatile_inv cap vi"
  shows "volatile_inv cap (fst (volatile_accept vi t mid digest expires handle w))"
proof -
  have i: "volatile_inv cap (drop_expired vi t)" using assms by (rule drop_expired_inv)
  show ?thesis
  proof (cases "volatile_check (drop_expired vi t) t mid digest expires = Inr None")
    case True
    with i volatile_record_inv [OF i True] show ?thesis
      by (auto simp: volatile_accept_def Let_def split: prod.split sum.split)
  next
    case False
    with i show ?thesis by (auto simp: volatile_accept_def Let_def split: sum.split option.split)
  qed
qed

text \<open>Any use of the window before a time; what the handler does elsewhere does not matter to the window.\<close>

inductive volatile_use :: "int \<Rightarrow> VolatileInbox \<Rightarrow> VolatileInbox \<Rightarrow> bool" for limit where
  "t < limit \<Longrightarrow> volatile_use limit vi (fst (volatile_accept vi t mid digest expires (\<lambda>_. ((), reply)) ()))"

definition holds_entry :: "nat \<Rightarrow> string \<Rightarrow> string \<Rightarrow> int \<Rightarrow> json \<Rightarrow> VolatileInbox \<Rightarrow> bool" where
  "holds_entry cap mid digest expires v vi \<longleftrightarrow>
     volatile_inv cap vi \<and> map_of (vi_entries vi) mid = Some (digest, v) \<and> (expires, mid) \<in> set (vi_expiry vi)"

lemma drop_keeps_entry:
  assumes "holds_entry cap mid digest expires v vi" and "t < expires"
  shows "holds_entry cap mid digest expires v (drop_expired vi t)"
proof -
  have inv: "volatile_inv cap vi" and m: "map_of (vi_entries vi) mid = Some (digest, v)" and e: "(expires, mid) \<in> set (vi_expiry vi)"
    using assms(1) by (simp_all add: holds_entry_def)
  have s: "sorted (map fst (vi_expiry vi))" and d: "distinct (map snd (vi_expiry vi))" and de: "distinct (map fst (vi_entries vi))"
    using inv by (simp_all add: volatile_inv_def)
  have "fst x = expires" if "x \<in> set (vi_expiry vi)" "snd x = mid" for x
  proof -
    have "inj_on snd (set (vi_expiry vi))" using d by (simp add: distinct_map)
    then have "x = (expires, mid)" by (rule inj_onD) (use that e in simp_all)
    then show ?thesis by simp
  qed
  then have keep: "\<not> (\<exists>x \<in> set (vi_expiry vi). fst x \<le> t \<and> snd x = mid)" using assms(2) by fastforce
  have "(mid, digest, v) \<in> set (vi_entries (drop_expired vi t))"
    unfolding drop_expired_alt [OF s] using map_of_SomeD [OF m] keep by simp
  moreover have "distinct (map fst (vi_entries (drop_expired vi t)))"
    unfolding drop_expired_alt [OF s] using de by (simp add: distinct_map_filter)
  ultimately have "map_of (vi_entries (drop_expired vi t)) mid = Some (digest, v)" by simp
  moreover have "(expires, mid) \<in> set (vi_expiry (drop_expired vi t))"
    unfolding drop_expired_alt [OF s] using e assms(2) by simp
  ultimately show ?thesis using drop_expired_inv [OF inv] by (simp add: holds_entry_def)
qed

lemma record_keeps_entry:
  assumes "holds_entry cap mid digest expires v vi" and "volatile_check vi t mid' digest' expires' = Inr None"
  shows "holds_entry cap mid digest expires v (volatile_record vi mid' digest' expires' v')"
proof -
  have "mid' \<noteq> mid" using assms by (auto simp: holds_entry_def volatile_check_def split: if_splits)
  with assms volatile_record_inv [of cap vi t mid' digest' expires' v'] show ?thesis
    by (auto simp: holds_entry_def volatile_record_def set_insort_key)
qed

lemma use_keeps_entry:
  assumes "volatile_use expires vi vi'" and "holds_entry cap mid digest expires v vi"
  shows "holds_entry cap mid digest expires v vi'"
  using assms(1)
proof cases
  case (1 t mid' digest' expires' reply)
  have h: "holds_entry cap mid digest expires v (drop_expired vi t)" using drop_keeps_entry [OF assms(2) 1(2)] .
  show ?thesis
  proof (cases "volatile_check (drop_expired vi t) t mid' digest' expires' = Inr None")
    case True
    with h record_keeps_entry [OF h True] show ?thesis
      unfolding 1(1) by (auto simp: volatile_accept_def Let_def split: prod.split sum.split)
  next
    case False
    with h show ?thesis unfolding 1(1) by (auto simp: volatile_accept_def Let_def split: sum.split option.split)
  qed
qed

lemma uses_keep_entry:
  "(volatile_use expires)\<^sup>*\<^sup>* vi vi' \<Longrightarrow> holds_entry cap mid digest expires v vi \<Longrightarrow> holds_entry cap mid digest expires v vi'"
  by (induction rule: rtranclp_induct) (auto dest: use_keeps_entry)

text \<open>
  The volatile window never handles a message twice within its lifetime: after a message was accepted, and whatever else the window
  sees before that message expires, a repetition with the same content returns the first response without calling the handler and a
  repetition with other content is refused; and the window never holds more than its capacity.
\<close>

theorem volatile_no_double_handling:
  assumes "volatile_inv cap vi" and "volatile_accept vi t mid digest expires handle w = (vi1, w1, Inr (False, v))"
    and "(volatile_use expires)\<^sup>*\<^sup>* vi1 vi2" and "t2 < expires" and "t2 < expires2"
  shows "length (vi_entries vi2) \<le> cap \<and>
     snd (volatile_accept vi2 t2 mid digest2 expires2 handle2 w2) =
       (w2, if digest2 = digest then Inr (True, v) else Inl (FaspError ''auth.replay_conflict''))"
proof -
  have c: "volatile_check (drop_expired vi t) t mid digest expires = Inr None" and vi1: "vi1 = volatile_record (drop_expired vi t) mid digest expires v"
    using assms(2) by (auto simp: volatile_accept_def Let_def split: sum.splits option.splits prod.splits)
  have "holds_entry cap mid digest expires v vi1"
    using volatile_record_inv [OF drop_expired_inv [OF assms(1)] c, of v] unfolding vi1 holds_entry_def
    by (simp add: volatile_record_def set_insort_key)
  then have h: "holds_entry cap mid digest expires v vi2" using uses_keep_entry [OF assms(3)] by blast
  from drop_keeps_entry [OF h assms(4)] have "map_of (vi_entries (drop_expired vi2 t2)) mid = Some (digest, v)" by (simp add: holds_entry_def)
  moreover have "length (vi_entries vi2) \<le> cap" using h by (simp add: holds_entry_def volatile_inv_def)
  ultimately show ?thesis using assms(4,5) by (simp add: volatile_accept_def Let_def volatile_check_def)
qed

definition demo_window :: VolatileInbox where
  "demo_window = \<lparr>vi_capacity = 1, vi_entries = [], vi_expiry = []\<rparr>"

theorem volatile_no_double_handling_witness:
  "snd (volatile_accept (fst (volatile_accept demo_window 0 ''m'' ''d'' 10 (\<lambda>n. (n + 1, Inr (JInt 7))) (0 :: nat))) 5 ''m'' ''d'' 10 (\<lambda>n. (n + 1, Inr JNull)) (1 :: nat)) =
   (1, Inr (True, JInt 7))"
proof -
  have inv: "volatile_inv 1 demo_window" by (simp add: volatile_inv_def demo_window_def)
  obtain vi1 where first: "volatile_accept demo_window 0 ''m'' ''d'' 10 (\<lambda>n. (n + 1, Inr (JInt 7))) (0 :: nat) = (vi1, 1, Inr (False, JInt 7))"
    by (simp add: volatile_accept_def demo_window_def drop_expired_def volatile_check_def)
  from volatile_no_double_handling [OF inv first rtranclp.rtrancl_refl, of 5 10 "''d''" "\<lambda>n :: nat. (n + 1, Inr JNull)" 1]
  have "snd (volatile_accept vi1 5 ''m'' ''d'' 10 (\<lambda>n. (n + 1, Inr JNull)) (1 :: nat)) = (1, Inr (True, JInt 7))"
    by (simp del: One_nat_def)
  then show ?thesis by (simp only: first fst_conv)
qed

section \<open>Nothing is touched before it is verified\<close>

definition kept_all :: "('h, 'w) ingress \<Rightarrow> ('h, 'w) ingress \<Rightarrow> bool" where
  "kept_all s s' \<longleftrightarrow> ig_world s' = ig_world s \<and> ig_inbox s' = ig_inbox s \<and> ig_volatile s' = ig_volatile s"

abbreviation inert :: "(('h, 'w) ingress, 'r) prog \<Rightarrow> bool" where
  "inert p \<equiv> safe (\<lambda>_. True) kept_all (\<lambda>_. 0) (\<lambda>_ _. 0) 0 p"

definition touched :: "(('h, 'w) ingress \<times> ('h, 'w) ingress) list \<Rightarrow> bool" where
  "touched tr \<longleftrightarrow> (\<exists>(s, s') \<in> set tr. \<not> kept_all s s')"

lemma inert_Done: "inert (Done r)"
  by (rule safe_Done)

lemma inert_atomic_bind:
  assumes "\<And>s. kept_all s (fst (f s))" and "\<And>r. inert (k r)"
  shows "inert (bind_prog (atomic f) k)"
  by (rule safe_atomic_bind [where m = "\<lambda>_. 0"]) (use assms in simp_all)

lemma kept_all_refl: "kept_all s s"
  by (simp add: kept_all_def)

lemma inert_see_bind: "(\<And>r. inert (k r)) \<Longrightarrow> inert (bind_prog (see f) k)"
  unfolding see_def by (rule inert_atomic_bind) (simp_all add: kept_all_refl)

lemma inert_token_bind: "(\<And>r. inert (k r)) \<Longrightarrow> inert (bind_prog (take_token v peer) k)"
  unfolding take_token_def by (rule inert_atomic_bind) (simp_all add: kept_all_def split_beta)

lemma inert_verify: "inert (verify_envelope d value)"
  unfolding verify_envelope_def
  by (auto split: sum.split json.split intro!: inert_Done inert_see_bind inert_token_bind)

lemma inert_untouched: "inert p \<Longrightarrow> trace p tr q \<Longrightarrow> \<not> touched tr"
  using safe_trace [of p tr q kept_all] by (fastforce simp: touched_def)

lemma touched_append: "touched (tr @ tr') \<longleftrightarrow> touched tr \<or> touched tr'"
  by (auto simp: touched_def)

text \<open>The checks a verified envelope has passed, each at the moment the thread made it.\<close>

definition verified_in ::
    "'w door \<Rightarrow> json \<Rightarrow> (string \<times> json) list \<Rightarrow> authentication_view \<Rightarrow> int \<Rightarrow> int \<Rightarrow> bytes \<Rightarrow> (('h, 'w) ingress \<times> ('h, 'w) ingress) list \<Rightarrow> bool" where
  "verified_in d value env peer issued expires content tr \<longleftrightarrow>
     value = JObj env \<and> envelope_shape (dr_canon d) value = Inr (issued, expires, content) \<and> get_or_null env ''to'' = JStr (dr_system_id d) \<and>
     (\<exists>(s, s') \<in> set tr. check_times d env (is_volatile env) issued expires (ig_now s) = Inr ()) \<and>
     (\<exists>(s, s') \<in> set tr. harness_peer (ig_trust s) (ig_now s div 1000) (text_field env ''from'') = Inr peer) \<and>
     check_signature d env content peer = Inr ()"

lemma trace_see_doneE:
  assumes "trace (bind_prog (see f) k) tr (Done r)"
  obtains s tr' where "tr = (s, s) # tr'" and "trace (k (f s)) tr' (Done r)"
  using assms unfolding see_def bind_atomic by (auto elim: trace_ActE)

lemma trace_Done_eq: "trace (Done r) tr (Done r') \<Longrightarrow> r' = r"
  by (auto elim: trace_DoneE)

lemma verify_trace:
  fixes d :: "'w door" and tr :: "(('h, 'w) ingress \<times> ('h, 'w) ingress) list"
  assumes "trace (verify_envelope d value) tr (Done (Inr (env, peer, issued, expires, content)))"
  shows "verified_in d value env peer issued expires content tr"
proof -
  obtain i e c kvs where sh: "envelope_shape (dr_canon d) value = Inr (i, e, c)" and v: "value = JObj kvs"
    using assms by (auto simp: verify_envelope_def split: sum.splits json.splits prod.splits dest!: trace_Done_eq)
  have to: "get_or_null kvs ''to'' = JStr (dr_system_id d)"
    using assms sh v by (auto simp: verify_envelope_def split: if_splits dest!: trace_Done_eq)
  define K2 where "K2 = (\<lambda>peer' :: authentication_view result. case peer' of
      Inl e \<Rightarrow> Done (Inl e)
    | Inr p \<Rightarrow>
        (case check_signature d kvs c p of
           Inl e \<Rightarrow> Done (Inl e)
         | Inr u' \<Rightarrow>
             bind_prog (take_token (is_volatile kvs) (text_field kvs ''from'') :: (('h, 'w) ingress, bool) prog) (\<lambda>ok.
             Done (if ok then Inr (kvs, p, i, e, c) else Inl (FaspError ''resource.exhausted'')))))"
  define K1 where "K1 = (\<lambda>current. case check_times d kvs (is_volatile kvs) i e current of
      Inl e \<Rightarrow> Done (Inl e)
    | Inr u \<Rightarrow> bind_prog (see (\<lambda>s. harness_peer (ig_trust s) (ig_now s div 1000) (text_field kvs ''from''))) K2)"
  have "trace (bind_prog (see ig_now) K1) tr (Done (Inr (env, peer, issued, expires, content)))"
    using assms sh v to unfolding K1_def K2_def by (simp add: verify_envelope_def)
  then obtain s0 tr0 where s0: "tr = (s0, s0) # tr0" and r0: "trace (K1 (ig_now s0)) tr0 (Done (Inr (env, peer, issued, expires, content)))"
    by (rule trace_see_doneE)
  obtain u where times: "check_times d kvs (is_volatile kvs) i e (ig_now s0) = Inr u"
    using r0 by (cases "check_times d kvs (is_volatile kvs) i e (ig_now s0)") (auto simp: K1_def dest!: trace_Done_eq)
  have "trace (bind_prog (see (\<lambda>s. harness_peer (ig_trust s) (ig_now s div 1000) (text_field kvs ''from''))) K2) tr0 (Done (Inr (env, peer, issued, expires, content)))"
    using r0 times by (simp add: K1_def)
  then obtain s1 tr1 where s1: "tr0 = (s1, s1) # tr1"
    and r1: "trace (K2 (harness_peer (ig_trust s1) (ig_now s1 div 1000) (text_field kvs ''from''))) tr1 (Done (Inr (env, peer, issued, expires, content)))"
    by (rule trace_see_doneE)
  obtain p where peer: "harness_peer (ig_trust s1) (ig_now s1 div 1000) (text_field kvs ''from'') = Inr p"
    using r1 by (cases "harness_peer (ig_trust s1) (ig_now s1 div 1000) (text_field kvs ''from'')") (auto simp: K2_def dest!: trace_Done_eq)
  obtain u' where sig: "check_signature d kvs c p = Inr u'"
    using r1 peer by (cases "check_signature d kvs c p") (auto simp: K2_def dest!: trace_Done_eq)
  have "trace (bind_prog (take_token (is_volatile kvs) (text_field kvs ''from'') :: (('h, 'w) ingress, bool) prog) (\<lambda>ok.
      Done (if ok then Inr (kvs, p, i, e, c) else Inl (FaspError ''resource.exhausted'')))) tr1 (Done (Inr (env, peer, issued, expires, content)))"
    using r1 peer sig by (simp add: K2_def)
  then have "env = kvs \<and> peer = p \<and> issued = i \<and> expires = e \<and> content = c"
    unfolding take_token_def bind_atomic by (auto elim!: trace_ActE dest!: trace_Done_eq split: if_splits)
  then show ?thesis using sh v to times peer sig s0 s1 by (auto simp: verified_in_def)
qed

text \<open>
  C4. Nothing is touched before it is verified: whatever other threads do meanwhile, if handling an incoming record changes the durable
  inbox, the volatile window or anything behind the handlers, then the record was a well-formed envelope addressed to this system, in its
  lifetime when the thread looked at the clock, from a peer that was paired, unexpired and not revoked when it looked at the trust tables,
  signed with that peer's key, and of a supported kind with a well-formed payload.
\<close>

theorem untouched_unless_verified:
  fixes d :: "'w door" and tr :: "(('h, 'w) ingress \<times> ('h, 'w) ingress) list"
  assumes "trace (accept d value expected_kind) tr q" and "touched tr"
  shows "\<exists>env peer issued expires content. verified_in d value env peer issued expires content tr \<and> check_kind expected_kind env = Inr ()"
proof -
  define K where "K = (\<lambda>v. case v of
       Inl e \<Rightarrow> Done (Inl e)
     | Inr (env, peer, issued, expires, content) \<Rightarrow>
         (case check_kind expected_kind env of
            Inl e \<Rightarrow> Done (Inl e)
          | Inr u \<Rightarrow>
              let handler = dr_handler d (text_field env ''kind'') env peer in
              if is_volatile env then accept_volatile d env expires content handler
              else if text_field env ''kind'' = ''heartbeat'' then accept_heartbeat env issued
              else (accept_durable env issued handler :: (('h, 'w) ingress, (bool \<times> json option) result) prog)))"
  have "trace (bind_prog (verify_envelope d value) K) tr q" using assms(1) by (simp add: accept_def K_def)
  then obtain tr1 tr2 r where tr: "tr = tr1 @ tr2" "trace (verify_envelope d value) tr1 (Done r)" and rest: "trace (K r) tr2 q"
    using trace_bind [of "verify_envelope d value" K tr q] inert_untouched [OF inert_verify] assms(2) by blast
  have touched2: "touched tr2" using assms(2) inert_untouched [OF inert_verify tr(2)] unfolding tr(1) touched_append by blast
  have loud: "\<not> trace (Done x) tr2 q" for x
  proof
    assume "trace (Done x) tr2 q"
    from inert_untouched [OF inert_Done this] touched2 show False by contradiction
  qed
  obtain env peer issued expires content where r: "r = Inr (env, peer, issued, expires, content)"
    using rest loud by (cases r) (auto simp: K_def split: prod.splits)
  have "check_kind expected_kind env = Inr ()"
    using rest loud unfolding r K_def by (cases "check_kind expected_kind env") auto
  moreover have "verified_in d value env peer issued expires content tr"
    using verify_trace [OF tr(2) [unfolded r]] unfolding tr(1) verified_in_def by auto
  ultimately show ?thesis by blast
qed

definition demo_card :: id_card where
  "demo_card = \<lparr>card_public_key = b64 [7], card_display_name = None, card_kid = ''k'', card_key_id = None\<rparr>"

definition demo_trust :: "nat trust_db" where
  "demo_trust = trust_empty\<lparr>td_peers :=
     [\<lparr>pe_peer_id = demo_id, pe_card = demo_card, pe_state = Paired, pe_prefixes = [], pe_pair_code = '''', pe_seen_at = 0,
       pe_paired_at = Some 0, pe_expires_at = None\<rparr>]\<rparr>"

definition demo_door :: "nat door" where
  "demo_door = \<lparr>dr_system_id = demo_id, dr_instance_id = ''i'', dr_canon = (\<lambda>_. Some []), dr_ed_verify = (\<lambda>key s m. key = [7] \<and> s = [9]),
     dr_digest = (\<lambda>_. ''d''), dr_handler = (\<lambda>_ _ _. demo_count)\<rparr>"

definition demo_arrival :: "(nat, nat) ingress" where
  "demo_arrival = (demo_state [] {})\<lparr>ig_now := 1704067200500000, ig_trust := demo_trust\<rparr>"

definition demo_view :: authentication_view where
  "demo_view = \<lparr>av_state = Some Paired, av_expires_at = None, av_revoked = False, av_public_key = Some (b64 [7]), av_kid = Some ''k'', av_prefixes = []\<rparr>"

lemma demo_verified:
  "run_prog (verify_envelope demo_door (JObj demo_envelope)) demo_arrival =
   (demo_arrival\<lparr>ig_volatile_limiter := fst (allow demo_limiter 0 demo_id)\<rparr>,
    Inr (demo_envelope, demo_view, 1704067200000000, 1704067202500000, []))"
proof -
  have fields: "get_or_null demo_envelope ''to'' = JStr demo_id" "is_volatile demo_envelope" "text_field demo_envelope ''from'' = demo_id"
    "map_of demo_envelope ''receiver_instance'' = Some (JStr ''i'')"
    "map_of demo_envelope ''signature'' = Some (JObj [(''alg'', JStr ''Ed25519''), (''kid'', JStr ''k''), (''value'', JStr (b64 [9]))])"
    by (simp_all add: demo_envelope_def get_or_null_def is_volatile_def text_field_def)
  have door: "dr_system_id demo_door = demo_id" "dr_canon demo_door = (\<lambda>_. Some [])" "dr_instance_id demo_door = ''i''"
    "dr_ed_verify demo_door = (\<lambda>key s m. key = [7] \<and> s = [9])"
    by (simp_all add: demo_door_def)
  have state: "ig_now demo_arrival = 1704067200500000" "ig_trust demo_arrival = demo_trust" "ig_volatile_limiter demo_arrival = demo_limiter" "ig_monotonic demo_arrival = 0"
    by (simp_all add: demo_arrival_def demo_state_def)
  have times: "check_times demo_door demo_envelope True 1704067200000000 1704067202500000 1704067200500000 = Inr ()"
    by (simp add: check_times_def fields door get_or_null_def guard_else_def MAX_VOLATILE_LIFETIME_S_def MAX_CLOCK_SKEW_SECONDS_def)
  have peer: "harness_peer demo_trust now demo_id = Inr demo_view" for now
    by (simp add: harness_peer_def peers_authentication_def peers_get_def is_revoked_def demo_trust_def trust_empty_def demo_card_def demo_view_def Let_def)
  have sig: "check_signature demo_door demo_envelope [] demo_view = Inr ()"
    by (simp add: check_signature_def demo_view_def verify_canonical_def fields door unb64_b64)
  have token: "snd (allow demo_limiter 0 demo_id)"
    by (simp add: allow_def demo_limiter_def consume_def Let_def)
  show ?thesis
    unfolding verify_envelope_def door demo_envelope_accepted
    by (simp add: fields state times peer sig token take_token_def split_beta door)
qed

lemma demo_accepted:
  "run_prog (accept demo_door (JObj demo_envelope) None) demo_arrival =
   (demo_arrival\<lparr>ig_volatile_limiter := fst (allow demo_limiter 0 demo_id), ig_world := 1,
      ig_volatile := \<lparr>vi_capacity = 2, vi_entries = [(''m'', ''d'', JInt 7)], vi_expiry = [(1704067202500000, ''m'')]\<rparr>\<rparr>,
    Inr (False, Some (JInt 7)))"
proof -
  have kind: "check_kind None demo_envelope = Inr ()"
    by (simp add: check_kind_def DISPATCH_def demo_envelope_def text_field_def payload_of_def payload_shape_def payload_names_def
        require_def guard_else_def get_or_null_def Let_def)
  have vol: "is_volatile demo_envelope" and mid: "text_field demo_envelope ''message_id'' = ''m''"
    by (simp_all add: demo_envelope_def is_volatile_def text_field_def)
  have "dr_handler demo_door k e v = demo_count" "dr_digest demo_door c = ''d''" for k e v c by (simp_all add: demo_door_def)
  moreover have "ig_volatile demo_arrival = \<lparr>vi_capacity = 2, vi_entries = [], vi_expiry = []\<rparr>" "ig_world demo_arrival = 0"
      "ig_now demo_arrival = 1704067200500000"
    by (simp_all add: demo_arrival_def demo_state_def)
  ultimately show ?thesis
    unfolding accept_def
    by (simp add: run_bind demo_verified kind vol mid accept_volatile_def volatile_accept_def drop_expired_def volatile_check_def
        volatile_record_def demo_count_def)
qed

theorem untouched_unless_verified_witness:
  "\<exists>(tr :: ((nat, nat) ingress \<times> (nat, nat) ingress) list) env peer issued expires content. touched tr \<and> verified_in demo_door (JObj demo_envelope) env peer issued expires content tr"
proof -
  have "\<exists>tr :: ((nat, nat) ingress \<times> (nat, nat) ingress) list. trace (accept demo_door (JObj demo_envelope) None) tr (Done (Inr (False, Some (JInt 7)))) \<and>
      ((\<forall>(a, b) \<in> set tr. ig_world b = ig_world a) \<longrightarrow> Suc 0 = ig_world demo_arrival)"
    using trace_of_run [OF demo_accepted, of ig_world] by simp
  then obtain tr :: "((nat, nat) ingress \<times> (nat, nat) ingress) list" where tr: "trace (accept demo_door (JObj demo_envelope) None) tr (Done (Inr (False, Some (JInt 7))))"
    and world: "(\<forall>(a, b) \<in> set tr. ig_world b = ig_world a) \<longrightarrow> Suc 0 = ig_world demo_arrival"
    by (elim exE conjE)
  have "\<not> (\<forall>(a, b) \<in> set tr. ig_world b = ig_world a)"
    using world by (simp add: demo_arrival_def demo_state_def)
  then have t: "touched tr" by (auto simp: touched_def kept_all_def)
  obtain env peer issued expires content where "verified_in demo_door (JObj demo_envelope) env peer issued expires content tr"
    using untouched_unless_verified [OF tr t] by blast
  with t show ?thesis by blast
qed

end
