(* ===== verification/Packets.thy ===== *)
theory Packets
  imports Signing "HOL-Library.AList"
begin

text \<open>
  Framing of live streams, \<^verbatim>\<open>src/fasp_harness/streaming.py\<close>: how bytes are split into checksummed packets and
  how a consumer puts them together again within fixed bounds. SHA-256 is a parameter, the random frame
  identifier and the clock reading are arguments.
\<close>

definition MAX_PACKET_BYTES :: nat where "MAX_PACKET_BYTES = 40 * 1024"

definition MAX_FRAME_BYTES :: nat where "MAX_FRAME_BYTES = 4 * 1024 * 1024"

definition MAX_WINDOW :: int where "MAX_WINDOW = 512"

definition MAX_RETENTION_PACKETS :: int where "MAX_RETENTION_PACKETS = 4096"

type_synonym packet = "(string \<times> json) list"

definition digest :: "(bytes \<Rightarrow> string) \<Rightarrow> bytes \<Rightarrow> string" where
  "digest sha data = ''sha-256:'' @ sha data"

definition invalid_fragment :: exn where "invalid_fragment = FaspError ''stream.invalid_fragment''"

definition decode_packet_payload :: "packet \<Rightarrow> nat \<Rightarrow> bytes result" where
  "decode_packet_payload packet max_bytes =
     (case get_or_null packet ''payload'' of
        JStr encoded \<Rightarrow>
          if length encoded > 4 * ((max_bytes + 2) div 3) then Inl invalid_fragment
          else (case unb64 encoded of
                  Inl _ \<Rightarrow> Inl invalid_fragment
                | Inr data \<Rightarrow> if length data > max_bytes \<or> b64 data \<noteq> encoded then Inl invalid_fragment else Inr data)
      | _ \<Rightarrow> Inl invalid_fragment)"

section \<open>Splitting\<close>

definition chunk :: "bytes \<Rightarrow> nat \<Rightarrow> nat \<Rightarrow> bytes" where
  "chunk data max_payload index = take max_payload (drop (index * max_payload) data)"

definition fragment_total :: "bytes \<Rightarrow> nat \<Rightarrow> nat" where
  "fragment_total data max_payload = max 1 ((length data + max_payload - 1) div max_payload)"

definition fragment ::
    "(bytes \<Rightarrow> string) \<Rightarrow> string \<Rightarrow> int \<Rightarrow> int \<Rightarrow> bytes \<Rightarrow> string \<Rightarrow> nat \<Rightarrow> string \<Rightarrow> int \<Rightarrow> nat \<Rightarrow> packet" where
  "fragment sha stream_id epoch sequence_start data content_type max_payload frame_id sent_ms index =
     [(''stream_id'', JStr stream_id), (''epoch'', JInt epoch), (''sequence'', JInt (sequence_start + int index)),
      (''sent_monotonic_ms'', JInt sent_ms), (''content_type'', JStr content_type), (''frame_id'', JStr frame_id),
      (''fragment_index'', JInt (int index)), (''fragment_count'', JInt (int (fragment_total data max_payload))),
      (''payload'', JStr (b64 (chunk data max_payload index))), (''checksum'', JStr (digest sha (chunk data max_payload index)))]"

definition packetize ::
    "(bytes \<Rightarrow> string) \<Rightarrow> string \<Rightarrow> int \<Rightarrow> int \<Rightarrow> bytes \<Rightarrow> string \<Rightarrow> nat \<Rightarrow> string \<Rightarrow> int \<Rightarrow> packet list result" where
  "packetize sha stream_id epoch sequence_start data content_type max_payload frame_id sent_ms =
     (if \<not> (1 \<le> max_payload \<and> max_payload \<le> MAX_PACKET_BYTES) then Inl ValueError
      else if content_type = ''application/json'' \<and> length data > max_payload then Inl ValueError
      else if length data > MAX_FRAME_BYTES then Inl ValueError
      else if int (fragment_total data max_payload) > MAX_WINDOW then Inl ValueError
      else Inr (map (fragment sha stream_id epoch sequence_start data content_type max_payload frame_id sent_ms) [0..<fragment_total data max_payload]))"

section \<open>Putting together\<close>

record frame =
  fr_count :: int
  fr_parts :: "(int \<times> bytes) list"
  fr_bytes :: nat

record Reassembler =
  rs_max_frame_bytes :: nat
  rs_max_inflight_frames :: nat
  rs_frames :: "(string \<times> frame) list"

definition new_reassembler :: "int \<Rightarrow> int \<Rightarrow> Reassembler result" where
  "new_reassembler max_frame_bytes max_inflight_frames =
     (if max_frame_bytes < 1 \<or> max_inflight_frames < 1 then Inl ValueError
      else Inr \<lparr>rs_max_frame_bytes = nat max_frame_bytes, rs_max_inflight_frames = nat max_inflight_frames, rs_frames = []\<rparr>)"

text \<open>The checks of one packet by itself: its bytes, the number of fragments, its index and its frame.\<close>

definition fragment_numbers :: "packet \<Rightarrow> (int \<times> int) result" where
  "fragment_numbers packet =
     (case (get_or_null packet ''fragment_count'', get_or_null packet ''fragment_index'') of
        (JInt count, JInt index) \<Rightarrow>
          if 1 \<le> count \<and> count \<le> MAX_WINDOW \<and> 0 \<le> index \<and> index < count then Inr (count, index) else Inl invalid_fragment
      | _ \<Rightarrow> Inl invalid_fragment)"

definition frame_id_of :: "packet \<Rightarrow> string result" where
  "frame_id_of packet =
     (case get_or_null packet ''frame_id'' of
        JStr f \<Rightarrow> if 1 \<le> length f \<and> length f \<le> 128 then Inr f else Inl invalid_fragment
      | _ \<Rightarrow> Inl invalid_fragment)"

definition read_fragment :: "(bytes \<Rightarrow> string) \<Rightarrow> packet \<Rightarrow> (bytes \<times> int \<times> int \<times> string) result" where
  "read_fragment sha packet =
     bind_result (decode_packet_payload packet MAX_PACKET_BYTES) (\<lambda>data.
     bind_result (guard_else (get_or_null packet ''checksum'' = JStr (digest sha data)) (FaspError ''stream.checksum_mismatch'')) (\<lambda>_.
     bind_result (fragment_numbers packet) (\<lambda>(count, index).
     bind_result (frame_id_of packet) (\<lambda>frame_id. Inr (data, count, index, frame_id)))))"

definition store_part :: "frame \<Rightarrow> int \<Rightarrow> bytes \<Rightarrow> frame" where
  "store_part f index data =
     (if index \<in> fst ` set (fr_parts f) then f
      else f\<lparr>fr_parts := fr_parts f @ [(index, data)], fr_bytes := fr_bytes f + length data\<rparr>)"

definition assembled :: "frame \<Rightarrow> bytes" where
  "assembled f = concat (map (\<lambda>part. case map_of (fr_parts f) (int part) of Some d \<Rightarrow> d | None \<Rightarrow> []) [0..<nat (fr_count f)])"

definition add_part :: "Reassembler \<Rightarrow> bytes \<Rightarrow> int \<Rightarrow> int \<Rightarrow> string \<Rightarrow> Reassembler \<times> bytes option result" where
  "add_part r data count index frame_id =
     (if map_of (rs_frames r) frame_id = None \<and> length (rs_frames r) \<ge> rs_max_inflight_frames r
      then (r, Inl (FaspError ''resource.exhausted''))
      else
        let f = (case map_of (rs_frames r) frame_id of Some f \<Rightarrow> f | None \<Rightarrow> \<lparr>fr_count = count, fr_parts = [], fr_bytes = 0\<rparr>) in
        if fr_count f \<noteq> count then (r, Inl invalid_fragment)
        else
          let f' = store_part f index data; gone = r\<lparr>rs_frames := AList.delete frame_id (rs_frames r)\<rparr> in
          if fr_bytes f' > rs_max_frame_bytes r then (gone, Inl (FaspError ''resource.exhausted''))
          else if int (length (fr_parts f')) \<noteq> count then (r\<lparr>rs_frames := AList.update frame_id f' (rs_frames r)\<rparr>, Inr None)
          else (gone, Inr (Some (assembled f'))))"

definition add :: "(bytes \<Rightarrow> string) \<Rightarrow> Reassembler \<Rightarrow> packet \<Rightarrow> Reassembler \<times> bytes option result" where
  "add sha r packet =
     (case read_fragment sha packet of Inl e \<Rightarrow> (r, Inl e) | Inr (data, count, index, frame_id) \<Rightarrow> add_part r data count index frame_id)"

fun add_all :: "(bytes \<Rightarrow> string) \<Rightarrow> Reassembler \<Rightarrow> packet list \<Rightarrow> Reassembler \<times> bytes option result list" where
  "add_all sha r [] = (r, [])"
| "add_all sha r (p # ps) = (case add sha r p of (r', x) \<Rightarrow> (case add_all sha r' ps of (r'', xs) \<Rightarrow> (r'', x # xs)))"

section \<open>Every order of arrival gives the bytes back\<close>

lemma length_b64_le: "length (b64 data) \<le> 4 * ((length data + 2) div 3)"
  unfolding length_b64 by linarith

lemma decode_b64:
  assumes "get_or_null packet ''payload'' = JStr (b64 data)" and "length data \<le> max_bytes"
  shows "decode_packet_payload packet max_bytes = Inr data"
proof -
  have "4 * ((length data + 2) div 3) \<le> 4 * ((max_bytes + 2) div 3)" using assms(2) by (simp add: div_le_mono)
  then have "length (b64 data) \<le> 4 * ((max_bytes + 2) div 3)" using length_b64_le [of data] by linarith
  with assms show ?thesis by (simp add: decode_packet_payload_def unb64_b64)
qed

lemma length_chunk: "length (chunk data m i) \<le> m"
  by (simp add: chunk_def)

lemma concat_chunks: "concat (map (chunk data m) [0..<n]) = take (n * m) data"
proof (induction n)
  case 0
  show ?case by simp
next
  case (Suc n)
  have "take (Suc n * m) data = take (n * m) data @ take m (drop (n * m) data)"
    using take_add [of "n * m" m data] by (simp add: add.commute)
  with Suc show ?case by (simp add: chunk_def)
qed

lemma fragment_total_covers:
  assumes "1 \<le> m"
  shows "length data \<le> fragment_total data m * m"
proof -
  let ?n = "length data + m - 1"
  have "?n = ?n div m * m + ?n mod m" by (simp only: div_mult_mod_eq)
  moreover have "?n mod m < m" using assms by simp
  ultimately have "?n < ?n div m * m + m" by linarith
  then have "length data < ?n div m * m + 1" using assms by linarith
  moreover have "(length data + m - 1) div m * m \<le> fragment_total data m * m" by (simp add: fragment_total_def)
  ultimately show ?thesis by linarith
qed

lemma all_chunks: "1 \<le> m \<Longrightarrow> concat (map (chunk data m) [0..<fragment_total data m]) = data"
  using fragment_total_covers [of m data] by (simp add: concat_chunks)

text \<open>A frame under way that holds the fragments of the bytes in a set of indices.\<close>

definition holds_parts :: "bytes \<Rightarrow> nat \<Rightarrow> nat set \<Rightarrow> frame \<Rightarrow> bool" where
  "holds_parts data m I f \<longleftrightarrow>
     fr_count f = int (fragment_total data m) \<and> I \<subseteq> {..<fragment_total data m} \<and> finite I \<and>
     (\<forall>i. map_of (fr_parts f) (int i) = (if i \<in> I then Some (chunk data m i) else None)) \<and>
     fst ` set (fr_parts f) = int ` I \<and> length (fr_parts f) = card I \<and> fr_bytes f = (\<Sum>i\<in>I. length (chunk data m i))"

lemma sum_chunks:
  assumes "1 \<le> m" and "I \<subseteq> {..<fragment_total data m}"
  shows "(\<Sum>i\<in>I. length (chunk data m i)) \<le> length data"
proof -
  have "(\<Sum>i\<in>I. length (chunk data m i)) \<le> (\<Sum>i<fragment_total data m. length (chunk data m i))"
    by (rule sum_mono2) (use assms(2) in auto)
  also have "\<dots> = length (concat (map (chunk data m) [0..<fragment_total data m]))"
    by (simp add: length_concat sum_list_distinct_conv_sum_set comp_def atLeast0LessThan)
  also have "\<dots> = length data" using all_chunks [OF assms(1)] by simp
  finally show ?thesis .
qed

lemma store_part_holds:
  assumes "holds_parts data m I f" and "i < fragment_total data m"
  shows "holds_parts data m (insert i I) (store_part f (int i) (chunk data m i))"
proof (cases "i \<in> I")
  case True
  then have "int i \<in> fst ` set (fr_parts f)" using assms(1) by (auto simp: holds_parts_def)
  with True assms(1) show ?thesis by (simp add: store_part_def insert_absorb)
next
  case False
  then have new: "int i \<notin> fst ` set (fr_parts f)" using assms(1) by (auto simp: holds_parts_def)
  then have "map_of (fr_parts f) (int i) = None" by (simp add: map_of_eq_None_iff)
  with False new assms show ?thesis
    by (auto simp: holds_parts_def store_part_def map_add_def split: option.splits)
qed

lemma assembled_complete:
  assumes "holds_parts data m {..<fragment_total data m} f" and "1 \<le> m"
  shows "assembled f = data"
proof -
  have "map (\<lambda>part. case map_of (fr_parts f) (int part) of Some d \<Rightarrow> d | None \<Rightarrow> []) [0..<nat (fr_count f)] =
        map (chunk data m) [0..<fragment_total data m]"
    using assms(1) by (simp add: holds_parts_def)
  then show ?thesis using all_chunks [OF assms(2)] by (simp add: assembled_def)
qed

lemma fragment_fields [simp]:
  "get_or_null (fragment sha sid ep sq data ct m fid ms i) ''payload'' = JStr (b64 (chunk data m i))"
  "get_or_null (fragment sha sid ep sq data ct m fid ms i) ''checksum'' = JStr (digest sha (chunk data m i))"
  "get_or_null (fragment sha sid ep sq data ct m fid ms i) ''fragment_count'' = JInt (int (fragment_total data m))"
  "get_or_null (fragment sha sid ep sq data ct m fid ms i) ''fragment_index'' = JInt (int i)"
  "get_or_null (fragment sha sid ep sq data ct m fid ms i) ''frame_id'' = JStr fid"
  by (simp_all add: fragment_def get_or_null_def)

lemma read_own_fragment:
  assumes "m \<le> MAX_PACKET_BYTES" and "int (fragment_total data m) \<le> MAX_WINDOW" and "1 \<le> length fid" and "length fid \<le> 128"
    and "i < fragment_total data m"
  shows "read_fragment sha (fragment sha sid ep sq data ct m fid ms i) = Inr (chunk data m i, int (fragment_total data m), int i, fid)"
proof -
  have "length (chunk data m i) \<le> MAX_PACKET_BYTES" using length_chunk [of data m i] assms(1) by linarith
  then have "decode_packet_payload (fragment sha sid ep sq data ct m fid ms i) MAX_PACKET_BYTES = Inr (chunk data m i)"
    by (intro decode_b64) simp_all
  then show ?thesis using assms(2-5) by (simp add: read_fragment_def fragment_numbers_def frame_id_of_def)
qed

definition frame_state :: "Reassembler \<Rightarrow> string \<Rightarrow> int \<Rightarrow> frame \<Rightarrow> bool" where
  "frame_state r fid count f \<longleftrightarrow>
     map_of (rs_frames r) fid = Some f \<or>
     map_of (rs_frames r) fid = None \<and> length (rs_frames r) < rs_max_inflight_frames r \<and> f = \<lparr>fr_count = count, fr_parts = [], fr_bytes = 0\<rparr>"

lemma add_own:
  assumes "frame_state r fid (int (fragment_total data m)) f" and "holds_parts data m I f" and "i < fragment_total data m"
    and "1 \<le> m" and "length data \<le> rs_max_frame_bytes r"
  shows "add_part r (chunk data m i) (int (fragment_total data m)) (int i) fid =
     (if insert i I = {..<fragment_total data m} then (r\<lparr>rs_frames := AList.delete fid (rs_frames r)\<rparr>, Inr (Some data))
      else (r\<lparr>rs_frames := AList.update fid (store_part f (int i) (chunk data m i)) (rs_frames r)\<rparr>, Inr None))"
proof -
  let ?f = "store_part f (int i) (chunk data m i)"
  have h: "holds_parts data m (insert i I) ?f" using assms(2,3) by (rule store_part_holds)
  have sub: "insert i I \<subseteq> {..<fragment_total data m}" using assms(2,3) by (auto simp: holds_parts_def)
  have small: "fr_bytes ?f \<le> rs_max_frame_bytes r"
    using h sum_chunks [OF assms(4) sub] assms(5) unfolding holds_parts_def by linarith
  have len: "length (fr_parts ?f) = card (insert i I)" using h by (simp add: holds_parts_def)
  have full: "card (insert i I) = fragment_total data m \<longleftrightarrow> insert i I = {..<fragment_total data m}"
    using sub card_subset_eq [OF finite_lessThan sub] by auto
  have count: "fr_count f = int (fragment_total data m)" using assms(2) by (simp add: holds_parts_def)
  have "assembled ?f = data" if "insert i I = {..<fragment_total data m}"
    using assembled_complete [OF _ assms(4)] h unfolding that by simp
  moreover have "(case map_of (rs_frames r) fid of Some f \<Rightarrow> f | None \<Rightarrow> \<lparr>fr_count = int (fragment_total data m), fr_parts = [], fr_bytes = 0\<rparr>) = f"
    and "\<not> (map_of (rs_frames r) fid = None \<and> length (rs_frames r) \<ge> rs_max_inflight_frames r)"
    using assms(1) by (auto simp: frame_state_def)
  moreover have "int (length (fr_parts ?f)) = int (fragment_total data m) \<longleftrightarrow> insert i I = {..<fragment_total data m}"
    using len full by simp
  ultimately show ?thesis using small count unfolding add_part_def Let_def by simp
qed

lemma add_foreign:
  assumes "frame_id_of q \<noteq> Inr fid"
  shows "map_of (rs_frames (fst (add sha r q))) fid = map_of (rs_frames r) fid"
proof (cases "read_fragment sha q")
  case (Inl e)
  then show ?thesis by (simp add: add_def)
next
  case (Inr x)
  obtain data count index g where x: "x = (data, count, index, g)" by (cases x)
  then have "frame_id_of q = Inr g" using Inr by (auto simp: read_fragment_def bind_result_Inr_iff)
  with assms have "g \<noteq> fid" by auto
  then show ?thesis using Inr x by (auto simp: add_def add_part_def Let_def update_conv' delete_conv')
qed

lemma add_limits [simp]:
  "rs_max_frame_bytes (fst (add sha r q)) = rs_max_frame_bytes r"
  "rs_max_inflight_frames (fst (add sha r q)) = rs_max_inflight_frames r"
  by (auto simp: add_def add_part_def Let_def split: sum.split option.split)

lemma add_all_append:
  "add_all sha r (xs @ ys) = (case add_all sha r xs of (r', as) \<Rightarrow> (case add_all sha r' ys of (r'', bs) \<Rightarrow> (r'', as @ bs)))"
  by (induction xs arbitrary: r) (auto split: prod.split)

lemma length_add_all: "length (snd (add_all sha r qs)) = length qs"
  by (induction qs arbitrary: r) (simp_all add: split_beta)

lemma fragment_inj: "fragment sha sid ep sq data ct m fid ms i = fragment sha sid ep sq data ct m fid ms j \<Longrightarrow> i = j"
proof -
  assume "fragment sha sid ep sq data ct m fid ms i = fragment sha sid ep sq data ct m fid ms j"
  from arg_cong [OF this, of "\<lambda>p. get_or_null p ''fragment_index''"] show "i = j" by simp
qed

lemma collect_fragments:
  fixes sha sid ep sq data ct m fid ms
  defines "own \<equiv> fragment sha sid ep sq data ct m fid ms" and "n \<equiv> fragment_total data m"
  assumes "1 \<le> m" and "m \<le> MAX_PACKET_BYTES" and "int n \<le> MAX_WINDOW" and "1 \<le> length fid" and "length fid \<le> 128"
    and "length data \<le> rs_max_frame_bytes r" and "map_of (rs_frames r) fid = Some f" and "holds_parts data m I f"
    and "\<forall>q \<in> set qs. q \<in> own ` {..<n} \<or> frame_id_of q \<noteq> Inr fid" and "I \<union> {i. i < n \<and> own i \<in> set qs} \<noteq> {..<n}"
  shows "(\<exists>f'. map_of (rs_frames (fst (add_all sha r qs))) fid = Some f' \<and> holds_parts data m (I \<union> {i. i < n \<and> own i \<in> set qs}) f') \<and>
     rs_max_frame_bytes (fst (add_all sha r qs)) = rs_max_frame_bytes r \<and>
     list_all2 (\<lambda>q x. q \<in> own ` {..<n} \<longrightarrow> x = Inr None) qs (snd (add_all sha r qs))"
  using assms(8-)
proof (induction qs arbitrary: r f I)
  case Nil
  then show ?case by simp
next
  case (Cons q qs)
  have inj: "own j = own i \<longleftrightarrow> j = i" for i j using fragment_inj unfolding own_def by blast
  let ?r = "fst (add sha r q)" and ?J = "{i. i < n \<and> own i \<in> set qs}"
  have rest: "\<forall>q \<in> set qs. q \<in> own ` {..<n} \<or> frame_id_of q \<noteq> Inr fid" using Cons.prems(4) by simp
  have step: "add_all sha r (q # qs) = (fst (add_all sha ?r qs), snd (add sha r q) # snd (add_all sha ?r qs))" by (simp add: split_beta)
  show ?case
  proof (cases "q \<in> own ` {..<n}")
    case True
    then obtain i where i: "i < n" "q = own i" by auto
    have J: "{j. j < n \<and> own j \<in> set (q # qs)} = insert i ?J" unfolding i(2) using i(1) by (auto simp: inj)
    have add: "add sha r q = add_part r (chunk data m i) (int n) (int i) fid"
      using read_own_fragment [OF assms(4) assms(5) [unfolded n_def] assms(6,7), of i sha sid ep sq ct ms] i
      by (simp add: add_def own_def n_def)
    have part: "insert i I \<noteq> {..<n}"
    proof
      assume "insert i I = {..<n}"
      then have "I \<union> insert i ?J = {..<n}" using Un_insert_left [of i I ?J] by auto
      with Cons.prems(5) show False unfolding J by contradiction
    qed
    have r': "add sha r q = (r\<lparr>rs_frames := AList.update fid (store_part f (int i) (chunk data m i)) (rs_frames r)\<rparr>, Inr None)"
      unfolding add n_def
      by (subst add_own [OF _ Cons.prems(3)])
         (use Cons.prems(1,2) i(1) part assms(3) in \<open>simp_all add: frame_state_def n_def\<close>)
    have "holds_parts data m (insert i I) (store_part f (int i) (chunk data m i))"
      using store_part_holds Cons.prems(3) i(1) unfolding n_def by blast
    moreover have "length data \<le> rs_max_frame_bytes ?r" "map_of (rs_frames ?r) fid = Some (store_part f (int i) (chunk data m i))"
      using Cons.prems(1) by (simp_all add: r' update_conv')
    moreover have "insert i I \<union> ?J \<noteq> {..<n}" using Cons.prems(5) unfolding J by simp
    ultimately have "(\<exists>f'. map_of (rs_frames (fst (add_all sha ?r qs))) fid = Some f' \<and> holds_parts data m (insert i I \<union> ?J) f') \<and>
       rs_max_frame_bytes (fst (add_all sha ?r qs)) = rs_max_frame_bytes ?r \<and>
       list_all2 (\<lambda>q x. q \<in> own ` {..<n} \<longrightarrow> x = Inr None) qs (snd (add_all sha ?r qs))"
      using Cons.IH rest by blast
    then show ?thesis unfolding step J by (simp add: r')
  next
    case False
    then have fq: "frame_id_of q \<noteq> Inr fid" using Cons.prems(4) by simp
    have J: "{j. j < n \<and> own j \<in> set (q # qs)} = ?J" using False by auto
    have "map_of (rs_frames ?r) fid = Some f" using add_foreign [OF fq] Cons.prems(2) by simp
    moreover have "length data \<le> rs_max_frame_bytes ?r" using Cons.prems(1) by simp
    moreover have "I \<union> ?J \<noteq> {..<n}" using Cons.prems(5) unfolding J .
    ultimately have "(\<exists>f'. map_of (rs_frames (fst (add_all sha ?r qs))) fid = Some f' \<and> holds_parts data m (I \<union> ?J) f') \<and>
       rs_max_frame_bytes (fst (add_all sha ?r qs)) = rs_max_frame_bytes ?r \<and>
       list_all2 (\<lambda>q x. q \<in> own ` {..<n} \<longrightarrow> x = Inr None) qs (snd (add_all sha ?r qs))"
      using Cons.IH Cons.prems(3) rest by blast
    then show ?thesis unfolding step J using False by simp
  qed
qed

lemma frame_put_together:
  assumes "packetize sha sid ep sq data ct m fid ms = Inr ps" and "1 \<le> length fid" and "length fid \<le> 128"
    and "length data \<le> rs_max_frame_bytes r" and "map_of (rs_frames r) fid = None" and "length (rs_frames r) < rs_max_inflight_frames r"
    and "qs \<noteq> []" and "hd (qs @ [last_one]) \<in> set ps" and "\<forall>q \<in> set qs. q \<in> set ps \<or> frame_id_of q \<noteq> Inr fid"
    and "\<not> set ps \<subseteq> set qs" and "set ps \<subseteq> set (qs @ [last_one])"
  shows "snd (add_all sha r (qs @ [last_one])) = snd (add_all sha r qs) @ [Inr (Some data)] \<and>
     list_all2 (\<lambda>q x. q \<in> set ps \<longrightarrow> x = Inr None) qs (snd (add_all sha r qs))"
proof -
  define own where "own = fragment sha sid ep sq data ct m fid ms"
  let ?n = "fragment_total data m"
  have m: "1 \<le> m" "m \<le> MAX_PACKET_BYTES" "int ?n \<le> MAX_WINDOW" and ps: "set ps = own ` {..<?n}"
    using assms(1) by (auto simp: packetize_def own_def split: if_splits)
  obtain q0 qs' where qs: "qs = q0 # qs'" using assms(7) by (cases qs) auto
  then obtain i0 where i0: "i0 < ?n" "q0 = own i0" using assms(8) ps by auto
  have inj: "own j = own i \<longleftrightarrow> j = i" for i j using fragment_inj unfolding own_def by blast
  let ?J = "{i. i < ?n \<and> own i \<in> set qs'}" and ?f0 = "\<lparr>fr_count = int ?n, fr_parts = [], fr_bytes = 0\<rparr>"
  have miss: "insert i0 ?J \<noteq> {..<?n}"
  proof
    assume eq: "insert i0 ?J = {..<?n}"
    have "own i \<in> set qs" if "i < ?n" for i
    proof -
      have "i \<in> insert i0 ?J" using that eq by blast
      then show ?thesis unfolding qs i0(2) by auto
    qed
    with assms(10) show False unfolding ps by blast
  qed
  have own_add: "add sha r' (own i) = add_part r' (chunk data m i) (int ?n) (int i) fid" if "i < ?n" for i r'
    using read_own_fragment [OF m(2,3) assms(2,3) that, of sha sid ep sq ct ms] by (simp add: add_def own_def)
  have empty: "holds_parts data m {} ?f0" by (simp add: holds_parts_def)
  have "frame_state r fid (int ?n) ?f0" using assms(5,6) by (simp add: frame_state_def)
  from add_own [OF this empty i0(1) m(1) assms(4)] miss i0
  have first: "add sha r q0 = (r\<lparr>rs_frames := AList.update fid (store_part ?f0 (int i0) (chunk data m i0)) (rs_frames r)\<rparr>, Inr None)"
    unfolding i0(2) own_add [OF i0(1)] by (auto simp: insert_absorb)
  let ?r1 = "fst (add sha r q0)"
  have h1: "holds_parts data m {i0} (store_part ?f0 (int i0) (chunk data m i0))" using store_part_holds [OF empty i0(1)] by simp
  have rest: "\<forall>q \<in> set qs'. q \<in> own ` {..<?n} \<or> frame_id_of q \<noteq> Inr fid" using assms(9) ps qs by simp
  have present: "map_of (rs_frames ?r1) fid = Some (store_part ?f0 (int i0) (chunk data m i0))" "length data \<le> rs_max_frame_bytes ?r1"
    using assms(4) by (simp_all add: first update_conv')
  have c: "(\<exists>f'. map_of (rs_frames (fst (add_all sha ?r1 qs'))) fid = Some f' \<and> holds_parts data m ({i0} \<union> ?J) f') \<and>
     rs_max_frame_bytes (fst (add_all sha ?r1 qs')) = rs_max_frame_bytes ?r1 \<and>
     list_all2 (\<lambda>q x. q \<in> own ` {..<?n} \<longrightarrow> x = Inr None) qs' (snd (add_all sha ?r1 qs'))"
    using collect_fragments [OF m assms(2,3) present(2,1) h1, of qs' sha sid ep sq ct ms] rest miss unfolding own_def by simp
  then obtain f' where f': "map_of (rs_frames (fst (add_all sha ?r1 qs'))) fid = Some f'" "holds_parts data m ({i0} \<union> ?J) f'" by blast
  have all: "add_all sha r qs = (fst (add_all sha ?r1 qs'), Inr None # snd (add_all sha ?r1 qs'))"
    unfolding qs by (simp add: first split_beta)
  obtain i where i: "i < ?n" "last_one = own i" "insert i ({i0} \<union> ?J) = {..<?n}"
  proof -
    obtain p where p: "p \<in> set ps" "p \<notin> set qs" using assms(10) by auto
    then have "last_one = p" using assms(11) by auto
    then obtain i where "i < ?n" "last_one = own i" using p(1) ps by auto
    moreover have "insert i ({i0} \<union> ?J) = {..<?n}"
    proof
      show "insert i ({i0} \<union> ?J) \<subseteq> {..<?n}" using i0(1) calculation(1) by auto
      show "{..<?n} \<subseteq> insert i ({i0} \<union> ?J)"
      proof
        fix j assume "j \<in> {..<?n}"
        then have "own j \<in> set (qs @ [last_one])" using assms(11) unfolding ps by blast
        then show "j \<in> insert i ({i0} \<union> ?J)" using \<open>j \<in> {..<?n}\<close> unfolding qs i0(2) calculation(2) by (auto simp: inj)
      qed
    qed
    ultimately show ?thesis by (rule that)
  qed
  let ?r2 = "fst (add_all sha r qs)"
  have "frame_state ?r2 fid (int ?n) f'" using f'(1) all by (simp add: frame_state_def)
  from add_own [OF this f'(2) i(1) m(1)] c assms(4) i(3)
  have "snd (add sha ?r2 last_one) = Inr (Some data)" unfolding i(2) own_add [OF i(1)] all by (simp add: first)
  then have "snd (add_all sha r (qs @ [last_one])) = snd (add_all sha r qs) @ [Inr (Some data)]"
    by (simp add: add_all_append split_beta)
  moreover have "list_all2 (\<lambda>q x. q \<in> set ps \<longrightarrow> x = Inr None) qs (snd (add_all sha r qs))"
    unfolding all using c by (simp add: qs ps)
  ultimately show ?thesis ..
qed

lemma single_fragment:
  assumes "packetize sha sid ep sq data ct m fid ms = Inr ps" and "1 \<le> length fid" and "length fid \<le> 128"
    and "length data \<le> rs_max_frame_bytes r" and "map_of (rs_frames r) fid = None" and "length (rs_frames r) < rs_max_inflight_frames r"
    and "set ps \<subseteq> {p}"
  shows "snd (add sha r p) = Inr (Some data)"
proof -
  let ?n = "fragment_total data m" and ?own = "fragment sha sid ep sq data ct m fid ms"
  have m: "1 \<le> m" "m \<le> MAX_PACKET_BYTES" "int ?n \<le> MAX_WINDOW" and ps: "set ps = ?own ` {..<?n}"
    using assms(1) by (auto simp: packetize_def split: if_splits)
  have n: "0 < ?n" by (simp add: fragment_total_def)
  have "?own 0 = p" "?n = 1"
  proof -
    have all: "?own j = p" if "j < ?n" for j using assms(7) that unfolding ps by blast
    from all [OF n] show "?own 0 = p" .
    have "j = 0" if "j < ?n" for j using fragment_inj [OF trans [OF all [OF that] all [OF n, symmetric]]] .
    then show "?n = 1" using n by (metis One_nat_def Suc_lessI Suc_neq_Zero)
  qed
  let ?f0 = "\<lparr>fr_count = int ?n, fr_parts = [], fr_bytes = 0\<rparr>"
  have "frame_state r fid (int ?n) ?f0" using assms(5,6) by (simp add: frame_state_def)
  moreover have "holds_parts data m {} ?f0" by (simp add: holds_parts_def)
  ultimately have "add_part r (chunk data m 0) (int ?n) (int 0) fid = (r\<lparr>rs_frames := AList.delete fid (rs_frames r)\<rparr>, Inr (Some data))"
    using add_own [of r fid data m ?f0 "{}" 0] n m(1) assms(4) \<open>?n = 1\<close> by (simp add: lessThan_Suc)
  then show ?thesis
    using read_own_fragment [OF m(2,3) assms(2,3) n, of sha sid ep sq ct ms] \<open>?own 0 = p\<close> by (simp add: add_def)
qed

text \<open>
  C13. Splitting and putting together are inverse in every order of arrival: deliver the packets of a frame to a consumer with room for it
  in any order, with any repetitions and any packets of other frames in between; as long as one of them is missing every packet of the
  frame is taken silently, and the packet that completes it returns exactly the bytes that were split.
\<close>

theorem frame_survives_any_order:
  assumes "packetize sha sid ep sq data ct m fid ms = Inr ps" and "1 \<le> length fid" and "length fid \<le> 128"
    and "length data \<le> rs_max_frame_bytes r" and "map_of (rs_frames r) fid = None" and "length (rs_frames r) < rs_max_inflight_frames r"
    and "hd (qs @ [last_one]) \<in> set ps" and "\<forall>q \<in> set qs. q \<in> set ps \<or> frame_id_of q \<noteq> Inr fid"
    and "\<not> set ps \<subseteq> set qs" and "set ps \<subseteq> set (qs @ [last_one])"
  shows "snd (add_all sha r (qs @ [last_one])) = snd (add_all sha r qs) @ [Inr (Some data)] \<and>
     list_all2 (\<lambda>q x. q \<in> set ps \<longrightarrow> x = Inr None) qs (snd (add_all sha r qs))"
proof (cases "qs = []")
  case True
  then show ?thesis using single_fragment [OF assms(1-6), of last_one] assms(10) by (simp add: split_beta)
next
  case False
  show ?thesis using frame_put_together [OF assms(1-6) False assms(7-10)] .
qed

definition demo_reassembler :: Reassembler where
  "demo_reassembler = \<lparr>rs_max_frame_bytes = 100, rs_max_inflight_frames = 2, rs_frames = []\<rparr>"

definition demo_fragment :: "nat \<Rightarrow> packet" where
  "demo_fragment = fragment (\<lambda>_. ''h'') ''s'' 0 0 [1, 2, 3] ''c'' 2 ''f'' 0"

theorem frame_survives_any_order_witness:
  "snd (add_all (\<lambda>_. ''h'') demo_reassembler [demo_fragment 1, demo_fragment 1, demo_fragment 0]) = [Inr None, Inr None, Inr (Some [1, 2, 3])]"
proof -
  have total: "fragment_total [1, 2, 3] 2 = 2" by (simp add: fragment_total_def)
  then have p: "packetize (\<lambda>_. ''h'') ''s'' 0 0 [1, 2, 3] ''c'' 2 ''f'' 0 = Inr [demo_fragment 0, demo_fragment 1]"
    by (simp add: packetize_def demo_fragment_def MAX_PACKET_BYTES_def MAX_FRAME_BYTES_def MAX_WINDOW_def upt_rec)
  have ne: "demo_fragment 0 \<noteq> demo_fragment 1" using fragment_inj unfolding demo_fragment_def by fastforce
  have "snd (add_all (\<lambda>_. ''h'') demo_reassembler ([demo_fragment 1, demo_fragment 1] @ [demo_fragment 0])) =
      snd (add_all (\<lambda>_. ''h'') demo_reassembler [demo_fragment 1, demo_fragment 1]) @ [Inr (Some [1, 2, 3])] \<and>
     list_all2 (\<lambda>q x. q \<in> set [demo_fragment 0, demo_fragment 1] \<longrightarrow> x = Inr None) [demo_fragment 1, demo_fragment 1]
       (snd (add_all (\<lambda>_. ''h'') demo_reassembler [demo_fragment 1, demo_fragment 1]))"
    by (rule frame_survives_any_order [OF p]) (use ne in \<open>simp_all add: demo_reassembler_def\<close>)
  then show ?thesis by (auto simp: list_all2_Cons1)
qed

section \<open>Bounded memory\<close>

definition frame_ok :: "nat \<Rightarrow> frame \<Rightarrow> bool" where
  "frame_ok limit f \<longleftrightarrow>
     fr_bytes f \<le> limit \<and> fr_bytes f = sum_list (map (length \<circ> snd) (fr_parts f)) \<and> distinct (map fst (fr_parts f)) \<and>
     int (length (fr_parts f)) < fr_count f \<and> fr_count f \<le> MAX_WINDOW"

definition reassembler_inv :: "Reassembler \<Rightarrow> bool" where
  "reassembler_inv r \<longleftrightarrow>
     length (rs_frames r) \<le> rs_max_inflight_frames r \<and> distinct (map fst (rs_frames r)) \<and>
     (\<forall>f \<in> snd ` set (rs_frames r). frame_ok (rs_max_frame_bytes r) f)"

definition reassembler_step :: "(bytes \<Rightarrow> string) \<Rightarrow> Reassembler \<Rightarrow> Reassembler \<Rightarrow> bool" where
  "reassembler_step sha r r' \<longleftrightarrow> (\<exists>packet. r' = fst (add sha r packet))"

lemma update_bounds:
  assumes "distinct (map fst al)"
  shows "distinct (map fst (AList.update k v al)) \<and> snd ` set (AList.update k v al) \<subseteq> insert v (snd ` set al) \<and>
     length (AList.update k v al) = (if map_of al k = None then Suc (length al) else length al)"
proof (intro conjI)
  show "distinct (map fst (AList.update k v al))" using assms by (rule distinct_update)
  show "snd ` set (AList.update k v al) \<subseteq> insert v (snd ` set al)" by (induction al) auto
  show "length (AList.update k v al) = (if map_of al k = None then Suc (length al) else length al)" by (induction al) auto
qed

lemma delete_bounds:
  "snd ` set (AList.delete k al) \<subseteq> snd ` set al" "length (AList.delete k al) \<le> length al"
  by (induction al) auto

lemma store_part_ok:
  assumes "fr_bytes f = sum_list (map (length \<circ> snd) (fr_parts f))" and "distinct (map fst (fr_parts f))"
  shows "fr_bytes (store_part f i d) = sum_list (map (length \<circ> snd) (fr_parts (store_part f i d)))" and "distinct (map fst (fr_parts (store_part f i d)))"
    and "fr_count (store_part f i d) = fr_count f" and "length (fr_parts (store_part f i d)) \<le> Suc (length (fr_parts f))"
  using assms by (auto simp: store_part_def)

lemma delete_inv:
  assumes "reassembler_inv r"
  shows "reassembler_inv (r\<lparr>rs_frames := AList.delete k (rs_frames r)\<rparr>)"
proof -
  have "distinct (map fst (AList.delete k (rs_frames r)))" using assms by (intro distinct_delete) (simp add: reassembler_inv_def)
  moreover have "length (AList.delete k (rs_frames r)) \<le> rs_max_inflight_frames r"
    using assms delete_bounds(2) [of k "rs_frames r"] unfolding reassembler_inv_def by linarith
  moreover have "frame_ok (rs_max_frame_bytes r) f" if "f \<in> snd ` set (AList.delete k (rs_frames r))" for f
    using assms delete_bounds(1) [of k "rs_frames r"] that unfolding reassembler_inv_def by blast
  ultimately show ?thesis by (simp add: reassembler_inv_def)
qed

lemma update_inv:
  assumes "reassembler_inv r" and "frame_ok (rs_max_frame_bytes r) f" and "map_of (rs_frames r) k = None \<Longrightarrow> length (rs_frames r) < rs_max_inflight_frames r"
  shows "reassembler_inv (r\<lparr>rs_frames := AList.update k f (rs_frames r)\<rparr>)"
proof -
  have d: "distinct (map fst (rs_frames r))" using assms(1) by (simp add: reassembler_inv_def)
  from update_bounds [OF d, of k f] show ?thesis
    using assms unfolding reassembler_inv_def by (fastforce split: if_splits)
qed

lemma add_part_inv:
  assumes "reassembler_inv r" and "1 \<le> count" and "count \<le> MAX_WINDOW"
  shows "reassembler_inv (fst (add_part r data count index fid))"
proof -
  define f where "f = (case map_of (rs_frames r) fid of Some f \<Rightarrow> f | None \<Rightarrow> \<lparr>fr_count = count, fr_parts = [], fr_bytes = 0\<rparr>)"
  let ?f = "store_part f index data"
  have ok: "fr_bytes f = sum_list (map (length \<circ> snd) (fr_parts f))" "distinct (map fst (fr_parts f))" "int (length (fr_parts f)) < fr_count f"
  proof -
    have "frame_ok (rs_max_frame_bytes r) g" if "map_of (rs_frames r) fid = Some g" for g
      using assms(1) map_of_SomeD [OF that] unfolding reassembler_inv_def by force
    then have "fr_bytes f = sum_list (map (length \<circ> snd) (fr_parts f)) \<and> distinct (map fst (fr_parts f)) \<and> int (length (fr_parts f)) < fr_count f"
      using assms(2) unfolding f_def frame_ok_def by (cases "map_of (rs_frames r) fid") auto
    then show "fr_bytes f = sum_list (map (length \<circ> snd) (fr_parts f))" "distinct (map fst (fr_parts f))" "int (length (fr_parts f)) < fr_count f"
      by blast+
  qed
  have stored: "frame_ok (rs_max_frame_bytes r) ?f" if "fr_count f = count" "fr_bytes ?f \<le> rs_max_frame_bytes r" "int (length (fr_parts ?f)) \<noteq> count"
    using store_part_ok [OF ok(1,2), of index data] ok(3) that assms(3) unfolding frame_ok_def by auto
  have up: "reassembler_inv (r\<lparr>rs_frames := AList.update fid ?f (rs_frames r)\<rparr>)"
    if "fr_count f = count" "fr_bytes ?f \<le> rs_max_frame_bytes r" "int (length (fr_parts ?f)) \<noteq> count"
      "\<not> (map_of (rs_frames r) fid = None \<and> length (rs_frames r) \<ge> rs_max_inflight_frames r)"
    by (rule update_inv [OF assms(1) stored [OF that(1-3)]]) (use that(4) in auto)
  show ?thesis
    unfolding add_part_def Let_def f_def [symmetric] using assms(1) up delete_inv [OF assms(1)] by simp
qed

lemma add_inv:
  assumes "reassembler_inv r"
  shows "reassembler_inv (fst (add sha r packet))"
proof (cases "read_fragment sha packet")
  case (Inl e)
  with assms show ?thesis by (simp add: add_def)
next
  case (Inr x)
  obtain data count index fid where x: "x = (data, count, index, fid)" by (cases x)
  then have "fragment_numbers packet = Inr (count, index)" using Inr by (auto simp: read_fragment_def bind_result_Inr_iff)
  then have "1 \<le> count" "count \<le> MAX_WINDOW" by (auto simp: fragment_numbers_def split: json.splits if_splits)
  from add_part_inv [OF assms this] show ?thesis using Inr x by (simp add: add_def)
qed

interpretation reassembly: invariant_system "\<lambda>r. rs_frames r = []" "reassembler_step sha" reassembler_inv
  for sha
proof unfold_locales
  show "rs_frames r = [] \<Longrightarrow> reassembler_inv r" for r by (simp add: reassembler_inv_def)
  show "reassembler_inv r \<Longrightarrow> reassembler_step sha r r' \<Longrightarrow> reassembler_inv r'" for r r'
    unfolding reassembler_step_def using add_inv by blast
qed

text \<open>
  A consumer holds a bounded amount whatever it is sent: after any packets at all, well-formed or not, it has at most its number of
  frames under way, each within its byte limit and incomplete, and all of them together hold at most the product of the two limits.
\<close>

theorem reassembly_bounded:
  assumes "reachable (\<lambda>r. rs_frames r = []) (reassembler_step sha) r"
  shows "length (rs_frames r) \<le> rs_max_inflight_frames r \<and>
     sum_list (map (\<lambda>(fid, f). sum_list (map (length \<circ> snd) (fr_parts f))) (rs_frames r)) \<le> rs_max_inflight_frames r * rs_max_frame_bytes r"
proof -
  have inv: "reassembler_inv r" using assms by (rule reassembly.reachable_inv)
  then have "sum_list (map (\<lambda>(fid, f). sum_list (map (length \<circ> snd) (fr_parts f))) (rs_frames r)) \<le> sum_list (map (\<lambda>_. rs_max_frame_bytes r) (rs_frames r))"
    by (intro sum_list_mono) (force simp: reassembler_inv_def frame_ok_def)
  also have "\<dots> = length (rs_frames r) * rs_max_frame_bytes r" by (simp add: sum_list_triv)
  also have "\<dots> \<le> rs_max_inflight_frames r * rs_max_frame_bytes r" using inv by (simp add: reassembler_inv_def)
  finally show ?thesis using inv by (simp add: reassembler_inv_def)
qed

theorem reassembly_bounded_witness:
  "length (rs_frames (fst (add (\<lambda>_. ''h'') demo_reassembler (demo_fragment 1)))) \<le> 2"
proof -
  have "reachable (\<lambda>r. rs_frames r = []) (reassembler_step (\<lambda>_. ''h'')) (fst (add (\<lambda>_. ''h'') demo_reassembler (demo_fragment 1)))"
    by (rule reachable_step [OF reachable_init]) (auto simp: demo_reassembler_def reassembler_step_def)
  from reassembly_bounded [OF this] show ?thesis by (simp add: demo_reassembler_def)
qed

end
