(* ===== verification/Sharing.thy ===== *)
theory Sharing
  imports Contracts
begin

text \<open>
  The default-deny policy for data streams, \<^verbatim>\<open>src/fasp_harness/policy/sharing.py\<close>: the parsing of sharing
  rules, the policy built from them, and the check that turns a peer's request into the contract of a
  stream. Sets of names are lists without duplicates; instants are in microseconds.
\<close>

section \<open>Fields\<close>

definition name_ok :: "json \<Rightarrow> bool" where
  "name_ok v = (case v of JStr s \<Rightarrow> py_strip s \<noteq> [] | _ \<Rightarrow> False)"

definition name_of :: "json \<Rightarrow> string" where
  "name_of v = (case v of JStr s \<Rightarrow> s | _ \<Rightarrow> [])"

definition strings_of :: "json \<Rightarrow> bool \<Rightarrow> string list result" where
  "strings_of v nonempty =
     (case v of
        JList xs \<Rightarrow>
          if nonempty \<and> xs = [] then Inl invalid
          else if \<not> list_all name_ok xs \<or> \<not> distinct xs then Inl invalid
          else Inr (map name_of xs)
      | _ \<Rightarrow> Inl invalid)"

definition positive_number :: "json \<Rightarrow> rat result" where
  "positive_number v =
     (case v of
        JInt i \<Rightarrow> if float_overflows i then Inl OtherException else if i \<le> 0 then Inl invalid else Inr (of_int i)
      | JFloat (Fin r) \<Rightarrow> if r \<le> 0 then Inl invalid else Inr r
      | _ \<Rightarrow> Inl invalid)"

definition positive_integer :: "json \<Rightarrow> bool \<Rightarrow> int result" where
  "positive_integer v zero =
     (case v of JInt i \<Rightarrow> if i < (if zero then 0 else 1) then Inl invalid else Inr i | _ \<Rightarrow> Inl invalid)"

section \<open>Rules\<close>

record StreamShareRule =
  sr_capability :: string
  sr_peer_ids :: "string list"
  sr_purposes :: "string list"
  sr_fields :: "string list"
  sr_content_types :: "string list"
  sr_delivery_modes :: "string list"
  sr_max_rate_hz :: rat
  sr_max_duration_s :: rat
  sr_max_payload_bytes :: int
  sr_max_window :: int
  sr_max_retention_packets :: int
  sr_forward_to :: "string list"
  sr_require_grant :: bool
  sr_storage_modes :: "string list"

definition rule_keys :: "string list" where
  "rule_keys =
     [''capability'', ''peer_ids'', ''purposes'', ''fields'', ''content_types'', ''delivery_modes'', ''max_rate_hz'', ''max_duration_s'',
      ''max_payload_bytes'', ''max_window'', ''max_retention_packets'', ''forward_to'', ''require_grant'', ''storage_modes'']"

text \<open>\<^verbatim>\<open>item.get(key, other)\<close>.\<close>

definition get_default :: "(string \<times> json) list \<Rightarrow> string \<Rightarrow> json \<Rightarrow> json" where
  "get_default kvs k d = (case map_of kvs k of None \<Rightarrow> d | Some v \<Rightarrow> v)"

definition rule_capability :: "json \<Rightarrow> string result" where
  "rule_capability v = (case v of JStr s \<Rightarrow> if s = [] \<or> CHR ''*'' \<in> set s then Inl invalid else Inr s | _ \<Rightarrow> Inl invalid)"

definition rule_flag :: "json \<Rightarrow> bool result" where
  "rule_flag v = (case v of JBool b \<Rightarrow> Inr b | _ \<Rightarrow> Inl invalid)"

definition rule_from_mapping :: "json \<Rightarrow> StreamShareRule result" where
  "rule_from_mapping v =
     (case v of
        JObj item \<Rightarrow>
          bind_result (require (set (map fst item) \<subseteq> set rule_keys)) (\<lambda>_.
          bind_result (rule_capability (get_or_null item ''capability'')) (\<lambda>capability.
          bind_result (strings_of (get_or_null item ''peer_ids'') True) (\<lambda>peer_ids.
          bind_result (require (''*'' \<notin> set peer_ids)) (\<lambda>_.
          bind_result (strings_of (get_or_null item ''delivery_modes'') True) (\<lambda>delivery_modes.
          bind_result (require (set delivery_modes \<subseteq> {''reliable'', ''latest''})) (\<lambda>_.
          bind_result (positive_number (get_or_null item ''max_rate_hz'')) (\<lambda>max_rate_hz.
          bind_result (require (max_rate_hz \<le> 10000)) (\<lambda>_.
          bind_result (rule_flag (get_default item ''require_grant'' (JBool True))) (\<lambda>require_grant.
          bind_result (strings_of (get_default item ''storage_modes'' (JList [JStr ''disk''])) True) (\<lambda>storage_modes.
          bind_result (require (set storage_modes \<subseteq> {''disk'', ''memory''})) (\<lambda>_.
          bind_result (strings_of (get_or_null item ''purposes'') True) (\<lambda>purposes.
          bind_result (strings_of (get_or_null item ''fields'') True) (\<lambda>field_names.
          bind_result (strings_of (get_or_null item ''content_types'') True) (\<lambda>content_types.
          bind_result (positive_number (get_or_null item ''max_duration_s'')) (\<lambda>max_duration_s.
          bind_result (positive_integer (get_or_null item ''max_payload_bytes'') False) (\<lambda>max_payload_bytes.
          bind_result (positive_integer (get_or_null item ''max_window'') False) (\<lambda>max_window.
          bind_result (positive_integer (get_or_null item ''max_retention_packets'') True) (\<lambda>max_retention.
          bind_result (strings_of (get_default item ''forward_to'' (JList [])) False) (\<lambda>forward_to.
          Inr \<lparr>sr_capability = capability, sr_peer_ids = peer_ids, sr_purposes = purposes, sr_fields = field_names,
               sr_content_types = content_types, sr_delivery_modes = delivery_modes, sr_max_rate_hz = max_rate_hz,
               sr_max_duration_s = max_duration_s, sr_max_payload_bytes = max_payload_bytes, sr_max_window = max_window,
               sr_max_retention_packets = max_retention, sr_forward_to = forward_to, sr_require_grant = require_grant,
               sr_storage_modes = storage_modes\<rparr>)))))))))))))))))))
      | _ \<Rightarrow> Inl invalid)"

section \<open>The policy\<close>

type_synonym StreamSharingPolicy = "StreamShareRule list"

definition rule_identities :: "StreamShareRule list \<Rightarrow> (string \<times> string) list" where
  "rule_identities rules = concat (map (\<lambda>r. map (\<lambda>p. (sr_capability r, p)) (sr_peer_ids r)) rules)"

definition new_policy :: "StreamShareRule list \<Rightarrow> StreamSharingPolicy result" where
  "new_policy rules = (if distinct (rule_identities rules) then Inr rules else Inl invalid)"

definition policy_from_config :: "json \<Rightarrow> StreamSharingPolicy result" where
  "policy_from_config v =
     (case v of
        JNull \<Rightarrow> new_policy []
      | JList items \<Rightarrow> bind_result (map_result rule_from_mapping items) new_policy
      | _ \<Rightarrow> Inl invalid)"

definition find_rule :: "StreamSharingPolicy \<Rightarrow> string \<Rightarrow> json \<Rightarrow> StreamShareRule option" where
  "find_rule rules peer_id capability =
     find (\<lambda>r. JStr (sr_capability r) = capability \<and> peer_id \<in> set (sr_peer_ids r)) rules"

section \<open>Opening a stream\<close>

definition denied :: exn where "denied = FaspError ''auth.not_authorized''"

definition permit :: "bool \<Rightarrow> unit result" where
  "permit b = guard_else b denied"

definition one_of :: "json \<Rightarrow> string list \<Rightarrow> string result" where
  "one_of v allowed = (case v of JStr s \<Rightarrow> if s \<in> set allowed then Inr s else Inl denied | _ \<Rightarrow> Inl denied)"

text \<open>The last instant a \<^verbatim>\<open>datetime\<close> holds, and the end of the lease a duration allows; \<^verbatim>\<open>None\<close> is an overflow.\<close>

definition MAX_INSTANT :: int where "MAX_INSTANT = 253402300799999999"

definition lease_limit :: "int \<Rightarrow> rat \<Rightarrow> int option" where
  "lease_limit current duration =
     (let e = current + py_round ((duration + 1) * 1000000) in if e \<le> MAX_INSTANT then Some e else None)"

definition check_deadline :: "json \<Rightarrow> int \<Rightarrow> rat \<Rightarrow> unit result" where
  "check_deadline expires_at current duration =
     bind_result (timestamp_field expires_at) (\<lambda>deadline.
     bind_result (guard_else (current < deadline) (FaspError ''lease.expired'')) (\<lambda>_.
     case lease_limit current duration of None \<Rightarrow> Inl OtherException | Some e \<Rightarrow> require (deadline \<le> e)))"

definition stream_id_ok :: "json \<Rightarrow> bool" where
  "stream_id_ok v = (case v of JNull \<Rightarrow> True | JStr s \<Rightarrow> s \<noteq> [] | _ \<Rightarrow> False)"

type_synonym stream_contract = "(string \<times> json) list"

definition names_json :: "string list \<Rightarrow> json" where
  "names_json names = JList (map JStr (sort names))"

definition build_contract ::
    "json \<Rightarrow> json \<Rightarrow> string \<Rightarrow> string list \<Rightarrow> string \<Rightarrow> string \<Rightarrow> string \<Rightarrow> rat \<Rightarrow> rat \<Rightarrow> json \<Rightarrow> int \<Rightarrow> int \<Rightarrow> int \<Rightarrow> string list \<Rightarrow>
     string option \<Rightarrow> stream_contract" where
  "build_contract stream_id capability purpose field_names content_type local_id delivery rate duration expires_at max_payload window retention
       forward_to storage =
     [(''stream_id'', stream_id), (''capability'', capability), (''purpose'', JStr purpose), (''fields'', names_json field_names),
      (''content_type'', JStr content_type), (''recipient'', JStr local_id), (''delivery'', JStr delivery),
      (''max_rate_hz'', JFloat (Fin rate)), (''duration_s'', JFloat (Fin duration)), (''expires_at'', expires_at),
      (''max_payload_bytes'', JInt max_payload), (''window'', JInt window), (''retention_packets'', JInt retention),
      (''forward_to'', names_json forward_to)] @
     (case storage of None \<Rightarrow> [] | Some s \<Rightarrow> [(''storage'', JStr s)])"

definition authorize_open ::
    "StreamSharingPolicy \<Rightarrow> int \<Rightarrow> string \<Rightarrow> string \<Rightarrow> (string \<times> json) list \<Rightarrow> (StreamShareRule \<times> stream_contract) result" where
  "authorize_open rules current peer_id local_id payload =
     (let capability = get_or_null payload ''capability'' in
      case find_rule rules peer_id capability of
        None \<Rightarrow> Inl denied
      | Some rule \<Rightarrow>
          bind_result (one_of (get_or_null payload ''purpose'') (sr_purposes rule)) (\<lambda>purpose.
          bind_result (strings_of (get_or_null payload ''fields'') True) (\<lambda>field_names.
          bind_result (permit (''*'' \<notin> set field_names \<and> set field_names \<subseteq> set (sr_fields rule))) (\<lambda>_.
          bind_result (one_of (get_or_null payload ''content_type'') (sr_content_types rule)) (\<lambda>content_type.
          bind_result (one_of (get_or_null payload ''delivery'') (sr_delivery_modes rule)) (\<lambda>delivery.
          bind_result (positive_number (get_or_null payload ''max_rate_hz'')) (\<lambda>rate.
          bind_result (positive_number (get_or_null payload ''duration_s'')) (\<lambda>duration.
          bind_result (positive_integer (get_or_null payload ''max_payload_bytes'') False) (\<lambda>max_payload.
          bind_result (positive_integer (get_or_null payload ''window'') False) (\<lambda>window.
          bind_result (positive_integer (get_or_null payload ''retention_packets'') True) (\<lambda>retention.
          bind_result (one_of (get_default payload ''storage'' (JStr ''disk'')) (sr_storage_modes rule)) (\<lambda>storage.
          bind_result (require (\<not> (storage = ''memory'' \<and> (delivery \<noteq> ''latest'' \<or> retention \<noteq> 0)))) (\<lambda>_.
          bind_result (permit (rate \<le> sr_max_rate_hz rule \<and> duration \<le> sr_max_duration_s rule \<and> max_payload \<le> sr_max_payload_bytes rule \<and>
                               window \<le> sr_max_window rule \<and> retention \<le> sr_max_retention_packets rule)) (\<lambda>_.
          bind_result (check_deadline (get_or_null payload ''expires_at'') current duration) (\<lambda>_.
          bind_result (strings_of (get_default payload ''forward_to'' (JList [])) False) (\<lambda>forward_to.
          bind_result (require (stream_id_ok (get_or_null payload ''stream_id''))) (\<lambda>_.
          bind_result (permit (get_or_null payload ''recipient'' = JStr local_id)) (\<lambda>_.
          bind_result (permit (peer_id \<notin> set forward_to \<and> local_id \<notin> set forward_to \<and> set forward_to \<subseteq> set (sr_forward_to rule))) (\<lambda>_.
          Inr (rule, build_contract (get_or_null payload ''stream_id'') capability purpose field_names content_type local_id delivery rate duration
            (get_or_null payload ''expires_at'') max_payload window retention forward_to
            (if map_of payload ''storage'' = None then None else Some storage)))))))))))))))))))))"

section \<open>What an authorized contract promises\<close>

lemma require_Inr_iff [simp]: "require b = Inr u \<longleftrightarrow> b"
  by (simp add: require_def)

lemma permit_Inr_iff [simp]: "permit b = Inr u \<longleftrightarrow> b"
  by (simp add: permit_def)

lemma one_of_Inr_iff: "one_of v allowed = Inr s \<longleftrightarrow> v = JStr s \<and> s \<in> set allowed"
  by (auto simp: one_of_def split: json.splits)

lemma positive_number_pos: "positive_number v = Inr r \<Longrightarrow> 0 < r"
  by (auto simp: positive_number_def split: json.splits pyfloat.splits if_splits)

lemma positive_integer_Inr_iff: "positive_integer v z = Inr i \<longleftrightarrow> v = JInt i \<and> (if z then 0 else 1) \<le> i"
  by (auto simp: positive_integer_def split: json.splits)

lemma strings_of_names:
  assumes "strings_of v b = Inr xs"
  shows "strings_of (names_json xs) b = Inr (sort xs)" and "distinct xs" and "b \<longrightarrow> xs \<noteq> []"
proof -
  obtain js where js: "v = JList js" "b \<longrightarrow> js \<noteq> []" "list_all name_ok js" "distinct js" "xs = map name_of js"
    using assms by (auto simp: strings_of_def split: json.splits if_splits)
  have ok: "\<forall>x \<in> set xs. py_strip x \<noteq> []"
    using js(3,5) by (auto simp: list_all_iff name_ok_def name_of_def split: json.splits)
  have "inj_on name_of (set js)"
    using js(3) by (auto simp: inj_on_def list_all_iff name_ok_def name_of_def split: json.splits)
  then show d: "distinct xs" using js(4,5) by (simp add: distinct_map)
  show ne: "b \<longrightarrow> xs \<noteq> []" using js(2,5) by simp
  have "distinct (map JStr (sort xs))" using d by (simp add: distinct_map inj_on_def)
  moreover have "list_all name_ok (map JStr (sort xs))" using ok by (simp add: list_all_iff name_ok_def)
  moreover have "map name_of (map JStr (sort xs)) = sort xs" by (simp add: name_of_def comp_def)
  moreover have "b \<longrightarrow> sort xs \<noteq> []" using ne by (metis length_0_conv length_sort)
  ultimately show "strings_of (names_json xs) b = Inr (sort xs)" by (simp add: strings_of_def names_json_def)
qed

lemma check_deadline_Inr_iff:
  "check_deadline v current duration = Inr u \<longleftrightarrow>
   (\<exists>deadline e. timestamp_field v = Inr deadline \<and> current < deadline \<and> lease_limit current duration = Some e \<and> deadline \<le> e)"
  by (auto simp: check_deadline_def bind_result_Inr_iff split: option.splits)

text \<open>The parsed request behind an authorization.\<close>

definition authorized_as ::
    "StreamShareRule \<Rightarrow> int \<Rightarrow> string \<Rightarrow> string \<Rightarrow> (string \<times> json) list \<Rightarrow> string list \<Rightarrow> rat \<Rightarrow> rat \<Rightarrow> int \<Rightarrow> int \<Rightarrow> int \<Rightarrow> string list \<Rightarrow> string \<Rightarrow> bool" where
  "authorized_as rule current peer_id local_id payload field_names rate duration max_payload window retention forward_to storage \<longleftrightarrow>
     (\<exists>purpose \<in> set (sr_purposes rule). get_or_null payload ''purpose'' = JStr purpose) \<and>
     strings_of (get_or_null payload ''fields'') True = Inr field_names \<and> ''*'' \<notin> set field_names \<and> set field_names \<subseteq> set (sr_fields rule) \<and>
     (\<exists>content_type \<in> set (sr_content_types rule). get_or_null payload ''content_type'' = JStr content_type) \<and>
     (\<exists>delivery \<in> set (sr_delivery_modes rule). get_or_null payload ''delivery'' = JStr delivery \<and>
        (storage = ''memory'' \<longrightarrow> delivery = ''latest'' \<and> retention = 0)) \<and>
     positive_number (get_or_null payload ''max_rate_hz'') = Inr rate \<and> rate \<le> sr_max_rate_hz rule \<and>
     positive_number (get_or_null payload ''duration_s'') = Inr duration \<and> duration \<le> sr_max_duration_s rule \<and>
     get_or_null payload ''max_payload_bytes'' = JInt max_payload \<and> 1 \<le> max_payload \<and> max_payload \<le> sr_max_payload_bytes rule \<and>
     get_or_null payload ''window'' = JInt window \<and> 1 \<le> window \<and> window \<le> sr_max_window rule \<and>
     get_or_null payload ''retention_packets'' = JInt retention \<and> 0 \<le> retention \<and> retention \<le> sr_max_retention_packets rule \<and>
     get_default payload ''storage'' (JStr ''disk'') = JStr storage \<and> storage \<in> set (sr_storage_modes rule) \<and>
     check_deadline (get_or_null payload ''expires_at'') current duration = Inr () \<and>
     strings_of (get_default payload ''forward_to'' (JList [])) False = Inr forward_to \<and>
     stream_id_ok (get_or_null payload ''stream_id'') \<and> get_or_null payload ''recipient'' = JStr local_id \<and>
     peer_id \<notin> set forward_to \<and> local_id \<notin> set forward_to \<and> set forward_to \<subseteq> set (sr_forward_to rule)"

definition contract_for ::
    "string \<Rightarrow> (string \<times> json) list \<Rightarrow> string list \<Rightarrow> rat \<Rightarrow> rat \<Rightarrow> int \<Rightarrow> int \<Rightarrow> int \<Rightarrow> string list \<Rightarrow> string \<Rightarrow> stream_contract" where
  "contract_for local_id payload field_names rate duration max_payload window retention forward_to storage =
     build_contract (get_or_null payload ''stream_id'') (get_or_null payload ''capability'') (name_of (get_or_null payload ''purpose''))
       field_names (name_of (get_or_null payload ''content_type'')) local_id (name_of (get_or_null payload ''delivery'')) rate duration
       (get_or_null payload ''expires_at'') max_payload window retention forward_to
       (if map_of payload ''storage'' = None then None else Some storage)"

lemma authorize_open_iff:
  "authorize_open rules current peer_id local_id payload = Inr (rule, c) \<longleftrightarrow>
   find_rule rules peer_id (get_or_null payload ''capability'') = Some rule \<and>
   (\<exists>field_names rate duration max_payload window retention forward_to storage.
      authorized_as rule current peer_id local_id payload field_names rate duration max_payload window retention forward_to storage \<and>
      c = contract_for local_id payload field_names rate duration max_payload window retention forward_to storage)"
  (is "?L \<longleftrightarrow> ?R")
proof
  assume l: ?L
  then obtain r where r: "find_rule rules peer_id (get_or_null payload ''capability'') = Some r"
    by (auto simp: authorize_open_def Let_def split: option.splits)
  show ?R
    using l unfolding authorize_open_def Let_def r authorized_as_def contract_for_def
    by (simp only: option.case bind_result_Inr_iff one_of_Inr_iff positive_integer_Inr_iff require_Inr_iff permit_Inr_iff)
       (elim exE conjE, simp add: name_of_def)
next
  assume ?R
  then show ?L
    unfolding authorize_open_def Let_def authorized_as_def contract_for_def
    by (elim exE conjE bexE)
       (simp add: bind_result_Inr_iff one_of_Inr_iff positive_integer_Inr_iff name_of_def)
qed

lemma sort_Nil_iff: "sort xs = [] \<longleftrightarrow> xs = []"
  by (metis length_0_conv length_sort)

lemma find_rule_Some:
  assumes "find_rule rules peer_id capability = Some rule"
  shows "rule \<in> set rules" and "capability = JStr (sr_capability rule)" and "peer_id \<in> set (sr_peer_ids rule)"
  using find_Some_mem [OF assms [unfolded find_rule_def]] by auto

lemma get_build_contract [simp]:
  "map_of (build_contract sid cap pur fs ct l del rate dur ex mp w ret fwd st) ''stream_id'' = Some sid"
  "map_of (build_contract sid cap pur fs ct l del rate dur ex mp w ret fwd st) ''capability'' = Some cap"
  "map_of (build_contract sid cap pur fs ct l del rate dur ex mp w ret fwd st) ''purpose'' = Some (JStr pur)"
  "map_of (build_contract sid cap pur fs ct l del rate dur ex mp w ret fwd st) ''fields'' = Some (names_json fs)"
  "map_of (build_contract sid cap pur fs ct l del rate dur ex mp w ret fwd st) ''content_type'' = Some (JStr ct)"
  "map_of (build_contract sid cap pur fs ct l del rate dur ex mp w ret fwd st) ''recipient'' = Some (JStr l)"
  "map_of (build_contract sid cap pur fs ct l del rate dur ex mp w ret fwd st) ''delivery'' = Some (JStr del)"
  "map_of (build_contract sid cap pur fs ct l del rate dur ex mp w ret fwd st) ''max_rate_hz'' = Some (JFloat (Fin rate))"
  "map_of (build_contract sid cap pur fs ct l del rate dur ex mp w ret fwd st) ''duration_s'' = Some (JFloat (Fin dur))"
  "map_of (build_contract sid cap pur fs ct l del rate dur ex mp w ret fwd st) ''expires_at'' = Some ex"
  "map_of (build_contract sid cap pur fs ct l del rate dur ex mp w ret fwd st) ''max_payload_bytes'' = Some (JInt mp)"
  "map_of (build_contract sid cap pur fs ct l del rate dur ex mp w ret fwd st) ''window'' = Some (JInt w)"
  "map_of (build_contract sid cap pur fs ct l del rate dur ex mp w ret fwd st) ''retention_packets'' = Some (JInt ret)"
  "map_of (build_contract sid cap pur fs ct l del rate dur ex mp w ret fwd st) ''forward_to'' = Some (names_json fwd)"
  "map_of (build_contract sid cap pur fs ct l del rate dur ex mp w ret fwd st) ''storage'' = map_option JStr st"
  "map_of (build_contract sid cap pur fs ct l del rate dur ex mp w ret fwd st) ''grant'' = None"
  by (auto simp: build_contract_def split: option.split)

lemma set_names_json: "names_json xs = JList (map JStr (sort xs))"
  by (simp add: names_json_def)


text \<open>The terms of a contract, apart from the identifier of the stream and the reference to a grant.\<close>

definition same_terms :: "stream_contract \<Rightarrow> stream_contract \<Rightarrow> bool" where
  "same_terms c c' \<longleftrightarrow> (\<forall>k. k \<noteq> ''stream_id'' \<and> k \<noteq> ''grant'' \<longrightarrow> map_of c' k = map_of c k)"

lemma lease_limit_later:
  assumes "lease_limit t d = Some e" and "t \<le> t'" and "lease_limit t' d \<noteq> None"
  shows "\<exists>e' \<ge> e. lease_limit t' d = Some e'"
  using assms by (auto simp: lease_limit_def Let_def split: if_splits)

lemma dict_put_build_contract:
  "dict_put ''stream_id'' v (build_contract sid cap pur fs ct l del rate dur ex mp w ret fwd st) =
   build_contract v cap pur fs ct l del rate dur ex mp w ret fwd st"
  by (simp add: build_contract_def)

lemma build_contract_sort:
  "build_contract sid cap pur (sort fs) ct l del rate dur ex mp w ret (sort fwd) st = build_contract sid cap pur fs ct l del rate dur ex mp w ret fwd st"
  by (simp add: build_contract_def names_json_def sorted_sort_id)

lemma contract_reauthorized:
  assumes "authorize_open rules t peer_id local_id payload = Inr (rule, c)" and "same_terms c c'"
    and "stream_id_ok (get_or_null c' ''stream_id'')"
    and "timestamp_field (get_or_null c ''expires_at'') = Inr deadline" and "t \<le> t'" and "t' < deadline"
    and "get_or_null c ''duration_s'' = JFloat (Fin duration)" and "lease_limit t' duration \<noteq> None"
  shows "authorize_open rules t' peer_id local_id c' = Inr (rule, dict_put ''stream_id'' (get_or_null c' ''stream_id'') c)"
proof -
  obtain fs rate dur mp w ret fwd st where r: "find_rule rules peer_id (get_or_null payload ''capability'') = Some rule"
    and a: "authorized_as rule t peer_id local_id payload fs rate dur mp w ret fwd st"
    and c: "c = contract_for local_id payload fs rate dur mp w ret fwd st"
    using assms(1) unfolding authorize_open_iff by (elim exE conjE) (rule that)
  have g: "get_or_null c' k = get_or_null c k" if "k \<noteq> ''stream_id''" "k \<noteq> ''grant''" for k
    using assms(2) that by (simp add: same_terms_def get_or_null_def)
  have gd: "get_default c' k d = get_default c k d" if "k \<noteq> ''stream_id''" "k \<noteq> ''grant''" for k d
    using assms(2) that by (simp add: same_terms_def get_default_def)
  have ms: "map_of c' ''storage'' = map_of c ''storage''" using assms(2) by (simp add: same_terms_def)
  have gc: "get_or_null c k = the (map_of c k)" if "map_of c k \<noteq> None" for k using that by (auto simp: get_or_null_def)
  have dur: "duration = dur" using assms(7) by (simp add: c contract_for_def get_or_null_def)
  obtain e where e: "lease_limit t dur = Some e" "deadline \<le> e"
    using a assms(4) by (auto simp: authorized_as_def check_deadline_Inr_iff c contract_for_def get_or_null_def)
  have dl: "check_deadline (get_or_null c ''expires_at'') t' dur = Inr ()"
    using lease_limit_later [OF e(1) assms(5)] assms(4,6,8) e(2) dur unfolding check_deadline_Inr_iff by fastforce
  have ff: "strings_of (names_json fs) True = Inr (sort fs)" and fw: "strings_of (names_json fwd) False = Inr (sort fwd)"
    using a strings_of_names(1) by (auto simp: authorized_as_def)
  have pos: "positive_number (JFloat (Fin rate)) = Inr rate" "positive_number (JFloat (Fin dur)) = Inr dur"
    using a positive_number_pos [of _ rate] positive_number_pos [of _ dur] by (auto simp: authorized_as_def positive_number_def)
  have st: "get_default c ''storage'' (JStr ''disk'') = JStr st"
    using a by (auto simp: authorized_as_def c contract_for_def get_default_def split: option.splits)
  have "authorized_as rule t' peer_id local_id c' (sort fs) rate dur mp w ret (sort fwd) st"
    using a assms(3) dl ff fw pos st unfolding authorized_as_def
    by (auto simp: g gd) (simp_all add: c contract_for_def name_of_def get_or_null_def get_default_def)
  moreover have "contract_for local_id c' (sort fs) rate dur mp w ret (sort fwd) st = dict_put ''stream_id'' (get_or_null c' ''stream_id'') c"
    unfolding contract_for_def ms g
    by (simp add: g c contract_for_def dict_put_build_contract build_contract_sort name_of_def) (simp add: get_or_null_def)
  moreover have "find_rule rules peer_id (get_or_null c' ''capability'') = Some rule"
    using r by (simp add: g c contract_for_def) (simp add: get_or_null_def)
  ultimately show ?thesis unfolding authorize_open_iff by (metis (no_types))
qed

section \<open>An example\<close>

definition demo_rule :: StreamShareRule where
  "demo_rule =
     \<lparr>sr_capability = ''telemetry'', sr_peer_ids = [''p''], sr_purposes = [''ops''], sr_fields = [''t'', ''u''],
      sr_content_types = [''application/octet-stream''], sr_delivery_modes = [''reliable''], sr_max_rate_hz = 10, sr_max_duration_s = 60,
      sr_max_payload_bytes = 1000, sr_max_window = 4, sr_max_retention_packets = 2, sr_forward_to = [''q''], sr_require_grant = False,
      sr_storage_modes = [''disk'']\<rparr>"

definition demo_request :: "(string \<times> json) list" where
  "demo_request =
     [(''stream_id'', JStr ''s''), (''capability'', JStr ''telemetry''), (''purpose'', JStr ''ops''), (''fields'', JList [JStr ''t'']),
      (''content_type'', JStr ''application/octet-stream''), (''recipient'', JStr ''me''), (''delivery'', JStr ''reliable''),
      (''max_rate_hz'', JInt 10), (''duration_s'', JInt 60), (''expires_at'', JStr (stamp 1704067260000)), (''max_payload_bytes'', JInt 1000),
      (''window'', JInt 4), (''retention_packets'', JInt 2), (''forward_to'', JList [JStr ''q''])]"

definition demo_contract :: stream_contract where
  "demo_contract = build_contract (JStr ''s'') (JStr ''telemetry'') ''ops'' [''t''] ''application/octet-stream'' ''me'' ''reliable'' 10 60
     (JStr (stamp 1704067260000)) 1000 4 2 [''q''] None"

lemma demo_deadline: "timestamp_field (JStr (stamp 1704067260000)) = Inr 1704067260000000"
  using parse_stamp_stamp [of 1704067260000] by (simp add: timestamp_field_def representable_def DAY_MS_def epoch_ordinal_def days_before_year_def ymd2ord_def)

lemma demo_strip: "py_strip ''t'' = ''t''" "py_strip ''q'' = ''q''"
  by (simp_all add: py_strip_def py_space_def)

lemma demo_authorized:
  "authorize_open [demo_rule] 1704067200000000 ''p'' ''me'' demo_request = Inr (demo_rule, demo_contract)"
proof -
  have "lease_limit 1704067200000000 60 = Some 1704067261000000"
    by (simp add: lease_limit_def MAX_INSTANT_def py_round_def)
  then have "check_deadline (JStr (stamp 1704067260000)) 1704067200000000 60 = Inr ()"
    using demo_deadline by (simp add: check_deadline_Inr_iff)
  then have "authorized_as demo_rule 1704067200000000 ''p'' ''me'' demo_request [''t''] 10 60 1000 4 2 [''q''] ''disk''"
    by (simp add: authorized_as_def demo_rule_def demo_request_def get_or_null_def get_default_def strings_of_def name_ok_def name_of_def demo_strip
        positive_number_def float_overflows_def stream_id_ok_def)
  moreover have "contract_for ''me'' demo_request [''t''] 10 60 1000 4 2 [''q''] ''disk'' = demo_contract"
    by (simp add: contract_for_def demo_request_def get_or_null_def demo_contract_def name_of_def)
  moreover have "find_rule [demo_rule] ''p'' (get_or_null demo_request ''capability'') = Some demo_rule"
    by (simp add: find_rule_def demo_rule_def demo_request_def get_or_null_def)
  ultimately show ?thesis unfolding authorize_open_iff by (metis (no_types))
qed


end
