(* ===== verification/Streams.thy ===== *)
theory Streams
  imports Packets Sharing
begin

text \<open>
  Live streams: the tables of \<^verbatim>\<open>src/fasp_harness/storage/streams_repo.py\<close> and the \<^verbatim>\<open>StreamRegistry\<close> of
  \<^verbatim>\<open>streaming.py\<close> built on them. The text scanner of the standard library is a parameter: it gives the
  decoded value with every pair of every object, or nothing for a malformed text or a non-finite
  constant. Instants are in microseconds; the columns of a stream have the types of an authorized
  contract.
\<close>

section \<open>The tables\<close>

datatype stream_state = StreamOpen | StreamClosed

record stream_row =
  st_stream_id :: string
  st_owner :: string
  st_state :: stream_state
  st_delivery :: string
  st_content_type :: string
  st_max_payload_bytes :: int
  st_window :: int
  st_retention_packets :: int
  st_next_expected :: int
  st_last_sequence :: int
  st_contract :: stream_contract
  st_expires_at :: json
  st_last_packet_at :: "int option"

record packet_row =
  pk_stream_id :: string
  pk_sequence :: int
  pk_packet :: packet

record memory_stream =
  mm_next_expected :: int
  mm_last_sequence :: int
  mm_last_packet_at :: "int option"
  mm_expires_at :: json

type_synonym grant_ref = "(string \<times> json) list"

record registry =
  sg_rows :: "stream_row list"
  sg_packets :: "packet_row list"
  sg_memory :: "(string \<times> memory_stream) list"
  sg_subscribers :: "(string \<times> (string \<times> grant_ref) list) list"

definition empty_registry :: registry where
  "empty_registry = \<lparr>sg_rows = [], sg_packets = [], sg_memory = [], sg_subscribers = []\<rparr>"

definition repo_get :: "registry \<Rightarrow> string \<Rightarrow> stream_row option" where
  "repo_get s stream_id = find (\<lambda>r. st_stream_id r = stream_id) (sg_rows s)"

definition contract_text :: "stream_contract \<Rightarrow> string \<Rightarrow> string result" where
  "contract_text c k = (case map_of c k of None \<Rightarrow> Inl KeyError | Some (JStr s) \<Rightarrow> Inr s | Some _ \<Rightarrow> Inl TypeError)"

definition contract_int :: "stream_contract \<Rightarrow> string \<Rightarrow> int result" where
  "contract_int c k = (case map_of c k of None \<Rightarrow> Inl KeyError | Some (JInt i) \<Rightarrow> Inr i | Some _ \<Rightarrow> Inl TypeError)"

definition repo_open :: "registry \<Rightarrow> string \<Rightarrow> string \<Rightarrow> stream_contract \<Rightarrow> (registry \<times> stream_row) result" where
  "repo_open s stream_id owner contract =
     bind_result (contract_text contract ''delivery'') (\<lambda>delivery.
     bind_result (contract_text contract ''content_type'') (\<lambda>content_type.
     bind_result (contract_int contract ''max_payload_bytes'') (\<lambda>max_payload.
     bind_result (contract_int contract ''window'') (\<lambda>window.
     bind_result (contract_int contract ''retention_packets'') (\<lambda>retention.
     bind_result (guard_else (map_of contract ''expires_at'' \<noteq> None) KeyError) (\<lambda>_.
     bind_result (guard_else (repo_get s stream_id = None) OtherException) (\<lambda>_.
     let row = \<lparr>st_stream_id = stream_id, st_owner = owner, st_state = StreamOpen, st_delivery = delivery, st_content_type = content_type,
                st_max_payload_bytes = max_payload, st_window = window, st_retention_packets = retention, st_next_expected = 0,
                st_last_sequence = -1, st_contract = contract, st_expires_at = get_or_null contract ''expires_at'', st_last_packet_at = None\<rparr>
     in Inr (s\<lparr>sg_rows := sg_rows s @ [row]\<rparr>, row))))))))"

definition packet_sequences :: "packet_row list \<Rightarrow> string \<Rightarrow> int list" where
  "packet_sequences rows stream_id = map pk_sequence (filter (\<lambda>p. pk_stream_id p = stream_id) rows)"

definition newest :: "nat \<Rightarrow> int list \<Rightarrow> int list" where
  "newest n xs = take n (rev (sort xs))"

definition prune :: "packet_row list \<Rightarrow> string \<Rightarrow> int \<Rightarrow> packet_row list" where
  "prune rows stream_id retention =
     filter (\<lambda>p. pk_stream_id p \<noteq> stream_id \<or> pk_sequence p \<in> set (newest (nat retention) (packet_sequences rows stream_id))) rows"

text \<open>One transaction; \<^verbatim>\<open>Inl\<close> is the integrity error of a sequence number stored twice, which rolls it back.\<close>

definition advance ::
    "registry \<Rightarrow> string \<Rightarrow> int \<Rightarrow> int \<Rightarrow> (int \<times> packet) option \<Rightarrow> int \<Rightarrow> int \<Rightarrow> registry \<times> bool result" where
  "advance s stream_id next_expected last_sequence retained retention received_at =
     (let hit = (\<lambda>r. st_stream_id r = stream_id \<and> st_state r = StreamOpen);
          s' = s\<lparr>sg_rows := update_where hit (\<lambda>r. r\<lparr>st_next_expected := next_expected, st_last_sequence := last_sequence,
                                               st_last_packet_at := Some received_at\<rparr>) (sg_rows s)\<rparr>
      in if \<not> list_ex hit (sg_rows s) then (s, Inr False)
         else case retained of
                None \<Rightarrow> (s', Inr True)
              | Some (sequence, packet) \<Rightarrow>
                  if retention = 0 then (s', Inr True)
                  else if sequence \<in> set (packet_sequences (sg_packets s) stream_id) then (s, Inl OtherException)
                  else (s'\<lparr>sg_packets := prune (sg_packets s @ [\<lparr>pk_stream_id = stream_id, pk_sequence = sequence, pk_packet = packet\<rparr>])
                                           stream_id retention\<rparr>, Inr True))"

definition packets_after :: "registry \<Rightarrow> string \<Rightarrow> int \<Rightarrow> packet list" where
  "packets_after s stream_id after_sequence =
     map pk_packet (sort_key pk_sequence (filter (\<lambda>p. pk_stream_id p = stream_id \<and> after_sequence < pk_sequence p) (sg_packets s)))"

definition repo_close :: "registry \<Rightarrow> string \<Rightarrow> registry" where
  "repo_close s stream_id =
     s\<lparr>sg_rows := update_where (\<lambda>r. st_stream_id r = stream_id) (\<lambda>r. r\<lparr>st_state := StreamClosed\<rparr>) (sg_rows s),
       sg_packets := filter (\<lambda>p. pk_stream_id p \<noteq> stream_id) (sg_packets s)\<rparr>"

section \<open>The registry\<close>

definition drop_live :: "registry \<Rightarrow> string \<Rightarrow> registry" where
  "drop_live s stream_id =
     s\<lparr>sg_subscribers := AList.delete stream_id (sg_subscribers s), sg_memory := AList.delete stream_id (sg_memory s)\<rparr>"

definition expire :: "registry \<Rightarrow> string \<Rightarrow> registry" where
  "expire s stream_id = drop_live (repo_close s stream_id) stream_id"

definition not_open :: exn where "not_open = FaspError ''stream.not_open''"

text \<open>Whether a deadline has passed; a value that is no text counts as passed, a text that is no time raises.\<close>

definition deadline_passed :: "json \<Rightarrow> int \<Rightarrow> bool result" where
  "deadline_passed v now =
     (case v of JStr text \<Rightarrow> (case parse_stamp text of None \<Rightarrow> Inl ValueError | Some t \<Rightarrow> Inr (t \<le> now)) | _ \<Rightarrow> Inr True)"

definition require_active :: "registry \<Rightarrow> int \<Rightarrow> stream_row option \<Rightarrow> registry \<times> stream_row result" where
  "require_active s now stream =
     (case stream of
        None \<Rightarrow> (s, Inl not_open)
      | Some row \<Rightarrow>
          if st_state row \<noteq> StreamOpen then (s, Inl not_open)
          else (case deadline_passed (st_expires_at row) now of
                  Inl e \<Rightarrow> (s, Inl e)
                | Inr True \<Rightarrow> (expire s (st_stream_id row), Inl (FaspError ''lease.expired''))
                | Inr False \<Rightarrow> (s, Inr row)))"

definition forwards_to :: "stream_contract \<Rightarrow> string \<Rightarrow> bool" where
  "forwards_to c peer_id = (case get_default c ''forward_to'' (JList []) of JList xs \<Rightarrow> JStr peer_id \<in> set xs | _ \<Rightarrow> False)"

definition on_active ::
    "registry \<Rightarrow> int \<Rightarrow> string \<Rightarrow> (stream_row \<Rightarrow> registry \<times> 'a result) \<Rightarrow> registry \<times> 'a result" where
  "on_active s now stream_id k =
     (case require_active s now (repo_get s stream_id) of (s', Inl e) \<Rightarrow> (s', Inl e) | (s', Inr row) \<Rightarrow> k row)"

definition put_subscriber :: "registry \<Rightarrow> string \<Rightarrow> string \<Rightarrow> grant_ref \<Rightarrow> registry" where
  "put_subscriber s stream_id peer_id grant =
     s\<lparr>sg_subscribers := AList.update stream_id
         (AList.update peer_id grant (case map_of (sg_subscribers s) stream_id of None \<Rightarrow> [] | Some live \<Rightarrow> live)) (sg_subscribers s)\<rparr>"

definition subscribe :: "registry \<Rightarrow> int \<Rightarrow> string \<Rightarrow> string \<Rightarrow> grant_ref \<Rightarrow> registry \<times> json result" where
  "subscribe s now peer_id stream_id grant =
     on_active s now stream_id (\<lambda>stream.
       if peer_id = st_owner stream then (s, Inl denied)
       else if \<not> forwards_to (st_contract stream) peer_id then (s, Inl denied)
       else (put_subscriber s stream_id peer_id grant,
             Inr (JObj [(''type'', JStr ''stream.subscribed''), (''stream_id'', JStr stream_id), (''last_sequence'', JInt (st_last_sequence stream))])))"

definition unsubscribe :: "registry \<Rightarrow> string \<Rightarrow> string \<Rightarrow> registry" where
  "unsubscribe s peer_id stream_id =
     (case map_of (sg_subscribers s) stream_id of
        None \<Rightarrow> s
      | Some live \<Rightarrow>
          let live' = AList.delete peer_id live in
          s\<lparr>sg_subscribers := (if live' = [] then AList.delete stream_id (sg_subscribers s) else AList.update stream_id live' (sg_subscribers s))\<rparr>)"

definition subscription_grants_of :: "registry \<Rightarrow> string \<Rightarrow> (string \<times> grant_ref) list" where
  "subscription_grants_of s stream_id = (case map_of (sg_subscribers s) stream_id of None \<Rightarrow> [] | Some live \<Rightarrow> live)"

definition in_memory :: "stream_contract \<Rightarrow> bool" where
  "in_memory c = (map_of c ''storage'' = Some (JStr ''memory''))"

definition MAX_MEMORY_STREAMS :: nat where "MAX_MEMORY_STREAMS = 128"

definition session_expired :: exn where "session_expired = FaspError ''stream.session_expired''"

text \<open>\<^verbatim>\<open>config.get("stream_id") or str(uuid.uuid4())\<close>; the random identifier is an argument.\<close>

definition open_stream_id :: "stream_contract \<Rightarrow> string \<Rightarrow> string" where
  "open_stream_id config fresh = (case get_or_null config ''stream_id'' of JStr (c # cs) \<Rightarrow> c # cs | _ \<Rightarrow> fresh)"

definition open_limits_ok :: "stream_contract \<Rightarrow> bool result" where
  "open_limits_ok config =
     bind_result (contract_int config ''max_payload_bytes'') (\<lambda>m.
     if \<not> (1 \<le> m \<and> m \<le> int MAX_PACKET_BYTES) then Inr False
     else bind_result (contract_int config ''window'') (\<lambda>w.
     if \<not> (1 \<le> w \<and> w \<le> MAX_WINDOW) then Inr False
     else bind_result (contract_int config ''retention_packets'') (\<lambda>r. Inr (0 \<le> r \<and> r \<le> MAX_RETENTION_PACKETS))))"

definition expired_memory :: "registry \<Rightarrow> int \<Rightarrow> string list" where
  "expired_memory s now = map fst (filter (\<lambda>(k, m). deadline_passed (mm_expires_at m) now = Inr True) (sg_memory s))"

definition sweep_memory :: "registry \<Rightarrow> int \<Rightarrow> registry" where
  "sweep_memory s now = fold (\<lambda>k s. drop_live s k) (expired_memory s now) s"

definition open_new :: "registry \<Rightarrow> int \<Rightarrow> string \<Rightarrow> string \<Rightarrow> stream_contract \<Rightarrow> registry \<times> stream_row result" where
  "open_new s now stream_id owner contract =
     (let s1 = if in_memory contract then sweep_memory s now else s in
      if in_memory contract \<and> length (sg_memory s1) \<ge> MAX_MEMORY_STREAMS then (s1, Inl (FaspError ''resource.exhausted''))
      else case repo_open s1 stream_id owner contract of
             Inl e \<Rightarrow> (s1, Inl e)
           | Inr (s2, row) \<Rightarrow>
               (if in_memory contract
                then s2\<lparr>sg_memory := AList.update stream_id
                       \<lparr>mm_next_expected = 0, mm_last_sequence = -1, mm_last_packet_at = None, mm_expires_at = get_or_null contract ''expires_at''\<rparr>
                       (sg_memory s2)\<rparr>
                else s2, Inr row))"

definition open_stream :: "registry \<Rightarrow> int \<Rightarrow> string \<Rightarrow> string \<Rightarrow> stream_contract \<Rightarrow> registry \<times> stream_row result" where
  "open_stream s now fresh owner config =
     (let stream_id = open_stream_id config fresh; contract = dict_put ''stream_id'' (JStr stream_id) config in
      case open_limits_ok config of
        Inl e \<Rightarrow> (s, Inl e)
      | Inr False \<Rightarrow> (s, Inl (FaspError ''resource.exhausted''))
      | Inr True \<Rightarrow>
          (case repo_get s stream_id of
             None \<Rightarrow> open_new s now stream_id owner contract
           | Some existing \<Rightarrow>
               if st_owner existing = owner \<and> st_state existing = StreamOpen \<and> py_eq (JObj (st_contract existing)) (JObj contract)
               then (case require_active s now (Some existing) of
                       (s', Inl e) \<Rightarrow> (s', Inl e)
                     | (s', Inr row) \<Rightarrow>
                         if in_memory contract \<and> map_of (sg_memory s') stream_id = None then (s', Inl session_expired) else (s', Inr row))
               else (s, Inl (FaspError ''stream.id_conflict''))))"

section \<open>Packets\<close>

definition sequence_of :: "packet \<Rightarrow> int result" where
  "sequence_of packet =
     (case (get_or_null packet ''sequence'', get_or_null packet ''epoch'') of
        (JInt n, JBool _) \<Rightarrow> Inl (FaspError ''stream.invalid_sequence'')
      | (JInt n, epoch) \<Rightarrow> if 0 \<le> n \<and> py_eq epoch (JInt 0) then Inr n else Inl (FaspError ''stream.invalid_sequence'')
      | _ \<Rightarrow> Inl (FaspError ''stream.invalid_sequence''))"

fun unique_keys :: "json \<Rightarrow> bool" where
  "unique_keys (JObj kvs) = (distinct (map fst kvs) \<and> list_all (\<lambda>kv. unique_keys (snd kv)) kvs)"
| "unique_keys (JList xs) = list_all unique_keys xs"
| "unique_keys _ = True"

definition invalid_json :: exn where "invalid_json = FaspError ''stream.invalid_json''"

definition declared_fields :: "stream_contract \<Rightarrow> string list result" where
  "declared_fields c = (case map_of c ''fields'' of None \<Rightarrow> Inl KeyError | Some (JList xs) \<Rightarrow> Inr (map name_of xs) | Some _ \<Rightarrow> Inl TypeError)"

definition validate_json_record :: "(bytes \<Rightarrow> json option) \<Rightarrow> packet \<Rightarrow> stream_contract \<Rightarrow> bytes \<Rightarrow> unit result" where
  "validate_json_record scan packet contract data =
     bind_result (guard_else (get_or_null packet ''fragment_count'' = JInt 1 \<and> get_or_null packet ''fragment_index'' = JInt 0) invalid_json) (\<lambda>_.
     case scan data of
       Some (JObj record) \<Rightarrow>
         bind_result (guard_else (unique_keys (JObj record)) invalid_json) (\<lambda>_.
         bind_result (declared_fields contract) (\<lambda>names. permit (set (map fst record) \<subseteq> set names)))
     | _ \<Rightarrow> Inl invalid_json)"

definition contract_rate :: "stream_contract \<Rightarrow> rat result" where
  "contract_rate c =
     (case map_of c ''max_rate_hz'' of
        None \<Rightarrow> Inl KeyError
      | Some v \<Rightarrow> (case as_number v of Some (Fin r) \<Rightarrow> if r = 0 then Inl ZeroDivisionError else Inr r | _ \<Rightarrow> Inl TypeError))"

definition check_rate :: "stream_row \<Rightarrow> int \<Rightarrow> unit result" where
  "check_rate stream received_at =
     (case st_last_packet_at stream of
        None \<Rightarrow> Inr ()
      | Some t \<Rightarrow> bind_result (contract_rate (st_contract stream)) (\<lambda>rate.
          guard_else (\<not> of_int (received_at - t) / 1000000 < 1 / rate) (FaspError ''stream.rate_exceeded'')))"

text \<open>What is decided of a packet: it repeats one already taken, or it is new under its sequence number.\<close>

datatype packet_plan = Repeat | Take int

definition check_packet ::
    "(bytes \<Rightarrow> string) \<Rightarrow> (bytes \<Rightarrow> json option) \<Rightarrow> stream_row \<Rightarrow> packet \<Rightarrow> int \<Rightarrow> packet_plan result" where
  "check_packet sha scan stream packet received_at =
     bind_result (sequence_of packet) (\<lambda>sequence.
     bind_result (guard_else (map_of (st_contract stream) ''capability'' \<noteq> None) KeyError) (\<lambda>_.
     bind_result (guard_else (py_eq (get_or_null packet ''capability'') (get_or_null (st_contract stream) ''capability''))
                   (FaspError ''stream.capability_mismatch'')) (\<lambda>_.
     bind_result (guard_else (get_or_null packet ''content_type'' = JStr (st_content_type stream)) (FaspError ''stream.content_type_mismatch'')) (\<lambda>_.
     bind_result (decode_packet_payload packet (nat (st_max_payload_bytes stream))) (\<lambda>data.
     bind_result (guard_else (get_or_null packet ''checksum'' = JStr (digest sha data)) (FaspError ''stream.checksum_mismatch'')) (\<lambda>_.
     bind_result (if st_content_type stream = ''application/json'' then validate_json_record scan packet (st_contract stream) data else Inr ()) (\<lambda>_.
     bind_result (guard_else (\<not> (st_delivery stream = ''reliable'' \<and> sequence \<ge> st_next_expected stream + st_window stream))
                   (FaspError ''stream.backpressure'')) (\<lambda>_.
     if sequence < st_next_expected stream then Inr Repeat
     else bind_result (guard_else (\<not> (st_delivery stream = ''reliable'' \<and> sequence \<noteq> st_next_expected stream)) (FaspError ''stream.out_of_order'')) (\<lambda>_.
          bind_result (check_rate stream received_at) (\<lambda>_. Inr (Take sequence)))))))))))"

definition with_memory :: "stream_row \<Rightarrow> memory_stream \<Rightarrow> stream_row" where
  "with_memory row m = row\<lparr>st_next_expected := mm_next_expected m, st_last_sequence := mm_last_sequence m,
     st_last_packet_at := mm_last_packet_at m, st_expires_at := mm_expires_at m\<rparr>"

text \<open>The first half of \<^verbatim>\<open>packet\<close>: what is read and checked before anything is written.\<close>

definition packet_begin ::
    "(bytes \<Rightarrow> string) \<Rightarrow> (bytes \<Rightarrow> json option) \<Rightarrow> registry \<Rightarrow> int \<Rightarrow> string \<Rightarrow> packet \<Rightarrow> bool \<Rightarrow> registry \<times> (stream_row \<times> packet_plan) result" where
  "packet_begin sha scan s now owner packet volatile =
     (case require_active s now (case get_or_null packet ''stream_id'' of JStr sid \<Rightarrow> repo_get s sid | _ \<Rightarrow> None) of
        (s', Inl e) \<Rightarrow> (s', Inl e)
      | (s', Inr row) \<Rightarrow>
          (s', bind_result (guard_else (st_owner row = owner) not_open) (\<lambda>_.
               bind_result (guard_else (in_memory (st_contract row) = volatile) (FaspError ''protocol.unsupported_delivery'')) (\<lambda>_.
               bind_result (if in_memory (st_contract row)
                            then (case map_of (sg_memory s') (st_stream_id row) of None \<Rightarrow> Inl session_expired | Some m \<Rightarrow> Inr (with_memory row m))
                            else Inr row) (\<lambda>stream.
               bind_result (check_packet sha scan stream packet now) (\<lambda>plan. Inr (stream, plan)))))))"

definition ack :: "stream_row \<Rightarrow> int \<Rightarrow> bool \<Rightarrow> json" where
  "ack stream next_expected duplicate =
     JObj [(''type'', JStr ''stream.ack''), (''stream_id'', JStr (st_stream_id stream)), (''epoch'', JInt 0),
           (''ack_sequence'', JInt (next_expected - 1)), (''credit'', JInt (st_window stream)), (''duplicate'', JBool duplicate)]"

text \<open>The second half: the write, which finds out whether the stream is still open.\<close>

definition packet_commit :: "registry \<Rightarrow> int \<Rightarrow> packet \<Rightarrow> stream_row \<Rightarrow> packet_plan \<Rightarrow> registry \<times> (bool \<times> json) result" where
  "packet_commit s received_at packet stream plan =
     (case plan of
        Repeat \<Rightarrow> (s, Inr (True, ack stream (st_next_expected stream) True))
      | Take sequence \<Rightarrow>
          let last_sequence = max (st_last_sequence stream) sequence in
          if in_memory (st_contract stream)
          then (case map_of (sg_memory s) (st_stream_id stream) of
                  None \<Rightarrow> (s, Inl KeyError)
                | Some m \<Rightarrow>
                    (s\<lparr>sg_memory := AList.update (st_stream_id stream)
                         (m\<lparr>mm_next_expected := sequence + 1, mm_last_sequence := last_sequence, mm_last_packet_at := Some received_at\<rparr>) (sg_memory s)\<rparr>,
                     Inr (False, ack stream (sequence + 1) False)))
          else (case advance s (st_stream_id stream) (sequence + 1) last_sequence
                       (if st_retention_packets stream \<noteq> 0 then Some (sequence, packet) else None) (st_retention_packets stream) received_at of
                  (s', Inl e) \<Rightarrow> (s', Inl e)
                | (s', Inr False) \<Rightarrow> (s', Inl not_open)
                | (s', Inr True) \<Rightarrow> (s', Inr (False, ack stream (sequence + 1) False))))"

text \<open>\<^verbatim>\<open>packet\<close> with nothing in between.\<close>

definition stream_packet ::
    "(bytes \<Rightarrow> string) \<Rightarrow> (bytes \<Rightarrow> json option) \<Rightarrow> registry \<Rightarrow> int \<Rightarrow> string \<Rightarrow> packet \<Rightarrow> bool \<Rightarrow> registry \<times> (bool \<times> json) result" where
  "stream_packet sha scan s now owner packet volatile =
     (case packet_begin sha scan s now owner packet volatile of
        (s', Inl e) \<Rightarrow> (s', Inl e)
      | (s', Inr (stream, plan)) \<Rightarrow> packet_commit s' now packet stream plan)"

section \<open>Reading and closing\<close>

definition pull :: "registry \<Rightarrow> int \<Rightarrow> string \<Rightarrow> string \<Rightarrow> int \<Rightarrow> registry \<times> (packet list \<times> int) result" where
  "pull s now requester stream_id after_sequence =
     on_active s now stream_id (\<lambda>stream.
       if in_memory (st_contract stream) then (s, Inl (FaspError ''stream.replay_unavailable''))
       else if requester = st_owner stream then (s, Inl denied)
       else if \<not> forwards_to (st_contract stream) requester then (s, Inl denied)
       else (s, Inr (packets_after s stream_id after_sequence, st_last_sequence stream)))"

definition close_stream :: "registry \<Rightarrow> string \<Rightarrow> string \<Rightarrow> string \<Rightarrow> registry \<times> json result" where
  "close_stream s owner stream_id reason =
     (case repo_get s stream_id of
        None \<Rightarrow> (s, Inl not_open)
      | Some stream \<Rightarrow>
          if st_owner stream \<noteq> owner then (s, Inl not_open)
          else (drop_live (repo_close s stream_id) stream_id,
                Inr (JObj [(''type'', JStr ''stream.closed''), (''stream_id'', JStr stream_id), (''reason'', JStr (take 160 reason))])))"

end
