(* ===== verification/Stream_Safety.thy ===== *)
theory Stream_Safety
  imports Streams
begin

text \<open>
  The registry of streams under interleaving. \<^verbatim>\<open>StreamRegistry.packet\<close> and \<^verbatim>\<open>open\<close> run under one lock,
  closing and expiry write to the database without it; so between the checks of a packet and its write
  a stream can be closed. The lock is the part \<open>ss_busy\<close> of the state: the packet that was checked and
  is about to be written.
\<close>

section \<open>Steps\<close>

record stream_sys =
  ss_reg :: registry
  ss_busy :: "(packet \<times> stream_row \<times> packet_plan \<times> int) option"

inductive stream_step :: "(bytes \<Rightarrow> string) \<Rightarrow> (bytes \<Rightarrow> json option) \<Rightarrow> stream_sys \<Rightarrow> stream_sys \<Rightarrow> bool"
  for sha scan where
  step_open: "ss_busy s = None \<Longrightarrow> stream_step sha scan s (s\<lparr>ss_reg := fst (open_stream (ss_reg s) now fresh owner config)\<rparr>)"
| step_refuse: "ss_busy s = None \<Longrightarrow> packet_begin sha scan (ss_reg s) now owner packet volatile = (g, Inl e) \<Longrightarrow>
    stream_step sha scan s (s\<lparr>ss_reg := g\<rparr>)"
| step_check: "ss_busy s = None \<Longrightarrow> packet_begin sha scan (ss_reg s) now owner packet volatile = (g, Inr (stream, plan)) \<Longrightarrow>
    stream_step sha scan s (s\<lparr>ss_reg := g, ss_busy := Some (packet, stream, plan, now)\<rparr>)"
| step_write: "ss_busy s = Some (packet, stream, plan, now) \<Longrightarrow>
    stream_step sha scan s (s\<lparr>ss_reg := fst (packet_commit (ss_reg s) now packet stream plan), ss_busy := None\<rparr>)"
| step_close: "stream_step sha scan s (s\<lparr>ss_reg := repo_close (ss_reg s) stream_id\<rparr>)"
| step_drop: "ss_busy s = None \<Longrightarrow> stream_step sha scan s (s\<lparr>ss_reg := drop_live (ss_reg s) stream_id\<rparr>)"
| step_subscribe: "ss_busy s = None \<Longrightarrow> stream_step sha scan s (s\<lparr>ss_reg := put_subscriber (ss_reg s) stream_id peer grant\<rparr>)"
| step_unsubscribe: "ss_busy s = None \<Longrightarrow> stream_step sha scan s (s\<lparr>ss_reg := unsubscribe (ss_reg s) peer stream_id\<rparr>)"

definition stream_start :: "stream_sys \<Rightarrow> bool" where
  "stream_start s \<longleftrightarrow> s = \<lparr>ss_reg = empty_registry, ss_busy = None\<rparr>"

section \<open>The invariant\<close>

definition row_ok :: "stream_row \<Rightarrow> bool" where
  "row_ok r \<longleftrightarrow> 0 \<le> st_next_expected r \<and> st_last_sequence r = st_next_expected r - 1 \<and> 0 \<le> st_retention_packets r"

definition sequences_ok :: "packet_row list \<Rightarrow> stream_row \<Rightarrow> bool" where
  "sequences_ok packets r \<longleftrightarrow>
     distinct (packet_sequences packets (st_stream_id r)) \<and> set (packet_sequences packets (st_stream_id r)) \<subseteq> {0..<st_next_expected r} \<and>
     int (length (packet_sequences packets (st_stream_id r))) \<le> st_retention_packets r \<and>
     (st_state r = StreamClosed \<longrightarrow> packet_sequences packets (st_stream_id r) = []) \<and>
     (st_state r = StreamOpen \<and> st_delivery r = ''reliable'' \<longrightarrow>
        set (packet_sequences packets (st_stream_id r)) = {max 0 (st_next_expected r - st_retention_packets r)..<st_next_expected r})"

definition registry_inv :: "registry \<Rightarrow> bool" where
  "registry_inv g \<longleftrightarrow>
     distinct (map st_stream_id (sg_rows g)) \<and>
     (\<forall>r \<in> set (sg_rows g). row_ok r \<and> sequences_ok (sg_packets g) r) \<and>
     (\<forall>p \<in> set (sg_packets g). pk_stream_id p \<in> st_stream_id ` set (sg_rows g) \<and> sequence_of (pk_packet p) = Inr (pk_sequence p))"

text \<open>What the lock protects: the stream of the packet under way still has the counters that were checked.\<close>

definition same_stream :: "stream_row \<Rightarrow> stream_row \<Rightarrow> bool" where
  "same_stream r stream \<longleftrightarrow>
     st_stream_id r = st_stream_id stream \<and> st_delivery r = st_delivery stream \<and> st_retention_packets r = st_retention_packets stream \<and>
     st_contract r = st_contract stream"

definition busy_inv :: "registry \<Rightarrow> packet \<times> stream_row \<times> packet_plan \<times> int \<Rightarrow> bool" where
  "busy_inv g b =
     (case b of (packet, stream, plan, t) \<Rightarrow>
        (\<exists>r \<in> set (sg_rows g). same_stream r stream \<and>
           (\<not> in_memory (st_contract stream) \<longrightarrow> st_next_expected r = st_next_expected stream \<and> st_last_sequence r = st_last_sequence stream)) \<and>
        (in_memory (st_contract stream) \<longrightarrow> map_of (sg_memory g) (st_stream_id stream) \<noteq> None) \<and>
        (case plan of
           Repeat \<Rightarrow> True
         | Take n \<Rightarrow> st_next_expected stream \<le> n \<and> (st_delivery stream = ''reliable'' \<longrightarrow> n = st_next_expected stream) \<and> sequence_of packet = Inr n))"

definition stream_inv :: "stream_sys \<Rightarrow> bool" where
  "stream_inv s \<longleftrightarrow> registry_inv (ss_reg s) \<and> (\<forall>b. ss_busy s = Some b \<longrightarrow> busy_inv (ss_reg s) b)"

section \<open>Retention\<close>

lemma take_descending:
  fixes x :: int
  assumes "sorted_wrt (>) ys"
  shows "x \<in> set (take k ys) \<longleftrightarrow> x \<in> set ys \<and> length (filter (\<lambda>y. x < y) ys) < k"
  using assms
proof (induction ys arbitrary: k)
  case Nil
  show ?case by simp
next
  case (Cons y ys)
  show ?case
  proof (cases k)
    case 0
    then show ?thesis by simp
  next
    case (Suc j)
    have above: "\<forall>z \<in> set ys. z < y" using Cons.prems by simp
    show ?thesis
    proof (cases "x = y")
      case True
      then have "filter (\<lambda>z. x < z) (y # ys) = []" using above by (auto simp: filter_empty_conv)
      with Suc True show ?thesis by simp
    next
      case False
      then show ?thesis using Cons.IH [of j] Cons.prems above Suc by auto
    qed
  qed
qed

lemma descending_sort: "distinct xs \<Longrightarrow> sorted_wrt (>) (rev (sort xs))" for xs :: "int list"
  by (simp add: sorted_wrt_rev strict_sorted_iff)

lemma newest_interval:
  assumes "distinct xs" and "set xs = {a..<b}"
  shows "set (newest k xs) = {max a (b - int k)..<b}"
proof -
  have "length (filter (\<lambda>y. x < y) (rev (sort xs))) = nat (b - 1 - x)" if "a \<le> x" "x < b" for x
  proof -
    have "length (filter (\<lambda>y. x < y) (rev (sort xs))) = card (set (filter (\<lambda>y. x < y) (rev (sort xs))))"
      using assms(1) by (intro distinct_card [symmetric] distinct_filter) simp
    also have "set (filter (\<lambda>y. x < y) (rev (sort xs))) = {x + 1..<b}" using assms(2) that by auto
    finally show ?thesis by simp
  qed
  then show ?thesis
    unfolding newest_def using take_descending [OF descending_sort [OF assms(1)], of _ k] assms(2) by (auto simp: set_eq_iff)
qed

lemma sequences_append [simp]: "packet_sequences (xs @ ys) j = packet_sequences xs j @ packet_sequences ys j"
  by (simp add: packet_sequences_def)

lemma sequences_one [simp]:
  "packet_sequences [p] j = (if pk_stream_id p = j then [pk_sequence p] else [])"
  by (simp add: packet_sequences_def)

lemma sequences_prune_other: "j \<noteq> i \<Longrightarrow> packet_sequences (prune rows i n) j = packet_sequences rows j"
  unfolding packet_sequences_def prune_def filter_filter by (metis (mono_tags, lifting) filter_cong)

lemma sequences_prune:
  "packet_sequences (prune rows i n) i = filter (\<lambda>x. x \<in> set (newest (nat n) (packet_sequences rows i))) (packet_sequences rows i)"
proof -
  let ?K = "set (newest (nat n) (packet_sequences rows i))"
  have "filter (\<lambda>p. (pk_stream_id p \<noteq> i \<or> pk_sequence p \<in> ?K) \<and> pk_stream_id p = i) rows = filter (\<lambda>p. pk_stream_id p = i \<and> pk_sequence p \<in> ?K) rows"
    by (rule filter_cong) auto
  then show ?thesis unfolding packet_sequences_def prune_def filter_filter
    by (simp add: filter_map comp_def)
qed

lemma length_newest: "length (newest k xs) \<le> k"
  by (simp add: newest_def)

lemma length_pruned:
  assumes "distinct (packet_sequences rows i)" and "0 \<le> n"
  shows "int (length (packet_sequences (prune rows i n) i)) \<le> n"
proof -
  let ?ys = "packet_sequences (prune rows i n) i"
  have "length ?ys = card (set ?ys)" using assms(1) unfolding sequences_prune by (intro distinct_card [symmetric] distinct_filter)
  also have "\<dots> \<le> card (set (newest (nat n) (packet_sequences rows i)))" unfolding sequences_prune by (intro card_mono) auto
  also have "\<dots> \<le> nat n" using card_length [of "newest (nat n) (packet_sequences rows i)"] length_newest [of "nat n" "packet_sequences rows i"] by linarith
  finally show ?thesis using assms(2) by linarith
qed

section \<open>Preservation\<close>

lemma registry_inv_frame:
  assumes "registry_inv g" and "sg_rows g' = sg_rows g" and "sg_packets g' = sg_packets g"
  shows "registry_inv g'"
  using assms by (simp add: registry_inv_def)

lemma live_frame [simp]:
  "sg_rows (drop_live g i) = sg_rows g" "sg_packets (drop_live g i) = sg_packets g"
  "sg_rows (put_subscriber g i p r) = sg_rows g" "sg_packets (put_subscriber g i p r) = sg_packets g" "sg_memory (put_subscriber g i p r) = sg_memory g"
  "sg_rows (unsubscribe g p i) = sg_rows g" "sg_packets (unsubscribe g p i) = sg_packets g" "sg_memory (unsubscribe g p i) = sg_memory g"
  by (simp_all add: drop_live_def put_subscriber_def unsubscribe_def Let_def split: option.split)

lemma sequences_closed:
  "packet_sequences (sg_packets (repo_close g i)) j = (if j = i then [] else packet_sequences (sg_packets g) j)"
proof (cases "j = i")
  case True
  then show ?thesis by (simp add: packet_sequences_def repo_close_def)
next
  case False
  then have "filter (\<lambda>p. pk_stream_id p = j) (filter (\<lambda>p. pk_stream_id p \<noteq> i) (sg_packets g)) = filter (\<lambda>p. pk_stream_id p = j) (sg_packets g)"
    unfolding filter_filter by (intro filter_cong) auto
  with False show ?thesis by (simp add: packet_sequences_def repo_close_def)
qed

lemma repo_close_inv:
  assumes "registry_inv g"
  shows "registry_inv (repo_close g i)"
proof -
  have rows: "sg_rows (repo_close g i) = update_where (\<lambda>r. st_stream_id r = i) (\<lambda>r. r\<lparr>st_state := StreamClosed\<rparr>) (sg_rows g)"
    by (simp add: repo_close_def)
  have ids: "map st_stream_id (sg_rows (repo_close g i)) = map st_stream_id (sg_rows g)" unfolding rows by (rule map_update_where) simp
  have "row_ok r \<and> sequences_ok (sg_packets (repo_close g i)) r" if member: "r \<in> set (sg_rows (repo_close g i))" for r
  proof -
    obtain r0 where r0: "r0 \<in> set (sg_rows g)" "r = (if st_stream_id r0 = i then r0\<lparr>st_state := StreamClosed\<rparr> else r0)"
      using member unfolding rows set_update_where by blast
    then have ok: "row_ok r0" "sequences_ok (sg_packets g) r0" using assms by (simp_all add: registry_inv_def)
    show ?thesis
    proof (cases "st_stream_id r0 = i")
      case True
      with r0 ok show ?thesis by (auto simp: row_ok_def sequences_ok_def sequences_closed)
    next
      case False
      with r0 ok show ?thesis by (simp add: row_ok_def sequences_ok_def sequences_closed)
    qed
  qed
  moreover have "st_stream_id ` set (sg_rows (repo_close g i)) = st_stream_id ` set (sg_rows g)" using arg_cong [OF ids, of set] by simp
  moreover have "set (sg_packets (repo_close g i)) \<subseteq> set (sg_packets g)" by (auto simp: repo_close_def)
  ultimately show ?thesis using assms ids unfolding registry_inv_def by auto
qed

lemma expire_inv: "registry_inv g \<Longrightarrow> registry_inv (expire g i)"
  unfolding expire_def by (rule registry_inv_frame [OF repo_close_inv]) simp_all

lemma require_active_cases:
  "fst (require_active g now row) = g \<or> (\<exists>r. row = Some r \<and> fst (require_active g now row) = expire g (st_stream_id r))"
  by (cases row) (auto simp: require_active_def split: sum.split bool.split)

lemma require_active_inv: "registry_inv g \<Longrightarrow> registry_inv (fst (require_active g now row))"
  using require_active_cases [of g now row] expire_inv by auto

lemma require_active_ok: "require_active g now row = (g', Inr r) \<Longrightarrow> g' = g \<and> row = Some r \<and> st_state r = StreamOpen"
  by (auto simp: require_active_def split: option.splits sum.splits bool.splits if_splits)

lemma sweep_frame [simp]: "sg_rows (sweep_memory g now) = sg_rows g" "sg_packets (sweep_memory g now) = sg_packets g"
proof -
  have "sg_rows (fold (\<lambda>k s. drop_live s k) ks s) = sg_rows s \<and> sg_packets (fold (\<lambda>k s. drop_live s k) ks s) = sg_packets s" for ks s
    by (induction ks arbitrary: s) simp_all
  then show "sg_rows (sweep_memory g now) = sg_rows g" "sg_packets (sweep_memory g now) = sg_packets g" by (simp_all add: sweep_memory_def)
qed

lemma no_packets_of_unknown:
  assumes "registry_inv g" and "repo_get g i = None"
  shows "packet_sequences (sg_packets g) i = []"
proof -
  have "i \<notin> st_stream_id ` set (sg_rows g)" using assms(2) by (auto simp: repo_get_def find_None_all)
  then have "\<forall>p \<in> set (sg_packets g). pk_stream_id p \<noteq> i" using assms(1) by (auto simp: registry_inv_def)
  then show ?thesis by (simp add: packet_sequences_def filter_empty_conv)
qed

lemma repo_open_inv:
  assumes "registry_inv g" and "repo_open g i owner contract = Inr (g', row)" and "contract_int contract ''retention_packets'' = Inr n" and "0 \<le> n"
  shows "registry_inv g'"
proof -
  have row: "st_stream_id row = i" "st_state row = StreamOpen" "st_next_expected row = 0" "st_last_sequence row = -1" "st_retention_packets row = n"
    and g': "sg_rows g' = sg_rows g @ [row]" "sg_packets g' = sg_packets g" and new: "repo_get g i = None"
    using assms(2,3) by (auto simp: repo_open_def bind_result_Inr_iff Let_def)
  have "i \<notin> st_stream_id ` set (sg_rows g)" using new by (auto simp: repo_get_def find_None_all)
  moreover have "row_ok row \<and> sequences_ok (sg_packets g) row"
    using row assms(4) no_packets_of_unknown [OF assms(1) new] by (simp add: row_ok_def sequences_ok_def)
  ultimately show ?thesis using assms(1) row(1) g' by (auto simp: registry_inv_def)
qed

lemma open_stream_inv:
  assumes "registry_inv g"
  shows "registry_inv (fst (open_stream g now fresh owner config))"
proof -
  let ?i = "open_stream_id config fresh"
  let ?c = "dict_put ''stream_id'' (JStr ?i) config"
  have new: "registry_inv (fst (open_new g now ?i owner ?c))" if lim: "open_limits_ok config = Inr True"
  proof -
    define g1 where "g1 = (if in_memory ?c then sweep_memory g now else g)"
    have g1: "registry_inv g1" using assms unfolding g1_def by (auto intro: registry_inv_frame)
    obtain n where n: "contract_int config ''retention_packets'' = Inr n" "0 \<le> n"
      using lim by (auto simp: open_limits_ok_def bind_result_Inr_iff split: if_splits)
    have "contract_int ?c ''retention_packets'' = Inr n" using n(1) by (simp add: contract_int_def)
    with repo_open_inv [OF g1] n(2) have "registry_inv g2" if "repo_open g1 ?i owner ?c = Inr (g2, row)" for g2 row using that by blast
    then have "registry_inv (g2\<lparr>sg_memory := m\<rparr>) \<and> registry_inv g2" if "repo_open g1 ?i owner ?c = Inr (g2, row)" for g2 row m
      using that by (auto simp: registry_inv_def)
    then show ?thesis using g1 unfolding open_new_def Let_def g1_def [symmetric] by (auto split: sum.split)
  qed
  then show ?thesis
    using assms require_active_inv [OF assms] unfolding open_stream_def Let_def
    by (auto split: sum.split option.split bool.split prod.split) (metis fst_conv)+
qed

lemma advance_closed: "\<not> list_ex (\<lambda>r. st_stream_id r = i \<and> st_state r = StreamOpen) (sg_rows g) \<Longrightarrow> advance g i n l p ret t = (g, Inr False)"
  by (simp add: advance_def Let_def)

lemma unique_row:
  assumes "registry_inv g" and "r \<in> set (sg_rows g)" and "r' \<in> set (sg_rows g)" and "st_stream_id r = st_stream_id r'"
  shows "r = r'"
  using assms by (auto simp: registry_inv_def distinct_map dest: inj_onD)

lemma advance_open:
  assumes "registry_inv g" and "r \<in> set (sg_rows g)" and "st_stream_id r = i" and "st_state r = StreamOpen" and "ret = st_retention_packets r"
    and "st_next_expected r \<le> n" and "st_delivery r = ''reliable'' \<longrightarrow> n = st_next_expected r" and "sequence_of packet = Inr n"
  shows "snd (advance g i (n + 1) n (if ret \<noteq> 0 then Some (n, packet) else None) ret t) = Inr True \<and>
    registry_inv (fst (advance g i (n + 1) n (if ret \<noteq> 0 then Some (n, packet) else None) ret t))"
proof -
  have ok: "row_ok r" "sequences_ok (sg_packets g) r" using assms(1,2) by (simp_all add: registry_inv_def)
  let ?hit = "\<lambda>r. st_stream_id r = i \<and> st_state r = StreamOpen"
  let ?f = "\<lambda>r. r\<lparr>st_next_expected := n + 1, st_last_sequence := n, st_last_packet_at := Some t\<rparr>"
  let ?rows = "update_where ?hit ?f (sg_rows g)"
  let ?new = "\<lparr>pk_stream_id = i, pk_sequence = n, pk_packet = packet\<rparr>"
  define ps where "ps = (if ret \<noteq> 0 then prune (sg_packets g @ [?new]) i ret else sg_packets g)"
  have seqs: "set (packet_sequences (sg_packets g) i) \<subseteq> {0..<st_next_expected r}" "distinct (packet_sequences (sg_packets g) i)"
    using ok(2) assms(3) by (simp_all add: sequences_ok_def)
  have fresh: "n \<notin> set (packet_sequences (sg_packets g) i)" using seqs(1) assms(6) by auto
  have hit: "list_ex ?hit (sg_rows g)" using assms(2-4) by (auto simp: list_ex_iff)
  have adv: "advance g i (n + 1) n (if ret \<noteq> 0 then Some (n, packet) else None) ret t = (g\<lparr>sg_rows := ?rows, sg_packets := ps\<rparr>, Inr True)"
    using hit fresh by (auto simp: advance_def Let_def ps_def)
  have ids: "map st_stream_id ?rows = map st_stream_id (sg_rows g)" by (rule map_update_where) simp
  have other: "packet_sequences ps j = packet_sequences (sg_packets g) j" if "j \<noteq> i" for j
    using that by (simp add: ps_def sequences_prune_other)
  have mine: "sequences_ok ps (?f r)"
  proof (cases "ret = 0")
    case True
    then show ?thesis using ok assms(3-6) unfolding ps_def sequences_ok_def row_ok_def by auto
  next
    case False
    then have pos: "0 < ret" using ok(1) assms(5) by (simp add: row_ok_def)
    let ?all = "packet_sequences (sg_packets g) i @ [n]"
    have d: "distinct ?all" using seqs(2) fresh by simp
    have e: "packet_sequences ps i = filter (\<lambda>x. x \<in> set (newest (nat ret) ?all)) ?all"
      using False by (simp add: ps_def sequences_prune)
    have len: "int (length (packet_sequences ps i)) \<le> ret"
      using length_pruned [of "sg_packets g @ [?new]" i ret] d pos False by (simp add: ps_def)
    have sub: "set (packet_sequences ps i) \<subseteq> {0..<n + 1}"
      using seqs(1) ok(1) assms(6) unfolding e row_ok_def by auto
    have rel: "set (packet_sequences ps i) = {max 0 (n + 1 - ret)..<n + 1}" if "st_delivery r = ''reliable''"
    proof -
      have n: "n = st_next_expected r" using assms(7) that by simp
      have "set ?all = {max 0 (n - ret)..<n + 1}"
        using ok(1,2) assms(3-5) that pos unfolding n sequences_ok_def row_ok_def by auto
      from newest_interval [OF d this, of "nat ret"] pos
      have "set (newest (nat ret) ?all) = {max (max 0 (n - ret)) (n + 1 - ret)..<n + 1}" by simp
      then show ?thesis unfolding e using \<open>set ?all = {max 0 (n - ret)..<n + 1}\<close> pos by auto
    qed
    show ?thesis using d len sub rel assms(3-5) unfolding sequences_ok_def e [symmetric] by (auto simp: e)
  qed
  have "row_ok r' \<and> sequences_ok ps r'" if member: "r' \<in> set ?rows" for r'
  proof -
    obtain r0 where r0: "r0 \<in> set (sg_rows g)" "r' = (if ?hit r0 then ?f r0 else r0)"
      using member unfolding set_update_where by blast
    have ok0: "row_ok r0" "sequences_ok (sg_packets g) r0" using r0(1) assms(1) by (simp_all add: registry_inv_def)
    show ?thesis
    proof (cases "st_stream_id r0 = i")
      case True
      then have "r0 = r" using unique_row [OF assms(1) r0(1) assms(2)] assms(3) by simp
      then have "r' = ?f r" using r0(2) assms(3,4) by simp
      with mine ok(1) assms(6) show ?thesis by (simp add: row_ok_def)
    next
      case False
      then have "r' = r0" using r0(2) by simp
      with ok0 other [OF False] show ?thesis by (simp add: sequences_ok_def)
    qed
  qed
  moreover have "pk_stream_id p \<in> st_stream_id ` set ?rows \<and> sequence_of (pk_packet p) = Inr (pk_sequence p)" if member: "p \<in> set ps" for p
  proof -
    have "p \<in> set (sg_packets g) \<or> p = ?new" using member by (auto simp: ps_def prune_def split: if_splits)
    moreover have "st_stream_id ` set ?rows = st_stream_id ` set (sg_rows g)" using arg_cong [OF ids, of set] by simp
    ultimately show ?thesis using assms(1-3,8) by (auto simp: registry_inv_def)
  qed
  ultimately show ?thesis using ids assms(1) unfolding adv by (simp add: registry_inv_def)
qed

lemma check_packet_Take:
  assumes "check_packet sha scan stream packet t = Inr (Take n)"
  shows "st_next_expected stream \<le> n \<and> (st_delivery stream = ''reliable'' \<longrightarrow> n = st_next_expected stream) \<and> sequence_of packet = Inr n"
  using assms by (auto simp: check_packet_def bind_result_Inr_iff split: if_splits)

lemma packet_begin_inv: "registry_inv g \<Longrightarrow> registry_inv (fst (packet_begin sha scan g now owner packet volatile))"
  using require_active_inv [of g now "case get_or_null packet ''stream_id'' of JStr sid \<Rightarrow> repo_get g sid | _ \<Rightarrow> None"]
  by (auto simp: packet_begin_def split: prod.split sum.split)

lemma packet_begin_busy:
  assumes "packet_begin sha scan g now owner packet volatile = (g', Inr (stream, plan))"
  shows "g' = g \<and> busy_inv g (packet, stream, plan, now)"
proof -
  let ?row = "case get_or_null packet ''stream_id'' of JStr sid \<Rightarrow> repo_get g sid | _ \<Rightarrow> None"
  obtain row where ra: "require_active g now ?row = (g', Inr row)"
    and rest: "(if in_memory (st_contract row)
                then (case map_of (sg_memory g') (st_stream_id row) of None \<Rightarrow> Inl session_expired | Some m \<Rightarrow> Inr (with_memory row m))
                else Inr row) = Inr stream" "check_packet sha scan stream packet now = Inr plan"
    using assms by (auto simp: packet_begin_def bind_result_Inr_iff split: prod.splits sum.splits)
  from require_active_ok [OF ra] have g': "g' = g" and row: "?row = Some row" by simp_all
  then obtain sid where "repo_get g sid = Some row" by (auto split: json.splits)
  then have mem: "row \<in> set (sg_rows g)" using find_Some_mem unfolding repo_get_def by fast
  have same: "same_stream row stream \<and> (\<not> in_memory (st_contract stream) \<longrightarrow> row = stream) \<and>
      (in_memory (st_contract stream) \<longrightarrow> map_of (sg_memory g) (st_stream_id stream) \<noteq> None)"
    using rest(1) unfolding g' by (auto simp: same_stream_def with_memory_def split: if_splits option.splits)
  have "case plan of Repeat \<Rightarrow> True
      | Take n \<Rightarrow> st_next_expected stream \<le> n \<and> (st_delivery stream = ''reliable'' \<longrightarrow> n = st_next_expected stream) \<and> sequence_of packet = Inr n"
    using check_packet_Take rest(2) by (auto split: packet_plan.split)
  then show ?thesis using g' mem same unfolding busy_inv_def by auto
qed

lemma packet_commit_spec:
  assumes "registry_inv g" and "busy_inv g (packet, stream, plan, t)"
  shows "registry_inv (fst (packet_commit g t packet stream plan)) \<and>
    ((\<exists>dup v. snd (packet_commit g t packet stream plan) = Inr (dup, v)) \<or> packet_commit g t packet stream plan = (g, Inl not_open))"
proof (cases plan)
  case Repeat
  with assms(1) show ?thesis by (auto simp: packet_commit_def)
next
  case (Take n)
  obtain r where r: "r \<in> set (sg_rows g)" "same_stream r stream"
      "\<not> in_memory (st_contract stream) \<longrightarrow> st_next_expected r = st_next_expected stream \<and> st_last_sequence r = st_last_sequence stream"
    and mem: "in_memory (st_contract stream) \<longrightarrow> map_of (sg_memory g) (st_stream_id stream) \<noteq> None"
    and n: "st_next_expected stream \<le> n" "st_delivery stream = ''reliable'' \<longrightarrow> n = st_next_expected stream" "sequence_of packet = Inr n"
    using assms(2) unfolding busy_inv_def Take by auto
  show ?thesis
  proof (cases "in_memory (st_contract stream)")
    case True
    then obtain m where m: "map_of (sg_memory g) (st_stream_id stream) = Some m" using mem by blast
    have "registry_inv (g\<lparr>sg_memory := x\<rparr>)" for x using assms(1) by (rule registry_inv_frame) simp_all
    with True m Take show ?thesis by (auto simp: packet_commit_def Let_def)
  next
    case False
    have ok: "row_ok r" using assms(1) r(1) by (simp add: registry_inv_def)
    have last: "max (st_last_sequence stream) n = n" using ok r(3) n(1) False by (simp add: row_ok_def)
    let ?adv = "advance g (st_stream_id stream) (n + 1) n (if st_retention_packets stream \<noteq> 0 then Some (n, packet) else None) (st_retention_packets stream) t"
    have commit: "packet_commit g t packet stream plan =
        (case ?adv of (s', Inl e) \<Rightarrow> (s', Inl e) | (s', Inr False) \<Rightarrow> (s', Inl not_open) | (s', Inr True) \<Rightarrow> (s', Inr (False, ack stream (n + 1) False)))"
      using False Take last by (simp add: packet_commit_def Let_def)
    show ?thesis
    proof (cases "st_state r = StreamOpen")
      case True
      have "snd ?adv = Inr True \<and> registry_inv (fst ?adv)"
        by (rule advance_open [OF assms(1) r(1)]) (use r n False True in \<open>auto simp: same_stream_def\<close>)
      then show ?thesis unfolding commit by (auto split: prod.split)
    next
      case closed: False
      have "\<not> list_ex (\<lambda>r. st_stream_id r = st_stream_id stream \<and> st_state r = StreamOpen) (sg_rows g)"
        using unique_row [OF assms(1) _ r(1)] r(2) closed by (fastforce simp: list_ex_iff same_stream_def)
      from advance_closed [OF this] show ?thesis unfolding commit using assms(1) by simp
    qed
  qed
qed

lemma repo_close_busy:
  assumes "busy_inv g b"
  shows "busy_inv (repo_close g i) b"
proof -
  obtain packet stream plan t where b: "b = (packet, stream, plan, t)" by (cases b)
  obtain r where r: "r \<in> set (sg_rows g)" "same_stream r stream"
      "\<not> in_memory (st_contract stream) \<longrightarrow> st_next_expected r = st_next_expected stream \<and> st_last_sequence r = st_last_sequence stream"
    using assms unfolding b busy_inv_def by auto
  let ?r = "if st_stream_id r = i then r\<lparr>st_state := StreamClosed\<rparr> else r"
  have "?r \<in> set (sg_rows (repo_close g i))" using r(1) by (auto simp: repo_close_def set_update_where)
  moreover have "same_stream ?r stream" using r(2) by (simp add: same_stream_def)
  moreover have "sg_memory (repo_close g i) = sg_memory g" by (simp add: repo_close_def)
  ultimately show ?thesis using assms r(3) unfolding b busy_inv_def by fastforce
qed

lemma stream_step_inv:
  assumes "stream_step sha scan s s'" and "stream_inv s"
  shows "stream_inv s'"
  using assms
proof (induction rule: stream_step.cases)
  case (step_open s now fresh owner config)
  then show ?case using open_stream_inv by (simp add: stream_inv_def)
next
  case (step_refuse s now owner packet volatile g e)
  then show ?case using packet_begin_inv [of "ss_reg s" sha scan now owner packet volatile] by (simp add: stream_inv_def)
next
  case (step_check s now owner packet volatile g stream plan)
  then show ?case using packet_begin_busy [OF step_check(4)] by (simp add: stream_inv_def)
next
  case (step_write s packet stream plan now)
  then show ?case using packet_commit_spec [of "ss_reg s" packet stream plan now] by (simp add: stream_inv_def)
next
  case (step_close s i)
  then show ?case using repo_close_inv repo_close_busy by (simp add: stream_inv_def)
next
  case (step_drop s i)
  then show ?case by (auto simp: stream_inv_def intro: registry_inv_frame)
next
  case (step_subscribe s i p g)
  then show ?case by (auto simp: stream_inv_def intro: registry_inv_frame)
next
  case (step_unsubscribe s p i)
  then show ?case by (auto simp: stream_inv_def intro: registry_inv_frame)
qed

interpretation streams: invariant_system stream_start "stream_step sha scan" stream_inv
  for sha scan
proof unfold_locales
  show "stream_start s \<Longrightarrow> stream_inv s" for s
    by (simp add: stream_start_def stream_inv_def registry_inv_def empty_registry_def)
  show "stream_inv s \<Longrightarrow> stream_step sha scan s s' \<Longrightarrow> stream_inv s'" for s s' by (rule stream_step_inv)
qed

section \<open>What the registry promises\<close>

lemma commit_recorded:
  assumes "snd (packet_commit g t packet stream (Take n)) = Inr x" and "\<not> in_memory (st_contract stream)"
  shows "\<exists>r \<in> set (sg_rows (fst (packet_commit g t packet stream (Take n)))).
    st_stream_id r = st_stream_id stream \<and> st_state r = StreamOpen \<and> st_next_expected r = n + 1 \<and> st_last_packet_at r = Some t"
proof -
  let ?hit = "\<lambda>r. st_stream_id r = st_stream_id stream \<and> st_state r = StreamOpen"
  let ?f = "\<lambda>r. r\<lparr>st_next_expected := n + 1, st_last_sequence := max (st_last_sequence stream) n, st_last_packet_at := Some t\<rparr>"
  have hit: "list_ex ?hit (sg_rows g)"
    using assms by (cases "list_ex ?hit (sg_rows g)") (simp_all add: packet_commit_def Let_def advance_def)
  then obtain r where r: "r \<in> set (sg_rows g)" "?hit r" by (auto simp: list_ex_iff)
  have "sg_rows (fst (packet_commit g t packet stream (Take n))) = update_where ?hit ?f (sg_rows g)"
    using assms hit by (auto simp: packet_commit_def Let_def advance_def split: if_splits)
  moreover have "?f r \<in> set (update_where ?hit ?f (sg_rows g))" using r by (force simp: update_where_def)
  ultimately show ?thesis using r(2) by (intro bexI [of _ "?f r"]) simp_all
qed


text \<open>
  C10. Retention is bounded and leaves nothing behind: in every reachable state a stream has at most its contract's number of stored packets,
  each under a sequence number of its own below the next expected one, and a stream that is closed has none.
\<close>

theorem retention_bounded:
  assumes "reachable stream_start (stream_step sha scan) s" and "r \<in> set (sg_rows (ss_reg s))"
  shows "int (length (packet_sequences (sg_packets (ss_reg s)) (st_stream_id r))) \<le> st_retention_packets r \<and>
     distinct (packet_sequences (sg_packets (ss_reg s)) (st_stream_id r)) \<and>
     set (packet_sequences (sg_packets (ss_reg s)) (st_stream_id r)) \<subseteq> {0..<st_next_expected r} \<and>
     (st_state r = StreamClosed \<longrightarrow> packet_sequences (sg_packets (ss_reg s)) (st_stream_id r) = [])"
proof -
  have "stream_inv s" using assms(1) by (rule streams.reachable_inv)
  then have "sequences_ok (sg_packets (ss_reg s)) r" using assms(2) by (simp add: stream_inv_def registry_inv_def)
  then show ?thesis by (simp add: sequences_ok_def)
qed

lemma sorted_interval:
  fixes xs :: "int list"
  assumes "sorted xs" and "distinct xs" and "set xs = {a..b}"
  shows "xs = [a..b]"
  using assms by (intro sorted_distinct_set_unique) (simp_all add: sorted_upto)

text \<open>
  C8. A consumer of a reliable stream resumes without a gap: what a pull returns after a sequence number is the unbroken run of packets up
  to the last one acknowledged, in order, starting right after that number or, if the consumer lags behind by more than the retention, at
  the oldest packet still kept.
\<close>

theorem pull_resumes_without_gap:
  assumes "reachable stream_start (stream_step sha scan) s" and "r \<in> set (sg_rows (ss_reg s))"
    and "st_state r = StreamOpen" and "st_delivery r = ''reliable''"
  shows "map sequence_of (packets_after (ss_reg s) (st_stream_id r) a) =
     map Inr [max (a + 1) (max 0 (st_next_expected r - st_retention_packets r))..st_last_sequence r]"
proof -
  let ?g = "ss_reg s" and ?i = "st_stream_id r"
  have inv: "registry_inv ?g" using streams.reachable_inv [OF assms(1)] by (simp add: stream_inv_def)
  then have ok: "row_ok r" "sequences_ok (sg_packets ?g) r" using assms(2) by (simp_all add: registry_inv_def)
  let ?rows = "sort_key pk_sequence (filter (\<lambda>p. pk_stream_id p = ?i \<and> a < pk_sequence p) (sg_packets ?g))"
  let ?mine = "filter (\<lambda>p. pk_stream_id p = ?i) (sg_packets ?g)"
  have part: "filter (\<lambda>p. pk_stream_id p = ?i \<and> a < pk_sequence p) (sg_packets ?g) = filter (\<lambda>p. a < pk_sequence p) ?mine"
    unfolding filter_filter by (rule filter_cong) auto
  have "distinct (map pk_sequence ?mine)" using ok(2) by (simp add: sequences_ok_def packet_sequences_def)
  then have "distinct (map pk_sequence (filter (\<lambda>p. a < pk_sequence p) ?mine))" by (rule distinct_map_filter)
  then have d: "distinct (map pk_sequence ?rows)" unfolding part by (simp add: distinct_map inj_on_def)
  have "pk_sequence ` set ?mine = {max 0 (st_next_expected r - st_retention_packets r)..<st_next_expected r}"
    using ok(2) assms(3,4) by (simp add: sequences_ok_def packet_sequences_def)
  moreover have "set (map pk_sequence ?rows) = {x \<in> pk_sequence ` set ?mine. a < x}" by auto
  ultimately have "set (map pk_sequence ?rows) = {max (a + 1) (max 0 (st_next_expected r - st_retention_packets r))..st_last_sequence r}"
    using ok(1) by (auto simp: row_ok_def)
  from sorted_interval [OF sorted_sort_key d this]
  have "map pk_sequence ?rows = [max (a + 1) (max 0 (st_next_expected r - st_retention_packets r))..st_last_sequence r]" .
  moreover have "map sequence_of (map pk_packet ?rows) = map Inr (map pk_sequence ?rows)"
    using inv by (simp add: registry_inv_def)
  ultimately show ?thesis by (simp add: packets_after_def)
qed

section \<open>An example\<close>

definition demo_row :: stream_row where
  "demo_row =
     \<lparr>st_stream_id = ''s'', st_owner = ''p'', st_state = StreamOpen, st_delivery = ''reliable'', st_content_type = ''application/octet-stream'',
      st_max_payload_bytes = 1000, st_window = 4, st_retention_packets = 2, st_next_expected = 0, st_last_sequence = -1,
      st_contract = demo_contract, st_expires_at = JStr (stamp 1704067260000), st_last_packet_at = None\<rparr>"

definition demo_packet :: packet where
  "demo_packet =
     [(''stream_id'', JStr ''s''), (''epoch'', JInt 0), (''sequence'', JInt 0), (''capability'', JStr ''telemetry''),
      (''content_type'', JStr ''application/octet-stream''), (''payload'', JStr (b64 [7])), (''checksum'', JStr ''sha-256:h'')]"

abbreviation demo_hash :: "bytes \<Rightarrow> string" where "demo_hash \<equiv> \<lambda>_. ''h''"

abbreviation demo_scan :: "bytes \<Rightarrow> json option" where "demo_scan \<equiv> \<lambda>_. None"

lemma demo_opened: "open_stream empty_registry 1704067200000000 ''u'' ''p'' demo_contract = (empty_registry\<lparr>sg_rows := [demo_row]\<rparr>, Inr demo_row)"
proof -
  have id: "open_stream_id demo_contract ''u'' = ''s''" by (simp add: open_stream_id_def get_or_null_def demo_contract_def)
  have c: "dict_put ''stream_id'' (JStr ''s'') demo_contract = demo_contract" by (simp add: demo_contract_def dict_put_build_contract)
  have disk: "\<not> in_memory demo_contract" by (simp add: in_memory_def demo_contract_def)
  have lim: "open_limits_ok demo_contract = Inr True"
    by (simp add: open_limits_ok_def contract_int_def demo_contract_def MAX_PACKET_BYTES_def MAX_WINDOW_def MAX_RETENTION_PACKETS_def)
  have "repo_open empty_registry ''s'' ''p'' demo_contract = Inr (empty_registry\<lparr>sg_rows := [demo_row]\<rparr>, demo_row)"
    by (simp add: repo_open_def contract_text_def contract_int_def repo_get_def empty_registry_def demo_row_def) (simp add: demo_contract_def get_or_null_def Let_def)
  then show ?thesis
    by (simp add: open_stream_def Let_def id c lim open_new_def disk repo_get_def) (simp add: empty_registry_def repo_get_def c open_new_def disk)
qed

definition demo_open_state :: stream_sys where
  "demo_open_state = \<lparr>ss_reg = empty_registry\<lparr>sg_rows := [demo_row]\<rparr>, ss_busy = None\<rparr>"

lemma demo_open_reachable: "reachable stream_start (stream_step demo_hash demo_scan) demo_open_state"
proof -
  let ?s = "\<lparr>ss_reg = empty_registry, ss_busy = None\<rparr>"
  have init: "reachable stream_start (stream_step demo_hash demo_scan) ?s" by (rule reachable_init) (simp add: stream_start_def)
  have "stream_step demo_hash demo_scan ?s (?s\<lparr>ss_reg := fst (open_stream (ss_reg ?s) 1704067200000000 ''u'' ''p'' demo_contract)\<rparr>)"
    by (rule step_open) simp
  then have "stream_step demo_hash demo_scan ?s demo_open_state" by (simp add: demo_opened demo_open_state_def)
  with init show ?thesis by (rule reachable_step)
qed

lemma demo_checked:
  "packet_begin demo_hash demo_scan (ss_reg demo_open_state) 1704067201000000 ''p'' demo_packet False = (ss_reg demo_open_state, Inr (demo_row, Take 0))"
proof -
  have get: "repo_get (ss_reg demo_open_state) ''s'' = Some demo_row" by (simp add: demo_open_state_def repo_get_def demo_row_def)
  have live: "deadline_passed (st_expires_at demo_row) 1704067201000000 = Inr False"
    using demo_deadline by (simp add: demo_row_def deadline_passed_def timestamp_field_def split: option.splits)
  have ra: "require_active (ss_reg demo_open_state) 1704067201000000 (Some demo_row) = (ss_reg demo_open_state, Inr demo_row)"
    by (simp add: require_active_def live) (simp add: demo_row_def)
  have sid: "get_or_null demo_packet ''stream_id'' = JStr ''s''" by (simp add: demo_packet_def get_or_null_def)
  have dec: "decode_packet_payload demo_packet (nat (st_max_payload_bytes demo_row)) = Inr [7]"
    by (rule decode_b64) (simp_all add: demo_packet_def get_or_null_def demo_row_def)
  have seq: "sequence_of demo_packet = Inr 0" by (simp add: sequence_of_def demo_packet_def get_or_null_def fl_eq_def)
  have "check_packet demo_hash demo_scan demo_row demo_packet 1704067201000000 = Inr (Take 0)"
    unfolding check_packet_def seq dec
    by (simp add: demo_row_def demo_contract_def get_or_null_def digest_def check_rate_def) (simp add: demo_packet_def)
  moreover have "\<not> in_memory (st_contract demo_row)" "st_owner demo_row = ''p''"
    by (simp_all add: in_memory_def demo_row_def demo_contract_def)
  ultimately show ?thesis by (simp add: packet_begin_def sid get ra)
qed

definition demo_busy_state :: stream_sys where
  "demo_busy_state = demo_open_state\<lparr>ss_busy := Some (demo_packet, demo_row, Take 0, 1704067201000000)\<rparr>"

lemma demo_busy_reachable: "reachable stream_start (stream_step demo_hash demo_scan) demo_busy_state"
proof -
  have "stream_step demo_hash demo_scan demo_open_state
      (demo_open_state\<lparr>ss_reg := ss_reg demo_open_state, ss_busy := Some (demo_packet, demo_row, Take 0, 1704067201000000)\<rparr>)"
    by (rule step_check [OF _ demo_checked]) (simp add: demo_open_state_def)
  then have "stream_step demo_hash demo_scan demo_open_state demo_busy_state" by (simp add: demo_busy_state_def)
  with demo_open_reachable show ?thesis by (rule reachable_step)
qed


theorem retention_bounded_witness:
  "int (length (packet_sequences (sg_packets (ss_reg demo_open_state)) ''s'')) \<le> 2"
proof -
  have "demo_row \<in> set (sg_rows (ss_reg demo_open_state))" by (simp add: demo_open_state_def)
  from retention_bounded [OF demo_open_reachable this] show ?thesis by (simp add: demo_row_def)
qed

definition demo_written :: stream_sys where
  "demo_written = demo_busy_state\<lparr>ss_reg := fst (packet_commit (ss_reg demo_busy_state) 1704067201000000 demo_packet demo_row (Take 0)), ss_busy := None\<rparr>"

lemma demo_written_row:
  "demo_row\<lparr>st_next_expected := 1, st_last_sequence := 0, st_last_packet_at := Some 1704067201000000\<rparr> \<in> set (sg_rows (ss_reg demo_written))"
proof -
  have "\<not> in_memory (st_contract demo_row)" by (simp add: in_memory_def demo_row_def demo_contract_def)
  then show ?thesis
    by (simp add: demo_written_def demo_busy_state_def demo_open_state_def packet_commit_def Let_def advance_def empty_registry_def packet_sequences_def)
       (simp add: demo_row_def packet_sequences_def)
qed

theorem pull_resumes_without_gap_witness:
  "map sequence_of (packets_after (ss_reg demo_written) ''s'' (-1)) = [Inr 0]"
proof -
  have "reachable stream_start (stream_step demo_hash demo_scan) demo_written"
    unfolding demo_written_def by (rule reachable_step [OF demo_busy_reachable step_write]) (simp add: demo_busy_state_def)
  from pull_resumes_without_gap [OF this demo_written_row, of "-1"] show ?thesis by (simp add: demo_row_def)
qed

end
