(* ===== verification/Stream_Handlers.thy ===== *)
theory Stream_Handlers
  imports Streams Trust
begin

text \<open>
  The stream messages of \<^verbatim>\<open>FaspHarness\<close> (\<^verbatim>\<open>src/fasp_harness/core.py\<close>): opening a stream, packets and their
  forwarding to live subscribers, pulling, subscribing, unsubscribing and closing, with the checks of
  scope, policy and grant in front of each. The push to a live channel is recorded as the peer and the
  signed message; whether a channel exists is the business of \<^verbatim>\<open>channels.py\<close>.
\<close>

record 'h stream_node =
  sn_now :: int
  sn_trust :: "'h trust_db"
  sn_reg :: registry
  sn_pushed :: "(string \<times> (string \<times> json) list) list"

record stream_config =
  sc_system_id :: string
  sc_instance_id :: string
  sc_policy :: StreamSharingPolicy
  sc_sha :: "bytes \<Rightarrow> string"
  sc_scan :: "bytes \<Rightarrow> json option"
  sc_canon :: "json \<Rightarrow> bytes option"
  sc_ed_sign :: "bytes \<Rightarrow> bytes"
  sc_kid :: string

text \<open>Grants are kept with a precision of milliseconds.\<close>

definition now_ms :: "'h stream_node \<Rightarrow> timestamp" where
  "now_ms s = sn_now s div 1000"

section \<open>Authorization\<close>

definition capability_permitted :: "json \<Rightarrow> string list \<Rightarrow> bool" where
  "capability_permitted v prefix_list = (case v of JStr c \<Rightarrow> allows c prefix_list | _ \<Rightarrow> False)"

definition authorize_stream :: "(string \<times> json) list \<Rightarrow> authentication_view \<Rightarrow> unit result" where
  "authorize_stream payload peer = permit (capability_permitted (get_or_null payload ''capability'') (av_prefixes peer))"

definition nonempty_text :: "json \<Rightarrow> string option" where
  "nonempty_text v = (case v of JStr s \<Rightarrow> if s = [] then None else Some s | _ \<Rightarrow> None)"

definition grant_of_ref :: "'h trust_db \<Rightarrow> json \<Rightarrow> grant_row option result" where
  "grant_of_ref db ref =
     (case ref of
        JNull \<Rightarrow> Inr None
      | JObj kvs \<Rightarrow>
          if set (map fst kvs) \<noteq> {''id'', ''digest''} then Inl invalid
          else (case nonempty_text (get_or_null kvs ''id'') of
                  None \<Rightarrow> Inl invalid
                | Some gid \<Rightarrow>
                    (case grants_get db gid of
                       None \<Rightarrow> Inl (FaspError ''auth.invalid_grant'')
                     | Some g \<Rightarrow> if get_or_null kvs ''digest'' = JStr (gr_digest g) then Inr (Some g) else Inl (FaspError ''auth.invalid_grant'')))
      | _ \<Rightarrow> Inl invalid)"

definition json_names :: "json \<Rightarrow> string list option" where
  "json_names v =
     (case v of JList xs \<Rightarrow> if list_all (\<lambda>x. case x of JStr _ \<Rightarrow> True | _ \<Rightarrow> False) xs then Some (map name_of xs) else None | _ \<Rightarrow> None)"

definition contract_names :: "stream_contract \<Rightarrow> string \<Rightarrow> string list result" where
  "contract_names c k = (case map_of c k of None \<Rightarrow> Inl KeyError | Some v \<Rightarrow> (case json_names v of Some names \<Rightarrow> Inr names | None \<Rightarrow> Inl TypeError))"

definition within_names :: "stream_contract \<Rightarrow> (string \<times> json) list \<Rightarrow> string \<Rightarrow> unit result" where
  "within_names contract constraints name =
     (case map_of constraints name of
        None \<Rightarrow> Inr ()
      | Some v \<Rightarrow>
          (case json_names v of
             None \<Rightarrow> Inl denied
           | Some allowed \<Rightarrow> bind_result (contract_names contract name) (\<lambda>names. permit (set names \<subseteq> set allowed))))"

definition within_modes :: "json result \<Rightarrow> (string \<times> json) list \<Rightarrow> string \<Rightarrow> unit result" where
  "within_modes mode constraints name =
     (case map_of constraints name of
        None \<Rightarrow> Inr ()
      | Some v \<Rightarrow> (case json_names v of None \<Rightarrow> Inl denied | Some allowed \<Rightarrow> bind_result mode (\<lambda>m. permit (m \<in> JStr ` set allowed))))"

definition limit_value :: "json \<Rightarrow> rat result" where
  "limit_value v =
     (case v of
        JInt i \<Rightarrow> if float_overflows i then Inl OtherException else if i < 0 then Inl denied else Inr (of_int i)
      | JFloat (Fin r) \<Rightarrow> if r < 0 then Inl denied else Inr r
      | _ \<Rightarrow> Inl denied)"

definition within_limit :: "stream_contract \<Rightarrow> (string \<times> json) list \<Rightarrow> string \<times> string \<Rightarrow> unit result" where
  "within_limit contract constraints names =
     (case names of (limit_name, field) \<Rightarrow>
        (case map_of constraints limit_name of
           None \<Rightarrow> Inr ()
         | Some v \<Rightarrow> bind_result (limit_value v) (\<lambda>limit.
             case map_of contract field of
               None \<Rightarrow> Inl KeyError
             | Some w \<Rightarrow> (case as_number w of Some f \<Rightarrow> permit (\<not> fl_less (Fin limit) f) | None \<Rightarrow> Inl TypeError))))"

definition grant_limits :: "(string \<times> string) list" where
  "grant_limits =
     [(''max_rate_hz'', ''max_rate_hz''), (''max_duration_s'', ''duration_s''), (''max_payload_bytes'', ''max_payload_bytes''),
      (''max_window'', ''window''), (''max_retention_packets'', ''retention_packets'')]"

definition contract_value :: "stream_contract \<Rightarrow> string \<Rightarrow> json result" where
  "contract_value c k = (case map_of c k of None \<Rightarrow> Inl KeyError | Some v \<Rightarrow> Inr v)"

definition check_constraints :: "stream_contract \<Rightarrow> json option \<Rightarrow> unit result" where
  "check_constraints contract constraints =
     (case (case constraints of Some v \<Rightarrow> if truthy v then v else JObj [] | None \<Rightarrow> JObj []) of
        JObj kvs \<Rightarrow>
          bind_result (within_names contract kvs ''fields'') (\<lambda>_.
          bind_result (within_names contract kvs ''forward_to'') (\<lambda>_.
          bind_result (within_modes (contract_value contract ''delivery'') kvs ''delivery_modes'') (\<lambda>_.
          bind_result (within_modes (Inr (get_default contract ''storage'' (JStr ''disk''))) kvs ''storage_modes'') (\<lambda>_.
          bind_result (map_result (within_limit contract kvs) grant_limits) (\<lambda>_. Inr ())))))
      | _ \<Rightarrow> Inl denied)"

definition validate_stream_grant ::
    "'h trust_db \<Rightarrow> timestamp \<Rightarrow> string \<Rightarrow> stream_contract \<Rightarrow> json \<Rightarrow> bool \<Rightarrow> unit result" where
  "validate_stream_grant db now peer_id contract ref require_grant =
     bind_result (grant_of_ref db ref) (\<lambda>grant.
     bind_result (contract_text contract ''capability'') (\<lambda>capability.
     bind_result (contract_text contract ''purpose'') (\<lambda>purpose.
     bind_result (validate_grant_if_required db now peer_id capability (map_option gr_grant_id grant) require_grant (Some purpose)) (\<lambda>_.
     case grant of None \<Rightarrow> Inr () | Some g \<Rightarrow> check_constraints contract (gr_constraints g)))))"

definition contract_terms :: "string list" where
  "contract_terms =
     [''capability'', ''purpose'', ''fields'', ''content_type'', ''delivery'', ''storage'', ''max_rate_hz'', ''duration_s'', ''expires_at'',
      ''max_payload_bytes'', ''window'', ''retention_packets'', ''forward_to'', ''recipient'']"

definition terms_match :: "stream_contract \<Rightarrow> stream_contract \<Rightarrow> bool" where
  "terms_match current contract = list_all (\<lambda>k. py_eq (get_or_null current k) (get_or_null contract k)) contract_terms"

text \<open>The checks of an existing stream that follow the look-up and the lease.\<close>

definition authorize_row ::
    "stream_config \<Rightarrow> 'h stream_node \<Rightarrow> string \<Rightarrow> (string \<times> json) list \<Rightarrow> authentication_view \<Rightarrow> stream_row \<Rightarrow> unit result" where
  "authorize_row cfg s sender payload peer stream =
     (let contract = st_contract stream in
      bind_result (contract_value contract ''capability'') (\<lambda>own.
      let capability = get_default payload ''capability'' own in
      bind_result (permit (py_eq capability own \<and> capability_permitted capability (av_prefixes peer))) (\<lambda>_.
      bind_result (authorize_open (sc_policy cfg) (sn_now s) (st_owner stream) (sc_system_id cfg) contract) (\<lambda>(rule, current).
      bind_result (permit (terms_match current contract)) (\<lambda>_.
      if sender = st_owner stream
      then validate_stream_grant (sn_trust s) (now_ms s) (st_owner stream) contract (get_or_null contract ''grant'') (sr_require_grant rule)
      else bind_result (contract_names contract ''forward_to'') (\<lambda>names.
           bind_result (permit (sender \<in> set names)) (\<lambda>_.
           validate_stream_grant (sn_trust s) (now_ms s) sender (dict_put ''forward_to'' (JList []) contract) (get_or_null payload ''grant'') True)))))))"

definition authorize_existing_stream ::
    "stream_config \<Rightarrow> 'h stream_node \<Rightarrow> string \<Rightarrow> (string \<times> json) list \<Rightarrow> authentication_view \<Rightarrow> json \<Rightarrow> 'h stream_node \<times> stream_row result" where
  "authorize_existing_stream cfg s sender payload peer stream_id =
     (case stream_id of
        JStr sid \<Rightarrow>
          (case require_active (sn_reg s) (sn_now s) (repo_get (sn_reg s) sid) of
             (g, Inl e) \<Rightarrow> (s\<lparr>sn_reg := g\<rparr>, Inl e)
           | (g, Inr stream) \<Rightarrow> (s\<lparr>sn_reg := g\<rparr>, bind_result (authorize_row cfg s sender payload peer stream) (\<lambda>_. Inr stream)))
      | _ \<Rightarrow> (s, Inl invalid))"

section \<open>Handlers\<close>

text \<open>\<^verbatim>\<open>isoformat(timespec="microseconds")\<close>.\<close>

definition micro_stamp :: "int \<Rightarrow> string" where
  "micro_stamp t = butlast (stamp (t div 1000)) @ pad 3 (nat (t mod 1000)) @ ''Z''"

definition stream_json :: "stream_row \<Rightarrow> json" where
  "stream_json r =
     JObj [(''stream_id'', JStr (st_stream_id r)), (''owner'', JStr (st_owner r)),
           (''state'', JStr (case st_state r of StreamOpen \<Rightarrow> ''open'' | StreamClosed \<Rightarrow> ''closed'')), (''delivery'', JStr (st_delivery r)),
           (''content_type'', JStr (st_content_type r)), (''max_payload_bytes'', JInt (st_max_payload_bytes r)), (''window'', JInt (st_window r)),
           (''retention_packets'', JInt (st_retention_packets r)), (''next_expected'', JInt (st_next_expected r)),
           (''last_sequence'', JInt (st_last_sequence r)), (''contract'', JObj (st_contract r)), (''expires_at'', st_expires_at r),
           (''last_packet_at'', case st_last_packet_at r of None \<Rightarrow> JNull | Some t \<Rightarrow> JStr (micro_stamp t))]"

definition on_registry :: "'h stream_node \<Rightarrow> registry \<times> 'a result \<Rightarrow> 'h stream_node \<times> 'a result" where
  "on_registry s r = (case r of (g, x) \<Rightarrow> (s\<lparr>sn_reg := g\<rparr>, x))"

definition handle_stream_open ::
    "stream_config \<Rightarrow> 'h stream_node \<Rightarrow> string \<Rightarrow> string \<Rightarrow> (string \<times> json) list \<Rightarrow> authentication_view \<Rightarrow> 'h stream_node \<times> json result" where
  "handle_stream_open cfg s fresh sender payload peer =
     (case bind_result (authorize_stream payload peer) (\<lambda>_.
           bind_result (authorize_open (sc_policy cfg) (sn_now s) sender (sc_system_id cfg) payload) (\<lambda>(rule, contract).
           bind_result (validate_stream_grant (sn_trust s) (now_ms s) sender contract (get_or_null payload ''grant'') (sr_require_grant rule)) (\<lambda>_.
           Inr (case get_or_null payload ''grant'' of JNull \<Rightarrow> contract | v \<Rightarrow> dict_put ''grant'' v contract)))) of
        Inl e \<Rightarrow> (s, Inl e)
      | Inr contract \<Rightarrow> on_registry s (map_prod id (map_sum id stream_json) (open_stream (sn_reg s) (sn_now s) fresh sender contract)))"

definition is_fasp_error :: "exn \<Rightarrow> bool" where
  "is_fasp_error e = (case e of FaspError _ \<Rightarrow> True | _ \<Rightarrow> False)"

definition stream_subscriber_is_authorized ::
    "stream_config \<Rightarrow> 'h stream_node \<Rightarrow> stream_row \<Rightarrow> string \<Rightarrow> grant_ref \<Rightarrow> 'h stream_node \<times> bool result" where
  "stream_subscriber_is_authorized cfg s stream subscriber ref =
     (let payload = [(''stream_id'', JStr (st_stream_id stream)), (''capability'', get_or_null (st_contract stream) ''capability''), (''grant'', JObj ref)];
          checked = (case harness_peer (sn_trust s) (now_ms s) subscriber of
                       Inl e \<Rightarrow> (s, Inl e)
                     | Inr peer \<Rightarrow> authorize_existing_stream cfg s subscriber payload peer (JStr (st_stream_id stream)))
      in case checked of
           (s', Inr _) \<Rightarrow> (s', Inr True)
         | (s', Inl e) \<Rightarrow>
             if is_fasp_error e then (s'\<lparr>sn_reg := unsubscribe (sn_reg s') subscriber (st_stream_id stream)\<rparr>, Inr False) else (s', Inl e))"

definition push_message :: "stream_config \<Rightarrow> string \<Rightarrow> (string \<times> json) list \<Rightarrow> stream_row \<Rightarrow> string \<Rightarrow> json \<Rightarrow> (string \<times> json) list result" where
  "push_message cfg sender payload stream subscriber expires_at =
     sign (sc_canon cfg) (sc_ed_sign cfg) (sc_kid cfg)
       [(''fasp'', JStr PROTOCOL), (''type'', JStr ''stream.push''), (''stream_id'', JStr (st_stream_id stream)), (''origin_peer'', JStr sender),
        (''forwarder_peer'', JStr (sc_system_id cfg)), (''recipient_peer'', JStr subscriber), (''packet'', JObj payload),
        (''storage'', get_default (st_contract stream) ''storage'' (JStr ''disk'')), (''forwarder_instance'', JStr (sc_instance_id cfg)),
        (''expires_at'', expires_at)]"

fun forward_to_each ::
    "stream_config \<Rightarrow> 'h stream_node \<Rightarrow> string \<Rightarrow> (string \<times> json) list \<Rightarrow> json \<Rightarrow> stream_row \<Rightarrow> (string \<times> grant_ref) list \<Rightarrow> 'h stream_node \<times> unit result" where
  "forward_to_each cfg s sender payload expires_at stream [] = (s, Inr ())"
| "forward_to_each cfg s sender payload expires_at stream ((subscriber, ref) # rest) =
     (case stream_subscriber_is_authorized cfg s stream subscriber ref of
        (s', Inl e) \<Rightarrow> (s', Inl e)
      | (s', Inr False) \<Rightarrow> forward_to_each cfg s' sender payload expires_at stream rest
      | (s', Inr True) \<Rightarrow>
          (case push_message cfg sender payload stream subscriber expires_at of
             Inl e \<Rightarrow> (s', Inl e)
           | Inr message \<Rightarrow> forward_to_each cfg (s'\<lparr>sn_pushed := sn_pushed s' @ [(subscriber, message)]\<rparr>) sender payload expires_at stream rest))"

definition handle_stream_packet ::
    "stream_config \<Rightarrow> 'h stream_node \<Rightarrow> string \<Rightarrow> (string \<times> json) list \<Rightarrow> bool \<Rightarrow> json \<Rightarrow> authentication_view \<Rightarrow> 'h stream_node \<times> json result" where
  "handle_stream_packet cfg s sender payload volatile expires_at peer =
     (case authorize_stream payload peer of
        Inl e \<Rightarrow> (s, Inl e)
      | Inr _ \<Rightarrow>
          (case authorize_existing_stream cfg s sender payload peer (get_or_null payload ''stream_id'') of
             (s1, Inl e) \<Rightarrow> (s1, Inl e)
           | (s1, Inr _) \<Rightarrow>
               (case on_registry s1 (stream_packet (sc_sha cfg) (sc_scan cfg) (sn_reg s1) (sn_now s1) sender payload volatile) of
                  (s2, Inl e) \<Rightarrow> (s2, Inl e)
                | (s2, Inr (True, reply)) \<Rightarrow> (s2, Inr reply)
                | (s2, Inr (False, reply)) \<Rightarrow>
                    (case get_or_null payload ''stream_id'' of
                       JStr sid \<Rightarrow>
                         (case repo_get (sn_reg s2) sid of
                            None \<Rightarrow> (s2, Inr reply)
                          | Some stream \<Rightarrow>
                              (case forward_to_each cfg s2 sender payload expires_at stream (subscription_grants_of (sn_reg s2) sid) of
                                 (s3, Inl e) \<Rightarrow> (s3, Inl e)
                               | (s3, Inr _) \<Rightarrow> (s3, Inr reply)))
                     | _ \<Rightarrow> (s2, Inr reply)))))"

definition authorized ::
    "stream_config \<Rightarrow> 'h stream_node \<Rightarrow> string \<Rightarrow> (string \<times> json) list \<Rightarrow> authentication_view \<Rightarrow>
     ('h stream_node \<Rightarrow> string \<Rightarrow> 'h stream_node \<times> json result) \<Rightarrow> 'h stream_node \<times> json result" where
  "authorized cfg s sender payload peer k =
     (case (authorize_stream payload peer, get_or_null payload ''stream_id'') of
        (Inl e, _) \<Rightarrow> (s, Inl e)
      | (Inr _, JStr sid) \<Rightarrow>
          (case authorize_existing_stream cfg s sender payload peer (JStr sid) of (s1, Inl e) \<Rightarrow> (s1, Inl e) | (s1, Inr _) \<Rightarrow> k s1 sid)
      | (Inr _, v) \<Rightarrow> (case authorize_existing_stream cfg s sender payload peer v of (s1, _) \<Rightarrow> (s1, Inl invalid)))"

definition pull_json :: "string \<Rightarrow> packet list \<times> int \<Rightarrow> json" where
  "pull_json sid r = (case r of (packets, last_sequence) \<Rightarrow>
     JObj [(''stream_id'', JStr sid), (''packets'', JList (map JObj packets)), (''last_sequence'', JInt last_sequence)])"

text \<open>\<^verbatim>\<open>int(payload.get("after_sequence", -1))\<close>; the contract of the payload admits integers only.\<close>

definition handle_stream_pull ::
    "stream_config \<Rightarrow> 'h stream_node \<Rightarrow> string \<Rightarrow> (string \<times> json) list \<Rightarrow> authentication_view \<Rightarrow> 'h stream_node \<times> json result" where
  "handle_stream_pull cfg s sender payload peer =
     authorized cfg s sender payload peer (\<lambda>s1 sid.
       case get_default payload ''after_sequence'' (JInt (-1)) of
         JInt a \<Rightarrow> on_registry s1 (map_prod id (map_sum id (pull_json sid)) (pull (sn_reg s1) (sn_now s1) sender sid a))
       | _ \<Rightarrow> (s1, Inl TypeError))"

definition handle_stream_subscribe ::
    "stream_config \<Rightarrow> 'h stream_node \<Rightarrow> string \<Rightarrow> (string \<times> json) list \<Rightarrow> authentication_view \<Rightarrow> 'h stream_node \<times> json result" where
  "handle_stream_subscribe cfg s sender payload peer =
     authorized cfg s sender payload peer (\<lambda>s1 sid.
       case get_or_null payload ''grant'' of
         JNull \<Rightarrow> (s1, Inl invalid)
       | JObj ref \<Rightarrow> on_registry s1 (subscribe (sn_reg s1) (sn_now s1) sender sid ref)
       | _ \<Rightarrow> (s1, Inl TypeError))"

definition handle_stream_unsubscribe :: "'h stream_node \<Rightarrow> string \<Rightarrow> (string \<times> json) list \<Rightarrow> 'h stream_node \<times> json result" where
  "handle_stream_unsubscribe s sender payload =
     (case get_or_null payload ''stream_id'' of
        JStr sid \<Rightarrow> (s\<lparr>sn_reg := unsubscribe (sn_reg s) sender sid\<rparr>, Inr (JObj [(''type'', JStr ''stream.unsubscribed''), (''stream_id'', JStr sid)]))
      | _ \<Rightarrow> (s, Inl invalid))"

definition handle_stream_close ::
    "py_parse \<Rightarrow> 'h stream_node \<Rightarrow> string \<Rightarrow> (string \<times> json) list \<Rightarrow> authentication_view \<Rightarrow> 'h stream_node \<times> json result" where
  "handle_stream_close fs s sender payload peer =
     (case (authorize_stream payload peer, get_or_null payload ''stream_id'') of
        (Inl e, _) \<Rightarrow> (s, Inl e)
      | (Inr _, JStr sid) \<Rightarrow> on_registry s (close_stream (sn_reg s) sender sid (to_str fs (get_default payload ''reason'' (JStr ''closed''))))
      | _ \<Rightarrow> (s, Inl invalid))"

section \<open>A stream stays open to its owner\<close>

lemma py_eq_refl_names: "py_eq (JList (map JStr xs)) (JList (map JStr xs))"
  by (induction xs) auto

lemma terms_match_refl:
  assumes "same_terms (build_contract sid cap pur fs ct l del rate dur ex mp w ret fwd st) c"
    and "c0 = build_contract sid' cap pur fs ct l del rate dur ex mp w ret fwd st" and "py_eq cap cap" and "py_eq ex ex"
  shows "terms_match c0 c"
proof -
  have g: "get_or_null c k = get_or_null (build_contract sid cap pur fs ct l del rate dur ex mp w ret fwd st) k" if "k \<noteq> ''stream_id''" "k \<noteq> ''grant''" for k
    using assms(1) that by (simp add: same_terms_def get_or_null_def)
  show ?thesis
    using assms(3,4) unfolding terms_match_def contract_terms_def assms(2)
    by (simp add: g) (cases st; simp add: get_or_null_def names_json_def py_eq_refl_names fl_eq_def)
qed

text \<open>
  Checking a stream again does not turn its owner away: as long as the sharing policy is unchanged, the contract a stream was opened
  with, with its identifier and grant filled in, passes the policy and the comparison of its terms at every later moment before its
  deadline.
\<close>

theorem opened_contract_stays_authorized:
  assumes "authorize_open rules t peer_id local_id payload = Inr (rule, c)"
    and "contract = dict_put ''stream_id'' (JStr sid) c \<or> contract = dict_put ''stream_id'' (JStr sid) (dict_put ''grant'' ref c)" and "sid \<noteq> []"
    and "timestamp_field (get_or_null c ''expires_at'') = Inr deadline" and "t \<le> t'" and "t' < deadline"
    and "get_or_null c ''duration_s'' = JFloat (Fin duration)" and "lease_limit t' duration \<noteq> None"
  shows "\<exists>current. authorize_open rules t' peer_id local_id contract = Inr (rule, current) \<and> terms_match current contract"
proof -
  obtain fs rate dur mp w ret fwd st where r: "find_rule rules peer_id (get_or_null payload ''capability'') = Some rule"
    and a: "authorized_as rule t peer_id local_id payload fs rate dur mp w ret fwd st"
    and c: "c = contract_for local_id payload fs rate dur mp w ret fwd st"
    using assms(1) unfolding authorize_open_iff by (elim exE conjE) (rule that)
  have same: "same_terms c contract" using assms(2) by (auto simp: same_terms_def)
  have sid: "get_or_null contract ''stream_id'' = JStr sid" using assms(2) by (auto simp: get_or_null_def)
  then have "stream_id_ok (get_or_null contract ''stream_id'')" using assms(3) by (simp add: stream_id_ok_def)
  from contract_reauthorized [OF assms(1) same this assms(4-8)]
  have auth: "authorize_open rules t' peer_id local_id contract = Inr (rule, dict_put ''stream_id'' (JStr sid) c)" unfolding sid .
  have "py_eq (get_or_null payload ''capability'') (get_or_null payload ''capability'')" using find_rule_Some(2) [OF r] by simp
  moreover have "py_eq (get_or_null payload ''expires_at'') (get_or_null payload ''expires_at'')"
    using assms(4) by (auto simp: c contract_for_def get_or_null_def timestamp_field_def split: json.splits)
  ultimately have "terms_match (dict_put ''stream_id'' (JStr sid) c) contract"
    using same unfolding c contract_for_def dict_put_build_contract by (intro terms_match_refl) (assumption | rule refl)+
  with auth show ?thesis by blast
qed

theorem opened_contract_stays_authorized_witness:
  "\<exists>current. authorize_open [demo_rule] 1704067230000000 ''p'' ''me'' (dict_put ''stream_id'' (JStr ''s'') demo_contract) = Inr (demo_rule, current) \<and>
     terms_match current (dict_put ''stream_id'' (JStr ''s'') demo_contract)"
proof (rule opened_contract_stays_authorized [OF demo_authorized, where sid = "''s''"])
  show "timestamp_field (get_or_null demo_contract ''expires_at'') = Inr 1704067260000000"
    using demo_deadline by (simp add: demo_contract_def get_or_null_def)
  show "get_or_null demo_contract ''duration_s'' = JFloat (Fin 60)" by (simp add: demo_contract_def get_or_null_def)
  show "lease_limit 1704067230000000 60 \<noteq> None" by (simp add: lease_limit_def MAX_INSTANT_def py_round_def)
qed simp_all

section \<open>Who is sent a packet\<close>

text \<open>What a peer must hold to be sent the packets of a stream it does not own.\<close>

definition entitled :: "'h trust_db \<Rightarrow> timestamp \<Rightarrow> string \<Rightarrow> stream_row \<Rightarrow> bool" where
  "entitled db now peer_id stream \<longleftrightarrow>
     (\<exists>peer capability purpose names g.
        harness_peer db now peer_id = Inr peer \<and> map_of (st_contract stream) ''capability'' = Some (JStr capability) \<and>
        map_of (st_contract stream) ''purpose'' = Some (JStr purpose) \<and> allows capability (av_prefixes peer) \<and>
        contract_names (st_contract stream) ''forward_to'' = Inr names \<and> peer_id \<in> set names \<and>
        g \<in> set (td_grants db) \<and> gr_subject_peer g = peer_id \<and> gr_revoked_at g = None \<and> now < gr_expires_at g \<and>
        gr_purpose g = Some purpose \<and> allows capability (gr_prefixes g))"

lemma grant_of_ref_Some:
  assumes "grant_of_ref db ref = Inr (Some g)"
  shows "grants_get db (gr_grant_id g) = Some g \<and> g \<in> set (td_grants db)"
proof -
  obtain gid where "grants_get db gid = Some g"
    using assms by (auto simp: grant_of_ref_def split: json.splits if_splits option.splits)
  with find_Some_mem [of _ "td_grants db" g] show ?thesis unfolding grants_get_def by metis
qed

lemma validate_required:
  assumes "validate_stream_grant db now peer_id contract ref True = Inr ()"
  shows "\<exists>capability purpose g. map_of contract ''capability'' = Some (JStr capability) \<and> map_of contract ''purpose'' = Some (JStr purpose) \<and>
     g \<in> set (td_grants db) \<and> gr_subject_peer g = peer_id \<and> gr_revoked_at g = None \<and> now < gr_expires_at g \<and> gr_purpose g = Some purpose \<and>
     allows capability (gr_prefixes g)"
proof -
  obtain grant capability purpose where g: "grant_of_ref db ref = Inr grant" "contract_text contract ''capability'' = Inr capability"
      "contract_text contract ''purpose'' = Inr purpose"
      "validate_grant_if_required db now peer_id capability (map_option gr_grant_id grant) True (Some purpose) = Inr ()"
    using assms by (auto simp: validate_stream_grant_def bind_result_Inr_iff)
  obtain row where row: "grant = Some row" using g(4) by (cases grant) (auto simp: validate_grant_if_required_def)
  from grant_of_ref_Some [OF g(1) [unfolded row]] g(4) row
  have "row \<in> set (td_grants db)" "gr_subject_peer row = peer_id" "gr_revoked_at row = None" "now < gr_expires_at row" "gr_purpose row = Some purpose"
      "allows capability (gr_prefixes row)"
    by (auto simp: validate_grant_if_required_def split: if_splits)
  moreover have "map_of contract ''capability'' = Some (JStr capability)" "map_of contract ''purpose'' = Some (JStr purpose)"
    using g(2,3) by (auto simp: contract_text_def split: option.splits json.splits)
  ultimately show ?thesis by blast
qed

lemma authorize_row_entitled:
  assumes "authorize_row cfg s sender payload peer stream = Inr ()" and "sender \<noteq> st_owner stream"
    and "harness_peer (sn_trust s) (now_ms s) sender = Inr peer"
  shows "entitled (sn_trust s) (now_ms s) sender stream"
proof -
  let ?c = "st_contract stream"
  obtain own names where own: "contract_value ?c ''capability'' = Inr own"
      "py_eq (get_default payload ''capability'' own) own \<and> capability_permitted (get_default payload ''capability'' own) (av_prefixes peer)"
    and names: "contract_names ?c ''forward_to'' = Inr names" "sender \<in> set names"
    and v: "validate_stream_grant (sn_trust s) (now_ms s) sender (dict_put ''forward_to'' (JList []) ?c) (get_or_null payload ''grant'') True = Inr ()"
    using assms(1,2) by (auto simp: authorize_row_def Let_def bind_result_Inr_iff)
  obtain capability purpose g where cp: "map_of ?c ''capability'' = Some (JStr capability)" "map_of ?c ''purpose'' = Some (JStr purpose)"
    and g: "g \<in> set (td_grants (sn_trust s))" "gr_subject_peer g = sender" "gr_revoked_at g = None" "now_ms s < gr_expires_at g"
      "gr_purpose g = Some purpose" "allows capability (gr_prefixes g)"
    using validate_required [OF v] by auto
  have "own = JStr capability" using own(1) cp(1) by (simp add: contract_value_def)
  then have "get_default payload ''capability'' own = JStr capability"
    using own(2) by (auto simp: capability_permitted_def split: json.splits)
  then have "allows capability (av_prefixes peer)" using own(2) by (simp add: capability_permitted_def)
  with assms(3) cp names g show ?thesis unfolding entitled_def by blast
qed

lemma entitled_same_contract: "st_contract r = st_contract r' \<Longrightarrow> entitled db t p r = entitled db t p r'"
  by (simp add: entitled_def)

text \<open>Rows of a later registry come from rows of an earlier one.\<close>

definition rows_from :: "registry \<Rightarrow> registry \<Rightarrow> bool" where
  "rows_from g g' \<longleftrightarrow>
     (\<forall>r' \<in> set (sg_rows g'). \<exists>r \<in> set (sg_rows g). st_stream_id r = st_stream_id r' \<and> st_owner r = st_owner r' \<and> st_contract r = st_contract r' \<and>
        (st_state r' = StreamOpen \<longrightarrow> st_state r = StreamOpen))"

lemma rows_from_refl: "sg_rows g' = sg_rows g \<Longrightarrow> rows_from g g'"
  by (auto simp: rows_from_def)

lemma rows_from_trans: "rows_from a b \<Longrightarrow> rows_from b c \<Longrightarrow> rows_from a c"
  unfolding rows_from_def by (metis (no_types))

lemma rows_from_update:
  assumes "sg_rows g' = update_where p f (sg_rows g)"
    and "\<And>r. st_stream_id (f r) = st_stream_id r \<and> st_owner (f r) = st_owner r \<and> st_contract (f r) = st_contract r \<and> (st_state (f r) = StreamOpen \<longrightarrow> st_state r = StreamOpen)"
  shows "rows_from g g'"
  using assms by (auto simp: rows_from_def set_update_where)

lemma rows_from_close: "rows_from g (repo_close g i)"
proof (rule rows_from_update)
  show "sg_rows (repo_close g i) = update_where (\<lambda>r. st_stream_id r = i) (\<lambda>r. r\<lparr>st_state := StreamClosed\<rparr>) (sg_rows g)"
    by (simp add: repo_close_def)
qed simp

lemma rows_from_expire: "rows_from g (expire g i)"
  unfolding expire_def by (rule rows_from_trans [OF rows_from_close rows_from_refl]) (simp add: drop_live_def)

lemma rows_from_active: "rows_from g (fst (require_active g now row))"
  by (cases row) (auto simp: require_active_def rows_from_refl rows_from_expire split: sum.split bool.split)

lemma rows_from_advance: "rows_from g (fst (advance g i n l p ret t))"
proof -
  have "sg_rows (fst (advance g i n l p ret t)) = sg_rows g \<or>
      sg_rows (fst (advance g i n l p ret t)) = update_where (\<lambda>r. st_stream_id r = i \<and> st_state r = StreamOpen)
        (\<lambda>r. r\<lparr>st_next_expected := n, st_last_sequence := l, st_last_packet_at := Some t\<rparr>) (sg_rows g)"
    by (auto simp: advance_def Let_def split: option.split)
  then show ?thesis
  proof
    assume "sg_rows (fst (advance g i n l p ret t)) = sg_rows g"
    then show ?thesis by (rule rows_from_refl)
  next
    assume "sg_rows (fst (advance g i n l p ret t)) = update_where (\<lambda>r. st_stream_id r = i \<and> st_state r = StreamOpen)
        (\<lambda>r. r\<lparr>st_next_expected := n, st_last_sequence := l, st_last_packet_at := Some t\<rparr>) (sg_rows g)"
    then show ?thesis by (rule rows_from_update) simp
  qed
qed

lemma rows_from_begin: "rows_from g (fst (packet_begin sha scan g now owner packet volatile))"
proof -
  let ?row = "case get_or_null packet ''stream_id'' of JStr sid \<Rightarrow> repo_get g sid | _ \<Rightarrow> None"
  have "fst (packet_begin sha scan g now owner packet volatile) = fst (require_active g now ?row)"
    by (simp add: packet_begin_def split: prod.split sum.split)
  then show ?thesis using rows_from_active by simp
qed

lemma rows_from_commit: "rows_from g (fst (packet_commit g now packet stream plan))"
proof (cases plan)
  case Repeat
  then show ?thesis by (simp add: packet_commit_def rows_from_refl)
next
  case (Take n)
  let ?adv = "advance g (st_stream_id stream) (n + 1) (max (st_last_sequence stream) n)
     (if st_retention_packets stream \<noteq> 0 then Some (n, packet) else None) (st_retention_packets stream) now"
  have "sg_rows (fst (packet_commit g now packet stream plan)) = sg_rows g \<or> fst (packet_commit g now packet stream plan) = fst ?adv"
    unfolding packet_commit_def Take Let_def by (simp split: prod.split sum.split bool.split option.split)
  then show ?thesis
  proof
    assume "sg_rows (fst (packet_commit g now packet stream plan)) = sg_rows g"
    then show ?thesis by (rule rows_from_refl)
  next
    assume "fst (packet_commit g now packet stream plan) = fst ?adv"
    then show ?thesis using rows_from_advance by simp
  qed
qed

lemma rows_from_packet: "rows_from g (fst (stream_packet sha scan g now owner packet volatile))"
proof -
  obtain g1 x where b: "packet_begin sha scan g now owner packet volatile = (g1, x)" by fastforce
  have one: "rows_from g g1" using rows_from_begin [of g sha scan now owner packet volatile] b by simp
  show ?thesis
  proof (cases x)
    case (Inl e)
    then show ?thesis using b one by (simp add: stream_packet_def)
  next
    case (Inr y)
    then show ?thesis using b rows_from_trans [OF one rows_from_commit] by (cases y) (simp add: stream_packet_def)
  qed
qed

lemma on_registry_frame:
  "sn_trust (fst (on_registry s r)) = sn_trust s" "sn_now (fst (on_registry s r)) = sn_now s" "sn_pushed (fst (on_registry s r)) = sn_pushed s"
  "sn_reg (fst (on_registry s r)) = fst r" "snd (on_registry s r) = snd r"
  by (simp_all add: on_registry_def split: prod.split)

definition same_outside :: "'h stream_node \<Rightarrow> 'h stream_node \<Rightarrow> bool" where
  "same_outside s s' \<longleftrightarrow> sn_trust s' = sn_trust s \<and> sn_now s' = sn_now s \<and> sn_pushed s' = sn_pushed s \<and> rows_from (sn_reg s) (sn_reg s')"

lemma same_outside_trans: "same_outside a b \<Longrightarrow> same_outside b c \<Longrightarrow> same_outside a c"
  unfolding same_outside_def using rows_from_trans by metis

lemma existing_frame: "same_outside s (fst (authorize_existing_stream cfg s sender payload peer v))"
proof (cases v)
  case (JStr sid)
  have "sn_reg (fst (authorize_existing_stream cfg s sender payload peer v)) = fst (require_active (sn_reg s) (sn_now s) (repo_get (sn_reg s) sid))"
    "sn_trust (fst (authorize_existing_stream cfg s sender payload peer v)) = sn_trust s" "sn_now (fst (authorize_existing_stream cfg s sender payload peer v)) = sn_now s"
    "sn_pushed (fst (authorize_existing_stream cfg s sender payload peer v)) = sn_pushed s"
    using JStr by (simp_all add: authorize_existing_stream_def split: prod.split sum.split)
  then show ?thesis using rows_from_active by (simp add: same_outside_def)
qed (simp_all add: authorize_existing_stream_def same_outside_def rows_from_refl)

lemma existing_ok:
  assumes "authorize_existing_stream cfg s sender payload peer v = (s', Inr stream)"
  shows "authorize_row cfg s sender payload peer stream = Inr () \<and> stream \<in> set (sg_rows (sn_reg s)) \<and> v = JStr (st_stream_id stream) \<and> st_state stream = StreamOpen"
proof -
  obtain sid g where sid: "v = JStr sid" and ra: "require_active (sn_reg s) (sn_now s) (repo_get (sn_reg s) sid) = (g, Inr stream)"
    and row: "authorize_row cfg s sender payload peer stream = Inr ()"
    using assms by (auto simp: authorize_existing_stream_def bind_result_Inr_iff split: json.splits prod.splits sum.splits)
  have get: "repo_get (sn_reg s) sid = Some stream" and "st_state stream = StreamOpen"
    using ra by (auto simp: require_active_def split: option.splits if_splits sum.splits bool.splits)
  with find_Some_mem [OF get [unfolded repo_get_def]] sid row show ?thesis by simp
qed

definition sent_properly :: "'h stream_node \<Rightarrow> string \<Rightarrow> (string \<times> json) list \<Rightarrow> string \<times> (string \<times> json) list \<Rightarrow> bool" where
  "sent_properly s sid payload push =
     (case push of (subscriber, message) \<Rightarrow>
        map_of message ''recipient_peer'' = Some (JStr subscriber) \<and> map_of message ''packet'' = Some (JObj payload) \<and>
        (\<exists>r \<in> set (sg_rows (sn_reg s)). st_stream_id r = sid \<and> st_state r = StreamOpen \<and>
           (subscriber \<noteq> st_owner r \<longrightarrow> entitled (sn_trust s) (now_ms s) subscriber r)))"

lemma sent_properly_earlier:
  assumes "same_outside s s'" and "sent_properly s' sid payload push"
  shows "sent_properly s sid payload push"
proof -
  obtain sub m where push: "push = (sub, m)" by (cases push)
  obtain r' where r': "r' \<in> set (sg_rows (sn_reg s'))" "st_stream_id r' = sid" "st_state r' = StreamOpen"
      "sub \<noteq> st_owner r' \<longrightarrow> entitled (sn_trust s) (now_ms s) sub r'"
    and m: "map_of m ''recipient_peer'' = Some (JStr sub)" "map_of m ''packet'' = Some (JObj payload)"
    using assms unfolding push sent_properly_def same_outside_def now_ms_def by auto
  obtain r where r: "r \<in> set (sg_rows (sn_reg s))" "st_stream_id r = st_stream_id r'" "st_owner r = st_owner r'" "st_contract r = st_contract r'"
      "st_state r' = StreamOpen \<longrightarrow> st_state r = StreamOpen"
    using assms(1) r'(1) unfolding same_outside_def rows_from_def by blast
  have "sub \<noteq> st_owner r \<longrightarrow> entitled (sn_trust s) (now_ms s) sub r" using r'(4) r(3) entitled_same_contract [OF r(4), of "sn_trust s" "now_ms s" sub] by simp
  with r r' m show ?thesis unfolding push sent_properly_def by auto
qed

lemma subscriber_frame: "same_outside s (fst (stream_subscriber_is_authorized cfg s stream sub ref))"
proof (cases "harness_peer (sn_trust s) (now_ms s) sub")
  case (Inl e)
  then show ?thesis
    by (simp add: stream_subscriber_is_authorized_def same_outside_def rows_from_refl unsubscribe_def Let_def split: option.split)
next
  case (Inr peer)
  let ?p = "[(''stream_id'', JStr (st_stream_id stream)), (''capability'', get_or_null (st_contract stream) ''capability''), (''grant'', JObj ref)]"
  obtain s1 x where x: "authorize_existing_stream cfg s sub ?p peer (JStr (st_stream_id stream)) = (s1, x)" by fastforce
  have f: "same_outside s s1" using existing_frame [of s cfg sub ?p peer "JStr (st_stream_id stream)"] x by simp
  have u: "same_outside s1 (s1\<lparr>sn_reg := unsubscribe (sn_reg s1) sub (st_stream_id stream)\<rparr>)"
    by (simp add: same_outside_def rows_from_refl unsubscribe_def Let_def split: option.split)
  show ?thesis using Inr x f same_outside_trans [OF f u] by (cases x) (simp_all add: stream_subscriber_is_authorized_def)
qed

lemma subscriber_entitled:
  assumes "stream_subscriber_is_authorized cfg s stream sub ref = (s', Inr True)"
  shows "\<exists>r \<in> set (sg_rows (sn_reg s)). st_stream_id r = st_stream_id stream \<and> st_state r = StreamOpen \<and>
    (sub \<noteq> st_owner r \<longrightarrow> entitled (sn_trust s) (now_ms s) sub r)"
proof -
  let ?p = "[(''stream_id'', JStr (st_stream_id stream)), (''capability'', get_or_null (st_contract stream) ''capability''), (''grant'', JObj ref)]"
  obtain peer row where peer: "harness_peer (sn_trust s) (now_ms s) sub = Inr peer"
    and row: "authorize_existing_stream cfg s sub ?p peer (JStr (st_stream_id stream)) = (s', Inr row)"
    using assms by (auto simp: stream_subscriber_is_authorized_def Let_def split: sum.splits prod.splits if_splits)
  from existing_ok [OF row] authorize_row_entitled [OF _ _ peer] show ?thesis by (metis json.inject(4))
qed

lemma push_message_fields:
  "push_message cfg sender payload stream sub ex = Inr m \<Longrightarrow>
   map_of m ''recipient_peer'' = Some (JStr sub) \<and> map_of m ''packet'' = Some (JObj payload)"
  by (auto simp: push_message_def sign_def split: option.splits)

lemma forward_spec:
  "\<exists>new. sn_pushed (fst (forward_to_each cfg s sender payload ex stream subs)) = sn_pushed s @ new \<and>
     list_all (sent_properly s (st_stream_id stream) payload) new"
proof (induction subs arbitrary: s)
  case Nil
  show ?case by simp
next
  case (Cons a subs)
  obtain sub ref where a: "a = (sub, ref)" by (cases a)
  obtain s1 x where x: "stream_subscriber_is_authorized cfg s stream sub ref = (s1, x)" by fastforce
  have f: "same_outside s s1" using subscriber_frame [of s cfg stream sub ref] x by simp
  have pushed: "sn_pushed s1 = sn_pushed s" using f by (simp add: same_outside_def)
  consider e where "x = Inl e" | "x = Inr False" | "x = Inr True" by (cases x) auto
  then show ?case
  proof cases
    case 1
    then show ?thesis using a x pushed by simp
  next
    case 2
    obtain new where "sn_pushed (fst (forward_to_each cfg s1 sender payload ex stream subs)) = sn_pushed s1 @ new"
      "list_all (sent_properly s1 (st_stream_id stream) payload) new" using Cons.IH by blast
    with 2 a x pushed sent_properly_earlier [OF f] show ?thesis by (auto simp: list_all_iff)
  next
    case 3
    show ?thesis
    proof (cases "push_message cfg sender payload stream sub ex")
      case (Inl e)
      with 3 a x pushed show ?thesis by simp
    next
      case (Inr m)
      let ?s2 = "s1\<lparr>sn_pushed := sn_pushed s1 @ [(sub, m)]\<rparr>"
      obtain new where n: "sn_pushed (fst (forward_to_each cfg ?s2 sender payload ex stream subs)) = sn_pushed ?s2 @ new"
        "list_all (sent_properly ?s2 (st_stream_id stream) payload) new" using Cons.IH by blast
      have "sent_properly s (st_stream_id stream) payload (sub, m)"
        using subscriber_entitled x 3 push_message_fields [OF Inr] by (simp add: sent_properly_def)
      moreover have "sent_properly s (st_stream_id stream) payload q" if "sent_properly ?s2 (st_stream_id stream) payload q" for q
      proof -
        have "sent_properly s1 (st_stream_id stream) payload q" using that by (simp add: sent_properly_def now_ms_def)
        then show ?thesis by (rule sent_properly_earlier [OF f])
      qed
      ultimately show ?thesis using 3 a x Inr n pushed
        by (intro exI [of _ "(sub, m) # new"]) (auto simp: list_all_iff)
    qed
  qed
qed


end
