(* ===== verification/Channels.thy ===== *)
theory Channels
  imports Json_Text "HOL-Library.AList"
begin

text \<open>
  Live push channels, \<^verbatim>\<open>src/fasp_harness/channels.py\<close>: the registry of connections with its bounds on
  connections, on sends under way and on the bytes they hold. A connection is a number. A send that was
  reserved and handed to the event loop is under way until its \<open>finally\<close> block releases it; registering,
  unregistering, pushing and releasing happen on different threads in any order.
\<close>

record channels =
  ch_max_connections :: nat
  ch_max_per_peer :: nat
  ch_max_pending :: nat
  ch_max_pending_bytes :: nat
  ch_loop_open :: bool
  ch_connections :: "(string \<times> nat list) list"
  ch_pending :: "(nat \<times> nat) list"
  ch_pending_bytes :: int
  ch_dropped :: nat

definition bound_ok :: "json \<Rightarrow> bool" where
  "bound_ok v = (case v of JInt i \<Rightarrow> 1 \<le> i | _ \<Rightarrow> False)"

definition bound_of :: "json \<Rightarrow> nat" where
  "bound_of v = (case v of JInt i \<Rightarrow> nat i | _ \<Rightarrow> 0)"

definition new_channels :: "json \<Rightarrow> json \<Rightarrow> json \<Rightarrow> json \<Rightarrow> pyfloat \<Rightarrow> channels result" where
  "new_channels max_connections max_per_peer max_pending max_pending_bytes send_timeout_s =
     (if \<not> list_all bound_ok [max_connections, max_per_peer, max_pending, max_pending_bytes] \<or>
         \<not> (fl_less (Fin 0) send_timeout_s \<and> fl_leq send_timeout_s (Fin 60))
      then Inl ValueError
      else Inr \<lparr>ch_max_connections = bound_of max_connections, ch_max_per_peer = bound_of max_per_peer, ch_max_pending = bound_of max_pending,
               ch_max_pending_bytes = bound_of max_pending_bytes, ch_loop_open = False, ch_connections = [], ch_pending = [],
               ch_pending_bytes = 0, ch_dropped = 0\<rparr>)"

definition bind_loop :: "channels \<Rightarrow> channels" where
  "bind_loop s = s\<lparr>ch_loop_open := True\<rparr>"

definition live :: "channels \<Rightarrow> string \<Rightarrow> nat list" where
  "live s peer_id = (case map_of (ch_connections s) peer_id of None \<Rightarrow> [] | Some cs \<Rightarrow> cs)"

definition register :: "channels \<Rightarrow> string \<Rightarrow> nat \<Rightarrow> channels \<times> bool" where
  "register s peer_id connection =
     (if connection \<in> set (live s peer_id) then (s, True)
      else if map_of (ch_pending s) connection \<noteq> None then (s, False)
      else if length (ch_pending s) \<ge> ch_max_connections s \<or> length (live s peer_id) \<ge> ch_max_per_peer s then (s, False)
      else (s\<lparr>ch_connections := AList.update peer_id (live s peer_id @ [connection]) (ch_connections s),
              ch_pending := AList.update connection 0 (ch_pending s)\<rparr>, True))"

definition unregister :: "channels \<Rightarrow> string \<Rightarrow> nat \<Rightarrow> channels" where
  "unregister s peer_id connection =
     (case map_of (ch_connections s) peer_id of
        None \<Rightarrow> s
      | Some cs \<Rightarrow>
          let cs' = filter (\<lambda>c. c \<noteq> connection) cs in
          s\<lparr>ch_connections := (if cs' = [] then AList.delete peer_id (ch_connections s) else AList.update peer_id cs' (ch_connections s)),
            ch_pending := (case map_of (ch_pending s) connection of
                             Some (Suc n) \<Rightarrow> ch_pending s
                           | _ \<Rightarrow> AList.delete connection (ch_pending s))\<rparr>)"

definition is_connected :: "channels \<Rightarrow> string \<Rightarrow> bool" where
  "is_connected s peer_id = (live s peer_id \<noteq> [])"

definition disconnect :: "channels \<Rightarrow> string \<Rightarrow> channels" where
  "disconnect s peer_id = fold (\<lambda>c s. unregister s peer_id c) (live s peer_id) s"

text \<open>The part of \<^verbatim>\<open>push\<close> under the lock: room is reserved for every connection that is not full.\<close>

definition reserve_one :: "nat \<Rightarrow> nat \<Rightarrow> channels \<times> nat list \<Rightarrow> channels \<times> nat list" where
  "reserve_one size_bytes connection acc =
     (case acc of (s, targets) \<Rightarrow>
        let n = (case map_of (ch_pending s) connection of Some n \<Rightarrow> n | None \<Rightarrow> 0) in
        if n \<ge> ch_max_pending s \<or> ch_pending_bytes s + int size_bytes > int (ch_max_pending_bytes s)
        then (s\<lparr>ch_dropped := ch_dropped s + 1\<rparr>, targets)
        else (s\<lparr>ch_pending := AList.update connection (n + 1) (ch_pending s), ch_pending_bytes := ch_pending_bytes s + int size_bytes\<rparr>,
              targets @ [connection]))"

definition reserve :: "channels \<Rightarrow> string \<Rightarrow> nat \<Rightarrow> channels \<times> nat list" where
  "reserve s peer_id size_bytes = (if \<not> ch_loop_open s then (s, []) else fold (reserve_one size_bytes) (live s peer_id) (s, []))"

definition release :: "channels \<Rightarrow> string \<Rightarrow> nat \<Rightarrow> nat \<Rightarrow> channels" where
  "release s peer_id connection size_bytes =
     (let n = (case map_of (ch_pending s) connection of Some n \<Rightarrow> n | None \<Rightarrow> 0) - 1;
          s' = s\<lparr>ch_pending := AList.update connection n (ch_pending s), ch_pending_bytes := ch_pending_bytes s - int size_bytes\<rparr>
      in if n = 0 \<and> connection \<notin> set (live s peer_id) then s'\<lparr>ch_pending := AList.delete connection (ch_pending s')\<rparr> else s')"

text \<open>
  The whole of \<^verbatim>\<open>push\<close>: \<open>authorized\<close> is what the check of the peer says, \<open>wire\<close> the encoded message if it can be
  encoded, and \<open>scheduled\<close> whether the event loop takes a coroutine. The sends that were handed over are
  returned as well.
\<close>

definition push ::
    "channels \<Rightarrow> string \<Rightarrow> bool \<Rightarrow> bytes option \<Rightarrow> (nat \<Rightarrow> bool) \<Rightarrow> channels \<times> (string \<times> nat \<times> nat) list \<times> bool" where
  "push s peer_id authorized wire scheduled =
     (if \<not> is_connected s peer_id then (s, [], False)
      else if \<not> authorized then (disconnect s peer_id, [], False)
      else case wire of
             None \<Rightarrow> (s, [], False)
           | Some w \<Rightarrow>
               (case reserve s peer_id (length w) of
                  (s', []) \<Rightarrow> (s', [], False)
                | (s', targets) \<Rightarrow>
                    (fold (\<lambda>c s. release (unregister s peer_id c) peer_id c (length w)) (filter (\<lambda>c. \<not> scheduled c) targets) s',
                     map (\<lambda>c. (peer_id, c, length w)) (filter scheduled targets), True)))"

section \<open>The registry and the sends under way\<close>

type_synonym send = "string \<times> nat \<times> nat"

record channel_sys =
  cs_reg :: channels
  cs_sends :: "send list"

text \<open>
  A session registers under one peer and is never bound to another (\<^verbatim>\<open>registered_peer\<close> of the channel
  endpoint): \<open>owner\<close> is that peer. A send ends in any order; a failing one unregisters its connection first.
\<close>

inductive channel_step :: "(nat \<Rightarrow> string) \<Rightarrow> channel_sys \<Rightarrow> channel_sys \<Rightarrow> bool" for owner where
  "channel_step owner s (s\<lparr>cs_reg := bind_loop (cs_reg s)\<rparr>)"
| "channel_step owner s (s\<lparr>cs_reg := fst (register (cs_reg s) (owner c) c)\<rparr>)"
| "channel_step owner s (s\<lparr>cs_reg := unregister (cs_reg s) (owner c) c\<rparr>)"
| "reserve (cs_reg s) p n = (g, targets) \<Longrightarrow>
    channel_step owner s (s\<lparr>cs_reg := g, cs_sends := cs_sends s @ map (\<lambda>c. (p, c, n)) targets\<rparr>)"
| "cs_sends s = before @ (p, c, n) # after \<Longrightarrow>
    channel_step owner s (s\<lparr>cs_reg := release (cs_reg s) p c n, cs_sends := before @ after\<rparr>)"

definition sends_of :: "send list \<Rightarrow> nat \<Rightarrow> nat" where
  "sends_of sends c = count_where (\<lambda>(p, c', n). c' = c) sends"

definition bytes_of :: "send list \<Rightarrow> nat" where
  "bytes_of sends = sum_list (map (\<lambda>(p, c, n). n) sends)"

definition channel_inv :: "(nat \<Rightarrow> string) \<Rightarrow> channels \<Rightarrow> send list \<Rightarrow> bool" where
  "channel_inv owner s sends \<longleftrightarrow>
     (\<forall>p. distinct (live s p) \<and> length (live s p) \<le> ch_max_per_peer s \<and> (\<forall>c \<in> set (live s p). owner c = p)) \<and>
     distinct (map fst (ch_pending s)) \<and> length (ch_pending s) \<le> ch_max_connections s \<and>
     (\<forall>c. map_of (ch_pending s) c \<noteq> None \<longleftrightarrow> c \<in> set (live s (owner c)) \<or> 0 < sends_of sends c) \<and>
     (\<forall>c n. map_of (ch_pending s) c = Some n \<longrightarrow> n = sends_of sends c \<and> n \<le> ch_max_pending s) \<and>
     (\<forall>(p, c, n) \<in> set sends. p = owner c) \<and>
     ch_pending_bytes s = int (bytes_of sends) \<and> bytes_of sends \<le> ch_max_pending_bytes s"

section \<open>The bounds hold under every interleaving\<close>

lemma sends_of_simps [simp]:
  "sends_of [] c = 0" "sends_of ((p, c', n) # sends) c = (if c' = c then Suc (sends_of sends c) else sends_of sends c)"
  "sends_of (xs @ ys) c = sends_of xs c + sends_of ys c"
  by (simp_all add: sends_of_def)

lemma bytes_of_simps [simp]:
  "bytes_of [] = 0" "bytes_of ((p, c, n) # sends) = n + bytes_of sends" "bytes_of (xs @ ys) = bytes_of xs + bytes_of ys"
  by (simp_all add: bytes_of_def)

lemma live_simps [simp]:
  "live (s\<lparr>ch_pending := x\<rparr>) p = live s p" "live (s\<lparr>ch_pending_bytes := b\<rparr>) p = live s p" "live (s\<lparr>ch_dropped := d\<rparr>) p = live s p"
  "live (s\<lparr>ch_loop_open := l\<rparr>) p = live s p"
  "live (s\<lparr>ch_connections := AList.update q cs (ch_connections s)\<rparr>) p = (if p = q then cs else live s p)"
  "live (s\<lparr>ch_connections := AList.delete q (ch_connections s)\<rparr>) p = (if p = q then [] else live s p)"
  by (simp_all add: live_def update_conv' delete_conv')

lemma pending_update:
  assumes "distinct (map fst (ch_pending s))"
  shows "distinct (map fst (AList.update c n (ch_pending s)))"
    "length (AList.update c n (ch_pending s)) = (if map_of (ch_pending s) c = None then Suc (length (ch_pending s)) else length (ch_pending s))"
proof -
  show "distinct (map fst (AList.update c n (ch_pending s)))" using assms by (rule distinct_update)
  have "length (AList.update c n al) = (if map_of al c = None then Suc (length al) else length al)" for al :: "(nat \<times> nat) list"
    by (induction al) auto
  then show "length (AList.update c n (ch_pending s)) = (if map_of (ch_pending s) c = None then Suc (length (ch_pending s)) else length (ch_pending s))" .
qed

lemma channel_invD:
  assumes "channel_inv owner s sends"
  shows "distinct (live s p)" "length (live s p) \<le> ch_max_per_peer s" "c \<in> set (live s p) \<Longrightarrow> owner c = p"
    "distinct (map fst (ch_pending s))" "length (ch_pending s) \<le> ch_max_connections s"
    "map_of (ch_pending s) c \<noteq> None \<longleftrightarrow> c \<in> set (live s (owner c)) \<or> 0 < sends_of sends c"
    "map_of (ch_pending s) c = Some n \<Longrightarrow> n = sends_of sends c \<and> n \<le> ch_max_pending s"
    "(p, c, k) \<in> set sends \<Longrightarrow> p = owner c" "ch_pending_bytes s = int (bytes_of sends)" "bytes_of sends \<le> ch_max_pending_bytes s"
proof -
  have a: "\<forall>p. distinct (live s p) \<and> length (live s p) \<le> ch_max_per_peer s \<and> (\<forall>c \<in> set (live s p). owner c = p)"
    and b: "distinct (map fst (ch_pending s))" "length (ch_pending s) \<le> ch_max_connections s"
    and c: "\<forall>c. map_of (ch_pending s) c \<noteq> None \<longleftrightarrow> c \<in> set (live s (owner c)) \<or> 0 < sends_of sends c"
    and d: "\<forall>c n. map_of (ch_pending s) c = Some n \<longrightarrow> n = sends_of sends c \<and> n \<le> ch_max_pending s"
    and e: "\<forall>(p, c, n) \<in> set sends. p = owner c" and f: "ch_pending_bytes s = int (bytes_of sends)" "bytes_of sends \<le> ch_max_pending_bytes s"
    using assms unfolding channel_inv_def by - (elim conjE, assumption)+
  show "distinct (live s p)" "length (live s p) \<le> ch_max_per_peer s" "c \<in> set (live s p) \<Longrightarrow> owner c = p" using a by blast+
  show "distinct (map fst (ch_pending s))" "length (ch_pending s) \<le> ch_max_connections s" by (rule b)+
  show "map_of (ch_pending s) c \<noteq> None \<longleftrightarrow> c \<in> set (live s (owner c)) \<or> 0 < sends_of sends c" using c by (rule spec)
  show "map_of (ch_pending s) c = Some n \<Longrightarrow> n = sends_of sends c \<and> n \<le> ch_max_pending s" using d by blast
  show "(p, c, k) \<in> set sends \<Longrightarrow> p = owner c" using e by blast
  show "ch_pending_bytes s = int (bytes_of sends)" "bytes_of sends \<le> ch_max_pending_bytes s" by (rule f)+
qed

lemma channel_inv_frame [simp]:
  "channel_inv owner (s\<lparr>ch_dropped := d\<rparr>) sends = channel_inv owner s sends"
  "channel_inv owner (s\<lparr>ch_loop_open := l\<rparr>) sends = channel_inv owner s sends"
  by (simp_all add: channel_inv_def)

lemma register_inv:
  assumes "channel_inv owner s sends"
  shows "channel_inv owner (fst (register s (owner c) c)) sends"
proof (cases "c \<in> set (live s (owner c)) \<or> map_of (ch_pending s) c \<noteq> None \<or> length (ch_pending s) \<ge> ch_max_connections s \<or>
    length (live s (owner c)) \<ge> ch_max_per_peer s")
  case True
  then have "fst (register s (owner c) c) = s" by (auto simp: register_def)
  with assms show ?thesis by simp
next
  case False
  note D = channel_invD [OF assms]
  let ?s = "s\<lparr>ch_connections := AList.update (owner c) (live s (owner c) @ [c]) (ch_connections s), ch_pending := AList.update c 0 (ch_pending s)\<rparr>"
  have none: "map_of (ch_pending s) c = None" "sends_of sends c = 0" using False D(6) [of c] by auto
  have live: "live ?s p = (if p = owner c then live s p @ [c] else live s p)" for p by (simp add: live_def update_conv')
  have pend: "map_of (ch_pending ?s) d = (if d = c then Some 0 else map_of (ch_pending s) d)" for d by (simp add: update_conv')
  have "channel_inv owner ?s sends"
    unfolding channel_inv_def pend live
  proof (intro conjI allI impI ballI)
    fix p
    show "distinct (if p = owner c then live s p @ [c] else live s p)" using D(1) False by auto
    show "length (if p = owner c then live s p @ [c] else live s p) \<le> ch_max_per_peer ?s" using D(2) [of p] False by auto
  next
    fix d p assume "d \<in> set (if p = owner c then live s p @ [c] else live s p)"
    then show "owner d = p" using D(3) by (auto split: if_splits)
  next
    show "distinct (map fst (ch_pending ?s))" using pending_update(1) [OF D(4)] by simp
    show "length (ch_pending ?s) \<le> ch_max_connections ?s" using pending_update(2) [OF D(4), of c 0] False by simp
  next
    fix d
    show "((if d = c then Some 0 else map_of (ch_pending s) d) \<noteq> None) \<longleftrightarrow>
       d \<in> set (if owner d = owner c then live s (owner d) @ [c] else live s (owner d)) \<or> 0 < sends_of sends d"
      using D(6) [of d] by auto
  next
    fix d n assume "(if d = c then Some 0 else map_of (ch_pending s) d) = Some n"
    then show "n = sends_of sends d" "n \<le> ch_max_pending ?s" using D(7) [of d n] none by (auto split: if_splits)
  next
    fix x assume "x \<in> set sends"
    then show "case x of (p, d, n) \<Rightarrow> p = owner d" using D(8) by (cases x) auto
  qed (use D(9,10) in simp_all)
  then show ?thesis using False by (simp add: register_def)
qed

lemma unregister_inv:
  assumes "channel_inv owner s sends"
  shows "channel_inv owner (unregister s (owner c) c) sends"
proof (cases "map_of (ch_connections s) (owner c)")
  case None
  with assms show ?thesis by (simp add: unregister_def)
next
  case (Some cs)
  note D = channel_invD [OF assms]
  have cs: "cs = live s (owner c)" using Some by (simp add: live_def)
  let ?s = "unregister s (owner c) c"
  have live: "live ?s p = (if p = owner c then filter (\<lambda>d. d \<noteq> c) (live s p) else live s p)" for p
    unfolding cs unregister_def Some by (simp add: Let_def cs [symmetric])
  have pend: "ch_pending ?s = (if 0 < sends_of sends c then ch_pending s else AList.delete c (ch_pending s))"
    using Some D(6) [of c] D(7) [of c] by (auto simp: unregister_def Let_def split: option.split nat.split)
  have look: "map_of (ch_pending ?s) d = (if d = c \<and> sends_of sends c = 0 then None else map_of (ch_pending s) d)" for d
    unfolding pend by (auto simp: delete_conv')
  have rest: "ch_max_per_peer ?s = ch_max_per_peer s" "ch_max_connections ?s = ch_max_connections s" "ch_max_pending ?s = ch_max_pending s"
      "ch_max_pending_bytes ?s = ch_max_pending_bytes s" "ch_pending_bytes ?s = ch_pending_bytes s"
    using Some by (simp_all add: unregister_def Let_def)
  show ?thesis
    unfolding channel_inv_def look live rest
  proof (intro conjI allI impI ballI)
    fix p
    show "distinct (if p = owner c then filter (\<lambda>d. d \<noteq> c) (live s p) else live s p)" using D(1) by simp
    show "length (if p = owner c then filter (\<lambda>d. d \<noteq> c) (live s p) else live s p) \<le> ch_max_per_peer s"
      using D(2) [of p] by (cases "p = owner c") (auto intro: order_trans [OF length_filter_le])
  next
    fix d p assume "d \<in> set (if p = owner c then filter (\<lambda>d. d \<noteq> c) (live s p) else live s p)"
    then show "owner d = p" using D(3) by (auto split: if_splits)
  next
    show "distinct (map fst (ch_pending ?s))" unfolding pend using D(4) by (simp add: distinct_delete)
    show "length (ch_pending ?s) \<le> ch_max_connections s" unfolding pend using D(5) length_delete_le [of c "ch_pending s"] by auto
  next
    fix d
    show "((if d = c \<and> sends_of sends c = 0 then None else map_of (ch_pending s) d) \<noteq> None) \<longleftrightarrow>
       d \<in> set (if owner d = owner c then filter (\<lambda>d. d \<noteq> c) (live s (owner d)) else live s (owner d)) \<or> 0 < sends_of sends d"
      using D(6) [of d] by auto
  next
    fix d n assume "(if d = c \<and> sends_of sends c = 0 then None else map_of (ch_pending s) d) = Some n"
    then show "n = sends_of sends d" "n \<le> ch_max_pending s" using D(7) [of d n] by (auto split: if_splits)
  next
    fix x assume "x \<in> set sends"
    then show "case x of (p, d, n) \<Rightarrow> p = owner d" using D(8) by (cases x) auto
  qed (use D(9,10) in simp_all)
qed

lemma reserve_one_inv:
  assumes "channel_inv owner s (sends @ map (\<lambda>d. (p, d, n)) targets)" and "c \<in> set (live s p)"
    and "reserve_one n c (s, targets) = (s', targets')"
  shows "channel_inv owner s' (sends @ map (\<lambda>d. (p, d, n)) targets') \<and> live s' = live s"
proof -
  let ?sends = "sends @ map (\<lambda>d. (p, d, n)) targets"
  note D = channel_invD [OF assms(1)]
  have own: "owner c = p" using D(3) assms(2) .
  obtain k where k: "map_of (ch_pending s) c = Some k" using D(6) [of c] assms(2) own by auto
  show ?thesis
  proof (cases "k \<ge> ch_max_pending s \<or> ch_pending_bytes s + int n > int (ch_max_pending_bytes s)")
    case True
    then have "s' = s\<lparr>ch_dropped := ch_dropped s + 1\<rparr>" "targets' = targets" using assms(3) k by (auto simp: reserve_one_def)
    with assms(1) show ?thesis by (simp add: fun_eq_iff)
  next
    case False
    then have s': "s' = s\<lparr>ch_pending := AList.update c (k + 1) (ch_pending s), ch_pending_bytes := ch_pending_bytes s + int n\<rparr>"
      and t': "targets' = targets @ [c]" using assms(3) k by (auto simp: reserve_one_def)
    have sum: "sends_of (sends @ map (\<lambda>d. (p, d, n)) targets') d = (if d = c then Suc (sends_of ?sends d) else sends_of ?sends d)" for d
      by (simp add: t')
    have pend: "map_of (ch_pending s') d = (if d = c then Some (k + 1) else map_of (ch_pending s) d)" for d by (simp add: s' update_conv')
    have live: "live s' = live s" by (simp add: s' fun_eq_iff)
    have "channel_inv owner s' (sends @ map (\<lambda>d. (p, d, n)) targets')"
      unfolding channel_inv_def pend sum live
    proof (intro conjI allI impI ballI)
      fix q
      show "distinct (live s q)" "length (live s q) \<le> ch_max_per_peer s'" using D(1,2) by (simp_all add: s')
    next
      fix d q assume "d \<in> set (live s q)"
      then show "owner d = q" using D(3) by blast
    next
      show "distinct (map fst (ch_pending s'))" using pending_update(1) [OF D(4)] by (simp add: s')
      show "length (ch_pending s') \<le> ch_max_connections s'" using pending_update(2) [OF D(4), of c "k + 1"] k D(5) by (simp add: s')
    next
      fix d
      show "((if d = c then Some (k + 1) else map_of (ch_pending s) d) \<noteq> None) \<longleftrightarrow>
         d \<in> set (live s (owner d)) \<or> 0 < (if d = c then Suc (sends_of ?sends d) else sends_of ?sends d)"
        using D(6) [of d] by simp
    next
      fix d m assume "(if d = c then Some (k + 1) else map_of (ch_pending s) d) = Some m"
      then show "m = (if d = c then Suc (sends_of ?sends d) else sends_of ?sends d)" "m \<le> ch_max_pending s'"
        using D(7) [of d m] D(7) [OF k] False by (auto simp: s' split: if_splits)
    next
      fix x assume "x \<in> set (sends @ map (\<lambda>d. (p, d, n)) targets')"
      then have "x \<in> set ?sends \<or> x = (p, c, n)" by (auto simp: t')
      moreover obtain q d m where x: "x = (q, d, m)" by (cases x)
      ultimately show "case x of (q, d, m) \<Rightarrow> q = owner d" using D(8) [of q d m] own unfolding x by blast
    qed (use D(9,10) False in \<open>simp_all add: s' t'\<close>)
    with live show ?thesis by simp
  qed
qed

lemma reserve_fold_inv:
  assumes "channel_inv owner s (sends @ map (\<lambda>d. (p, d, n)) targets)" and "set cs \<subseteq> set (live s p)"
  shows "channel_inv owner (fst (fold (reserve_one n) cs (s, targets))) (sends @ map (\<lambda>d. (p, d, n)) (snd (fold (reserve_one n) cs (s, targets))))"
  using assms
proof (induction cs arbitrary: s targets)
  case Nil
  then show ?case by simp
next
  case (Cons c cs)
  obtain s1 t1 where one: "reserve_one n c (s, targets) = (s1, t1)" by fastforce
  have "channel_inv owner s1 (sends @ map (\<lambda>d. (p, d, n)) t1)" "live s1 = live s"
    using reserve_one_inv [OF Cons.prems(1) _ one] Cons.prems(2) by simp_all
  then show ?case using Cons.IH [of s1 t1] Cons.prems(2) one by simp
qed

lemma reserve_inv:
  assumes "channel_inv owner s sends" and "reserve s p n = (s', targets)"
  shows "channel_inv owner s' (sends @ map (\<lambda>d. (p, d, n)) targets)"
  using reserve_fold_inv [of owner s sends p n "[]" "live s p"] assms by (cases "ch_loop_open s") (auto simp: reserve_def)

lemma release_inv:
  assumes "channel_inv owner s (before @ (p, c, n) # after)"
  shows "channel_inv owner (release s p c n) (before @ after)"
proof -
  note D = channel_invD [OF assms]
  have own: "p = owner c" using D(8) [of p c n] by simp
  obtain k where k: "map_of (ch_pending s) c = Some k" using D(6) [of c] by auto
  have kc: "k = Suc (sends_of (before @ after) c)" "k \<le> ch_max_pending s" using D(7) [OF k] by simp_all
  let ?m = "sends_of (before @ after) c" and ?s = "release s p c n"
  have pend: "ch_pending ?s = (if ?m = 0 \<and> c \<notin> set (live s p) then AList.delete c (AList.update c ?m (ch_pending s)) else AList.update c ?m (ch_pending s))"
    using k kc(1) by (simp add: release_def Let_def)
  have rest: "ch_max_per_peer ?s = ch_max_per_peer s" "ch_max_connections ?s = ch_max_connections s" "ch_max_pending ?s = ch_max_pending s"
      "ch_max_pending_bytes ?s = ch_max_pending_bytes s" "ch_pending_bytes ?s = ch_pending_bytes s - int n" "live ?s = live s"
    by (simp_all add: release_def Let_def fun_eq_iff)
  have look: "map_of (ch_pending ?s) d = (if d = c then (if ?m = 0 \<and> c \<notin> set (live s p) then None else Some ?m) else map_of (ch_pending s) d)" for d
    unfolding pend by (simp add: delete_conv' update_conv')
  have up: "distinct (map fst (AList.update c ?m (ch_pending s)))" "length (AList.update c ?m (ch_pending s)) = length (ch_pending s)"
    using pending_update [OF D(4), of c ?m] k by simp_all
  have other: "sends_of (before @ (p, c, n) # after) d = sends_of (before @ after) d" if "d \<noteq> c" for d using that by simp
  show ?thesis
    unfolding channel_inv_def look rest
  proof (intro conjI allI impI ballI)
    fix q
    show "distinct (live s q)" "length (live s q) \<le> ch_max_per_peer s" by (rule D(1), rule D(2))
  next
    fix d q assume "d \<in> set (live s q)"
    then show "owner d = q" by (rule D(3))
  next
    show "distinct (map fst (ch_pending ?s))" unfolding pend by (split if_split) (use up(1) distinct_delete [OF up(1), of c] in blast)
    show "length (ch_pending ?s) \<le> ch_max_connections s"
      unfolding pend using up(2) D(5) length_delete_le [of c "AList.update c ?m (ch_pending s)"] by auto
  next
    fix d
    show "((if d = c then (if ?m = 0 \<and> c \<notin> set (live s p) then None else Some ?m) else map_of (ch_pending s) d) \<noteq> None) \<longleftrightarrow>
       d \<in> set (live s (owner d)) \<or> 0 < sends_of (before @ after) d"
      using D(6) [of d] other [of d] own by (cases "d = c") auto
  next
    fix d m assume a: "(if d = c then (if ?m = 0 \<and> c \<notin> set (live s p) then None else Some ?m) else map_of (ch_pending s) d) = Some m"
    show "m = sends_of (before @ after) d" "m \<le> ch_max_pending s"
      using a D(7) [of d m] other [of d] kc by (auto split: if_splits)
  next
    fix x assume "x \<in> set (before @ after)"
    then have "x \<in> set (before @ (p, c, n) # after)" by auto
    moreover obtain q d m where x: "x = (q, d, m)" by (cases x)
    ultimately show "case x of (q, d, m) \<Rightarrow> q = owner d" using D(8) [of q d m] unfolding x by blast
  qed (use D(9,10) in simp_all)
qed

definition channel_start :: "channel_sys \<Rightarrow> bool" where
  "channel_start s \<longleftrightarrow> ch_connections (cs_reg s) = [] \<and> ch_pending (cs_reg s) = [] \<and> ch_pending_bytes (cs_reg s) = 0 \<and> cs_sends s = []"

lemma channel_step_inv:
  assumes "channel_step owner s s'" and "channel_inv owner (cs_reg s) (cs_sends s)"
  shows "channel_inv owner (cs_reg s') (cs_sends s')"
  using assms
proof (induction rule: channel_step.cases)
  case (1 s)
  then show ?case by (simp add: bind_loop_def)
next
  case (2 s c)
  then show ?case by (simp add: register_inv)
next
  case (3 s c)
  then show ?case by (simp add: unregister_inv)
next
  case (4 s p n g targets)
  then show ?case by (simp add: reserve_inv)
next
  case (5 s before p c n after)
  then show ?case by (simp add: release_inv)
qed

interpretation push_channels: invariant_system channel_start "channel_step owner" "\<lambda>s. channel_inv owner (cs_reg s) (cs_sends s)"
  for owner
proof unfold_locales
  show "channel_start s \<Longrightarrow> channel_inv owner (cs_reg s) (cs_sends s)" for s
    by (simp add: channel_start_def channel_inv_def live_def)
  show "channel_inv owner (cs_reg s) (cs_sends s) \<Longrightarrow> channel_step owner s s' \<Longrightarrow> channel_inv owner (cs_reg s') (cs_sends s')" for s s'
    using channel_step_inv by blast
qed

text \<open>
  C14. The budget of live pushes is exact and never exceeded, however registrations, disconnections, pushes and finishing sends of all threads
  interleave: the bytes accounted for are those of the sends under way, within the limit, no connection has more sends under way than
  allowed, no peer more connections and the registry no more entries, and when nothing is under way nothing is accounted for and every entry
  is a registered connection.
\<close>

theorem push_budget_exact:
  assumes "reachable channel_start (channel_step owner) s"
  shows "ch_pending_bytes (cs_reg s) = int (bytes_of (cs_sends s)) \<and> bytes_of (cs_sends s) \<le> ch_max_pending_bytes (cs_reg s) \<and>
     sends_of (cs_sends s) c \<le> ch_max_pending (cs_reg s) \<and> length (live (cs_reg s) p) \<le> ch_max_per_peer (cs_reg s) \<and>
     length (ch_pending (cs_reg s)) \<le> ch_max_connections (cs_reg s) \<and>
     (cs_sends s = [] \<longrightarrow> ch_pending_bytes (cs_reg s) = 0 \<and> (map_of (ch_pending (cs_reg s)) c \<noteq> None \<longleftrightarrow> c \<in> set (live (cs_reg s) (owner c))))"
proof -
  have inv: "channel_inv owner (cs_reg s) (cs_sends s)" using assms by (rule push_channels.reachable_inv)
  note D = channel_invD [OF inv]
  have "sends_of (cs_sends s) c \<le> ch_max_pending (cs_reg s)"
  proof (cases "sends_of (cs_sends s) c = 0")
    case False
    then obtain n where "map_of (ch_pending (cs_reg s)) c = Some n" using D(6) [of c] by auto
    from D(7) [OF this] show ?thesis by simp
  qed simp
  moreover have "cs_sends s = [] \<Longrightarrow> map_of (ch_pending (cs_reg s)) c \<noteq> None \<longleftrightarrow> c \<in> set (live (cs_reg s) (owner c))" using D(6) [of c] by simp
  ultimately show ?thesis using D(2,5,9,10) by simp
qed

text \<open>The whole of a push is a sequence of these steps.\<close>

lemma channel_sys_commute: "s\<lparr>cs_sends := a, cs_reg := b\<rparr> = s\<lparr>cs_reg := b, cs_sends := a\<rparr>"
  by simp

lemma failing_sends_steps:
  fixes s :: channel_sys and g :: channels
  assumes "\<forall>c \<in> set targets. owner c = p"
  shows "(channel_step owner)\<^sup>*\<^sup>* (s\<lparr>cs_reg := g, cs_sends := sends @ map (\<lambda>c. (p, c, n)) targets\<rparr>)
     (s\<lparr>cs_reg := fold (\<lambda>c g. release (unregister g p c) p c n) (filter (\<lambda>c. \<not> scheduled c) targets) g,
        cs_sends := sends @ map (\<lambda>c. (p, c, n)) (filter scheduled targets)\<rparr>)"
  using assms
proof (induction targets arbitrary: g sends)
  case Nil
  show ?case by simp
next
  case (Cons c targets)
  show ?case
  proof (cases "scheduled c")
    case True
    then show ?thesis using Cons.IH [of "sends @ [(p, c, n)]" g] Cons.prems by simp
  next
    case False
    let ?s = "s\<lparr>cs_reg := g, cs_sends := sends @ (p, c, n) # map (\<lambda>c. (p, c, n)) targets\<rparr>"
    let ?s1 = "s\<lparr>cs_reg := unregister g p c, cs_sends := sends @ (p, c, n) # map (\<lambda>c. (p, c, n)) targets\<rparr>"
    let ?s2 = "s\<lparr>cs_reg := release (unregister g p c) p c n, cs_sends := sends @ map (\<lambda>c. (p, c, n)) targets\<rparr>"
    have one: "channel_step owner ?s ?s1" using channel_step.intros(3) [where owner = owner and s = ?s and c = c] Cons.prems by (simp add: channel_sys_commute)
    have two: "channel_step owner ?s1 ?s2" using channel_step.intros(5) [where s = ?s1 and before = sends and p = p and c = c and n = n and after = "map (\<lambda>c. (p, c, n)) targets" and owner = owner] by simp
    have rest: "(channel_step owner)\<^sup>*\<^sup>* ?s2 (s\<lparr>cs_reg := fold (\<lambda>c g. release (unregister g p c) p c n) (filter (\<lambda>c. \<not> scheduled c) targets) (release (unregister g p c) p c n),
        cs_sends := sends @ map (\<lambda>c. (p, c, n)) (filter scheduled targets)\<rparr>)"
      using Cons.IH Cons.prems by simp
    have "(channel_step owner)\<^sup>*\<^sup>* ?s (s\<lparr>cs_reg := fold (\<lambda>c g. release (unregister g p c) p c n) (filter (\<lambda>c. \<not> scheduled c) targets) (release (unregister g p c) p c n),
        cs_sends := sends @ map (\<lambda>c. (p, c, n)) (filter scheduled targets)\<rparr>)"
      by (rule converse_rtranclp_into_rtranclp [of "channel_step owner", OF one]) (rule converse_rtranclp_into_rtranclp [of "channel_step owner", OF two rest])
    then show ?thesis using False by simp
  qed
qed

lemma unregister_all_steps:
  fixes s :: channel_sys
  assumes "\<forall>c \<in> set cs. owner c = p"
  shows "(channel_step owner)\<^sup>*\<^sup>* s (s\<lparr>cs_reg := fold (\<lambda>c g. unregister g p c) cs (cs_reg s)\<rparr>)"
  using assms
proof (induction cs arbitrary: s)
  case Nil
  show ?case by simp
next
  case (Cons c cs)
  have "channel_step owner s (s\<lparr>cs_reg := unregister (cs_reg s) p c\<rparr>)" using channel_step.intros(3) [where owner = owner and s = s and c = c] Cons.prems by simp
  moreover have "(channel_step owner)\<^sup>*\<^sup>* (s\<lparr>cs_reg := unregister (cs_reg s) p c\<rparr>) (s\<lparr>cs_reg := fold (\<lambda>c g. unregister g p c) (c # cs) (cs_reg s)\<rparr>)"
    using Cons.IH [of "s\<lparr>cs_reg := unregister (cs_reg s) p c\<rparr>"] Cons.prems by simp
  ultimately show ?case by (rule converse_rtranclp_into_rtranclp)
qed

lemma reserve_targets: "reserve s p n = (s', targets) \<Longrightarrow> set targets \<subseteq> set (live s p)"
proof -
  have "set (snd (fold (reserve_one n) cs acc)) \<subseteq> set (snd acc) \<union> set cs" for cs acc
  proof (induction cs arbitrary: acc)
    case (Cons c cs)
    have "set (snd (reserve_one n c acc)) \<subseteq> set (snd acc) \<union> {c}" by (cases acc) (auto simp: reserve_one_def Let_def)
    then show ?case using Cons.IH [of "reserve_one n c acc"] by auto
  qed simp
  from this [of "live s p" "(s, [])"] show "reserve s p n = (s', targets) \<Longrightarrow> set targets \<subseteq> set (live s p)"
    by (auto simp: reserve_def split: if_splits)
qed

lemma push_cases:
  assumes "push s p authorized wire scheduled = (g, sends, r)"
  shows "(g = s \<and> sends = []) \<or> (g = disconnect s p \<and> sends = []) \<or>
     (\<exists>w s' targets. reserve s p (length (w :: bytes)) = (s', targets) \<and>
        g = fold (\<lambda>c s. release (unregister s p c) p c (length w)) (filter (\<lambda>c. \<not> scheduled c) targets) s' \<and>
        sends = map (\<lambda>c. (p, c, length w)) (filter scheduled targets))"
proof (cases "is_connected s p \<and> authorized \<and> wire \<noteq> None")
  case False
  then show ?thesis using assms by (auto simp: push_def split: if_splits)
next
  case True
  then obtain w where w: "wire = Some w" by auto
  obtain s' targets where r: "reserve s p (length w) = (s', targets)" by fastforce
  have "g = fold (\<lambda>c s. release (unregister s p c) p c (length w)) (filter (\<lambda>c. \<not> scheduled c) targets) s'"
    "sends = map (\<lambda>c. (p, c, length w)) (filter scheduled targets)"
    using assms True w r by (cases targets; simp add: push_def)+
  with r show ?thesis by blast
qed

lemma push_is_steps:
  fixes s :: channel_sys
  assumes "channel_inv owner (cs_reg s) (cs_sends s)" and "push (cs_reg s) p authorized wire scheduled = (g, sends, r)"
  shows "(channel_step owner)\<^sup>*\<^sup>* s (s\<lparr>cs_reg := g, cs_sends := cs_sends s @ sends\<rparr>)"
proof -
  have own: "owner c = p" if "c \<in> set (live (cs_reg s) p)" for c using channel_invD(3) [OF assms(1)] that .
  consider "g = cs_reg s" "sends = []" | "g = disconnect (cs_reg s) p" "sends = []"
    | w s' targets where "reserve (cs_reg s) p (length (w :: bytes)) = (s', targets)"
        "g = fold (\<lambda>c s. release (unregister s p c) p c (length w)) (filter (\<lambda>c. \<not> scheduled c) targets) s'"
        "sends = map (\<lambda>c. (p, c, length w)) (filter scheduled targets)"
    using push_cases [OF assms(2)] by blast
  then show ?thesis
  proof cases
    case 1
    then show ?thesis by simp
  next
    case 2
    then show ?thesis using unregister_all_steps [of "live (cs_reg s) p" owner p s] own by (simp add: disconnect_def)
  next
    case 3
    have "channel_step owner s (s\<lparr>cs_reg := s', cs_sends := cs_sends s @ map (\<lambda>c. (p, c, length w)) targets\<rparr>)"
      by (rule channel_step.intros(4) [OF 3(1)])
    moreover have "\<forall>c \<in> set targets. owner c = p" using reserve_targets [OF 3(1)] own by blast
    from failing_sends_steps [OF this, where s = s and g = s' and sends = "cs_sends s" and n = "length w" and scheduled = scheduled]
    have "(channel_step owner)\<^sup>*\<^sup>* (s\<lparr>cs_reg := s', cs_sends := cs_sends s @ map (\<lambda>c. (p, c, length w)) targets\<rparr>) (s\<lparr>cs_reg := g, cs_sends := cs_sends s @ sends\<rparr>)"
      unfolding 3(2,3) by simp
    ultimately show ?thesis by (rule converse_rtranclp_into_rtranclp)
  qed
qed

definition demo_channels :: channel_sys where
  "demo_channels = \<lparr>cs_reg = \<lparr>ch_max_connections = 2, ch_max_per_peer = 1, ch_max_pending = 1, ch_max_pending_bytes = 10, ch_loop_open = True,
     ch_connections = [], ch_pending = [], ch_pending_bytes = 0, ch_dropped = 0\<rparr>, cs_sends = []\<rparr>"

definition demo_sending :: channel_sys where
  "demo_sending =
     (let s = demo_channels\<lparr>cs_reg := fst (register (cs_reg demo_channels) ''p'' 7)\<rparr>; r = reserve (cs_reg s) ''p'' 4
      in s\<lparr>cs_reg := fst r, cs_sends := cs_sends s @ map (\<lambda>c. (''p'', c, 4)) (snd r)\<rparr>)"

theorem push_budget_exact_witness:
  "bytes_of (cs_sends demo_sending) \<le> 10 \<and> sends_of (cs_sends demo_sending) 7 \<le> 1 \<and> length (live (cs_reg demo_sending) ''p'') \<le> 1 \<and>
     cs_sends demo_sending = [(''p'', 7, 4)]"
proof -
  let ?step = "channel_step (\<lambda>_. ''p'')"
  let ?s1 = "demo_channels\<lparr>cs_reg := fst (register (cs_reg demo_channels) ''p'' 7)\<rparr>"
  have "reachable channel_start ?step demo_channels" by (rule reachable_init) (simp add: demo_channels_def channel_start_def)
  moreover have "?step demo_channels ?s1" by (rule channel_step.intros(2))
  ultimately have "reachable channel_start ?step ?s1" by (rule reachable_step)
  moreover have "?step ?s1 demo_sending"
    using channel_step.intros(4) [where owner = "\<lambda>_. ''p''" and s = ?s1 and p = "''p''" and n = 4, OF surjective_pairing]
    by (simp add: demo_sending_def Let_def)
  ultimately have "reachable channel_start ?step demo_sending" by (rule reachable_step)
  from push_budget_exact [OF this, of 7 "''p''"]
  show ?thesis
    by (simp add: demo_sending_def demo_channels_def register_def reserve_def reserve_one_def live_def)
qed

end
