(* ===== verification/Pairing.thy ===== *)
theory Pairing
  imports Layers Channels Ingress
begin

text \<open>
  How two systems come to trust each other and what they send afterwards: the long-term identity
  (\<^verbatim>\<open>src/fasp_harness/crypto/identity.py\<close>), the signed ID card, the hello and its confirmation by the operator, and the
  envelopes a system makes (\<^verbatim>\<open>id_card\<close>, \<^verbatim>\<open>verify_id_card\<close>, \<^verbatim>\<open>hello\<close>, \<^verbatim>\<open>confirm_peer\<close>, \<^verbatim>\<open>revoke_peer\<close> and \<^verbatim>\<open>make_envelope\<close>
  of \<^verbatim>\<open>src/fasp_harness/core.py\<close>). SHA-256, Ed25519 and the canonicalizer are parameters; the facts of the
  host in the card are an input. Instants are microseconds since the epoch.
\<close>

section \<open>Identity\<close>

record identity =
  id_public :: bytes
  id_kid :: string
  id_sign :: "bytes \<Rightarrow> bytes"

definition system_id_of :: "(bytes \<Rightarrow> bytes) \<Rightarrow> bytes \<Rightarrow> string" where
  "system_id_of sha public = ''fasp:system:'' @ b64 (sha public)"

text \<open>The identity file: \<open>public_of\<close> loads a raw private key and gives its public key, if it is one.\<close>

definition identity_record :: "(bytes \<Rightarrow> bytes) \<Rightarrow> bytes \<Rightarrow> bytes \<Rightarrow> string \<Rightarrow> (string \<times> json) list" where
  "identity_record sha private public token =
     [(''private_key'', JStr (b64 private)), (''system_id'', JStr (system_id_of sha public)), (''kid'', JStr (''ed25519-'' @ token))]"

definition load_identity ::
    "(bytes \<Rightarrow> bytes option) \<Rightarrow> (bytes \<Rightarrow> bytes) \<Rightarrow> (bytes \<Rightarrow> bytes \<Rightarrow> bytes) \<Rightarrow> (string \<times> json) list \<Rightarrow> identity result" where
  "load_identity public_of sha ed_sign record =
     (case map_of record ''private_key'' of
        None \<Rightarrow> Inl KeyError
      | Some v \<Rightarrow>
          (case as_str v of
             None \<Rightarrow> Inl ValueError
           | Some text \<Rightarrow>
               bind_result (unb64 text) (\<lambda>private.
               case public_of private of
                 None \<Rightarrow> Inl ValueError
               | Some public \<Rightarrow>
                   (case (map_of record ''system_id'', map_of record ''kid'') of
                      (None, _) \<Rightarrow> Inl KeyError
                    | (Some sid, k) \<Rightarrow>
                        if sid \<noteq> JStr (system_id_of sha public) then Inl ValueError
                        else (case k of
                                None \<Rightarrow> Inl KeyError
                              | Some (JStr kid) \<Rightarrow>
                                  if 1 \<le> length kid \<and> length kid \<le> 128 then Inr \<lparr>id_public = public, id_kid = kid, id_sign = ed_sign private\<rparr>
                                  else Inl ValueError
                              | Some _ \<Rightarrow> Inl ValueError)))))"

section \<open>The ID card\<close>

record site =
  si_me :: identity
  si_instance_id :: string
  si_display_name :: string
  si_base_url :: string
  si_runtime :: json
  si_relay_public :: bytes
  si_capabilities :: json

definition WIRE_PROFILE :: string where
  "WIRE_PROFILE = ''fasp-json-ed25519-v1''"

definition wire_support :: "string list \<Rightarrow> json" where
  "wire_support kinds =
     JObj [(''profile'', JStr WIRE_PROFILE), (''versions'', JList [JStr PROTOCOL]),
       (''identity_encoding'', JStr ''sha256-base64url-no-padding''), (''canonicalization'', JStr ''RFC8785''), (''signature'', JStr ''Ed25519''),
       (''features'', JList (map JStr (sorted_list_of_set SUPPORTED_FEATURES))), (''delivery_modes'', JList [JStr ''durable'', JStr ''volatile'']),
       (''volatile_kinds'', JList (map JStr (sorted_list_of_set VOLATILE_KINDS))), (''max_volatile_lifetime_s'', JInt MAX_VOLATILE_LIFETIME_S),
       (''accepted_kinds'', JList (map JStr (sort kinds))),
       (''limits'', JObj [(''max_record_bytes'', JInt (int MAX_RECORD_BYTES)), (''max_json_depth'', JInt (int MAX_JSON_DEPTH)),
                          (''max_json_nodes'', JInt (int MAX_JSON_NODES))])]"

definition layers_json :: json where
  "layers_json = JList (map (\<lambda>(n, title, here, permitted).
     JObj [(''layer'', JInt n), (''title'', JStr title), (''implemented_here'', JBool here),
           (''permitted_interactions'', JList (map JStr (sort (map (\<lambda>i. py_lower (interaction_name i)) (filter (\<lambda>i. i \<in> permitted) all_interactions)))))])
     describe_layers)"

text \<open>\<^verbatim>\<open>str.replace\<close> for a text that is not empty.\<close>

function py_replace :: "string \<Rightarrow> string \<Rightarrow> string \<Rightarrow> string" where
  "py_replace old new s =
     (if s = [] \<or> old = [] then s
      else if take (length old) s = old then new @ py_replace old new (drop (length old) s)
      else hd s # py_replace old new (tl s))"
  by pat_completeness auto

termination py_replace
  by (relation "measure (\<lambda>(old, new, s). length s)") (auto simp: length_greater_0_conv)

definition channel_url :: "string \<Rightarrow> string" where
  "channel_url base = py_replace ''http://'' ''ws://'' (py_replace ''https://'' ''wss://'' base) @ ''/fasp/v1/channel''"

definition CARD_LIFETIME_US :: int where
  "CARD_LIFETIME_US = 30 * 86400 * 1000000"

text \<open>\<^verbatim>\<open>stamp(t)\<close> of an instant that may be past the last date.\<close>

definition stamp_us :: "int \<Rightarrow> json result" where
  "stamp_us t = (if representable (t div 1000) then Inr (JStr (stamp (t div 1000))) else Inl OtherException)"

definition id_card ::
    "(json \<Rightarrow> bytes option) \<Rightarrow> (bytes \<Rightarrow> bytes) \<Rightarrow> site \<Rightarrow> int \<Rightarrow> (string \<times> json) list result" where
  "id_card canon sha cfg t =
     bind_result (stamp_us t) (\<lambda>issued.
     bind_result (stamp_us (t + CARD_LIFETIME_US)) (\<lambda>expires.
     sign canon (id_sign (si_me cfg)) (id_kid (si_me cfg))
       [(''fasp'', JStr PROTOCOL), (''type'', JStr ''id_card''), (''system_id'', JStr (system_id_of sha (id_public (si_me cfg)))),
        (''instance_id'', JStr (si_instance_id cfg)), (''display_name'', JStr (si_display_name cfg)), (''runtime'', si_runtime cfg),
        (''public_key'', JStr (b64 (id_public (si_me cfg)))), (''relay_public_key'', JStr (b64 (si_relay_public cfg))),
        (''key_id'', JStr (id_kid (si_me cfg))), (''protocol_support'', wire_support Ingress.DISPATCH),
        (''endpoints'', JObj [(''profile'', JStr (si_base_url cfg @ ''/profile'')), (''pair_hello'', JStr (si_base_url cfg @ ''/pair/hello'')),
           (''envelopes'', JStr (si_base_url cfg @ ''/fasp/v1/envelopes'')), (''receipts'', JStr (si_base_url cfg @ ''/fasp/v1/receipts'')),
           (''channel'', JStr (channel_url (si_base_url cfg)))]),
        (''capabilities'', si_capabilities cfg), (''layers'', layers_json), (''issued_at'', issued), (''expires_at'', expires)]))"

definition relay_key_ok :: "json \<Rightarrow> bool" where
  "relay_key_ok v = (case v of JStr s \<Rightarrow> (case unb64 s of Inr key \<Rightarrow> length key = 32 | Inl _ \<Rightarrow> False) | _ \<Rightarrow> False)"

definition verify_id_card ::
    "(json \<Rightarrow> bytes option) \<Rightarrow> (bytes \<Rightarrow> bytes \<Rightarrow> bytes \<Rightarrow> bool) \<Rightarrow> (bytes \<Rightarrow> bytes) \<Rightarrow> int \<Rightarrow> json \<Rightarrow> (string \<times> json) list result" where
  "verify_id_card canon ed_verify sha current v =
     bind_result (id_card_shape canon v) (\<lambda>(issued, expires, content).
     bind_result (guard_else (\<not> (expires \<le> current \<or> (case issued of None \<Rightarrow> False | Some i \<Rightarrow> i > current + MAX_CLOCK_SKEW_SECONDS * 1000000)))
                    (FaspError ''auth.card_expired'')) (\<lambda>_.
     case v of
       JObj kvs \<Rightarrow>
         bind_result (verify_canonical ed_verify kvs (text_field kvs ''public_key'') content None) (\<lambda>_.
         bind_result (unb64 (text_field kvs ''public_key'')) (\<lambda>raw.
         bind_result (guard_else (get_or_null kvs ''system_id'' = JStr (system_id_of sha raw)) (FaspError ''auth.identity_mismatch'')) (\<lambda>_.
         bind_result (guard_else (case map_of kvs ''relay_public_key'' of None \<Rightarrow> True | Some r \<Rightarrow> relay_key_ok r)
                        (FaspError ''auth.invalid_relay_key'')) (\<lambda>_. Inr kvs))))
     | _ \<Rightarrow> Inl invalid))"

section \<open>Pairing\<close>

text \<open>What the peer table keeps of a card.\<close>

definition card_of :: "(string \<times> json) list \<Rightarrow> id_card" where
  "card_of kvs =
     \<lparr>card_public_key = text_field kvs ''public_key'', card_display_name = Option.bind (map_of kvs ''display_name'') as_str,
      card_kid = (case map_of kvs ''signature'' of Some (JObj sg) \<Rightarrow> text_field sg ''kid'' | _ \<Rightarrow> ''''),
      card_key_id = Option.bind (map_of kvs ''key_id'') as_str\<rparr>"

definition fingerprint :: "(bytes \<Rightarrow> bytes) \<Rightarrow> string \<Rightarrow> string \<Rightarrow> string" where
  "fingerprint sha a b = take 12 (b64 (sha (utf8 (py_join (CHR ''|'') (sort [a, b])))))"

definition DEFAULT_PREFIXES :: "string list" where
  "DEFAULT_PREFIXES = [''observe.'', ''coordinate.'']"

definition hello_reply ::
    "(json \<Rightarrow> bytes option) \<Rightarrow> (bytes \<Rightarrow> bytes) \<Rightarrow> site \<Rightarrow> int \<Rightarrow> string \<Rightarrow> bool \<Rightarrow> (string \<times> json) list result" where
  "hello_reply canon sha cfg t pair_code required =
     bind_result (id_card canon sha cfg t) (\<lambda>own.
     bind_result (stamp_us t) (\<lambda>issued.
     sign canon (id_sign (si_me cfg)) (id_kid (si_me cfg))
       [(''fasp'', JStr PROTOCOL), (''type'', JStr ''hello.ready''), (''system_id'', JStr (system_id_of sha (id_public (si_me cfg)))),
        (''id_card'', JObj own), (''pair_code'', JStr pair_code), (''pairing_required'', JBool required), (''issued_at'', issued)]))"

definition hello ::
    "(json \<Rightarrow> bytes option) \<Rightarrow> (bytes \<Rightarrow> bytes \<Rightarrow> bytes \<Rightarrow> bool) \<Rightarrow> (bytes \<Rightarrow> bytes) \<Rightarrow> site \<Rightarrow> 'h trust_db \<Rightarrow> int \<Rightarrow> json \<Rightarrow>
     'h trust_db \<times> (string \<times> json) list result" where
  "hello canon ed_verify sha cfg db t v =
     (case verify_id_card canon ed_verify sha t v of
        Inl e \<Rightarrow> (db, Inl e)
      | Inr kvs \<Rightarrow>
          let me = system_id_of sha (id_public (si_me cfg)); peer_id = text_field kvs ''system_id'' in
          if peer_id = me then (db, Inl (FaspError ''auth.self_pairing''))
          else (case upsert_pending_or_seen db peer_id (card_of kvs) (fingerprint sha me peer_id) (t div 1000) DEFAULT_PREFIXES of
                  Inl e \<Rightarrow> (db, Inl e)
                | Inr db' \<Rightarrow>
                    (db', hello_reply canon sha cfg t (fingerprint sha me peer_id)
                            (case peers_get db' peer_id of None \<Rightarrow> True | Some p \<Rightarrow> pe_state p \<noteq> Paired))))"

definition PEER_PAIRING_VALIDITY_MS :: int where
  "PEER_PAIRING_VALIDITY_MS = 90 * 86400 * 1000"

definition confirm_peer ::
    "('h audit_payload \<Rightarrow> 'h) \<Rightarrow> 'h \<Rightarrow> 'h trust_db \<Rightarrow> int \<Rightarrow> json \<Rightarrow> json \<Rightarrow> json option \<Rightarrow> 'h trust_db \<times> peer_row result" where
  "confirm_peer hx gen db t peer_id pair_code scope_list =
     (case bind_result (require (text_ok peer_id 256)) (\<lambda>_.
           bind_result (require (text_ok pair_code 256)) (\<lambda>_.
           bind_result (case scope_list of None \<Rightarrow> Inr () | Some v \<Rightarrow> check_scopes v) (\<lambda>_.
           guard_else (representable (t div 1000 + PEER_PAIRING_VALIDITY_MS)) OtherException))) of
        Inl e \<Rightarrow> (db, Inl e)
      | Inr u \<Rightarrow>
          (case (peer_id, pair_code) of
             (JStr p, JStr c) \<Rightarrow>
               (case peers_confirm hx gen db p c (t div 1000) (t div 1000 + PEER_PAIRING_VALIDITY_MS)
                       (map_option (\<lambda>v. case v of JList xs \<Rightarrow> feature_names xs | _ \<Rightarrow> []) scope_list) of
                  (db', None) \<Rightarrow> (db', Inl (FaspError ''auth.pairing_not_found''))
                | (db', Some row) \<Rightarrow> (db', Inr row))
           | _ \<Rightarrow> (db, Inl TypeError)))"

text \<open>A revoked peer also loses its live connections.\<close>

definition revoke_peer ::
    "('h audit_payload \<Rightarrow> 'h) \<Rightarrow> 'h \<Rightarrow> 'h trust_db \<Rightarrow> channels \<Rightarrow> int \<Rightarrow> string \<Rightarrow> string \<Rightarrow> string option \<Rightarrow> 'h trust_db \<times> channels" where
  "revoke_peer hx gen db ch t peer_id reason revocation_ref =
     (revocations_revoke hx gen db peer_id (t div 1000) reason revocation_ref, disconnect ch peer_id)"

section \<open>Envelopes\<close>

text \<open>The random values a message needs.\<close>

record draws =
  dw_message_id :: string
  dw_conversation_id :: string
  dw_nonce :: bytes

definition DURABLE_LIFETIME_US :: int where
  "DURABLE_LIFETIME_US = 120 * 1000000"

definition VOLATILE_LIFETIME_US :: int where
  "VOLATILE_LIFETIME_US = 1000000"

definition make_envelope ::
    "(json \<Rightarrow> bytes option) \<Rightarrow> (bytes \<Rightarrow> bytes) \<Rightarrow> identity \<Rightarrow> draws \<Rightarrow> int \<Rightarrow> string \<Rightarrow> string \<Rightarrow> (string \<times> json) list \<Rightarrow>
     string option \<Rightarrow> string option \<Rightarrow> string \<Rightarrow> string option \<Rightarrow> (string \<times> json) list result" where
  "make_envelope canon sha me draw t kind receiver payload conversation_id causation_id delivery receiver_instance =
     bind_result (stamp_us t) (\<lambda>issued.
     bind_result (stamp_us (t + DURABLE_LIFETIME_US)) (\<lambda>expires.
     let base = [(''fasp'', JStr PROTOCOL), (''kind'', JStr kind), (''message_id'', JStr (dw_message_id draw)),
                 (''conversation_id'', JStr (case conversation_id of None \<Rightarrow> dw_conversation_id draw
                                             | Some c \<Rightarrow> if c = '''' then dw_conversation_id draw else c)),
                 (''causation_id'', opt_str causation_id), (''from'', JStr (system_id_of sha (id_public me))), (''to'', JStr receiver),
                 (''issued_at'', issued), (''expires_at'', expires), (''nonce'', JStr (b64 (dw_nonce draw))), (''payload'', JObj payload)];
         env = (if kind = ''stream.open'' \<and> get_or_null payload ''storage'' = JStr ''memory''
                then dict_put ''required_features'' (JList [JStr VOLATILE_FEATURE]) base else base)
     in if delivery = ''volatile''
        then bind_result (stamp_us (t + VOLATILE_LIFETIME_US)) (\<lambda>soon.
               sign canon (id_sign me) (id_kid me)
                 (dict_update env [(''delivery'', JStr ''volatile''), (''receiver_instance'', opt_str receiver_instance),
                    (''required_features'', JList [JStr VOLATILE_FEATURE]), (''expires_at'', soon)]))
        else if delivery \<noteq> ''durable'' then Inl invalid
        else sign canon (id_sign me) (id_kid me) env))"

section \<open>Identifiers\<close>

declare length_b64 [simp]

lemma b64_id_chars: "list_all id_char (b64 data)"
proof -
  have "\<forall>x \<in> set (to_sextets (map unat data)). x < 64"
    by (rule to_sextets_small) (use unat_octet in auto)
  then show ?thesis by (auto simp: b64_def list_all_iff id_char_def char_sextet_char)
qed

lemma system_id_of_ok: "length (sha public) = 32 \<Longrightarrow> system_id_ok (JStr (system_id_of sha public))"
  by (simp add: system_id_ok_def system_id_of_def b64_id_chars)

lemma b64_inject [simp]: "b64 a = b64 b \<longleftrightarrow> a = b"
  by (metis unb64_b64 Inr_inject)

text \<open>
  An identity survives a restart: the file written when it was created loads back to the same public key, system identifier and key
  identifier.
\<close>

theorem identity_survives_restart:
  assumes "public_of private = Some public" and "length token \<le> 120"
  shows "load_identity public_of sha ed_sign (identity_record sha private public token) =
    Inr \<lparr>id_public = public, id_kid = ''ed25519-'' @ token, id_sign = ed_sign private\<rparr>"
  using assms by (simp add: load_identity_def identity_record_def unb64_b64)

theorem identity_survives_restart_witness:
  "load_identity Some id (\<lambda>k m. k) (identity_record id [1] [1] ''ab'') = Inr \<lparr>id_public = [1], id_kid = ''ed25519-ab'', id_sign = (\<lambda>m. [1])\<rparr>"
  using identity_survives_restart [of Some "[1]" "[1]" "''ab''" id "\<lambda>k m. k"] by simp

section \<open>What an accepted card proves\<close>

lemma verify_id_card_sound:
  assumes "verify_id_card canon ed_verify sha current v = Inr kvs"
  shows "v = JObj kvs" "\<exists>raw content. text_field kvs ''public_key'' = b64 raw \<and> text_field kvs ''system_id'' = system_id_of sha raw \<and>
    canon (JObj (unsigned_fields kvs)) = Some content \<and> verify_canonical ed_verify kvs (b64 raw) content None = Inr ()"
proof -
  obtain issued expires content where sh: "id_card_shape canon v = Inr (issued, expires, content)"
    using assms by (auto simp: verify_id_card_def bind_result_Inr_iff split: prod.splits)
  then obtain kvs' where v: "v = JObj kvs'" and rec: "record_shape canon (JObj kvs') id_card_fields = Inr content"
    by (cases v) (auto simp: id_card_shape_def bind_result_Inr_iff record_shape_def)
  have kvs: "kvs' = kvs" using assms sh v by (auto simp: verify_id_card_def bind_result_Inr_iff)
  then show "v = JObj kvs" using v by simp
  have "canon (JObj (unsigned_fields kvs)) = Some content"
    using rec unfolding kvs by (auto simp: record_shape_def bind_result_Inr_iff split: if_splits option.splits json.splits)
  moreover obtain raw where "unb64 (text_field kvs ''public_key'') = Inr raw" "verify_canonical ed_verify kvs (text_field kvs ''public_key'') content None = Inr ()"
    "get_or_null kvs ''system_id'' = JStr (system_id_of sha raw)"
    using assms sh v kvs by (auto simp: verify_id_card_def bind_result_Inr_iff guard_else_def split: if_splits)
  moreover from this have "text_field kvs ''public_key'' = b64 raw" "text_field kvs ''system_id'' = system_id_of sha raw"
    by (auto simp: unb64_def Let_def text_field_def get_or_null_def split: option.splits if_splits)
  ultimately show "\<exists>raw content. text_field kvs ''public_key'' = b64 raw \<and> text_field kvs ''system_id'' = system_id_of sha raw \<and>
    canon (JObj (unsigned_fields kvs)) = Some content \<and> verify_canonical ed_verify kvs (b64 raw) content None = Inr ()" by metis
qed

section \<open>The unauthenticated endpoint grants nothing\<close>

definition keys_bound :: "(bytes \<Rightarrow> bytes) \<Rightarrow> 'h trust_db \<Rightarrow> bool" where
  "keys_bound sha db \<longleftrightarrow>
     distinct (map pe_peer_id (td_peers db)) \<and>
     (\<forall>p \<in> set (td_peers db). \<exists>raw. card_public_key (pe_card p) = b64 raw \<and> pe_peer_id p = system_id_of sha raw)"

inductive pairing_step ::
    "(json \<Rightarrow> bytes option) \<Rightarrow> (bytes \<Rightarrow> bytes \<Rightarrow> bytes \<Rightarrow> bool) \<Rightarrow> (bytes \<Rightarrow> bytes) \<Rightarrow> site \<Rightarrow> ('h audit_payload \<Rightarrow> 'h) \<Rightarrow> 'h \<Rightarrow>
     'h trust_db \<Rightarrow> 'h trust_db \<Rightarrow> bool"
  for canon ed_verify sha cfg hx gen where
  p_hello: "pairing_step canon ed_verify sha cfg hx gen db (fst (hello canon ed_verify sha cfg db t v))"
| p_confirm: "pairing_step canon ed_verify sha cfg hx gen db (fst (confirm_peer hx gen db t peer_id code scope_list))"
| p_revoke: "pairing_step canon ed_verify sha cfg hx gen db (fst (revoke_peer hx gen db ch t p why ref))"
| p_grants: "td_peers db' = td_peers db \<Longrightarrow> td_revocations db' = td_revocations db \<Longrightarrow> pairing_step canon ed_verify sha cfg hx gen db db'"

lemma find_key:
  assumes "distinct (map key xs)" and "x \<in> set xs"
  shows "find (\<lambda>r. key r = key x) xs = Some x"
  using assms by (induction xs) force+

lemma peers_get_Some_iff:
  assumes "distinct (map pe_peer_id (td_peers db))"
  shows "peers_get db x = Some p \<longleftrightarrow> p \<in> set (td_peers db) \<and> pe_peer_id p = x"
  using find_key [OF assms] by (auto simp: peers_get_def find_Some_iff)

lemma upsert_cases:
  assumes "upsert_pending_or_seen db a idc code seen scopes = Inr db'"
  obtains (new) K n where "peers_get db a = None" "td_peers db' = filter K (td_peers db) @ [n]" "pe_peer_id n = a" "pe_card n = idc" "pe_state n = Pending"
      "td_revocations db' = td_revocations db"
  | (seen) r where "peers_get db a = Some r" "pe_state r = Paired \<longrightarrow> card_kid (pe_card r) = card_kid idc"
      "td_peers db' = update_where (\<lambda>r. pe_peer_id r = a) (\<lambda>r. r\<lparr>pe_card := idc, pe_pair_code := code, pe_seen_at := seen\<rparr>) (td_peers db)"
      "td_revocations db' = td_revocations db"
proof (cases "peers_get db a")
  case None
  show ?thesis by (rule new [OF None]) (use assms None in \<open>auto simp: upsert_pending_or_seen_def Let_def split: if_splits\<close>)
next
  case (Some r)
  show ?thesis by (rule seen [OF Some]) (use assms Some in \<open>auto simp: upsert_pending_or_seen_def split: if_splits\<close>)
qed

lemma upsert_distinct:
  assumes "upsert_pending_or_seen db a idc code seen scopes = Inr db'" and "distinct (map pe_peer_id (td_peers db))"
  shows "distinct (map pe_peer_id (td_peers db'))"
  using assms(1)
proof (cases rule: upsert_cases)
  case (new K n)
  then show ?thesis using assms(2) by (auto simp: peers_get_def find_None_iff distinct_map_filter)
next
  case (seen r)
  have "map pe_peer_id (td_peers db') = map pe_peer_id (td_peers db)" unfolding seen(3) by (rule map_update_where) simp
  then show ?thesis using assms(2) by simp
qed

text \<open>What a hello leaves of the rows: the row of the sender has the card that was shown, and is as trusted as it was.\<close>

lemma upsert_row:
  assumes "upsert_pending_or_seen db a idc code seen scopes = Inr db'" and "distinct (map pe_peer_id (td_peers db))" and "p \<in> set (td_peers db')"
  shows "(p \<in> set (td_peers db) \<and> pe_peer_id p \<noteq> a) \<or> (pe_peer_id p = a \<and> pe_card p = idc \<and>
      (pe_state p = Pending \<or> (\<exists>r \<in> set (td_peers db). pe_peer_id r = a \<and> pe_state r = pe_state p \<and> pe_prefixes r = pe_prefixes p \<and>
         pe_expires_at r = pe_expires_at p \<and> card_kid (pe_card r) = card_kid idc)))"
  using assms(1)
proof (cases rule: upsert_cases)
  case (new K n)
  have "\<forall>r \<in> set (td_peers db). pe_peer_id r \<noteq> a" using new(1) by (auto simp: peers_get_def find_None_iff)
  then show ?thesis using assms(3) new by auto
next
  case (seen r)
  obtain q where q: "q \<in> set (td_peers db)" "p = (if pe_peer_id q = a then q\<lparr>pe_card := idc, pe_pair_code := code, pe_seen_at := seen\<rparr> else q)"
    using assms(3) unfolding seen(3) set_update_where by auto
  have "pe_peer_id q = a \<Longrightarrow> q = r" using peers_get_Some_iff [OF assms(2), of a q] q(1) seen(1) by simp
  then show ?thesis using q seen(2) by (cases "pe_state q") auto
qed

lemma hello_cases:
  assumes "hello canon ed_verify sha cfg db t v = (db', r)"
  obtains "db' = db"
  | kvs raw code seen where "upsert_pending_or_seen db (system_id_of sha raw) (card_of kvs) code seen DEFAULT_PREFIXES = Inr db'"
      "card_public_key (card_of kvs) = b64 raw"
proof (cases "verify_id_card canon ed_verify sha t v")
  case (Inl e)
  then show ?thesis using assms that(1) by (simp add: hello_def)
next
  case (Inr kvs)
  obtain raw where raw: "text_field kvs ''public_key'' = b64 raw" "text_field kvs ''system_id'' = system_id_of sha raw"
    using verify_id_card_sound(2) [OF Inr] by auto
  show ?thesis
    using assms Inr raw that by (auto simp: hello_def Let_def card_of_def split: if_splits sum.splits)
qed

lemma hello_keys_bound:
  assumes "keys_bound sha db" and "hello canon ed_verify sha cfg db t v = (db', r)"
  shows "keys_bound sha db'"
  using assms(2)
proof (cases rule: hello_cases)
  case 1
  with assms(1) show ?thesis by simp
next
  case (2 kvs raw code seen)
  have "\<exists>raw. card_public_key (pe_card p) = b64 raw \<and> pe_peer_id p = system_id_of sha raw" if "p \<in> set (td_peers db')" for p
    using upsert_row [OF 2(1) _ that] assms(1) 2(2) unfolding keys_bound_def by auto
  then show ?thesis using upsert_distinct [OF 2(1)] assms(1) by (simp add: keys_bound_def)
qed

lemma keys_bound_update:
  assumes "keys_bound sha db" and "\<And>r. pe_peer_id (f r) = pe_peer_id r" and "\<And>r. pe_card (f r) = pe_card r"
    and "td_peers db' = update_where P f (td_peers db)"
  shows "keys_bound sha db'"
proof -
  have "map pe_peer_id (td_peers db') = map pe_peer_id (td_peers db)" unfolding assms(4) by (rule map_update_where) (rule assms(2))
  moreover have "\<exists>raw. card_public_key (pe_card p) = b64 raw \<and> pe_peer_id p = system_id_of sha raw" if p: "p \<in> set (td_peers db')" for p
  proof -
    obtain q where "q \<in> set (td_peers db)" "pe_card p = pe_card q" "pe_peer_id p = pe_peer_id q"
      using p assms(2,3) unfolding assms(4) set_update_where by (auto split: if_splits)
    with assms(1) show ?thesis by (auto simp: keys_bound_def)
  qed
  ultimately show ?thesis using assms(1) unfolding keys_bound_def by simp
qed

lemma peers_confirm_keys_bound:
  assumes "keys_bound sha db"
  shows "keys_bound sha (fst (peers_confirm hx gen db p c t1 t2 scopes))"
proof (cases "\<exists>row. peers_get db p = Some row \<and> pe_pair_code row = c")
  case False
  then show ?thesis using assms by (auto simp: peers_confirm_def split: option.split)
next
  case True
  let ?f = "\<lambda>r. case scopes of None \<Rightarrow> r\<lparr>pe_state := Paired, pe_paired_at := Some t1, pe_expires_at := Some t2\<rparr>
        | Some ps \<Rightarrow> r\<lparr>pe_state := Paired, pe_paired_at := Some t1, pe_expires_at := Some t2, pe_prefixes := ps\<rparr>"
  show ?thesis
    by (rule keys_bound_update [OF assms, where f = ?f and P = "\<lambda>r. pe_peer_id r = p"]) (use True in \<open>auto simp: peers_confirm_def Let_def split: option.split\<close>)
qed

lemma confirm_peer_cases:
  obtains "fst (confirm_peer hx gen db t peer_id code scope_list) = db"
  | p c where "peer_id = JStr p" "code = JStr c" "fst (confirm_peer hx gen db t peer_id code scope_list) =
        fst (peers_confirm hx gen db p c (t div 1000) (t div 1000 + PEER_PAIRING_VALIDITY_MS)
          (map_option (\<lambda>v. case v of JList xs \<Rightarrow> feature_names xs | _ \<Rightarrow> []) scope_list))"
proof (cases "bind_result (require (text_ok peer_id 256)) (\<lambda>_. bind_result (require (text_ok code 256)) (\<lambda>_.
     bind_result (case scope_list of None \<Rightarrow> Inr () | Some v \<Rightarrow> check_scopes v) (\<lambda>_. guard_else (representable (t div 1000 + PEER_PAIRING_VALIDITY_MS)) OtherException)))")
  case (Inl e)
  then show ?thesis using that(1) by (simp add: confirm_peer_def)
next
  case (Inr u)
  then obtain p c where pc: "peer_id = JStr p" "code = JStr c" by (auto simp: bind_result_Inr_iff text_ok_iff)
  show ?thesis by (rule that(2) [OF pc]) (use Inr pc in \<open>simp add: confirm_peer_def split: prod.split option.split\<close>)
qed

lemma confirm_keys_bound:
  assumes "keys_bound sha db"
  shows "keys_bound sha (fst (confirm_peer hx gen db t peer_id code scope_list))"
  using confirm_peer_cases [of hx gen db t peer_id code scope_list] assms peers_confirm_keys_bound by metis

lemma pairing_step_keys_bound:
  assumes "pairing_step canon ed_verify sha cfg hx gen db db'" and "keys_bound sha db"
  shows "keys_bound sha db'"
  using assms
proof cases
  case (p_hello t v)
  then show ?thesis using hello_keys_bound [OF assms(2) surjective_pairing] by simp
next
  case p_confirm
  then show ?thesis using confirm_keys_bound [OF assms(2)] by simp
next
  case p_revoke
  then show ?thesis using assms(2) by (simp add: revoke_peer_def revocations_revoke_def Let_def keys_bound_def)
next
  case p_grants
  then show ?thesis using assms(2) by (simp add: keys_bound_def)
qed

interpretation pairing: invariant_system "\<lambda>db. db = trust_empty" "pairing_step canon ed_verify sha cfg hx gen" "keys_bound sha"
  for canon ed_verify sha cfg and hx :: "'h audit_payload \<Rightarrow> 'h" and gen
proof unfold_locales
  show "keys_bound sha db" if "db = trust_empty" for db :: "'h trust_db" using that by (simp add: keys_bound_def trust_empty_def)
  show "keys_bound sha db \<Longrightarrow> pairing_step canon ed_verify sha cfg hx gen db db' \<Longrightarrow> keys_bound sha db'" for db db' :: "'h trust_db"
    by (rule pairing_step_keys_bound)
qed

lemma harness_peer_Inr_iff:
  assumes "distinct (map pe_peer_id (td_peers db))"
  shows "harness_peer db now a = Inr v \<longleftrightarrow>
    (\<exists>p \<in> set (td_peers db). pe_peer_id p = a \<and> \<not> is_revoked db a \<and> pe_state p = Paired \<and> (case pe_expires_at p of None \<Rightarrow> True | Some t \<Rightarrow> now < t) \<and>
       v = \<lparr>av_state = Some Paired, av_expires_at = pe_expires_at p, av_revoked = False, av_public_key = Some (card_public_key (pe_card p)),
            av_kid = Some (card_kid (pe_card p)), av_prefixes = pe_prefixes p\<rparr>)"
proof (cases "peers_get db a")
  case None
  then have "\<forall>p \<in> set (td_peers db). pe_peer_id p \<noteq> a" by (auto simp: peers_get_def find_None_iff)
  then show ?thesis using None by (auto simp: harness_peer_def peers_authentication_def Let_def)
next
  case (Some p)
  have "q = p" if "q \<in> set (td_peers db)" "pe_peer_id q = a" for q using peers_get_Some_iff [OF assms, of a q] that Some by simp
  moreover have "p \<in> set (td_peers db)" "pe_peer_id p = a" using peers_get_Some_iff [OF assms, of a p] Some by simp_all
  moreover have "harness_peer db now a = Inr v \<longleftrightarrow> \<not> is_revoked db a \<and> pe_state p = Paired \<and> (case pe_expires_at p of None \<Rightarrow> True | Some t \<Rightarrow> now < t) \<and>
       v = \<lparr>av_state = Some Paired, av_expires_at = pe_expires_at p, av_revoked = False, av_public_key = Some (card_public_key (pe_card p)),
            av_kid = Some (card_kid (pe_card p)), av_prefixes = pe_prefixes p\<rparr>"
    using Some by (auto simp: harness_peer_def peers_authentication_def Let_def split: option.splits)
  ultimately show ?thesis by blast
qed


section \<open>What a system signs, the other accepts\<close>

lemma parse_stamp_us: "stamp_us t = Inr v \<Longrightarrow> timestamp_field v = Inr (t div 1000 * 1000)"
  using parse_stamp_stamp [of "t div 1000"] by (auto simp: stamp_us_def timestamp_field_def split: if_splits)

lemma sign_lookup:
  assumes "sign canon ed_sign kid value = Inr sealed"
  shows "\<exists>content. canon (JObj (unsigned_fields value)) = Some content \<and> unsigned_fields sealed = unsigned_fields value \<and>
    map_of sealed ''signature'' = Some (JObj [(''alg'', JStr ''Ed25519''), (''kid'', JStr kid), (''value'', JStr (b64 (ed_sign content)))]) \<and>
    (\<forall>k. k \<noteq> ''signature'' \<longrightarrow> map_of sealed k = map_of value k)"
  using assms by (auto simp: sign_def unsigned_fields_def split: option.splits)

lemma signed_verifies:
  assumes "\<And>m. ed_verify pub (ed_sign m) m" and "1 \<le> length kid" and "length kid \<le> 128" and "expected \<in> {None, Some kid}"
    and "map_of sealed ''signature'' = Some (JObj [(''alg'', JStr ''Ed25519''), (''kid'', JStr kid), (''value'', JStr (b64 (ed_sign content)))])"
  shows "verify_canonical ed_verify sealed (b64 pub) content expected = Inr ()"
  unfolding verify_canonical_def assms(5) using assms(1-4) by (auto simp: unb64_b64)

text \<open>A record that is small enough for the wire.\<close>

definition fits :: "(json \<Rightarrow> bytes option) \<Rightarrow> (string \<times> json) list \<Rightarrow> bool" where
  "fits canon kvs \<longleftrightarrow> validate_json (JObj kvs) = Inr () \<and>
     (case (canon (JObj (unsigned_fields kvs)), canon (get_or_null kvs ''signature'')) of
        (Some content, Some signature) \<Rightarrow> length content + 13 + length signature \<le> MAX_RECORD_BYTES
      | _ \<Rightarrow> False)"

lemma record_shape_fits:
  assumes "fits canon kvs" and "set required \<subseteq> fst ` set kvs" and "map_of kvs ''fasp'' = Some (JStr PROTOCOL)"
    and "map_of kvs ''signature'' = Some sg" and "canon (JObj (unsigned_fields kvs)) = Some content"
  shows "record_shape canon (JObj kvs) required = Inr content"
  using assms by (auto simp: fits_def record_shape_def get_or_null_def split: option.splits)

lemma fields_present: "\<forall>k \<in> set ks. map_of kvs k \<noteq> None \<Longrightarrow> set ks \<subseteq> fst ` set kvs"
  by (auto simp: map_of_eq_None_iff)

definition card_fields_ok :: "(bytes \<Rightarrow> bytes) \<Rightarrow> site \<Rightarrow> bool" where
  "card_fields_ok sha cfg \<longleftrightarrow>
     length (id_public (si_me cfg)) = 32 \<and> length (sha (id_public (si_me cfg))) = 32 \<and> length (si_relay_public cfg) = 32 \<and>
     1 \<le> length (id_kid (si_me cfg)) \<and> length (id_kid (si_me cfg)) \<le> 128 \<and>
     1 \<le> length (si_display_name cfg) \<and> length (si_display_name cfg) \<le> 256 \<and> 1 \<le> length (si_instance_id cfg) \<and> length (si_instance_id cfg) \<le> 128"

text \<open>
  A system's own ID card is accepted by every other system for the thirty days of its life, and what the other system keeps of it is the key
  and the key identifier it was signed with.
\<close>

lemma own_card_verifies:
  assumes "\<And>m. ed_verify (id_public (si_me cfg)) (id_sign (si_me cfg) m) m" and "card_fields_ok sha cfg"
    and "id_card canon sha cfg t = Inr kvs" and "fits canon kvs"
    and "t - 60000000 \<le> current" and "current < (t + CARD_LIFETIME_US) div 1000 * 1000"
  shows "verify_id_card canon ed_verify sha current (JObj kvs) = Inr kvs \<and> text_field kvs ''system_id'' = system_id_of sha (id_public (si_me cfg)) \<and>
    card_public_key (card_of kvs) = b64 (id_public (si_me cfg)) \<and> card_kid (card_of kvs) = id_kid (si_me cfg)"
proof -
  let ?me = "si_me cfg"
  obtain issued expires body where t1: "stamp_us t = Inr issued" and t2: "stamp_us (t + CARD_LIFETIME_US) = Inr expires"
    and s: "sign canon (id_sign ?me) (id_kid ?me) body = Inr kvs"
    and un: "body = [(''fasp'', JStr PROTOCOL), (''type'', JStr ''id_card''), (''system_id'', JStr (system_id_of sha (id_public ?me))),
        (''instance_id'', JStr (si_instance_id cfg)), (''display_name'', JStr (si_display_name cfg)), (''runtime'', si_runtime cfg),
        (''public_key'', JStr (b64 (id_public ?me))), (''relay_public_key'', JStr (b64 (si_relay_public cfg))),
        (''key_id'', JStr (id_kid ?me)), (''protocol_support'', wire_support Ingress.DISPATCH),
        (''endpoints'', JObj [(''profile'', JStr (si_base_url cfg @ ''/profile'')), (''pair_hello'', JStr (si_base_url cfg @ ''/pair/hello'')),
           (''envelopes'', JStr (si_base_url cfg @ ''/fasp/v1/envelopes'')), (''receipts'', JStr (si_base_url cfg @ ''/fasp/v1/receipts'')),
           (''channel'', JStr (channel_url (si_base_url cfg)))]),
        (''capabilities'', si_capabilities cfg), (''layers'', layers_json), (''issued_at'', issued), (''expires_at'', expires)]"
    using assms(3) unfolding id_card_def by (auto simp: bind_result_Inr_iff)
  obtain content where c: "canon (JObj (unsigned_fields kvs)) = Some content"
    and sg: "map_of kvs ''signature'' = Some (JObj [(''alg'', JStr ''Ed25519''), (''kid'', JStr (id_kid ?me)), (''value'', JStr (b64 (id_sign ?me content)))])"
    and rest: "\<And>k. k \<noteq> ''signature'' \<Longrightarrow> map_of kvs k = map_of body k"
    using sign_lookup [OF s] by auto
  have f: "map_of kvs ''fasp'' = Some (JStr PROTOCOL)" "map_of kvs ''type'' = Some (JStr ''id_card'')"
    "map_of kvs ''system_id'' = Some (JStr (system_id_of sha (id_public ?me)))" "map_of kvs ''instance_id'' = Some (JStr (si_instance_id cfg))"
    "map_of kvs ''display_name'' = Some (JStr (si_display_name cfg))" "map_of kvs ''public_key'' = Some (JStr (b64 (id_public ?me)))"
    "map_of kvs ''relay_public_key'' = Some (JStr (b64 (si_relay_public cfg)))" "map_of kvs ''key_id'' = Some (JStr (id_kid ?me))"
    "map_of kvs ''issued_at'' = Some issued" "map_of kvs ''expires_at'' = Some expires" "map_of kvs ''required_features'' = None"
    "map_of kvs ''endpoints'' = Some (JObj [(''profile'', JStr (si_base_url cfg @ ''/profile'')), (''pair_hello'', JStr (si_base_url cfg @ ''/pair/hello'')),
           (''envelopes'', JStr (si_base_url cfg @ ''/fasp/v1/envelopes'')), (''receipts'', JStr (si_base_url cfg @ ''/fasp/v1/receipts'')),
           (''channel'', JStr (channel_url (si_base_url cfg)))])"
    by (simp_all add: rest un)
  note ok = assms(2) [unfolded card_fields_ok_def]
  have rec: "record_shape canon (JObj kvs) id_card_fields = Inr content"
    by (rule record_shape_fits [OF assms(4) _ f(1) sg c], rule fields_present) (simp add: id_card_fields_def f sg)
  have life: "lifetime kvs False = Inr (Some (t div 1000 * 1000), (t + CARD_LIFETIME_US) div 1000 * 1000)"
    using parse_stamp_us [OF t1] parse_stamp_us [OF t2]
    by (simp add: lifetime_def get_or_null_def f require_def guard_else_def CARD_LIFETIME_US_def)
  have shape: "id_card_shape canon (JObj kvs) = Inr (Some (t div 1000 * 1000), (t + CARD_LIFETIME_US) div 1000 * 1000, content)"
    using ok by (simp add: id_card_shape_def rec life get_or_null_def f sg system_id_of_ok text_ok_def endpoints_ok_def text_if_present_def
        key_id_matches_def required_features_def features_of_def features_field_def feature_names_def require_def guard_else_def)
  have "t div 1000 * 1000 \<le> t" by simp
  then show ?thesis
    using ok assms(1,5,6) signed_verifies [of ed_verify "id_public ?me" "id_sign ?me" "id_kid ?me" None kvs content] sg
    by (simp add: verify_id_card_def shape guard_else_def text_field_def get_or_null_def f unb64_b64 relay_key_ok_def card_of_def MAX_CLOCK_SKEW_SECONDS_def)
qed

definition lifetime_us :: "string \<Rightarrow> int" where
  "lifetime_us delivery = (if delivery = ''volatile'' then VOLATILE_LIFETIME_US else DURABLE_LIFETIME_US)"

text \<open>What the sender has to respect: the limits on texts and, for volatile delivery, the kinds it is meant for and the receiver's instance.\<close>

definition message_ok :: "draws \<Rightarrow> string \<Rightarrow> string \<Rightarrow> string option \<Rightarrow> string option \<Rightarrow> string \<Rightarrow> string option \<Rightarrow> bool" where
  "message_ok draw kind receiver conversation causation delivery inst \<longleftrightarrow>
     1 \<le> length kind \<and> length kind \<le> 128 \<and> 1 \<le> length (dw_message_id draw) \<and> length (dw_message_id draw) \<le> 128 \<and>
     1 \<le> length (dw_conversation_id draw) \<and> length (dw_conversation_id draw) \<le> 128 \<and> 1 \<le> length (dw_nonce draw) \<and> length (dw_nonce draw) \<le> 96 \<and>
     system_id_ok (JStr receiver) \<and> (case conversation of None \<Rightarrow> True | Some c \<Rightarrow> length c \<le> 128) \<and>
     (case causation of None \<Rightarrow> True | Some c \<Rightarrow> 1 \<le> length c \<and> length c \<le> 128) \<and>
     (delivery = ''volatile'' \<longrightarrow> kind \<in> VOLATILE_KINDS \<and> (case inst of None \<Rightarrow> False | Some i \<Rightarrow> 1 \<le> length i \<and> length i \<le> 128))"

lemma make_envelope_lookup:
  assumes "make_envelope canon sha me draw t kind receiver payload conversation causation delivery inst = Inr env"
  shows "\<exists>issued expires content. stamp_us t = Inr issued \<and> stamp_us (t + lifetime_us delivery) = Inr expires \<and> delivery \<in> {''volatile'', ''durable''} \<and>
     canon (JObj (unsigned_fields env)) = Some content \<and>
     map_of env ''signature'' = Some (JObj [(''alg'', JStr ''Ed25519''), (''kid'', JStr (id_kid me)), (''value'', JStr (b64 (id_sign me content)))]) \<and>
     map_of env ''fasp'' = Some (JStr PROTOCOL) \<and> map_of env ''kind'' = Some (JStr kind) \<and> map_of env ''message_id'' = Some (JStr (dw_message_id draw)) \<and>
     map_of env ''conversation_id'' = Some (JStr (case conversation of None \<Rightarrow> dw_conversation_id draw | Some c \<Rightarrow> if c = '''' then dw_conversation_id draw else c)) \<and>
     map_of env ''causation_id'' = Some (opt_str causation) \<and> map_of env ''from'' = Some (JStr (system_id_of sha (id_public me))) \<and>
     map_of env ''to'' = Some (JStr receiver) \<and> map_of env ''issued_at'' = Some issued \<and> map_of env ''expires_at'' = Some expires \<and>
     map_of env ''nonce'' = Some (JStr (b64 (dw_nonce draw))) \<and> map_of env ''payload'' = Some (JObj payload) \<and>
     map_of env ''required_features'' \<in> {None, Some (JList [JStr VOLATILE_FEATURE])} \<and>
     (delivery = ''volatile'' \<longrightarrow> map_of env ''delivery'' = Some (JStr ''volatile'') \<and> map_of env ''receiver_instance'' = Some (opt_str inst) \<and>
        map_of env ''required_features'' = Some (JList [JStr VOLATILE_FEATURE])) \<and>
     (delivery = ''durable'' \<longrightarrow> map_of env ''delivery'' = None)"
proof -
  define base where "base issued expires = [(''fasp'', JStr PROTOCOL), (''kind'', JStr kind), (''message_id'', JStr (dw_message_id draw)),
                 (''conversation_id'', JStr (case conversation of None \<Rightarrow> dw_conversation_id draw
                                             | Some c \<Rightarrow> if c = '''' then dw_conversation_id draw else c)),
                 (''causation_id'', opt_str causation), (''from'', JStr (system_id_of sha (id_public me))), (''to'', JStr receiver),
                 (''issued_at'', issued), (''expires_at'', expires), (''nonce'', JStr (b64 (dw_nonce draw))), (''payload'', JObj payload)]" for issued expires
  define env0 where "env0 issued expires = (if kind = ''stream.open'' \<and> get_or_null payload ''storage'' = JStr ''memory''
                then dict_put ''required_features'' (JList [JStr VOLATILE_FEATURE]) (base issued expires) else base issued expires)" for issued expires
  obtain issued late where i: "stamp_us t = Inr issued" and late: "stamp_us (t + DURABLE_LIFETIME_US) = Inr late"
    and made: "(if delivery = ''volatile''
        then bind_result (stamp_us (t + VOLATILE_LIFETIME_US)) (\<lambda>soon.
               sign canon (id_sign me) (id_kid me)
                 (dict_update (env0 issued late) [(''delivery'', JStr ''volatile''), (''receiver_instance'', opt_str inst),
                    (''required_features'', JList [JStr VOLATILE_FEATURE]), (''expires_at'', soon)]))
        else if delivery \<noteq> ''durable'' then Inl invalid
        else sign canon (id_sign me) (id_kid me) (env0 issued late)) = Inr env"
    using assms unfolding make_envelope_def Let_def env0_def base_def by (auto simp: bind_result_Inr_iff)
  show ?thesis
  proof (cases "delivery = ''volatile''")
    case True
    then obtain soon where soon: "stamp_us (t + VOLATILE_LIFETIME_US) = Inr soon"
      and s: "sign canon (id_sign me) (id_kid me) (dict_update (env0 issued late) [(''delivery'', JStr ''volatile''), (''receiver_instance'', opt_str inst),
                    (''required_features'', JList [JStr VOLATILE_FEATURE]), (''expires_at'', soon)]) = Inr env"
      using made by (auto simp: bind_result_Inr_iff)
    from sign_lookup [OF s] show ?thesis
      using True i soon by (auto simp: lifetime_us_def env0_def base_def dict_update_def)
  next
    case False
    then have d: "delivery = ''durable''" and s: "sign canon (id_sign me) (id_kid me) (env0 issued late) = Inr env"
      using made by (simp_all split: if_splits)
    from sign_lookup [OF s] show ?thesis
      using False d i late by (auto simp: lifetime_us_def env0_def base_def)
  qed
qed

lemma made_envelope_shape:
  assumes "make_envelope canon sha me draw t kind receiver payload conversation causation delivery inst = Inr env"
    and "message_ok draw kind receiver conversation causation delivery inst" and "length (sha (id_public me)) = 32" and "fits canon env"
    and "canon (JObj (unsigned_fields env)) = Some content"
  shows "envelope_shape canon (JObj env) = Inr (t div 1000 * 1000, (t + lifetime_us delivery) div 1000 * 1000, content)"
proof -
  obtain issued expires sg where tm: "stamp_us t = Inr issued" "stamp_us (t + lifetime_us delivery) = Inr expires" and d: "delivery \<in> {''volatile'', ''durable''}"
    and f: "map_of env ''signature'' = Some sg" "map_of env ''fasp'' = Some (JStr PROTOCOL)" "map_of env ''kind'' = Some (JStr kind)"
      "map_of env ''message_id'' = Some (JStr (dw_message_id draw))"
      "map_of env ''conversation_id'' = Some (JStr (case conversation of None \<Rightarrow> dw_conversation_id draw | Some c \<Rightarrow> if c = '''' then dw_conversation_id draw else c))"
      "map_of env ''causation_id'' = Some (opt_str causation)" "map_of env ''from'' = Some (JStr (system_id_of sha (id_public me)))"
      "map_of env ''to'' = Some (JStr receiver)" "map_of env ''issued_at'' = Some issued" "map_of env ''expires_at'' = Some expires"
      "map_of env ''nonce'' = Some (JStr (b64 (dw_nonce draw)))" "map_of env ''payload'' = Some (JObj payload)"
    and feat: "map_of env ''required_features'' \<in> {None, Some (JList [JStr VOLATILE_FEATURE])}"
    and vol: "delivery = ''volatile'' \<longrightarrow> map_of env ''delivery'' = Some (JStr ''volatile'') \<and> map_of env ''receiver_instance'' = Some (opt_str inst) \<and>
        map_of env ''required_features'' = Some (JList [JStr VOLATILE_FEATURE])"
    and dur: "delivery = ''durable'' \<longrightarrow> map_of env ''delivery'' = None"
    using make_envelope_lookup [OF assms(1)] by blast
  note ok = assms(2) [unfolded message_ok_def]
  have rec: "record_shape canon (JObj env) envelope_fields = Inr content"
    by (rule record_shape_fits [OF assms(4) _ f(2) f(1) assms(5)], rule fields_present) (simp add: envelope_fields_def f)
  have "(t + 1000000) div 1000 = t div 1000 + 1000" "(t + 120000000) div 1000 = t div 1000 + 120000"
    using div_mult_self1 [of 1000 t 1000] div_mult_self1 [of 1000 t 120000] by simp_all
  then have late: "t div 1000 * 1000 < (t + lifetime_us delivery) div 1000 * 1000"
    by (simp add: lifetime_us_def VOLATILE_LIFETIME_US_def DURABLE_LIFETIME_US_def)
  have life: "lifetime env True = Inr (Some (t div 1000 * 1000), (t + lifetime_us delivery) div 1000 * 1000)"
    using parse_stamp_us [OF tm(1)] parse_stamp_us [OF tm(2)] late by (simp add: lifetime_def get_or_null_def f require_def guard_else_def)
  have features: "required_features env = Inr ()"
    using feat by (auto simp: required_features_def features_of_def features_field_def feature_names_def feature_ok_def SUPPORTED_FEATURES_def VOLATILE_FEATURE_def
        require_def guard_else_def)
  have texts: "check_all (map (\<lambda>n. require (text_ok (get_or_null env n) 128)) [''kind'', ''message_id'', ''nonce'']) = Inr ()"
  proof -
    have "1 \<le> (4 * length (dw_nonce draw) + 2) div 3" "(4 * length (dw_nonce draw) + 2) div 3 \<le> 128" using ok by linarith+
    then show ?thesis using ok by (simp add: get_or_null_def f text_ok_def require_def guard_else_def)
  qed
  have ids: "check_all (map (\<lambda>n. require (system_id_ok (get_or_null env n))) [''from'', ''to'']) = Inr ()"
    using ok system_id_of_ok [of sha "id_public me"] assms(3) by (simp add: get_or_null_def f require_def guard_else_def)
  have given: "check_all (map (text_if_given env 128) [''conversation_id'', ''causation_id'']) = Inr ()"
    using ok by (cases causation; cases conversation) (auto simp: text_if_given_def get_or_null_def f text_ok_def opt_str_def Suc_le_eq require_def guard_else_def)
  have volatile: "check_volatile env (t div 1000 * 1000) ((t + lifetime_us delivery) div 1000 * 1000) = Inr ()" if v: "delivery = ''volatile''"
  proof -
    have "(t + 1000000) div 1000 * 1000 - t div 1000 * 1000 \<le> 5 * 1000000" using div_mult_self1 [of 1000 t 1000] by simp
    then show ?thesis
      using ok vol v by (cases inst) (simp_all add: check_volatile_def get_or_null_def f requires_volatile_def features_of_def guard_else_def text_ok_def
          opt_str_def lifetime_us_def VOLATILE_LIFETIME_US_def MAX_VOLATILE_LIFETIME_S_def require_def)
  qed
  show ?thesis
    using d rec texts ids given features life vol dur volatile
    by (auto simp: envelope_shape_def get_or_null_def f delivery_of_def require_def guard_else_def)
qed

definition arrives_in_time :: "string \<Rightarrow> int \<Rightarrow> int \<Rightarrow> bool" where
  "arrives_in_time delivery t current \<longleftrightarrow>
     t - 60000000 \<le> current \<and> current < (t + lifetime_us delivery) div 1000 * 1000 \<and> (delivery = ''volatile'' \<longrightarrow> t - 4000000 \<le> current)"

lemma made_envelope_verifies:
  assumes "\<And>m. dr_ed_verify d (id_public me) (id_sign me m) m" and "1 \<le> length (id_kid me)" and "length (id_kid me) \<le> 128"
    and "make_envelope (dr_canon d) sha me draw t kind (dr_system_id d) payload conversation causation delivery (Some (dr_instance_id d)) = Inr env"
    and "message_ok draw kind (dr_system_id d) conversation causation delivery (Some (dr_instance_id d))"
    and "length (sha (id_public me)) = 32" and "fits (dr_canon d) env" and "arrives_in_time delivery t (ig_now s)"
    and "harness_peer (ig_trust s) (ig_now s div 1000) (system_id_of sha (id_public me)) = Inr p"
    and "av_public_key p = Some (b64 (id_public me))" and "av_kid p = Some (id_kid me)"
    and "run_prog (take_token (delivery = ''volatile'') (system_id_of sha (id_public me))) s = (s', True)"
  shows "\<exists>content. run_prog (verify_envelope d (JObj env)) s = (s', Inr (env, p, t div 1000 * 1000, (t + lifetime_us delivery) div 1000 * 1000, content))"
proof -
  obtain content where c: "dr_canon d (JObj (unsigned_fields env)) = Some content" and dl: "delivery \<in> {''volatile'', ''durable''}"
    and f: "map_of env ''signature'' = Some (JObj [(''alg'', JStr ''Ed25519''), (''kid'', JStr (id_kid me)), (''value'', JStr (b64 (id_sign me content)))])"
      "map_of env ''from'' = Some (JStr (system_id_of sha (id_public me)))" "map_of env ''to'' = Some (JStr (dr_system_id d))"
    and vol: "delivery = ''volatile'' \<longrightarrow> map_of env ''delivery'' = Some (JStr ''volatile'') \<and> map_of env ''receiver_instance'' = Some (opt_str (Some (dr_instance_id d)))"
    and dur: "delivery = ''durable'' \<longrightarrow> map_of env ''delivery'' = None"
    using make_envelope_lookup [OF assms(4)] by blast
  let ?i = "t div 1000 * 1000" and ?e = "(t + lifetime_us delivery) div 1000 * 1000"
  have shape: "envelope_shape (dr_canon d) (JObj env) = Inr (?i, ?e, content)" by (rule made_envelope_shape [OF assms(4,5,6,7) c])
  have isv: "is_volatile env = (delivery = ''volatile'')" using dl vol dur by (auto simp: is_volatile_def)
  have i: "?i \<le> t" by presburger
  have e: "delivery = ''volatile'' \<Longrightarrow> ?e \<le> t + 1000000" by (simp add: lifetime_us_def VOLATILE_LIFETIME_US_def)
  have now: "?i \<le> ig_now s + 60000000" "ig_now s < ?e" "delivery = ''volatile'' \<Longrightarrow> ?e \<le> ig_now s + 5000000"
    using assms(8) i e unfolding arrives_in_time_def by linarith+
  have inst: "delivery = ''volatile'' \<Longrightarrow> get_or_null env ''receiver_instance'' = JStr (dr_instance_id d)"
    using vol by (simp add: get_or_null_def opt_str_def)
  have times: "check_times d env (is_volatile env) ?i ?e (ig_now s) = Inr ()"
    using now inst by (simp add: check_times_def isv guard_else_def MAX_CLOCK_SKEW_SECONDS_def MAX_VOLATILE_LIFETIME_S_def)
  have sig: "check_signature d env content p = Inr ()"
    unfolding check_signature_def using assms(10,11) by (simp add: signed_verifies [where ed_verify = "dr_ed_verify d", OF assms(1,2,3) _ f(1)])
  have fr: "text_field env ''from'' = system_id_of sha (id_public me)" "get_or_null env ''to'' = JStr (dr_system_id d)"
    by (simp_all add: text_field_def get_or_null_def f)
  have "run_prog (verify_envelope d (JObj env)) s = (s', Inr (env, p, ?i, ?e, content))"
    using assms(9,12) by (simp add: verify_envelope_def shape fr times [unfolded isv] sig see_def isv)
  then show ?thesis by blast
qed

lemma hello_stores_card:
  assumes "hello canon ed_verify sha cfg db t (JObj kvs) = (db', Inr reply)"
    and "verify_id_card canon ed_verify sha t (JObj kvs) = Inr kvs" and "distinct (map pe_peer_id (td_peers db))"
    and "peers_get db' (text_field kvs ''system_id'') = Some p"
  shows "distinct (map pe_peer_id (td_peers db'))" and "pe_card p = card_of kvs"
proof -
  let ?a = "text_field kvs ''system_id''"
  obtain code where up: "upsert_pending_or_seen db ?a (card_of kvs) code (t div 1000) DEFAULT_PREFIXES = Inr db'"
    using assms(1,2) by (auto simp: hello_def Let_def split: if_splits sum.splits)
  show dis: "distinct (map pe_peer_id (td_peers db'))" by (rule upsert_distinct [OF up assms(3)])
  have "p \<in> set (td_peers db')" "pe_peer_id p = ?a" using assms(4) peers_get_Some_iff [OF dis] by auto
  then show "pe_card p = card_of kvs" using upsert_row [OF up assms(3)] by blast
qed

lemma confirm_pairs:
  assumes "confirm_peer hx gen db t (JStr a) code scope_list = (db', Inr row)" and "distinct (map pe_peer_id (td_peers db))"
    and "now < t div 1000 + PEER_PAIRING_VALIDITY_MS"
  shows "\<exists>p v. peers_get db a = Some p \<and> harness_peer db' now a = Inr v \<and>
    av_public_key v = Some (card_public_key (pe_card p)) \<and> av_kid v = Some (card_kid (pe_card p))"
proof -
  let ?exp = "t div 1000 + PEER_PAIRING_VALIDITY_MS" and ?sc = "map_option (\<lambda>v. case v of JList xs \<Rightarrow> feature_names xs | _ \<Rightarrow> []) scope_list"
  obtain c where c: "peers_confirm hx gen db a c (t div 1000) ?exp ?sc = (db', Some row)"
    using assms(1) unfolding confirm_peer_def by (auto split: sum.splits json.splits prod.splits option.splits)
  then obtain p where p: "peers_get db a = Some p" "pe_pair_code p = c" by (auto simp: peers_confirm_def split: option.splits if_splits)
  let ?f = "\<lambda>r. case ?sc of None \<Rightarrow> r\<lparr>pe_state := Paired, pe_paired_at := Some (t div 1000), pe_expires_at := Some ?exp\<rparr>
        | Some ps \<Rightarrow> r\<lparr>pe_state := Paired, pe_paired_at := Some (t div 1000), pe_expires_at := Some ?exp, pe_prefixes := ps\<rparr>"
  have peers: "td_peers db' = update_where (\<lambda>r. pe_peer_id r = a) ?f (td_peers db)"
    and rev: "td_revocations db' = filter (\<lambda>r. rv_peer_id r \<noteq> a) (td_revocations db)"
    using c p by (auto simp: peers_confirm_def Let_def split: option.splits)
  have f: "pe_peer_id (?f r) = pe_peer_id r" "pe_card (?f r) = pe_card r" "pe_state (?f r) = Paired" "pe_expires_at (?f r) = Some ?exp" for r
    by (simp_all split: option.split)
  have "map pe_peer_id (td_peers db') = map pe_peer_id (td_peers db)" unfolding peers by (rule map_update_where) (rule f(1))
  then have dis: "distinct (map pe_peer_id (td_peers db'))" using assms(2) by simp
  have mem: "p \<in> set (td_peers db)" "pe_peer_id p = a" using p(1) peers_get_Some_iff [OF assms(2)] by auto
  then have "?f p \<in> set (td_peers db')" unfolding peers set_update_where by force
  then obtain q where q: "q \<in> set (td_peers db')" "pe_peer_id q = a" "pe_card q = pe_card p" "pe_state q = Paired" "pe_expires_at q = Some ?exp"
    using f [of p] mem(2) by blast
  have "\<not> is_revoked db' a" by (simp add: is_revoked_def rev list_ex_iff)
  then have "harness_peer db' now a = Inr \<lparr>av_state = Some Paired, av_expires_at = Some ?exp, av_revoked = False,
      av_public_key = Some (card_public_key (pe_card p)), av_kid = Some (card_kid (pe_card p)), av_prefixes = pe_prefixes q\<rparr>"
    unfolding harness_peer_Inr_iff [OF dis] using assms(3) q by (intro bexI [OF _ q(1)]) simp
  with p(1) show ?thesis by fastforce
qed

text \<open>
  C28. From the handshake to the message: when a system has shown its own ID card to another, the other has answered the hello and its
  operator has confirmed the pairing, every envelope the first makes for the second, durable or volatile, passes the second's verification
  while the pairing and the envelope live and the rate limit allows it, whatever else was paired or revoked before. No setting of clocks
  within the tolerated skew and no choice of scopes can lock an honest peer out.
\<close>

theorem paired_envelope_verifies:
  fixes s :: "('h, 'w) ingress" and d :: "'w door"
  assumes "\<And>m. dr_ed_verify d (id_public (si_me peer)) (id_sign (si_me peer) m) m" and "card_fields_ok sha peer"
    and "id_card (dr_canon d) sha peer t\<^sub>0 = Inr kvs" and "fits (dr_canon d) kvs"
    and "t\<^sub>0 - 60000000 \<le> t\<^sub>1" and "t\<^sub>1 < (t\<^sub>0 + CARD_LIFETIME_US) div 1000 * 1000"
    and "reachable (\<lambda>db. db = trust_empty) (pairing_step (dr_canon d) (dr_ed_verify d) sha cfg hx gen) db"
    and "hello (dr_canon d) (dr_ed_verify d) sha cfg db t\<^sub>1 (JObj kvs) = (db\<^sub>1, Inr reply)"
    and "confirm_peer hx gen db\<^sub>1 t\<^sub>2 (JStr (system_id_of sha (id_public (si_me peer)))) code scope_list = (db\<^sub>2, Inr row)"
    and "make_envelope (dr_canon d) sha (si_me peer) draw t kind (dr_system_id d) payload conversation causation delivery (Some (dr_instance_id d)) = Inr env"
    and "message_ok draw kind (dr_system_id d) conversation causation delivery (Some (dr_instance_id d))" and "fits (dr_canon d) env"
    and "ig_trust s = db\<^sub>2" and "ig_now s div 1000 < t\<^sub>2 div 1000 + PEER_PAIRING_VALIDITY_MS" and "arrives_in_time delivery t (ig_now s)"
    and "run_prog (take_token (delivery = ''volatile'') (system_id_of sha (id_public (si_me peer)))) s = (s', True)"
  shows "\<exists>p content. run_prog (verify_envelope d (JObj env)) s =
    (s', Inr (env, p, t div 1000 * 1000, (t + lifetime_us delivery) div 1000 * 1000, content))"
proof -
  let ?a = "system_id_of sha (id_public (si_me peer))"
  have dis: "distinct (map pe_peer_id (td_peers db))" using pairing.reachable_inv [OF assms(7)] by (simp add: keys_bound_def)
  have own: "verify_id_card (dr_canon d) (dr_ed_verify d) sha t\<^sub>1 (JObj kvs) = Inr kvs" "text_field kvs ''system_id'' = ?a"
      "card_public_key (card_of kvs) = b64 (id_public (si_me peer))" "card_kid (card_of kvs) = id_kid (si_me peer)"
    using own_card_verifies [where ed_verify = "dr_ed_verify d", OF assms(1-6)] by simp_all
  have dis1: "distinct (map pe_peer_id (td_peers db\<^sub>1))"
    using hello_keys_bound [OF pairing.reachable_inv [OF assms(7)] assms(8)] by (simp add: keys_bound_def)
  obtain p v where p: "peers_get db\<^sub>1 ?a = Some p" and v: "harness_peer db\<^sub>2 (ig_now s div 1000) ?a = Inr v"
      "av_public_key v = Some (card_public_key (pe_card p))" "av_kid v = Some (card_kid (pe_card p))"
    using confirm_pairs [OF assms(9) dis1 assms(14)] by blast
  have "pe_card p = card_of kvs" using hello_stores_card(2) [OF assms(8) own(1) dis] p own(2) by simp
  then have key: "av_public_key v = Some (b64 (id_public (si_me peer)))" "av_kid v = Some (id_kid (si_me peer))" using v own by simp_all
  have ok: "1 \<le> length (id_kid (si_me peer))" "length (id_kid (si_me peer)) \<le> 128" "length (sha (id_public (si_me peer))) = 32"
    using assms(2) by (simp_all add: card_fields_ok_def)
  show ?thesis
    using made_envelope_verifies [where d = d and s = s and s' = s' and p = v, OF assms(1) ok(1,2) assms(10,11) ok(3) assms(12,15) _ key assms(16)] v(1) assms(13)
    by blast
qed

section \<open>Two systems that pair\<close>

definition demo_site :: "8 word \<Rightarrow> site" where
  "demo_site n = \<lparr>si_me = \<lparr>id_public = replicate 32 n, id_kid = ''k'', id_sign = (\<lambda>m. m)\<rparr>, si_instance_id = ''i'', si_display_name = ''d'',
     si_base_url = '''', si_runtime = JNull, si_relay_public = replicate 32 n, si_capabilities = JNull\<rparr>"

definition demo_canon :: "json \<Rightarrow> bytes option" where
  "demo_canon v = Some []"

definition demo_receiver :: "nat door" where
  "demo_receiver = \<lparr>dr_system_id = system_id_of id (replicate 32 2), dr_instance_id = ''i'', dr_canon = demo_canon, dr_ed_verify = (\<lambda>_ _ _. True),
     dr_digest = (\<lambda>_. ''d''), dr_handler = (\<lambda>_ _ _. demo_count)\<rparr>"

abbreviation demo_noon :: int where
  "demo_noon \<equiv> 1704067200000000"

lemma demo_representable: "representable (demo_noon div 1000)" "representable ((demo_noon + CARD_LIFETIME_US) div 1000)"
  "representable (demo_noon div 1000 + PEER_PAIRING_VALIDITY_MS)" "representable ((demo_noon + DURABLE_LIFETIME_US) div 1000)"
  by (simp_all add: representable_def DAY_MS_def epoch_ordinal_def ymd2ord_def days_before_year_def CARD_LIFETIME_US_def PEER_PAIRING_VALIDITY_MS_def DURABLE_LIFETIME_US_def)

lemma json_texts [simp]:
  "sum_list (map (json_nodes \<circ> JStr) xs) = length xs"
  "foldr max (map ((\<lambda>x. Suc (json_depth x)) \<circ> JStr) xs) 0 = (if xs = [] then 0 else 1)" "list_all (numbers_ok \<circ> JStr) xs"
  by (induction xs) (auto simp: number_ok_def)

lemma demo_support:
  "json_nodes (wire_support Ingress.DISPATCH) \<le> 200" "json_depth (wire_support Ingress.DISPATCH) \<le> 4" "numbers_ok (wire_support Ingress.DISPATCH)"
proof -
  have c: "card SUPPORTED_FEATURES = 2" "card VOLATILE_KINDS = 2" by (simp_all add: SUPPORTED_FEATURES_def VOLATILE_FEATURE_def VOLATILE_KINDS_def)
  have n: "length Ingress.DISPATCH \<le> 40" by (simp add: Ingress.DISPATCH_def)
  show "json_nodes (wire_support Ingress.DISPATCH) \<le> 200" using c n by (simp add: wire_support_def)
  show "json_depth (wire_support Ingress.DISPATCH) \<le> 4" by (simp add: wire_support_def max_def)
  show "numbers_ok (wire_support Ingress.DISPATCH)"
    by (simp add: wire_support_def number_ok_def safe_integer_def list_all_iff MAX_VOLATILE_LIFETIME_S_def MAX_RECORD_BYTES_def MAX_JSON_DEPTH_def MAX_JSON_NODES_def)
qed

lemma demo_layers: "json_nodes layers_json \<le> 200" "json_depth layers_json \<le> 4" "numbers_ok layers_json"
proof -
  have "length (sort (map (\<lambda>i. py_lower (interaction_name i)) (filter (\<lambda>i. i \<in> S) all_interactions))) \<le> 6" for S
    using length_filter_le [of "\<lambda>i. i \<in> S" all_interactions] by (simp add: all_interactions_def)
  note b = this [of "PERMITTED_INTERACTIONS L1_SAFETY"] this [of "PERMITTED_INTERACTIONS L2_AUTONOMY"] this [of "PERMITTED_INTERACTIONS L3_FLEET"] this [of "PERMITTED_INTERACTIONS L4_ENTERPRISE"]
  show "json_nodes layers_json \<le> 200" using b by (simp add: layers_json_def describe_layers_def all_layers_def del: PERMITTED_INTERACTIONS.simps)
  show "json_depth layers_json \<le> 4" by (simp add: layers_json_def describe_layers_def all_layers_def max_def del: PERMITTED_INTERACTIONS.simps)
  show "numbers_ok layers_json"
    by (simp add: layers_json_def describe_layers_def all_layers_def number_ok_def safe_integer_def list_all_iff del: PERMITTED_INTERACTIONS.simps)
qed

lemma demo_card_fits: "\<exists>kvs. id_card demo_canon id (demo_site n) demo_noon = Inr kvs \<and> fits demo_canon kvs"
proof -
  have s: "stamp_us demo_noon = Inr (JStr (stamp (demo_noon div 1000)))"
      "stamp_us (demo_noon + CARD_LIFETIME_US) = Inr (JStr (stamp ((demo_noon + CARD_LIFETIME_US) div 1000)))"
    using demo_representable by (simp_all add: stamp_us_def)
  show ?thesis
    using demo_support demo_layers unfolding id_card_def s
    by (simp add: sign_def demo_canon_def fits_def validate_json_exact MAX_JSON_NODES_def MAX_JSON_DEPTH_def MAX_RECORD_BYTES_def number_ok_def get_or_null_def demo_site_def)
qed

lemma demo_pairs:
  "\<exists>kvs db\<^sub>1 reply db\<^sub>2 row. id_card demo_canon id (demo_site 1) demo_noon = Inr kvs \<and> fits demo_canon kvs \<and>
     hello demo_canon (\<lambda>_ _ _. True) id (demo_site 2) (trust_empty :: nat trust_db) demo_noon (JObj kvs) = (db\<^sub>1, Inr reply) \<and>
     confirm_peer (\<lambda>_. 0) 0 db\<^sub>1 demo_noon (JStr (system_id_of id (id_public (si_me (demo_site 1))))) (get_or_null reply ''pair_code'') None = (db\<^sub>2, Inr row)"
proof -
  let ?a = "system_id_of id (id_public (si_me (demo_site 1)))" and ?b = "system_id_of id (id_public (si_me (demo_site 2)))"
  obtain kvs own where kvs: "id_card demo_canon id (demo_site 1) demo_noon = Inr kvs" "fits demo_canon kvs" and own: "id_card demo_canon id (demo_site 2) demo_noon = Inr own"
    using demo_card_fits by blast
  have "card_fields_ok id (demo_site 1)" by (simp add: card_fields_ok_def demo_site_def)
  then have v: "verify_id_card demo_canon (\<lambda>_ _ _. True) id demo_noon (JObj kvs) = Inr kvs" "text_field kvs ''system_id'' = ?a"
    using own_card_verifies [of "\<lambda>_ _ _. True" "demo_site 1" id demo_canon demo_noon kvs demo_noon] kvs by (simp_all add: CARD_LIFETIME_US_def)
  have ne: "?a \<noteq> ?b" by (simp add: system_id_of_def demo_site_def)
  let ?code = "fingerprint id ?b ?a"
  obtain db1 where up: "upsert_pending_or_seen (trust_empty :: nat trust_db) ?a (card_of kvs) ?code (demo_noon div 1000) DEFAULT_PREFIXES = Inr db1"
    and row: "td_peers db1 = [\<lparr>pe_peer_id = ?a, pe_card = card_of kvs, pe_state = Pending, pe_prefixes = DEFAULT_PREFIXES, pe_pair_code = ?code,
       pe_seen_at = demo_noon div 1000, pe_paired_at = None, pe_expires_at = None\<rparr>]"
    by (simp add: upsert_pending_or_seen_def trust_empty_def peers_get_def max_pending_def)
  obtain reply where reply: "hello_reply demo_canon id (demo_site 2) demo_noon ?code True = Inr reply" "get_or_null reply ''pair_code'' = JStr ?code"
    using demo_representable(1) by (simp add: hello_reply_def own stamp_us_def sign_def demo_canon_def get_or_null_def)
  have h: "hello demo_canon (\<lambda>_ _ _. True) id (demo_site 2) (trust_empty :: nat trust_db) demo_noon (JObj kvs) = (db1, Inr reply)"
    using v ne reply(1) up row by (simp add: hello_def Let_def peers_get_def)
  have len: "length ?a = 55" "1 \<le> length ?code" "length ?code \<le> 256"
  proof -
    show "length ?a = 55" by (simp add: system_id_of_def demo_site_def)
    have "12 \<le> length (py_join (CHR ''|'') (sort [?b, ?a]))" by (simp add: system_id_of_def)
    moreover have "length xs \<le> length (utf8 xs)" for xs by (induction xs) (simp_all add: utf8_def utf8_char_def Let_def)
    ultimately have "12 \<le> length (utf8 (py_join (CHR ''|'') (sort [?b, ?a])))" using order_trans by blast
    then show "1 \<le> length ?code" "length ?code \<le> 256" by (simp_all add: fingerprint_def)
  qed
  have "\<exists>db2 r. confirm_peer (\<lambda>_. 0) 0 db1 demo_noon (JStr ?a) (JStr ?code) None = (db2, Inr r)"
    using len demo_representable(3) row
    by (simp add: confirm_peer_def text_ok_def require_def guard_else_def peers_confirm_def peers_get_def Let_def)
  with kvs h reply(2) show ?thesis by metis
qed

definition demo_draws :: draws where
  "demo_draws = \<lparr>dw_message_id = ''m'', dw_conversation_id = ''c'', dw_nonce = replicate 12 0\<rparr>"

lemma demo_made:
  "\<exists>env. make_envelope demo_canon id (si_me (demo_site 1)) demo_draws demo_noon ''task.status'' (dr_system_id demo_receiver) [] None None ''durable'' (Some ''i'') = Inr env \<and>
     fits demo_canon env"
proof -
  have s: "stamp_us demo_noon = Inr (JStr (stamp (demo_noon div 1000)))"
      "stamp_us (demo_noon + DURABLE_LIFETIME_US) = Inr (JStr (stamp ((demo_noon + DURABLE_LIFETIME_US) div 1000)))"
    using demo_representable by (simp_all add: stamp_us_def)
  show ?thesis
    unfolding make_envelope_def s Let_def
    by (simp add: sign_def demo_canon_def fits_def validate_json_exact MAX_JSON_NODES_def MAX_JSON_DEPTH_def MAX_RECORD_BYTES_def number_ok_def get_or_null_def opt_str_def)
qed

theorem paired_envelope_verifies_witness:
  "\<exists>(s :: (nat, nat) ingress) s' env p r. run_prog (verify_envelope demo_receiver (JObj env)) s = (s', Inr (env, p, demo_noon, r))"
proof -
  obtain kvs db1 reply db2 row where card: "id_card demo_canon id (demo_site 1) demo_noon = Inr kvs" "fits demo_canon kvs"
    and h: "hello demo_canon (\<lambda>_ _ _. True) id (demo_site 2) (trust_empty :: nat trust_db) demo_noon (JObj kvs) = (db1, Inr reply)"
    and c: "confirm_peer (\<lambda>_. 0) 0 db1 demo_noon (JStr (system_id_of id (id_public (si_me (demo_site 1))))) (get_or_null reply ''pair_code'') None = (db2, Inr row)"
    using demo_pairs by blast
  obtain env where env: "make_envelope demo_canon id (si_me (demo_site 1)) demo_draws demo_noon ''task.status'' (dr_system_id demo_receiver) [] None None ''durable'' (Some ''i'') = Inr env"
      "fits demo_canon env"
    using demo_made by blast
  define s where "s = (demo_state [] {})\<lparr>ig_now := demo_noon, ig_trust := db2\<rparr>"
  have d: "dr_canon demo_receiver = demo_canon" "dr_ed_verify demo_receiver = (\<lambda>_ _ _. True)" "dr_instance_id demo_receiver = ''i''"
    by (simp_all add: demo_receiver_def)
  have token: "run_prog (take_token (''durable'' = ''volatile'') (system_id_of id (id_public (si_me (demo_site 1))))) s =
      (s\<lparr>ig_limiter := fst (allow demo_limiter 0 (system_id_of id (id_public (si_me (demo_site 1)))))\<rparr>, True)"
    by (simp add: take_token_def s_def demo_state_def allow_def demo_limiter_def consume_def Let_def)
  have fields: "card_fields_ok id (demo_site 1)" by (simp add: card_fields_ok_def demo_site_def)
  have ok: "message_ok demo_draws ''task.status'' (dr_system_id demo_receiver) None None ''durable'' (Some (dr_instance_id demo_receiver))"
    by (simp add: message_ok_def demo_draws_def demo_receiver_def system_id_of_ok)
  have r: "reachable (\<lambda>db. db = trust_empty) (pairing_step demo_canon (\<lambda>_ _ _. True) id (demo_site 2) (\<lambda>_. 0) 0) (trust_empty :: nat trust_db)"
    by (rule reachable_init) simp
  have "\<exists>p content. run_prog (verify_envelope demo_receiver (JObj env)) s =
      (s\<lparr>ig_limiter := fst (allow demo_limiter 0 (system_id_of id (id_public (si_me (demo_site 1)))))\<rparr>,
       Inr (env, p, demo_noon div 1000 * 1000, (demo_noon + lifetime_us ''durable'') div 1000 * 1000, content))"
    by (rule paired_envelope_verifies [where d = demo_receiver and sha = id and peer = "demo_site 1" and t\<^sub>0 = demo_noon and t\<^sub>1 = demo_noon and t\<^sub>2 = demo_noon,
          OF _ fields _ _ _ _ _ _ c _ ok])
       (use card h env r token in \<open>simp_all add: d s_def arrives_in_time_def CARD_LIFETIME_US_def lifetime_us_def DURABLE_LIFETIME_US_def PEER_PAIRING_VALIDITY_MS_def\<close>)
  then show ?thesis by fastforce
qed


end
