(* ===== verification/Safety_Case.thy ===== *)
theory Safety_Case
  imports Json_Text "HOL-Library.AList"
begin

text \<open>
  The executable safety case (\<^verbatim>\<open>src/fasp_harness/safety/case.py\<close>): claims, evidence, the structural checks with the search for
  cycles, the run that executes evidence once and rolls verdicts up, and the report.

  A check is a function of the state \<open>'w\<close> of the world it observes, which it may change; it returns a result or raises, which is the
  class and the text of the exception. \<^verbatim>\<open>repr\<close> of a string is a parameter of the texts.
\<close>

section \<open>Claims and evidence\<close>

datatype Verdict = SUPPORTED | NOT_SUPPORTED | INCONCLUSIVE | DELEGATED | UNDEVELOPED | NOT_APPLICABLE

fun verdict_value :: "Verdict \<Rightarrow> string" where
  "verdict_value SUPPORTED = ''supported''"
| "verdict_value NOT_SUPPORTED = ''not_supported''"
| "verdict_value INCONCLUSIVE = ''inconclusive''"
| "verdict_value DELEGATED = ''delegated''"
| "verdict_value UNDEVELOPED = ''undeveloped''"
| "verdict_value NOT_APPLICABLE = ''not_applicable''"

definition is_failure :: "Verdict \<Rightarrow> bool" where
  "is_failure v = (v \<in> {NOT_SUPPORTED, INCONCLUSIVE})"

record EvidenceResult =
  er_verdict :: Verdict
  er_detail :: string
  er_measurements :: "(string \<times> json) list"

definition er_supported :: "string \<Rightarrow> (string \<times> json) list \<Rightarrow> EvidenceResult" where
  "er_supported detail ms = \<lparr>er_verdict = SUPPORTED, er_detail = detail, er_measurements = ms\<rparr>"

definition er_failed :: "string \<Rightarrow> (string \<times> json) list \<Rightarrow> EvidenceResult" where
  "er_failed detail ms = \<lparr>er_verdict = NOT_SUPPORTED, er_detail = detail, er_measurements = ms\<rparr>"

definition er_inconclusive :: "string \<Rightarrow> (string \<times> json) list \<Rightarrow> EvidenceResult" where
  "er_inconclusive detail ms = \<lparr>er_verdict = INCONCLUSIVE, er_detail = detail, er_measurements = ms\<rparr>"

definition er_to_dict :: "EvidenceResult \<Rightarrow> (string \<times> json) list" where
  "er_to_dict r = [(''verdict'', JStr (verdict_value (er_verdict r))), (''detail'', JStr (er_detail r)), (''measurements'', JObj (er_measurements r))]"

record 'w Evidence =
  evd_id :: string
  evd_description :: string
  evd_kind :: string
  evd_run :: "'w \<Rightarrow> 'w \<times> ((string \<times> string) + EvidenceResult)"
  evd_owner :: string

definition execute :: "'w Evidence \<Rightarrow> 'w \<Rightarrow> 'w \<times> EvidenceResult" where
  "execute e w =
     (case evd_run e w of
        (w1, Inr r) \<Rightarrow> (w1, r)
      | (w1, Inl (cls, txt)) \<Rightarrow> (w1, er_inconclusive (''Evidence check raised '' @ cls @ '': '' @ take 160 txt) []))"

record Claim =
  cl_id :: string
  cl_statement :: string
  cl_strategy :: string
  cl_context :: "string list"
  cl_assumptions :: "string list"
  cl_sub_claims :: "string list"
  cl_evidence :: "string list"
  cl_undeveloped :: bool
  cl_delegated_to :: "string option"
  cl_rationale :: string

definition plain_claim :: "string \<Rightarrow> string \<Rightarrow> Claim" where
  "plain_claim i s = \<lparr>cl_id = i, cl_statement = s, cl_strategy = '''', cl_context = [], cl_assumptions = [], cl_sub_claims = [],
     cl_evidence = [], cl_undeveloped = False, cl_delegated_to = None, cl_rationale = ''''\<rparr>"

record ClaimOutcome =
  co_claim :: Claim
  co_verdict :: Verdict
  co_detail :: string
  co_evidence :: "(string \<times> EvidenceResult) list"
  co_depth :: nat

definition optional_text :: "string option \<Rightarrow> json" where
  "optional_text x = (case x of None \<Rightarrow> JNull | Some s \<Rightarrow> JStr s)"

definition co_to_dict :: "ClaimOutcome \<Rightarrow> json" where
  "co_to_dict o' = JObj
     [(''id'', JStr (cl_id (co_claim o'))), (''statement'', JStr (cl_statement (co_claim o'))), (''verdict'', JStr (verdict_value (co_verdict o'))),
      (''detail'', JStr (co_detail o')), (''delegated_to'', optional_text (cl_delegated_to (co_claim o'))), (''depth'', JInt (int (co_depth o'))),
      (''evidence'', JList (map (\<lambda>(i, r). JObj ((''id'', JStr i) # er_to_dict r)) (co_evidence o')))]"

section \<open>The report\<close>

record SafetyCaseReport =
  rep_title :: string
  rep_generated_at :: string
  rep_outcomes :: "ClaimOutcome list"
  rep_root :: string

definition all_verdicts :: "Verdict list" where
  "all_verdicts = [SUPPORTED, NOT_SUPPORTED, INCONCLUSIVE, DELEGATED, UNDEVELOPED, NOT_APPLICABLE]"

definition counts :: "SafetyCaseReport \<Rightarrow> (string \<times> nat) list" where
  "counts r = map (\<lambda>v. (verdict_value v, count_where (\<lambda>o'. co_verdict o' = v) (rep_outcomes r))) all_verdicts"

definition failures :: "SafetyCaseReport \<Rightarrow> ClaimOutcome list" where
  "failures r = filter (\<lambda>o'. is_failure (co_verdict o')) (rep_outcomes r)"

definition delegated :: "SafetyCaseReport \<Rightarrow> ClaimOutcome list" where
  "delegated r = filter (\<lambda>o'. co_verdict o' = DELEGATED) (rep_outcomes r)"

definition undeveloped :: "SafetyCaseReport \<Rightarrow> ClaimOutcome list" where
  "undeveloped r = filter (\<lambda>o'. co_verdict o' = UNDEVELOPED) (rep_outcomes r)"

definition root_verdict :: "SafetyCaseReport \<Rightarrow> Verdict" where
  "root_verdict r = (case find (\<lambda>o'. cl_id (co_claim o') = rep_root r) (rep_outcomes r) of Some o' \<Rightarrow> co_verdict o' | None \<Rightarrow> INCONCLUSIVE)"

definition certifiable :: "SafetyCaseReport \<Rightarrow> bool" where
  "certifiable r = False"

definition rep_verdict :: "SafetyCaseReport \<Rightarrow> string" where
  "rep_verdict r =
     (if failures r \<noteq> [] then ''argument incomplete: '' @ nat_text (length (failures r)) @ '' claim(s) not supported''
      else if undeveloped r \<noteq> []
      then ''argument partial: '' @ nat_text (length (undeveloped r)) @ '' claim(s) undeveloped, '' @ nat_text (length (delegated r)) @ '' delegated to certified equipment''
      else ''argued, not independently assessed: '' @ nat_text (length (delegated r)) @ '' claim(s) delegated to certified equipment'')"

definition CERTIFICATION_NOTE :: string where
  "CERTIFICATION_NOTE = ''This report is a self-assessment produced by the system about itself. It is not a certificate, '' @
     ''not an independent assessment, and not evidence of conformity to ISO 13849, IEC 61508, IEC 62061, '' @
     ''ISO 3691-4, or ANSI/RIA R15.08. Claims marked 'delegated' are discharged by certified equipment '' @
     ''outside this software and by that equipment's own assessment, not by anything here.''"

definition rep_to_dict :: "SafetyCaseReport \<Rightarrow> json" where
  "rep_to_dict r = JObj
     [(''title'', JStr (rep_title r)), (''generated_at'', JStr (rep_generated_at r)), (''root'', JStr (rep_root r)), (''verdict'', JStr (rep_verdict r)),
      (''certifiable'', JBool (certifiable r)), (''certification_note'', JStr CERTIFICATION_NOTE),
      (''counts'', JObj (map (\<lambda>(k, n). (k, JInt (int n))) (counts r))), (''claims'', JList (map co_to_dict (rep_outcomes r)))]"

fun symbol :: "Verdict \<Rightarrow> string" where
  "symbol SUPPORTED = ''[ok]''"
| "symbol NOT_SUPPORTED = ''[FAIL]''"
| "symbol INCONCLUSIVE = ''[????]''"
| "symbol DELEGATED = ''[dlg]''"
| "symbol UNDEVELOPED = ''[----]''"
| "symbol NOT_APPLICABLE = ''[n/a]''"

definition render_outcome :: "ClaimOutcome \<Rightarrow> string list" where
  "render_outcome o' =
     (let indent = concat (replicate (co_depth o') ''  '')
      in [symbol (co_verdict o') @ '' '' @ indent @ cl_id (co_claim o') @ '': '' @ cl_statement (co_claim o')] @
         (if co_detail o' \<noteq> [] then [''       '' @ indent @ co_detail o'] else []) @
         map (\<lambda>(i, r). ''       '' @ indent @ ''- '' @ i @ '': '' @ er_detail r) (co_evidence o'))"

definition render_text :: "SafetyCaseReport \<Rightarrow> string" where
  "render_text r =
     (let n = (\<lambda>v. nat_text (count_where (\<lambda>o'. co_verdict o' = v) (rep_outcomes r)))
      in py_join (CHR 0x0A)
        ([rep_title r, replicate (length (rep_title r)) (CHR ''=''), ''generated '' @ rep_generated_at r, ''''] @
         concat (map render_outcome (rep_outcomes r)) @
         ['''', ''supported '' @ n SUPPORTED @ ''  delegated '' @ n DELEGATED @ ''  undeveloped '' @ n UNDEVELOPED @ ''  '' @
            ''not supported '' @ n NOT_SUPPORTED @ ''  inconclusive '' @ n INCONCLUSIVE,
          ''VERDICT: '' @ rep_verdict r, '''', CERTIFICATION_NOTE]))"

section \<open>The case and its structure\<close>

record 'w SafetyCase =
  sc_title :: string
  sc_root :: string
  sc_claims :: "(string \<times> Claim) list"
  sc_evidence :: "(string \<times> 'w Evidence) list"

definition new_case :: "string \<Rightarrow> string \<Rightarrow> 'w SafetyCase" where
  "new_case title root_id = \<lparr>sc_title = title, sc_root = root_id, sc_claims = [], sc_evidence = []\<rparr>"

definition claim :: "Claim \<Rightarrow> 'w SafetyCase \<Rightarrow> 'w SafetyCase" where
  "claim c sc = sc\<lparr>sc_claims := AList.update (cl_id c) c (sc_claims sc)\<rparr>"

definition add_evidence :: "'w Evidence \<Rightarrow> 'w SafetyCase \<Rightarrow> 'w SafetyCase" where
  "add_evidence e sc = sc\<lparr>sc_evidence := AList.update (evd_id e) e (sc_evidence sc)\<rparr>"

definition evidence_for :: "'w SafetyCase \<Rightarrow> string \<Rightarrow> 'w Evidence option" where
  "evidence_for sc i = map_of (sc_evidence sc) i"

definition all_claims :: "'w SafetyCase \<Rightarrow> string list \<Rightarrow> string list result" where
  "all_claims sc ids = (if \<exists>i \<in> set ids. map_of (sc_claims sc) i = None then Inl KeyError else Inr ids)"

datatype problem = Root_missing string | Undefined_claim string string | Undefined_evidence string string | Claim_cycle "string list"

fun arrow_join :: "string list \<Rightarrow> string" where
  "arrow_join [] = ''''"
| "arrow_join [x] = x"
| "arrow_join (x # xs) = x @ '' -> '' @ arrow_join xs"

fun problem_text :: "(string \<Rightarrow> string) \<Rightarrow> problem \<Rightarrow> string" where
  "problem_text repr (Root_missing r) = ''Root claim '' @ repr r @ '' is not defined.''"
| "problem_text repr (Undefined_claim c d) = ''Claim '' @ repr c @ '' references undefined sub-claim '' @ repr d @ ''.''"
| "problem_text repr (Undefined_evidence c e) = ''Claim '' @ repr c @ '' references undefined evidence '' @ repr e @ ''.''"
| "problem_text repr (Claim_cycle trail) = ''Claim cycle: '' @ arrow_join trail"

text \<open>
  The depth-first search. \<^verbatim>\<open>visiting\<close> holds the nodes of the trail, no more and no less: a node is added when the trail is
  extended by it and discarded when the walk returns, so the trail stands for both. \<open>finished\<close> is \<^verbatim>\<open>done\<close>, latest first.
\<close>

definition sub_claims_of :: "(string \<times> Claim) list \<Rightarrow> string \<Rightarrow> string list" where
  "sub_claims_of cs node = (case map_of cs node of Some c \<Rightarrow> cl_sub_claims c | None \<Rightarrow> [])"

lemma trail_shrinks:
  assumes "map_of cs node \<noteq> None" and "node \<notin> set trail"
  shows "card (fst ` set cs - set (trail @ [node])) < card (fst ` set cs - set trail)"
proof -
  have "node \<in> fst ` set cs" using assms(1) by (metis domIff dom_map_of_conv_image_fst)
  with assms(2) have "fst ` set cs - set (trail @ [node]) \<subset> fst ` set cs - set trail" by auto
  then show ?thesis by (rule psubset_card_mono [rotated]) simp
qed

function (sequential) walk :: "(string \<times> Claim) list \<Rightarrow> string list \<Rightarrow> string \<Rightarrow> string list \<times> problem list \<Rightarrow> string list \<times> problem list"
  and walk_each :: "(string \<times> Claim) list \<Rightarrow> string list \<Rightarrow> string list \<Rightarrow> string list \<times> problem list \<Rightarrow> string list \<times> problem list" where
  "walk cs trail node (finished, ps) =
     (if node \<in> set trail then (finished, ps @ [Claim_cycle (trail @ [node])])
      else if node \<in> set finished \<or> map_of cs node = None then (finished, ps)
      else (case walk_each cs (trail @ [node]) (sub_claims_of cs node) (finished, ps) of (finished', ps') \<Rightarrow> (node # finished', ps')))"
| "walk_each cs trail [] st = st"
| "walk_each cs trail (c # rest) st = walk_each cs trail rest (walk cs trail c st)"
  by pat_completeness auto

termination
proof (relation "inv_image (less_than <*lex*> less_than) (\<lambda>x. case x of
      Inl (cs, trail, node, st) \<Rightarrow> (card (fst ` set cs - set trail), 0)
    | Inr (cs, trail, rest, st) \<Rightarrow> (card (fst ` set cs - set trail), Suc (length rest)))", goal_cases)
  case (2 cs trail node finished ps)
  then show ?case using trail_shrinks [of cs node trail] by auto
qed auto

definition find_cycles :: "'w SafetyCase \<Rightarrow> problem list" where
  "find_cycles sc = snd (fold (\<lambda>i st. walk (sc_claims sc) [] i st) (map fst (sc_claims sc)) ([], []))"

definition claim_problems :: "'w SafetyCase \<Rightarrow> Claim \<Rightarrow> problem list" where
  "claim_problems sc c =
     map (Undefined_claim (cl_id c)) (filter (\<lambda>d. map_of (sc_claims sc) d = None) (cl_sub_claims c)) @
     map (Undefined_evidence (cl_id c)) (filter (\<lambda>e. map_of (sc_evidence sc) e = None) (cl_evidence c))"

definition validate :: "'w SafetyCase \<Rightarrow> problem list" where
  "validate sc =
     (if map_of (sc_claims sc) (sc_root sc) = None then [Root_missing (sc_root sc)] else []) @
     concat (map (\<lambda>kv. claim_problems sc (snd kv)) (sc_claims sc)) @ find_cycles sc"

section \<open>Running the case\<close>

fun semi_join :: "string list \<Rightarrow> string" where
  "semi_join [] = ''''"
| "semi_join [x] = x"
| "semi_join (x # xs) = x @ ''; '' @ semi_join xs"

definition argue :: "(string \<times> EvidenceResult) list \<Rightarrow> Verdict list \<Rightarrow> Verdict \<times> string" where
  "argue results children =
     (let failing = map (\<lambda>(i, r). i @ '': '' @ er_detail r) (filter (\<lambda>(i, r). er_verdict r = NOT_SUPPORTED) results);
          n = (\<lambda>v. count_where (\<lambda>x. x = v) children)
      in if failing \<noteq> [] \<or> n NOT_SUPPORTED \<noteq> 0
         then (NOT_SUPPORTED, if failing \<noteq> [] then semi_join failing else nat_text (n NOT_SUPPORTED) @ '' sub-claim(s) not supported.'')
         else if (\<exists>ir \<in> set results. er_verdict (snd ir) = INCONCLUSIVE) \<or> n INCONCLUSIVE \<noteq> 0
         then (INCONCLUSIVE, ''Evidence could not be evaluated.'')
         else (let parts =
                 (if results \<noteq> [] then [nat_text (length results) @ '' evidence item(s) passed''] else []) @
                 (if n DELEGATED \<noteq> 0 then [nat_text (n DELEGATED) @ '' sub-claim(s) delegated''] else []) @
                 (if n UNDEVELOPED \<noteq> 0 then [nat_text (n UNDEVELOPED) @ '' sub-claim(s) undeveloped''] else [])
               in (SUPPORTED, if parts \<noteq> [] then semi_join parts else ''Supported.'')))"

definition roll_up :: "Claim \<Rightarrow> (string \<times> EvidenceResult) list \<Rightarrow> Verdict list \<Rightarrow> Verdict \<times> string" where
  "roll_up c results children =
     (if cl_delegated_to c \<noteq> None \<and> cl_delegated_to c \<noteq> Some ''''
      then (DELEGATED, ''Discharged outside this software by: '' @ the (cl_delegated_to c) @ ''.'')
      else if cl_undeveloped c
      then (UNDEVELOPED, if cl_rationale c \<noteq> [] then cl_rationale c else ''Deliberately not argued here.'')
      else if results = [] \<and> children = [] then (UNDEVELOPED, ''No evidence and no sub-claims.'')
      else argue results children)"

record 'w run_state =
  rs_world :: 'w
  rs_executed :: "(string \<times> EvidenceResult) list"
  rs_outcomes :: "ClaimOutcome list"
  rs_seen :: "string list"

text \<open>The evidence of one claim: what was executed before in this run is not executed again.\<close>

fun gather :: "(string \<times> 'w Evidence) list \<Rightarrow> string list \<Rightarrow> 'w run_state \<Rightarrow> ('w run_state \<times> (string \<times> EvidenceResult) list) result" where
  "gather evs [] st = Inr (st, [])"
| "gather evs (i # rest) st =
     bind_result
       (case map_of (rs_executed st) i of
          Some r \<Rightarrow> Inr (st, r)
        | None \<Rightarrow>
            (case map_of evs i of
               None \<Rightarrow> Inl KeyError
             | Some e \<Rightarrow> (case execute e (rs_world st) of
                   (w1, r) \<Rightarrow> Inr (st\<lparr>rs_world := w1, rs_executed := rs_executed st @ [(i, r)]\<rparr>, r))))
       (\<lambda>(st1, r). bind_result (gather evs rest st1) (\<lambda>(st2, rs). Inr (st2, (i, r) # rs)))"

text \<open>The children in turn, with the evaluation of one of them as a parameter.\<close>

fun each_child :: "(string \<Rightarrow> 'w run_state \<Rightarrow> ('w run_state \<times> Verdict) result) \<Rightarrow> string list \<Rightarrow> 'w run_state \<Rightarrow> ('w run_state \<times> Verdict list) result" where
  "each_child f [] st = Inr (st, [])"
| "each_child f (c # rest) st =
     bind_result (f c st) (\<lambda>(st1, v). bind_result (each_child f rest st1) (\<lambda>(st2, vs). Inr (st2, v # vs)))"

text \<open>
  \<^verbatim>\<open>evaluate\<close>. The number is the recursion depth still allowed; running out of it is Python's \<^verbatim>\<open>RecursionError\<close>. A valid
  case needs no more than one level per claim.
\<close>

fun evaluate :: "nat \<Rightarrow> 'w SafetyCase \<Rightarrow> string \<Rightarrow> nat \<Rightarrow> 'w run_state \<Rightarrow> ('w run_state \<times> Verdict) result" where
  "evaluate 0 sc i depth st = Inl OtherException"
| "evaluate (Suc n) sc i depth st =
     (case map_of (sc_claims sc) i of
        None \<Rightarrow> Inl KeyError
      | Some c \<Rightarrow>
          bind_result (gather (sc_evidence sc) (cl_evidence c) st) (\<lambda>(st1, results).
          bind_result (each_child (\<lambda>d s. evaluate n sc d (depth + 1) s) (cl_sub_claims c) st1) (\<lambda>(st2, children).
          let (v, detail) = roll_up c results children;
              st3 = (if i \<in> set (rs_seen st2) then st2
                     else st2\<lparr>rs_seen := i # rs_seen st2,
                              rs_outcomes := rs_outcomes st2 @ [\<lparr>co_claim = c, co_verdict = v, co_detail = detail, co_evidence = results, co_depth = depth\<rparr>]\<rparr>)
          in Inr (st3, v))))"

definition verify_case :: "(string \<Rightarrow> string) \<Rightarrow> 'w SafetyCase \<Rightarrow> string \<Rightarrow> 'w \<Rightarrow> ('w \<times> SafetyCaseReport) result" where
  "verify_case repr sc now w =
     (let problems = validate sc in
      if problems \<noteq> []
      then (let c = (case map_of (sc_claims sc) (sc_root sc) of Some c \<Rightarrow> c | None \<Rightarrow> plain_claim (sc_root sc) ''Root claim is missing.'')
            in Inr (w, \<lparr>rep_title = sc_title sc, rep_generated_at = now,
                  rep_outcomes = [\<lparr>co_claim = c, co_verdict = INCONCLUSIVE, co_detail = semi_join (map (problem_text repr) (take 5 problems)), co_evidence = [], co_depth = 0\<rparr>],
                  rep_root = sc_root sc\<rparr>))
      else bind_result (evaluate (Suc (length (sc_claims sc))) sc (sc_root sc) 0 \<lparr>rs_world = w, rs_executed = [], rs_outcomes = [], rs_seen = []\<rparr>)
             (\<lambda>(st, v). Inr (rs_world st, \<lparr>rep_title = sc_title sc, rep_generated_at = now, rep_outcomes = rs_outcomes st, rep_root = sc_root sc\<rparr>)))"

section \<open>The search reports a cycle exactly when there is one\<close>

definition child_of :: "(string \<times> Claim) list \<Rightarrow> string \<Rightarrow> string \<Rightarrow> bool" where
  "child_of cs a b = (b \<in> set (sub_claims_of cs a) \<and> map_of cs b \<noteq> None)"

definition cyclic :: "(string \<times> Claim) list \<Rightarrow> bool" where
  "cyclic cs = (\<exists>a. (child_of cs)\<^sup>+\<^sup>+ a a)"

text \<open>An order of finished nodes in which every child comes after its parent.\<close>

fun topo :: "(string \<times> Claim) list \<Rightarrow> string list \<Rightarrow> bool" where
  "topo cs [] = True"
| "topo cs (n # fin) = (n \<notin> set fin \<and> (\<forall>d. child_of cs n d \<longrightarrow> d \<in> set fin) \<and> topo cs fin)"

definition settled :: "(string \<times> Claim) list \<Rightarrow> string list \<Rightarrow> string \<Rightarrow> bool" where
  "settled cs fin n = (n \<in> set fin \<or> map_of cs n = None)"

definition walked :: "(string \<times> Claim) list \<Rightarrow> string list \<Rightarrow> string list \<Rightarrow> string list \<times> problem list \<Rightarrow> string list \<times> problem list \<Rightarrow> bool" where
  "walked cs trail nodes st st' =
     (set (fst st) \<subseteq> set (fst st') \<and> (\<forall>n \<in> set (fst st') - set (fst st). map_of cs n \<noteq> None) \<and> set (fst st') \<inter> set trail \<subseteq> set (fst st) \<and>
      (\<exists>more. snd st' = snd st @ more \<and>
         (more = [] \<and> topo cs (fst st) \<longrightarrow> topo cs (fst st') \<and> (\<forall>n \<in> set nodes. settled cs (fst st') n))))"

lemma walked_chain:
  assumes "walked cs trail [c] st st1" and "walked cs trail rest st1 st2"
  shows "walked cs trail (c # rest) st st2"
  using assms unfolding walked_def settled_def by auto

lemma walk_walked:
  "walked cs trail [node] st (walk cs trail node st)"
  "walked cs trail nodes st (walk_each cs trail nodes st)"
proof (induction cs trail node st and cs trail nodes st rule: walk_walk_each.induct)
  case (1 cs trail node finished ps)
  consider "node \<in> set trail" | "node \<notin> set trail" "node \<in> set finished \<or> map_of cs node = None"
    | "node \<notin> set trail" "\<not> (node \<in> set finished \<or> map_of cs node = None)"
    by (cases "node \<in> set trail"; cases "node \<in> set finished \<or> map_of cs node = None") auto
  then show ?case
  proof cases
    case 1
    then show ?thesis by (simp add: walked_def)
  next
    case 2
    then show ?thesis by (auto simp: walked_def settled_def)
  next
    case 3
    obtain fin' ps' where w: "walk_each cs (trail @ [node]) (sub_claims_of cs node) (finished, ps) = (fin', ps')" by (metis surj_pair)
    have ih: "walked cs (trail @ [node]) (sub_claims_of cs node) (finished, ps) (fin', ps')" using 1 3 w by simp
    have n: "node \<notin> set fin'" using ih 3 by (auto simp: walked_def)
    have "topo cs (node # fin')" if "topo cs fin'" "\<forall>n \<in> set (sub_claims_of cs node). settled cs fin' n"
      using that n by (auto simp: child_of_def settled_def)
    with ih 3 w show ?thesis by (auto simp: walked_def settled_def)
  qed
next
  case (2 cs trail st)
  show ?case by (simp add: walked_def)
next
  case (3 cs trail c rest st)
  from walked_chain [OF 3] show ?case by simp
qed

text \<open>A reported trail is a path that comes back.\<close>

definition on_path :: "(string \<times> Claim) list \<Rightarrow> string list \<Rightarrow> bool" where
  "on_path cs trail = (successively (child_of cs) trail \<and> (\<forall>n \<in> set trail. map_of cs n \<noteq> None))"

definition enters :: "(string \<times> Claim) list \<Rightarrow> string list \<Rightarrow> string \<Rightarrow> bool" where
  "enters cs trail n = (trail = [] \<or> n \<in> set (sub_claims_of cs (last trail)))"

lemma successively_closed:
  assumes "successively r (u @ n # v @ [n])"
  shows "r\<^sup>+\<^sup>+ n n"
proof -
  have "successively r (x # v @ [n]) \<Longrightarrow> r\<^sup>+\<^sup>+ x n" for x
    by (induction v arbitrary: x) (auto intro: tranclp_into_tranclp2)
  moreover have "successively r (n # v @ [n])" using assms by (simp add: successively_append_iff)
  ultimately show ?thesis by blast
qed

lemma walk_sound:
  "on_path cs trail \<Longrightarrow> enters cs trail node \<Longrightarrow> snd (walk cs trail node st) \<noteq> snd st \<Longrightarrow> cyclic cs"
  "on_path cs trail \<Longrightarrow> \<forall>n \<in> set nodes. enters cs trail n \<Longrightarrow> snd (walk_each cs trail nodes st) \<noteq> snd st \<Longrightarrow> cyclic cs"
proof (induction cs trail node st and cs trail nodes st rule: walk_walk_each.induct)
  case (1 cs trail node finished ps)
  show ?case
  proof (cases "node \<in> set trail")
    case True
    then obtain u v where t: "trail = u @ node # v" by (auto simp: in_set_conv_decomp)
    have "map_of cs node \<noteq> None" using 1(2) True by (auto simp: on_path_def)
    then have "child_of cs (last trail) node" using 1(3) t by (auto simp: enters_def child_of_def)
    then have "successively (child_of cs) (trail @ [node])" using 1(2) by (auto simp: on_path_def successively_append_iff)
    then show ?thesis unfolding cyclic_def t using successively_closed [of "child_of cs" u node v] by auto
  next
    case False
    with 1(4) have c: "\<not> (node \<in> set finished \<or> map_of cs node = None)" by (auto split: if_splits)
    have "child_of cs (last trail) node" if "trail \<noteq> []" using that c 1(3) by (auto simp: enters_def child_of_def)
    then have "on_path cs (trail @ [node])" using 1(2) c by (auto simp: on_path_def successively_append_iff)
    moreover have "\<forall>n \<in> set (sub_claims_of cs node). enters cs (trail @ [node]) n" by (simp add: enters_def)
    moreover have "snd (walk_each cs (trail @ [node]) (sub_claims_of cs node) (finished, ps)) \<noteq> snd (finished, ps)"
      using 1(4) False c by (auto split: prod.splits)
    ultimately show ?thesis using 1(1) [OF False c] by blast
  qed
next
  case (2 cs trail st)
  then show ?case by simp
next
  case (3 cs trail c rest st)
  then show ?case by (cases "snd (walk cs trail c st) = snd st") auto
qed

lemma topo_suffix_rank:
  "topo cs fin \<Longrightarrow> a \<in> set fin \<Longrightarrow> child_of cs a b \<Longrightarrow> b \<in> set fin \<and> length (takeWhile (\<lambda>x. x \<noteq> a) fin) < length (takeWhile (\<lambda>x. x \<noteq> b) fin)"
  by (induction fin) auto

lemma topo_acyclic:
  assumes "topo cs fin" and "\<And>n. map_of cs n \<noteq> None \<Longrightarrow> n \<in> set fin"
  shows "\<not> cyclic cs"
proof
  assume "cyclic cs"
  then obtain a where a: "(child_of cs)\<^sup>+\<^sup>+ a a" by (auto simp: cyclic_def)
  have "(child_of cs)\<^sup>+\<^sup>+ x y \<Longrightarrow> x \<in> set fin \<Longrightarrow> y \<in> set fin \<and> length (takeWhile (\<lambda>z. z \<noteq> x) fin) < length (takeWhile (\<lambda>z. z \<noteq> y) fin)" for x y
    by (induction rule: tranclp_induct) (use topo_suffix_rank [OF assms(1)] in \<open>meson less_trans\<close>)+
  moreover have "a \<in> set fin"
  proof (rule assms(2))
    show "map_of cs a \<noteq> None" using a by (induction rule: tranclp_induct) (auto simp: child_of_def)
  qed
  ultimately show False using a by blast
qed

text \<open>
  C33. The structural check reports a cycle exactly when some claim is, through sub-claims, an argument for itself.
\<close>

theorem cycles_found_iff: "find_cycles sc \<noteq> [] \<longleftrightarrow> cyclic (sc_claims sc)"
proof -
  let ?cs = "sc_claims sc" and ?keys = "map fst (sc_claims sc)"
  have w: "walked ?cs [] ks st (fold (\<lambda>i st. walk ?cs [] i st) ks st)" for ks st
  proof (induction ks arbitrary: st)
    case Nil
    show ?case by (simp add: walked_def)
  next
    case (Cons k ks)
    from walked_chain [OF walk_walked(1) Cons] show ?case by simp
  qed
  show ?thesis
  proof
    assume "find_cycles sc \<noteq> []"
    have "\<exists>k st. snd (walk ?cs [] k st) \<noteq> snd st" if "snd (fold (\<lambda>i st. walk ?cs [] i st) ks st) \<noteq> snd st" for ks st
      using that by (induction ks arbitrary: st) (simp, metis fold_simps(2))
    from this [of ?keys "([], [])"] \<open>find_cycles sc \<noteq> []\<close> obtain k st where "snd (walk ?cs [] k st) \<noteq> snd st" by (auto simp: find_cycles_def)
    then show "cyclic ?cs" by (rule walk_sound(1) [rotated 2]) (simp_all add: on_path_def enters_def)
  next
    assume c: "cyclic ?cs"
    show "find_cycles sc \<noteq> []"
    proof
      assume "find_cycles sc = []"
      then have "topo ?cs (fst (fold (\<lambda>i st. walk ?cs [] i st) ?keys ([], []))) \<and>
          (\<forall>n \<in> set ?keys. settled ?cs (fst (fold (\<lambda>i st. walk ?cs [] i st) ?keys ([], []))) n)"
        using w [of ?keys "([], [])"] by (simp add: walked_def find_cycles_def)
      moreover have "n \<in> set ?keys" if "map_of ?cs n \<noteq> None" for n using that by (metis domIff dom_map_of_conv_image_fst list.set_map)
      ultimately show False using topo_acyclic c by (metis settled_def)
    qed
  qed
qed

section \<open>What a run does\<close>

definition gathered :: "(string \<times> EvidenceResult) list \<Rightarrow> string list \<Rightarrow> (string \<times> EvidenceResult) list" where
  "gathered ex is = map (\<lambda>i. (i, the (map_of ex i))) is"

fun replays :: "(string \<times> 'w Evidence) list \<Rightarrow> 'w \<Rightarrow> (string \<times> EvidenceResult) list \<Rightarrow> 'w \<Rightarrow> bool" where
  "replays evs w [] w' = (w' = w)"
| "replays evs w ((i, r) # ex) w' =
     (case map_of evs i of None \<Rightarrow> False | Some e \<Rightarrow> snd (execute e w) = r \<and> replays evs (fst (execute e w)) ex w')"

lemma replays_snoc: "replays evs w ex w1 \<Longrightarrow> map_of evs i = Some e \<Longrightarrow> execute e w1 = (w2, r) \<Longrightarrow> replays evs w (ex @ [(i, r)]) w2"
  by (induction evs w ex w1 rule: replays.induct) (auto split: option.splits)

text \<open>How the record of executed evidence grows: nothing is replaced and nothing runs twice.\<close>

definition grows :: "'w SafetyCase \<Rightarrow> 'w run_state \<Rightarrow> 'w run_state \<Rightarrow> bool" where
  "grows sc st st' =
     ((\<exists>new. rs_executed st' = rs_executed st @ new) \<and> (distinct (map fst (rs_executed st)) \<longrightarrow> distinct (map fst (rs_executed st'))) \<and>
      (\<forall>w0. replays (sc_evidence sc) w0 (rs_executed st) (rs_world st) \<longrightarrow> replays (sc_evidence sc) w0 (rs_executed st') (rs_world st')))"

lemma grows_refl [simp]: "grows sc st st"
  by (simp add: grows_def)

lemma grows_trans: "grows sc a b \<Longrightarrow> grows sc b c \<Longrightarrow> grows sc a c"
  unfolding grows_def by (elim conjE exE) (intro conjI; simp)

lemma grows_keeps: "grows sc st st' \<Longrightarrow> map_of (rs_executed st) i = Some r \<Longrightarrow> map_of (rs_executed st') i = Some r"
  by (auto simp: grows_def map_add_def)

lemma gather_spec:
  assumes "gather (sc_evidence sc) is st = Inr (st', rs)"
  shows "grows sc st st' \<and> rs_outcomes st' = rs_outcomes st \<and> rs_seen st' = rs_seen st \<and>
    (\<forall>i \<in> set is. map_of (rs_executed st') i \<noteq> None) \<and> rs = gathered (rs_executed st') is"
  using assms
proof (induction "is" arbitrary: st rs)
  case Nil
  then show ?case by (simp add: gathered_def)
next
  case (Cons i rest)
  obtain st1 r where one: "(case map_of (rs_executed st) i of Some r \<Rightarrow> Inr (st, r)
        | None \<Rightarrow> (case map_of (sc_evidence sc) i of None \<Rightarrow> Inl KeyError
             | Some e \<Rightarrow> (case execute e (rs_world st) of (w1, r) \<Rightarrow> Inr (st\<lparr>rs_world := w1, rs_executed := rs_executed st @ [(i, r)]\<rparr>, r)))) = Inr (st1, r)"
    and rest: "bind_result (gather (sc_evidence sc) rest st1) (\<lambda>(st2, rs). Inr (st2, (i, r) # rs)) = Inr (st', rs)"
    using Cons.prems by (auto simp: bind_result_Inr_iff)
  obtain rs1 where g: "gather (sc_evidence sc) rest st1 = Inr (st', rs1)" and rs: "rs = (i, r) # rs1"
    using rest by (auto simp: bind_result_Inr_iff)
  have st1: "grows sc st st1 \<and> rs_outcomes st1 = rs_outcomes st \<and> rs_seen st1 = rs_seen st \<and> map_of (rs_executed st1) i = Some r"
  proof (cases "map_of (rs_executed st) i")
    case None
    then obtain e w1 where e: "map_of (sc_evidence sc) i = Some e" "execute e (rs_world st) = (w1, r)"
      and s: "st1 = st\<lparr>rs_world := w1, rs_executed := rs_executed st @ [(i, r)]\<rparr>"
      using one by (auto split: option.splits prod.splits)
    have "i \<notin> fst ` set (rs_executed st)" using None by (metis map_of_eq_None_iff)
    then show ?thesis using e s None replays_snoc [OF _ e] by (auto simp: grows_def map_add_def)
  next
    case (Some x)
    with one show ?thesis by simp
  qed
  note ih = Cons.IH [OF g]
  then have "map_of (rs_executed st') i = Some r" using st1 grows_keeps by blast
  with ih st1 rs show ?case by (auto simp: gathered_def intro: grows_trans)
qed

text \<open>The verdict of a claim as a function of the results, to a depth that is enough.\<close>

primrec enough :: "nat \<Rightarrow> (string \<times> Claim) list \<Rightarrow> string \<Rightarrow> bool" where
  "enough 0 cs i = False"
| "enough (Suc n) cs i = (map_of cs i \<noteq> None \<and> (\<forall>d \<in> set (sub_claims_of cs i). enough n cs d))"

primrec rolled :: "nat \<Rightarrow> (string \<times> Claim) list \<Rightarrow> (string \<times> EvidenceResult) list \<Rightarrow> string \<Rightarrow> Verdict \<times> string" where
  "rolled 0 cs ex i = (INCONCLUSIVE, '''')"
| "rolled (Suc n) cs ex i =
     (case map_of cs i of None \<Rightarrow> (INCONCLUSIVE, '''')
      | Some c \<Rightarrow> roll_up c (gathered ex (cl_evidence c)) (map (\<lambda>d. fst (rolled n cs ex d)) (cl_sub_claims c)))"

lemma rolled_enough: "enough n cs i \<Longrightarrow> enough m cs i \<Longrightarrow> rolled n cs ex i = rolled m cs ex i"
proof (induction n arbitrary: m i)
  case (Suc n)
  then obtain c where c: "map_of cs i = Some c" by auto
  obtain k where m: "m = Suc k" using Suc.prems(2) by (cases m) simp_all
  have "map (\<lambda>d. fst (rolled n cs ex d)) (cl_sub_claims c) = map (\<lambda>d. fst (rolled k cs ex d)) (cl_sub_claims c)"
    using Suc.prems m c by (intro map_cong refl arg_cong [where f = fst] Suc.IH) (auto simp: sub_claims_of_def)
  then show ?case using c by (simp only: m rolled.simps option.case)
qed simp

definition extends :: "(string \<times> EvidenceResult) list \<Rightarrow> (string \<times> EvidenceResult) list \<Rightarrow> bool" where
  "extends ex ex0 = (\<forall>i r. map_of ex0 i = Some r \<longrightarrow> map_of ex i = Some r)"

lemma extends_refl [simp]: "extends ex ex"
  by (simp add: extends_def)

lemma extends_grows: "grows sc st st' \<Longrightarrow> extends ex (rs_executed st') \<Longrightarrow> extends ex (rs_executed st)"
  using grows_keeps unfolding extends_def by blast

lemma gathered_extends: "extends ex ex0 \<Longrightarrow> \<forall>i \<in> set is. map_of ex0 i \<noteq> None \<Longrightarrow> gathered ex is = gathered ex0 is"
  by (force simp: gathered_def extends_def)

definition claim_id :: "ClaimOutcome \<Rightarrow> string" where
  "claim_id o' = cl_id (co_claim o')"

text \<open>An outcome says what the claim's own evidence and its sub-claims give, and its sub-claims were evaluated too.\<close>

definition outcome_ok :: "(string \<times> Claim) list \<Rightarrow> string set \<Rightarrow> (string \<times> EvidenceResult) list \<Rightarrow> ClaimOutcome \<Rightarrow> bool" where
  "outcome_ok cs seen ex o' =
     (map_of cs (claim_id o') = Some (co_claim o') \<and> (\<exists>n. enough n cs (claim_id o') \<and> rolled n cs ex (claim_id o') = (co_verdict o', co_detail o')) \<and>
      co_evidence o' = gathered ex (cl_evidence (co_claim o')) \<and> (\<forall>e \<in> set (cl_evidence (co_claim o')). map_of ex e \<noteq> None) \<and>
      set (cl_sub_claims (co_claim o')) \<subseteq> seen)"

definition run_ok :: "(string \<times> Claim) list \<Rightarrow> 'w run_state \<Rightarrow> bool" where
  "run_ok cs st =
     ((\<forall>o' \<in> set (rs_outcomes st). \<forall>ex. extends ex (rs_executed st) \<longrightarrow> outcome_ok cs (set (rs_seen st)) ex o') \<and>
      claim_id ` set (rs_outcomes st) = set (rs_seen st) \<and> distinct (map claim_id (rs_outcomes st)))"

definition evaluated :: "'w SafetyCase \<Rightarrow> nat \<Rightarrow> string \<Rightarrow> 'w run_state \<Rightarrow> 'w run_state \<Rightarrow> Verdict \<Rightarrow> bool" where
  "evaluated sc n i st st' v =
     (grows sc st st' \<and> enough n (sc_claims sc) i \<and> set (rs_seen st) \<subseteq> set (rs_seen st') \<and> i \<in> set (rs_seen st') \<and>
      (\<forall>ex. extends ex (rs_executed st') \<longrightarrow> v = fst (rolled n (sc_claims sc) ex i)) \<and>
      (run_ok (sc_claims sc) st \<longrightarrow> run_ok (sc_claims sc) st'))"

lemma each_child_spec:
  assumes "\<And>d s s' v. d \<in> set ds \<Longrightarrow> f d s = Inr (s', v) \<Longrightarrow> evaluated sc n d s s' v"
    and "each_child f ds st = Inr (st', vs)"
  shows "grows sc st st' \<and> (\<forall>d \<in> set ds. enough n (sc_claims sc) d) \<and> set (rs_seen st) \<union> set ds \<subseteq> set (rs_seen st') \<and>
    (\<forall>ex. extends ex (rs_executed st') \<longrightarrow> vs = map (\<lambda>d. fst (rolled n (sc_claims sc) ex d)) ds) \<and>
    (run_ok (sc_claims sc) st \<longrightarrow> run_ok (sc_claims sc) st')"
  using assms
proof (induction ds arbitrary: st vs)
  case Nil
  then show ?case by simp
next
  case (Cons d ds)
  obtain st1 v vs1 where f: "f d st = Inr (st1, v)" and r: "each_child f ds st1 = Inr (st', vs1)" and vs: "vs = v # vs1"
    using Cons.prems(2) by (auto simp: bind_result_Inr_iff)
  have e: "evaluated sc n d st st1 v" by (rule Cons.prems(1) [OF _ f]) simp
  have ih: "grows sc st1 st' \<and> (\<forall>d \<in> set ds. enough n (sc_claims sc) d) \<and> set (rs_seen st1) \<union> set ds \<subseteq> set (rs_seen st') \<and>
    (\<forall>ex. extends ex (rs_executed st') \<longrightarrow> vs1 = map (\<lambda>d. fst (rolled n (sc_claims sc) ex d)) ds) \<and>
    (run_ok (sc_claims sc) st1 \<longrightarrow> run_ok (sc_claims sc) st')"
    by (rule Cons.IH [OF Cons.prems(1) r]) simp_all
  have "grows sc st st'" using e ih grows_trans unfolding evaluated_def by blast
  moreover have "v = fst (rolled n (sc_claims sc) ex d)" if "extends ex (rs_executed st')" for ex
    using e extends_grows [OF conjunct1 [OF ih] that] unfolding evaluated_def by blast
  ultimately show ?case using e ih vs unfolding evaluated_def by auto
qed

lemma run_ok_executed:
  "run_ok cs st \<Longrightarrow> grows sc st st' \<Longrightarrow> rs_outcomes st' = rs_outcomes st \<Longrightarrow> rs_seen st' = rs_seen st \<Longrightarrow> run_ok cs st'"
  using extends_grows unfolding run_ok_def by metis

definition keyed_case :: "'w SafetyCase \<Rightarrow> bool" where
  "keyed_case sc = (\<forall>i c. map_of (sc_claims sc) i = Some c \<longrightarrow> cl_id c = i)"

lemma evaluate_spec:
  "keyed_case sc \<Longrightarrow> evaluate n sc i depth st = Inr (st', v) \<Longrightarrow> evaluated sc n i st st' v"
proof (induction n arbitrary: i depth st st' v)
  case (Suc n)
  let ?cs = "sc_claims sc"
  obtain c where c: "map_of ?cs i = Some c" using Suc.prems(2) by (cases "map_of ?cs i") auto
  obtain st1 results where g: "gather (sc_evidence sc) (cl_evidence c) st = Inr (st1, results)"
    and r1: "bind_result (each_child (\<lambda>d s. evaluate n sc d (depth + 1) s) (cl_sub_claims c) st1) (\<lambda>(st2, children).
          let (v, detail) = roll_up c results children;
              st3 = (if i \<in> set (rs_seen st2) then st2
                     else st2\<lparr>rs_seen := i # rs_seen st2,
                              rs_outcomes := rs_outcomes st2 @ [\<lparr>co_claim = c, co_verdict = v, co_detail = detail, co_evidence = results, co_depth = depth\<rparr>]\<rparr>)
          in Inr (st3, v)) = Inr (st', v)"
    using Suc.prems(2) c by (auto simp: bind_result_Inr_iff)
  obtain st2 children where k: "each_child (\<lambda>d s. evaluate n sc d (depth + 1) s) (cl_sub_claims c) st1 = Inr (st2, children)"
    using r1 by (auto simp: bind_result_Inr_iff)
  obtain v' detail where ru: "roll_up c results children = (v', detail)" by (cases "roll_up c results children")
  have v: "v = fst (roll_up c results children)" using r1 k ru by simp
  have st': "st' = (if i \<in> set (rs_seen st2) then st2
       else st2\<lparr>rs_seen := i # rs_seen st2, rs_outcomes := rs_outcomes st2 @ [\<lparr>co_claim = c, co_verdict = v,
              co_detail = snd (roll_up c results children), co_evidence = results, co_depth = depth\<rparr>]\<rparr>)"
    using r1 k ru by (auto split: if_splits)
  note gs = gather_spec [OF g]
  have ih: "evaluated sc n d s s' u" if "evaluate n sc d (depth + 1) s = Inr (s', u)" for d s s' u
    by (rule Suc.IH [OF Suc.prems(1) that])
  note ks = each_child_spec [where f = "\<lambda>d s. evaluate n sc d (depth + 1) s" and n = n and sc = sc, OF ih k]
  have g2: "grows sc st st2" using gs ks grows_trans by blast
  have ex2: "rs_executed st' = rs_executed st2" "rs_world st' = rs_world st2" using st' by auto
  have gst: "grows sc st st'" using g2 ex2 by (simp add: grows_def)
  have en: "enough (Suc n) ?cs i" using c ks by (simp add: sub_claims_of_def)
  have ev: "results = gathered ex (cl_evidence c) \<and> (\<forall>e \<in> set (cl_evidence c). map_of ex e \<noteq> None)" if "extends ex (rs_executed st2)" for ex
  proof -
    have "extends ex (rs_executed st1)" using extends_grows [OF conjunct1 [OF ks] that] .
    with gs gathered_extends [of ex "rs_executed st1" "cl_evidence c"] show ?thesis unfolding extends_def by auto
  qed
  have ro: "rolled (Suc n) ?cs ex i = (v, snd (roll_up c results children))" if "extends ex (rs_executed st2)" for ex
  proof -
    have "children = map (\<lambda>d. fst (rolled n ?cs ex d)) (cl_sub_claims c)" using ks that by blast
    then show ?thesis using ev [OF that] c v by simp
  qed
  have "run_ok ?cs st'" if "run_ok ?cs st"
  proof -
    have ok2: "run_ok ?cs st2" using run_ok_executed [OF that] gs ks by blast
    show ?thesis
    proof (cases "i \<in> set (rs_seen st2)")
      case True
      with ok2 st' show ?thesis by simp
    next
      case False
      let ?o = "\<lparr>co_claim = c, co_verdict = v, co_detail = snd (roll_up c results children), co_evidence = results, co_depth = depth\<rparr>"
      have s: "rs_seen st' = i # rs_seen st2" "rs_outcomes st' = rs_outcomes st2 @ [?o]" using st' False by simp_all
      have id: "claim_id ?o = i" using Suc.prems(1) c by (simp add: claim_id_def keyed_case_def)
      have "outcome_ok ?cs (set (rs_seen st')) ex ?o" if "extends ex (rs_executed st')" for ex
      proof -
        have x: "extends ex (rs_executed st2)" using that ex2 by simp
        have "set (cl_sub_claims c) \<subseteq> set (rs_seen st')" using ks s by auto
        moreover have "\<exists>n. enough n ?cs i \<and> rolled n ?cs ex i = (v, snd (roll_up c results children))" using en ro [OF x] by blast
        ultimately show ?thesis unfolding outcome_ok_def id using c ev [OF x] by simp
      qed
      moreover have "outcome_ok ?cs (set (rs_seen st')) ex o'" if "o' \<in> set (rs_outcomes st2)" "extends ex (rs_executed st')" for o' ex
      proof -
        have "outcome_ok ?cs (set (rs_seen st2)) ex o'" using ok2 that ex2 by (simp add: run_ok_def)
        then show ?thesis unfolding outcome_ok_def s by auto
      qed
      moreover have "claim_id ` set (rs_outcomes st') = set (rs_seen st')" using ok2 s id by (auto simp: run_ok_def)
      moreover have "distinct (map claim_id (rs_outcomes st'))" using ok2 s id False by (auto simp: run_ok_def)
      ultimately show ?thesis unfolding run_ok_def by (auto simp: s(2))
    qed
  qed
  moreover have "i \<in> set (rs_seen st')" "set (rs_seen st) \<subseteq> set (rs_seen st')" using st' gs ks by auto
  moreover have "v = fst (rolled (Suc n) ?cs ex i)" if "extends ex (rs_executed st')" for ex using ro that ex2 by simp
  ultimately show ?case unfolding evaluated_def using gst en by blast
qed simp

section \<open>A valid case is always evaluated\<close>

lemma gather_defined:
  "\<forall>i \<in> set is. map_of evs i \<noteq> None \<Longrightarrow> \<exists>r. gather evs is st = Inr r"
proof (induction "is" arbitrary: st)
  case (Cons i rest)
  obtain e where e: "map_of evs i = Some e" using Cons.prems by auto
  obtain w1 r1 where x: "execute e (rs_world st) = (w1, r1)" by (cases "execute e (rs_world st)")
  have rest: "\<exists>r. bind_result (gather evs rest s) (\<lambda>(st2, rs). Inr (st2, (i, q) # rs)) = Inr r" for s q
  proof -
    obtain s2 rs where "gather evs rest s = Inr (s2, rs)" using Cons.IH [of s] Cons.prems by auto
    then show ?thesis by simp
  qed
  show ?case
  proof (cases "map_of (rs_executed st) i")
    case None
    with e x rest show ?thesis by simp
  next
    case (Some r)
    with rest show ?thesis by simp
  qed
qed simp

lemma each_child_defined:
  "(\<And>d s. d \<in> set ds \<Longrightarrow> \<exists>r. f d s = Inr r) \<Longrightarrow> \<exists>r. each_child f ds st = Inr r"
proof (induction ds arbitrary: st)
  case (Cons d ds)
  obtain s1 v where "f d st = Inr (s1, v)" using Cons.prems [of d st] by auto
  moreover obtain s2 vs where "each_child f ds s1 = Inr (s2, vs)" using Cons.IH [of s1] Cons.prems by auto
  ultimately show ?case by simp
qed simp

definition well_linked :: "'w SafetyCase \<Rightarrow> bool" where
  "well_linked sc =
     (\<forall>i c. map_of (sc_claims sc) i = Some c \<longrightarrow>
        (\<forall>d \<in> set (cl_sub_claims c). map_of (sc_claims sc) d \<noteq> None) \<and> (\<forall>e \<in> set (cl_evidence c). map_of (sc_evidence sc) e \<noteq> None))"

lemma validate_well_linked:
  assumes "validate sc = []"
  shows "well_linked sc \<and> map_of (sc_claims sc) (sc_root sc) \<noteq> None \<and> find_cycles sc = []"
proof -
  have p: "claim_problems sc c = []" if "map_of (sc_claims sc) i = Some c" for i c
    using assms map_of_SomeD [OF that] by (auto simp: validate_def)
  have "(\<forall>d \<in> set (cl_sub_claims c). map_of (sc_claims sc) d \<noteq> None) \<and> (\<forall>e \<in> set (cl_evidence c). map_of (sc_evidence sc) e \<noteq> None)"
    if "map_of (sc_claims sc) i = Some c" for i c
    using p [OF that] by (auto simp: claim_problems_def filter_empty_conv)
  then show ?thesis using assms unfolding well_linked_def by (auto simp: validate_def split: if_splits)
qed

lemma evaluate_defined:
  assumes "well_linked sc" and "topo (sc_claims sc) fin" and "\<And>n. map_of (sc_claims sc) n \<noteq> None \<Longrightarrow> n \<in> set fin"
  shows "map_of (sc_claims sc) i \<noteq> None \<Longrightarrow> length fin \<le> n + length (takeWhile (\<lambda>x. x \<noteq> i) fin) \<Longrightarrow> \<exists>r. evaluate n sc i depth st = Inr r"
proof (induction n arbitrary: i depth st)
  case 0
  have "i \<in> set fin" by (rule assms(3) [OF 0(1)])
  then have "length (takeWhile (\<lambda>x. x \<noteq> i) fin) < length fin" by (induction fin) auto
  with 0 show ?case by simp
next
  case (Suc n)
  obtain c where c: "map_of (sc_claims sc) i = Some c" using Suc.prems(1) by blast
  obtain st1 results where g: "gather (sc_evidence sc) (cl_evidence c) st = Inr (st1, results)"
    using gather_defined [of "cl_evidence c" "sc_evidence sc" st] assms(1) c by (auto simp: well_linked_def)
  have "\<exists>r. evaluate n sc d (depth + 1) s = Inr r" if "d \<in> set (cl_sub_claims c)" for d s
  proof (rule Suc.IH)
    show d: "map_of (sc_claims sc) d \<noteq> None" using assms(1) c that unfolding well_linked_def by blast
    have "child_of (sc_claims sc) i d" using c d that by (simp add: child_of_def sub_claims_of_def)
    from topo_suffix_rank [OF assms(2) assms(3) [OF Suc.prems(1)] this] Suc.prems(2)
    show "length fin \<le> n + length (takeWhile (\<lambda>x. x \<noteq> d) fin)" by linarith
  qed
  from each_child_defined [of "cl_sub_claims c" "\<lambda>d s. evaluate n sc d (depth + 1) s" st1, OF this]
  obtain st2 children where "each_child (\<lambda>d s. evaluate n sc d (depth + 1) s) (cl_sub_claims c) st1 = Inr (st2, children)" by auto
  with c g show ?case by (auto simp: Let_def split: prod.split)
qed

lemma valid_order:
  assumes "find_cycles sc = []"
  shows "\<exists>fin. topo (sc_claims sc) fin \<and> (\<forall>n. map_of (sc_claims sc) n \<noteq> None \<longrightarrow> n \<in> set fin) \<and> length fin \<le> length (sc_claims sc)"
proof -
  let ?cs = "sc_claims sc" and ?keys = "map fst (sc_claims sc)"
  let ?st = "fold (\<lambda>i st. walk ?cs [] i st) ?keys ([], [])"
  have "walked ?cs [] ks st (fold (\<lambda>i st. walk ?cs [] i st) ks st)" for ks st
  proof (induction ks arbitrary: st)
    case Nil
    show ?case by (simp add: walked_def)
  next
    case (Cons k ks)
    from walked_chain [OF walk_walked(1) Cons] show ?case by simp
  qed
  from this [of ?keys "([], [])"] assms
  have t: "topo ?cs (fst ?st)" and s: "\<forall>n \<in> set ?keys. settled ?cs (fst ?st) n" and k: "\<forall>n \<in> set (fst ?st). map_of ?cs n \<noteq> None"
    by (simp_all add: walked_def find_cycles_def)
  have key: "map_of ?cs n \<noteq> None \<longleftrightarrow> n \<in> set ?keys" for n by (simp add: map_of_eq_None_iff)
  have "distinct fin" if "topo ?cs fin" for fin using that by (induction fin) auto
  then have "length (fst ?st) = card (set (fst ?st))" using t by (simp add: distinct_card)
  also have "\<dots> \<le> card (set ?keys)" using k key by (intro card_mono) auto
  also have "\<dots> \<le> length ?cs" by (metis card_length length_map)
  finally have "length (fst ?st) \<le> length ?cs" .
  moreover have "n \<in> set (fst ?st)" if "map_of ?cs n \<noteq> None" for n
  proof -
    have "settled ?cs (fst ?st) n" using s that key by blast
    then show ?thesis unfolding settled_def using that by (elim disjE) simp_all
  qed
  ultimately show ?thesis using t by blast
qed

lemma case_returns: "\<exists>w' rep. verify_case repr sc now w = Inr (w', rep) \<and> rep_root rep = sc_root sc"
proof (cases "validate sc = []")
  case False
  then show ?thesis by (simp add: verify_case_def Let_def)
next
  case True
  note wl = validate_well_linked [OF True]
  obtain fin where f: "topo (sc_claims sc) fin" "\<forall>n. map_of (sc_claims sc) n \<noteq> None \<longrightarrow> n \<in> set fin" "length fin \<le> length (sc_claims sc)"
    using valid_order wl by blast
  have "\<exists>r. evaluate (Suc (length (sc_claims sc))) sc (sc_root sc) 0 st = Inr r" for st
    by (rule evaluate_defined [OF conjunct1 [OF wl] f(1)]) (use f wl in auto)
  then obtain st v where "evaluate (Suc (length (sc_claims sc))) sc (sc_root sc) 0 \<lparr>rs_world = w, rs_executed = [], rs_outcomes = [], rs_seen = []\<rparr> = Inr (st, v)"
    by (metis surj_pair)
  with True show ?thesis by (simp add: verify_case_def del: evaluate.simps)
qed

text \<open>
  Verification always ends in a report: a case whose structure does not hold together gives one inconclusive outcome for
  the root, and a valid one is evaluated without a missing reference and without running out of the depth of one level per claim.
\<close>

theorem verify_case_returns: "\<exists>w' rep. verify_case repr sc now w = Inr (w', rep) \<and> rep_root rep = sc_root sc"
  by (rule case_returns)

section \<open>What a report says\<close>

definition reported :: "SafetyCaseReport \<Rightarrow> string \<Rightarrow> Verdict" where
  "reported r i = (case find (\<lambda>o'. claim_id o' = i) (rep_outcomes r) of Some o' \<Rightarrow> co_verdict o' | None \<Rightarrow> INCONCLUSIVE)"

lemma reported_rolled:
  assumes "run_ok cs st" and "d \<in> set (rs_seen st)" and "enough n cs d" and "rep_outcomes r = rs_outcomes st"
  shows "reported r d = fst (rolled n cs (rs_executed st) d)"
proof -
  obtain o' where o': "o' \<in> set (rs_outcomes st)" "claim_id o' = d" using assms(1,2) unfolding run_ok_def by (metis imageE)
  have "find (\<lambda>x. claim_id x = d) (rs_outcomes st) = Some o'"
    using find_distinct_key [of claim_id "rs_outcomes st" o'] assms(1) o' by (simp add: run_ok_def)
  moreover have "outcome_ok cs (set (rs_seen st)) (rs_executed st) o'" using assms(1) o'(1) by (simp add: run_ok_def)
  then obtain m where "enough m cs d" "rolled m cs (rs_executed st) d = (co_verdict o', co_detail o')" using o'(2) by (auto simp: outcome_ok_def)
  ultimately show ?thesis using rolled_enough [OF assms(3)] assms(4) by (simp add: reported_def)
qed

definition result_of :: "(string \<times> EvidenceResult) list \<Rightarrow> string \<Rightarrow> EvidenceResult" where
  "result_of ex i = the (map_of ex i)"

lemma report_facts:
  assumes "keyed_case sc" and "validate sc = []" and "verify_case repr sc now w = Inr (w', rep)"
  shows "\<exists>ex. distinct (map fst ex) \<and> replays (sc_evidence sc) w ex w' \<and> distinct (map claim_id (rep_outcomes rep)) \<and>
    sc_root sc \<in> claim_id ` set (rep_outcomes rep) \<and>
    list_all (\<lambda>o'. map_of (sc_claims sc) (claim_id o') = Some (co_claim o') \<and>
        co_evidence o' = map (\<lambda>e. (e, result_of ex e)) (cl_evidence (co_claim o')) \<and>
        set (cl_evidence (co_claim o')) \<subseteq> fst ` set ex \<and> set (cl_sub_claims (co_claim o')) \<subseteq> claim_id ` set (rep_outcomes rep) \<and>
        (co_verdict o', co_detail o') = roll_up (co_claim o') (co_evidence o') (map (reported rep) (cl_sub_claims (co_claim o'))))
      (rep_outcomes rep)"
proof -
  let ?st0 = "\<lparr>rs_world = w, rs_executed = [], rs_outcomes = [], rs_seen = []\<rparr>" and ?cs = "sc_claims sc"
  obtain st v where e: "evaluate (Suc (length ?cs)) sc (sc_root sc) 0 ?st0 = Inr (st, v)" and w': "w' = rs_world st"
    and rep: "rep_outcomes rep = rs_outcomes st"
    using assms(2,3) by (auto simp: verify_case_def bind_result_Inr_iff simp del: evaluate.simps)
  note sp = evaluate_spec [OF assms(1) e, unfolded evaluated_def]
  have ok: "run_ok ?cs st" using sp by (simp add: run_ok_def)
  have "replays (sc_evidence sc) w (rs_executed st) w' \<and> distinct (map fst (rs_executed st))"
    using sp w' by (auto simp: grows_def)
  moreover have "map_of ?cs (claim_id o') = Some (co_claim o') \<and>
        co_evidence o' = map (\<lambda>e. (e, result_of (rs_executed st) e)) (cl_evidence (co_claim o')) \<and>
        set (cl_evidence (co_claim o')) \<subseteq> fst ` set (rs_executed st) \<and> set (cl_sub_claims (co_claim o')) \<subseteq> claim_id ` set (rep_outcomes rep) \<and>
        (co_verdict o', co_detail o') = roll_up (co_claim o') (co_evidence o') (map (reported rep) (cl_sub_claims (co_claim o')))"
    if "o' \<in> set (rep_outcomes rep)" for o'
  proof -
    have o': "outcome_ok ?cs (set (rs_seen st)) (rs_executed st) o'" using ok that rep by (simp add: run_ok_def)
    then obtain n where n: "enough n ?cs (claim_id o')" "rolled n ?cs (rs_executed st) (claim_id o') = (co_verdict o', co_detail o')"
      by (auto simp: outcome_ok_def)
    obtain k where k: "n = Suc k" using n(1) by (cases n) simp_all
    have c: "map_of ?cs (claim_id o') = Some (co_claim o')" and sub: "set (cl_sub_claims (co_claim o')) \<subseteq> set (rs_seen st)"
      and g: "co_evidence o' = gathered (rs_executed st) (cl_evidence (co_claim o'))" using o' by (simp_all add: outcome_ok_def)
    have "map (\<lambda>d. fst (rolled k ?cs (rs_executed st) d)) (cl_sub_claims (co_claim o')) = map (reported rep) (cl_sub_claims (co_claim o'))"
    proof (rule map_cong [OF refl])
      fix d assume d: "d \<in> set (cl_sub_claims (co_claim o'))"
      have "enough k ?cs d" using n(1) k c d by (simp add: sub_claims_of_def)
      then show "fst (rolled k ?cs (rs_executed st) d) = reported rep d" using reported_rolled [OF ok _ _ rep] d sub by auto
    qed
    then have "(co_verdict o', co_detail o') = roll_up (co_claim o') (co_evidence o') (map (reported rep) (cl_sub_claims (co_claim o')))"
      using n(2) c g unfolding k by (simp del: map_eq_conv)
    moreover have "set (cl_evidence (co_claim o')) \<subseteq> fst ` set (rs_executed st)" using o' by (auto simp: outcome_ok_def map_of_eq_None_iff)
    ultimately show ?thesis using c g sub ok rep by (simp add: gathered_def result_of_def run_ok_def)
  qed
  moreover have "distinct (map claim_id (rep_outcomes rep))" "sc_root sc \<in> claim_id ` set (rep_outcomes rep)"
    using ok rep sp by (simp_all add: run_ok_def)
  ultimately show ?thesis by (intro exI [of _ "rs_executed st"]) (simp add: list_all_iff)
qed

definition sound_result :: "EvidenceResult \<Rightarrow> bool" where
  "sound_result r = (er_verdict r \<noteq> NOT_SUPPORTED \<and> er_verdict r \<noteq> INCONCLUSIVE)"

text \<open>The claims a supported root relies on: its sub-claims, theirs as long as they are supported, and so on.\<close>

inductive relied_on :: "SafetyCaseReport \<Rightarrow> (string \<times> Claim) list \<Rightarrow> string \<Rightarrow> string \<Rightarrow> bool" for rep cs r where
  relied_root: "relied_on rep cs r r"
| relied_sub: "relied_on rep cs r i \<Longrightarrow> reported rep i = SUPPORTED \<Longrightarrow> map_of cs i = Some c \<Longrightarrow> d \<in> set (cl_sub_claims c) \<Longrightarrow> relied_on rep cs r d"

lemma roll_up_supported:
  assumes "fst (roll_up c results children) = SUPPORTED"
  shows "\<forall>ir \<in> set results. sound_result (snd ir)" and "\<forall>v \<in> set children. v \<noteq> NOT_SUPPORTED \<and> v \<noteq> INCONCLUSIVE"
proof -
  have a: "fst (argue results children) = SUPPORTED" using assms by (auto simp: roll_up_def split: if_splits)
  then have "filter (\<lambda>(i, r). er_verdict r = NOT_SUPPORTED) results = []" "\<not> (\<exists>ir \<in> set results. er_verdict (snd ir) = INCONCLUSIVE)"
    and "count_where (\<lambda>x. x = NOT_SUPPORTED) children = 0" "count_where (\<lambda>x. x = INCONCLUSIVE) children = 0"
    by (auto simp: argue_def Let_def split: if_splits)
  then show "\<forall>ir \<in> set results. sound_result (snd ir)" and "\<forall>v \<in> set children. v \<noteq> NOT_SUPPORTED \<and> v \<noteq> INCONCLUSIVE"
    by (auto simp: filter_empty_conv count_where_0_iff sound_result_def)
qed

lemma roll_up_range: "fst (roll_up c results children) \<noteq> NOT_APPLICABLE"
  by (simp add: roll_up_def argue_def Let_def)

lemma reported_outcome:
  assumes "distinct (map claim_id (rep_outcomes rep))" and "i \<in> claim_id ` set (rep_outcomes rep)"
  shows "\<exists>o' \<in> set (rep_outcomes rep). claim_id o' = i \<and> reported rep i = co_verdict o'"
proof -
  obtain o' where o': "o' \<in> set (rep_outcomes rep)" "claim_id o' = i" using assms(2) by blast
  then have "find (\<lambda>x. claim_id x = i) (rep_outcomes rep) = Some o'" using find_distinct_key [OF assms(1) o'(1)] by simp
  with o' show ?thesis by (auto simp: reported_def)
qed

lemma report_equation:
  assumes "keyed_case sc" and "validate sc = []" and "verify_case repr sc now w = Inr (w', rep)"
  shows "\<exists>ex. distinct (map fst ex) \<and> replays (sc_evidence sc) w ex w' \<and> sc_root sc \<in> claim_id ` set (rep_outcomes rep) \<and>
    (\<forall>i c. i \<in> claim_id ` set (rep_outcomes rep) \<longrightarrow> map_of (sc_claims sc) i = Some c \<longrightarrow>
       reported rep i = fst (roll_up c (map (\<lambda>e. (e, result_of ex e)) (cl_evidence c)) (map (reported rep) (cl_sub_claims c))) \<and>
       set (cl_evidence c) \<subseteq> fst ` set ex \<and> set (cl_sub_claims c) \<subseteq> claim_id ` set (rep_outcomes rep))"
proof -
  obtain ex where ex: "distinct (map fst ex)" "replays (sc_evidence sc) w ex w'" "distinct (map claim_id (rep_outcomes rep))"
      "sc_root sc \<in> claim_id ` set (rep_outcomes rep)"
    and outs: "list_all (\<lambda>o'. map_of (sc_claims sc) (claim_id o') = Some (co_claim o') \<and>
        co_evidence o' = map (\<lambda>e. (e, result_of ex e)) (cl_evidence (co_claim o')) \<and>
        set (cl_evidence (co_claim o')) \<subseteq> fst ` set ex \<and> set (cl_sub_claims (co_claim o')) \<subseteq> claim_id ` set (rep_outcomes rep) \<and>
        (co_verdict o', co_detail o') = roll_up (co_claim o') (co_evidence o') (map (reported rep) (cl_sub_claims (co_claim o'))))
      (rep_outcomes rep)"
    using report_facts [OF assms] by blast
  have "reported rep i = fst (roll_up c (map (\<lambda>e. (e, result_of ex e)) (cl_evidence c)) (map (reported rep) (cl_sub_claims c))) \<and>
       set (cl_evidence c) \<subseteq> fst ` set ex \<and> set (cl_sub_claims c) \<subseteq> claim_id ` set (rep_outcomes rep)"
    if i: "i \<in> claim_id ` set (rep_outcomes rep)" and c: "map_of (sc_claims sc) i = Some c" for i c
  proof -
    obtain o' where o': "o' \<in> set (rep_outcomes rep)" "claim_id o' = i" "reported rep i = co_verdict o'" using reported_outcome [OF ex(3) i] by blast
    have f: "map_of (sc_claims sc) (claim_id o') = Some (co_claim o')" "co_evidence o' = map (\<lambda>e. (e, result_of ex e)) (cl_evidence (co_claim o'))"
      "set (cl_evidence (co_claim o')) \<subseteq> fst ` set ex" "set (cl_sub_claims (co_claim o')) \<subseteq> claim_id ` set (rep_outcomes rep)"
      and r: "(co_verdict o', co_detail o') = roll_up (co_claim o') (co_evidence o') (map (reported rep) (cl_sub_claims (co_claim o')))"
      using outs o'(1) by (simp_all add: list_all_iff)
    have cc: "co_claim o' = c" using f(1) c o'(2) by simp
    have "co_verdict o' = fst (roll_up c (co_evidence o') (map (reported rep) (cl_sub_claims c)))" using r [unfolded cc] by (metis fst_conv)
    with f o'(3) cc show ?thesis by simp
  qed
  with ex show ?thesis by blast
qed

lemma replays_results:
  "replays evs w ex w' \<Longrightarrow> (i, r) \<in> set ex \<Longrightarrow> (\<And>j e u. map_of evs j = Some e \<Longrightarrow> I u \<Longrightarrow> I (fst (execute e u))) \<Longrightarrow> I w \<Longrightarrow>
    \<exists>e u. map_of evs i = Some e \<and> I u \<and> r = snd (execute e u)"
proof (induction evs w ex w' rule: replays.induct)
  case (2 evs w j q ex w')
  obtain e where e: "map_of evs j = Some e" "snd (execute e w) = q" "replays evs (fst (execute e w)) ex w'"
    using 2(2) by (auto split: option.splits)
  show ?case
  proof (cases "(i, r) = (j, q)")
    case True
    with e 2(5) show ?thesis by auto
  next
    case False
    with 2(3) have m: "(i, r) \<in> set ex" by auto
    have "I (fst (execute e w))" by (rule 2(4) [OF e(1) 2(5)])
    from 2(1) [OF e(1) e(3) m 2(4) this] show ?thesis .
  qed
qed simp

text \<open>
  A report is one run: every piece of evidence that was executed was executed once, in one order, with the results the
  report quotes everywhere; each claim is reported once, and its verdict and text are what its own evidence and the reported
  verdicts of its sub-claims give.
\<close>

theorem report_is_one_run:
  assumes "keyed_case sc" and "validate sc = []" and "verify_case repr sc now w = Inr (w', rep)"
  shows "\<exists>ex. distinct (map fst ex) \<and> replays (sc_evidence sc) w ex w' \<and> distinct (map claim_id (rep_outcomes rep)) \<and>
    sc_root sc \<in> claim_id ` set (rep_outcomes rep) \<and>
    list_all (\<lambda>o'. map_of (sc_claims sc) (claim_id o') = Some (co_claim o') \<and>
        co_evidence o' = map (\<lambda>e. (e, result_of ex e)) (cl_evidence (co_claim o')) \<and>
        set (cl_evidence (co_claim o')) \<subseteq> fst ` set ex \<and> set (cl_sub_claims (co_claim o')) \<subseteq> claim_id ` set (rep_outcomes rep) \<and>
        (co_verdict o', co_detail o') = roll_up (co_claim o') (co_evidence o') (map (reported rep) (cl_sub_claims (co_claim o'))))
      (rep_outcomes rep)"
  by (rule report_facts [OF assms])

text \<open>
  C34. The root of a valid case is reported as supported only if nothing it relies on failed: every claim it reaches through
  supported claims is itself supported, delegated to somebody named or left openly undeveloped, and every piece of evidence a
  supported one of them cites was executed in this run and was neither refuted nor inconclusive.
\<close>

theorem supported_root_sound:
  assumes "keyed_case sc" and "validate sc = []" and "verify_case repr sc now w = Inr (w', rep)" and "reported rep (sc_root sc) = SUPPORTED"
  shows "\<exists>ex. replays (sc_evidence sc) w ex w' \<and>
    (\<forall>i. relied_on rep (sc_claims sc) (sc_root sc) i \<longrightarrow> reported rep i \<in> {SUPPORTED, DELEGATED, UNDEVELOPED} \<and>
       (reported rep i = SUPPORTED \<longrightarrow>
          list_all (\<lambda>e. map_of ex e \<noteq> None \<and> sound_result (result_of ex e)) (cl_evidence (the (map_of (sc_claims sc) i)))))"
proof -
  let ?cs = "sc_claims sc" and ?outs = "rep_outcomes rep"
  obtain ex where ex: "replays (sc_evidence sc) w ex w'" "distinct (map claim_id ?outs)" "sc_root sc \<in> claim_id ` set ?outs"
    and outs: "list_all (\<lambda>o'. map_of ?cs (claim_id o') = Some (co_claim o') \<and>
        co_evidence o' = map (\<lambda>e. (e, result_of ex e)) (cl_evidence (co_claim o')) \<and>
        set (cl_evidence (co_claim o')) \<subseteq> fst ` set ex \<and> set (cl_sub_claims (co_claim o')) \<subseteq> claim_id ` set ?outs \<and>
        (co_verdict o', co_detail o') = roll_up (co_claim o') (co_evidence o') (map (reported rep) (cl_sub_claims (co_claim o')))) ?outs"
    using report_facts [OF assms(1-3)] by blast
  have main: "i \<in> claim_id ` set ?outs \<and> reported rep i \<in> {SUPPORTED, DELEGATED, UNDEVELOPED}"
    if "relied_on rep ?cs (sc_root sc) i" for i
    using that
  proof (induction rule: relied_on.induct)
    case relied_root
    show ?case using ex(3) assms(4) by simp
  next
    case (relied_sub i c d)
    obtain o' where o': "o' \<in> set ?outs" "claim_id o' = i" "reported rep i = co_verdict o'" using reported_outcome [OF ex(2)] relied_sub.IH by blast
    have f: "map_of ?cs i = Some (co_claim o')" "set (cl_sub_claims (co_claim o')) \<subseteq> claim_id ` set ?outs"
      "co_verdict o' = fst (roll_up (co_claim o') (co_evidence o') (map (reported rep) (cl_sub_claims (co_claim o'))))"
      using outs o'(1,2) by (auto simp: list_all_iff) (metis fst_conv)
    have c: "c = co_claim o'" using f(1) relied_sub.hyps by simp
    have d: "d \<in> claim_id ` set ?outs" using f(2) relied_sub.hyps c by blast
    obtain p where p: "p \<in> set ?outs" "claim_id p = d" "reported rep d = co_verdict p" using reported_outcome [OF ex(2) d] by blast
    have "co_verdict p \<noteq> NOT_APPLICABLE" using outs p(1) roll_up_range by (auto simp: list_all_iff) (metis fst_conv)
    moreover have "reported rep d \<noteq> NOT_SUPPORTED \<and> reported rep d \<noteq> INCONCLUSIVE"
      using roll_up_supported(2) f(3) o'(3) relied_sub.hyps c by (metis (no_types, lifting) image_eqI list.set_map)
    ultimately show ?case using d p(3) by (cases "co_verdict p") auto
  qed
  have "list_all (\<lambda>e. map_of ex e \<noteq> None \<and> sound_result (result_of ex e)) (cl_evidence (the (map_of ?cs i)))"
    if r: "relied_on rep ?cs (sc_root sc) i" and s: "reported rep i = SUPPORTED" for i
  proof -
    obtain o' where o': "o' \<in> set ?outs" "claim_id o' = i" "reported rep i = co_verdict o'" using reported_outcome [OF ex(2)] main [OF r] by blast
    have f: "map_of ?cs i = Some (co_claim o')" "co_evidence o' = map (\<lambda>e. (e, result_of ex e)) (cl_evidence (co_claim o'))"
      "set (cl_evidence (co_claim o')) \<subseteq> fst ` set ex"
      "co_verdict o' = fst (roll_up (co_claim o') (co_evidence o') (map (reported rep) (cl_sub_claims (co_claim o'))))"
      using outs o'(1,2) by (auto simp: list_all_iff) (metis fst_conv)
    have "\<forall>ir \<in> set (co_evidence o'). sound_result (snd ir)" using roll_up_supported(1) f(4) o'(3) s by metis
    then show ?thesis using f by (auto simp: list_all_iff map_of_eq_None_iff)
  qed
  with main ex(1) show ?thesis by (intro exI [of _ ex]) blast
qed

lemma keyed_built: "keyed_case (new_case t r)" "keyed_case sc \<Longrightarrow> keyed_case (claim c sc)" "keyed_case sc \<Longrightarrow> keyed_case (add_evidence e sc)"
  by (auto simp: keyed_case_def new_case_def claim_def add_evidence_def update_conv' split: if_splits)

definition demo_evidence :: "nat Evidence" where
  "demo_evidence = \<lparr>evd_id = ''E1'', evd_description = ''a check'', evd_kind = ''test'', evd_run = (\<lambda>w. (w + 1, Inr (er_supported ''fine'' []))), evd_owner = ''us''\<rparr>"

definition demo_case :: "nat SafetyCase" where
  "demo_case =
     claim ((plain_claim ''G2'' ''held elsewhere'')\<lparr>cl_delegated_to := Some ''them''\<rparr>)
       (claim ((plain_claim ''G1'' ''the claim'')\<lparr>cl_sub_claims := [''G2''], cl_evidence := [''E1'', ''E1'']\<rparr>)
         (add_evidence demo_evidence (new_case ''demo'' ''G1'')))"

lemmas demo_case_defs = demo_case_def demo_evidence_def claim_def add_evidence_def new_case_def plain_claim_def

lemma demo_valid: "keyed_case demo_case" "validate demo_case = []" "sc_root demo_case = ''G1''"
proof -
  show "keyed_case demo_case" unfolding demo_case_def by (intro keyed_built)
  show "validate demo_case = []"
    by (simp add: validate_def find_cycles_def claim_problems_def sub_claims_of_def demo_case_defs)
  show "sc_root demo_case = ''G1''" by (simp add: demo_case_defs)
qed

lemma demo_case_verified:
  "\<exists>rep. verify_case id demo_case ''now'' 0 = Inr (1, rep) \<and> map claim_id (rep_outcomes rep) = [''G2'', ''G1''] \<and> reported rep ''G1'' = SUPPORTED"
  using demo_valid(2)
  by (simp add: verify_case_def demo_case_defs execute_def roll_up_def argue_def er_supported_def claim_id_def reported_def Let_def)

theorem report_is_one_run_witness:
  "\<exists>ex w' rep. verify_case id demo_case ''now'' 0 = Inr (w', rep) \<and> w' = 1 \<and> distinct (map fst ex) \<and> replays (sc_evidence demo_case) 0 ex w'"
proof -
  obtain rep where r: "verify_case id demo_case ''now'' 0 = Inr (1, rep)" using demo_case_verified by (elim exE conjE) (rule that)
  from report_is_one_run [OF demo_valid(1,2) r] r show ?thesis by auto
qed

theorem supported_root_sound_witness:
  "\<exists>ex rep. verify_case id demo_case ''now'' 0 = Inr (1, rep) \<and> replays (sc_evidence demo_case) 0 ex 1 \<and>
     list_all (\<lambda>e. map_of ex e \<noteq> None \<and> sound_result (result_of ex e)) (cl_evidence (the (map_of (sc_claims demo_case) ''G1'')))"
proof -
  obtain rep where r: "verify_case id demo_case ''now'' 0 = Inr (1, rep)" and s: "reported rep (sc_root demo_case) = SUPPORTED"
    using demo_case_verified by (elim exE conjE) (rule that, simp_all add: demo_valid(3))
  obtain ex where ex: "replays (sc_evidence demo_case) 0 ex 1"
    and all: "\<forall>i. relied_on rep (sc_claims demo_case) (sc_root demo_case) i \<longrightarrow> reported rep i \<in> {SUPPORTED, DELEGATED, UNDEVELOPED} \<and>
       (reported rep i = SUPPORTED \<longrightarrow>
          list_all (\<lambda>e. map_of ex e \<noteq> None \<and> sound_result (result_of ex e)) (cl_evidence (the (map_of (sc_claims demo_case) i))))"
    using supported_root_sound [OF demo_valid(1,2) r s] by blast
  have "relied_on rep (sc_claims demo_case) (sc_root demo_case) (sc_root demo_case)" by (rule relied_root)
  with all s have "list_all (\<lambda>e. map_of ex e \<noteq> None \<and> sound_result (result_of ex e)) (cl_evidence (the (map_of (sc_claims demo_case) (sc_root demo_case))))"
    by blast
  with r ex demo_valid(3) show ?thesis by auto
qed

end
