(* ===== verification/Mesh.thy ===== *)
theory Mesh
  imports Json_Text "HOL-Library.AList"
begin

text \<open>
  Store-carry-forward relaying (\<^verbatim>\<open>src/fasp_harness/resilience/mesh.py\<close>) over the fault-injecting virtual-time network
  (\<^verbatim>\<open>src/fasp_harness/resilience/faults.py\<close>): links with loss, duplication, reordering, corruption and partition, mesh nodes that
  deliver, carry and offer envelopes, the loop that runs virtual time forward and the partition scenario.

  Virtual time and the ratios are exact rationals. The pseudo-random generator of Python's \<^verbatim>\<open>random\<close> is a parameter
  \<open>rng\<close>, the sequence of its draws; the network keeps how many it has used. The heap of scheduled frames is the list of its
  elements in heap order, the order of \<^verbatim>\<open>heappop\<close>.
\<close>

section \<open>Envelopes and nodes\<close>

record mesh_envelope =
  me_message_id :: string
  me_origin :: string
  me_destination :: string
  me_payload :: json
  me_hops :: int
  me_hop_limit :: int
  me_expires_at :: pyfloat
  me_path :: "string list"

definition DEFAULT_HOP_LIMIT :: int where
  "DEFAULT_HOP_LIMIT = 6"

definition DEFAULT_CARRY_CAPACITY :: int where
  "DEFAULT_CARRY_CAPACITY = 512"

definition forwardable :: "mesh_envelope \<Rightarrow> rat \<Rightarrow> bool" where
  "forwardable e now = (me_hops e < me_hop_limit e \<and> fl_less (Fin now) (me_expires_at e))"

definition relayed_via :: "mesh_envelope \<Rightarrow> string \<Rightarrow> mesh_envelope" where
  "relayed_via e nd = e\<lparr>me_hops := me_hops e + 1, me_path := me_path e @ [nd]\<rparr>"

record mesh_stats =
  st_originated :: nat
  st_delivered :: nat
  st_relayed :: nat
  st_duplicates_suppressed :: nat
  st_expired :: nat
  st_hop_limited :: nat
  st_dropped_capacity :: nat
  st_corrupted_rejected :: nat

definition no_stats :: mesh_stats where
  "no_stats = \<lparr>st_originated = 0, st_delivered = 0, st_relayed = 0, st_duplicates_suppressed = 0, st_expired = 0,
     st_hop_limited = 0, st_dropped_capacity = 0, st_corrupted_rejected = 0\<rparr>"

text \<open>
  A node. Sets of strings are lists without repetition; \<^verbatim>\<open>_carrying\<close> is an association list in insertion order, and a missing
  entry of \<^verbatim>\<open>_forwarded\<close> is the empty list.
\<close>

record mesh_node =
  mn_id :: string
  mn_neighbours :: "string list"
  mn_capacity :: int
  mn_relay :: bool
  mn_stats :: mesh_stats
  mn_received :: "mesh_envelope list"
  mn_seen :: "string list"
  mn_carrying :: "(string \<times> mesh_envelope) list"
  mn_forwarded :: "string \<Rightarrow> string list"

definition new_node :: "string \<Rightarrow> string list \<Rightarrow> int \<Rightarrow> bool \<Rightarrow> mesh_node" where
  "new_node nid nbrs capacity relays =
     \<lparr>mn_id = nid, mn_neighbours = remdups nbrs, mn_capacity = capacity, mn_relay = relays, mn_stats = no_stats, mn_received = [],
      mn_seen = [], mn_carrying = [], mn_forwarded = (\<lambda>_. [])\<rparr>"

definition add_neighbour :: "mesh_node \<Rightarrow> string \<Rightarrow> mesh_node" where
  "add_neighbour nd x = nd\<lparr>mn_neighbours := List.insert x (mn_neighbours nd)\<rparr>"

section \<open>The network\<close>

record link_profile =
  lk_loss :: rat
  lk_duplicate :: rat
  lk_reorder :: rat
  lk_corrupt :: rat
  lk_latency :: "rat \<times> rat"
  lk_partitioned :: bool
  lk_max_in_flight :: int

definition perfect :: link_profile where
  "perfect = \<lparr>lk_loss = 0, lk_duplicate = 0, lk_reorder = 0, lk_corrupt = 0, lk_latency = (0, 0), lk_partitioned = False, lk_max_in_flight = 0\<rparr>"

definition industrial_wifi :: link_profile where
  "industrial_wifi = \<lparr>lk_loss = 8/100, lk_duplicate = 2/100, lk_reorder = 5/100, lk_corrupt = 0, lk_latency = (8, 120), lk_partitioned = False, lk_max_in_flight = 0\<rparr>"

definition lte_backhaul :: link_profile where
  "lte_backhaul = \<lparr>lk_loss = 1/100, lk_duplicate = 0, lk_reorder = 0, lk_corrupt = 0, lk_latency = (30, 250), lk_partitioned = False, lk_max_in_flight = 0\<rparr>"

text \<open>What a frame carries: a mesh envelope, or anything else a user of the network sends.\<close>

datatype frame_payload = Carried mesh_envelope | Opaque json

record net_frame =
  fr_due :: rat
  fr_sequence :: nat
  fr_source :: string
  fr_destination :: string
  fr_payload :: frame_payload
  fr_corrupted :: bool

record net_report =
  rp_sent :: nat
  rp_delivered :: nat
  rp_dropped_loss :: nat
  rp_dropped_partition :: nat
  rp_dropped_queue_full :: nat
  rp_duplicated :: nat
  rp_reordered :: nat
  rp_corrupted :: nat
  rp_per_link :: "string \<Rightarrow> nat option"

definition delivery_ratio :: "net_report \<Rightarrow> rat" where
  "delivery_ratio r = (if rp_sent r \<noteq> 0 then of_nat (rp_delivered r) / of_nat (rp_sent r) else 0)"

record sim_net =
  sn_now :: rat
  sn_report :: net_report
  sn_links :: "((string \<times> string) \<times> link_profile) list"
  sn_default :: link_profile
  sn_queue :: "net_frame list"
  sn_counter :: nat
  sn_in_flight :: "string \<times> string \<Rightarrow> int option"
  sn_drawn :: nat

definition new_network :: sim_net where
  "new_network =
     \<lparr>sn_now = 0, sn_report = \<lparr>rp_sent = 0, rp_delivered = 0, rp_dropped_loss = 0, rp_dropped_partition = 0, rp_dropped_queue_full = 0,
        rp_duplicated = 0, rp_reordered = 0, rp_corrupted = 0, rp_per_link = (\<lambda>_. None)\<rparr>,
      sn_links = [], sn_default = perfect, sn_queue = [], sn_counter = 0, sn_in_flight = (\<lambda>_. None), sn_drawn = 0\<rparr>"

definition link :: "sim_net \<Rightarrow> string \<Rightarrow> string \<Rightarrow> link_profile \<Rightarrow> bool \<Rightarrow> sim_net" where
  "link n src dst p bidirectional =
     (let n1 = n\<lparr>sn_links := AList.update (src, dst) p (sn_links n)\<rparr>
      in if bidirectional then n1\<lparr>sn_links := AList.update (dst, src) p (sn_links n1)\<rparr> else n1)"

definition profile_for :: "sim_net \<Rightarrow> string \<Rightarrow> string \<Rightarrow> link_profile" where
  "profile_for n src dst = (case map_of (sn_links n) (src, dst) of Some p \<Rightarrow> p | None \<Rightarrow> sn_default n)"

definition cut :: "string \<Rightarrow> string \<Rightarrow> sim_net \<Rightarrow> sim_net" where
  "cut src dst n =
     (let p = (case map_of (sn_links n) (src, dst) of Some p \<Rightarrow> p | None \<Rightarrow> sn_default n)
      in n\<lparr>sn_links := AList.update (src, dst) (p\<lparr>lk_partitioned := True\<rparr>) (sn_links n)\<rparr>)"

definition partition_net :: "string list \<Rightarrow> string list \<Rightarrow> bool \<Rightarrow> sim_net \<Rightarrow> sim_net" where
  "partition_net left right symmetric n =
     fold (\<lambda>src. fold (\<lambda>dst n. let n1 = cut src dst n in if symmetric then cut dst src n1 else n1) right) left n"

definition heal :: "sim_net \<Rightarrow> sim_net" where
  "heal n = n\<lparr>sn_links := map (\<lambda>(k, p). (k, if lk_partitioned p then p\<lparr>lk_partitioned := False\<rparr> else p)) (sn_links n)\<rparr>"

subsection \<open>Sending a frame\<close>

definition draw :: "(nat \<Rightarrow> rat) \<Rightarrow> sim_net \<Rightarrow> rat \<times> sim_net" where
  "draw rng n = (rng (sn_drawn n), n\<lparr>sn_drawn := sn_drawn n + 1\<rparr>)"

definition uniform :: "(nat \<Rightarrow> rat) \<Rightarrow> rat \<Rightarrow> rat \<Rightarrow> sim_net \<Rightarrow> rat \<times> sim_net" where
  "uniform rng a b n = (let (r, n1) = draw rng n in (a + (b - a) * r, n1))"

definition frame_before :: "net_frame \<Rightarrow> net_frame \<Rightarrow> bool" where
  "frame_before f g = (fr_due f < fr_due g \<or> (fr_due f = fr_due g \<and> fr_sequence f < fr_sequence g))"

fun heappush :: "net_frame \<Rightarrow> net_frame list \<Rightarrow> net_frame list" where
  "heappush f [] = [f]"
| "heappush f (g # gs) = (if frame_before f g then f # g # gs else g # heappush f gs)"

definition in_flight_of :: "sim_net \<Rightarrow> string \<Rightarrow> string \<Rightarrow> int \<Rightarrow> int" where
  "in_flight_of n src dst d = (case sn_in_flight n (src, dst) of Some k \<Rightarrow> k | None \<Rightarrow> d)"

text \<open>Delay and corruption of one copy; only the first copy may be reordered, by an extra delay.\<close>

definition copy_fate :: "(nat \<Rightarrow> rat) \<Rightarrow> link_profile \<Rightarrow> bool \<Rightarrow> sim_net \<Rightarrow> (rat \<times> bool) \<times> sim_net" where
  "copy_fate rng p first n =
     (let (low, high) = lk_latency p;
          (delay0, n1) = (if high > low then uniform rng low high n else (low, n));
          (reorder, n2) = (if first then (let (r, m) = draw rng n1 in (r < lk_reorder p, m)) else (False, n1));
          (delay, n3) =
            (if reorder
             then (let (d, m) = uniform rng low (max high (low + 1)) n2
                   in (delay0 + d, m\<lparr>sn_report := (sn_report m)\<lparr>rp_reordered := rp_reordered (sn_report m) + 1\<rparr>\<rparr>))
             else (delay0, n2));
          (r, n4) = draw rng n3
      in if r < lk_corrupt p
         then ((delay, True), n4\<lparr>sn_report := (sn_report n4)\<lparr>rp_corrupted := rp_corrupted (sn_report n4) + 1\<rparr>\<rparr>)
         else ((delay, False), n4))"

definition send_copy :: "(nat \<Rightarrow> rat) \<Rightarrow> link_profile \<Rightarrow> string \<Rightarrow> string \<Rightarrow> frame_payload \<Rightarrow> bool \<Rightarrow> sim_net \<Rightarrow> sim_net" where
  "send_copy rng p src dst payload first n =
     (case copy_fate rng p first n of
        ((delay, corrupted), n1) \<Rightarrow>
          n1\<lparr>sn_in_flight := (sn_in_flight n1)((src, dst) \<mapsto> in_flight_of n1 src dst 0 + 1),
             sn_counter := sn_counter n1 + 1,
             sn_queue := heappush \<lparr>fr_due = sn_now n1 + delay, fr_sequence = sn_counter n1, fr_source = src, fr_destination = dst,
                                   fr_payload = payload, fr_corrupted = corrupted\<rparr> (sn_queue n1)\<rparr>)"

definition net_send :: "(nat \<Rightarrow> rat) \<Rightarrow> string \<Rightarrow> string \<Rightarrow> frame_payload \<Rightarrow> sim_net \<Rightarrow> sim_net" where
  "net_send rng src dst payload n =
     (let key = src @ ''->'' @ dst;
          rp = sn_report n;
          n0 = n\<lparr>sn_report := rp\<lparr>rp_sent := rp_sent rp + 1,
                 rp_per_link := (rp_per_link rp)(key \<mapsto> (case rp_per_link rp key of Some k \<Rightarrow> k | None \<Rightarrow> 0) + 1)\<rparr>\<rparr>;
          p = profile_for n0 src dst
      in if lk_partitioned p
         then n0\<lparr>sn_report := (sn_report n0)\<lparr>rp_dropped_partition := rp_dropped_partition (sn_report n0) + 1\<rparr>\<rparr>
         else if lk_max_in_flight p \<noteq> 0 \<and> in_flight_of n0 src dst 0 \<ge> lk_max_in_flight p
         then n0\<lparr>sn_report := (sn_report n0)\<lparr>rp_dropped_queue_full := rp_dropped_queue_full (sn_report n0) + 1\<rparr>\<rparr>
         else (let (r, n1) = draw rng n0
               in if r < lk_loss p
                  then n1\<lparr>sn_report := (sn_report n1)\<lparr>rp_dropped_loss := rp_dropped_loss (sn_report n1) + 1\<rparr>\<rparr>
                  else (let (r2, n2) = draw rng n1
                        in if r2 < lk_duplicate p
                           then send_copy rng p src dst payload False
                                  (send_copy rng p src dst payload True
                                     (n2\<lparr>sn_report := (sn_report n2)\<lparr>rp_duplicated := rp_duplicated (sn_report n2) + 1\<rparr>\<rparr>))
                           else send_copy rng p src dst payload True n2)))"

section \<open>What a node does\<close>

definition bump :: "(mesh_stats \<Rightarrow> mesh_stats) \<Rightarrow> mesh_node \<Rightarrow> mesh_node" where
  "bump f nd = nd\<lparr>mn_stats := f (mn_stats nd)\<rparr>"

text \<open>\<^verbatim>\<open>min(values, key=expires_at_ms)\<close>: the first of the smallest; \<^verbatim>\<open>ValueError\<close> without values.\<close>

definition closest_to_expiry :: "mesh_envelope list \<Rightarrow> mesh_envelope result" where
  "closest_to_expiry es =
     (case es of [] \<Rightarrow> Inl ValueError
      | e # r \<Rightarrow> Inr (fold (\<lambda>x best. if fl_less (me_expires_at x) (me_expires_at best) then x else best) r e))"

definition carry :: "mesh_envelope \<Rightarrow> mesh_node \<Rightarrow> mesh_node result" where
  "carry e nd =
     bind_result
       (if int (length (mn_carrying nd)) \<ge> mn_capacity nd
        then bind_result (closest_to_expiry (map snd (mn_carrying nd))) (\<lambda>oldest.
               if me_message_id oldest \<in> fst ` set (mn_carrying nd)
               then Inr (bump (\<lambda>s. s\<lparr>st_dropped_capacity := st_dropped_capacity s + 1\<rparr>)
                          (nd\<lparr>mn_carrying := AList.delete (me_message_id oldest) (mn_carrying nd)\<rparr>))
               else Inl KeyError)
        else Inr nd)
       (\<lambda>nd1. Inr (nd1\<lparr>mn_carrying := AList.update (me_message_id e) e (mn_carrying nd1)\<rparr>))"

fun offer_each :: "(nat \<Rightarrow> rat) \<Rightarrow> string \<Rightarrow> mesh_envelope \<Rightarrow> string list \<Rightarrow> sim_net \<times> string list \<Rightarrow> sim_net \<times> string list" where
  "offer_each rng me e [] (n, already) = (n, already)"
| "offer_each rng me e (x # xs) (n, already) =
     (if x \<in> set (me_path e) \<or> x \<in> set already then offer_each rng me e xs (n, already)
      else offer_each rng me e xs (net_send rng me x (Carried e) n, x # already))"

definition offer :: "(nat \<Rightarrow> rat) \<Rightarrow> mesh_envelope \<Rightarrow> sim_net \<times> mesh_node \<Rightarrow> sim_net \<times> mesh_node" where
  "offer rng e = (\<lambda>(n, nd).
     if \<not> forwardable e (sn_now n)
     then (if me_hops e \<ge> me_hop_limit e then (n, bump (\<lambda>s. s\<lparr>st_hop_limited := st_hop_limited s + 1\<rparr>) nd)
           else (n, bump (\<lambda>s. s\<lparr>st_expired := st_expired s + 1\<rparr>) nd))
     else (let (n1, already) = offer_each rng (mn_id nd) e (sort (mn_neighbours nd)) (n, mn_forwarded nd (me_message_id e))
           in (n1, nd\<lparr>mn_forwarded := (mn_forwarded nd)(me_message_id e := already)\<rparr>)))"

text \<open>
  The operations of a node return the network and the node as they are left, with the exception if one was raised: what was
  written before it stays written.
\<close>

definition carry_and_offer :: "(nat \<Rightarrow> rat) \<Rightarrow> mesh_envelope \<Rightarrow> sim_net \<times> mesh_node \<Rightarrow> (sim_net \<times> mesh_node) \<times> unit result" where
  "carry_and_offer rng e = (\<lambda>(n, nd).
     case carry e nd of Inl x \<Rightarrow> ((n, nd), Inl x) | Inr nd1 \<Rightarrow> (offer rng e (n, nd1), Inr ()))"

definition mesh_send ::
    "(nat \<Rightarrow> rat) \<Rightarrow> string \<Rightarrow> string \<Rightarrow> json \<Rightarrow> rat \<Rightarrow> int \<Rightarrow> sim_net \<times> mesh_node \<Rightarrow> (sim_net \<times> mesh_node) \<times> mesh_envelope result" where
  "mesh_send rng dst mid payload ttl hop_limit = (\<lambda>(n, nd).
     let e = \<lparr>me_message_id = mid, me_origin = mn_id nd, me_destination = dst, me_payload = payload, me_hops = 0,
              me_hop_limit = hop_limit, me_expires_at = Fin (sn_now n + ttl), me_path = [mn_id nd]\<rparr>;
         nd1 = (bump (\<lambda>s. s\<lparr>st_originated := st_originated s + 1\<rparr>) nd)\<lparr>mn_seen := List.insert mid (mn_seen nd)\<rparr>
     in case carry_and_offer rng e (n, nd1) of (st, Inl x) \<Rightarrow> (st, Inl x) | (st, Inr _) \<Rightarrow> (st, Inr e))"

definition mesh_accept :: "(nat \<Rightarrow> rat) \<Rightarrow> mesh_envelope \<Rightarrow> sim_net \<times> mesh_node \<Rightarrow> (sim_net \<times> mesh_node) \<times> unit result" where
  "mesh_accept rng e = (\<lambda>(n, nd).
     if me_message_id e \<in> set (mn_seen nd)
     then (let nd1 = bump (\<lambda>s. s\<lparr>st_duplicates_suppressed := st_duplicates_suppressed s + 1\<rparr>) nd
           in case map_of (mn_carrying nd1) (me_message_id e) of
                None \<Rightarrow> ((n, nd1), Inr ())
              | Some carried \<Rightarrow> (offer rng carried (n, nd1), Inr ()))
     else (let nd1 = nd\<lparr>mn_seen := List.insert (me_message_id e) (mn_seen nd)\<rparr>
           in if me_destination e = mn_id nd1
              then ((n, (bump (\<lambda>s. s\<lparr>st_delivered := st_delivered s + 1\<rparr>) nd1)\<lparr>mn_received := mn_received nd1 @ [e]\<rparr>), Inr ())
              else if \<not> mn_relay nd1 then ((n, nd1), Inr ())
              else if fl_leq (me_expires_at e) (Fin (sn_now n))
              then ((n, bump (\<lambda>s. s\<lparr>st_expired := st_expired s + 1\<rparr>) nd1), Inr ())
              else if me_hops e \<ge> me_hop_limit e
              then ((n, bump (\<lambda>s. s\<lparr>st_hop_limited := st_hop_limited s + 1\<rparr>) nd1), Inr ())
              else carry_and_offer rng (relayed_via e (mn_id nd1)) (n, bump (\<lambda>s. s\<lparr>st_relayed := st_relayed s + 1\<rparr>) nd1)))"

definition on_frame :: "(nat \<Rightarrow> rat) \<Rightarrow> frame_payload \<Rightarrow> bool \<Rightarrow> sim_net \<times> mesh_node \<Rightarrow> (sim_net \<times> mesh_node) \<times> unit result" where
  "on_frame rng payload corrupted = (\<lambda>(n, nd).
     if corrupted then ((n, bump (\<lambda>s. s\<lparr>st_corrupted_rejected := st_corrupted_rejected s + 1\<rparr>) nd), Inr ())
     else (case payload of Carried e \<Rightarrow> mesh_accept rng e (n, nd) | Opaque _ \<Rightarrow> ((n, nd), Inr ())))"

definition offer_again :: "(nat \<Rightarrow> rat) \<Rightarrow> mesh_envelope \<Rightarrow> sim_net \<times> mesh_node \<Rightarrow> sim_net \<times> mesh_node" where
  "offer_again rng e = (\<lambda>(n, nd). offer rng e (n, nd\<lparr>mn_forwarded := (mn_forwarded nd)(me_message_id e := [])\<rparr>))"

definition mesh_tick :: "(nat \<Rightarrow> rat) \<Rightarrow> rat \<Rightarrow> sim_net \<times> mesh_node \<Rightarrow> sim_net \<times> mesh_node" where
  "mesh_tick rng now = (\<lambda>(n, nd).
     let is_expired = (\<lambda>kv :: string \<times> mesh_envelope. fl_leq (me_expires_at (snd kv)) (Fin now));
         gone = filter is_expired (mn_carrying nd);
         nd1 = bump (\<lambda>s. s\<lparr>st_expired := st_expired s + length gone\<rparr>)
                 (nd\<lparr>mn_carrying := filter (\<lambda>kv. \<not> is_expired kv) (mn_carrying nd)\<rparr>)
     in fold (offer_again rng) (map snd (mn_carrying nd1)) (n, nd1))"

section \<open>Virtual time\<close>

record mesh_world =
  mw_net :: sim_net
  mw_nodes :: "(string \<times> mesh_node) list"

definition pop_frame :: "net_frame \<Rightarrow> net_frame list \<Rightarrow> sim_net \<Rightarrow> sim_net" where
  "pop_frame f fs n =
     n\<lparr>sn_queue := fs, sn_now := max (sn_now n) (fr_due f),
       sn_in_flight := (sn_in_flight n)((fr_source f, fr_destination f) \<mapsto>
         max 0 (in_flight_of n (fr_source f) (fr_destination f) 1 - 1))\<rparr>"

text \<open>Handing a popped frame to the handler of its destination, if there is one; the number tells whether it was delivered.\<close>

definition receive_frame :: "(nat \<Rightarrow> rat) \<Rightarrow> net_frame \<Rightarrow> mesh_world \<Rightarrow> mesh_world \<times> nat result" where
  "receive_frame rng f w =
     (case map_of (mw_nodes w) (fr_destination f) of
        None \<Rightarrow> (w, Inr 0)
      | Some nd \<Rightarrow>
          (let n = mw_net w;
               n1 = n\<lparr>sn_report := (sn_report n)\<lparr>rp_delivered := rp_delivered (sn_report n) + 1\<rparr>\<rparr>
           in case on_frame rng (fr_payload f) (fr_corrupted f) (n1, nd) of
                ((n2, nd2), r) \<Rightarrow>
                  (\<lparr>mw_net = n2, mw_nodes = AList.update (fr_destination f) nd2 (mw_nodes w)\<rparr>,
                   (case r of Inl x \<Rightarrow> Inl x | Inr _ \<Rightarrow> Inr 1))))"

subsection \<open>The flood a frame can start is finite\<close>

text \<open>
  Handling a frame may send further frames, also with no delay at all, so that virtual time need not move. The loop ends
  because a node offers an envelope to a neighbour once until the next tick: the offers still open weigh three, each one
  makes at most two frames, and a frame weighs one.
\<close>

definition carried_ids :: "mesh_node \<Rightarrow> string set" where
  "carried_ids nd = me_message_id ` snd ` set (mn_carrying nd)"

definition frame_ids :: "net_frame list \<Rightarrow> string set" where
  "frame_ids fs = {me_message_id e | e f. f \<in> set fs \<and> fr_payload f = Carried e}"

definition live_ids :: "mesh_world \<Rightarrow> string set" where
  "live_ids w = frame_ids (sn_queue (mw_net w)) \<union> (\<Union>kv \<in> set (mw_nodes w). carried_ids (snd kv))"

definition open_offers :: "string set \<Rightarrow> mesh_node \<Rightarrow> nat" where
  "open_offers ids nd = card {(m, x). m \<in> ids \<and> x \<in> set (mn_neighbours nd) \<and> x \<notin> set (mn_forwarded nd m)}"

definition flood_left :: "mesh_world \<Rightarrow> nat" where
  "flood_left w = 3 * sum_list (map (open_offers (live_ids w) \<circ> snd) (mw_nodes w)) + length (sn_queue (mw_net w))"

lemma frame_ids_simps [simp]:
  "frame_ids [] = {}"
  "frame_ids (f # fs) = (case fr_payload f of Carried e \<Rightarrow> {me_message_id e} | Opaque _ \<Rightarrow> {}) \<union> frame_ids fs"
  by (auto simp: frame_ids_def split: frame_payload.splits)

lemma frame_ids_image: "frame_ids fs = (\<Union>f \<in> set fs. case fr_payload f of Carried e \<Rightarrow> {me_message_id e} | Opaque _ \<Rightarrow> {})"
  by (induction fs) auto

lemma finite_live_ids: "finite (live_ids w)"
  by (auto simp: live_ids_def frame_ids_image carried_ids_def split: frame_payload.split)

lemma set_heappush [simp]: "set (heappush f fs) = insert f (set fs)"
  by (induction fs) auto

lemma length_heappush [simp]: "length (heappush f fs) = Suc (length fs)"
  by (induction fs) auto

lemma finite_open_offers:
  "finite ids \<Longrightarrow> finite {(m, x). m \<in> ids \<and> x \<in> set (mn_neighbours nd) \<and> x \<notin> set (mn_forwarded nd m)}"
  by (rule finite_subset [of _ "ids \<times> set (mn_neighbours nd)"]) auto

lemma open_offers_mono: "finite ids' \<Longrightarrow> ids \<subseteq> ids' \<Longrightarrow> open_offers ids nd \<le> open_offers ids' nd"
  unfolding open_offers_def by (rule card_mono [OF finite_open_offers]) auto

text \<open>What drawing and counting leave alone: the clock, the links and the queue.\<close>

definition same_net :: "sim_net \<Rightarrow> sim_net \<Rightarrow> bool" where
  "same_net n n' = (sn_now n' = sn_now n \<and> sn_links n' = sn_links n \<and> sn_default n' = sn_default n)"

definition quiet :: "sim_net \<Rightarrow> sim_net \<Rightarrow> bool" where
  "quiet n n' = (same_net n n' \<and> sn_queue n' = sn_queue n)"

lemma same_net_refl [simp]: "same_net n n"
  by (simp add: same_net_def)

lemma same_net_trans: "same_net a b \<Longrightarrow> same_net b c \<Longrightarrow> same_net a c"
  by (simp add: same_net_def)

lemma same_net_profile: "same_net n n' \<Longrightarrow> profile_for n' src dst = profile_for n src dst"
  by (simp add: same_net_def profile_for_def split: option.split)

lemma quiet_simps [simp]:
  "quiet n n"
  "quiet n (m\<lparr>sn_drawn := d\<rparr>) = quiet n m"
  "quiet n (m\<lparr>sn_report := r\<rparr>) = quiet n m"
  by (simp_all add: quiet_def same_net_def)

lemma draw_quiet [simp]: "quiet n (snd (draw rng m)) = quiet n m"
  by (simp add: draw_def)

lemma uniform_quiet [simp]: "quiet n (snd (uniform rng a b m)) = quiet n m"
  by (simp add: uniform_def draw_def)

lemma copy_fate_quiet: "quiet n (snd (copy_fate rng p first n))"
  by (cases "lk_latency p") (simp add: copy_fate_def uniform_def draw_def Let_def)

lemma send_copy_effect:
  "\<exists>f. sn_queue (send_copy rng p src dst payload first n) = heappush f (sn_queue n) \<and>
     fr_source f = src \<and> fr_destination f = dst \<and> fr_payload f = payload \<and>
     same_net n (send_copy rng p src dst payload first n)"
proof -
  obtain d c n1 where eq: "copy_fate rng p first n = ((d, c), n1)" by (metis surj_pair)
  then have "quiet n n1" using copy_fate_quiet [of n rng p first] by simp
  then show ?thesis by (auto simp: send_copy_def eq quiet_def same_net_def intro!: exI [where x = "\<lparr>fr_due = sn_now n + d, fr_sequence = sn_counter n1,
      fr_source = src, fr_destination = dst, fr_payload = payload, fr_corrupted = c\<rparr>"])
qed

text \<open>The frames one send adds: at most two, from the sender to the receiver, with the payload, and none over a cut link.\<close>

definition adds_frames :: "sim_net \<Rightarrow> string \<Rightarrow> string \<Rightarrow> frame_payload \<Rightarrow> sim_net \<Rightarrow> bool" where
  "adds_frames n src dst payload n' =
     (same_net n n' \<and> length (sn_queue n') \<le> length (sn_queue n) + 2 \<and> set (sn_queue n) \<subseteq> set (sn_queue n') \<and>
      (\<forall>f \<in> set (sn_queue n') - set (sn_queue n). fr_source f = src \<and> fr_destination f = dst \<and> fr_payload f = payload \<and>
         \<not> lk_partitioned (profile_for n src dst)))"

lemma quiet_adds: "quiet n m \<Longrightarrow> adds_frames m src dst payload n' \<Longrightarrow> adds_frames n src dst payload n'"
  by (auto simp: quiet_def adds_frames_def same_net_profile intro: same_net_trans)

lemma quiet_adds_nothing: "quiet n m \<Longrightarrow> adds_frames n src dst payload m"
  by (simp add: quiet_def adds_frames_def)

lemma send_copies_add:
  assumes "\<not> lk_partitioned (profile_for n src dst)"
  shows "adds_frames n src dst payload (send_copy rng p src dst payload b n)"
    and "adds_frames n src dst payload (send_copy rng p src dst payload b (send_copy rng p src dst payload c n))"
  using send_copy_effect [of rng p src dst payload b n] send_copy_effect [of rng p src dst payload c n]
    send_copy_effect [of rng p src dst payload b "send_copy rng p src dst payload c n"] assms
  by (auto simp: adds_frames_def intro: same_net_trans)

lemma net_send_adds: "adds_frames n src dst payload (net_send rng src dst payload n)"
proof -
  define p where "p = profile_for n src dst"
  let ?n0 = "n\<lparr>sn_report := (sn_report n)\<lparr>rp_sent := rp_sent (sn_report n) + 1,
                 rp_per_link := (rp_per_link (sn_report n))(src @ ''->'' @ dst \<mapsto> (case rp_per_link (sn_report n) (src @ ''->'' @ dst) of Some k \<Rightarrow> k | None \<Rightarrow> 0) + 1)\<rparr>\<rparr>"
  have q: "quiet n ?n0" by simp
  have p: "profile_for ?n0 src dst = p" unfolding p_def by (simp add: profile_for_def split: option.split)
  show ?thesis
  proof (cases "lk_partitioned p")
    case True
    then show ?thesis unfolding net_send_def Let_def p by (simp add: quiet_adds_nothing)
  next
    case False
    have up: "\<not> lk_partitioned (profile_for m src dst)" if "quiet n m" for m
      using that False same_net_profile [of n m src dst] by (simp add: quiet_def p_def)
    show ?thesis unfolding net_send_def Let_def p using False
      by (simp add: draw_def quiet_adds_nothing)
        (intro conjI impI quiet_adds [OF _ send_copies_add(1)] quiet_adds [OF _ send_copies_add(2)] up; simp)
  qed
qed

text \<open>
  What a node may emit: frames of its own, each with an envelope and a receiver that satisfy \<open>Q\<close>, over links that are not cut.
\<close>

definition emits :: "string \<Rightarrow> (mesh_envelope \<Rightarrow> string \<Rightarrow> bool) \<Rightarrow> sim_net \<Rightarrow> sim_net \<Rightarrow> bool" where
  "emits me Q n n' =
     (same_net n n' \<and> set (sn_queue n) \<subseteq> set (sn_queue n') \<and>
      (\<forall>f \<in> set (sn_queue n') - set (sn_queue n). fr_source f = me \<and> \<not> lk_partitioned (profile_for n me (fr_destination f)) \<and>
         (\<exists>e. fr_payload f = Carried e \<and> Q e (fr_destination f))))"

lemma emits_refl [simp]: "emits me Q n n"
  by (simp add: emits_def)

lemma emits_trans: "emits me Q a b \<Longrightarrow> emits me Q b c \<Longrightarrow> emits me Q a c"
  unfolding emits_def by (fastforce simp: same_net_profile intro: same_net_trans)

lemma emits_mono: "emits me Q n n' \<Longrightarrow> (\<And>e x. Q e x \<Longrightarrow> Q' e x) \<Longrightarrow> emits me Q' n n'"
  unfolding emits_def by fastforce

lemma emits_quiet: "emits me Q (n\<lparr>sn_report := r\<rparr>) n' = emits me Q n n'"
  by (simp add: emits_def same_net_def profile_for_def cong: option.case_cong)

lemma net_send_emits: "Q e x \<Longrightarrow> emits me Q n (net_send rng me x (Carried e) n)"
  using net_send_adds [of n me x "Carried e" rng] unfolding adds_frames_def emits_def by auto

lemma emits_frame_ids: "emits me (\<lambda>e x. Q e x \<and> me_message_id e \<in> ids) n n' \<Longrightarrow> frame_ids (sn_queue n') \<subseteq> frame_ids (sn_queue n) \<union> ids"
proof
  fix m assume em: "emits me (\<lambda>e x. Q e x \<and> me_message_id e \<in> ids) n n'" and "m \<in> frame_ids (sn_queue n')"
  then obtain e f where f: "m = me_message_id e" "f \<in> set (sn_queue n')" "fr_payload f = Carried e" by (auto simp: frame_ids_def)
  show "m \<in> frame_ids (sn_queue n) \<union> ids"
  proof (cases "f \<in> set (sn_queue n)")
    case True
    with f show ?thesis by (auto simp: frame_ids_def)
  next
    case False
    with em f(2) obtain e' where "fr_payload f = Carried e'" "me_message_id e' \<in> ids" unfolding emits_def by blast
    with f show ?thesis by simp
  qed
qed

lemma offer_each_spec:
  assumes "offer_each rng me e xs (n, a) = (n', a')"
  shows "emits me (\<lambda>e' x. e' = e \<and> x \<in> set xs \<and> x \<notin> set (me_path e)) n n' \<and> set a \<subseteq> set a' \<and> set a' \<subseteq> set a \<union> set xs \<and>
    length (sn_queue n') \<le> length (sn_queue n) + 2 * card (set a' - set a)"
  using assms
proof (induction xs arbitrary: n a)
  case Nil
  then show ?case by simp
next
  case (Cons x xs)
  let ?Q = "\<lambda>e' y. e' = e \<and> y \<in> set (x # xs) \<and> y \<notin> set (me_path e)"
  show ?case
  proof (cases "x \<in> set (me_path e) \<or> x \<in> set a")
    case True
    with Cons.prems have "offer_each rng me e xs (n, a) = (n', a')" by simp
    note ih = Cons.IH [OF this]
    have "emits me ?Q n n'" by (rule emits_mono [OF conjunct1 [OF ih]]) simp
    with ih show ?thesis by auto
  next
    case False
    let ?m = "net_send rng me x (Carried e) n"
    have eq: "offer_each rng me e xs (?m, x # a) = (n', a')" using Cons.prems False by simp
    note ih = Cons.IH [OF eq]
    have "emits me ?Q n ?m" by (rule net_send_emits) (use False in simp)
    moreover have "emits me ?Q ?m n'" by (rule emits_mono [OF conjunct1 [OF ih]]) simp
    ultimately have em: "emits me ?Q n n'" by (rule emits_trans)
    have split: "set a' - set a = insert x (set a' - set (x # a))" using ih False by auto
    have "card (set a' - set a) = Suc (card (set a' - set (x # a)))"
      by (rule trans [OF arg_cong [where f = card, OF split] card_insert_disjoint]) simp_all
    moreover have "length (sn_queue ?m) \<le> length (sn_queue n) + 2" using net_send_adds [of n me x "Carried e" rng] by (simp add: adds_frames_def)
    ultimately have "length (sn_queue n') \<le> length (sn_queue n) + 2 * card (set a' - set a)" using ih by linarith
    with em ih show ?thesis by auto
  qed
qed

text \<open>Offering leaves the messages of a node alone.\<close>

definition same_mail :: "mesh_node \<Rightarrow> mesh_node \<Rightarrow> bool" where
  "same_mail nd nd' = (mn_id nd' = mn_id nd \<and> mn_neighbours nd' = mn_neighbours nd \<and> mn_capacity nd' = mn_capacity nd \<and>
     mn_relay nd' = mn_relay nd \<and> mn_received nd' = mn_received nd \<and> mn_seen nd' = mn_seen nd \<and> mn_carrying nd' = mn_carrying nd \<and>
     st_delivered (mn_stats nd') = st_delivered (mn_stats nd))"

lemma same_mail_refl [simp]: "same_mail nd nd"
  by (simp add: same_mail_def)

lemma same_mail_trans: "same_mail a b \<Longrightarrow> same_mail b c \<Longrightarrow> same_mail a c"
  by (simp add: same_mail_def)

lemma offer_spec:
  assumes "offer rng e (n, nd) = (n', nd')"
  shows "same_mail nd nd' \<and>
    emits (mn_id nd) (\<lambda>e' x. e' = e \<and> x \<in> set (mn_neighbours nd) \<and> x \<notin> set (me_path e) \<and> forwardable e (sn_now n)) n n'"
proof (cases "forwardable e (sn_now n)")
  case False
  with assms show ?thesis by (auto simp: offer_def same_mail_def bump_def split: if_splits)
next
  case True
  obtain m a where oe: "offer_each rng (mn_id nd) e (sort (mn_neighbours nd)) (n, mn_forwarded nd (me_message_id e)) = (m, a)"
    by (cases "offer_each rng (mn_id nd) e (sort (mn_neighbours nd)) (n, mn_forwarded nd (me_message_id e))")
  with assms True have "n' = m" "nd' = nd\<lparr>mn_forwarded := (mn_forwarded nd)(me_message_id e := a)\<rparr>" by (auto simp: offer_def)
  moreover have "emits (mn_id nd) (\<lambda>e' x. e' = e \<and> x \<in> set (mn_neighbours nd) \<and> x \<notin> set (me_path e) \<and> forwardable e (sn_now n)) n m"
    by (rule emits_mono [OF conjunct1 [OF offer_each_spec [OF oe]]]) (use True in simp)
  ultimately show ?thesis by (simp add: same_mail_def)
qed

lemma offer_weight:
  assumes "offer rng e (n, nd) = (n', nd')" and "finite ids" and "me_message_id e \<in> ids"
  shows "3 * open_offers ids nd' + length (sn_queue n') \<le> 3 * open_offers ids nd + length (sn_queue n)"
proof (cases "forwardable e (sn_now n)")
  case False
  with assms(1) show ?thesis by (auto simp: offer_def open_offers_def bump_def split: if_splits)
next
  case True
  let ?m = "me_message_id e"
  obtain m a where oe: "offer_each rng (mn_id nd) e (sort (mn_neighbours nd)) (n, mn_forwarded nd ?m) = (m, a)"
    by (cases "offer_each rng (mn_id nd) e (sort (mn_neighbours nd)) (n, mn_forwarded nd ?m)")
  with assms(1) True have eq: "n' = m" "nd' = nd\<lparr>mn_forwarded := (mn_forwarded nd)(?m := a)\<rparr>" by (auto simp: offer_def)
  let ?open = "\<lambda>nd. {(m, x). m \<in> ids \<and> x \<in> set (mn_neighbours nd) \<and> x \<notin> set (mn_forwarded nd m)}"
  let ?new = "set a - set (mn_forwarded nd ?m)"
  note sp = offer_each_spec [OF oe]
  have sub: "Pair ?m ` ?new \<subseteq> ?open nd" using sp assms(3) by auto
  have "?open nd' = ?open nd - Pair ?m ` ?new" using sp eq by (auto split: if_splits)
  then have "card (?open nd') = card (?open nd) - card (Pair ?m ` ?new)"
    using card_Diff_subset [OF finite_subset [OF sub finite_open_offers [OF assms(2)]] sub] by simp
  moreover have "card (Pair ?m ` ?new) = card ?new" by (simp add: card_image inj_on_def)
  moreover have "card (Pair ?m ` ?new) \<le> card (?open nd)" by (rule card_mono [OF finite_open_offers [OF assms(2)] sub])
  ultimately have "card (?open nd') + card ?new = card (?open nd)" by simp
  moreover have "length (sn_queue n') \<le> length (sn_queue n) + 2 * card ?new" using sp eq by simp
  ultimately show ?thesis unfolding open_offers_def by linarith
qed

lemma carry_spec:
  assumes "carry e nd = Inr nd'"
  shows "mn_id nd' = mn_id nd \<and> mn_neighbours nd' = mn_neighbours nd \<and> mn_capacity nd' = mn_capacity nd \<and> mn_relay nd' = mn_relay nd \<and>
    mn_received nd' = mn_received nd \<and> mn_seen nd' = mn_seen nd \<and> mn_forwarded nd' = mn_forwarded nd \<and>
    st_delivered (mn_stats nd') = st_delivered (mn_stats nd) \<and>
    (\<exists>kept. mn_carrying nd' = AList.update (me_message_id e) e kept \<and>
       (kept = mn_carrying nd \<and> int (length (mn_carrying nd)) < mn_capacity nd \<or>
        (\<exists>m \<in> fst ` set (mn_carrying nd). kept = AList.delete m (mn_carrying nd))))"
proof (cases "int (length (mn_carrying nd)) \<ge> mn_capacity nd")
  case True
  obtain old where old: "closest_to_expiry (map snd (mn_carrying nd)) = Inr old"
    using True assms by (cases "closest_to_expiry (map snd (mn_carrying nd))") (simp_all add: carry_def)
  have inn: "me_message_id old \<in> fst ` set (mn_carrying nd)" using True assms old by (simp add: carry_def split: if_splits)
  have "nd' = nd\<lparr>mn_stats := (mn_stats nd)\<lparr>st_dropped_capacity := st_dropped_capacity (mn_stats nd) + 1\<rparr>,
       mn_carrying := AList.update (me_message_id e) e (AList.delete (me_message_id old) (mn_carrying nd))\<rparr>"
    using True assms old inn by (simp add: carry_def bump_def)
  moreover have "\<exists>m \<in> fst ` set (mn_carrying nd). AList.delete (me_message_id old) (mn_carrying nd) = AList.delete m (mn_carrying nd)"
    using inn by (rule rev_bexI) (rule refl)
  ultimately show ?thesis by (intro conjI) (simp_all, blast)
next
  case False
  with assms show ?thesis by (auto simp: carry_def)
qed

lemma set_update_carrying: "snd ` set (AList.update k v xs) \<subseteq> insert v (snd ` set xs)"
  by (induction xs) auto

lemma carry_values:
  assumes "carry e nd = Inr nd'"
  shows "snd ` set (mn_carrying nd') \<subseteq> insert e (snd ` set (mn_carrying nd))"
proof -
  have del: "snd ` set (AList.delete m xs) \<subseteq> snd ` set xs" for m and xs :: "(string \<times> mesh_envelope) list" by (auto simp: AList.delete_eq)
  obtain kept where kept: "mn_carrying nd' = AList.update (me_message_id e) e kept" "snd ` set kept \<subseteq> snd ` set (mn_carrying nd)"
  proof -
    obtain kept where eq: "mn_carrying nd' = AList.update (me_message_id e) e kept"
      and "kept = mn_carrying nd \<or> (\<exists>m. kept = AList.delete m (mn_carrying nd))" using carry_spec [OF assms] by blast
    then have "snd ` set kept \<subseteq> snd ` set (mn_carrying nd)" by (elim disjE exE) (simp_all only: del order_refl)
    then show thesis by (rule that [OF eq])
  qed
  from set_update_carrying [of "me_message_id e" e kept] kept(2) show ?thesis unfolding kept(1) by (rule order_trans [OF _ insert_mono])
qed

text \<open>The envelopes a node can send on when it accepts one: what it carries already and the accepted one, relayed.\<close>

definition accept_emits :: "mesh_envelope \<Rightarrow> mesh_node \<Rightarrow> rat \<Rightarrow> mesh_envelope \<Rightarrow> string \<Rightarrow> bool" where
  "accept_emits e nd now e' x =
     (x \<in> set (mn_neighbours nd) \<and> x \<notin> set (me_path e') \<and> forwardable e' now \<and>
      (e' \<in> snd ` set (mn_carrying nd) \<and> me_message_id e \<in> set (mn_seen nd) \<or>
       e' = relayed_via e (mn_id nd) \<and> me_message_id e \<notin> set (mn_seen nd) \<and> me_destination e \<noteq> mn_id nd))"

definition accepted :: "mesh_envelope \<Rightarrow> mesh_node \<Rightarrow> mesh_node \<Rightarrow> bool" where
  "accepted e nd nd' =
     (mn_id nd' = mn_id nd \<and> mn_neighbours nd' = mn_neighbours nd \<and> mn_capacity nd' = mn_capacity nd \<and> mn_relay nd' = mn_relay nd \<and>
      mn_seen nd' = List.insert (me_message_id e) (mn_seen nd) \<and>
      (if me_message_id e \<notin> set (mn_seen nd) \<and> me_destination e = mn_id nd
       then mn_received nd' = mn_received nd @ [e] \<and> st_delivered (mn_stats nd') = st_delivered (mn_stats nd) + 1
       else mn_received nd' = mn_received nd \<and> st_delivered (mn_stats nd') = st_delivered (mn_stats nd)) \<and>
      (mn_carrying nd' = mn_carrying nd \<or>
       me_message_id e \<notin> set (mn_seen nd) \<and> me_destination e \<noteq> mn_id nd \<and> me_hops e < me_hop_limit e \<and>
       (\<exists>a b. carry (relayed_via e (mn_id nd)) a = Inr b \<and> mn_carrying a = mn_carrying nd \<and> mn_capacity a = mn_capacity nd \<and>
          mn_carrying nd' = mn_carrying b)))"

lemma relayed_via_simps [simp]:
  "me_message_id (relayed_via e x) = me_message_id e"
  "me_origin (relayed_via e x) = me_origin e"
  "me_destination (relayed_via e x) = me_destination e"
  "me_payload (relayed_via e x) = me_payload e"
  "me_hop_limit (relayed_via e x) = me_hop_limit e"
  "me_expires_at (relayed_via e x) = me_expires_at e"
  "me_hops (relayed_via e x) = me_hops e + 1"
  "me_path (relayed_via e x) = me_path e @ [x]"
  by (simp_all add: relayed_via_def)

lemma carry_and_offer_spec:
  assumes "carry_and_offer rng e (n, nd) = ((n', nd'), r)"
  shows "(case r of Inl _ \<Rightarrow> n' = n \<and> nd' = nd | Inr _ \<Rightarrow>
     \<exists>nd1. carry e nd = Inr nd1 \<and> same_mail nd1 nd' \<and>
       emits (mn_id nd) (\<lambda>e' x. e' = e \<and> x \<in> set (mn_neighbours nd) \<and> x \<notin> set (me_path e) \<and> forwardable e (sn_now n)) n n')"
proof (cases "carry e nd")
  case (Inl x)
  with assms show ?thesis by (auto simp: carry_and_offer_def)
next
  case (Inr nd1)
  with assms have r: "r = Inr ()" and o: "offer rng e (n, nd1) = (n', nd')" by (auto simp: carry_and_offer_def)
  from offer_spec [OF o] carry_spec [OF Inr] r Inr show ?thesis by simp
qed

lemma accept_spec:
  assumes "mesh_accept rng e (n, nd) = ((n', nd'), r)"
  shows "accepted e nd nd' \<and> emits (mn_id nd) (accept_emits e nd (sn_now n)) n n'"
proof (cases "me_message_id e \<in> set (mn_seen nd)")
  case True
  show ?thesis
  proof (cases "map_of (mn_carrying nd) (me_message_id e)")
    case None
    with True assms show ?thesis by (auto simp: mesh_accept_def accepted_def bump_def List.insert_def)
  next
    case (Some c)
    let ?nd1 = "bump (\<lambda>s. s\<lparr>st_duplicates_suppressed := st_duplicates_suppressed s + 1\<rparr>) nd"
    have o: "offer rng c (n, ?nd1) = (n', nd')" using Some True assms by (simp add: mesh_accept_def bump_def Let_def)
    have c: "c \<in> snd ` set (mn_carrying nd)" using Some by (force dest: map_of_SomeD)
    note sp = offer_spec [OF o]
    have "emits (mn_id nd) (accept_emits e nd (sn_now n)) n n'"
      using sp by (auto simp: bump_def accept_emits_def True c intro: emits_mono)
    with sp True show ?thesis by (simp add: same_mail_def accepted_def bump_def List.insert_def)
  qed
next
  case new: False
  let ?nd1 = "nd\<lparr>mn_seen := List.insert (me_message_id e) (mn_seen nd)\<rparr>"
  let ?nd2 = "bump (\<lambda>s. s\<lparr>st_relayed := st_relayed s + 1\<rparr>) ?nd1"
  show ?thesis
  proof (cases "me_destination e = mn_id nd \<or> \<not> mn_relay nd \<or> fl_leq (me_expires_at e) (Fin (sn_now n)) \<or> me_hops e \<ge> me_hop_limit e")
    case True
    with new assms show ?thesis by (auto simp: mesh_accept_def accepted_def bump_def Let_def split: if_splits)
  next
    case False
    with new assms have co: "carry_and_offer rng (relayed_via e (mn_id nd)) (n, ?nd2) = ((n', nd'), r)"
      by (simp add: mesh_accept_def Let_def)
    show ?thesis
    proof (cases r)
      case (Inl x)
      with carry_and_offer_spec [OF co] new False show ?thesis by (simp add: accepted_def bump_def)
    next
      case (Inr u)
      then obtain nd1 where c: "carry (relayed_via e (mn_id nd)) ?nd2 = Inr nd1" and m: "same_mail nd1 nd'"
        and em: "emits (mn_id nd) (\<lambda>e' x. e' = relayed_via e (mn_id nd) \<and> x \<in> set (mn_neighbours nd) \<and>
                   x \<notin> set (me_path (relayed_via e (mn_id nd))) \<and> forwardable (relayed_via e (mn_id nd)) (sn_now n)) n n'"
        using carry_and_offer_spec [OF co] by (auto simp: bump_def)
      have "emits (mn_id nd) (accept_emits e nd (sn_now n)) n n'"
        by (rule emits_mono [OF em]) (use new False in \<open>simp add: accept_emits_def\<close>)
      moreover have "accepted e nd nd'"
      proof -
        have "\<exists>a b. carry (relayed_via e (mn_id nd)) a = Inr b \<and> mn_carrying a = mn_carrying nd \<and> mn_capacity a = mn_capacity nd \<and>
          mn_carrying nd' = mn_carrying b"
          by (rule exI [of _ ?nd2], rule exI [of _ nd1]) (use c m in \<open>simp add: same_mail_def bump_def\<close>)
        with carry_spec [OF c] m new False show ?thesis by (simp add: accepted_def same_mail_def bump_def)
      qed
      ultimately show ?thesis by simp
    qed
  qed
qed

definition same_offers :: "mesh_node \<Rightarrow> mesh_node \<Rightarrow> bool" where
  "same_offers nd nd' = (mn_neighbours nd' = mn_neighbours nd \<and> mn_forwarded nd' = mn_forwarded nd)"

lemma same_offers_bump [simp]: "same_offers nd (bump f nd') = same_offers nd nd'"
  by (simp add: same_offers_def bump_def)

lemma same_offers_open: "same_offers nd nd' \<Longrightarrow> open_offers ids nd' = open_offers ids nd"
  by (simp add: same_offers_def open_offers_def)

lemma accept_offers:
  assumes "mesh_accept rng e (n, nd) = ((n', nd'), r)"
  shows "n' = n \<and> same_offers nd nd' \<or>
    (\<exists>c nd0. (me_message_id c = me_message_id e \<or> c \<in> snd ` set (mn_carrying nd)) \<and> same_offers nd nd0 \<and> offer rng c (n, nd0) = (n', nd'))"
proof (cases "me_message_id e \<in> set (mn_seen nd)")
  case True
  let ?nd1 = "bump (\<lambda>s. s\<lparr>st_duplicates_suppressed := st_duplicates_suppressed s + 1\<rparr>) nd"
  show ?thesis
  proof (cases "map_of (mn_carrying nd) (me_message_id e)")
    case None
    with True assms show ?thesis by (auto simp: mesh_accept_def bump_def same_offers_def)
  next
    case (Some c)
    then have "offer rng c (n, ?nd1) = (n', nd')" using True assms by (simp add: mesh_accept_def bump_def Let_def)
    moreover have "c \<in> snd ` set (mn_carrying nd)" using Some by (force dest: map_of_SomeD)
    moreover have "same_offers nd ?nd1" by (simp add: same_offers_def bump_def)
    ultimately show ?thesis by blast
  qed
next
  case new: False
  let ?nd1 = "nd\<lparr>mn_seen := List.insert (me_message_id e) (mn_seen nd)\<rparr>"
  let ?nd2 = "bump (\<lambda>s. s\<lparr>st_relayed := st_relayed s + 1\<rparr>) ?nd1" and ?e = "relayed_via e (mn_id nd)"
  show ?thesis
  proof (cases "me_destination e = mn_id nd \<or> \<not> mn_relay nd \<or> fl_leq (me_expires_at e) (Fin (sn_now n)) \<or> me_hops e \<ge> me_hop_limit e")
    case True
    with new assms show ?thesis by (auto simp: mesh_accept_def bump_def Let_def same_offers_def split: if_splits)
  next
    case False
    with new assms have co: "carry_and_offer rng ?e (n, ?nd2) = ((n', nd'), r)" by (simp add: mesh_accept_def Let_def)
    show ?thesis
    proof (cases "carry ?e ?nd2")
      case (Inl x)
      with co show ?thesis by (auto simp: carry_and_offer_def same_offers_def bump_def)
    next
      case (Inr nd3)
      with co have "offer rng ?e (n, nd3) = (n', nd')" by (auto simp: carry_and_offer_def)
      moreover have "same_offers nd nd3" using carry_spec [OF Inr] by (simp add: same_offers_def bump_def)
      moreover have "me_message_id ?e = me_message_id e" by simp
      ultimately show ?thesis by blast
    qed
  qed
qed

lemma accepted_carrying:
  assumes "accepted e nd nd'"
  shows "snd ` set (mn_carrying nd') \<subseteq> insert (relayed_via e (mn_id nd)) (snd ` set (mn_carrying nd))"
proof -
  from assms consider "mn_carrying nd' = mn_carrying nd"
    | a b where "carry (relayed_via e (mn_id nd)) a = Inr b" "mn_carrying a = mn_carrying nd" "mn_carrying nd' = mn_carrying b"
    unfolding accepted_def by blast
  then show ?thesis
  proof cases
    case 1
    show ?thesis unfolding 1 by (rule subset_insertI)
  next
    case (2 a b)
    show ?thesis using carry_values [OF 2(1)] unfolding 2(2,3) .
  qed
qed

lemma accept_weight:
  assumes "mesh_accept rng e (n, nd) = ((n', nd'), r)" and "finite ids" and "me_message_id e \<in> ids" and "carried_ids nd \<subseteq> ids"
  shows "3 * open_offers ids nd' + length (sn_queue n') \<le> 3 * open_offers ids nd + length (sn_queue n) \<and>
    frame_ids (sn_queue n') \<subseteq> frame_ids (sn_queue n) \<union> ids \<and> carried_ids nd' \<subseteq> ids"
proof (intro conjI)
  show "3 * open_offers ids nd' + length (sn_queue n') \<le> 3 * open_offers ids nd + length (sn_queue n)"
    using accept_offers [OF assms(1)]
  proof (elim disjE exE conjE)
    assume "n' = n" "same_offers nd nd'"
    then show ?thesis by (simp add: same_offers_open)
  next
    fix c nd0 assume c: "me_message_id c = me_message_id e" and s: "same_offers nd nd0" and o: "offer rng c (n, nd0) = (n', nd')"
    show ?thesis using offer_weight [OF o assms(2)] c assms(3) same_offers_open [OF s] by simp
  next
    fix c nd0 assume c: "c \<in> snd ` set (mn_carrying nd)" and s: "same_offers nd nd0" and o: "offer rng c (n, nd0) = (n', nd')"
    have "me_message_id c \<in> ids" using c assms(4) by (auto simp: carried_ids_def)
    then show ?thesis using offer_weight [OF o assms(2)] same_offers_open [OF s] by simp
  qed
  note sp = accept_spec [OF assms(1)]
  have "emits (mn_id nd) (\<lambda>e x. True \<and> me_message_id e \<in> ids) n n'"
  proof (rule emits_mono [OF conjunct2 [OF sp]])
    fix e' x assume "accept_emits e nd (sn_now n) e' x"
    then show "True \<and> me_message_id e' \<in> ids" using assms(3,4) by (auto simp: accept_emits_def carried_ids_def)
  qed
  then show "frame_ids (sn_queue n') \<subseteq> frame_ids (sn_queue n) \<union> ids" by (rule emits_frame_ids)
  have "snd ` set (mn_carrying nd') \<subseteq> insert (relayed_via e (mn_id nd)) (snd ` set (mn_carrying nd))"
    by (rule accepted_carrying [OF conjunct1 [OF sp]])
  then have "carried_ids nd' \<subseteq> me_message_id ` insert (relayed_via e (mn_id nd)) (snd ` set (mn_carrying nd))"
    unfolding carried_ids_def by (rule image_mono)
  also have "\<dots> = insert (me_message_id e) (carried_ids nd)" by (simp add: carried_ids_def)
  finally show "carried_ids nd' \<subseteq> ids" using assms(3,4) by blast
qed

lemma on_frame_weight:
  assumes "on_frame rng p c (n, nd) = ((n', nd'), r)" and "finite ids" and "carried_ids nd \<subseteq> ids"
    and "case p of Carried e \<Rightarrow> me_message_id e \<in> ids | Opaque _ \<Rightarrow> True"
  shows "3 * open_offers ids nd' + length (sn_queue n') \<le> 3 * open_offers ids nd + length (sn_queue n) \<and>
    frame_ids (sn_queue n') \<subseteq> frame_ids (sn_queue n) \<union> ids \<and> carried_ids nd' \<subseteq> ids"
proof (cases "c \<or> (\<exists>j. p = Opaque j)")
  case True
  with assms(1) have "n' = n" and "same_offers nd nd'" and c: "mn_carrying nd' = mn_carrying nd"
    by (auto simp: on_frame_def bump_def same_offers_def split: if_splits)
  then have "n' = n" "open_offers ids nd' = open_offers ids nd" "carried_ids nd' = carried_ids nd"
    by (simp_all add: same_offers_open carried_ids_def)
  with assms(3) show ?thesis by simp
next
  case False
  with assms obtain e where "p = Carried e" "mesh_accept rng e (n, nd) = ((n', nd'), r)" by (cases p) (auto simp: on_frame_def)
  with assms accept_weight [of rng e n nd n' nd' r ids] show ?thesis by simp
qed

lemma sum_list_update:
  fixes g :: "'b \<Rightarrow> nat"
  shows "map_of xs k = Some v \<Longrightarrow> sum_list (map (g \<circ> snd) (AList.update k v' xs)) + g v = sum_list (map (g \<circ> snd) xs) + g v'"
  by (induction xs) (auto split: if_splits)

lemma map_of_snd: "map_of xs k = Some v \<Longrightarrow> \<exists>kv \<in> set xs. snd kv = v"
  by (induction xs) (auto split: if_splits)

lemma receive_frame_flood:
  assumes q: "sn_queue (mw_net w) = f # fs" and rf: "receive_frame rng f (w\<lparr>mw_net := pop_frame f fs (mw_net w)\<rparr>) = (w', Inr d)"
  shows "flood_left w' + d \<le> flood_left w \<and> flood_left w' < flood_left w"
proof -
  let ?ids = "live_ids w" and ?w0 = "w\<lparr>mw_net := pop_frame f fs (mw_net w)\<rparr>"
  let ?sum = "\<lambda>nodes. sum_list (map (open_offers ?ids \<circ> snd) nodes)"
  have fin: "finite ?ids" by (rule finite_live_ids)
  have le: "sum_list (map (open_offers (live_ids v) \<circ> snd) nodes) \<le> ?sum nodes" if "live_ids v \<subseteq> ?ids" for v nodes
    by (rule sum_list_mono) (simp add: open_offers_mono [OF fin that])
  have pq: "sn_queue (pop_frame f fs n) = fs" for n by (simp add: pop_frame_def)
  have sub: "frame_ids fs \<subseteq> ?ids" using q by (auto simp: live_ids_def)
  show ?thesis
  proof (cases "map_of (mw_nodes w) (fr_destination f)")
    case None
    with rf have w': "w' = ?w0" "d = 0" by (simp_all add: receive_frame_def)
    have "live_ids w' \<subseteq> ?ids" using q sub by (auto simp: w' live_ids_def pq)
    from le [OF this, of "mw_nodes w"] show ?thesis unfolding flood_left_def w' using q by (simp add: pq)
  next
    case (Some nd)
    let ?n1 = "(pop_frame f fs (mw_net w))\<lparr>sn_report := (sn_report (pop_frame f fs (mw_net w)))\<lparr>rp_delivered := rp_delivered (sn_report (pop_frame f fs (mw_net w))) + 1\<rparr>\<rparr>"
    obtain n2 nd2 r where of: "on_frame rng (fr_payload f) (fr_corrupted f) (?n1, nd) = ((n2, nd2), r)" by (metis surj_pair)
    with rf Some have w': "w' = \<lparr>mw_net = n2, mw_nodes = AList.update (fr_destination f) nd2 (mw_nodes w)\<rparr>" "d = 1"
      by (auto simp: receive_frame_def Let_def split: sum.splits)
    have c: "carried_ids nd \<subseteq> ?ids" using map_of_snd [OF Some] by (auto simp: live_ids_def)
    have p: "case fr_payload f of Carried e \<Rightarrow> me_message_id e \<in> ?ids | Opaque _ \<Rightarrow> True"
      using q by (cases "fr_payload f") (simp_all add: live_ids_def)
    note ow = on_frame_weight [OF of fin c p]
    have "frame_ids (sn_queue n2) \<subseteq> ?ids" using ow sub by (auto simp: pq)
    moreover have "(\<Union>kv \<in> set (AList.update (fr_destination f) nd2 (mw_nodes w)). carried_ids (snd kv)) \<subseteq> ?ids"
    proof -
      have "snd ` set (AList.update (fr_destination f) nd2 (mw_nodes w)) \<subseteq> insert nd2 (snd ` set (mw_nodes w))"
        by (rule set_update_carrying)
      then have "\<Union> (carried_ids ` snd ` set (AList.update (fr_destination f) nd2 (mw_nodes w))) \<subseteq> \<Union> (carried_ids ` insert nd2 (snd ` set (mw_nodes w)))"
        by (intro Union_mono image_mono)
      moreover have "\<Union> (carried_ids ` insert nd2 (snd ` set (mw_nodes w))) \<subseteq> ?ids" using ow by (simp add: live_ids_def) 
      ultimately show ?thesis unfolding image_image by (rule order_trans)
    qed
    ultimately have "live_ids w' \<subseteq> ?ids" unfolding live_ids_def [of w'] unfolding w' mesh_world.select_convs by (rule Un_least)
    from le [OF this, of "mw_nodes w'"]
    have "flood_left w' \<le> 3 * ?sum (mw_nodes w') + length (sn_queue n2)" by (simp add: flood_left_def w')
    moreover have "?sum (mw_nodes w') + open_offers ?ids nd = ?sum (mw_nodes w) + open_offers ?ids nd2"
      unfolding w' mesh_world.select_convs by (rule sum_list_update [OF Some])
    moreover have "flood_left w = 3 * ?sum (mw_nodes w) + length fs + 1" using q by (simp add: flood_left_def)
    ultimately show ?thesis using ow w'(2) by (simp add: pq)
  qed
qed

function deliver_due :: "(nat \<Rightarrow> rat) \<Rightarrow> rat \<Rightarrow> nat \<Rightarrow> mesh_world \<Rightarrow> mesh_world \<times> nat result" where
  "deliver_due rng target k w =
     (case sn_queue (mw_net w) of
        [] \<Rightarrow> (w, Inr k)
      | f # fs \<Rightarrow>
          (if fr_due f \<le> target
           then (case receive_frame rng f (w\<lparr>mw_net := pop_frame f fs (mw_net w)\<rparr>) of
                   (w1, Inl x) \<Rightarrow> (w1, Inl x)
                 | (w1, Inr d) \<Rightarrow> deliver_due rng target (k + d) w1)
           else (w, Inr k)))"
  by pat_completeness auto

termination
proof (relation "measure (\<lambda>(rng, target, k, w). flood_left w)", goal_cases)
  case (2 rng target k w f fs p w1 s)
  then show ?case by (auto dest: receive_frame_flood [OF _ sym])
qed auto

declare deliver_due.simps [simp del]

definition advance_to :: "(nat \<Rightarrow> rat) \<Rightarrow> rat \<Rightarrow> mesh_world \<Rightarrow> mesh_world \<times> nat result" where
  "advance_to rng target w =
     (case deliver_due rng target 0 w of
        (w1, Inl x) \<Rightarrow> (w1, Inl x)
      | (w1, Inr k) \<Rightarrow> (w1\<lparr>mw_net := (mw_net w1)\<lparr>sn_now := max (sn_now (mw_net w1)) target\<rparr>\<rparr>, Inr k))"

definition advance :: "(nat \<Rightarrow> rat) \<Rightarrow> rat \<Rightarrow> mesh_world \<Rightarrow> mesh_world \<times> nat result" where
  "advance rng duration w = advance_to rng (sn_now (mw_net w) + duration) w"

text \<open>
  \<^verbatim>\<open>run\<close>: periodic work and the early end are callbacks; without them the callback does nothing and the run is not ended early.
  The loop need not end when \<^verbatim>\<open>tick_ms\<close> is not positive, so the result is an option.
\<close>

partial_function (option) run_loop ::
    "(nat \<Rightarrow> rat) \<Rightarrow> rat \<Rightarrow> (rat \<Rightarrow> mesh_world \<Rightarrow> mesh_world) \<Rightarrow> (mesh_world \<Rightarrow> bool) \<Rightarrow> rat \<Rightarrow> mesh_world \<Rightarrow> (mesh_world \<times> unit result) option" where
  "run_loop rng tick_ms on_tick until deadline w =
     (if sn_now (mw_net w) < deadline
      then (let w1 = on_tick (sn_now (mw_net w)) w
            in if until w1 then Some (w1, Inr ())
               else (case advance rng (min tick_ms (deadline - sn_now (mw_net w1))) w1 of
                       (w2, Inl x) \<Rightarrow> Some (w2, Inl x)
                     | (w2, Inr _) \<Rightarrow> run_loop rng tick_ms on_tick until deadline w2))
      else Some (w, Inr ()))"

definition net_run ::
    "(nat \<Rightarrow> rat) \<Rightarrow> rat \<Rightarrow> rat \<Rightarrow> (rat \<Rightarrow> mesh_world \<Rightarrow> mesh_world) \<Rightarrow> (mesh_world \<Rightarrow> bool) \<Rightarrow> mesh_world \<Rightarrow> (mesh_world \<times> rat result) option" where
  "net_run rng duration tick_ms on_tick until w =
     (case run_loop rng tick_ms on_tick until (sn_now (mw_net w) + duration) w of
        None \<Rightarrow> None
      | Some (w1, Inl x) \<Rightarrow> Some (w1, Inl x)
      | Some (w1, Inr _) \<Rightarrow> (let w2 = on_tick (sn_now (mw_net w1)) w1 in Some (w2, Inr (sn_now (mw_net w2)))))"

definition drain :: "(nat \<Rightarrow> rat) \<Rightarrow> rat \<Rightarrow> rat \<Rightarrow> (rat \<Rightarrow> mesh_world \<Rightarrow> mesh_world) \<Rightarrow> mesh_world \<Rightarrow> (mesh_world \<times> rat result) option" where
  "drain rng max_ms tick_ms on_tick w = net_run rng max_ms tick_ms on_tick (\<lambda>w. sn_queue (mw_net w) = []) w"

definition in_flight :: "mesh_world \<Rightarrow> nat" where
  "in_flight w = length (sn_queue (mw_net w))"

section \<open>The partition scenario\<close>

definition at_node :: "string \<Rightarrow> (sim_net \<times> mesh_node \<Rightarrow> (sim_net \<times> mesh_node) \<times> 'a result) \<Rightarrow> mesh_world \<Rightarrow> mesh_world \<times> 'a result" where
  "at_node k act w =
     (case map_of (mw_nodes w) k of
        None \<Rightarrow> (w, Inl KeyError)
      | Some nd \<Rightarrow> (case act (mw_net w, nd) of
            ((n, nd'), r) \<Rightarrow> (\<lparr>mw_net = n, mw_nodes = AList.update k nd' (mw_nodes w)\<rparr>, r)))"

definition tick_node :: "(nat \<Rightarrow> rat) \<Rightarrow> rat \<Rightarrow> string \<Rightarrow> mesh_world \<Rightarrow> mesh_world" where
  "tick_node rng now k w = fst (at_node k (\<lambda>st. (mesh_tick rng now st, Inr ())) w)"

definition tick_all :: "(nat \<Rightarrow> rat) \<Rightarrow> rat \<Rightarrow> mesh_world \<Rightarrow> mesh_world" where
  "tick_all rng now w = fold (tick_node rng now) (map fst (mw_nodes w)) w"

text \<open>
  The identifiers \<^verbatim>\<open>on_deliver\<close> was called with, node by node; the scenario uses their number and their set only.
\<close>

definition delivered_ids :: "mesh_world \<Rightarrow> string list" where
  "delivered_ids w = concat (map (\<lambda>kv. map me_message_id (mn_received (snd kv))) (mw_nodes w))"

record scenario_report =
  sr_sent :: nat
  sr_delivered :: nat
  sr_delivered_during_partition :: nat
  sr_duplicate_deliveries :: int
  sr_virtual_ms :: rat
  sr_network :: net_report
  sr_nodes :: "(string \<times> mesh_node) list"

definition report_complete :: "scenario_report \<Rightarrow> bool" where
  "report_complete r = (sr_delivered r = sr_sent r \<and> sr_duplicate_deliveries r = 0)"

definition chain_neighbours :: "string list \<Rightarrow> nat \<Rightarrow> string list" where
  "chain_neighbours ids i =
     filter (\<lambda>x. x \<noteq> []) ((if i \<noteq> 0 then [ids ! (i - 1)] else []) @ (if i + 1 < length ids then [ids ! (i + 1)] else []))"

definition chain_network :: "link_profile \<Rightarrow> string list \<Rightarrow> sim_net" where
  "chain_network p ids = fold (\<lambda>(l, r) n. link n l r p True) (zip ids (tl ids)) (new_network\<lparr>sn_default := p\<rparr>)"

definition chain_world :: "link_profile \<Rightarrow> string list \<Rightarrow> mesh_world" where
  "chain_world p ids =
     \<lparr>mw_net = chain_network p ids,
      mw_nodes = fold (\<lambda>i. AList.update (ids ! i) (new_node (ids ! i) (chain_neighbours ids i) DEFAULT_CARRY_CAPACITY True))
                   [0..<length ids] []\<rparr>"

definition message_name :: "nat \<Rightarrow> string" where
  "message_name i = (let t = nat_text i in ''msg-'' @ replicate (4 - length t) CHR ''0'' @ t)"

fun send_all :: "(nat \<Rightarrow> rat) \<Rightarrow> string \<Rightarrow> string \<Rightarrow> rat \<Rightarrow> nat list \<Rightarrow> mesh_world \<Rightarrow> mesh_world \<times> unit result" where
  "send_all rng src dst ttl [] w = (w, Inr ())"
| "send_all rng src dst ttl (i # is) w =
     (case at_node src (mesh_send rng dst (message_name i) (JObj [(''index'', JInt (int i))]) ttl DEFAULT_HOP_LIMIT) w of
        (w1, Inl x) \<Rightarrow> (w1, Inl x)
      | (w1, Inr _) \<Rightarrow> send_all rng src dst ttl is w1)"

definition run_partition_scenario ::
    "(nat \<Rightarrow> rat) \<Rightarrow> string list \<Rightarrow> link_profile option \<Rightarrow> nat \<Rightarrow> rat \<Rightarrow> rat \<Rightarrow> rat \<Rightarrow> rat \<Rightarrow> scenario_report result option" where
  "run_partition_scenario rng ids profile messages partition_after partition_duration settle tick_ms =
     (let p = (case profile of Some p \<Rightarrow> p | None \<Rightarrow> industrial_wifi); tick = tick_all rng; w0 = chain_world p ids in
      if ids = [] then Some (Inl IndexError) else
      case net_run rng partition_after tick_ms tick (\<lambda>_. False) w0 of
        None \<Rightarrow> None | Some (_, Inl x) \<Rightarrow> Some (Inl x) | Some (w1, Inr _) \<Rightarrow>
      let midpoint = length ids div 2;
          w2 = w1\<lparr>mw_net := partition_net (take midpoint ids) (drop midpoint ids) True (mw_net w1)\<rparr> in
      case send_all rng (hd ids) (last ids) (partition_duration + settle + 10000) [0..<messages] w2 of
        (_, Inl x) \<Rightarrow> Some (Inl x) | (w3, Inr _) \<Rightarrow>
      case net_run rng partition_duration tick_ms tick (\<lambda>_. False) w3 of
        None \<Rightarrow> None | Some (_, Inl x) \<Rightarrow> Some (Inl x) | Some (w4, Inr _) \<Rightarrow>
      let during = card (set (delivered_ids w4)); w5 = w4\<lparr>mw_net := heal (mw_net w4)\<rparr> in
      case net_run rng settle tick_ms tick (\<lambda>w. card (set (delivered_ids w)) = messages) w5 of
        None \<Rightarrow> None | Some (_, Inl x) \<Rightarrow> Some (Inl x) | Some (w6, Inr _) \<Rightarrow>
      Some (Inr \<lparr>sr_sent = messages, sr_delivered = card (set (delivered_ids w6)), sr_delivered_during_partition = during,
                 sr_duplicate_deliveries = int (length (delivered_ids w6)) - int (card (set (delivered_ids w6))),
                 sr_virtual_ms = sn_now (mw_net w6), sr_network = sn_report (mw_net w6), sr_nodes = mw_nodes w6\<rparr>))"

end
