(* ===== verification/Mesh_Safety.thy ===== *)
theory Mesh_Safety
  imports Mesh
begin

text \<open>
  What the relaying of \<^verbatim>\<open>src/fasp_harness/resilience/mesh.py\<close> guarantees on the network of \<^verbatim>\<open>faults.py\<close>, whatever the network does:
  invariants of nodes and frames as a locale that is interpreted for each of them, delivery at most once, relays that neither
  alter nor loop, bounds on a flood, and the partition scenario.
\<close>

section \<open>Invariants of the mail\<close>

text \<open>
  The contract an invariant of nodes and frames has to meet: \<open>own\<close> holds of a node, \<open>ok\<close> of an envelope on the way from one node
  to another, and \<open>up\<close> of the links that are not cut. Given how a node takes, passes and forgets envelopes, the invariant then
  holds in whatever order frames arrive and nodes tick.
\<close>

locale mesh_mail =
  fixes up :: "string \<Rightarrow> string \<Rightarrow> bool"
    and own :: "string \<Rightarrow> mesh_node \<Rightarrow> bool"
    and ok :: "mesh_envelope \<Rightarrow> string \<Rightarrow> string \<Rightarrow> bool"
  assumes own_id: "own k nd \<Longrightarrow> mn_id nd = k"
    and own_mail: "own k nd \<Longrightarrow> same_mail nd nd' \<Longrightarrow> own k nd'"
    and own_filter: "own k nd \<Longrightarrow> own k (nd\<lparr>mn_carrying := filter p (mn_carrying nd)\<rparr>)"
    and own_accepted: "own k nd \<Longrightarrow> ok e s k \<Longrightarrow> accepted e nd nd' \<Longrightarrow> own k nd'"
    and ok_carried: "own k nd \<Longrightarrow> c \<in> snd ` set (mn_carrying nd) \<Longrightarrow> x \<in> set (mn_neighbours nd) \<Longrightarrow> x \<notin> set (me_path c) \<Longrightarrow>
      me_hops c < me_hop_limit c \<Longrightarrow> up k x \<Longrightarrow> ok c k x"
    and ok_relayed: "own k nd \<Longrightarrow> ok e s k \<Longrightarrow> me_message_id e \<notin> set (mn_seen nd) \<Longrightarrow> me_destination e \<noteq> k \<Longrightarrow> x \<in> set (mn_neighbours nd) \<Longrightarrow>
      x \<noteq> k \<Longrightarrow> x \<notin> set (me_path e) \<Longrightarrow> me_hops e + 1 < me_hop_limit e \<Longrightarrow> up k x \<Longrightarrow> ok (relayed_via e k) k x"
begin

definition links_ok :: "sim_net \<Rightarrow> bool" where
  "links_ok n = (\<forall>s d. lk_partitioned (profile_for n s d) \<or> up s d)"

definition queue_ok :: "sim_net \<Rightarrow> bool" where
  "queue_ok n = (\<forall>f \<in> set (sn_queue n). \<forall>e. fr_payload f = Carried e \<longrightarrow> ok e (fr_source f) (fr_destination f))"

definition mail_inv :: "mesh_world \<Rightarrow> bool" where
  "mail_inv w = (links_ok (mw_net w) \<and> queue_ok (mw_net w) \<and> (\<forall>kv \<in> set (mw_nodes w). own (fst kv) (snd kv)))"

lemma mail_inv_node: "mail_inv w \<Longrightarrow> map_of (mw_nodes w) k = Some nd \<Longrightarrow> own k nd"
  unfolding mail_inv_def by (auto dest!: map_of_SomeD)

lemma mail_inv_update:
  assumes "mail_inv w" and "links_ok n" and "queue_ok n" and "own k nd"
  shows "mail_inv \<lparr>mw_net = n, mw_nodes = AList.update k nd (mw_nodes w)\<rparr>"
proof -
  have "set (AList.update k nd xs) \<subseteq> insert (k, nd) (set xs)" for xs by (induction xs) auto
  from this [of "mw_nodes w"] show ?thesis using assms unfolding mail_inv_def by auto
qed

lemma emits_net:
  assumes em: "emits k Q n n'" and "links_ok n" and "queue_ok n"
    and Q: "\<And>e x. Q e x \<Longrightarrow> up k x \<Longrightarrow> ok e k x"
  shows "links_ok n' \<and> queue_ok n'"
proof
  have same: "profile_for n' s d = profile_for n s d" for s d using em by (simp add: emits_def same_net_profile)
  show "links_ok n'" using assms(2) by (simp add: links_ok_def same)
  show "queue_ok n'" unfolding queue_ok_def
  proof (intro ballI allI impI)
    fix f e assume f: "f \<in> set (sn_queue n')" and p: "fr_payload f = Carried e"
    show "ok e (fr_source f) (fr_destination f)"
    proof (cases "f \<in> set (sn_queue n)")
      case True
      with assms(3) p show ?thesis by (simp add: queue_ok_def)
    next
      case False
      with em f have "fr_source f = k" "\<not> lk_partitioned (profile_for n k (fr_destination f))" and q: "\<exists>e. fr_payload f = Carried e \<and> Q e (fr_destination f)"
        unfolding emits_def by blast+
      moreover have "up k (fr_destination f)" using calculation(2) assms(2) unfolding links_ok_def by blast
      ultimately show ?thesis using Q p by auto
    qed
  qed
qed

lemma offer_inv:
  assumes "offer rng c (n, nd) = (n', nd')" and "own k nd" and "c \<in> snd ` set (mn_carrying nd)" and "links_ok n" and "queue_ok n"
  shows "links_ok n' \<and> queue_ok n' \<and> own k nd' \<and> mn_carrying nd' = mn_carrying nd"
proof -
  note sp = offer_spec [OF assms(1)] and id = own_id [OF assms(2)]
  have "links_ok n' \<and> queue_ok n'"
    by (rule emits_net [OF conjunct2 [OF sp, unfolded id] assms(4,5)])
      (use ok_carried [OF assms(2,3)] in \<open>auto simp: forwardable_def\<close>)
  moreover have "own k nd'" using own_mail [OF assms(2)] sp by blast
  ultimately show ?thesis using sp by (simp add: same_mail_def)
qed

lemma accept_inv:
  assumes "mesh_accept rng e (n, nd) = ((n', nd'), r)" and "own k nd" and "ok e s k" and "links_ok n" and "queue_ok n"
  shows "links_ok n' \<and> queue_ok n' \<and> own k nd'"
proof -
  note sp = accept_spec [OF assms(1)] and id = own_id [OF assms(2)]
  have "links_ok n' \<and> queue_ok n'"
  proof (rule emits_net [OF conjunct2 [OF sp, unfolded id] assms(4,5)])
    fix e' x assume a: "accept_emits e nd (sn_now n) e' x" and u: "up k x"
    then consider "e' \<in> snd ` set (mn_carrying nd)" | "e' = relayed_via e k" "me_message_id e \<notin> set (mn_seen nd)" "me_destination e \<noteq> k"
      unfolding accept_emits_def id by blast
    then show "ok e' k x"
    proof cases
      case 1
      with a u show ?thesis by (intro ok_carried [OF assms(2)]) (auto simp: accept_emits_def forwardable_def)
    next
      case 2
      with a u show ?thesis unfolding 2(1) by (intro ok_relayed [OF assms(2,3)]) (auto simp: accept_emits_def forwardable_def)
    qed
  qed
  with own_accepted [OF assms(2,3)] sp show ?thesis by blast
qed

lemma on_frame_inv:
  assumes "on_frame rng p c (n, nd) = ((n', nd'), r)" and "own k nd" and "\<And>e. p = Carried e \<Longrightarrow> ok e s k" and "links_ok n" and "queue_ok n"
  shows "links_ok n' \<and> queue_ok n' \<and> own k nd'"
proof (cases "c \<or> (\<exists>j. p = Opaque j)")
  case True
  with assms(1) have "n' = n" "same_mail nd nd'" by (auto simp: on_frame_def bump_def same_mail_def split: if_splits)
  with assms own_mail show ?thesis by blast
next
  case False
  with assms(1) obtain e where e: "p = Carried e" "mesh_accept rng e (n, nd) = ((n', nd'), r)" by (cases p) (auto simp: on_frame_def)
  from accept_inv [OF e(2) assms(2) assms(3) [OF e(1)] assms(4,5)] show ?thesis .
qed

lemma pop_inv: "sn_queue n = f # fs \<Longrightarrow> links_ok n \<Longrightarrow> queue_ok n \<Longrightarrow> links_ok (pop_frame f fs n) \<and> queue_ok (pop_frame f fs n)"
  by (simp add: links_ok_def queue_ok_def pop_frame_def profile_for_def cong: option.case_cong)

lemma receive_inv:
  assumes "sn_queue (mw_net w) = f # fs" and "mail_inv w" and "receive_frame rng f (w\<lparr>mw_net := pop_frame f fs (mw_net w)\<rparr>) = (w', r)"
  shows "mail_inv w'"
proof -
  let ?n = "pop_frame f fs (mw_net w)"
  have n: "links_ok ?n" "queue_ok ?n" using pop_inv assms(1,2) by (auto simp: mail_inv_def)
  show ?thesis
  proof (cases "map_of (mw_nodes w) (fr_destination f)")
    case None
    with assms n show ?thesis by (auto simp: receive_frame_def mail_inv_def)
  next
    case (Some nd)
    let ?n1 = "?n\<lparr>sn_report := (sn_report ?n)\<lparr>rp_delivered := rp_delivered (sn_report ?n) + 1\<rparr>\<rparr>"
    obtain n2 nd2 r2 where of: "on_frame rng (fr_payload f) (fr_corrupted f) (?n1, nd) = ((n2, nd2), r2)" by (metis surj_pair)
    have w': "w' = \<lparr>mw_net = n2, mw_nodes = AList.update (fr_destination f) nd2 (mw_nodes w)\<rparr>"
      using assms(3) Some of by (simp add: receive_frame_def Let_def)
    have n1: "links_ok ?n1" "queue_ok ?n1" using n by (simp_all add: links_ok_def queue_ok_def profile_for_def cong: option.case_cong)
    have "ok e (fr_source f) (fr_destination f)" if "fr_payload f = Carried e" for e
      using assms(1,2) that by (simp add: mail_inv_def queue_ok_def)
    from on_frame_inv [OF of mail_inv_node [OF assms(2) Some] this n1] show ?thesis
      unfolding w' using assms(2) by (auto intro: mail_inv_update)
  qed
qed

lemma deliver_due_inv: "mail_inv w \<Longrightarrow> mail_inv (fst (deliver_due rng target k w))"
proof (induction rng target k w rule: deliver_due.induct)
  case (1 rng target k w)
  show ?case
  proof (cases "sn_queue (mw_net w)")
    case Nil
    with 1(2) show ?thesis by (simp add: deliver_due.simps [of rng target k w])
  next
    case (Cons f fs)
    obtain w1 r where rf: "receive_frame rng f (w\<lparr>mw_net := pop_frame f fs (mw_net w)\<rparr>) = (w1, r)" by (metis surj_pair)
    have w1: "mail_inv w1" by (rule receive_inv [OF Cons 1(2) rf])
    show ?thesis
    proof (cases "\<exists>d. r = Inr d \<and> fr_due f \<le> target")
      case True
      then obtain d where r: "r = Inr d" and due: "fr_due f \<le> target" by blast
      from 1(1) [OF Cons due rf [symmetric] r w1] show ?thesis using Cons due rf r by (simp add: deliver_due.simps [of rng target k w])
    next
      case False
      with w1 1(2) Cons rf show ?thesis by (cases r) (simp_all add: deliver_due.simps [of rng target k w])
    qed
  qed
qed

lemma mail_inv_now: "mail_inv (w\<lparr>mw_net := (mw_net w)\<lparr>sn_now := t\<rparr>\<rparr>) = mail_inv w"
  by (simp add: mail_inv_def links_ok_def queue_ok_def profile_for_def cong: option.case_cong)

lemma advance_to_inv: "mail_inv w \<Longrightarrow> mail_inv (fst (advance_to rng target w))"
  using deliver_due_inv [of w rng target 0]
  by (cases "deliver_due rng target 0 w"; cases "snd (deliver_due rng target 0 w)") (simp_all add: advance_to_def mail_inv_now)

end

context mesh_mail
begin

lemma offers_inv:
  assumes "fold (offer_again rng) es (n, nd) = (n', nd')" and "own k nd" and "set es \<subseteq> snd ` set (mn_carrying nd)"
    and "links_ok n" and "queue_ok n"
  shows "links_ok n' \<and> queue_ok n' \<and> own k nd' \<and> mn_carrying nd' = mn_carrying nd"
  using assms
proof (induction es arbitrary: n nd)
  case Nil
  then show ?case by simp
next
  case (Cons e es)
  let ?nd0 = "nd\<lparr>mn_forwarded := (mn_forwarded nd)(me_message_id e := [])\<rparr>"
  obtain n1 nd1 where o: "offer rng e (n, ?nd0) = (n1, nd1)" by (cases "offer rng e (n, ?nd0)")
  have "own k ?nd0" by (rule own_mail [OF Cons.prems(2)]) (simp add: same_mail_def)
  from offer_inv [OF o this _ Cons.prems(4,5)] Cons.prems(3)
  have "links_ok n1" "queue_ok n1" "own k nd1" "mn_carrying nd1 = mn_carrying nd" by simp_all
  with Cons.IH [of n1 nd1] Cons.prems(1,3) o show ?case by (simp add: offer_again_def)
qed

lemma tick_inv:
  assumes "mesh_tick rng now (n, nd) = (n', nd')" and "own k nd" and "links_ok n" and "queue_ok n"
  shows "links_ok n' \<and> queue_ok n' \<and> own k nd'"
proof -
  let ?gone = "\<lambda>kv :: string \<times> mesh_envelope. fl_leq (me_expires_at (snd kv)) (Fin now)"
  let ?nd1 = "bump (\<lambda>s. s\<lparr>st_expired := st_expired s + length (filter ?gone (mn_carrying nd))\<rparr>)
                 (nd\<lparr>mn_carrying := filter (\<lambda>kv. \<not> ?gone kv) (mn_carrying nd)\<rparr>)"
  have "own k ?nd1"
    by (rule own_mail [OF own_filter [OF assms(2), of "\<lambda>kv. \<not> ?gone kv"]]) (simp add: same_mail_def bump_def)
  moreover have "fold (offer_again rng) (map snd (mn_carrying ?nd1)) (n, ?nd1) = (n', nd')"
    using assms(1) by (simp add: mesh_tick_def Let_def)
  ultimately show ?thesis using offers_inv [of rng "map snd (mn_carrying ?nd1)" n ?nd1 n' nd' k] assms(3,4) by simp
qed

lemma tick_node_inv: "mail_inv w \<Longrightarrow> mail_inv (tick_node rng now k w)"
proof (cases "map_of (mw_nodes w) k")
  case (Some nd)
  assume i: "mail_inv w"
  obtain n' nd' where t: "mesh_tick rng now (mw_net w, nd) = (n', nd')" by (cases "mesh_tick rng now (mw_net w, nd)")
  have "links_ok n' \<and> queue_ok n' \<and> own k nd'" by (rule tick_inv [OF t mail_inv_node [OF i Some]]) (use i in \<open>simp_all add: mail_inv_def\<close>)
  with i show ?thesis by (simp add: tick_node_def at_node_def Some t mail_inv_update)
qed (simp add: tick_node_def at_node_def)

lemma tick_all_inv: "mail_inv w \<Longrightarrow> mail_inv (tick_all rng now w)"
proof -
  have "mail_inv w \<Longrightarrow> mail_inv (fold (tick_node rng now) ks w)" for ks w by (induction ks arbitrary: w) (simp_all add: tick_node_inv)
  then show "mail_inv w \<Longrightarrow> mail_inv (tick_all rng now w)" by (simp add: tick_all_def)
qed

end

section \<open>Running\<close>

lemma advance_moves:
  assumes "advance rng d w = (w', Inr k)"
  shows "sn_now (mw_net w) + d \<le> sn_now (mw_net w')"
  using assms by (auto simp: advance_def advance_to_def split: prod.splits sum.splits)

text \<open>
  A run with a positive tick ends, whatever the frames do in between; what periodic work and deliveries keep holds at its end.
\<close>

lemma run_loop_returns:
  assumes "0 < tick_ms" and "\<And>t w. sn_now (mw_net (on_tick t w)) = sn_now (mw_net w)"
    and "\<And>t w. I w \<Longrightarrow> I (on_tick t w)"
    and "\<And>d w. I w \<Longrightarrow> I (fst (advance rng d w)) \<and> (safe \<longrightarrow> is_ok (snd (advance rng d w)))"
    and "I w"
  shows "\<exists>w' r. run_loop rng tick_ms on_tick until deadline w = Some (w', r) \<and> I w' \<and> (safe \<longrightarrow> r = Inr ())"
proof -
  have "\<exists>w' r. run_loop rng tick_ms on_tick until deadline w = Some (w', r) \<and> I w' \<and> (safe \<longrightarrow> r = Inr ())"
    if "deadline - sn_now (mw_net w) \<le> of_nat m * tick_ms" "I w" for m w
    using that
  proof (induction m arbitrary: w)
    case 0
    then show ?case by (subst run_loop.simps) simp
  next
    case (Suc m)
    let ?now = "sn_now (mw_net w)"
    let ?w1 = "on_tick ?now w"
    have i1: "I ?w1" by (rule assms(3) [OF Suc.prems(2)])
    obtain w2 r where adv: "advance rng (min tick_ms (deadline - ?now)) ?w1 = (w2, r)" by (metis surj_pair)
    note i2 = assms(4) [OF i1, of "min tick_ms (deadline - ?now)", unfolded adv]
    show ?case
    proof (cases "?now < deadline \<and> \<not> until ?w1 \<and> is_ok r")
      case True
      then obtain d where r: "r = Inr d" by (auto simp: is_ok_iff)
      have "deadline - sn_now (mw_net w2) \<le> of_nat m * tick_ms"
      proof (cases "tick_ms \<le> deadline - ?now")
        case True
        then have "?now + tick_ms \<le> sn_now (mw_net w2)" using advance_moves [OF adv [unfolded r]] assms(2) by simp
        with Suc.prems(1) show ?thesis by (simp add: algebra_simps)
      next
        case False
        then have "deadline \<le> sn_now (mw_net w2)" using advance_moves [OF adv [unfolded r]] assms(2) by simp
        moreover have "0 \<le> of_nat m * tick_ms" using assms(1) by simp
        ultimately show ?thesis by linarith
      qed
      with Suc.IH [of w2] i2 obtain w' r' where "run_loop rng tick_ms on_tick until deadline w2 = Some (w', r')" "I w'" "safe \<longrightarrow> r' = Inr ()" by auto
      with True adv r show ?thesis by (subst run_loop.simps) (simp add: Let_def assms(2))
    next
      case False
      with adv Suc.prems(2) i1 i2 show ?thesis
        by (cases r) (subst run_loop.simps, simp add: Let_def assms(2))+
    qed
  qed
  moreover obtain m where "deadline - sn_now (mw_net w) < of_nat m * tick_ms" using ex_less_of_nat_mult [OF assms(1)] by blast
  ultimately show ?thesis using assms(5) by (meson less_imp_le)
qed

lemma offer_again_same_net: "same_net (fst st) (fst (offer_again rng e st))"
proof -
  obtain n nd where st: "st = (n, nd)" by (cases st)
  obtain n1 nd1 where o: "offer rng e (n, nd\<lparr>mn_forwarded := (mn_forwarded nd)(me_message_id e := [])\<rparr>) = (n1, nd1)"
    by (cases "offer rng e (n, nd\<lparr>mn_forwarded := (mn_forwarded nd)(me_message_id e := [])\<rparr>)")
  have "same_net n n1" using offer_spec [OF o] by (simp add: emits_def)
  with o show ?thesis by (simp add: st offer_again_def)
qed

lemma tick_same_net: "same_net n (fst (mesh_tick rng now (n, nd)))"
proof -
  have "same_net (fst st) (fst (fold (offer_again rng) es st))" for es and st :: "sim_net \<times> mesh_node"
  proof (induction es arbitrary: st)
    case (Cons e es)
    show ?case using same_net_trans [OF offer_again_same_net Cons] by simp
  qed simp
  then show ?thesis unfolding mesh_tick_def Let_def by (metis (no_types, lifting) case_prod_conv fst_conv)
qed

lemma tick_node_same_net: "same_net (mw_net w) (mw_net (tick_node rng now k w))"
  using tick_same_net by (auto simp: tick_node_def at_node_def split: option.split prod.split) (metis fst_conv)

lemma tick_all_same_net: "same_net (mw_net w) (mw_net (tick_all rng now w))"
proof -
  have "same_net (mw_net w) (mw_net (fold (tick_node rng now) ks w))" for ks
  proof (induction ks arbitrary: w)
    case (Cons k ks)
    show ?case using same_net_trans [OF tick_node_same_net Cons] by simp
  qed simp
  then show ?thesis by (simp add: tick_all_def)
qed

lemma tick_all_now: "sn_now (mw_net (tick_all rng now w)) = sn_now (mw_net w)"
  using tick_all_same_net [of w rng now] by (simp add: same_net_def)

context mesh_mail
begin

lemma net_run_inv:
  assumes "0 < tick_ms" and "mail_inv w" and "I w"
    and "\<And>t w. mail_inv w \<Longrightarrow> I w \<Longrightarrow> I (tick_all rng t w)"
    and "\<And>d w. mail_inv w \<Longrightarrow> I w \<Longrightarrow> I (fst (advance rng d w)) \<and> (safe \<longrightarrow> is_ok (snd (advance rng d w)))"
  shows "\<exists>w' r. net_run rng d tick_ms (tick_all rng) until w = Some (w', r) \<and> mail_inv w' \<and> I w' \<and> (safe \<longrightarrow> is_ok r)"
proof -
  let ?J = "\<lambda>w. mail_inv w \<and> I w"
  have "\<exists>w' r. run_loop rng tick_ms (tick_all rng) until (sn_now (mw_net w) + d) w = Some (w', r) \<and> ?J w' \<and> (safe \<longrightarrow> r = Inr ())"
    by (rule run_loop_returns [where safe = safe, OF assms(1) tick_all_now])
      (use assms tick_all_inv advance_to_inv in \<open>auto simp: advance_def\<close>)
  then obtain w1 r where l: "run_loop rng tick_ms (tick_all rng) until (sn_now (mw_net w) + d) w = Some (w1, r)"
    and j: "mail_inv w1" "I w1" and s: "safe \<longrightarrow> r = Inr ()" by blast
  then show ?thesis using tick_all_inv [OF j(1)] assms(4) [OF j] by (cases r) (simp_all add: net_run_def Let_def)
qed

end

section \<open>What a mesh of nodes can do\<close>

text \<open>
  A step: a node originates a message whose identifier it may use (\<open>own_ids\<close>), ticks or learns of a neighbour, a node joins, virtual time runs on,
  links and defaults are set to anything (cut and healed), or somebody outside the nodes puts a frame on the network, with no
  envelope in it or with one that \<open>outside\<close> allows.
\<close>

inductive mesh_step :: "(nat \<Rightarrow> rat) \<Rightarrow> (string \<Rightarrow> bool) \<Rightarrow> (mesh_envelope \<Rightarrow> bool) \<Rightarrow> mesh_world \<Rightarrow> mesh_world \<Rightarrow> bool"
  for rng own_ids outside where
  step_originate: "own_ids mid \<Longrightarrow> mesh_step rng own_ids outside w (fst (at_node k (mesh_send rng dst mid payload ttl hop_limit) w))"
| step_tick: "mesh_step rng own_ids outside w (tick_node rng now k w)"
| step_advance: "mesh_step rng own_ids outside w (fst (advance_to rng target w))"
| step_links: "mesh_step rng own_ids outside w (w\<lparr>mw_net := (mw_net w)\<lparr>sn_links := ls, sn_default := d\<rparr>\<rparr>)"
| step_meet: "map_of (mw_nodes w) k = Some nd \<Longrightarrow>
    mesh_step rng own_ids outside w (w\<lparr>mw_nodes := AList.update k (add_neighbour nd x) (mw_nodes w)\<rparr>)"
| step_join: "map_of (mw_nodes w) k = None \<Longrightarrow>
    mesh_step rng own_ids outside w (w\<lparr>mw_nodes := AList.update k (new_node k nbrs capacity relays) (mw_nodes w)\<rparr>)"
| step_inject: "(\<And>e. payload = Carried e \<Longrightarrow> outside e) \<Longrightarrow>
    mesh_step rng own_ids outside w (w\<lparr>mw_net := net_send rng src dst payload (mw_net w)\<rparr>)"

definition fresh_mesh :: "mesh_world \<Rightarrow> bool" where
  "fresh_mesh w = (w = \<lparr>mw_net = new_network, mw_nodes = []\<rparr>)"

definition note_sent :: "string \<Rightarrow> mesh_node \<Rightarrow> mesh_node" where
  "note_sent mid nd = (bump (\<lambda>s. s\<lparr>st_originated := st_originated s + 1\<rparr>) nd)\<lparr>mn_seen := List.insert mid (mn_seen nd)\<rparr>"

definition first_envelope :: "string \<Rightarrow> string \<Rightarrow> string \<Rightarrow> json \<Rightarrow> int \<Rightarrow> rat \<Rightarrow> mesh_envelope" where
  "first_envelope me dst mid payload hop_limit expires =
     \<lparr>me_message_id = mid, me_origin = me, me_destination = dst, me_payload = payload, me_hops = 0,
      me_hop_limit = hop_limit, me_expires_at = Fin expires, me_path = [me]\<rparr>"

lemma mesh_send_steps:
  "fst (mesh_send rng dst mid payload ttl hop_limit (n, nd)) =
     fst (carry_and_offer rng (first_envelope (mn_id nd) dst mid payload hop_limit (sn_now n + ttl)) (n, note_sent mid nd))"
  by (simp add: mesh_send_def first_envelope_def note_sent_def Let_def bump_def split: prod.split sum.split)

lemma mesh_send_ok:
  "is_ok (snd (carry_and_offer rng (first_envelope (mn_id nd) dst mid payload hop_limit (sn_now n + ttl)) (n, note_sent mid nd))) \<Longrightarrow>
   is_ok (snd (mesh_send rng dst mid payload ttl hop_limit (n, nd)))"
  by (auto simp: mesh_send_def first_envelope_def note_sent_def Let_def bump_def split: prod.split sum.split)

lemma update_mem: "v \<in> snd ` set (AList.update k v xs)"
  by (induction xs) auto

context mesh_mail
begin

lemma send_inv:
  assumes "mail_inv w"
    and "\<And>nd. own k nd \<Longrightarrow> own k (note_sent mid nd)"
    and "\<And>nd nd'. own k nd \<Longrightarrow> mid \<in> set (mn_seen nd) \<Longrightarrow>
           carry (first_envelope k dst mid payload hop_limit (sn_now (mw_net w) + ttl)) nd = Inr nd' \<Longrightarrow> own k nd'"
  shows "mail_inv (fst (at_node k (mesh_send rng dst mid payload ttl hop_limit) w))"
proof (cases "map_of (mw_nodes w) k")
  case None
  with assms(1) show ?thesis by (simp add: at_node_def)
next
  case (Some nd)
  have o: "own k nd" by (rule mail_inv_node [OF assms(1) Some])
  let ?e = "first_envelope k dst mid payload hop_limit (sn_now (mw_net w) + ttl)"
  obtain n' nd' r where s: "mesh_send rng dst mid payload ttl hop_limit (mw_net w, nd) = ((n', nd'), r)" by (metis surj_pair)
  then have co: "fst (carry_and_offer rng ?e (mw_net w, note_sent mid nd)) = (n', nd')"
    using mesh_send_steps [of rng dst mid payload ttl hop_limit "mw_net w" nd] by (simp add: own_id [OF o])
  have n: "links_ok (mw_net w)" "queue_ok (mw_net w)" using assms(1) by (simp_all add: mail_inv_def)
  have "links_ok n' \<and> queue_ok n' \<and> own k nd'"
  proof (cases "carry ?e (note_sent mid nd)")
    case (Inl x)
    with co n assms(2) [OF o] show ?thesis by (simp add: carry_and_offer_def)
  next
    case (Inr nd2)
    have o2: "own k nd2" by (rule assms(3) [OF assms(2) [OF o] _ Inr]) (simp add: note_sent_def)
    have "?e \<in> snd ` set (mn_carrying nd2)" using carry_spec [OF Inr] update_mem by metis
    moreover have "offer rng ?e (mw_net w, nd2) = (n', nd')" using co Inr by (simp add: carry_and_offer_def)
    ultimately show ?thesis using offer_inv [OF _ o2 _ n] by blast
  qed
  with assms(1) s show ?thesis by (simp add: at_node_def Some mail_inv_update)
qed

lemma inject_inv:
  assumes "mail_inv w" and "\<And>e. payload = Carried e \<Longrightarrow> up src dst \<Longrightarrow> ok e src dst"
  shows "mail_inv (w\<lparr>mw_net := net_send rng src dst payload (mw_net w)\<rparr>)"
proof -
  note ad = net_send_adds [of "mw_net w" src dst payload rng, unfolded adds_frames_def]
  let ?n = "net_send rng src dst payload (mw_net w)"
  have "profile_for ?n s d = profile_for (mw_net w) s d" for s d using ad same_net_profile by blast
  then have "links_ok ?n" using assms(1) by (simp add: mail_inv_def links_ok_def)
  moreover have "queue_ok ?n" unfolding queue_ok_def
  proof (intro ballI allI impI)
    fix f e assume f: "f \<in> set (sn_queue ?n)" "fr_payload f = Carried e"
    show "ok e (fr_source f) (fr_destination f)"
    proof (cases "f \<in> set (sn_queue (mw_net w))")
      case True
      with assms(1) f show ?thesis by (simp add: mail_inv_def queue_ok_def)
    next
      case False
      with ad f have "fr_source f = src" "fr_destination f = dst" "fr_payload f = payload" "\<not> lk_partitioned (profile_for (mw_net w) src dst)" by blast+
      with assms f show ?thesis by (auto simp: mail_inv_def links_ok_def)
    qed
  qed
  ultimately show ?thesis using assms(1) by (simp add: mail_inv_def)
qed

lemma step_inv:
  assumes "mesh_step rng own_ids outside w w'" and "mail_inv w" and "\<And>s d. up s d"
    and "\<And>mid k dst payload hop_limit nd. own_ids mid \<Longrightarrow> own k nd \<Longrightarrow> own k (note_sent mid nd)"
    and "\<And>mid k dst payload hop_limit nd nd' t. own_ids mid \<Longrightarrow> own k nd \<Longrightarrow> mid \<in> set (mn_seen nd) \<Longrightarrow>
           carry (first_envelope k dst mid payload hop_limit t) nd = Inr nd' \<Longrightarrow> own k nd'"
    and "\<And>e s d. outside e \<Longrightarrow> ok e s d"
    and "\<And>k nd x. own k nd \<Longrightarrow> own k (add_neighbour nd x)"
    and "\<And>k nbrs capacity relays. own k (new_node k nbrs capacity relays)"
  shows "mail_inv w'"
  using assms(1)
proof cases
  case (step_originate mid k dst payload ttl hop_limit)
  show ?thesis unfolding step_originate(1) by (rule send_inv [OF assms(2)]) (use assms(4,5) step_originate(2) in blast)+
next
  case (step_tick now k)
  show ?thesis unfolding step_tick by (rule tick_node_inv [OF assms(2)])
next
  case (step_advance target)
  show ?thesis unfolding step_advance by (rule advance_to_inv [OF assms(2)])
next
  case (step_links ls d)
  with assms(2,3) show ?thesis by (simp add: mail_inv_def links_ok_def queue_ok_def)
next
  case (step_meet k nd x)
  have "mail_inv \<lparr>mw_net = mw_net w, mw_nodes = AList.update k (add_neighbour nd x) (mw_nodes w)\<rparr>"
    by (rule mail_inv_update [OF assms(2)]) (use assms(2) assms(7) [OF mail_inv_node [OF assms(2) step_meet(2)]] in \<open>simp_all add: mail_inv_def\<close>)
  then show ?thesis by (simp add: step_meet(1) mail_inv_def)
next
  case (step_join k nbrs capacity relays)
  have "mail_inv \<lparr>mw_net = mw_net w, mw_nodes = AList.update k (new_node k nbrs capacity relays) (mw_nodes w)\<rparr>"
    by (rule mail_inv_update [OF assms(2)]) (use assms(2,8) in \<open>simp_all add: mail_inv_def\<close>)
  then show ?thesis by (simp add: step_join(1) mail_inv_def)
next
  case (step_inject payload src dst)
  show ?thesis unfolding step_inject(1) by (rule inject_inv [OF assms(2)]) (use assms(6) step_inject(2) in blast)
qed

lemma fresh_mail_inv: "fresh_mesh w \<Longrightarrow> (\<And>s d. up s d) \<Longrightarrow> mail_inv w"
  by (simp add: fresh_mesh_def mail_inv_def links_ok_def queue_ok_def new_network_def)

end

section \<open>A node delivers a message once\<close>

definition keyed :: "(string \<times> mesh_envelope) list \<Rightarrow> bool" where
  "keyed xs = (distinct (map fst xs) \<and> (\<forall>kv \<in> set xs. fst kv = me_message_id (snd kv)))"

definition node_ok :: "string \<Rightarrow> mesh_node \<Rightarrow> bool" where
  "node_ok k nd =
     (mn_id nd = k \<and> distinct (map me_message_id (mn_received nd)) \<and> me_message_id ` set (mn_received nd) \<subseteq> set (mn_seen nd) \<and>
      (\<forall>e \<in> set (mn_received nd). me_destination e = k) \<and> st_delivered (mn_stats nd) = length (mn_received nd) \<and>
      keyed (mn_carrying nd) \<and> int (length (mn_carrying nd)) \<le> max 0 (mn_capacity nd))"

lemma set_update_subset: "set (AList.update k v xs) \<subseteq> insert (k, v) (set xs)"
  by (induction xs) auto

lemma keyed_update: "keyed xs \<Longrightarrow> keyed (AList.update (me_message_id e) e xs)"
  using set_update_subset [of "me_message_id e" e xs] by (auto simp: keyed_def distinct_update)

lemma keyed_filter: "keyed xs \<Longrightarrow> keyed (filter p xs)"
  unfolding keyed_def by (auto simp: distinct_map intro: inj_on_subset)

lemma length_update_le: "length (AList.update k v xs) \<le> Suc (length xs)"
  by (induction xs) auto

lemma length_delete_less: "k \<in> fst ` set xs \<Longrightarrow> length (AList.delete k xs) < length xs"
proof -
  assume "k \<in> fst ` set xs"
  then obtain v where "(k, v) \<in> set xs" by auto
  then show ?thesis unfolding AList.delete_eq by (rule length_filter_less) simp
qed

lemma carry_keyed:
  assumes "carry e nd = Inr nd'" and "keyed (mn_carrying nd)" and "int (length (mn_carrying nd)) \<le> max 0 (mn_capacity nd)"
  shows "keyed (mn_carrying nd') \<and> int (length (mn_carrying nd')) \<le> max 0 (mn_capacity nd)"
proof -
  obtain kept where k: "mn_carrying nd' = AList.update (me_message_id e) e kept"
    and cases: "kept = mn_carrying nd \<and> int (length (mn_carrying nd)) < mn_capacity nd \<or> (\<exists>m \<in> fst ` set (mn_carrying nd). kept = AList.delete m (mn_carrying nd))"
    using carry_spec [OF assms(1)] by blast
  from cases have "keyed kept \<and> int (length kept) < max 0 (mn_capacity nd)"
  proof
    assume "kept = mn_carrying nd \<and> int (length (mn_carrying nd)) < mn_capacity nd"
    with assms(2) show ?thesis by simp
  next
    assume "\<exists>m \<in> fst ` set (mn_carrying nd). kept = AList.delete m (mn_carrying nd)"
    then obtain m where "m \<in> fst ` set (mn_carrying nd)" "kept = AList.delete m (mn_carrying nd)" by blast
    with length_delete_less [of m "mn_carrying nd"] assms(2,3) keyed_filter show ?thesis by (simp add: AList.delete_eq)
  qed
  with keyed_update [of kept e] length_update_le [of "me_message_id e" e kept] show ?thesis unfolding k by simp
qed

lemma node_ok_accepted: "node_ok k nd \<Longrightarrow> accepted e nd nd' \<Longrightarrow> node_ok k nd'"
proof -
  assume n: "node_ok k nd" and a: "accepted e nd nd'"
  have "keyed (mn_carrying nd') \<and> int (length (mn_carrying nd')) \<le> max 0 (mn_capacity nd)"
  proof (cases "mn_carrying nd' = mn_carrying nd")
    case True
    with n show ?thesis by (simp add: node_ok_def)
  next
    case False
    with a obtain u v where "carry (relayed_via e (mn_id nd)) u = Inr v" "mn_carrying u = mn_carrying nd" "mn_capacity u = mn_capacity nd"
      "mn_carrying nd' = mn_carrying v" unfolding accepted_def by blast
    with carry_keyed [of "relayed_via e (mn_id nd)" u v] n show ?thesis by (simp add: node_ok_def)
  qed
  moreover have "mn_id nd' = k" "mn_capacity nd' = mn_capacity nd" "mn_seen nd' = List.insert (me_message_id e) (mn_seen nd)"
    and rc: "if me_message_id e \<notin> set (mn_seen nd) \<and> me_destination e = k
       then mn_received nd' = mn_received nd @ [e] \<and> st_delivered (mn_stats nd') = st_delivered (mn_stats nd) + 1
       else mn_received nd' = mn_received nd \<and> st_delivered (mn_stats nd') = st_delivered (mn_stats nd)"
    using a n by (simp_all add: accepted_def node_ok_def)
  ultimately show ?thesis using n by (auto simp: node_ok_def split: if_splits)
qed

interpretation once: mesh_mail "\<lambda>_ _. True" node_ok "\<lambda>_ _ _. True"
proof unfold_locales
  fix k nd nd' assume "node_ok k nd" "same_mail nd nd'"
  then show "node_ok k nd'" by (simp add: node_ok_def same_mail_def)
next
  fix k nd p assume n: "node_ok k nd"
  have "int (length (filter p (mn_carrying nd))) \<le> int (length (mn_carrying nd))" by simp
  with n have "int (length (filter p (mn_carrying nd))) \<le> max 0 (mn_capacity nd)" unfolding node_ok_def by linarith
  with n show "node_ok k (nd\<lparr>mn_carrying := filter p (mn_carrying nd)\<rparr>)" by (simp add: node_ok_def keyed_filter)
qed (auto simp: node_ok_accepted, simp add: node_ok_def)

lemma once_step:
  assumes "mesh_step rng own_ids outside w w'" and "once.mail_inv w"
  shows "once.mail_inv w'"
proof (rule once.step_inv [OF assms])
  fix mid k nd nd' and dst payload hop_limit t
  assume n: "node_ok k nd" and c: "carry (first_envelope k dst mid payload hop_limit t) nd = Inr nd'"
  show "node_ok k nd'" using carry_keyed [OF c] carry_spec [OF c] n by (simp add: node_ok_def)
qed (auto simp: node_ok_def note_sent_def bump_def add_neighbour_def new_node_def keyed_def no_stats_def)

lemma mesh_reachable_once: "reachable fresh_mesh (mesh_step rng own_ids outside) w \<Longrightarrow> once.mail_inv w"
  by (induction rule: reachable.induct) (auto intro: once.fresh_mail_inv once_step)

text \<open>
  C30. Whatever frames are lost, duplicated, reordered, corrupted or injected, and whatever identifiers are reused, in every reachable
  mesh a node hands a message identifier to its application at most once, hands over only messages addressed to it, has
  counted exactly the deliveries it made, and carries no more messages than its capacity.
\<close>

theorem mesh_delivers_at_most_once:
  assumes "reachable fresh_mesh (mesh_step rng (\<lambda>_. True) (\<lambda>_. True)) w" and "map_of (mw_nodes w) k = Some nd"
  shows "distinct (map me_message_id (mn_received nd)) \<and> me_destination ` set (mn_received nd) \<subseteq> {k} \<and>
    st_delivered (mn_stats nd) = length (mn_received nd) \<and> int (length (mn_carrying nd)) \<le> max 0 (mn_capacity nd)"
  using once.mail_inv_node [OF mesh_reachable_once [OF assms(1)] assms(2)] by (auto simp: node_ok_def)

definition demo_draws :: "nat \<Rightarrow> rat" where
  "demo_draws = (\<lambda>_. 1/2)"

definition demo_message :: mesh_envelope where
  "demo_message = first_envelope ''a'' ''b'' ''m1'' JNull 6 600"

definition demo_sent :: mesh_world where
  "demo_sent = \<lparr>mw_net = net_send demo_draws ''a'' ''b'' (Carried demo_message) (net_send demo_draws ''a'' ''b'' (Carried demo_message) new_network),
     mw_nodes = [(''b'', new_node ''b'' [''a''] 4 True)]\<rparr>"

lemma mesh_reach:
  "mesh_step rng own_ids outside w w' \<Longrightarrow> reachable fresh_mesh (mesh_step rng own_ids outside) w \<Longrightarrow>
    reachable fresh_mesh (mesh_step rng own_ids outside) w'"
  by (rule reachable_step)

lemma demo_sent_reachable: "reachable fresh_mesh (mesh_step demo_draws own_ids (\<lambda>_. True)) demo_sent"
proof -
  let ?S = "mesh_step demo_draws own_ids (\<lambda>_. True)"
  let ?send = "net_send demo_draws ''a'' ''b'' (Carried demo_message)" and ?nodes = "[(''b'', new_node ''b'' [''a''] 4 True)]"
  let ?w0 = "\<lparr>mw_net = new_network, mw_nodes = []\<rparr>" and ?w1 = "\<lparr>mw_net = new_network, mw_nodes = ?nodes\<rparr>"
    and ?w2 = "\<lparr>mw_net = ?send new_network, mw_nodes = ?nodes\<rparr>"
  have 1: "?S ?w0 ?w1" using step_join [where w = ?w0 and k = "''b''" and nbrs = "[''a'']" and capacity = 4 and relays = True] by simp
  have 2: "?S ?w1 ?w2"
    using step_inject [where w = ?w1 and payload = "Carried demo_message" and src = "''a''" and dst = "''b''" and outside = "\<lambda>_. True"] by simp
  have 3: "?S ?w2 demo_sent" unfolding demo_sent_def
    using step_inject [where w = ?w2 and payload = "Carried demo_message" and src = "''a''" and dst = "''b''" and outside = "\<lambda>_. True"] by simp
  have "fresh_mesh ?w0" by (simp add: fresh_mesh_def)
  then show ?thesis by (intro mesh_reach [OF 3] mesh_reach [OF 2] mesh_reach [OF 1] reachable_init)
qed

lemma demo_frame:
  assumes "profile_for n src dst = perfect"
  shows "sn_queue (net_send demo_draws src dst payload n) =
    heappush \<lparr>fr_due = sn_now n, fr_sequence = sn_counter n, fr_source = src, fr_destination = dst, fr_payload = payload, fr_corrupted = False\<rparr> (sn_queue n) \<and>
    sn_counter (net_send demo_draws src dst payload n) = sn_counter n + 1 \<and> same_net n (net_send demo_draws src dst payload n)"
proof -
  have "profile_for (n\<lparr>sn_report := r\<rparr>) src dst = perfect" for r using assms by (simp add: profile_for_def cong: option.case_cong)
  then show ?thesis by (simp add: net_send_def send_copy_def copy_fate_def draw_def uniform_def perfect_def demo_draws_def same_net_def Let_def)
qed

lemma demo_queue:
  "sn_queue (mw_net demo_sent) =
     [\<lparr>fr_due = 0, fr_sequence = 0, fr_source = ''a'', fr_destination = ''b'', fr_payload = Carried demo_message, fr_corrupted = False\<rparr>,
      \<lparr>fr_due = 0, fr_sequence = 1, fr_source = ''a'', fr_destination = ''b'', fr_payload = Carried demo_message, fr_corrupted = False\<rparr>] \<and>
   mw_nodes demo_sent = [(''b'', new_node ''b'' [''a''] 4 True)]"
proof -
  let ?n = "net_send demo_draws ''a'' ''b'' (Carried demo_message) new_network"
  have p: "profile_for new_network s d = perfect" for s d by (simp add: profile_for_def new_network_def)
  note f1 = demo_frame [OF p, of "''a''" "''b''" "Carried demo_message"]
  have p2: "profile_for ?n ''a'' ''b'' = perfect" using f1 p same_net_profile by metis
  have now: "sn_now ?n = 0" using f1 by (simp add: same_net_def new_network_def)
  show ?thesis using f1 demo_frame [OF p2, of "Carried demo_message"] now
    by (simp add: demo_sent_def new_network_def frame_before_def)
qed

lemma demo_delivered:
  "\<exists>nd. map_of (mw_nodes (fst (advance_to demo_draws 1 demo_sent))) ''b'' = Some nd \<and> map me_message_id (mn_received nd) = [''m1'']"
proof -
  have m: "me_message_id demo_message = ''m1''" "me_destination demo_message = ''b''" by (simp_all add: demo_message_def first_envelope_def)
  have r: "receive_frame rng f w =
      (\<lparr>mw_net = (mw_net w)\<lparr>sn_report := (sn_report (mw_net w))\<lparr>rp_delivered := rp_delivered (sn_report (mw_net w)) + 1\<rparr>\<rparr>,
        mw_nodes = AList.update (fr_destination f) (snd (fst (on_frame rng (fr_payload f) (fr_corrupted f) (mw_net w, nd)))) (mw_nodes w)\<rparr>, Inr 1)"
    if "map_of (mw_nodes w) (fr_destination f) = Some nd" "fr_payload f = Carried e" "me_destination e = mn_id nd" "mn_carrying nd = []" for rng f w nd e
    using that by (simp add: receive_frame_def on_frame_def mesh_accept_def Let_def bump_def)
  obtain f1 f2 where q: "sn_queue (mw_net demo_sent) = [f1, f2]" and n: "mw_nodes demo_sent = [(''b'', new_node ''b'' [''a''] 4 True)]"
    and f: "fr_due f1 = 0" "fr_destination f1 = ''b''" "fr_payload f1 = Carried demo_message" "\<not> fr_corrupted f1"
      "fr_due f2 = 0" "fr_destination f2 = ''b''" "fr_payload f2 = Carried demo_message" "\<not> fr_corrupted f2"
    using demo_queue by auto
  show ?thesis unfolding advance_to_def
    by (subst deliver_due.simps, simp add: q f r [where e = demo_message] n new_node_def m pop_frame_def,
      subst deliver_due.simps, simp add: q f r [where e = demo_message] n new_node_def m pop_frame_def on_frame_def mesh_accept_def bump_def Let_def,
      subst deliver_due.simps, simp add: m)
qed

theorem mesh_delivers_at_most_once_witness:
  "\<exists>nd. map_of (mw_nodes (fst (advance_to demo_draws 1 demo_sent))) ''b'' = Some nd \<and>
     map me_message_id (mn_received nd) = [''m1''] \<and> distinct (map me_message_id (mn_received nd)) \<and> st_delivered (mn_stats nd) = 1"
proof -
  obtain nd where nd: "map_of (mw_nodes (fst (advance_to demo_draws 1 demo_sent))) ''b'' = Some nd"
    and m: "map me_message_id (mn_received nd) = [''m1'']" using demo_delivered by (elim exE conjE) (rule that)
  have "reachable fresh_mesh (mesh_step demo_draws (\<lambda>_. True) (\<lambda>_. True)) (fst (advance_to demo_draws 1 demo_sent))"
    by (rule mesh_reach [where w = demo_sent], rule step_advance, rule demo_sent_reachable)
  from mesh_delivers_at_most_once [OF this nd] have "distinct (map me_message_id (mn_received nd))" "st_delivered (mn_stats nd) = length (mn_received nd)"
    by simp_all
  moreover have "length (mn_received nd) = 1" using arg_cong [OF m, of length] by simp
  ultimately show ?thesis using nd m by simp
qed

section \<open>Relays neither alter nor loop\<close>

definition genuine :: "mesh_envelope \<Rightarrow> mesh_envelope \<Rightarrow> bool" where
  "genuine c e =
     (me_origin e = me_origin c \<and> me_destination e = me_destination c \<and> me_payload e = me_payload c \<and> me_hop_limit e = me_hop_limit c \<and>
      me_expires_at e = me_expires_at c \<and> me_path e \<noteq> [] \<and> hd (me_path e) = me_origin c \<and> distinct (me_path e) \<and>
      int (length (me_path e)) = me_hops e + 1)"

definition genuine_on_the_way :: "mesh_envelope \<Rightarrow> mesh_envelope \<Rightarrow> string \<Rightarrow> string \<Rightarrow> bool" where
  "genuine_on_the_way c e s d =
     (me_message_id e = me_message_id c \<longrightarrow> genuine c e \<and> last (me_path e) = s \<and> d \<notin> set (me_path e) \<and> me_hops e < me_hop_limit e)"

definition genuine_at :: "mesh_envelope \<Rightarrow> string \<Rightarrow> mesh_node \<Rightarrow> bool" where
  "genuine_at c k nd =
     (mn_id nd = k \<and>
      (\<forall>e \<in> snd ` set (mn_carrying nd). me_message_id e = me_message_id c \<longrightarrow> genuine c e \<and> last (me_path e) = k) \<and>
      (\<forall>e \<in> set (mn_received nd). me_message_id e = me_message_id c \<longrightarrow> genuine c e \<and> k \<notin> set (me_path e) \<and> me_hops e < me_hop_limit e))"

lemma genuine_relayed: "genuine c e \<Longrightarrow> k \<notin> set (me_path e) \<Longrightarrow> genuine c (relayed_via e k)"
  by (simp add: genuine_def)

lemma genuine_at_accepted:
  assumes g: "genuine_at c k nd" and w: "genuine_on_the_way c e s k" and a: "accepted e nd nd'"
  shows "genuine_at c k nd'"
proof -
  have k: "mn_id nd = k" using g by (simp add: genuine_at_def)
  have "\<forall>e' \<in> snd ` set (mn_carrying nd'). me_message_id e' = me_message_id c \<longrightarrow> genuine c e' \<and> last (me_path e') = k"
  proof (intro ballI impI)
    fix e' assume e': "e' \<in> snd ` set (mn_carrying nd')" "me_message_id e' = me_message_id c"
    then consider "e' = relayed_via e k" | "e' \<in> snd ` set (mn_carrying nd)" using accepted_carrying [OF a] k by blast
    then show "genuine c e' \<and> last (me_path e') = k"
    proof cases
      case 1
      with w e'(2) genuine_relayed [of c e k] show ?thesis by (simp add: genuine_on_the_way_def)
    next
      case 2
      with g e'(2) show ?thesis unfolding genuine_at_def by blast
    qed
  qed
  moreover have "\<forall>e' \<in> set (mn_received nd'). me_message_id e' = me_message_id c \<longrightarrow> genuine c e' \<and> k \<notin> set (me_path e') \<and> me_hops e' < me_hop_limit e'"
  proof -
    have "set (mn_received nd') \<subseteq> insert e (set (mn_received nd))" using a by (auto simp: accepted_def split: if_splits)
    moreover have "me_message_id e = me_message_id c \<longrightarrow> genuine c e \<and> k \<notin> set (me_path e) \<and> me_hops e < me_hop_limit e"
      using w by (simp add: genuine_on_the_way_def)
    moreover have "\<forall>e' \<in> set (mn_received nd). me_message_id e' = me_message_id c \<longrightarrow> genuine c e' \<and> k \<notin> set (me_path e') \<and> me_hops e' < me_hop_limit e'"
      using g by (simp add: genuine_at_def)
    ultimately show ?thesis by blast
  qed
  ultimately show ?thesis using a k by (simp add: genuine_at_def accepted_def)
qed

interpretation same: mesh_mail "\<lambda>_ _. True" "genuine_at c" "genuine_on_the_way c" for c
proof unfold_locales
  fix k nd nd' assume "genuine_at c k nd" "same_mail nd nd'"
  then show "genuine_at c k nd'" by (simp add: genuine_at_def same_mail_def)
next
  fix k nd p assume "genuine_at c k nd"
  then show "genuine_at c k (nd\<lparr>mn_carrying := filter p (mn_carrying nd)\<rparr>)" by (auto simp: genuine_at_def)
next
  fix k nd e s x
  assume "genuine_on_the_way c e s k" "x \<noteq> k" "x \<notin> set (me_path e)" "me_hops e + 1 < me_hop_limit e"
  then show "genuine_on_the_way c (relayed_via e k) k x" by (simp add: genuine_on_the_way_def genuine_relayed)
qed (simp_all add: genuine_at_accepted, auto simp: genuine_at_def genuine_on_the_way_def)

lemma genuine_first: "genuine (first_envelope k dst mid payload hop_limit t) (first_envelope k dst mid payload hop_limit t)"
  by (simp add: genuine_def first_envelope_def)

lemma genuine_at_noted: "genuine_at c k (note_sent mid nd) = genuine_at c k nd"
  by (simp add: genuine_at_def note_sent_def bump_def)

lemma genuine_at_carry:
  assumes "genuine_at c k nd" and "carry e nd = Inr nd'" and "me_message_id e = me_message_id c \<Longrightarrow> genuine c e \<and> last (me_path e) = k"
  shows "genuine_at c k nd'"
proof -
  have "\<forall>e' \<in> snd ` set (mn_carrying nd'). me_message_id e' = me_message_id c \<longrightarrow> genuine c e' \<and> last (me_path e') = k"
  proof
    fix e' assume "e' \<in> snd ` set (mn_carrying nd')"
    then have "e' = e \<or> e' \<in> snd ` set (mn_carrying nd)" using carry_values [OF assms(2)] by blast
    then show "me_message_id e' = me_message_id c \<longrightarrow> genuine c e' \<and> last (me_path e') = k"
      using assms(1,3) by (auto simp: genuine_at_def)
  qed
  with assms(1) carry_spec [OF assms(2)] show ?thesis by (simp add: genuine_at_def)
qed

lemma same_step:
  assumes "mesh_step rng (\<lambda>m. m \<noteq> me_message_id c) (\<lambda>e. me_message_id e \<noteq> me_message_id c) w w'" and "same.mail_inv c w"
  shows "same.mail_inv c w'"
proof (rule same.step_inv [OF assms])
  fix mid k nd nd' and dst payload hop_limit t
  assume "mid \<noteq> me_message_id c" "genuine_at c k nd" "carry (first_envelope k dst mid payload hop_limit t) nd = Inr nd'"
  then show "genuine_at c k nd'" by (auto intro: genuine_at_carry simp: first_envelope_def)
qed (auto simp: genuine_at_noted genuine_on_the_way_def, auto simp: genuine_at_def add_neighbour_def new_node_def)

lemma same_reachable:
  "reachable fresh_mesh (mesh_step rng (\<lambda>m. m \<noteq> me_message_id c) (\<lambda>e. me_message_id e \<noteq> me_message_id c)) w \<Longrightarrow> same.mail_inv c w"
  by (induction rule: reachable.induct) (auto intro: same.fresh_mail_inv same_step)

lemma same_steps:
  "(mesh_step rng (\<lambda>m. m \<noteq> me_message_id c) (\<lambda>e. me_message_id e \<noteq> me_message_id c))\<^sup>*\<^sup>* w w' \<Longrightarrow> same.mail_inv c w \<Longrightarrow> same.mail_inv c w'"
  by (induction rule: rtranclp_induct) (auto intro: same_step)

lemma once_steps: "(mesh_step rng own_ids outside)\<^sup>*\<^sup>* w w' \<Longrightarrow> once.mail_inv w \<Longrightarrow> once.mail_inv w'"
  by (induction rule: rtranclp_induct) (auto intro: once_step)

lemma once_send: "once.mail_inv w \<Longrightarrow> once.mail_inv (fst (at_node k (mesh_send rng dst mid payload ttl hop_limit) w))"
  by (rule once_step [where own_ids = "\<lambda>_. True" and outside = "\<lambda>_. True", OF step_originate [OF TrueI]])

text \<open>
  C31. A message that node \<open>k\<close> sends under an identifier nobody else uses arrives, if it arrives, at its destination and nowhere
  else, with the payload and expiry it was sent with, over a path that starts at its sender and visits no node twice, within its hop
  limit, however often it was relayed, duplicated and offered again on the way.
\<close>

theorem sent_message_unaltered:
  assumes "reachable fresh_mesh (mesh_step rng (\<lambda>m. m \<noteq> mid) (\<lambda>e. me_message_id e \<noteq> mid)) w"
    and "w1 = fst (at_node k (mesh_send rng dst mid payload ttl hop_limit) w)"
    and "(mesh_step rng (\<lambda>m. m \<noteq> mid) (\<lambda>e. me_message_id e \<noteq> mid))\<^sup>*\<^sup>* w1 w2"
    and "map_of (mw_nodes w2) j = Some nd" and "e \<in> set (mn_received nd)" and "me_message_id e = mid"
  shows "j = dst \<and> me_origin e = k \<and> me_payload e = payload \<and> me_expires_at e = Fin (sn_now (mw_net w) + ttl) \<and>
    hd (me_path e) = k \<and> distinct (me_path e) \<and> j \<notin> set (me_path e) \<and> int (length (me_path e)) = me_hops e + 1 \<and> me_hops e < hop_limit"
proof -
  define c where "c = first_envelope k dst mid payload hop_limit (sn_now (mw_net w) + ttl)"
  have c: "me_message_id c = mid" "me_destination c = dst" "me_origin c = k" "me_payload c = payload" "me_hop_limit c = hop_limit"
    "me_expires_at c = Fin (sn_now (mw_net w) + ttl)" by (simp_all add: c_def first_envelope_def)
  have iw: "same.mail_inv c w" using same_reachable [of rng c w] assms(1) c(1) by simp
  have "same.mail_inv c w1" unfolding assms(2)
  proof (rule same.send_inv [OF iw])
    fix nd nd' assume "genuine_at c k nd" "carry (first_envelope k dst mid payload hop_limit (sn_now (mw_net w) + ttl)) nd = Inr nd'"
    moreover have "genuine c c" "last (me_path c) = k" unfolding c_def by (rule genuine_first) (simp add: first_envelope_def)
    ultimately show "genuine_at c k nd'" unfolding c_def [symmetric] by (blast intro: genuine_at_carry)
  qed (simp add: genuine_at_noted)
  then have "genuine_at c j nd" using same.mail_inv_node [OF _ assms(4)] same_steps [of rng c w1 w2] assms(3) c(1) by simp
  moreover have "node_ok j nd"
    using once.mail_inv_node [OF once_steps [OF assms(3)] assms(4)] once_send mesh_reachable_once [OF assms(1)] assms(2) by simp
  ultimately show ?thesis using assms(5,6) c by (auto simp: genuine_at_def genuine_def node_ok_def)
qed

definition demo_two :: mesh_world where
  "demo_two = \<lparr>mw_net = new_network, mw_nodes = [(''a'', new_node ''a'' [''b''] 4 True), (''b'', new_node ''b'' [] 4 True)]\<rparr>"

lemma demo_two_reachable: "reachable fresh_mesh (mesh_step demo_draws own_ids outside) demo_two"
proof -
  let ?S = "mesh_step demo_draws own_ids outside"
  let ?w0 = "\<lparr>mw_net = new_network, mw_nodes = []\<rparr>" and ?w1 = "\<lparr>mw_net = new_network, mw_nodes = [(''a'', new_node ''a'' [''b''] 4 True)]\<rparr>"
  have 1: "?S ?w0 ?w1" using step_join [where w = ?w0 and k = "''a''" and nbrs = "[''b'']" and capacity = 4 and relays = True] by simp
  have 2: "?S ?w1 demo_two" unfolding demo_two_def
    using step_join [where w = ?w1 and k = "''b''" and nbrs = "[]" and capacity = 4 and relays = True] by simp
  have "fresh_mesh ?w0" by (simp add: fresh_mesh_def)
  then show ?thesis by (intro mesh_reach [OF 2] mesh_reach [OF 1] reachable_init)
qed

definition demo_after :: mesh_world where
  "demo_after = fst (at_node ''a'' (mesh_send demo_draws ''b'' ''m1'' JNull 600 6) demo_two)"

lemma demo_message_simps [simp]:
  "me_message_id demo_message = ''m1''" "me_destination demo_message = ''b''" "me_path demo_message = [''a'']" "me_hops demo_message = 0"
  "me_hop_limit demo_message = 6" "me_expires_at demo_message = Fin 600"
  by (simp_all add: demo_message_def first_envelope_def)

lemma demo_after_queue:
  "\<exists>f. sn_queue (mw_net demo_after) = [f] \<and> fr_due f = 0 \<and> fr_destination f = ''b'' \<and> fr_payload f = Carried demo_message \<and> \<not> fr_corrupted f \<and>
     map_of (mw_nodes demo_after) ''b'' = Some (new_node ''b'' [] 4 True)"
proof -
  have p: "profile_for new_network ''a'' ''b'' = perfect" by (simp add: profile_for_def new_network_def)
  note fr = demo_frame [OF p, of "Carried demo_message"]
  have e: "first_envelope ''a'' ''b'' ''m1'' JNull 6 600 = demo_message" by (simp add: demo_message_def)
  have n: "sn_now new_network = 0" "sn_queue new_network = []" by (simp_all add: new_network_def)
  have s: "fst (mesh_send demo_draws ''b'' ''m1'' JNull 600 6 (new_network, new_node ''a'' [''b''] 4 True)) =
     fst (carry_and_offer demo_draws demo_message (new_network, note_sent ''m1'' (new_node ''a'' [''b''] 4 True)))"
    unfolding mesh_send_steps by (simp add: n e new_node_def)
  have "sn_queue (fst (fst (mesh_send demo_draws ''b'' ''m1'' JNull 600 6 (new_network, new_node ''a'' [''b''] 4 True)))) =
      sn_queue (net_send demo_draws ''a'' ''b'' (Carried demo_message) new_network)"
    unfolding s by (simp add: carry_and_offer_def carry_def note_sent_def bump_def new_node_def offer_def forwardable_def n split: prod.split)
  moreover obtain n1 nd1 r where ms: "mesh_send demo_draws ''b'' ''m1'' JNull 600 6 (new_network, new_node ''a'' [''b''] 4 True) = ((n1, nd1), r)"
    by (metis surj_pair)
  ultimately show ?thesis using fr n by (simp add: demo_after_def demo_two_def at_node_def)
qed

lemma demo_arrived:
  "\<exists>nd. map_of (mw_nodes (fst (advance_to demo_draws 1 demo_after))) ''b'' = Some nd \<and> mn_received nd = [demo_message]"
proof -
  obtain f where q: "sn_queue (mw_net demo_after) = [f]"
    and f: "fr_due f = 0" "fr_destination f = ''b''" "fr_payload f = Carried demo_message" "\<not> fr_corrupted f"
    and n: "map_of (mw_nodes demo_after) ''b'' = Some (new_node ''b'' [] 4 True)" using demo_after_queue by (elim exE conjE) (rule that)
  show ?thesis unfolding advance_to_def
    by (subst deliver_due.simps, simp add: q f n receive_frame_def pop_frame_def on_frame_def mesh_accept_def new_node_def bump_def Let_def update_conv',
      subst deliver_due.simps, simp add: update_conv')
qed

theorem sent_message_unaltered_witness:
  "\<exists>nd. map_of (mw_nodes (fst (advance_to demo_draws 1 demo_after))) ''b'' = Some nd \<and> mn_received nd = [demo_message] \<and>
     me_origin demo_message = ''a'' \<and> me_payload demo_message = JNull \<and> me_path demo_message = [''a'']"
proof -
  obtain nd where nd: "map_of (mw_nodes (fst (advance_to demo_draws 1 demo_after))) ''b'' = Some nd" and r: "mn_received nd = [demo_message]"
    using demo_arrived by (elim exE conjE) (rule that)
  let ?S = "mesh_step demo_draws (\<lambda>m. m \<noteq> ''m1'') (\<lambda>e. me_message_id e \<noteq> ''m1'')"
  have "?S\<^sup>*\<^sup>* demo_after (fst (advance_to demo_draws 1 demo_after))" by (rule r_into_rtranclp, rule step_advance)
  from sent_message_unaltered [OF demo_two_reachable demo_after_def this nd, of demo_message] r
  have "me_origin demo_message = ''a''" "me_payload demo_message = JNull" by simp_all
  with nd r show ?thesis by simp
qed

section \<open>Bounds on a flood\<close>

lemma deliver_due_bound: "deliver_due rng target k w = (w', Inr n) \<Longrightarrow> n + flood_left w' \<le> k + flood_left w"
proof (induction rng target k w rule: deliver_due.induct)
  case (1 rng target k w)
  show ?case
  proof (cases "sn_queue (mw_net w)")
    case Nil
    with 1(2) show ?thesis by (simp add: deliver_due.simps [of rng target k w])
  next
    case (Cons f fs)
    obtain w1 r where rf: "receive_frame rng f (w\<lparr>mw_net := pop_frame f fs (mw_net w)\<rparr>) = (w1, r)" by (metis surj_pair)
    show ?thesis
    proof (cases "\<exists>d. r = Inr d \<and> fr_due f \<le> target")
      case True
      then obtain d where r: "r = Inr d" and due: "fr_due f \<le> target" by blast
      have "deliver_due rng target (k + d) w1 = (w', Inr n)" using 1(2) Cons due rf r by (simp add: deliver_due.simps [of rng target k w])
      from 1(1) [OF Cons due rf [symmetric] r this] receive_frame_flood [OF Cons rf [unfolded r]] show ?thesis by linarith
    next
      case False
      with 1(2) Cons rf show ?thesis by (cases r) (simp_all add: deliver_due.simps [of rng target k w] split: if_splits)
    qed
  qed
qed

text \<open>
  Running virtual time on always returns, also when links have no delay and nodes relay in circles, and it delivers at most
  one frame per frame in flight plus three per offer a node has still open, in any state at all.
\<close>

theorem flood_bounded: "snd (advance_to rng target w) = Inr n \<Longrightarrow> n \<le> flood_left w"
proof -
  assume a: "snd (advance_to rng target w) = Inr n"
  obtain w1 r where d: "deliver_due rng target 0 w = (w1, r)" by (metis surj_pair)
  with a have "r = Inr n" by (cases r) (simp_all add: advance_to_def)
  from deliver_due_bound [OF d [unfolded this]] show ?thesis by simp
qed

theorem flood_bounded_witness: "\<exists>n. snd (advance_to demo_draws (- 1) demo_after) = Inr n \<and> n \<le> flood_left demo_after"
proof -
  obtain f where "sn_queue (mw_net demo_after) = [f]" "fr_due f = 0" using demo_after_queue by (elim exE conjE) (rule that)
  then have "snd (advance_to demo_draws (- 1) demo_after) = Inr 0" by (simp add: advance_to_def deliver_due.simps)
  with flood_bounded [OF this] show ?thesis by blast
qed

section \<open>Nothing crosses a partition, and nothing arrives twice\<close>

text \<open>A node with room never fails to carry, so no exception leaves the loop.\<close>

lemma closest_in: "es \<noteq> [] \<Longrightarrow> \<exists>e \<in> set es. closest_to_expiry es = Inr e"
proof (cases es)
  case (Cons a r)
  have "fold (\<lambda>x best. if fl_less (me_expires_at x) (me_expires_at best) then x else best) r a \<in> insert a (set r)"
    by (induction r arbitrary: a) auto
  with Cons show ?thesis by (simp add: closest_to_expiry_def)
qed simp

lemma carry_with_room: "0 < mn_capacity nd \<Longrightarrow> keyed (mn_carrying nd) \<Longrightarrow> \<exists>nd'. carry e nd = Inr nd'"
proof (cases "int (length (mn_carrying nd)) \<ge> mn_capacity nd")
  case True
  assume cap: "0 < mn_capacity nd" and k: "keyed (mn_carrying nd)"
  with True have "mn_carrying nd \<noteq> []" by auto
  with closest_in [of "map snd (mn_carrying nd)"] obtain old
    where old: "closest_to_expiry (map snd (mn_carrying nd)) = Inr old" "old \<in> snd ` set (mn_carrying nd)" by auto
  with k have "me_message_id old \<in> fst ` set (mn_carrying nd)" by (force simp: keyed_def)
  with True old show ?thesis by (simp add: carry_def)
qed (simp add: carry_def)

lemma carry_and_offer_safe: "0 < mn_capacity nd \<Longrightarrow> keyed (mn_carrying nd) \<Longrightarrow> is_ok (snd (carry_and_offer rng e (n, nd)))"
  using carry_with_room [of nd e] by (auto simp: carry_and_offer_def)

locale roomy_mail = mesh_mail +
  assumes own_room: "own k nd \<Longrightarrow> 0 < mn_capacity nd \<and> keyed (mn_carrying nd)"
begin

lemma accept_safe: "own k nd \<Longrightarrow> is_ok (snd (mesh_accept rng e (n, nd)))"
  using own_room [of k nd] by (simp add: mesh_accept_def Let_def bump_def carry_and_offer_safe split: option.split)

lemma receive_safe:
  assumes "mail_inv w" and "receive_frame rng f (w\<lparr>mw_net := n\<rparr>) = (w', r)"
  shows "is_ok r"
proof (cases "map_of (mw_nodes w) (fr_destination f)")
  case None
  with assms(2) show ?thesis by (auto simp: receive_frame_def)
next
  case (Some nd)
  have "is_ok (snd (on_frame rng p c (m, nd)))" for p c m
    using accept_safe [OF mail_inv_node [OF assms(1) Some]] by (simp add: on_frame_def split: frame_payload.split)
  with assms(2) Some show ?thesis by (auto simp: receive_frame_def Let_def is_ok_iff split: prod.splits sum.splits) (metis snd_conv sum.distinct(1))
qed

lemma deliver_due_safe: "mail_inv w \<Longrightarrow> is_ok (snd (deliver_due rng target k w))"
proof (induction rng target k w rule: deliver_due.induct)
  case (1 rng target k w)
  show ?case
  proof (cases "sn_queue (mw_net w)")
    case Nil
    then show ?thesis by (simp add: deliver_due.simps [of rng target k w])
  next
    case (Cons f fs)
    obtain w1 r where rf: "receive_frame rng f (w\<lparr>mw_net := pop_frame f fs (mw_net w)\<rparr>) = (w1, r)" by (metis surj_pair)
    obtain d where r: "r = Inr d" using receive_safe [OF 1(2) rf] by (auto simp: is_ok_iff)
    show ?thesis
    proof (cases "fr_due f \<le> target")
      case True
      from 1(1) [OF Cons True rf [symmetric] r receive_inv [OF Cons 1(2) rf]] show ?thesis
        using Cons True rf r by (simp add: deliver_due.simps [of rng target k w])
    next
      case False
      with Cons show ?thesis by (simp add: deliver_due.simps [of rng target k w])
    qed
  qed
qed

lemma advance_safe: "mail_inv w \<Longrightarrow> is_ok (snd (advance rng d w))"
  using deliver_due_safe [of w rng "sn_now (mw_net w) + d" 0]
  by (cases "deliver_due rng (sn_now (mw_net w) + d) 0 w"; cases "snd (deliver_due rng (sn_now (mw_net w) + d) 0 w)")
    (simp_all add: advance_def advance_to_def)

lemma run_keeps:
  assumes "0 < tick_ms" and "mail_inv w" and "I w"
    and "\<And>t w. mail_inv w \<Longrightarrow> I w \<Longrightarrow> I (tick_all rng t w)" and "\<And>t w. mail_inv w \<Longrightarrow> I w \<Longrightarrow> I (fst (advance_to rng t w))"
  shows "\<exists>w' t. net_run rng d tick_ms (tick_all rng) until w = Some (w', Inr t) \<and> mail_inv w' \<and> I w'"
  using net_run_inv [where safe = True and I = I and rng = rng and d = d and until = until, OF assms(1,2,3)] assms(4,5) advance_safe
  by (auto simp: advance_def is_ok_iff)

end

text \<open>The registered nodes: no two entries have one name.\<close>

definition nodes_known :: "string set \<Rightarrow> mesh_world \<Rightarrow> bool" where
  "nodes_known ids w = (distinct (map fst (mw_nodes w)) \<and> fst ` set (mw_nodes w) = ids)"

lemma keys_update: "k \<in> fst ` set xs \<Longrightarrow> fst ` set (AList.update k v xs) = fst ` set xs"
  by (induction xs) auto

lemma nodes_known_update: "nodes_known ids w \<Longrightarrow> map_of (mw_nodes w) k = Some nd \<Longrightarrow> nodes_known ids \<lparr>mw_net = n, mw_nodes = AList.update k nd' (mw_nodes w)\<rparr>"
proof -
  assume "nodes_known ids w" "map_of (mw_nodes w) k = Some nd"
  moreover from this have "k \<in> fst ` set (mw_nodes w)" by (metis domI dom_map_of_conv_image_fst)
  ultimately show ?thesis by (simp add: nodes_known_def distinct_update keys_update)
qed

lemma nodes_known_net [simp]: "nodes_known ids (w\<lparr>mw_net := n\<rparr>) = nodes_known ids w"
  by (simp add: nodes_known_def)

lemma nodes_known_at: "nodes_known ids w \<Longrightarrow> nodes_known ids (fst (at_node k act w))"
  by (auto simp: at_node_def nodes_known_update split: option.split prod.split)

lemma nodes_known_tick: "nodes_known ids w \<Longrightarrow> nodes_known ids (tick_all rng t w)"
proof -
  have "nodes_known ids w \<Longrightarrow> nodes_known ids (fold (tick_node rng t) ks w)" for ks w
    by (induction ks arbitrary: w) (simp_all add: tick_node_def nodes_known_at)
  then show "nodes_known ids w \<Longrightarrow> nodes_known ids (tick_all rng t w)" by (simp add: tick_all_def)
qed

lemma nodes_known_receive: "nodes_known ids w \<Longrightarrow> nodes_known ids (fst (receive_frame rng f w))"
  by (auto simp: receive_frame_def Let_def nodes_known_update split: option.split prod.split)

lemma nodes_known_deliver: "nodes_known ids w \<Longrightarrow> nodes_known ids (fst (deliver_due rng target k w))"
proof (induction rng target k w rule: deliver_due.induct)
  case (1 rng target k w)
  show ?case
  proof (cases "sn_queue (mw_net w)")
    case Nil
    with 1(2) show ?thesis by (simp add: deliver_due.simps [of rng target k w])
  next
    case (Cons f fs)
    obtain w1 r where rf: "receive_frame rng f (w\<lparr>mw_net := pop_frame f fs (mw_net w)\<rparr>) = (w1, r)" by (metis surj_pair)
    have w1: "nodes_known ids w1" using nodes_known_receive [of ids "w\<lparr>mw_net := pop_frame f fs (mw_net w)\<rparr>" rng f] 1(2) rf by simp
    show ?thesis
    proof (cases "\<exists>d. r = Inr d \<and> fr_due f \<le> target")
      case True
      then obtain d where r: "r = Inr d" and due: "fr_due f \<le> target" by blast
      from 1(1) [OF Cons due rf [symmetric] r w1] show ?thesis using Cons due rf r by (simp add: deliver_due.simps [of rng target k w])
    next
      case False
      with w1 1(2) Cons rf show ?thesis by (cases r) (simp_all add: deliver_due.simps [of rng target k w])
    qed
  qed
qed

lemma nodes_known_advance: "nodes_known ids w \<Longrightarrow> nodes_known ids (fst (advance_to rng target w))"
  using nodes_known_deliver [of ids w rng target 0]
  by (cases "deliver_due rng target 0 w"; cases "snd (deliver_due rng target 0 w)") (simp_all add: advance_to_def)

text \<open>Before anything is sent; while the right side is cut off; and mail for one destination under known identifiers.\<close>

definition idle_node :: "string \<Rightarrow> mesh_node \<Rightarrow> bool" where
  "idle_node k nd = (mn_id nd = k \<and> mn_carrying nd = [] \<and> mn_received nd = [])"

interpretation idle: mesh_mail "\<lambda>_ _. True" idle_node "\<lambda>_ _ _. False"
  by unfold_locales (auto simp: idle_node_def same_mail_def)

definition cut_off_node :: "string set \<Rightarrow> string set \<Rightarrow> string \<Rightarrow> string \<Rightarrow> mesh_node \<Rightarrow> bool" where
  "cut_off_node l r d k nd =
     (d \<in> r \<and> mn_id nd = k \<and> k \<in> l \<union> r \<and> mn_received nd = [] \<and> (if k \<in> r then mn_carrying nd = [] else \<forall>e \<in> snd ` set (mn_carrying nd). me_destination e = d))"

definition may_pass :: "string set \<Rightarrow> string set \<Rightarrow> string \<Rightarrow> string \<Rightarrow> bool" where
  "may_pass l r s x = (s \<in> l \<longrightarrow> x \<notin> r)"

definition stays_left :: "string set \<Rightarrow> string \<Rightarrow> mesh_envelope \<Rightarrow> string \<Rightarrow> string \<Rightarrow> bool" where
  "stays_left r d e s x = (x \<notin> r \<and> me_destination e = d)"

definition addressed :: "string \<Rightarrow> string set \<Rightarrow> mesh_envelope \<Rightarrow> string \<Rightarrow> string \<Rightarrow> bool" where
  "addressed d ids e s x = (me_destination e = d \<and> me_message_id e \<in> ids)"

lemma cut_off_accepted:
  assumes "cut_off_node l r d k nd" and "k \<notin> r" and "me_destination e = d" and "accepted e nd nd'"
  shows "cut_off_node l r d k nd'"
proof -
  have "\<forall>e' \<in> snd ` set (mn_carrying nd'). me_destination e' = d"
  proof
    fix e' assume "e' \<in> snd ` set (mn_carrying nd')"
    then have "e' = relayed_via e (mn_id nd) \<or> e' \<in> snd ` set (mn_carrying nd)" using accepted_carrying [OF assms(4)] by blast
    then show "me_destination e' = d" using assms(1-3) unfolding cut_off_node_def by auto
  qed
  moreover have "d \<noteq> k" using assms(1,2) by (auto simp: cut_off_node_def)
  ultimately show ?thesis using assms by (simp add: cut_off_node_def accepted_def)
qed

interpretation cut: mesh_mail "may_pass l r" "cut_off_node l r d" "stays_left r d" for l r d
proof unfold_locales
  fix k nd nd' assume "cut_off_node l r d k nd" "same_mail nd nd'"
  then show "cut_off_node l r d k nd'" by (simp add: cut_off_node_def same_mail_def)
next
  fix k nd p assume "cut_off_node l r d k nd"
  then show "cut_off_node l r d k (nd\<lparr>mn_carrying := filter p (mn_carrying nd)\<rparr>)" by (auto simp: cut_off_node_def)
next
  fix k nd e s nd' assume "cut_off_node l r d k nd" "stays_left r d e s k" "accepted e nd nd'"
  then show "cut_off_node l r d k nd'" by (auto simp: stays_left_def intro: cut_off_accepted)
qed (auto simp: cut_off_node_def stays_left_def may_pass_def split: if_splits)

text \<open>The mail of the run: for the destination, under the identifiers sent, and every node has room.\<close>

definition aimed_node :: "string \<Rightarrow> string set \<Rightarrow> string \<Rightarrow> mesh_node \<Rightarrow> bool" where
  "aimed_node d ids k nd =
     (node_ok k nd \<and> 0 < mn_capacity nd \<and> (\<forall>e \<in> snd ` set (mn_carrying nd) \<union> set (mn_received nd). me_destination e = d \<and> me_message_id e \<in> ids))"

lemma aimed_accepted:
  assumes "aimed_node d ids k nd" and "me_destination e = d \<and> me_message_id e \<in> ids" and "accepted e nd nd'"
  shows "aimed_node d ids k nd'"
proof -
  have "\<forall>e' \<in> snd ` set (mn_carrying nd'). me_destination e' = d \<and> me_message_id e' \<in> ids"
  proof
    fix e' assume "e' \<in> snd ` set (mn_carrying nd')"
    then have "e' = relayed_via e (mn_id nd) \<or> e' \<in> snd ` set (mn_carrying nd)" using accepted_carrying [OF assms(3)] by blast
    then show "me_destination e' = d \<and> me_message_id e' \<in> ids" using assms(1,2) unfolding aimed_node_def by auto
  qed
  moreover have "set (mn_received nd') \<subseteq> insert e (set (mn_received nd))" and "mn_capacity nd' = mn_capacity nd"
    using assms(3) by (auto simp: accepted_def split: if_splits)
  moreover have "node_ok k nd'" by (rule node_ok_accepted [OF _ assms(3)]) (use assms(1) in \<open>simp add: aimed_node_def\<close>)
  ultimately show ?thesis using assms(1,2) unfolding aimed_node_def by (simp add: ball_Un) blast
qed

interpretation aimed: roomy_mail "\<lambda>_ _. True" "aimed_node d ids" "addressed d ids" for d ids
proof unfold_locales
  fix k nd nd' assume a: "aimed_node d ids k nd" and s: "same_mail nd nd'"
  have "node_ok k nd'" by (rule once.own_mail [OF _ s]) (use a in \<open>simp add: aimed_node_def\<close>)
  with a s show "aimed_node d ids k nd'" by (simp add: aimed_node_def same_mail_def)
next
  fix k nd p assume "aimed_node d ids k nd"
  moreover from this have "node_ok k (nd\<lparr>mn_carrying := filter p (mn_carrying nd)\<rparr>)" using once.own_filter by (simp add: aimed_node_def)
  ultimately show "aimed_node d ids k (nd\<lparr>mn_carrying := filter p (mn_carrying nd)\<rparr>)" by (auto simp: aimed_node_def)
next
  fix k nd e s nd' assume "aimed_node d ids k nd" "addressed d ids e s k" "accepted e nd nd'"
  then show "aimed_node d ids k nd'" by (auto simp: addressed_def intro: aimed_accepted)
qed (auto simp: aimed_node_def node_ok_def addressed_def)

subsection \<open>The links of the scenario\<close>

lemma cut_profile: "lk_partitioned (profile_for (cut s d n) a b) = ((a, b) = (s, d) \<or> lk_partitioned (profile_for n a b))"
  by (auto simp: cut_def profile_for_def update_conv' split: option.split)

lemma cut_queue [simp]: "sn_queue (cut s d n) = sn_queue n"
  by (simp add: cut_def)

lemma partition_inner:
  "lk_partitioned (profile_for n a b) \<or> a = src \<and> b \<in> set right \<Longrightarrow>
   lk_partitioned (profile_for (fold (\<lambda>dst n. let n1 = cut src dst n in if symmetric then cut dst src n1 else n1) right n) a b) \<and>
   sn_queue (fold (\<lambda>dst n. let n1 = cut src dst n in if symmetric then cut dst src n1 else n1) right n) = sn_queue n"
  by (induction right arbitrary: n) (auto simp: cut_profile Let_def)

lemma partition_outer:
  "lk_partitioned (profile_for n a b) \<or> a \<in> set left \<and> b \<in> set right \<Longrightarrow> lk_partitioned (profile_for (partition_net left right symmetric n) a b)"
  unfolding partition_net_def
proof (induction left arbitrary: n)
  case (Cons s left)
  then show ?case using partition_inner [of n a b s right symmetric] by auto
qed simp

lemma partition_queue [simp]: "sn_queue (partition_net left right symmetric n) = sn_queue n"
  unfolding partition_net_def
proof (induction left arbitrary: n)
  case (Cons s left)
  have "sn_queue (fold (\<lambda>dst n. let n1 = cut s dst n in if symmetric then cut dst s n1 else n1) right n) = sn_queue n"
    by (induction right arbitrary: n) (auto simp: Let_def)
  then show ?case using Cons by simp
qed simp

lemma chain_queue: "sn_queue (chain_network p ids) = []"
proof -
  have "sn_queue (fold (\<lambda>(l, r) n. link n l r p True) es n) = sn_queue n" for es n
    by (induction es arbitrary: n) (auto simp: link_def Let_def)
  then show ?thesis by (simp add: chain_network_def new_network_def)
qed

lemma chain_nodes:
  "nodes_known (set ids) (chain_world p ids) \<and> (\<forall>kv \<in> set (mw_nodes (chain_world p ids)). \<exists>nbrs. snd kv = new_node (fst kv) nbrs DEFAULT_CARRY_CAPACITY True)"
proof -
  let ?put = "\<lambda>i. AList.update (ids ! i) (new_node (ids ! i) (chain_neighbours ids i) DEFAULT_CARRY_CAPACITY True)"
  have "distinct (map fst (fold ?put is [])) \<and> fst ` set (fold ?put is []) = (!) ids ` set is \<and>
      (\<forall>kv \<in> set (fold ?put is []). \<exists>nbrs. snd kv = new_node (fst kv) nbrs DEFAULT_CARRY_CAPACITY True)" for "is"
  proof (induction "is" rule: rev_induct)
    case (snoc i js)
    have "set (?put i xs) \<subseteq> insert (ids ! i, new_node (ids ! i) (chain_neighbours ids i) DEFAULT_CARRY_CAPACITY True) (set xs)" for xs
      by (rule set_update_subset)
    from this [of "fold ?put js []"] snoc have "\<forall>kv \<in> set (fold ?put (js @ [i]) []). \<exists>nbrs. snd kv = new_node (fst kv) nbrs DEFAULT_CARRY_CAPACITY True"
      by (auto dest!: subsetD)
    moreover have "fst ` set (?put i xs) = insert (ids ! i) (fst ` set xs)" for xs by (induction xs) auto
    ultimately show ?case using snoc by (simp add: distinct_update)
  qed simp
  from this [of "[0..<length ids]"] show ?thesis by (simp add: nodes_known_def chain_world_def nth_image)
qed

lemma chain_idle: "idle.mail_inv (chain_world p ids) \<and> aimed.mail_inv d ms (chain_world p ids)"
proof -
  have "mw_net (chain_world p ids) = chain_network p ids" by (simp add: chain_world_def)
  then have "sn_queue (mw_net (chain_world p ids)) = []" using chain_queue by simp
  moreover have "idle_node (fst kv) (snd kv) \<and> aimed_node d ms (fst kv) (snd kv)" if "kv \<in> set (mw_nodes (chain_world p ids))" for kv
  proof -
    from bspec [OF conjunct2 [OF chain_nodes] that] obtain nbrs where "snd kv = new_node (fst kv) nbrs DEFAULT_CARRY_CAPACITY True" ..
    then show ?thesis by (simp add: new_node_def idle_node_def aimed_node_def node_ok_def keyed_def no_stats_def DEFAULT_CARRY_CAPACITY_def)
  qed
  ultimately show ?thesis
    by (simp add: idle.mail_inv_def aimed.mail_inv_def idle.links_ok_def aimed.links_ok_def idle.queue_ok_def aimed.queue_ok_def)
qed

lemma aimed_links:
  "aimed.mail_inv d ms w \<Longrightarrow> sn_queue n = sn_queue (mw_net w) \<Longrightarrow> aimed.mail_inv d ms (w\<lparr>mw_net := n\<rparr>)"
  by (simp add: aimed.mail_inv_def aimed.links_ok_def aimed.queue_ok_def)

lemma idle_cut:
  assumes "idle.mail_inv w" and "nodes_known (l \<union> r) w" and "d \<in> r"
    and "sn_queue n = sn_queue (mw_net w)" and "\<And>a b. a \<in> l \<Longrightarrow> b \<in> r \<Longrightarrow> lk_partitioned (profile_for n a b)"
  shows "cut.mail_inv l r d (w\<lparr>mw_net := n\<rparr>)"
proof -
  have "cut_off_node l r d (fst kv) (snd kv)" if "kv \<in> set (mw_nodes w)" for kv
  proof -
    have "idle_node (fst kv) (snd kv)" using assms(1) that by (simp add: idle.mail_inv_def)
    moreover have "fst kv \<in> l \<union> r" using assms(2) that by (auto simp: nodes_known_def)
    ultimately show ?thesis using assms(3) by (simp add: cut_off_node_def idle_node_def)
  qed
  moreover have "cut.links_ok l r n" using assms(5) by (auto simp: cut.links_ok_def may_pass_def)
  moreover have "cut.queue_ok r d n" using assms(1,4) by (simp add: cut.queue_ok_def idle.mail_inv_def idle.queue_ok_def)
  ultimately show ?thesis by (simp add: cut.mail_inv_def)
qed

subsection \<open>The run\<close>

definition sent_names :: "nat \<Rightarrow> string set" where
  "sent_names messages = message_name ` {..<messages}"

lemma known_node: "nodes_known ids w \<Longrightarrow> k \<in> ids \<Longrightarrow> \<exists>nd. map_of (mw_nodes w) k = Some nd"
  unfolding nodes_known_def by (metis dom_map_of_conv_image_fst domD)

lemma aimed_send:
  assumes "aimed.mail_inv d ms w" and "nodes_known ids w" and "k \<in> ids" and "mid \<in> ms"
  shows "aimed.mail_inv d ms (fst (at_node k (mesh_send rng d mid payload ttl hop_limit) w)) \<and>
    is_ok (snd (at_node k (mesh_send rng d mid payload ttl hop_limit) w))"
proof
  show "aimed.mail_inv d ms (fst (at_node k (mesh_send rng d mid payload ttl hop_limit) w))"
  proof (rule aimed.send_inv [OF assms(1)])
    fix nd assume "aimed_node d ms k nd"
    then show "aimed_node d ms k (note_sent mid nd)" by (auto simp: aimed_node_def node_ok_def note_sent_def bump_def)
  next
    fix nd nd' assume a: "aimed_node d ms k nd" and c: "carry (first_envelope k d mid payload hop_limit (sn_now (mw_net w) + ttl)) nd = Inr nd'"
    have n: "node_ok k nd" using a by (simp add: aimed_node_def)
    have "keyed (mn_carrying nd') \<and> int (length (mn_carrying nd')) \<le> max 0 (mn_capacity nd)"
      by (rule carry_keyed [OF c]) (use n in \<open>simp_all add: node_ok_def\<close>)
    with n carry_spec [OF c] have "node_ok k nd'" unfolding node_ok_def by simp
    moreover have "\<forall>e \<in> snd ` set (mn_carrying nd'). me_destination e = d \<and> me_message_id e \<in> ms"
    proof
      fix e assume "e \<in> snd ` set (mn_carrying nd')"
      then have "e = first_envelope k d mid payload hop_limit (sn_now (mw_net w) + ttl) \<or> e \<in> snd ` set (mn_carrying nd)" using carry_values [OF c] by blast
      then show "me_destination e = d \<and> me_message_id e \<in> ms"
      proof
        assume "e = first_envelope k d mid payload hop_limit (sn_now (mw_net w) + ttl)"
        then show ?thesis using assms(4) by (simp add: first_envelope_def)
      next
        assume "e \<in> snd ` set (mn_carrying nd)"
        then show ?thesis using a unfolding aimed_node_def by blast
      qed
    qed
    ultimately show "aimed_node d ms k nd'" using a carry_spec [OF c] unfolding aimed_node_def by (simp add: ball_Un)
  qed
  obtain nd where nd: "map_of (mw_nodes w) k = Some nd" using known_node [OF assms(2,3)] by blast
  have "0 < mn_capacity (note_sent mid nd) \<and> keyed (mn_carrying (note_sent mid nd))"
    using aimed.mail_inv_node [OF assms(1) nd] by (simp add: aimed_node_def node_ok_def note_sent_def bump_def)
  then have "is_ok (snd (carry_and_offer rng (first_envelope (mn_id nd) d mid payload hop_limit (sn_now (mw_net w) + ttl)) (mw_net w, note_sent mid nd)))"
    using carry_and_offer_safe by blast
  then have "is_ok (snd (mesh_send rng d mid payload ttl hop_limit (mw_net w, nd)))"
    by (rule mesh_send_ok)
  with nd show "is_ok (snd (at_node k (mesh_send rng d mid payload ttl hop_limit) w))"
    by (cases "mesh_send rng d mid payload ttl hop_limit (mw_net w, nd)") (auto simp: at_node_def)
qed

lemma cut_send:
  assumes "cut.mail_inv l r d w" and "k \<notin> r"
  shows "cut.mail_inv l r d (fst (at_node k (mesh_send rng d mid payload ttl hop_limit) w))"
proof (rule cut.send_inv [OF assms(1)])
  fix nd assume "cut_off_node l r d k nd"
  then show "cut_off_node l r d k (note_sent mid nd)" by (simp add: cut_off_node_def note_sent_def bump_def)
next
  fix nd nd' assume a: "cut_off_node l r d k nd" and c: "carry (first_envelope k d mid payload hop_limit (sn_now (mw_net w) + ttl)) nd = Inr nd'"
  have "\<forall>e \<in> snd ` set (mn_carrying nd'). me_destination e = d"
  proof
    fix e assume "e \<in> snd ` set (mn_carrying nd')"
    then have "e = first_envelope k d mid payload hop_limit (sn_now (mw_net w) + ttl) \<or> e \<in> snd ` set (mn_carrying nd)" using carry_values [OF c] by blast
    then show "me_destination e = d"
    proof
      assume "e = first_envelope k d mid payload hop_limit (sn_now (mw_net w) + ttl)"
      then show ?thesis by (simp add: first_envelope_def)
    next
      assume "e \<in> snd ` set (mn_carrying nd)"
      then show ?thesis using a assms(2) unfolding cut_off_node_def by auto
    qed
  qed
  then show "cut_off_node l r d k nd'" using a assms(2) carry_spec [OF c] by (simp add: cut_off_node_def)
qed

lemma send_all_inv:
  assumes "aimed.mail_inv d ms w" and "nodes_known ids w" and "cut.mail_inv l r d w" and "k \<in> ids" and "k \<notin> r" and "message_name ` set is \<subseteq> ms"
  shows "\<exists>w'. send_all rng k d ttl is w = (w', Inr ()) \<and> aimed.mail_inv d ms w' \<and> nodes_known ids w' \<and> cut.mail_inv l r d w'"
  using assms
proof (induction "is" arbitrary: w)
  case (Cons i js)
  let ?act = "mesh_send rng d (message_name i) (JObj [(''index'', JInt (int i))]) ttl DEFAULT_HOP_LIMIT"
  obtain w1 r1 where s: "at_node k ?act w = (w1, r1)" by (metis surj_pair)
  have "message_name i \<in> ms" using Cons.prems(6) by simp
  note ai = aimed_send [OF Cons.prems(1,2,4) this, of rng "JObj [(''index'', JInt (int i))]" ttl DEFAULT_HOP_LIMIT, unfolded s fst_conv snd_conv]
  have "nodes_known ids w1" using nodes_known_at [OF Cons.prems(2), of k ?act] s by simp
  moreover have "cut.mail_inv l r d w1" using cut_send [OF Cons.prems(3,5), of rng "message_name i" "JObj [(''index'', JInt (int i))]" ttl DEFAULT_HOP_LIMIT] s by simp
  moreover obtain x where "r1 = Inr x" using ai by (auto simp: is_ok_iff)
  ultimately show ?case using Cons.IH [of w1] Cons.prems ai s by simp
qed simp

lemma delivered_idle: "cut.mail_inv l r d w \<Longrightarrow> delivered_ids w = []"
  by (auto simp: delivered_ids_def cut.mail_inv_def cut_off_node_def)

lemma delivered_once:
  assumes "aimed.mail_inv d ms w" and "nodes_known ids w"
  shows "distinct (delivered_ids w) \<and> set (delivered_ids w) \<subseteq> ms"
proof
  have own: "aimed_node d ms (fst kv) (snd kv)" if "kv \<in> set (mw_nodes w)" for kv using assms(1) that by (simp add: aimed.mail_inv_def)
  have elsewhere: "mn_received (snd kv) = []" if "kv \<in> set (mw_nodes w)" "fst kv \<noteq> d" for kv
  proof (rule ccontr)
    assume "mn_received (snd kv) \<noteq> []"
    then obtain e where "e \<in> set (mn_received (snd kv))" by (cases "mn_received (snd kv)") auto
    with own [OF that(1)] that(2) show False by (auto simp: aimed_node_def node_ok_def)
  qed
  have dist: "distinct (map me_message_id (mn_received (snd kv)))" if "kv \<in> set (mw_nodes w)" for kv
    using own [OF that] by (simp add: aimed_node_def node_ok_def)
  have "distinct (map fst (mw_nodes w))" using assms(2) by (simp add: nodes_known_def)
  then have "distinct (concat (map (\<lambda>kv. map me_message_id (mn_received (snd kv))) xs))" if "xs = mw_nodes w" for xs
  proof -
    have "set ys \<subseteq> set (mw_nodes w) \<Longrightarrow> distinct (map fst ys) \<Longrightarrow>
        distinct (concat (map (\<lambda>kv. map me_message_id (mn_received (snd kv))) ys)) \<and>
        (d \<notin> fst ` set ys \<longrightarrow> concat (map (\<lambda>kv. map me_message_id (mn_received (snd kv))) ys) = [])" for ys
    proof (induction ys)
      case (Cons kv ys)
      then show ?case using elsewhere [of kv] dist [of kv] by (cases "fst kv = d") auto
    qed simp
    then show ?thesis using that \<open>distinct (map fst (mw_nodes w))\<close> by simp
  qed
  then show "distinct (delivered_ids w)" by (simp add: delivered_ids_def)
  show "set (delivered_ids w) \<subseteq> ms" using own by (fastforce simp: delivered_ids_def aimed_node_def)
qed

lemma partition_scenario_facts:
  assumes "distinct ids" and "2 \<le> length ids" and "0 < tick_ms"
  shows "\<exists>r. run_partition_scenario rng ids profile messages after duration settle tick_ms = Some (Inr r) \<and> sr_sent r = messages \<and>
    sr_delivered_during_partition r = 0 \<and> sr_duplicate_deliveries r = 0 \<and> sr_delivered r \<le> messages"
proof -
  let ?p = "case profile of Some p \<Rightarrow> p | None \<Rightarrow> industrial_wifi" and ?m = "length ids div 2"
  let ?l = "set (take ?m ids)" and ?r = "set (drop ?m ids)" and ?d = "last ids" and ?ms = "sent_names messages"
  have ne: "ids \<noteq> []" using assms(2) by auto
  have m: "0 < ?m" "?m < length ids" using assms(2) by auto
  have lr: "?l \<union> ?r = set ids" by (metis append_take_drop_id set_append)
  have "?l \<inter> ?r = {}" using assms(1) by (metis append_take_drop_id distinct_append)
  moreover have "hd ids \<in> ?l" using m ne by (cases ids; cases ?m) simp_all
  ultimately have h: "hd ids \<in> set ids" "hd ids \<notin> ?r" using ne by auto
  have d: "?d \<in> ?r" using m by (metis last_drop last_in_set drop_eq_Nil linorder_not_le)
  let ?aim = "aimed.mail_inv ?d ?ms" and ?cut = "cut.mail_inv ?l ?r ?d" and ?known = "nodes_known (set ids)"
  have known_run: "?known (tick_all rng t w)" "?known (fst (advance_to rng t w))" if "?known w" for t w
    using that by (rule nodes_known_tick, rule nodes_known_advance)
  have "\<exists>w' t. net_run rng after tick_ms (tick_all rng) (\<lambda>_. False) (chain_world ?p ids) = Some (w', Inr t) \<and> ?aim w' \<and>
      (idle.mail_inv w' \<and> ?known w')"
    by (rule aimed.run_keeps [OF assms(3)]) (use chain_idle chain_nodes in \<open>simp_all add: idle.tick_all_inv idle.advance_to_inv known_run\<close>)
  then obtain w1 t1 where r1: "net_run rng after tick_ms (tick_all rng) (\<lambda>_. False) (chain_world ?p ids) = Some (w1, Inr t1)"
    and w1: "?aim w1" "idle.mail_inv w1" "?known w1" by (elim exE conjE) (rule that)
  define w2 where "w2 = w1\<lparr>mw_net := partition_net (take ?m ids) (drop ?m ids) True (mw_net w1)\<rparr>"
  have w2: "?aim w2" "?known w2" "?cut w2"
    unfolding w2_def using w1 d by (auto intro: aimed_links idle_cut partition_outer simp: lr)
  obtain w3 where r3: "send_all rng (hd ids) ?d (duration + settle + 10000) [0..<messages] w2 = (w3, Inr ())" and w3: "?aim w3" "?known w3" "?cut w3"
    using send_all_inv [OF w2 h, of "[0..<messages]" rng "duration + settle + 10000"] by (auto simp: sent_names_def atLeast0LessThan)
  have "\<exists>w' t. net_run rng duration tick_ms (tick_all rng) (\<lambda>_. False) w3 = Some (w', Inr t) \<and> ?aim w' \<and> (?cut w' \<and> ?known w')"
    by (rule aimed.run_keeps [OF assms(3) w3(1)]) (use w3 in \<open>simp_all add: cut.tick_all_inv cut.advance_to_inv known_run\<close>)
  then obtain w4 t4 where r4: "net_run rng duration tick_ms (tick_all rng) (\<lambda>_. False) w3 = Some (w4, Inr t4)"
    and w4: "?aim w4" "?cut w4" "?known w4" by (elim exE conjE) (rule that)
  define w5 where "w5 = w4\<lparr>mw_net := heal (mw_net w4)\<rparr>"
  have w5: "?aim w5" "?known w5" unfolding w5_def using w4 by (auto intro: aimed_links simp: heal_def)
  have "\<exists>w' t. net_run rng settle tick_ms (tick_all rng) (\<lambda>w. card (set (delivered_ids w)) = messages) w5 = Some (w', Inr t) \<and> ?aim w' \<and> ?known w'"
    by (rule aimed.run_keeps [OF assms(3) w5(1)]) (use w5 in \<open>simp_all add: known_run\<close>)
  then obtain w6 t6 where r6: "net_run rng settle tick_ms (tick_all rng) (\<lambda>w. card (set (delivered_ids w)) = messages) w5 = Some (w6, Inr t6)"
    and w6: "?aim w6" "?known w6" by (elim exE conjE) (rule that)
  note once = delivered_once [OF w6]
  have "card (set (delivered_ids w6)) \<le> messages"
    using card_mono [OF _ conjunct2 [OF once]] card_image_le [of "{..<messages}" message_name] by (simp add: sent_names_def)
  moreover have "length (delivered_ids w6) = card (set (delivered_ids w6))" using once by (simp add: distinct_card)
  moreover have "delivered_ids w4 = []" by (rule delivered_idle [OF w4(2)])
  ultimately show ?thesis unfolding run_partition_scenario_def Let_def using ne r1 r3 r4 r6 by (simp add: w2_def w5_def)
qed

text \<open>
  C32. Whatever the generator draws, the profile and the durations, on a chain of at least two different nodes with a positive tick the
  scenario returns a report: no message was delivered while the two halves were cut apart, none was delivered twice and none
  that was not sent.
\<close>

theorem partition_scenario_sound:
  assumes "distinct ids" and "2 \<le> length ids" and "0 < tick_ms"
  shows "\<exists>r. run_partition_scenario rng ids profile messages after duration settle tick_ms = Some (Inr r) \<and> sr_sent r = messages \<and>
    sr_delivered_during_partition r = 0 \<and> sr_duplicate_deliveries r = 0 \<and> sr_delivered r \<le> messages"
  by (rule partition_scenario_facts [OF assms])

theorem partition_scenario_sound_witness:
  "\<exists>r. run_partition_scenario demo_draws [''edge-a'', ''relay-1'', ''relay-2'', ''coordinator''] None 20 500 60000 60000 250 = Some (Inr r) \<and>
     sr_sent r = 20 \<and> sr_delivered_during_partition r = 0 \<and> sr_duplicate_deliveries r = 0 \<and> sr_delivered r \<le> 20"
  by (rule partition_scenario_sound) simp_all

end
