(* ===== verification/Reference_Case.thy ===== *)
theory Reference_Case
  imports Safety_Case Layers Safety Realtime Lease Audit_Chain Mesh_Safety
begin

text \<open>
  The safety case of this coordinator (\<^verbatim>\<open>src/fasp_harness/safety/reference_case.py\<close>): its claims, and the pieces of evidence
  that exercise parts of the program this development models (the layer guard, the supervisor, the watchdog, the lease, the
  partition scenario, the audit chain, the configured safety controller), each run on those models.

  The other evidence (the bench, the host, the scheduler, the twin and the posture) is a parameter of the case, by its identifier.
  Clock readings, \<^verbatim>\<open>repr\<close> and \<^verbatim>\<open>str\<close> are parameters of the texts; a seed stands for the draws of its generator.
\<close>

section \<open>Evidence\<close>

type_synonym evidence_run = "(string \<times> string) + EvidenceResult"

definition ATTEMPTED_LAYER1_CAPABILITIES :: "string list" where
  "ATTEMPTED_LAYER1_CAPABILITIES =
     [''safety.estop.clear.v1'', ''actuate.motor.command.v1'', ''safety.zone.mute.v1'', ''reversible.brake.release.v1'',
      ''coordinate.speed_limit.override.v1'', ''observe.interlock.bypass.v1'', ''fleet.watchdog.disable.v1'', ''maintenance.plc.program.v1'']"

definition evidence_layer_guard :: evidence_run where
  "evidence_layer_guard =
     (let attempts = List.product ATTEMPTED_LAYER1_CAPABILITIES (List.product all_layers all_interactions);
          accepted = filter (\<lambda>(c, l, i). is_ok (check_capability \<lparr>allow_layer2_dispatch = True\<rparr>
            \<lparr>cd_id = c, cd_risk = ''observe'', cd_layer = l, cd_interaction = i, cd_max_runtime_s = Fin 5, cd_declared = False\<rparr>)) attempts;
          combinations = length ATTEMPTED_LAYER1_CAPABILITIES * length all_layers * length all_interactions
      in case accepted of
           (c, l, i) # _ \<Rightarrow> Inr (er_failed (''The layer guard accepted '' @ nat_text (length accepted) @ '' Layer 1 capability declaration(s), starting with '' @
              c @ ''@L'' @ int_text (layer_value l) @ ''/'' @ interaction_name i @ ''.'') [])
         | [] \<Rightarrow> Inr (er_supported (''All '' @ nat_text (length ATTEMPTED_LAYER1_CAPABILITIES) @
              '' reserved Layer 1 capability names were refused at every layer and interaction ('' @ nat_text combinations @ '' combinations).'')
              [(''combinations'', JInt (int combinations))]))"

text \<open>A supervisor as its constructor leaves it, over a driver and its state.\<close>

definition new_supervisor :: "('d driver \<times> 'd) option \<Rightarrow> 'd SafetySupervisor" where
  "new_supervisor drv = \<lparr>sv_driver = drv, sv_stale_after_s = 2, sv_max_speed_mps = 3/2, sv_require_controller = True, sv_latched = False,
     sv_sequence = 0, sv_demands = [], sv_functions = Map.empty, sv_last_status = None, sv_last_sample = None, sv_poll_failures = 0\<rparr>"

definition simulated_supervisor :: "SimulatedSafetyController SafetySupervisor" where
  "simulated_supervisor = new_supervisor (Some (sim_driver ''simulated-safety-plc'', new_simulated ''simulated-safety-plc''))"

definition CLEAR_ATTEMPTS :: "string list" where
  "CLEAR_ATTEMPTS = [''peer'', ''network'', ''fleet'', ''cloud'', ''wms'', ''mes'', ''twin'', ''watchdog'', ''supervisor'']"

fun try_clears :: "rat \<Rightarrow> timestamp \<Rightarrow> string list \<Rightarrow> 'd SafetySupervisor \<Rightarrow> 'd SafetySupervisor \<times> string option" where
  "try_clears mt st [] s = (s, None)"
| "try_clears mt st (origin # rest) s =
     (case clear s mt st [] origin ''attacker'' '''' of
        (s1, Inl _) \<Rightarrow> try_clears mt st rest s1
      | (s1, Inr _) \<Rightarrow> (s1, Some origin))"

text \<open>The supervisor shares the controller, so resetting it changes the state the supervisor's driver reads.\<close>

definition reset_controller :: "SimulatedSafetyController SafetySupervisor \<Rightarrow> SimulatedSafetyController SafetySupervisor" where
  "reset_controller s = s\<lparr>sv_driver := map_option (\<lambda>(dr, c). (dr, fst (manual_reset c))) (sv_driver s)\<rparr>"

definition evidence_no_network_clear :: "(string \<Rightarrow> string) \<Rightarrow> rat \<Rightarrow> timestamp \<Rightarrow> evidence_run" where
  "evidence_no_network_clear repr mt st =
     (case try_clears mt st CLEAR_ATTEMPTS (fst (demand_halt simulated_supervisor mt st ''peer'' ''test demand'' ''peer'')) of
        (s1, Some origin) \<Rightarrow> Inr (er_failed (''A halt was cleared by a caller with origin '' @ repr origin @ ''.'') [])
      | (s1, None) \<Rightarrow>
          if \<not> sv_latched s1 then Inr (er_failed ''The supervisor did not remain latched after the clear attempts.'' [])
          else (case clear (reset_controller s1) mt st [] LOCAL_OPERATOR ''bench'' '''' of
                  (s2, Inl e) \<Rightarrow> Inl (exn_name e, '''')
                | (s2, Inr _) \<Rightarrow>
                    if sv_latched s2
                    then Inr (er_failed ''A local operator could not clear the halt after the machine was reset, which would make the system unusable.'' [])
                    else Inr (er_supported (nat_text (length CLEAR_ATTEMPTS) @
                           '' network origins were refused; only a local operator, with the controller reset, could clear the latch.'')
                           [(''refused_origins'', JList (map JStr CLEAR_ATTEMPTS))])))"

definition expiry_detail :: "int \<Rightarrow> int \<Rightarrow> string" where
  "expiry_detail elapsed timeout =
     ''no liveness for '' @ int_text (py_round (of_int elapsed / 1000000)) @ ''ms (timeout '' @ int_text (py_round (of_int timeout / 1000000)) @ ''ms)''"

definition evidence_watchdog_failsafe :: "rat \<Rightarrow> timestamp \<Rightarrow> evidence_run" where
  "evidence_watchdog_failsafe mt st =
     (case new_watchdog ''control-plane'' 1 False 0 of
        Inl e \<Rightarrow> Inl (exn_name e, '''')
      | Inr w0 \<Rightarrow>
          (let on_expire = (\<lambda>w now s. fst (demand_halt s mt st ''watchdog'' (expiry_detail (now - wd_last_pet_ns w) (wd_timeout_ns w)) ''watchdog''));
               w1 = pet w0 0;
               (w2, tripped1) = poll w1 500000000;
               s1 = (if tripped1 then on_expire w1 500000000 simulated_supervisor else simulated_supervisor)
           in if tripped1 \<or> sv_latched s1 then Inr (er_failed ''The watchdog tripped before its timeout elapsed.'' [])
              else (let (w3, tripped2) = poll w2 2000000000;
                        s2 = (if tripped2 then on_expire w2 2000000000 s1 else s1)
                    in if \<not> tripped2 then Inr (er_failed ''The watchdog did not trip after its timeout elapsed.'' [])
                       else if \<not> sv_latched s2 then Inr (er_failed ''The watchdog tripped but did not latch a halt.'' [])
                       else if \<not> wd_expired (pet w3 2000000000)
                       then Inr (er_failed ''Petting a tripped watchdog cleared it; a latched watchdog must not un-trip on its own.'' [])
                       else Inr (er_supported ''A 1s watchdog stayed clear at 0.5s, tripped at 2.0s, latched a halt, and stayed tripped when petted afterwards.''
                              [(''timeout_s'', JFloat (Fin 1))]))))"

definition evidence_fencing :: "int \<Rightarrow> timestamp \<Rightarrow> evidence_run" where
  "evidence_fencing now st =
     (case (new_leader_lease ''coordinator'' ''node-a'' 1, new_leader_lease ''coordinator'' ''node-b'' 1) of
        (Inr first, Inr second) \<Rightarrow>
          (case try_acquire Map.empty first 0 st None of
             (db1, first1, None, _) \<Rightarrow> Inr (er_failed ''The first node could not acquire the lease.'' [])
           | (db1, first1, Some held1, _) \<Rightarrow>
               (case try_acquire db1 second 500 st None of
                  (db2, second1, Some _, _) \<Rightarrow> Inr (er_failed ''A second node acquired a lease that was still held.'' [])
                | (db2, second1, None, _) \<Rightarrow>
                    (case try_acquire db2 second1 2000 st None of
                       (db3, second2, None, _) \<Rightarrow> Inr (er_failed ''The second node could not take over an expired lease.'' [])
                     | (db3, second2, Some taken, _) \<Rightarrow>
                         if fo_fence taken \<le> fo_fence held1
                         then Inr (er_failed (''The fence did not advance on takeover ('' @ int_text (fo_fence held1) @ '' -> '' @ int_text (fo_fence taken) @ '').'') [])
                         else (case guard db3 now held1 of
                                 Inl _ \<Rightarrow> Inr (er_supported (''A superseded leader presenting fence '' @ int_text (fo_fence held1) @
                                     '' was refused after leadership advanced to '' @ int_text (fo_fence taken) @ ''.'')
                                     [(''old_fence'', JInt (fo_fence held1)), (''new_fence'', JInt (fo_fence taken))])
                               | Inr _ \<Rightarrow> Inr (er_failed ''A superseded leader's stale fence was accepted, which permits split-brain dispatch.'' [])))))
      | _ \<Rightarrow> Inl (''ValueError'', ''''))"

definition SCENARIO_NODES :: "string list" where
  "SCENARIO_NODES = [''edge-a'', ''relay-1'', ''relay-2'', ''coordinator'']"

definition scenario_of_seed :: "(int \<Rightarrow> nat \<Rightarrow> rat) \<Rightarrow> int \<Rightarrow> scenario_report result option" where
  "scenario_of_seed draws_of s = run_partition_scenario (draws_of s) SCENARIO_NODES None 10 500 60000 60000 250"

definition judge_scenarios :: "(int \<times> scenario_report) list \<Rightarrow> EvidenceResult" where
  "judge_scenarios reports =
     (case filter (\<lambda>(s, r). \<not> report_complete r) reports of
        (s, r) # _ \<Rightarrow> er_failed (''Seed '' @ int_text s @ '': '' @ nat_text (sr_delivered r) @ ''/'' @ nat_text (sr_sent r) @ '' delivered, '' @
            int_text (sr_duplicate_deliveries r) @ '' duplicated.'') []
      | [] \<Rightarrow>
          (let during = foldr max (map (\<lambda>(s, r). sr_delivered_during_partition r) reports) 0
           in if during \<noteq> 0
              then er_inconclusive (nat_text during @ '' message(s) were delivered during the partition, so the scenario did not actually exercise carrying.'') []
              else er_supported (''Across '' @ nat_text (length reports) @ '' seeds: 0 messages crossed during a 60s hard partition, all '' @
                     nat_text (sr_sent (snd (hd reports))) @ '' were delivered after healing, 0 duplicate deliveries.'')
                     [(''seeds'', JList (map (JInt \<circ> fst) reports))]))"

definition evidence_partition_tolerance :: "(int \<Rightarrow> nat \<Rightarrow> rat) \<Rightarrow> evidence_run" where
  "evidence_partition_tolerance draws_of =
     (case (scenario_of_seed draws_of 1, scenario_of_seed draws_of 2, scenario_of_seed draws_of 3) of
        (Some (Inr a), Some (Inr b), Some (Inr c)) \<Rightarrow> Inr (judge_scenarios [(1, a), (2, b), (3, c)])
      | _ \<Rightarrow> Inl (''Exception'', ''''))"

definition evidence_audit_chain :: "('h audit_payload \<Rightarrow> 'h) \<Rightarrow> 'h \<Rightarrow> 'h audit_row list option \<Rightarrow> evidence_run" where
  "evidence_audit_chain hx genesis chain =
     (case chain of
        None \<Rightarrow> Inr (er_inconclusive ''No running harness was supplied, so its audit chain could not be verified.'' [])
      | Some rows \<Rightarrow>
          (case audit_verify hx genesis rows of
             (False, bad) \<Rightarrow> Inr (er_failed (''The audit chain failed verification at sequence '' @
                 (case bad of None \<Rightarrow> ''None'' | Some i \<Rightarrow> int_text i) @ ''.'') [])
           | (True, _) \<Rightarrow> Inr (er_supported (''The hash-chained audit log verified end to end over '' @ nat_text (length rows) @ '' entries.'')
                 [(''entries'', JInt (int (length rows)))])))"

text \<open>What the driver of the supplied supervisor says of itself, if there is a supervisor with a driver.\<close>

definition evidence_safety_controller_is_real :: "py_parse \<Rightarrow> (string \<times> json) list option \<Rightarrow> evidence_run" where
  "evidence_safety_controller_is_real fs described =
     (case described of
        None \<Rightarrow> Inr (er_failed ''No safety controller is configured, so this system cannot observe Layer 1 at all.'' [])
      | Some d \<Rightarrow>
          if \<not> truthy (get_or_null d ''real_hardware'')
          then Inr (er_failed (''The configured safety controller is '' @ (case map_of d ''model'' of None \<Rightarrow> ''a simulation'' | Some m \<Rightarrow> to_str fs m) @
                 '', which carries no safety integrity. This is expected in CI and unacceptable in a deployment with physical actuation.'') [])
          else Inr (er_supported (''A real safety controller is configured: '' @ to_str fs (get_or_null d ''vendor'') @ '' '' @ to_str fs (get_or_null d ''model'') @ ''.'')
                 [(''integrity_claim'', get_or_null d ''integrity_claim'')]))"

definition simulated_description :: "SimulatedSafetyController \<Rightarrow> (string \<times> json) list" where
  "simulated_description c =
     [(''vendor'', JStr ''fasp-harness''), (''model'', JStr ''simulated-safety-controller''), (''real_hardware'', JBool False),
      (''integrity_claim'', JStr ''none -- this is a software model for testing, and carries no safety integrity whatsoever''),
      (''device'', JStr (sc_device c)), (''stop_requests'', JInt (int (length (sc_stop_requests c))))]"

section \<open>The case\<close>

definition ref_G1 :: Claim where
  "ref_G1 = \<lparr>cl_id = ''G1'', cl_statement = ''Introducing this coordinator does not increase the risk to people near the machines it coordinates.'',
     cl_strategy = ''Argue over the layer model: Layer 1 risk reduction is unchanged and undefeatable from here; Layers 2-4 '' @
     ''behaviour degrades toward stopped.'',
     cl_context = [''Scope: the coordination software in this repository, at Layers 3 and 4, plus its observation of Layers 1 and '' @
     ''2.'', ''The machines themselves, their protective stops, and their autonomy stacks are outside this scope and are '' @
     ''argued by their own suppliers.''],
     cl_assumptions = [''Every coordinated machine has a protective stop implemented in certified equipment, assessed to the risk of '' @
     ''its application (ISO 13849 / IEC 62061 / IEC 61508 as applicable).'', ''That protective stop remains effective when this software, its host, and the network are all absent.'', ''Site risk assessment, commissioning, and validation are performed by competent persons for the specific '' @
     ''installation.''],
     cl_sub_claims = [''G2'', ''G3'', ''G4'', ''G5'', ''G6'', ''G7'', ''G8'', ''G9''], cl_evidence = [], cl_undeveloped = False,
     cl_delegated_to = None,
     cl_rationale = ''''\<rparr>"

definition ref_G2 :: Claim where
  "ref_G2 = \<lparr>cl_id = ''G2'', cl_statement = ''Layer 1 safety functions are implemented, assessed, and certified outside this software.'',
     cl_strategy = '''',
     cl_context = [],
     cl_assumptions = [],
     cl_sub_claims = [], cl_evidence = [], cl_undeveloped = False,
     cl_delegated_to = Some (''the machine builder's certified safety controller and its own conformity assessment (ISO 13849-1 / IEC '' @
     ''62061), plus the site integrator's validation''),
     cl_rationale = ''This software implements no safety function. It observes Layer 1 and may request a stop.''\<rparr>"

definition ref_G3 :: Claim where
  "ref_G3 = \<lparr>cl_id = ''G3'', cl_statement = ''This software cannot defeat, bypass, mute, or clear a Layer 1 safety function.'',
     cl_strategy = ''Argue by construction (no such code path exists) and by test (attempts are refused).'',
     cl_context = [],
     cl_assumptions = [],
     cl_sub_claims = [], cl_evidence = [''E1'', ''E2'', ''E6''], cl_undeveloped = False,
     cl_delegated_to = None,
     cl_rationale = ''''\<rparr>"

definition ref_G4 :: Claim where
  "ref_G4 = \<lparr>cl_id = ''G4'', cl_statement = ''A halt demand from any source is honoured promptly and remains latched until a deliberate local reset.'',
     cl_strategy = '''',
     cl_context = [],
     cl_assumptions = [],
     cl_sub_claims = [], cl_evidence = [''E3'', ''E4'', ''E5''], cl_undeveloped = False,
     cl_delegated_to = None,
     cl_rationale = ''''\<rparr>"

definition ref_G5 :: Claim where
  "ref_G5 = \<lparr>cl_id = ''G5'', cl_statement = ''Loss of the network, the coordinator, or its leadership degrades the system toward stopped, never toward '' @
     ''stale commands.'',
     cl_strategy = ''Argue over each loss mode: stalled loop, superseded leader, partitioned network.'',
     cl_context = [],
     cl_assumptions = [],
     cl_sub_claims = [], cl_evidence = [''E7'', ''E8'', ''E9''], cl_undeveloped = False,
     cl_delegated_to = None,
     cl_rationale = ''''\<rparr>"

definition ref_G6 :: Claim where
  "ref_G6 = \<lparr>cl_id = ''G6'', cl_statement = ''Work is dispatched to a vehicle only when supervisory preconditions hold and the mission has been shown to be '' @
     ''achievable.'',
     cl_strategy = '''',
     cl_context = [],
     cl_assumptions = [],
     cl_sub_claims = [''G10''], cl_evidence = [''E12''], cl_undeveloped = False,
     cl_delegated_to = None,
     cl_rationale = ''''\<rparr>"

definition ref_G10 :: Claim where
  "ref_G10 = \<lparr>cl_id = ''G10'', cl_statement = ''Obstacle avoidance, localisation, and path execution are correct for the vehicle's environment.'',
     cl_strategy = '''',
     cl_context = [],
     cl_assumptions = [],
     cl_sub_claims = [], cl_evidence = [], cl_undeveloped = False,
     cl_delegated_to = Some (''each vehicle's own autonomy stack and its supplier's validation; the coordinator dispatches goals and never a '' @
     ''trajectory''),
     cl_rationale = ''''\<rparr>"

definition ref_G7 :: Claim where
  "ref_G7 = \<lparr>cl_id = ''G7'', cl_statement = ''Timing behaviour is measured rather than asserted, and no hard real-time guarantee is claimed for this '' @
     ''process.'',
     cl_strategy = '''',
     cl_context = [],
     cl_assumptions = [],
     cl_sub_claims = [], cl_evidence = [''E10'', ''E11''], cl_undeveloped = False,
     cl_delegated_to = None,
     cl_rationale = ''''\<rparr>"

definition ref_G8 :: Claim where
  "ref_G8 = \<lparr>cl_id = ''G8'', cl_statement = ''The security posture that the safety argument depends on is enforced at startup and evidenced at runtime.'',
     cl_strategy = ''A safety argument that assumes an authenticated peer is void if authentication is optional.'',
     cl_context = [],
     cl_assumptions = [],
     cl_sub_claims = [], cl_evidence = [''E13'', ''E14'', ''E15''], cl_undeveloped = False,
     cl_delegated_to = None,
     cl_rationale = ''''\<rparr>"

definition ref_G9 :: Claim where
  "ref_G9 = \<lparr>cl_id = ''G9'', cl_statement = ''The argument and its evidence have been independently validated for a specific installation.'',
     cl_strategy = '''',
     cl_context = [],
     cl_assumptions = [],
     cl_sub_claims = [], cl_evidence = [], cl_undeveloped = True,
     cl_delegated_to = None,
     cl_rationale = ''Not argued here, and not arguable here. Independent validation requires a competent body assessing a specific '' @
     ''installation: its risk assessment, its machinery, its integration, and its organisational processes. No '' @
     ''self-executed evidence can substitute for it, and this claim is left visibly open rather than quietly omitted.''\<rparr>"

text \<open>The system the evidence looks at: the audit log of a running harness and the description of its safety controller, if supplied.\<close>

record ('h, 'x) site_view =
  sv_audit :: "'h audit_row list option"
  sv_described :: "(string \<times> json) list option"
  sv_outside :: 'x

record ('h, 'x) evidence_inputs =
  ei_repr :: "string \<Rightarrow> string"
  ei_parse :: py_parse
  ei_monotonic :: rat
  ei_stamp :: timestamp
  ei_now_ms :: int
  ei_draws :: "int \<Rightarrow> nat \<Rightarrow> rat"
  ei_hash :: "'h audit_payload \<Rightarrow> 'h"
  ei_genesis :: 'h
  ei_outside :: "string \<Rightarrow> ('h, 'x) site_view \<Rightarrow> ('h, 'x) site_view \<times> evidence_run"

definition ref_evidence :: "string \<Rightarrow> string \<Rightarrow> string \<Rightarrow> ('w \<Rightarrow> 'w \<times> evidence_run) \<Rightarrow> 'w Evidence" where
  "ref_evidence i description kind run' = \<lparr>evd_id = i, evd_description = description, evd_kind = kind, evd_run = run', evd_owner = ''this software''\<rparr>"

definition reference_evidence :: "('h, 'x) evidence_inputs \<Rightarrow> ('h, 'x) site_view Evidence list" where
  "reference_evidence ei =
     [ref_evidence ''E1'' ''The layer guard refuses every reserved Layer 1 capability name at every layer and risk class.'' ''test''
        (\<lambda>w. (w, evidence_layer_guard)),
      ref_evidence ''E2'' ''A latched halt cannot be cleared by any network origin, only by a local operator with the controller reset.'' ''test''
        (\<lambda>w. (w, evidence_no_network_clear (ei_repr ei) (ei_monotonic ei) (ei_stamp ei))),
      ref_evidence ''E3'' ''HIL: an E-stop demand produces an observed stop within budget.'' ''measurement'' (ei_outside ei ''E3''),
      ref_evidence ''E4'' ''HIL: the stop latches; releasing the button does not resume motion.'' ''measurement'' (ei_outside ei ''E4''),
      ref_evidence ''E5'' ''HIL: losing sight of the safety controller withdraws permission to move.'' ''measurement'' (ei_outside ei ''E5''),
      ref_evidence ''E6'' ''HIL: a network halt request is honoured and cannot be undone from the network.'' ''measurement'' (ei_outside ei ''E6''),
      ref_evidence ''E7'' ''A stalled control plane escalates into a latched halt without being asked, and stays latched.'' ''test''
        (\<lambda>w. (w, evidence_watchdog_failsafe (ei_monotonic ei) (ei_stamp ei))),
      ref_evidence ''E8'' ''A superseded coordinator's fencing token is refused at the moment of effect.'' ''test''
        (\<lambda>w. (w, evidence_fencing (ei_now_ms ei) (ei_stamp ei))),
      ref_evidence ''E9'' ''A 60-second hard partition delays delivery without losing or duplicating it.'' ''test''
        (\<lambda>w. (w, evidence_partition_tolerance (ei_draws ei))),
      ref_evidence ''E10'' ''The runtime makes no hard real-time claim and records why.'' ''inspection'' (ei_outside ei ''E10''),
      ref_evidence ''E11'' ''The management-plane scheduler is drift-free and treats an overrun as a defined event.'' ''measurement'' (ei_outside ei ''E11''),
      ref_evidence ''E12'' ''The twin refuses a mission that cannot physically be completed.'' ''test'' (ei_outside ei ''E12''),
      ref_evidence ''E13'' ''The hash-chained audit log verifies end to end.'' ''test''
        (\<lambda>w. (w, evidence_audit_chain (ei_hash ei) (ei_genesis ei) (sv_audit w))),
      ref_evidence ''E14'' ''The deployment's security posture is evaluated and has no blocking findings.'' ''inspection'' (ei_outside ei ''E14''),
      ref_evidence ''E15'' ''A real, certified safety controller is configured (not a simulation).'' ''inspection''
        (\<lambda>w. (w, evidence_safety_controller_is_real (ei_parse ei) (sv_described w)))]"

definition build_reference_case :: "('h, 'x) evidence_inputs \<Rightarrow> ('h, 'x) site_view SafetyCase" where
  "build_reference_case ei =
     fold claim [ref_G1, ref_G2, ref_G3, ref_G4, ref_G5, ref_G6, ref_G10, ref_G7, ref_G8, ref_G9]
       (fold add_evidence (reference_evidence ei) (new_case ''Safety case: FASP coordinator at Layers 3 and 4'' ''G1''))"

section \<open>Evidence that cannot fail\<close>

definition run_sound :: "evidence_run \<Rightarrow> bool" where
  "run_sound r = (case r of Inr x \<Rightarrow> er_verdict x = SUPPORTED | Inl _ \<Rightarrow> False)"

lemma er_verdicts [simp]:
  "er_verdict (er_supported t ms) = SUPPORTED" "er_verdict (er_failed t ms) = NOT_SUPPORTED" "er_verdict (er_inconclusive t ms) = INCONCLUSIVE"
  by (simp_all add: er_supported_def er_failed_def er_inconclusive_def)

lemma attempted_reserved: "list_all (\<lambda>c. reserved_reason c \<noteq> None) ATTEMPTED_LAYER1_CAPABILITIES"
  by code_simp

lemma layer_guard_sound: "run_sound evidence_layer_guard"
proof -
  let ?admit = "\<lambda>(c, l, i). is_ok (check_capability \<lparr>allow_layer2_dispatch = True\<rparr>
            \<lparr>cd_id = c, cd_risk = ''observe'', cd_layer = l, cd_interaction = i, cd_max_runtime_s = Fin 5, cd_declared = False\<rparr>)"
  have "\<not> ?admit x" if x: "x \<in> set (List.product ATTEMPTED_LAYER1_CAPABILITIES ys)" for x ys
  proof -
    obtain c l i where p: "x = (c, l, i)" by (metis surj_pair)
    have "c \<in> set ATTEMPTED_LAYER1_CAPABILITIES" using x p by simp
    then have "reserved_reason c \<noteq> None" using attempted_reserved by (simp add: list_all_iff)
    with p show ?thesis by (simp add: check_capability_def)
  qed
  then have "filter ?admit (List.product ATTEMPTED_LAYER1_CAPABILITIES (List.product all_layers all_interactions)) = []"
    unfolding filter_empty_conv by blast
  then show ?thesis unfolding evidence_layer_guard_def Let_def by (simp only: list.case run_sound_def sum.case er_verdicts)
qed

lemma try_clears_refused: "LOCAL_OPERATOR \<notin> set origins \<Longrightarrow> try_clears mt st origins s = (s, None)"
  by (induction origins) (auto simp: clear_def)

lemma no_network_clear_sound: "run_sound (evidence_no_network_clear repr mt st)"
proof -
  have "LOCAL_OPERATOR \<notin> set CLEAR_ATTEMPTS" by (simp add: LOCAL_OPERATOR_def CLEAR_ATTEMPTS_def)
  note r = try_clears_refused [OF this]
  let ?s = "fst (demand_halt simulated_supervisor mt st ''peer'' ''test demand'' ''peer'')"
  have l: "sv_latched ?s" by (simp add: demand_halt_def latch_locked_def simulated_supervisor_def new_supervisor_def sim_driver_def Let_def)
  have "\<exists>s2 x. clear (reset_controller ?s) mt st [] LOCAL_OPERATOR ''bench'' '''' = (s2, Inr x) \<and> \<not> sv_latched s2"
    by (simp add: demand_halt_def latch_locked_def simulated_supervisor_def new_supervisor_def sim_driver_def reset_controller_def manual_reset_def
        new_simulated_def sim_request_stop_def clear_def sup_poll_def sample_def sim_read_status_def safe_to_move_def LOCAL_OPERATOR_def NETWORK_ORIGINS_def Let_def)
  then show ?thesis using l by (auto simp: r evidence_no_network_clear_def run_sound_def)
qed

lemma watchdog_sound: "run_sound (evidence_watchdog_failsafe mt st)"
  by (simp add: evidence_watchdog_failsafe_def new_watchdog_def pet_def poll_def NS_PER_S_def py_trunc_def demand_halt_def latch_locked_def
      simulated_supervisor_def new_supervisor_def sim_driver_def run_sound_def Let_def)

lemma fencing_sound: "run_sound (evidence_fencing now st)"
  by (simp add: evidence_fencing_def new_leader_lease_def try_acquire_def acquire_txn_def guard_def run_sound_def)

lemma scenario_facts:
  "\<exists>r. scenario_of_seed draws_of s = Some (Inr r) \<and> sr_sent r = 10 \<and> sr_delivered_during_partition r = 0 \<and> sr_duplicate_deliveries r = 0 \<and> sr_delivered r \<le> 10"
  unfolding scenario_of_seed_def SCENARIO_NODES_def by (rule partition_scenario_facts) simp_all

text \<open>The partition scenario can only fail by leaving a message undelivered; it is never inconclusive.\<close>

lemma partition_verdict:
  "\<exists>x. evidence_partition_tolerance draws_of = Inr x \<and> er_verdict x \<in> {SUPPORTED, NOT_SUPPORTED} \<and>
     (er_verdict x = SUPPORTED \<longleftrightarrow> (\<forall>s \<in> {1, 2, 3}. \<exists>r. scenario_of_seed draws_of s = Some (Inr r) \<and> sr_delivered r = 10))"
proof -
  obtain a b c where r: "scenario_of_seed draws_of 1 = Some (Inr a)" "scenario_of_seed draws_of 2 = Some (Inr b)" "scenario_of_seed draws_of 3 = Some (Inr c)"
    and f: "\<forall>x \<in> {a, b, c}. sr_sent x = 10 \<and> sr_delivered_during_partition x = 0 \<and> sr_duplicate_deliveries x = 0"
    using scenario_facts [of draws_of 1] scenario_facts [of draws_of 2] scenario_facts [of draws_of 3] by auto
  then show ?thesis by (auto simp: evidence_partition_tolerance_def judge_scenarios_def report_complete_def)
qed

text \<open>
  The evidence that the layer guard, the latch, the watchdog and the lease are sound holds on every host, at any clock
  readings, and the partition evidence is conclusive for every seed: it is supported exactly if every message arrived.
\<close>

theorem evidence_holds:
  "run_sound evidence_layer_guard \<and> run_sound (evidence_no_network_clear repr mt st) \<and> run_sound (evidence_watchdog_failsafe mt st) \<and>
   run_sound (evidence_fencing now st) \<and>
   run_sound (evidence_partition_tolerance draws_of) =
     list_all (\<lambda>s. case scenario_of_seed draws_of s of Some (Inr r) \<Rightarrow> sr_delivered r = 10 | _ \<Rightarrow> False) [1, 2, 3] \<and>
   (case evidence_partition_tolerance draws_of of Inr x \<Rightarrow> er_verdict x \<noteq> INCONCLUSIVE | Inl _ \<Rightarrow> False)"
proof -
  obtain x where x: "evidence_partition_tolerance draws_of = Inr x" "er_verdict x \<in> {SUPPORTED, NOT_SUPPORTED}"
    "er_verdict x = SUPPORTED \<longleftrightarrow> (\<forall>s \<in> {1, 2, 3}. \<exists>r. scenario_of_seed draws_of s = Some (Inr r) \<and> sr_delivered r = 10)"
    using partition_verdict by blast
  have "run_sound (evidence_partition_tolerance draws_of) = (\<forall>s \<in> {1, 2, 3}. \<exists>r. scenario_of_seed draws_of s = Some (Inr r) \<and> sr_delivered r = 10)"
    using x by (simp add: run_sound_def)
  moreover have "(\<exists>r. scenario_of_seed draws_of s = Some (Inr r) \<and> sr_delivered r = 10) =
      (case scenario_of_seed draws_of s of Some (Inr r) \<Rightarrow> sr_delivered r = 10 | _ \<Rightarrow> False)" for s
    by (auto split: option.split sum.split)
  moreover have "er_verdict x \<noteq> INCONCLUSIVE" using x(2) by auto
  ultimately show ?thesis using x(1) layer_guard_sound no_network_clear_sound watchdog_sound fencing_sound by simp
qed

section \<open>The structure of the case\<close>

lemmas ref_claims = ref_G1_def ref_G2_def ref_G3_def ref_G4_def ref_G5_def ref_G6_def ref_G7_def ref_G8_def ref_G9_def ref_G10_def

lemma ref_ids [simp]:
  "cl_id ref_G1 = ''G1''" "cl_id ref_G2 = ''G2''" "cl_id ref_G3 = ''G3''" "cl_id ref_G4 = ''G4''" "cl_id ref_G5 = ''G5''"
  "cl_id ref_G6 = ''G6''" "cl_id ref_G7 = ''G7''" "cl_id ref_G8 = ''G8''" "cl_id ref_G9 = ''G9''" "cl_id ref_G10 = ''G10''"
  by (simp_all add: ref_claims)

lemma ref_subs [simp]:
  "cl_sub_claims ref_G1 = [''G2'', ''G3'', ''G4'', ''G5'', ''G6'', ''G7'', ''G8'', ''G9'']" "cl_sub_claims ref_G2 = []" "cl_sub_claims ref_G3 = []"
  "cl_sub_claims ref_G4 = []" "cl_sub_claims ref_G5 = []" "cl_sub_claims ref_G6 = [''G10'']" "cl_sub_claims ref_G7 = []" "cl_sub_claims ref_G8 = []"
  "cl_sub_claims ref_G9 = []" "cl_sub_claims ref_G10 = []"
  by (simp_all add: ref_claims)

lemma ref_cites [simp]:
  "cl_evidence ref_G1 = []" "cl_evidence ref_G2 = []" "cl_evidence ref_G3 = [''E1'', ''E2'', ''E6'']" "cl_evidence ref_G4 = [''E3'', ''E4'', ''E5'']"
  "cl_evidence ref_G5 = [''E7'', ''E8'', ''E9'']" "cl_evidence ref_G6 = [''E12'']" "cl_evidence ref_G7 = [''E10'', ''E11'']"
  "cl_evidence ref_G8 = [''E13'', ''E14'', ''E15'']" "cl_evidence ref_G9 = []" "cl_evidence ref_G10 = []"
  by (simp_all add: ref_claims)

lemma ref_argued:
  "cl_undeveloped ref_G1 = False" "cl_delegated_to ref_G1 = None" "cl_undeveloped ref_G3 = False" "cl_delegated_to ref_G3 = None"
  "cl_undeveloped ref_G8 = False" "cl_delegated_to ref_G8 = None"
  by (simp_all add: ref_claims)

lemma add_evidence_claims [simp]: "sc_claims (fold add_evidence es sc) = sc_claims sc" "sc_root (fold add_evidence es sc) = sc_root sc"
  by (induction es arbitrary: sc) (simp_all add: add_evidence_def)

lemma claim_keeps [simp]: "sc_evidence (claim c sc) = sc_evidence sc" "sc_root (claim c sc) = sc_root sc"
  by (simp_all add: claim_def)

lemma reference_claims:
  "sc_claims (build_reference_case ei) = [(''G1'', ref_G1), (''G2'', ref_G2), (''G3'', ref_G3), (''G4'', ref_G4), (''G5'', ref_G5), (''G6'', ref_G6),
     (''G10'', ref_G10), (''G7'', ref_G7), (''G8'', ref_G8), (''G9'', ref_G9)]"
  by (simp add: build_reference_case_def claim_def new_case_def)

lemma reference_root [simp]: "sc_root (build_reference_case ei) = ''G1''"
  by (simp add: build_reference_case_def new_case_def)

lemma update_new: "k \<notin> fst ` set xs \<Longrightarrow> AList.update k v xs = xs @ [(k, v)]"
  by (induction xs) auto

lemma fold_add_evidence: "distinct (map fst (sc_evidence sc) @ map evd_id es) \<Longrightarrow>
    sc_evidence (fold add_evidence es sc) = sc_evidence sc @ map (\<lambda>e. (evd_id e, e)) es"
proof (induction es arbitrary: sc)
  case (Cons e es)
  have "AList.update (evd_id e) e (sc_evidence sc) = sc_evidence sc @ [(evd_id e, e)]" using Cons.prems by (simp add: update_new)
  with Cons show ?case by (auto simp: add_evidence_def)
qed simp

lemma reference_evidence_table: "sc_evidence (build_reference_case ei) = map (\<lambda>e. (evd_id e, e)) (reference_evidence ei)"
proof -
  have "distinct (map evd_id (reference_evidence ei))" by (simp add: reference_evidence_def ref_evidence_def)
  then show ?thesis by (simp add: build_reference_case_def fold_add_evidence new_case_def)
qed

lemma evidence_known:
  "(map_of (sc_evidence (build_reference_case ei)) i = None) =
     (i \<notin> {''E1'', ''E2'', ''E3'', ''E4'', ''E5'', ''E6'', ''E7'', ''E8'', ''E9'', ''E10'', ''E11'', ''E12'', ''E13'', ''E14'', ''E15''})"
proof -
  have "fst ` set (map (\<lambda>e. (evd_id e, e)) es) = set (map evd_id es)" for es :: "('h, 'x) site_view Evidence list" by force
  then show ?thesis unfolding map_of_eq_None_iff reference_evidence_table by (simp add: reference_evidence_def ref_evidence_def)
qed

lemma reference_keyed: "keyed_case (build_reference_case ei)"
  by (simp add: keyed_case_def reference_claims split: if_splits)

lemma reference_valid: "validate (build_reference_case ei) = []"
proof -
  have "find_cycles (build_reference_case ei) = []" by (simp add: find_cycles_def reference_claims sub_claims_of_def)
  moreover have "concat (map (\<lambda>kv. claim_problems (build_reference_case ei) (snd kv)) (sc_claims (build_reference_case ei))) = []"
    unfolding claim_problems_def evidence_known reference_claims by simp
  ultimately show ?thesis by (simp add: validate_def reference_claims)
qed

section \<open>What the case says of a system\<close>

lemma roll_up_argued:
  assumes "\<not> cl_undeveloped c" and "cl_delegated_to c = None" and "results \<noteq> [] \<or> children \<noteq> []"
  shows "fst (roll_up c results children) =
    (if (\<exists>ir \<in> set results. er_verdict (snd ir) = NOT_SUPPORTED) \<or> NOT_SUPPORTED \<in> set children then NOT_SUPPORTED
     else if (\<exists>ir \<in> set results. er_verdict (snd ir) = INCONCLUSIVE) \<or> INCONCLUSIVE \<in> set children then INCONCLUSIVE else SUPPORTED)"
proof -
  have f: "(map f (filter (\<lambda>(i, r). er_verdict r = NOT_SUPPORTED) results) \<noteq> []) = (\<exists>ir \<in> set results. er_verdict (snd ir) = NOT_SUPPORTED)" for f :: "string \<times> EvidenceResult \<Rightarrow> string"
    by (force simp: filter_empty_conv)
  have n: "(count_where (\<lambda>x. x = v) children \<noteq> 0) = (v \<in> set children)" for v by (auto simp: count_where_0_iff)
  show ?thesis using assms unfolding roll_up_def argue_def Let_def f n by auto
qed

lemma ref_developed:
  "\<not> cl_undeveloped ref_G1" "\<not> cl_undeveloped ref_G3" "\<not> cl_undeveloped ref_G4" "\<not> cl_undeveloped ref_G5" "\<not> cl_undeveloped ref_G6"
  "\<not> cl_undeveloped ref_G7" "\<not> cl_undeveloped ref_G8" "cl_undeveloped ref_G9"
  "cl_delegated_to ref_G1 = None" "cl_delegated_to ref_G3 = None" "cl_delegated_to ref_G4 = None" "cl_delegated_to ref_G5 = None"
  "cl_delegated_to ref_G6 = None" "cl_delegated_to ref_G7 = None" "cl_delegated_to ref_G8 = None" "cl_delegated_to ref_G9 = None"
  by (simp_all add: ref_claims)

lemma ref_others: "fst (roll_up ref_G2 rs vs) = DELEGATED" "fst (roll_up ref_G10 rs vs) = DELEGATED" "fst (roll_up ref_G9 rs vs) = UNDEVELOPED"
  by (simp_all add: roll_up_def ref_claims)

text \<open>The verdict of the root in terms of the results of the fifteen pieces of evidence.\<close>

definition cited :: "string list" where
  "cited = [''E1'', ''E2'', ''E6'', ''E3'', ''E4'', ''E5'', ''E7'', ''E8'', ''E9'', ''E12'', ''E10'', ''E11'', ''E13'', ''E14'', ''E15'']"

lemma reference_verdict:
  assumes "verify_case repr (build_reference_case ei) now w = Inr (w', rep)"
  shows "\<exists>ex. distinct (map fst ex) \<and> replays (sc_evidence (build_reference_case ei)) w ex w' \<and> set cited \<subseteq> fst ` set ex \<and>
    reported rep ''G1'' =
      (if \<exists>i \<in> set cited. er_verdict (result_of ex i) = NOT_SUPPORTED then NOT_SUPPORTED
       else if \<exists>i \<in> set cited. er_verdict (result_of ex i) = INCONCLUSIVE then INCONCLUSIVE else SUPPORTED)"
proof -
  obtain ex where ex: "distinct (map fst ex)" "replays (sc_evidence (build_reference_case ei)) w ex w'"
    and root: "''G1'' \<in> claim_id ` set (rep_outcomes rep)"
    and eqs: "\<forall>i c. i \<in> claim_id ` set (rep_outcomes rep) \<longrightarrow> map_of (sc_claims (build_reference_case ei)) i = Some c \<longrightarrow>
       reported rep i = fst (roll_up c (map (\<lambda>e. (e, result_of ex e)) (cl_evidence c)) (map (reported rep) (cl_sub_claims c))) \<and>
       set (cl_evidence c) \<subseteq> fst ` set ex \<and> set (cl_sub_claims c) \<subseteq> claim_id ` set (rep_outcomes rep)"
    using report_equation [OF reference_keyed reference_valid assms] by auto
  have eq: "reported rep i = fst (roll_up c (map (\<lambda>e. (e, result_of ex e)) (cl_evidence c)) (map (reported rep) (cl_sub_claims c)))"
      "set (cl_evidence c) \<subseteq> fst ` set ex" "set (cl_sub_claims c) \<subseteq> claim_id ` set (rep_outcomes rep)"
    if "i \<in> claim_id ` set (rep_outcomes rep)" "map_of (sc_claims (build_reference_case ei)) i = Some c" for i c
    using eqs that by blast+
  have m: "map_of (sc_claims (build_reference_case ei)) ''G1'' = Some ref_G1" "map_of (sc_claims (build_reference_case ei)) ''G2'' = Some ref_G2"
    "map_of (sc_claims (build_reference_case ei)) ''G3'' = Some ref_G3" "map_of (sc_claims (build_reference_case ei)) ''G4'' = Some ref_G4"
    "map_of (sc_claims (build_reference_case ei)) ''G5'' = Some ref_G5" "map_of (sc_claims (build_reference_case ei)) ''G6'' = Some ref_G6"
    "map_of (sc_claims (build_reference_case ei)) ''G10'' = Some ref_G10" "map_of (sc_claims (build_reference_case ei)) ''G7'' = Some ref_G7"
    "map_of (sc_claims (build_reference_case ei)) ''G8'' = Some ref_G8" "map_of (sc_claims (build_reference_case ei)) ''G9'' = Some ref_G9"
    by (simp_all add: reference_claims)
  note g1 = eq [OF root m(1)]
  have ins: "''G2'' \<in> claim_id ` set (rep_outcomes rep)" "''G3'' \<in> claim_id ` set (rep_outcomes rep)" "''G4'' \<in> claim_id ` set (rep_outcomes rep)"
    "''G5'' \<in> claim_id ` set (rep_outcomes rep)" "''G6'' \<in> claim_id ` set (rep_outcomes rep)" "''G7'' \<in> claim_id ` set (rep_outcomes rep)"
    "''G8'' \<in> claim_id ` set (rep_outcomes rep)" "''G9'' \<in> claim_id ` set (rep_outcomes rep)"
    using g1(3) by simp_all
  note g6 = eq [OF ins(5) m(6)]
  have in10: "''G10'' \<in> claim_id ` set (rep_outcomes rep)" using g6(3) by simp
  let ?bad = "\<lambda>i. er_verdict (result_of ex i) = NOT_SUPPORTED" and ?unk = "\<lambda>i. er_verdict (result_of ex i) = INCONCLUSIVE"
  define v where "v is = (if \<exists>i \<in> set is. ?bad i then NOT_SUPPORTED else if \<exists>i \<in> set is. ?unk i then INCONCLUSIVE else SUPPORTED)" for "is"
  have vN: "NOT_SUPPORTED = v is \<longleftrightarrow> (\<exists>i \<in> set is. ?bad i)" and vI: "INCONCLUSIVE = v is \<longleftrightarrow> \<not> (\<exists>i \<in> set is. ?bad i) \<and> (\<exists>i \<in> set is. ?unk i)" for "is"
    by (simp_all add: v_def)
  have leaf: "reported rep i = v (cl_evidence c)"
    if "i \<in> claim_id ` set (rep_outcomes rep)" "map_of (sc_claims (build_reference_case ei)) i = Some c"
      "cl_sub_claims c = []" "\<not> cl_undeveloped c" "cl_delegated_to c = None" "cl_evidence c \<noteq> []" for i c
    using eq(1) [OF that(1,2)] that(3-6) by (simp add: roll_up_argued v_def)
  have r3: "reported rep ''G2'' = DELEGATED" "reported rep ''G9'' = UNDEVELOPED" "reported rep ''G10'' = DELEGATED"
    using eq(1) [OF ins(1) m(2)] eq(1) [OF ins(8) m(10)] eq(1) [OF in10 m(7)] ref_others by simp_all
  have g3: "reported rep ''G3'' = v (cl_evidence ref_G3)" by (rule leaf [OF ins(2) m(3)]) (simp_all add: ref_developed)
  have g4: "reported rep ''G4'' = v (cl_evidence ref_G4)" by (rule leaf [OF ins(3) m(4)]) (simp_all add: ref_developed)
  have g5: "reported rep ''G5'' = v (cl_evidence ref_G5)" by (rule leaf [OF ins(4) m(5)]) (simp_all add: ref_developed)
  have g7: "reported rep ''G7'' = v (cl_evidence ref_G7)" by (rule leaf [OF ins(6) m(8)]) (simp_all add: ref_developed)
  have g8: "reported rep ''G8'' = v (cl_evidence ref_G8)" by (rule leaf [OF ins(7) m(9)]) (simp_all add: ref_developed)
  note r = g3 g4 g5 g7 g8
  have r6: "reported rep ''G6'' = v [''E12'']" using g6(1) r3(3) ref_developed by (simp add: roll_up_argued v_def)
  have "reported rep ''G1'' =
      (if NOT_SUPPORTED \<in> set (map (reported rep) (cl_sub_claims ref_G1)) then NOT_SUPPORTED
       else if INCONCLUSIVE \<in> set (map (reported rep) (cl_sub_claims ref_G1)) then INCONCLUSIVE else SUPPORTED)"
    using g1(1) ref_developed by (simp add: roll_up_argued)
  moreover have "NOT_SUPPORTED \<in> set (map (reported rep) (cl_sub_claims ref_G1)) \<longleftrightarrow> (\<exists>i \<in> set cited. ?bad i)"
    unfolding ref_subs list.map r r3 r6 cited_def ref_cites by (simp add: vN)
  moreover have "INCONCLUSIVE \<in> set (map (reported rep) (cl_sub_claims ref_G1)) \<longleftrightarrow> (\<exists>i \<in> set cited. ?unk i)" if "\<not> (\<exists>i \<in> set cited. ?bad i)"
    using that unfolding ref_subs list.map r r3 r6 cited_def ref_cites by (simp add: vI)
  ultimately have v: "reported rep ''G1'' =
      (if \<exists>i \<in> set cited. ?bad i then NOT_SUPPORTED else if \<exists>i \<in> set cited. ?unk i then INCONCLUSIVE else SUPPORTED)"
    by (simp only: if_True if_False split: if_split) blast
  have "set cited \<subseteq> fst ` set ex"
    using eq(2) [OF ins(2) m(3)] eq(2) [OF ins(3) m(4)] eq(2) [OF ins(4) m(5)] eq(2) [OF ins(6) m(8)] eq(2) [OF ins(7) m(9)] g6(2)
    by (simp add: cited_def)
  with ex v show ?thesis by blast
qed

text \<open>
  The root claim of the coordinator's case is supported exactly if each of the fifteen pieces of evidence was executed and
  neither refuted nor inconclusive; delegated and undeveloped claims never make it supported.
\<close>

theorem reference_root_iff:
  assumes "verify_case repr (build_reference_case ei) now w = Inr (w', rep)"
  shows "\<exists>ex. replays (sc_evidence (build_reference_case ei)) w ex w' \<and> set cited \<subseteq> fst ` set ex \<and>
    (reported rep ''G1'' = SUPPORTED) = list_all (\<lambda>i. sound_result (result_of ex i)) cited"
proof -
  obtain ex where ex: "replays (sc_evidence (build_reference_case ei)) w ex w'" "set cited \<subseteq> fst ` set ex"
    and v: "reported rep ''G1'' =
      (if \<exists>i \<in> set cited. er_verdict (result_of ex i) = NOT_SUPPORTED then NOT_SUPPORTED
       else if \<exists>i \<in> set cited. er_verdict (result_of ex i) = INCONCLUSIVE then INCONCLUSIVE else SUPPORTED)"
    using reference_verdict [OF assms] by blast
  have "(reported rep ''G1'' = SUPPORTED) = list_all (\<lambda>i. sound_result (result_of ex i)) cited"
    unfolding v list_all_iff sound_result_def by (auto split: if_splits)
  with ex show ?thesis by blast
qed

definition keeps_description :: "('h, 'x) evidence_inputs \<Rightarrow> bool" where
  "keeps_description ei = (\<forall>i u. sv_described (fst (ei_outside ei i u)) = sv_described u)"

definition real_controller :: "(string \<times> json) list option \<Rightarrow> bool" where
  "real_controller d = (case d of None \<Rightarrow> False | Some kvs \<Rightarrow> truthy (get_or_null kvs ''real_hardware''))"

lemma execute_fst: "fst (execute e u) = fst (evd_run e u)"
  by (auto simp: execute_def split: prod.split sum.split)

lemma reference_keeps:
  assumes "keeps_description ei" and "map_of (sc_evidence (build_reference_case ei)) j = Some e"
  shows "sv_described (fst (execute e u)) = sv_described u"
proof -
  have "e \<in> set (reference_evidence ei)" using map_of_SomeD [OF assms(2)] by (auto simp: reference_evidence_table)
  with assms(1) show ?thesis by (auto simp: execute_fst reference_evidence_def ref_evidence_def keeps_description_def)
qed

text \<open>
  C35. With a simulated safety controller, or none, the case is refuted: its root is not supported, whatever all other evidence
  says, as long as that evidence does not replace the description of the controller.
\<close>

theorem simulated_controller_refutes_case:
  assumes "keeps_description ei" and "\<not> real_controller (sv_described w)" and "verify_case repr (build_reference_case ei) now w = Inr (w', rep)"
  shows "reported rep ''G1'' = NOT_SUPPORTED"
proof -
  obtain ex where d: "distinct (map fst ex)" and ex: "replays (sc_evidence (build_reference_case ei)) w ex w'" "set cited \<subseteq> fst ` set ex"
    and v: "reported rep ''G1'' =
      (if \<exists>i \<in> set cited. er_verdict (result_of ex i) = NOT_SUPPORTED then NOT_SUPPORTED
       else if \<exists>i \<in> set cited. er_verdict (result_of ex i) = INCONCLUSIVE then INCONCLUSIVE else SUPPORTED)"
    using reference_verdict [OF assms(3)] by blast
  have c: "''E15'' \<in> set cited" by (simp add: cited_def)
  then obtain r where r: "(''E15'', r) \<in> set ex" using ex(2) by auto
  have e15: "map_of (sc_evidence (build_reference_case ei)) ''E15'' =
     Some (ref_evidence ''E15'' ''A real, certified safety controller is configured (not a simulation).'' ''inspection''
        (\<lambda>w. (w, evidence_safety_controller_is_real (ei_parse ei) (sv_described w))))"
    unfolding reference_evidence_table by (simp add: reference_evidence_def ref_evidence_def)
  obtain e u where e: "map_of (sc_evidence (build_reference_case ei)) ''E15'' = Some e" "sv_described u = sv_described w" "r = snd (execute e u)"
    using replays_results [where I = "\<lambda>u. sv_described u = sv_described w", OF ex(1) r] reference_keeps [OF assms(1)] by metis
  have "er_verdict r = NOT_SUPPORTED"
    using e e15 assms(2) by (auto simp: execute_def ref_evidence_def evidence_safety_controller_is_real_def real_controller_def split: option.splits)
  moreover have "result_of ex ''E15'' = r" using r d by (simp add: result_of_def)
  ultimately show ?thesis using v c by auto
qed

definition demo_inputs :: "(nat, unit) evidence_inputs" where
  "demo_inputs = \<lparr>ei_repr = id, ei_parse = \<lparr>pp_float = (\<lambda>_. None), pp_int = (\<lambda>_. None), pp_str = (\<lambda>_. '''')\<rparr>, ei_monotonic = 0, ei_stamp = 0, ei_now_ms = 0,
     ei_draws = (\<lambda>_ _. 1/2), ei_hash = (\<lambda>p. nat (ap_seq p)), ei_genesis = 0, ei_outside = (\<lambda>i w. (w, Inr (er_supported i [])))\<rparr>"

definition demo_view :: "(nat, unit) site_view" where
  "demo_view = \<lparr>sv_audit = Some [], sv_described = Some (simulated_description (new_simulated ''plc'')), sv_outside = ()\<rparr>"

theorem reference_root_iff_witness:
  "\<exists>w' rep ex. verify_case id (build_reference_case demo_inputs) ''now'' demo_view = Inr (w', rep) \<and>
     replays (sc_evidence (build_reference_case demo_inputs)) demo_view ex w' \<and>
     (reported rep ''G1'' = SUPPORTED) = list_all (\<lambda>i. sound_result (result_of ex i)) cited"
proof -
  obtain w' rep where v: "verify_case id (build_reference_case demo_inputs) ''now'' demo_view = Inr (w', rep)"
    using case_returns [of id "build_reference_case demo_inputs" "''now''" demo_view] by blast
  with reference_root_iff [OF v] show ?thesis by blast
qed

theorem simulated_controller_refutes_case_witness:
  "\<exists>w' rep. verify_case id (build_reference_case demo_inputs) ''now'' demo_view = Inr (w', rep) \<and> reported rep ''G1'' = NOT_SUPPORTED"
proof -
  obtain w' rep where v: "verify_case id (build_reference_case demo_inputs) ''now'' demo_view = Inr (w', rep)"
    using case_returns [of id "build_reference_case demo_inputs" "''now''" demo_view] by blast
  have "keeps_description demo_inputs" "\<not> real_controller (sv_described demo_view)"
    by (simp_all add: keeps_description_def demo_inputs_def real_controller_def demo_view_def simulated_description_def get_or_null_def)
  from simulated_controller_refutes_case [OF this v] v show ?thesis by blast
qed

end
