(* ===== verification/Vda5050.thy ===== *)
theory Vda5050
  imports Simulated_Fleet Json_Text
begin

text \<open>
  The VDA 5050 fleet adapter (\<^verbatim>\<open>src/fasp_harness/fleet/vda5050.py\<close>): the topics and headers of a message, orders with their base
  and horizon, the mapping of state messages and factsheets onto the neutral vocabulary, and the adapter itself, a cache of what the
  vehicles published with the orders that were sent to them. The transport is the function \<open>publish\<close> over a world \<open>'w\<close>, as the code
  takes it as a callable; a published text is given as the object it is the JSON text of. The state carries the readings of the two
  clocks the next call makes: the monotonic clock and the text of \<^verbatim>\<open>stamp()\<close>. An \<^verbatim>\<open>AttributeError\<close> is \<open>OtherException\<close>.
\<close>

section \<open>Messages\<close>

definition INTERFACE_NAME :: string where
  "INTERFACE_NAME = ''uagv''"

definition PROTOCOL_VERSION :: string where
  "PROTOCOL_VERSION = ''2.0.0''"

definition MAJOR_VERSION :: string where
  "MAJOR_VERSION = ''v2''"

definition ACTION_TYPES :: "(StepKind \<times> string option) list" where
  "ACTION_TYPES = [(MOVE, None), (PICK, Some ''pick''), (DROP, Some ''drop''), (CHARGE, Some ''startCharging''), (DOCK, Some ''dock''),
     (UNDOCK, Some ''undock''), (WAIT, Some ''wait''), (CUSTOM, Some ''customAction'')]"

definition INSTANT_ACTIONS :: "string list" where
  "INSTANT_ACTIONS = [''startPause'', ''stopPause'', ''cancelOrder'', ''factsheetRequest'', ''stateRequest'', ''initPosition'']"

definition topic_part :: "string \<Rightarrow> bool" where
  "topic_part p \<longleftrightarrow> p \<noteq> '''' \<and> CHR ''/'' \<notin> set p \<and> CHR ''+'' \<notin> set p \<and> CHR ''#'' \<notin> set p"

definition vda_topic :: "string \<Rightarrow> string \<Rightarrow> string \<Rightarrow> string result" where
  "vda_topic manufacturer serial subject =
     (if topic_part manufacturer \<and> topic_part serial \<and> topic_part subject
      then Inr (INTERFACE_NAME @ ''/'' @ MAJOR_VERSION @ ''/'' @ manufacturer @ ''/'' @ serial @ ''/'' @ subject)
      else Inl schema_error)"

text \<open>\<^verbatim>\<open>HeaderSequence\<close>: the counter of every key.\<close>

type_synonym HeaderSequence = "(string \<times> int) list"

definition next_id :: "string \<Rightarrow> HeaderSequence \<Rightarrow> HeaderSequence \<times> int" where
  "next_id key counters =
     (let v = (case map_of counters key of None \<Rightarrow> 0 | Some c \<Rightarrow> c) + 1 in (put key v counters, v))"

definition vda_header :: "string \<Rightarrow> int \<Rightarrow> string \<Rightarrow> string \<Rightarrow> (string \<times> json) list" where
  "vda_header stamp_text header_id manufacturer serial =
     [(''headerId'', JInt header_id), (''timestamp'', JStr stamp_text), (''version'', JStr PROTOCOL_VERSION),
      (''manufacturer'', JStr manufacturer), (''serialNumber'', JStr serial)]"

text \<open>
  What the standard library does with the values of a message: the conversions, the \<^verbatim>\<open>sqrt\<close> of the speed, and the coordinate a
  special float stands for, which is not among the exact rationals of a pose.
\<close>

record vda_env =
  ve_parse :: py_parse
  ve_speed :: "pyfloat \<Rightarrow> pyfloat \<Rightarrow> pyfloat"
  ve_special :: "pyfloat \<Rightarrow> rat"

definition coordinate :: "vda_env \<Rightarrow> pyfloat \<Rightarrow> rat" where
  "coordinate env f = (case f of Fin r \<Rightarrow> r | _ \<Rightarrow> ve_special env f)"

section \<open>Orders\<close>

definition key_values :: "(string \<times> json) list \<Rightarrow> json" where
  "key_values kvs = JList (map (\<lambda>kv. JObj [(''key'', JStr (fst kv)), (''value'', snd kv)]) (sort_key fst kvs))"

definition actions_for :: "py_parse \<Rightarrow> MissionStep \<Rightarrow> Mission \<Rightarrow> json list" where
  "actions_for fs step m =
     (case map_of ACTION_TYPES (st_kind step) of
        Some (Some action_type) \<Rightarrow>
          (let custom = (st_kind step = CUSTOM);
               action_type' = (if custom
                 then (case map_of (st_parameters step) ''action_type'' of None \<Rightarrow> ''customAction'' | Some v \<Rightarrow> to_str fs v) else action_type);
               parameters = (if custom then filter (\<lambda>kv. fst kv \<noteq> ''action_type'') (st_parameters step) else st_parameters step)
           in [JObj [(''actionType'', JStr action_type'), (''actionId'', JStr (mi_mission_id m @ ''-'' @ st_step_id step)),
                     (''blockingType'', JStr (if st_blocking step then ''HARD'' else ''NONE'')),
                     (''actionDescription'', JStr (step_kind_value (st_kind step))), (''actionParameters'', key_values parameters)]])
      | _ \<Rightarrow> [])"

text \<open>\<^verbatim>\<open>step.node_id or step.pose\<close>, and \<^verbatim>\<open>step.node_id or f"{mission_id}-n{index}"\<close>.\<close>

definition has_place :: "MissionStep \<Rightarrow> bool" where
  "has_place s \<longleftrightarrow> node_name (st_node_id s) \<noteq> [] \<or> st_pose s \<noteq> None"

definition order_node_id :: "Mission \<Rightarrow> nat \<Rightarrow> MissionStep \<Rightarrow> string" where
  "order_node_id m index s = (case node_name (st_node_id s) of [] \<Rightarrow> mi_mission_id m @ ''-n'' @ nat_text index | n # _ \<Rightarrow> n)"

text \<open>\<^verbatim>\<open>len(move_steps) if base_nodes is None else max(1, min(base_nodes, len(move_steps)))\<close>: of two equal or incomparable values
  Python keeps the first.\<close>

definition py_min :: "pyfloat \<Rightarrow> pyfloat \<Rightarrow> pyfloat" where
  "py_min a b = (if fl_less b a then b else a)"

definition py_max :: "pyfloat \<Rightarrow> pyfloat \<Rightarrow> pyfloat" where
  "py_max a b = (if fl_less a b then b else a)"

definition release_limit :: "json \<Rightarrow> nat \<Rightarrow> pyfloat result" where
  "release_limit base_nodes n =
     (if base_nodes = JNull then Inr (Fin (of_nat n))
      else (case as_number base_nodes of
              None \<Rightarrow> Inl TypeError
            | Some b \<Rightarrow> Inr (py_max (Fin 1) (py_min b (Fin (of_nat n))))))"

definition is_released :: "pyfloat \<Rightarrow> nat \<Rightarrow> bool" where
  "is_released limit index = fl_less (Fin (of_nat index)) limit"

definition node_json :: "py_parse \<Rightarrow> Mission \<Rightarrow> pyfloat \<Rightarrow> nat \<Rightarrow> int \<Rightarrow> MissionStep \<Rightarrow> (string \<times> json) list result" where
  "node_json fs m limit index sequence_id s =
     bind_result
       (case st_pose s of
          None \<Rightarrow> Inr []
        | Some p \<Rightarrow>
            bind_result (to_float fs (case map_of (mi_constraints m) ''allowed_deviation_xy'' of None \<Rightarrow> JFloat (Fin (2 / 10)) | Some j \<Rightarrow> j))
              (\<lambda>deviation. Inr [(''nodePosition'', JObj [(''x'', JFloat (Fin (po_x p))), (''y'', JFloat (Fin (po_y p))),
                 (''theta'', JFloat (Fin (po_theta p))), (''mapId'', JStr (po_map_id p)), (''allowedDeviationXY'', JFloat deviation)])]))
       (\<lambda>position.
          Inr ([(''nodeId'', JStr (order_node_id m index s)), (''sequenceId'', JInt sequence_id),
                (''released'', JBool (is_released limit index)), (''actions'', JList (actions_for fs s m))] @ position @
               [(''nodeDescription'', JStr (step_kind_value (st_kind s)))]))"

definition edge_json ::
    "py_parse \<Rightarrow> Mission \<Rightarrow> pyfloat \<Rightarrow> nat \<Rightarrow> int \<Rightarrow> MissionStep \<Rightarrow> MissionStep \<Rightarrow> (string \<times> json) list result" where
  "edge_json fs m limit index sequence_id s next_step =
     (let node_id = order_node_id m index s; next_id = order_node_id m (index + 1) next_step
      in bind_result
           (case map_of (mi_constraints m) ''max_speed_mps'' of
              None \<Rightarrow> Inr []
            | Some j \<Rightarrow> bind_result (to_float fs j) (\<lambda>v. Inr [(''maxSpeed'', JFloat v)]))
           (\<lambda>speed.
              Inr ([(''edgeId'', JStr (node_id @ ''->'' @ next_id)), (''sequenceId'', JInt sequence_id),
                    (''released'', JBool (is_released limit index \<and> is_released limit (index + 1))),
                    (''startNodeId'', JStr node_id), (''endNodeId'', JStr next_id), (''actions'', JList [])] @ speed)))"

text \<open>The loop over \<^verbatim>\<open>move_steps\<close>, with the index and the sequence number it has reached.\<close>

fun build_route ::
    "py_parse \<Rightarrow> Mission \<Rightarrow> pyfloat \<Rightarrow> nat \<Rightarrow> int \<Rightarrow> MissionStep list \<Rightarrow>
     ((string \<times> json) list list \<times> (string \<times> json) list list) result" where
  "build_route fs m limit index sequence_id [] = Inr ([], [])"
| "build_route fs m limit index sequence_id [s] =
     bind_result (node_json fs m limit index sequence_id s) (\<lambda>n. Inr ([n], []))"
| "build_route fs m limit index sequence_id (s # next_step # rest) =
     bind_result (node_json fs m limit index sequence_id s) (\<lambda>n.
     bind_result (edge_json fs m limit index (sequence_id + 1) s next_step) (\<lambda>e.
     bind_result (build_route fs m limit (index + 1) (sequence_id + 2) (next_step # rest)) (\<lambda>(ns, es). Inr (n # ns, e # es))))"

record OrderBuilder =
  bd_manufacturer :: string
  bd_serial_number :: string
  bd_sequence :: HeaderSequence

definition optional_key :: "(string \<times> json) list \<Rightarrow> string \<Rightarrow> string \<Rightarrow> (string \<times> json) list" where
  "optional_key kvs key out = (case map_of kvs key of None \<Rightarrow> [] | Some v \<Rightarrow> [(out, v)])"

definition order_build ::
    "py_parse \<Rightarrow> string \<Rightarrow> OrderBuilder \<Rightarrow> Mission \<Rightarrow> int \<Rightarrow> json \<Rightarrow> OrderBuilder \<times> (string \<times> json) list result" where
  "order_build fs stamp_text b m order_update_id base_nodes =
     (let move_steps = filter has_place (mi_steps m)
      in if move_steps = [] then (b, Inl schema_error)
         else (case release_limit base_nodes (length move_steps) of
                 Inl e \<Rightarrow> (b, Inl e)
               | Inr limit \<Rightarrow>
                   (case build_route fs m limit 0 0 move_steps of
                      Inl e \<Rightarrow> (b, Inl e)
                    | Inr (nodes, edges) \<Rightarrow>
                        (case next_id (bd_serial_number b @ ''/order'') (bd_sequence b) of
                           (counters, header_id) \<Rightarrow>
                             (b\<lparr>bd_sequence := counters\<rparr>,
                              Inr (vda_header stamp_text header_id (bd_manufacturer b) (bd_serial_number b) @
                                   [(''orderId'', JStr (mi_mission_id m)), (''orderUpdateId'', JInt order_update_id),
                                    (''nodes'', JList (map JObj nodes)), (''edges'', JList (map JObj edges))] @
                                   optional_key (mi_constraints m) ''zone_set_id'' ''zoneSetId''))))))"

text \<open>Fields of an order that was built: its identifiers, its nodes and its edges.\<close>

definition object_of :: "json \<Rightarrow> (string \<times> json) list" where
  "object_of v = (case v of JObj kvs \<Rightarrow> kvs | _ \<Rightarrow> [])"

definition objects_at :: "(string \<times> json) list \<Rightarrow> string \<Rightarrow> (string \<times> json) list list" where
  "objects_at kvs key = (case get_or_null kvs key of JList xs \<Rightarrow> map object_of xs | _ \<Rightarrow> [])"

definition update_id_of :: "(string \<times> json) list \<Rightarrow> int" where
  "update_id_of order = (case get_or_null order ''orderUpdateId'' of JInt i \<Rightarrow> i | _ \<Rightarrow> 0)"

definition first_node_id :: "(string \<times> json) list \<Rightarrow> json" where
  "first_node_id order = (case objects_at order ''nodes'' of [] \<Rightarrow> JNull | n # _ \<Rightarrow> get_or_null n ''nodeId'')"

definition order_update ::
    "py_parse \<Rightarrow> string \<Rightarrow> OrderBuilder \<Rightarrow> (string \<times> json) list \<Rightarrow> Mission \<Rightarrow> string \<Rightarrow> json \<Rightarrow> OrderBuilder \<times> (string \<times> json) list result" where
  "order_update fs stamp_text b previous m last_released base_nodes =
     (if get_or_null previous ''orderId'' \<noteq> JStr (mi_mission_id m) then (b, Inl schema_error)
      else (case order_build fs stamp_text b m (update_id_of previous + 1) base_nodes of
              (b1, Inl e) \<Rightarrow> (b1, Inl e)
            | (b1, Inr order) \<Rightarrow>
                if first_node_id order \<noteq> JStr last_released then (b1, Inl schema_error) else (b1, Inr order)))"

definition instant_action ::
    "string \<Rightarrow> OrderBuilder \<Rightarrow> string \<Rightarrow> (string \<times> json) list \<Rightarrow> string \<Rightarrow> OrderBuilder \<times> (string \<times> json) list result" where
  "instant_action stamp_text b action_type parameters blocking =
     (if action_type \<notin> set INSTANT_ACTIONS then (b, Inl schema_error)
      else if blocking \<notin> {''NONE'', ''SOFT'', ''HARD''} then (b, Inl schema_error)
      else (case next_id (bd_serial_number b @ ''/instantActions'') (bd_sequence b) of
              (counters, header_id) \<Rightarrow>
                (case next_id ''action'' counters of
                   (counters', action_id) \<Rightarrow>
                     (b\<lparr>bd_sequence := counters'\<rparr>,
                      Inr (vda_header stamp_text header_id (bd_manufacturer b) (bd_serial_number b) @
                           [(''actions'', JList [JObj [(''actionType'', JStr action_type),
                              (''actionId'', JStr (action_type @ ''-'' @ int_text action_id)), (''blockingType'', JStr blocking),
                              (''actionParameters'', key_values parameters)]])])))))"

section \<open>What vehicles report\<close>

text \<open>\<^verbatim>\<open>payload.get(key) or {}\<close>, on which \<^verbatim>\<open>.get\<close> is called: anything else than an object has no such attribute.\<close>

definition sub_object :: "(string \<times> json) list \<Rightarrow> string \<Rightarrow> (string \<times> json) list result" where
  "sub_object kvs key =
     (let v = get_or_null kvs key
      in if \<not> truthy v then Inr [] else (case v of JObj o' \<Rightarrow> Inr o' | _ \<Rightarrow> Inl OtherException))"

text \<open>\<^verbatim>\<open>for x in v or [] if isinstance(x, dict)\<close>: the items of a string and the keys of an object are no objects.\<close>

definition objects_in :: "json \<Rightarrow> (string \<times> json) list list result" where
  "objects_in v =
     (if \<not> truthy v then Inr []
      else (case v of
              JList xs \<Rightarrow> Inr (map object_of (filter (\<lambda>x. case x of JObj _ \<Rightarrow> True | _ \<Rightarrow> False) xs))
            | JStr _ \<Rightarrow> Inr []
            | JObj _ \<Rightarrow> Inr []
            | _ \<Rightarrow> Inl TypeError))"

definition text_at :: "py_parse \<Rightarrow> (string \<times> json) list \<Rightarrow> string \<Rightarrow> string \<Rightarrow> string" where
  "text_at fs kvs key otherwise = (case map_of kvs key of None \<Rightarrow> otherwise | Some v \<Rightarrow> to_str fs v)"

definition float_at :: "py_parse \<Rightarrow> (string \<times> json) list \<Rightarrow> string \<Rightarrow> rat \<Rightarrow> pyfloat result" where
  "float_at fs kvs key otherwise = (case map_of kvs key of None \<Rightarrow> Inr (Fin otherwise) | Some v \<Rightarrow> to_float fs v)"

definition flag_at :: "(string \<times> json) list \<Rightarrow> string \<Rightarrow> bool" where
  "flag_at kvs key = truthy (get_or_null kvs key)"

definition reported_error :: "py_parse \<Rightarrow> (string \<times> json) list \<Rightarrow> (string \<times> json) list" where
  "reported_error fs e =
     [(''code'', JStr (text_at fs e ''errorType'' ''unknown'')),
      (''level'', JStr (if py_upper (text_at fs e ''errorLevel'' '''') = ''FATAL'' then ''FATAL'' else ''WARNING'')),
      (''description'', JStr (take 200 (text_at fs e ''errorDescription'' '''')))]"

definition operating_mode_of :: "string \<Rightarrow> OperatingMode" where
  "operating_mode_of s =
     (if s = ''AUTOMATIC'' then AUTOMATIC else if s = ''SEMIAUTOMATIC'' then SEMIAUTOMATIC else if s = ''MANUAL'' then MANUAL
      else if s = ''TEACHIN'' then TEACHIN else SERVICE)"

definition reported_pose :: "vda_env \<Rightarrow> (string \<times> json) list \<Rightarrow> Pose option result" where
  "reported_pose env position =
     (if flag_at position ''positionInitialized'' \<and> map_of position ''x'' \<noteq> None \<and> map_of position ''y'' \<noteq> None
      then bind_result (float_at (ve_parse env) position ''x'' 0) (\<lambda>x.
           bind_result (float_at (ve_parse env) position ''y'' 0) (\<lambda>y.
           bind_result (float_at (ve_parse env) position ''theta'' 0) (\<lambda>theta.
             Inr (Some \<lparr>po_x = coordinate env x, po_y = coordinate env y, po_theta = coordinate env theta,
                        po_map_id = text_at (ve_parse env) position ''mapId'' ''default''\<rparr>))))
      else Inr None)"

definition battery_of :: "json \<Rightarrow> pyfloat" where
  "battery_of charge =
     (case as_number charge of
        None \<Rightarrow> Fin 0
      | Some c \<Rightarrow> py_max (Fin 0) (py_min (Fin 1) (case c of Fin r \<Rightarrow> Fin (r / 100) | _ \<Rightarrow> c)))"

text \<open>\<^verbatim>\<open>(velocity.get(key) or 0.0) ** 2\<close> needs a number.\<close>

definition component_of :: "(string \<times> json) list \<Rightarrow> string \<Rightarrow> pyfloat result" where
  "component_of velocity key =
     (let v = get_or_null velocity key
      in if \<not> truthy v then Inr (Fin 0) else (case as_number v of None \<Rightarrow> Inl TypeError | Some f \<Rightarrow> Inr f))"

definition parse_state :: "vda_env \<Rightarrow> string \<Rightarrow> string option \<Rightarrow> (string \<times> json) list \<Rightarrow> VehicleState result" where
  "parse_state env fleet expected_serial payload =
     (let fs = ve_parse env; serial = text_at fs payload ''serialNumber'' ''''
      in if expected_serial \<noteq> None \<and> expected_serial \<noteq> Some serial then Inl schema_error
         else bind_result (objects_in (get_or_null payload ''errors'')) (\<lambda>errors.
              bind_result (sub_object payload ''agvPosition'') (\<lambda>position.
              bind_result (reported_pose env position) (\<lambda>pose.
              bind_result (sub_object payload ''batteryState'') (\<lambda>battery.
              bind_result (sub_object payload ''velocity'') (\<lambda>velocity.
              bind_result (component_of velocity ''vx'') (\<lambda>vx.
              bind_result (component_of velocity ''vy'') (\<lambda>vy.
              bind_result (sub_object payload ''safetyState'') (\<lambda>safety.
                Inr \<lparr>vs_vehicle_id = serial, vs_fleet = fleet, vs_online = True,
                     vs_operating_mode = operating_mode_of (py_upper (text_at fs payload ''operatingMode'' ''AUTOMATIC'')),
                     vs_pose = pose, vs_battery_ratio = battery_of (get_or_null battery ''batteryCharge''),
                     vs_charging = flag_at battery ''charging'', vs_driving = flag_at payload ''driving'',
                     vs_paused = flag_at payload ''paused'', vs_errors = map (reported_error fs) errors,
                     vs_current_mission_id =
                       (if flag_at payload ''orderId'' then Some (to_str fs (get_or_null payload ''orderId'')) else None),
                     vs_velocity_mps = ve_speed env vx vy,
                     vs_safety_estop_active = (py_upper (text_at fs safety ''eStop'' ''NONE'') \<noteq> ''NONE''),
                     vs_protective_field_violated = flag_at safety ''fieldViolation''\<rparr>)))))))))"

definition mission_state_from :: "py_parse \<Rightarrow> (string \<times> json) list \<Rightarrow> string \<Rightarrow> MissionState result" where
  "mission_state_from fs payload mission_id =
     (if text_at fs payload ''orderId'' '''' \<noteq> mission_id then Inr MS_COMPLETED
      else bind_result (objects_in (get_or_null payload ''actionStates'')) (\<lambda>actions.
        (let action_status = (\<lambda>a. py_upper (text_at fs a ''actionStatus'' ''''))
         in if list_ex (\<lambda>a. action_status a = ''FAILED'') actions then Inr MS_FAILED
            else bind_result (objects_in (get_or_null payload ''errors'')) (\<lambda>errors.
              if list_ex (\<lambda>e. py_upper (text_at fs e ''errorLevel'' '''') = ''FATAL'') errors then Inr MS_FAILED
              else (let outstanding = (flag_at payload ''nodeStates'' \<or> flag_at payload ''edgeStates'');
                        unfinished = list_ex (\<lambda>a. action_status a \<notin> {''FINISHED'', ''FAILED''}) actions
                    in if outstanding \<or> unfinished then Inr (if flag_at payload ''paused'' then MS_PAUSED else MS_RUNNING)
                       else Inr MS_COMPLETED)))))"

text \<open>\<^verbatim>\<open>max(..., default=0.0)\<close>.\<close>

definition py_maximum :: "pyfloat list \<Rightarrow> pyfloat" where
  "py_maximum xs = (case xs of [] \<Rightarrow> Fin 0 | y # ys \<Rightarrow> fold (\<lambda>v best. py_max best v) ys y)"

definition supported_kinds :: "py_parse \<Rightarrow> (string \<times> json) list list \<Rightarrow> StepKind list" where
  "supported_kinds fs actions =
     sort_key step_kind_value
       (filter (\<lambda>k. k = MOVE \<or> list_ex (\<lambda>a. map_of ACTION_TYPES k = Some (Some (text_at fs a ''actionType'' ''''))) actions)
          all_step_kinds)"

definition parse_factsheet :: "vda_env \<Rightarrow> (string \<times> json) list \<Rightarrow> VehicleCapabilities result" where
  "parse_factsheet env payload =
     (let fs = ve_parse env
      in bind_result (sub_object payload ''protocolFeatures'') (\<lambda>features.
         bind_result (objects_in (get_or_null features ''agvActions'')) (\<lambda>actions.
         bind_result (sub_object payload ''loadSpecification'') (\<lambda>load.
         bind_result (objects_in (get_or_null load ''loadSets'')) (\<lambda>load_sets.
         bind_result (map_result (\<lambda>s. float_at fs s ''maxWeight'' 0) load_sets) (\<lambda>weights.
         bind_result (sub_object payload ''physicalParameters'') (\<lambda>physical.
         bind_result (float_at fs physical ''speedMax'' (3 / 2)) (\<lambda>speed.
         bind_result (float_at fs physical ''length'' 1) (\<lambda>len.
         bind_result (float_at fs physical ''width'' (6 / 10)) (\<lambda>width.
         bind_result (sub_object payload ''typeSpecification'') (\<lambda>typ.
           Inr \<lparr>vc_max_speed_mps = coordinate env speed, vc_payload_kg = coordinate env (py_maximum weights),
                vc_footprint_m = (coordinate env len, coordinate env width), vc_supported_steps = supported_kinds fs actions,
                vc_charge_types = [], vc_vendor = text_at fs payload ''manufacturer'' ''unknown'',
                vc_model = text_at fs typ ''seriesName'' (text_at fs payload ''serialNumber'' ''unknown''),
                vc_interface = ''VDA 5050 '' @ text_at fs payload ''version'' PROTOCOL_VERSION\<rparr>)))))))))))"

section \<open>The adapter\<close>

record 'w Vda5050Adapter =
  va_fleet :: string
  va_manufacturer :: string
  va_offline_after_s :: rat
  va_states :: "(string \<times> (rat \<times> VehicleState)) list"
  va_raw :: "(string \<times> (string \<times> json) list) list"
  va_capabilities :: "(string \<times> VehicleCapabilities) list"
  va_orders :: "(string \<times> (string \<times> json) list) list"
  va_builders :: "(string \<times> OrderBuilder) list"
  va_connections :: "(string \<times> string) list"
  va_monotonic :: rat
  va_stamp :: string
  va_world :: 'w

definition new_vda_adapter :: "string \<Rightarrow> string \<Rightarrow> rat \<Rightarrow> 'w \<Rightarrow> 'w Vda5050Adapter" where
  "new_vda_adapter fleet manufacturer offline_after_s w =
     \<lparr>va_fleet = fleet, va_manufacturer = manufacturer, va_offline_after_s = offline_after_s, va_states = [], va_raw = [],
      va_capabilities = [], va_orders = [], va_builders = [], va_connections = [], va_monotonic = 0, va_stamp = '''', va_world = w\<rparr>"

definition ingest_state :: "vda_env \<Rightarrow> (string \<times> json) list \<Rightarrow> 'w Vda5050Adapter \<Rightarrow> 'w Vda5050Adapter \<times> unit result" where
  "ingest_state env body s =
     (case parse_state env (va_fleet s) None body of
        Inl e \<Rightarrow> (s, Inl e)
      | Inr st \<Rightarrow>
          if vs_vehicle_id st = '''' then (s, Inr ())
          else (s\<lparr>va_states := put (vs_vehicle_id st) (va_monotonic s, st) (va_states s),
                   va_raw := put (vs_vehicle_id st) body (va_raw s)\<rparr>, Inr ()))"

text \<open>\<^verbatim>\<open>except (ValueError, TypeError, FaspError)\<close>.\<close>

fun swallowed :: "exn \<Rightarrow> bool" where
  "swallowed ValueError = True"
| "swallowed TypeError = True"
| "swallowed (FaspError _) = True"
| "swallowed _ = False"

text \<open>A received message; \<open>decoded\<close> is the payload or what \<^verbatim>\<open>json.loads\<close> makes of its text.\<close>

definition handle_body :: "vda_env \<Rightarrow> string \<Rightarrow> json \<Rightarrow> 'w Vda5050Adapter \<Rightarrow> 'w Vda5050Adapter \<times> unit result" where
  "handle_body env message_topic decoded s =
     (case decoded of
        JObj body \<Rightarrow>
          (let subject = last (py_split CHR ''/'' message_topic); serial = text_at (ve_parse env) body ''serialNumber'' ''''
           in if subject = ''state'' then ingest_state env body s
              else if subject = ''factsheet'' \<and> serial \<noteq> ''''
              then (case parse_factsheet env body of
                      Inl e \<Rightarrow> (s, Inl e)
                    | Inr c \<Rightarrow> (s\<lparr>va_capabilities := put serial c (va_capabilities s)\<rparr>, Inr ()))
              else if subject = ''connection'' \<and> serial \<noteq> ''''
              then (s\<lparr>va_connections := put serial (py_upper (text_at (ve_parse env) body ''connectionState'' ''OFFLINE'')) (va_connections s)\<rparr>,
                    Inr ())
              else (s, Inr ()))
      | _ \<Rightarrow> (s, Inr ()))"

definition on_message :: "vda_env \<Rightarrow> string \<Rightarrow> json result \<Rightarrow> 'w Vda5050Adapter \<Rightarrow> 'w Vda5050Adapter \<times> unit result" where
  "on_message env message_topic decoded s =
     (case (case decoded of Inl e \<Rightarrow> (s, Inl e) | Inr v \<Rightarrow> handle_body env message_topic v s) of
        (s', Inl e) \<Rightarrow> (s', if swallowed e then Inr () else Inl e)
      | (s', Inr u) \<Rightarrow> (s', Inr u))"

definition fresh_state :: "'w Vda5050Adapter \<Rightarrow> string \<Rightarrow> VehicleState option" where
  "fresh_state s vehicle_id =
     (case map_of (va_states s) vehicle_id of
        None \<Rightarrow> None
      | Some (seen_at, st) \<Rightarrow>
          Some (if va_monotonic s - seen_at \<le> va_offline_after_s s \<and>
                   (case map_of (va_connections s) vehicle_id of None \<Rightarrow> ''ONLINE'' | Some c \<Rightarrow> c) = ''ONLINE''
                then st else st\<lparr>vs_online := False\<rparr>))"

definition vda_list_vehicles :: "'w Vda5050Adapter \<Rightarrow> 'w Vda5050Adapter \<times> VehicleState list result" where
  "vda_list_vehicles s = (s, Inr (List.map_filter (fresh_state s) (sort (map fst (va_states s)))))"

definition vda_vehicle_state :: "'w Vda5050Adapter \<Rightarrow> string \<Rightarrow> 'w Vda5050Adapter \<times> VehicleState result" where
  "vda_vehicle_state s vehicle_id =
     (s, case fresh_state s vehicle_id of None \<Rightarrow> Inl (FaspError ''capability.unavailable'') | Some st \<Rightarrow> Inr st)"

definition builder_of :: "'w Vda5050Adapter \<Rightarrow> string \<Rightarrow> OrderBuilder" where
  "builder_of s vehicle_id =
     (case map_of (va_builders s) vehicle_id of
        None \<Rightarrow> \<lparr>bd_manufacturer = va_manufacturer s, bd_serial_number = vehicle_id, bd_sequence = []\<rparr>
      | Some b \<Rightarrow> b)"

definition keep_builder :: "string \<Rightarrow> OrderBuilder \<Rightarrow> 'w Vda5050Adapter \<Rightarrow> 'w Vda5050Adapter" where
  "keep_builder vehicle_id b s = s\<lparr>va_builders := put vehicle_id b (va_builders s)\<rparr>"

text \<open>The transport: a call returns, or raises an \<^verbatim>\<open>OSError\<close> or another exception.\<close>

datatype publish_result = Published | Raised_OSError | Raised_other exn

type_synonym 'w transport = "string \<Rightarrow> (string \<times> json) list \<Rightarrow> 'w \<Rightarrow> 'w \<times> publish_result"

definition publish_on ::
    "'w transport \<Rightarrow> string \<Rightarrow> string \<Rightarrow> (string \<times> json) list \<Rightarrow> 'w Vda5050Adapter \<Rightarrow> 'w Vda5050Adapter \<times> (publish_result result)" where
  "publish_on publish vehicle_id subject message s =
     (case vda_topic (va_manufacturer s) vehicle_id subject of
        Inl e \<Rightarrow> (s, Inl e)
      | Inr t \<Rightarrow> (case publish t message (va_world s) of (w, r) \<Rightarrow> (s\<lparr>va_world := w\<rparr>, Inr r)))"

fun raised :: "publish_result \<Rightarrow> unit result" where
  "raised Published = Inr ()"
| "raised Raised_OSError = Inl OtherException"
| "raised (Raised_other e) = Inl e"

definition send_order ::
    "'w transport \<Rightarrow> Mission \<Rightarrow> string \<Rightarrow> OrderBuilder \<times> (string \<times> json) list result \<Rightarrow> 'w Vda5050Adapter \<Rightarrow>
     'w Vda5050Adapter \<times> (string \<times> json) list result" where
  "send_order publish m vehicle_id built s =
     (case built of (b, made) \<Rightarrow>
       (let s1 = keep_builder vehicle_id b s
        in case made of
             Inl e \<Rightarrow> (s1, Inl e)
           | Inr order \<Rightarrow>
               (case publish_on publish vehicle_id ''order'' order s1 of
                  (s2, Inl e) \<Rightarrow> (s2, Inl e)
                | (s2, Inr r) \<Rightarrow>
                    (case raised r of
                       Inl e \<Rightarrow> (s2, Inl e)
                     | Inr _ \<Rightarrow> (s2\<lparr>va_orders := put (mi_mission_id m) order (va_orders s2)\<rparr>, Inr order)))))"

definition vda_dispatch :: "py_parse \<Rightarrow> 'w transport \<Rightarrow> 'w Vda5050Adapter \<Rightarrow> Mission \<Rightarrow> string \<Rightarrow> 'w Vda5050Adapter \<times> json result" where
  "vda_dispatch fs publish s m vehicle_id =
     (case send_order publish m vehicle_id
             (order_build fs (va_stamp s) (builder_of s vehicle_id) m 0 (get_or_null (mi_constraints m) ''base_nodes'')) s of
        (s1, Inl e) \<Rightarrow> (s1, Inl e)
      | (s1, Inr order) \<Rightarrow>
          (s1, Inr (JObj [(''interface'', JStr ''VDA 5050''), (''orderId'', get_or_null order ''orderId''),
             (''orderUpdateId'', get_or_null order ''orderUpdateId''), (''nodes'', JInt (int (length (objects_at order ''nodes'')))),
             (''edges'', JInt (int (length (objects_at order ''edges''))))])))"

definition last_released_of :: "py_parse \<Rightarrow> (string \<times> json) list \<Rightarrow> (string \<times> json) list \<Rightarrow> string" where
  "last_released_of fs raw previous =
     (if flag_at raw ''lastNodeId'' then to_str fs (get_or_null raw ''lastNodeId'') else to_str fs (first_node_id previous))"

definition update_order :: "py_parse \<Rightarrow> 'w transport \<Rightarrow> 'w Vda5050Adapter \<Rightarrow> Mission \<Rightarrow> string \<Rightarrow> 'w Vda5050Adapter \<times> json result" where
  "update_order fs publish s m vehicle_id =
     (case map_of (va_orders s) (mi_mission_id m) of
        None \<Rightarrow> (s, Inl schema_error)
      | Some previous \<Rightarrow>
          (let raw = (case map_of (va_raw s) vehicle_id of None \<Rightarrow> [] | Some r \<Rightarrow> r)
           in case send_order publish m vehicle_id
                     (order_update fs (va_stamp s) (builder_of s vehicle_id) previous m (last_released_of fs raw previous)
                        (get_or_null (mi_constraints m) ''base_nodes'')) s of
                (s1, Inl e) \<Rightarrow> (s1, Inl e)
              | (s1, Inr order) \<Rightarrow>
                  (s1, Inr (JObj [(''orderId'', get_or_null order ''orderId''), (''orderUpdateId'', get_or_null order ''orderUpdateId'')]))))"

definition send_instant_action ::
    "'w transport \<Rightarrow> 'w Vda5050Adapter \<Rightarrow> string \<Rightarrow> string \<Rightarrow> (string \<times> json) list \<Rightarrow> 'w Vda5050Adapter \<times> bool result" where
  "send_instant_action publish s vehicle_id action_type parameters =
     (case instant_action (va_stamp s) (builder_of s vehicle_id) action_type parameters ''HARD'' of
        (b, Inl e) \<Rightarrow> (keep_builder vehicle_id b s, Inr False)
      | (b, Inr message) \<Rightarrow>
          (case publish_on publish vehicle_id ''instantActions'' message (keep_builder vehicle_id b s) of
             (s1, Inl e) \<Rightarrow> (s1, Inr False)
           | (s1, Inr Published) \<Rightarrow> (s1, Inr True)
           | (s1, Inr Raised_OSError) \<Rightarrow> (s1, Inr False)
           | (s1, Inr (Raised_other (FaspError c))) \<Rightarrow> (s1, Inr False)
           | (s1, Inr (Raised_other e)) \<Rightarrow> (s1, Inl e)))"

definition pending_capabilities :: "string \<Rightarrow> VehicleCapabilities" where
  "pending_capabilities manufacturer =
     \<lparr>vc_max_speed_mps = 3 / 2, vc_payload_kg = 0, vc_footprint_m = (1, 6 / 10), vc_supported_steps = [MOVE], vc_charge_types = [],
      vc_vendor = manufacturer, vc_model = ''unknown'', vc_interface = ''VDA 5050 (factsheet pending)''\<rparr>"

definition vda_capabilities :: "'w transport \<Rightarrow> 'w Vda5050Adapter \<Rightarrow> string \<Rightarrow> 'w Vda5050Adapter \<times> VehicleCapabilities result" where
  "vda_capabilities publish s vehicle_id =
     (case map_of (va_capabilities s) vehicle_id of
        Some known \<Rightarrow> (s, Inr known)
      | None \<Rightarrow>
          (case send_instant_action publish s vehicle_id ''factsheetRequest'' [] of
             (s1, Inl e) \<Rightarrow> (s1, Inl e)
           | (s1, Inr _) \<Rightarrow> (s1, Inr (pending_capabilities (va_manufacturer s1)))))"

definition vda_cancel :: "py_parse \<Rightarrow> 'w transport \<Rightarrow> 'w Vda5050Adapter \<Rightarrow> string \<Rightarrow> 'w Vda5050Adapter \<times> bool result" where
  "vda_cancel fs publish s mission_id =
     (case map_of (va_orders s) mission_id of
        None \<Rightarrow> (s, Inr False)
      | Some order \<Rightarrow> send_instant_action publish s (to_str fs (get_or_null order ''serialNumber'')) ''cancelOrder'' [])"

definition vda_mission_state :: "py_parse \<Rightarrow> 'w Vda5050Adapter \<Rightarrow> string \<Rightarrow> 'w Vda5050Adapter \<times> MissionState result" where
  "vda_mission_state fs s mission_id =
     (s, case map_of (va_orders s) mission_id of
           None \<Rightarrow> Inl (FaspError ''capability.unavailable'')
         | Some order \<Rightarrow>
             (case map_of (va_raw s) (to_str fs (get_or_null order ''serialNumber'')) of
                None \<Rightarrow> Inr MS_ASSIGNED
              | Some raw \<Rightarrow> mission_state_from fs raw mission_id))"

definition vda_request_stop :: "'w transport \<Rightarrow> 'w Vda5050Adapter \<Rightarrow> string \<Rightarrow> string \<Rightarrow> 'w Vda5050Adapter \<times> bool result" where
  "vda_request_stop publish s vehicle_id why = send_instant_action publish s vehicle_id ''startPause'' [(''reason'', JStr (take 120 why))]"

definition vda_adapter :: "py_parse \<Rightarrow> 'w transport \<Rightarrow> 'w Vda5050Adapter adapter" where
  "vda_adapter fs publish =
     \<lparr>ad_list_vehicles = vda_list_vehicles, ad_vehicle_state = vda_vehicle_state, ad_capabilities = vda_capabilities publish,
      ad_dispatch = vda_dispatch fs publish, ad_cancel = vda_cancel fs publish, ad_mission_state = vda_mission_state fs,
      ad_request_stop = vda_request_stop publish\<rparr>"

end
