(* ===== verification/Vda5050_Safety.thy ===== *)
theory Vda5050_Safety
  imports Vda5050 Mission_Dispatch
begin

text \<open>
  What holds of the VDA 5050 adapter: the shape of an order, the header numbers of everything that was ever published, what a message
  from a vehicle can change, and which vehicles of it the coordinator selects. Two lemmas show what it does wrong: a mission reads
  as completed between its dispatch and the next state message, and a cancellation reaches whatever order the vehicle runs.
\<close>

section \<open>The shape of an order\<close>

definition route_shape ::
    "py_parse \<Rightarrow> Mission \<Rightarrow> pyfloat \<Rightarrow> nat \<Rightarrow> int \<Rightarrow> MissionStep list \<Rightarrow> (string \<times> json) list list \<Rightarrow> (string \<times> json) list list \<Rightarrow> bool" where
  "route_shape fs m limit k sid ss ns es \<longleftrightarrow>
     length ns = length ss \<and> length es = length ss - 1 \<and>
     (\<forall>i < length ns. get_or_null (ns ! i) ''nodeId'' = JStr (order_node_id m (k + i) (ss ! i)) \<and>
        get_or_null (ns ! i) ''sequenceId'' = JInt (sid + 2 * int i) \<and>
        get_or_null (ns ! i) ''released'' = JBool (is_released limit (k + i)) \<and>
        get_or_null (ns ! i) ''actions'' = JList (actions_for fs (ss ! i) m)) \<and>
     (\<forall>i < length es. get_or_null (es ! i) ''sequenceId'' = JInt (sid + 2 * int i + 1) \<and>
        get_or_null (es ! i) ''startNodeId'' = get_or_null (ns ! i) ''nodeId'' \<and>
        get_or_null (es ! i) ''endNodeId'' = get_or_null (ns ! Suc i) ''nodeId'' \<and>
        get_or_null (es ! i) ''released'' = JBool (is_released limit (k + i) \<and> is_released limit (k + Suc i)))"

lemma node_json_fields:
  assumes "node_json fs m limit k sid s = Inr n"
  shows "get_or_null n ''nodeId'' = JStr (order_node_id m k s)" "get_or_null n ''sequenceId'' = JInt sid"
    "get_or_null n ''released'' = JBool (is_released limit k)" "get_or_null n ''actions'' = JList (actions_for fs s m)"
  using assms by (auto simp: node_json_def bind_result_Inr_iff get_or_null_def)

lemma edge_json_fields:
  assumes "edge_json fs m limit k sid s s' = Inr e"
  shows "get_or_null e ''sequenceId'' = JInt sid" "get_or_null e ''startNodeId'' = JStr (order_node_id m k s)"
    "get_or_null e ''endNodeId'' = JStr (order_node_id m (k + 1) s')"
    "get_or_null e ''released'' = JBool (is_released limit k \<and> is_released limit (k + 1))"
  using assms by (auto simp: edge_json_def bind_result_Inr_iff get_or_null_def Let_def)

lemma build_route_shape:
  "build_route fs m limit k sid ss = Inr (ns, es) \<Longrightarrow> route_shape fs m limit k sid ss ns es"
proof (induction fs m limit k sid ss arbitrary: ns es rule: build_route.induct)
  case (1 fs m limit k sid)
  then show ?case by (simp add: route_shape_def)
next
  case (2 fs m limit k sid s)
  then obtain n where "node_json fs m limit k sid s = Inr n" "ns = [n]" "es = []" by (auto simp: bind_result_Inr_iff)
  with node_json_fields [OF this(1)] show ?case by (simp add: route_shape_def)
next
  case (3 fs m limit k sid s s' rest)
  obtain n e ns' es' where n: "node_json fs m limit k sid s = Inr n" and e: "edge_json fs m limit k (sid + 1) s s' = Inr e"
    and r: "build_route fs m limit (k + 1) (sid + 2) (s' # rest) = Inr (ns', es')" and eq: "ns = n # ns'" "es = e # es'"
    using 3(2) by (auto simp: bind_result_Inr_iff)
  have sh: "route_shape fs m limit (k + 1) (sid + 2) (s' # rest) ns' es'" by (rule 3(1) [OF r])
  then obtain n' ns'' where ns': "ns' = n' # ns''" by (cases ns') (auto simp: route_shape_def)
  have first: "get_or_null n' ''nodeId'' = JStr (order_node_id m (k + 1) s')"
    using sh unfolding route_shape_def ns' by (elim conjE allE [of _ 0]) simp
  note nf = node_json_fields [OF n] and ef = edge_json_fields [OF e]
  show ?case
    unfolding route_shape_def eq
  proof (intro conjI allI impI)
    show "length (n # ns') = length (s # s' # rest)" "length (e # es') = length (s # s' # rest) - 1"
      using sh by (simp_all add: route_shape_def)
  next
    fix i assume i: "i < length (n # ns')"
    show "get_or_null ((n # ns') ! i) ''nodeId'' = JStr (order_node_id m (k + i) ((s # s' # rest) ! i))"
      "get_or_null ((n # ns') ! i) ''sequenceId'' = JInt (sid + 2 * int i)"
      "get_or_null ((n # ns') ! i) ''released'' = JBool (is_released limit (k + i))"
      "get_or_null ((n # ns') ! i) ''actions'' = JList (actions_for fs ((s # s' # rest) ! i) m)"
      using i nf sh by (cases i; simp add: route_shape_def algebra_simps)+
  next
    fix i assume i: "i < length (e # es')"
    show "get_or_null ((e # es') ! i) ''sequenceId'' = JInt (sid + 2 * int i + 1)"
      "get_or_null ((e # es') ! i) ''startNodeId'' = get_or_null ((n # ns') ! i) ''nodeId''"
      "get_or_null ((e # es') ! i) ''endNodeId'' = get_or_null ((n # ns') ! Suc i) ''nodeId''"
      "get_or_null ((e # es') ! i) ''released'' = JBool (is_released limit (k + i) \<and> is_released limit (k + Suc i))"
      using i nf ef first sh by (cases i; simp add: route_shape_def ns' algebra_simps)+
  qed
qed

text \<open>The committed part is a prefix of at least one node.\<close>

lemma release_limit_ge: "release_limit base n = Inr limit \<Longrightarrow> n \<noteq> 0 \<Longrightarrow> fl_less (Fin 0) limit \<and> limit \<noteq> NaN"
  by (auto simp: release_limit_def py_max_def split: if_splits option.splits pyfloat.splits elim: fl_less.elims)

lemma released_prefix:
  assumes "release_limit base n = Inr limit" and "n \<noteq> 0"
  shows "\<exists>r. 1 \<le> r \<and> r \<le> n \<and> (\<forall>i < n. is_released limit i \<longleftrightarrow> i < r)"
proof -
  define r where "r = length (filter (is_released limit) [0..<n])"
  have down: "is_released limit i" if "is_released limit j" "i \<le> j" for i j
    using that by (cases limit) (auto simp: is_released_def elim!: order.strict_trans1 [rotated])
  have ex: "\<exists>r \<le> m. \<forall>i < m. is_released limit i \<longleftrightarrow> i < r" for m
  proof (induction m)
    case 0
    show ?case by simp
  next
    case (Suc m)
    then obtain r where r: "r \<le> m" "\<forall>i < m. is_released limit i \<longleftrightarrow> i < r" by blast
    show ?case
    proof (cases "is_released limit m")
      case True
      then have "\<forall>i < Suc m. is_released limit i \<longleftrightarrow> i < Suc m" using down [OF True] by auto
      then show ?thesis by blast
    next
      case False
      with r show ?thesis by (intro exI [of _ r]) (auto simp: less_Suc_eq)
    qed
  qed
  obtain r where r: "r \<le> n" "\<forall>i < n. is_released limit i \<longleftrightarrow> i < r" using ex by blast
  have "is_released limit 0" using release_limit_ge [OF assms] by (simp add: is_released_def)
  with r assms(2) have "1 \<le> r" by (cases r) auto
  with r show ?thesis by blast
qed

lemma map_object_of [simp]: "map object_of (map JObj xs) = xs"
  by (induction xs) (simp_all add: object_of_def)

lemma order_fields:
  assumes "order_build fs st b m k base = (b', Inr o')"
  shows "\<exists>limit nodes edges n.
    release_limit base (length (filter has_place (mi_steps m))) = Inr limit \<and> filter has_place (mi_steps m) \<noteq> [] \<and>
    build_route fs m limit 0 0 (filter has_place (mi_steps m)) = Inr (nodes, edges) \<and>
    objects_at o' ''nodes'' = nodes \<and> objects_at o' ''edges'' = edges \<and> next_id (bd_serial_number b @ ''/order'') (bd_sequence b) = (bd_sequence b', n) \<and>
    b' = b\<lparr>bd_sequence := bd_sequence b'\<rparr> \<and> get_or_null o' ''headerId'' = JInt n \<and> get_or_null o' ''serialNumber'' = JStr (bd_serial_number b) \<and>
    get_or_null o' ''orderId'' = JStr (mi_mission_id m) \<and> get_or_null o' ''orderUpdateId'' = JInt k"
proof -
  have ne: "filter has_place (mi_steps m) \<noteq> []" using assms by (auto simp: order_build_def Let_def)
  then obtain limit where l: "release_limit base (length (filter has_place (mi_steps m))) = Inr limit"
    using assms by (auto simp: order_build_def Let_def split: sum.splits)
  then obtain nodes edges where r: "build_route fs m limit 0 0 (filter has_place (mi_steps m)) = Inr (nodes, edges)"
    using assms ne by (auto simp: order_build_def Let_def split: sum.splits)
  obtain cs n where nx: "next_id (bd_serial_number b @ ''/order'') (bd_sequence b) = (cs, n)" by (metis surj_pair)
  have "b' = b\<lparr>bd_sequence := cs\<rparr>"
    and o': "o' = vda_header st n (bd_manufacturer b) (bd_serial_number b) @ [(''orderId'', JStr (mi_mission_id m)), (''orderUpdateId'', JInt k),
      (''nodes'', JList (map JObj nodes)), (''edges'', JList (map JObj edges))] @ optional_key (mi_constraints m) ''zone_set_id'' ''zoneSetId''"
    using assms ne l r nx by (simp_all add: order_build_def Let_def)
  with ne l r nx show ?thesis
    by - (rule exI [of _ limit], rule exI [of _ nodes], rule exI [of _ edges], rule exI [of _ n],
      simp add: vda_header_def get_or_null_def objects_at_def object_of_def o_def)
qed

text \<open>
  C24. An order has one node for every step with a place, in order, and one edge between each pair of neighbours. Nodes carry
  the even sequence numbers and edges the odd ones between them, every edge joins its two nodes, the committed nodes are the first
  \<open>r\<close> with at least one of them, and an edge is committed exactly if the node it leads to is.
\<close>

theorem order_well_formed:
  assumes "order_build fs st b m k base = (b', Inr order)"
  shows "\<exists>r. 1 \<le> r \<and> r \<le> length (objects_at order ''nodes'') \<and>
    length (objects_at order ''nodes'') = length (filter has_place (mi_steps m)) \<and>
    Suc (length (objects_at order ''edges'')) = length (objects_at order ''nodes'') \<and>
    list_all (\<lambda>i. let n = objects_at order ''nodes'' ! i in
        get_or_null n ''nodeId'' = JStr (order_node_id m i (filter has_place (mi_steps m) ! i)) \<and>
        get_or_null n ''sequenceId'' = JInt (2 * int i) \<and> get_or_null n ''released'' = JBool (i < r))
      [0..<length (objects_at order ''nodes'')] \<and>
    list_all (\<lambda>i. let e = objects_at order ''edges'' ! i in
        get_or_null e ''sequenceId'' = JInt (2 * int i + 1) \<and>
        get_or_null e ''startNodeId'' = get_or_null (objects_at order ''nodes'' ! i) ''nodeId'' \<and>
        get_or_null e ''endNodeId'' = get_or_null (objects_at order ''nodes'' ! Suc i) ''nodeId'' \<and>
        get_or_null e ''released'' = JBool (Suc i < r))
      [0..<length (objects_at order ''edges'')]"
proof -
  let ?ss = "filter has_place (mi_steps m)"
  obtain limit nodes edges where l: "release_limit base (length ?ss) = Inr limit" and ne: "?ss \<noteq> []"
    and r: "build_route fs m limit 0 0 ?ss = Inr (nodes, edges)" and o: "objects_at order ''nodes'' = nodes" "objects_at order ''edges'' = edges"
    using order_fields [OF assms] by (elim exE conjE) (rule that)
  from build_route_shape [OF r] have sh: "route_shape fs m limit 0 0 ?ss nodes edges" .
  then have len: "length nodes = length ?ss" "Suc (length edges) = length nodes"
    using ne by (simp_all add: route_shape_def Suc_diff_1)
  obtain r where r: "1 \<le> r" "r \<le> length ?ss" "\<forall>i < length ?ss. is_released limit i \<longleftrightarrow> i < r"
    using released_prefix [OF l] ne by auto
  show ?thesis
  proof (intro exI [of _ r] conjI)
    show "list_all (\<lambda>i. let n = objects_at order ''nodes'' ! i in
        get_or_null n ''nodeId'' = JStr (order_node_id m i (?ss ! i)) \<and>
        get_or_null n ''sequenceId'' = JInt (2 * int i) \<and> get_or_null n ''released'' = JBool (i < r))
      [0..<length (objects_at order ''nodes'')]"
      using sh r(3) len(1) unfolding o by (simp add: list_all_iff route_shape_def)
    show "list_all (\<lambda>i. let e = objects_at order ''edges'' ! i in
        get_or_null e ''sequenceId'' = JInt (2 * int i + 1) \<and>
        get_or_null e ''startNodeId'' = get_or_null (objects_at order ''nodes'' ! i) ''nodeId'' \<and>
        get_or_null e ''endNodeId'' = get_or_null (objects_at order ''nodes'' ! Suc i) ''nodeId'' \<and>
        get_or_null e ''released'' = JBool (Suc i < r))
      [0..<length (objects_at order ''edges'')]"
      using sh r(3) len unfolding o by (auto simp: list_all_iff route_shape_def)
  qed (use r len o in simp_all)
qed

section \<open>Header numbers\<close>

text \<open>A transport that keeps what reached it: each call delivers the message or loses it, and returns or raises as it likes.\<close>

type_synonym vda_log = "(string \<times> (string \<times> json) list) list"

definition keeps_log :: "vda_log transport \<Rightarrow> bool" where
  "keeps_log publish \<longleftrightarrow> (\<forall>t msg w. fst (publish t msg w) \<in> {w, w @ [(t, msg)]})"

inductive vda_step :: "vda_env \<Rightarrow> vda_log Vda5050Adapter \<Rightarrow> vda_log Vda5050Adapter \<Rightarrow> bool" for env where
  step_message: "vda_step env s (fst (on_message env t decoded s))"
| step_clock: "va_monotonic s \<le> now \<Longrightarrow> vda_step env s (s\<lparr>va_monotonic := now, va_stamp := st\<rparr>)"
| step_dispatch: "keeps_log publish \<Longrightarrow> vda_step env s (fst (vda_dispatch (ve_parse env) publish s m v))"
| step_update: "keeps_log publish \<Longrightarrow> vda_step env s (fst (update_order (ve_parse env) publish s m v))"
| step_capabilities: "keeps_log publish \<Longrightarrow> vda_step env s (fst (vda_capabilities publish s v))"
| step_cancel: "keeps_log publish \<Longrightarrow> vda_step env s (fst (vda_cancel (ve_parse env) publish s mid))"
| step_stop: "keeps_log publish \<Longrightarrow> vda_step env s (fst (vda_request_stop publish s v why))"
| step_action: "keeps_log publish \<Longrightarrow> vda_step env s (fst (send_instant_action publish s v a ps))"

definition fresh_vda :: "vda_log Vda5050Adapter \<Rightarrow> bool" where
  "fresh_vda s \<longleftrightarrow> (\<exists>fleet manufacturer offline. s = new_vda_adapter fleet manufacturer offline [])"

definition header_number :: "(string \<times> json) list \<Rightarrow> int" where
  "header_number msg = (case get_or_null msg ''headerId'' of JInt n \<Rightarrow> n | _ \<Rightarrow> 0)"

definition messages_on :: "string \<Rightarrow> vda_log \<Rightarrow> (string \<times> json) list list" where
  "messages_on t w = map snd (filter (\<lambda>p. fst p = t) w)"

definition count_at :: "OrderBuilder \<Rightarrow> string \<Rightarrow> int" where
  "count_at b key = (case map_of (bd_sequence b) key of None \<Rightarrow> 0 | Some c \<Rightarrow> c)"

definition subjects :: "string list" where
  "subjects = [''order'', ''instantActions'']"

definition log_ok :: "vda_log Vda5050Adapter \<Rightarrow> bool" where
  "log_ok s \<longleftrightarrow>
     (\<forall>v b. map_of (va_builders s) v = Some b \<longrightarrow> bd_serial_number b = v) \<and>
     (\<forall>t msg. (t, msg) \<in> set (va_world s) \<longrightarrow> (\<exists>v sub. sub \<in> set subjects \<and> vda_topic (va_manufacturer s) v sub = Inr t \<and>
        get_or_null msg ''serialNumber'' = JStr v \<and> header_number msg \<le> count_at (builder_of s v) (v @ ''/'' @ sub))) \<and>
     (\<forall>t. sorted_wrt (<) (map header_number (messages_on t (va_world s))))"

text \<open>What one operation does to the builders and the log: it touches one builder, whose counters never fall, and publishes at most
  one message, under the number its counter has reached.\<close>

definition emission :: "vda_log Vda5050Adapter \<Rightarrow> string \<Rightarrow> OrderBuilder \<Rightarrow> string \<Rightarrow> (string \<times> json) list \<Rightarrow> bool" where
  "emission s v b' sub msg \<longleftrightarrow> sub \<in> set subjects \<and> get_or_null msg ''serialNumber'' = JStr (bd_serial_number (builder_of s v)) \<and>
     header_number msg = count_at b' (bd_serial_number (builder_of s v) @ ''/'' @ sub) \<and>
     count_at (builder_of s v) (bd_serial_number (builder_of s v) @ ''/'' @ sub) < header_number msg"

definition emits :: "vda_log Vda5050Adapter \<Rightarrow> vda_log Vda5050Adapter \<Rightarrow> bool" where
  "emits s s' \<longleftrightarrow> va_manufacturer s' = va_manufacturer s \<and>
     (\<exists>v b'. va_builders s' = put v b' (va_builders s) \<and> bd_serial_number b' = bd_serial_number (builder_of s v) \<and>
        (\<forall>key. count_at (builder_of s v) key \<le> count_at b' key) \<and>
        (va_world s' = va_world s \<or>
         (\<exists>sub t msg. emission s v b' sub msg \<and> vda_topic (va_manufacturer s) v sub = Inr t \<and> va_world s' = va_world s @ [(t, msg)])))"

definition quiet_vda :: "'w Vda5050Adapter \<Rightarrow> 'w Vda5050Adapter \<Rightarrow> bool" where
  "quiet_vda s s' \<longleftrightarrow> va_manufacturer s' = va_manufacturer s \<and> va_builders s' = va_builders s \<and> va_world s' = va_world s"

lemma topic_inject:
  assumes "vda_topic a v sub = Inr t" and "vda_topic a v' sub' = Inr t"
  shows "v = v' \<and> sub = sub'"
proof -
  have parts: "CHR ''/'' \<notin> set v" "CHR ''/'' \<notin> set v'" and eq: "v @ CHR ''/'' # sub = v' @ CHR ''/'' # sub'"
    using assms by (auto simp: vda_topic_def topic_part_def split: if_splits)
  have "takeWhile (\<lambda>c. c \<noteq> CHR ''/'') (v @ CHR ''/'' # sub) = v" "takeWhile (\<lambda>c. c \<noteq> CHR ''/'') (v' @ CHR ''/'' # sub') = v'"
    using parts by (subst takeWhile_append2; force)+
  with eq have "v = v'" by metis
  with eq show ?thesis by simp
qed

lemma builder_of_put: "va_builders s' = put v b' (va_builders s) \<Longrightarrow> va_manufacturer s' = va_manufacturer s \<Longrightarrow>
    builder_of s' x = (if x = v then b' else builder_of s x)"
  by (simp add: builder_of_def map_of_put split: option.split)

lemma serial_of_builder: "log_ok s \<Longrightarrow> bd_serial_number (builder_of s v) = v"
  by (simp add: builder_of_def log_ok_def split: option.split)

lemma messages_on_snoc: "messages_on t (w @ [(t', msg)]) = (if t' = t then messages_on t w @ [msg] else messages_on t w)"
  by (simp add: messages_on_def)

lemma emits_log_ok:
  assumes ok: "log_ok s" and e: "emits s s'"
  shows "log_ok s'"
proof -
  obtain v b' where m: "va_manufacturer s' = va_manufacturer s" and b: "va_builders s' = put v b' (va_builders s)"
    and ser: "bd_serial_number b' = v" and mono: "\<And>key. count_at (builder_of s v) key \<le> count_at b' key"
    and w: "va_world s' = va_world s \<or>
         (\<exists>sub t msg. emission s v b' sub msg \<and> vda_topic (va_manufacturer s) v sub = Inr t \<and> va_world s' = va_world s @ [(t, msg)])"
    using e serial_of_builder [OF ok] unfolding emits_def by metis
  note bo = builder_of_put [OF b m]
  have grow: "count_at (builder_of s x) key \<le> count_at (builder_of s' x) key" for x key using mono by (simp add: bo)
  have builders: "map_of (va_builders s') x = Some y \<longrightarrow> bd_serial_number y = x" for x y
    using ok ser by (auto simp: b map_of_put log_ok_def)
  have old: "\<exists>x sub. sub \<in> set subjects \<and> vda_topic (va_manufacturer s') x sub = Inr t \<and> get_or_null msg ''serialNumber'' = JStr x \<and>
      header_number msg \<le> count_at (builder_of s' x) (x @ ''/'' @ sub)" if "(t, msg) \<in> set (va_world s)" for t msg
    using ok that order_trans [OF _ grow] unfolding log_ok_def m by blast
  from w show ?thesis
  proof
    assume "va_world s' = va_world s"
    with builders old ok show ?thesis by (simp add: log_ok_def)
  next
    assume "\<exists>sub t msg. emission s v b' sub msg \<and> vda_topic (va_manufacturer s) v sub = Inr t \<and> va_world s' = va_world s @ [(t, msg)]"
    then obtain sub t msg where em: "emission s v b' sub msg" and t: "vda_topic (va_manufacturer s) v sub = Inr t"
      and w: "va_world s' = va_world s @ [(t, msg)]" by blast
    have lower: "header_number msg' < header_number msg" if mem: "(t, msg') \<in> set (va_world s)" for msg'
    proof -
      obtain x sub' where x: "vda_topic (va_manufacturer s) x sub' = Inr t" "header_number msg' \<le> count_at (builder_of s x) (x @ ''/'' @ sub')"
        using ok mem unfolding log_ok_def by blast
      with topic_inject [OF t x(1)] em serial_of_builder [OF ok] show ?thesis by (simp add: emission_def)
    qed
    have "sorted_wrt (<) (map header_number (messages_on t' (va_world s')))" for t'
      using ok lower by (auto simp: w messages_on_snoc log_ok_def sorted_wrt_append messages_on_def)
    moreover have "\<exists>x sub. sub \<in> set subjects \<and> vda_topic (va_manufacturer s') x sub = Inr t' \<and> get_or_null msg' ''serialNumber'' = JStr x \<and>
      header_number msg' \<le> count_at (builder_of s' x) (x @ ''/'' @ sub)" if "(t', msg') \<in> set (va_world s')" for t' msg'
    proof (cases "(t', msg') \<in> set (va_world s)")
      case True
      then show ?thesis by (rule old)
    next
      case False
      then have "t' = t" "msg' = msg" using that w by auto
      with em t m serial_of_builder [OF ok] show ?thesis by (intro exI [of _ v] exI [of _ sub]) (simp add: emission_def bo)
    qed
    ultimately show ?thesis using builders by (simp add: log_ok_def)
  qed
qed

lemma quiet_log_ok:
  assumes "log_ok s" and "quiet_vda s s'"
  shows "log_ok s'"
proof -
  have "builder_of s' = builder_of s" using assms(2) by (intro ext) (simp add: builder_of_def quiet_vda_def split: option.split)
  then show ?thesis using assms unfolding log_ok_def quiet_vda_def by simp
qed

text \<open>A builder after it made a message, or failed to.\<close>

definition builds :: "OrderBuilder \<Rightarrow> OrderBuilder \<times> (string \<times> json) list result \<Rightarrow> string \<Rightarrow> bool" where
  "builds b built sub \<longleftrightarrow>
     bd_serial_number (fst built) = bd_serial_number b \<and> (\<forall>key. count_at b key \<le> count_at (fst built) key) \<and>
     (\<forall>msg. snd built = Inr msg \<longrightarrow> get_or_null msg ''serialNumber'' = JStr (bd_serial_number b) \<and>
        header_number msg = count_at (fst built) (bd_serial_number b @ ''/'' @ sub) \<and>
        count_at b (bd_serial_number b @ ''/'' @ sub) < header_number msg)"

lemma builds_failed: "builds b (b, Inl e) sub"
  by (simp add: builds_def)

lemma count_next: "next_id key cs = (cs', n) \<Longrightarrow>
    n = count_at (b\<lparr>bd_sequence := cs\<rparr>) key + 1 \<and>
    count_at (b\<lparr>bd_sequence := cs'\<rparr>) k = (if k = key then n else count_at (b\<lparr>bd_sequence := cs\<rparr>) k)"
  by (auto simp: next_id_def Let_def count_at_def map_of_put)

lemma order_build_builds: "builds b (order_build fs st b m k base) ''order''"
proof (cases "snd (order_build fs st b m k base)")
  case (Inl e)
  then have "order_build fs st b m k base = (b, Inl e)"
    by (auto simp: order_build_def Let_def split: if_splits sum.splits prod.splits)
  then show ?thesis by (simp add: builds_failed)
next
  case (Inr order)
  then obtain b' where built: "order_build fs st b m k base = (b', Inr order)" by (metis prod.collapse)
  then obtain n where nx: "next_id (bd_serial_number b @ ''/order'') (bd_sequence b) = (bd_sequence b', n)"
    and b': "b' = b\<lparr>bd_sequence := bd_sequence b'\<rparr>" and f: "get_or_null order ''headerId'' = JInt n" "get_or_null order ''serialNumber'' = JStr (bd_serial_number b)"
    using order_fields [OF built] by (elim exE conjE) (rule that)
  have ser: "bd_serial_number b' = bd_serial_number b" by (subst b') simp
  have eq: "b\<lparr>bd_sequence := bd_sequence b\<rparr> = b" by simp
  have c: "n = count_at b (bd_serial_number b @ ''/order'') + 1"
    "count_at b' key = (if key = bd_serial_number b @ ''/order'' then n else count_at b key)" for key
    using count_next [OF nx, of b key] unfolding b' [symmetric] eq by simp_all
  show ?thesis unfolding builds_def built by (simp add: ser c f header_number_def)
qed

lemma order_update_builds: "builds b (order_update fs st b previous m last_released base) ''order''"
proof -
  obtain b' r where built: "order_build fs st b m (update_id_of previous + 1) base = (b', r)" by (metis surj_pair)
  have "builds b (b', r) ''order''" using order_build_builds [of b fs st m "update_id_of previous + 1" base] by (simp add: built)
  then show ?thesis by (cases r) (auto simp: order_update_def built builds_def)
qed

lemma instant_action_builds: "builds b (instant_action st b a ps blocking) ''instantActions''"
proof (cases "a \<in> set INSTANT_ACTIONS \<and> blocking \<in> {''NONE'', ''SOFT'', ''HARD''}")
  case False
  then show ?thesis by (auto simp: instant_action_def builds_failed)
next
  case True
  define key where "key = bd_serial_number b @ ''/instantActions''"
  obtain cs n where n: "next_id key (bd_sequence b) = (cs, n)" by (metis surj_pair)
  obtain cs' k where k: "next_id ''action'' cs = (cs', k)" by (metis surj_pair)
  have eq: "b\<lparr>bd_sequence := bd_sequence b\<rparr> = b" by simp
  have "length key \<noteq> length ''action''" by (simp add: key_def)
  then have ne: "key \<noteq> ''action''" by metis
  have c1: "n = count_at b key + 1" "count_at (b\<lparr>bd_sequence := cs\<rparr>) x = (if x = key then n else count_at b x)" for x
    using count_next [OF n, of b x] unfolding eq by simp_all
  have c2: "k = count_at (b\<lparr>bd_sequence := cs\<rparr>) ''action'' + 1"
    "count_at (b\<lparr>bd_sequence := cs'\<rparr>) x = (if x = ''action'' then k else count_at (b\<lparr>bd_sequence := cs\<rparr>) x)" for x
    using count_next [OF k, of b x] by simp_all
  have new: "count_at (b\<lparr>bd_sequence := cs'\<rparr>) key = n" using c1 c2 ne by simp
  have up: "count_at b x \<le> count_at (b\<lparr>bd_sequence := cs'\<rparr>) x" for x
    unfolding c2(2) [of x] c2(1) c1(2) c1(1) by simp
  have built: "instant_action st b a ps blocking = (b\<lparr>bd_sequence := cs'\<rparr>,
      Inr (vda_header st n (bd_manufacturer b) (bd_serial_number b) @
         [(''actions'', JList [JObj [(''actionType'', JStr a), (''actionId'', JStr (a @ ''-'' @ int_text k)), (''blockingType'', JStr blocking),
            (''actionParameters'', key_values ps)]])]))"
    using True n [unfolded key_def] k by (simp add: instant_action_def)
  have key: "bd_serial_number b @ ''/'' @ ''instantActions'' = key" by (simp add: key_def)
  show ?thesis unfolding builds_def built key using new c1(1) up
    by (simp add: vda_header_def get_or_null_def header_number_def)
qed

lemma keep_emits:
  assumes "builds (builder_of s v) (b', r) sub"
  shows "emits s (keep_builder v b' s)"
  using assms by (auto simp: emits_def keep_builder_def builds_def)

lemma publish_emits:
  assumes "builds (builder_of s v) (b', Inr msg) sub" and "sub \<in> set subjects" and "keeps_log publish"
  shows "emits s (fst (publish_on publish v sub msg (keep_builder v b' s)))"
proof (cases "vda_topic (va_manufacturer s) v sub")
  case (Inl e)
  then have "publish_on publish v sub msg (keep_builder v b' s) = (keep_builder v b' s, Inl e)"
    by (simp add: publish_on_def keep_builder_def)
  with keep_emits [OF assms(1)] show ?thesis by simp
next
  case (Inr t)
  obtain w r where p: "publish t msg (va_world s) = (w, r)" by (metis surj_pair)
  then have "w = va_world s \<or> w = va_world s @ [(t, msg)]" using assms(3) unfolding keeps_log_def by (metis fst_conv insert_iff singletonD)
  moreover have "publish_on publish v sub msg (keep_builder v b' s) = ((keep_builder v b' s)\<lparr>va_world := w\<rparr>, Inr r)"
    using Inr p by (simp add: publish_on_def keep_builder_def)
  moreover have "emission s v b' sub msg" using assms(1,2) by (simp add: emission_def builds_def)
  ultimately show ?thesis using assms(1) Inr unfolding emits_def builds_def keep_builder_def
    by - (rule conjI, simp, rule exI [of _ v], rule exI [of _ b'], auto)
qed

lemma emits_orders: "emits s s' \<Longrightarrow> emits s (s'\<lparr>va_orders := x\<rparr>)"
  by (simp add: emits_def)

lemma send_order_emits:
  assumes "builds (builder_of s v) built ''order''" and "keeps_log publish"
  shows "emits s (fst (send_order publish m v built s))"
proof -
  obtain b' r where built: "built = (b', r)" by (metis surj_pair)
  show ?thesis
  proof (cases r)
    case (Inl e)
    then show ?thesis using keep_emits assms(1) by (simp add: send_order_def built Let_def)
  next
    case (Inr order)
    have e: "emits s (fst (publish_on publish v ''order'' order (keep_builder v b' s)))"
      using publish_emits [of s v b' order "''order''" publish] assms by (simp add: built Inr subjects_def)
    obtain s2 r2 where p: "publish_on publish v ''order'' order (keep_builder v b' s) = (s2, r2)" by (metis surj_pair)
    show ?thesis using e emits_orders [of s s2] by (auto simp: send_order_def built Inr p Let_def split: sum.split)
  qed
qed

lemma send_instant_action_emits:
  assumes "keeps_log publish"
  shows "emits s (fst (send_instant_action publish s v a ps))"
proof -
  obtain b' r where built: "instant_action (va_stamp s) (builder_of s v) a ps ''HARD'' = (b', r)" by (metis surj_pair)
  have bu: "builds (builder_of s v) (b', r) ''instantActions''" using instant_action_builds built by metis
  show ?thesis
  proof (cases r)
    case (Inl e)
    then show ?thesis using keep_emits [OF bu] by (simp add: send_instant_action_def built)
  next
    case (Inr msg)
    obtain s1 r1 where p: "publish_on publish v ''instantActions'' msg (keep_builder v b' s) = (s1, r1)" by (metis surj_pair)
    have "emits s s1" using publish_emits [of s v b' msg "''instantActions''" publish] bu assms by (simp add: Inr p subjects_def)
    then show ?thesis by (auto simp: send_instant_action_def built Inr p split: sum.split publish_result.split exn.split)
  qed
qed

lemma vda_dispatch_fst:
  "fst (vda_dispatch fs publish s m v) =
   fst (send_order publish m v (order_build fs (va_stamp s) (builder_of s v) m 0 (get_or_null (mi_constraints m) ''base_nodes'')) s)"
  by (simp add: vda_dispatch_def split: prod.split sum.split)

lemma update_order_fst:
  "fst (update_order fs publish s m v) = (case map_of (va_orders s) (mi_mission_id m) of None \<Rightarrow> s | Some previous \<Rightarrow>
     fst (send_order publish m v (order_update fs (va_stamp s) (builder_of s v) previous m
       (last_released_of fs (case map_of (va_raw s) v of None \<Rightarrow> [] | Some r \<Rightarrow> r) previous) (get_or_null (mi_constraints m) ''base_nodes'')) s))"
  by (simp add: update_order_def Let_def split: prod.split sum.split option.split)

lemma on_message_quiet: "quiet_vda s (fst (on_message env t decoded s))"
  by (auto simp: quiet_vda_def on_message_def handle_body_def ingest_state_def Let_def split: sum.splits json.splits prod.splits if_splits)

lemma vda_step_log_ok:
  assumes "log_ok s" and "vda_step env s s'"
  shows "log_ok s'"
  using assms(2)
proof cases
  case (step_message t decoded)
  then show ?thesis using quiet_log_ok [OF assms(1) on_message_quiet] by simp
next
  case (step_clock now st)
  have "quiet_vda s (s\<lparr>va_monotonic := now, va_stamp := st\<rparr>)" by (simp add: quiet_vda_def)
  with step_clock quiet_log_ok [OF assms(1)] show ?thesis by simp
next
  case (step_dispatch publish m v)
  have "emits s s'" unfolding step_dispatch(1) vda_dispatch_fst by (rule send_order_emits [OF order_build_builds step_dispatch(2)])
  then show ?thesis by (rule emits_log_ok [OF assms(1)])
next
  case (step_update publish m v)
  have "emits s s' \<or> quiet_vda s s'" unfolding step_update(1) update_order_fst
    by (cases "map_of (va_orders s) (mi_mission_id m)")
      (simp add: quiet_vda_def, simp add: send_order_emits [OF order_update_builds step_update(2)])
  then show ?thesis using emits_log_ok [OF assms(1)] quiet_log_ok [OF assms(1)] by blast
next
  case (step_capabilities publish v)
  have "emits s s' \<or> quiet_vda s s'" using send_instant_action_emits [OF step_capabilities(2), of s v "''factsheetRequest''" "[]"] unfolding step_capabilities(1) vda_capabilities_def
    by (auto split: prod.split sum.split option.split simp: quiet_vda_def case_prod_beta)
  then show ?thesis using emits_log_ok [OF assms(1)] quiet_log_ok [OF assms(1)] by blast
next
  case (step_cancel publish mid)
  have "emits s s' \<or> quiet_vda s s'" using send_instant_action_emits [OF step_cancel(2)] unfolding step_cancel(1) vda_cancel_def
    by (auto split: option.split simp: quiet_vda_def)
  then show ?thesis using emits_log_ok [OF assms(1)] quiet_log_ok [OF assms(1)] by blast
next
  case (step_stop publish v why)
  have "emits s s'" unfolding step_stop(1) vda_request_stop_def by (rule send_instant_action_emits [OF step_stop(2)])
  then show ?thesis by (rule emits_log_ok [OF assms(1)])
next
  case (step_action publish v a ps)
  have "emits s s'" unfolding step_action(1) by (rule send_instant_action_emits [OF step_action(2)])
  then show ?thesis by (rule emits_log_ok [OF assms(1)])
qed

interpretation vda_log: invariant_system fresh_vda "vda_step env" log_ok for env
proof unfold_locales
  show "log_ok s" if "fresh_vda s" for s
    using that by (auto simp: fresh_vda_def new_vda_adapter_def log_ok_def messages_on_def)
  show "log_ok s'" if "log_ok s" "vda_step env s s'" for s s' using that by (rule vda_step_log_ok)
qed


section \<open>What vehicles can say, and which of them are selected\<close>

definition same_ears :: "'w Vda5050Adapter \<Rightarrow> 'w Vda5050Adapter \<Rightarrow> bool" where
  "same_ears s s' \<longleftrightarrow> va_fleet s' = va_fleet s \<and> va_states s' = va_states s \<and> va_raw s' = va_raw s \<and> va_monotonic s' = va_monotonic s \<and>
     va_connections s' = va_connections s \<and> va_offline_after_s s' = va_offline_after_s s"

lemma publish_on_ears: "same_ears s (fst (publish_on publish v sub msg (keep_builder v b s)))"
  by (auto simp: publish_on_def same_ears_def keep_builder_def split: sum.split prod.split)

lemma keep_builder_ears: "same_ears s (keep_builder v b s)"
  by (simp add: same_ears_def keep_builder_def)

lemma send_order_ears: "same_ears s (fst (send_order publish m v built s))"
proof -
  obtain b r where built: "built = (b, r)" by (metis surj_pair)
  show ?thesis
  proof (cases r)
    case (Inl e)
    then show ?thesis by (simp add: send_order_def built Let_def keep_builder_ears)
  next
    case (Inr order)
    obtain s2 r2 where p: "publish_on publish v ''order'' order (keep_builder v b s) = (s2, r2)" by (metis surj_pair)
    have "same_ears s s2" using publish_on_ears [of s publish v "''order''" order b] by (simp add: p)
    then show ?thesis by (auto simp: send_order_def built Inr p Let_def same_ears_def split: sum.split)
  qed
qed

lemma send_instant_action_ears: "same_ears s (fst (send_instant_action publish s v a ps))"
proof -
  obtain b r where built: "instant_action (va_stamp s) (builder_of s v) a ps ''HARD'' = (b, r)" by (metis surj_pair)
  show ?thesis
  proof (cases r)
    case (Inl e)
    then show ?thesis by (simp add: send_instant_action_def built keep_builder_ears)
  next
    case (Inr msg)
    obtain s2 r2 where p: "publish_on publish v ''instantActions'' msg (keep_builder v b s) = (s2, r2)" by (metis surj_pair)
    have "same_ears s s2" using publish_on_ears [of s publish v "''instantActions''" msg b] by (simp add: p)
    then show ?thesis by (auto simp: send_instant_action_def built Inr p split: sum.split publish_result.split exn.split)
  qed
qed

text \<open>The cached state of a vehicle is what its last state message says.\<close>

definition heard_ok :: "vda_env \<Rightarrow> 'w Vda5050Adapter \<Rightarrow> bool" where
  "heard_ok env s \<longleftrightarrow> (\<forall>v heard st. map_of (va_states s) v = Some (heard, st) \<longrightarrow>
     (\<exists>body. map_of (va_raw s) v = Some body \<and> parse_state env (va_fleet s) None body = Inr st \<and> vs_vehicle_id st = v \<and>
        heard \<le> va_monotonic s))"

lemma ears_heard_ok: "heard_ok env s \<Longrightarrow> same_ears s s' \<Longrightarrow> heard_ok env s'"
  by (simp add: heard_ok_def same_ears_def)

lemma on_message_cases:
  obtains (same) "va_states (fst (on_message env t decoded s)) = va_states s" "va_raw (fst (on_message env t decoded s)) = va_raw s"
  | (state) body st where "decoded = Inr (JObj body)" "parse_state env (va_fleet s) None body = Inr st"
      "va_states (fst (on_message env t decoded s)) = put (vs_vehicle_id st) (va_monotonic s, st) (va_states s)"
      "va_raw (fst (on_message env t decoded s)) = put (vs_vehicle_id st) body (va_raw s)"
proof (cases "\<exists>body st. decoded = Inr (JObj body) \<and> last (py_split CHR ''/'' t) = ''state'' \<and>
    parse_state env (va_fleet s) None body = Inr st \<and> vs_vehicle_id st \<noteq> ''''")
  case True
  then obtain body st where d: "decoded = Inr (JObj body)" "last (py_split CHR ''/'' t) = ''state''"
    "parse_state env (va_fleet s) None body = Inr st" "vs_vehicle_id st \<noteq> ''''" by blast
  then have "on_message env t decoded s = (s\<lparr>va_states := put (vs_vehicle_id st) (va_monotonic s, st) (va_states s),
      va_raw := put (vs_vehicle_id st) body (va_raw s)\<rparr>, Inr ())"
    by (simp add: on_message_def handle_body_def ingest_state_def)
  then show thesis using d state by simp
next
  case False
  have "va_states (fst (on_message env t decoded s)) = va_states s \<and> va_raw (fst (on_message env t decoded s)) = va_raw s"
    using False by (auto simp: on_message_def handle_body_def ingest_state_def Let_def split: sum.splits json.splits prod.splits if_splits)
  then show thesis using same by blast
qed

lemma on_message_frame:
  "va_fleet (fst (on_message env t decoded s)) = va_fleet s" "va_monotonic (fst (on_message env t decoded s)) = va_monotonic s"
  "va_offline_after_s (fst (on_message env t decoded s)) = va_offline_after_s s" "va_orders (fst (on_message env t decoded s)) = va_orders s"
  by (auto simp: on_message_def handle_body_def ingest_state_def Let_def split: sum.splits json.splits prod.splits if_splits)

lemma on_message_heard_ok: "heard_ok env s \<Longrightarrow> heard_ok env (fst (on_message env t decoded s))"
proof (cases rule: on_message_cases [of env t decoded s])
  case same
  then show "heard_ok env s \<Longrightarrow> ?thesis" by (simp add: heard_ok_def on_message_frame)
next
  case (state body st)
  then show "heard_ok env s \<Longrightarrow> ?thesis" by (simp add: heard_ok_def on_message_frame map_of_put)
qed

lemma vda_step_heard_ok:
  assumes "heard_ok env s" and "vda_step env s s'"
  shows "heard_ok env s'"
  using assms(2)
proof cases
  case (step_message t decoded)
  with on_message_heard_ok [OF assms(1)] show ?thesis by simp
next
  case (step_clock now st)
  with assms(1) show ?thesis by (fastforce simp: heard_ok_def)
next
  case (step_dispatch publish m v)
  have "same_ears s s'" unfolding step_dispatch(1) vda_dispatch_fst by (rule send_order_ears)
  then show ?thesis by (rule ears_heard_ok [OF assms(1)])
next
  case (step_update publish m v)
  have "same_ears s s'" unfolding step_update(1) update_order_fst
    by (cases "map_of (va_orders s) (mi_mission_id m)") (simp add: same_ears_def, simp add: send_order_ears)
  then show ?thesis by (rule ears_heard_ok [OF assms(1)])
next
  case (step_capabilities publish v)
  have "same_ears s s'" using send_instant_action_ears [of s publish v "''factsheetRequest''" "[]"]
    unfolding step_capabilities(1) vda_capabilities_def
    by (auto split: prod.split sum.split option.split simp: case_prod_beta same_ears_def)
  then show ?thesis by (rule ears_heard_ok [OF assms(1)])
next
  case (step_cancel publish mid)
  have "same_ears s s'" unfolding step_cancel(1) vda_cancel_def
    by (cases "map_of (va_orders s) mid") (simp add: same_ears_def, simp add: send_instant_action_ears)
  then show ?thesis by (rule ears_heard_ok [OF assms(1)])
next
  case (step_stop publish v why)
  then show ?thesis using ears_heard_ok [OF assms(1) send_instant_action_ears] by (simp add: vda_request_stop_def)
next
  case (step_action publish v a ps)
  then show ?thesis using ears_heard_ok [OF assms(1) send_instant_action_ears] by simp
qed

interpretation vda_ears: invariant_system fresh_vda "vda_step env" "heard_ok env" for env
proof unfold_locales
  show "heard_ok env s" if "fresh_vda s" for s :: "vda_log Vda5050Adapter"
    using that by (auto simp: fresh_vda_def new_vda_adapter_def heard_ok_def)
  show "heard_ok env s'" if "heard_ok env s" "vda_step env s s'" for s s' using that by (rule vda_step_heard_ok)
qed

lemma select_loop_dispatchable:
  "select_loop fs reg t m mb vs best seen = (reg', Some (score, a), seen') \<Longrightarrow>
   best = Some (score, a) \<or> (\<exists>v. (a, v) \<in> set vs \<and> fst (dispatchable fs v mb))"
proof (induction fs reg t m mb vs best seen rule: select_loop.induct)
  case (1 fs reg t m mb best seen)
  then show ?case by simp
next
  case (2 fs reg t m mb addr v rest best seen)
  obtain reg1 ok why where c: "consider_vehicle fs reg t m mb addr v = (reg1, ok, why)" by (metis surj_pair)
  have ok: "ok \<Longrightarrow> fst (dispatchable fs v mb)"
    using c by (cases "dispatchable fs v mb") (auto simp: consider_vehicle_def split: bool.splits)
  show ?case
  proof (cases "wanted m addr v")
    case False
    with 2 show ?thesis by auto
  next
    case True
    from 2(2) [OF _ c [symmetric] refl] 2(3) True c
    have "(if ok \<and> (case best of None \<Rightarrow> True | Some (score, _) \<Rightarrow> fl_less score (vs_battery_ratio v))
        then Some (vs_battery_ratio v, addr) else best) = Some (score, a) \<or> (\<exists>v. (a, v) \<in> set rest \<and> fst (dispatchable fs v mb))"
      by simp
    then show ?thesis using ok by (auto split: if_splits)
  qed
qed

lemma select_vehicle_dispatchable:
  assumes "fr_adapters reg = [(fleet, ad)]" and "select_vehicle fs reg t m mb = (reg', Inr (Some a, seen))"
  shows "\<exists>w vs st. ad_list_vehicles ad (fr_world reg) = (w, Inr vs) \<and> st \<in> set vs \<and> a = address fleet (vs_vehicle_id st) \<and> fst (dispatchable fs st mb)"
proof -
  obtain reg1 vs where l: "list_vehicles reg t (mi_fleet m) = (reg1, Inr vs)"
    using assms(2) by (auto simp: select_vehicle_def split: prod.splits sum.splits)
  obtain reg2 best seen' where loop: "select_loop fs reg1 t m mb vs None [] = (reg2, best, seen')" by (metis surj_pair)
  then obtain score where "best = Some (score, a)" using assms(2) l by (auto simp: select_vehicle_def)
  then obtain st where st: "(a, st) \<in> set vs" "fst (dispatchable fs st mb)" using select_loop_dispatchable loop by fastforce
  define names where "names = (case mi_fleet m of Some f \<Rightarrow> if f \<noteq> '''' then [f] else fleets reg | None \<Rightarrow> fleets reg)"
  have "\<exists>name. names = [name]" using assms(1) by (auto simp: names_def fleets_def split: option.split)
  then obtain name where names: "names = [name]" by blast
  have le: "list_each reg t [name] = (reg1, Inr vs)" using l by (simp add: list_vehicles_def names_def [symmetric] names)
  then have "adapter_of reg name = Inr ad \<and> name = fleet"
    using assms(1) by (auto simp: adapter_of_def split: if_splits sum.splits)
  with le st show ?thesis
    by (auto simp: guarded_def split: prod.splits sum.splits exn.splits)
qed

text \<open>What a dispatchable vehicle's last state message says.\<close>

definition fit_report :: "py_parse \<Rightarrow> (string \<times> json) list \<Rightarrow> bool" where
  "fit_report fs body \<longleftrightarrow>
     operating_mode_of (py_upper (text_at fs body ''operatingMode'' ''AUTOMATIC'')) = AUTOMATIC \<and>
     (case sub_object body ''safetyState'' of
        Inl _ \<Rightarrow> False
      | Inr safety \<Rightarrow> py_upper (text_at fs safety ''eStop'' ''NONE'') = ''NONE'' \<and> \<not> flag_at safety ''fieldViolation'') \<and>
     (flag_at body ''orderId'' \<longrightarrow> to_str fs (get_or_null body ''orderId'') = '''')"

lemma parse_state_fit:
  assumes "parse_state env fleet expected body = Inr st" and "st' = st \<or> st' = st\<lparr>vs_online := False\<rparr>" and "fst (dispatchable fs st' mb)"
  shows "st' = st \<and> fit_report (ve_parse env) body"
proof -
  have on: "vs_online st'" "accepts_missions (vs_operating_mode st')" "\<not> vs_safety_estop_active st'" "\<not> vs_protective_field_violated st'"
    "(case vs_current_mission_id st' of None \<Rightarrow> False | Some m \<Rightarrow> m \<noteq> '''') = False"
    using assms(3) by (auto simp: dispatchable_def split: if_splits)
  then have eq: "st' = st" using assms(2) by auto
  then show ?thesis using on assms(1)
    by (auto simp: parse_state_def Let_def bind_result_Inr_iff fit_report_def accepts_missions_def split: if_splits)
qed


lemma parse_state_serial:
  "parse_state env fleet None body = Inr st \<Longrightarrow> vs_vehicle_id st = text_at (ve_parse env) body ''serialNumber'' ''''"
  by (auto simp: parse_state_def Let_def bind_result_Inr_iff)

lemma handle_body_cases:
  "(\<exists>e. handle_body env t (JObj body) s = (s, Inl e)) \<or> handle_body env t (JObj body) s = (s, Inr ()) \<or>
   (\<exists>st. handle_body env t (JObj body) s =
      (s\<lparr>va_states := put (text_at (ve_parse env) body ''serialNumber'' '''') (va_monotonic s, st) (va_states s),
         va_raw := put (text_at (ve_parse env) body ''serialNumber'' '''') body (va_raw s)\<rparr>, Inr ())) \<or>
   (\<exists>c. handle_body env t (JObj body) s =
      (s\<lparr>va_capabilities := put (text_at (ve_parse env) body ''serialNumber'' '''') c (va_capabilities s)\<rparr>, Inr ())) \<or>
   (\<exists>k. handle_body env t (JObj body) s =
      (s\<lparr>va_connections := put (text_at (ve_parse env) body ''serialNumber'' '''') k (va_connections s)\<rparr>, Inr ()))"
    (is "?failed \<or> ?nothing \<or> ?state \<or> ?sheet \<or> ?connection")
proof -
  define subject where "subject = last (py_split CHR ''/'' t)"
  define serial where "serial = text_at (ve_parse env) body ''serialNumber'' ''''"
  have h: "handle_body env t (JObj body) s =
      (if subject = ''state'' then ingest_state env body s
       else if subject = ''factsheet'' \<and> serial \<noteq> ''''
       then (case parse_factsheet env body of
               Inl e \<Rightarrow> (s, Inl e) | Inr c \<Rightarrow> (s\<lparr>va_capabilities := put serial c (va_capabilities s)\<rparr>, Inr ()))
       else if subject = ''connection'' \<and> serial \<noteq> ''''
       then (s\<lparr>va_connections := put serial (py_upper (text_at (ve_parse env) body ''connectionState'' ''OFFLINE'')) (va_connections s)\<rparr>, Inr ())
       else (s, Inr ()))"
    unfolding handle_body_def json.case Let_def subject_def serial_def by (rule refl)
  consider (state) "subject = ''state''" | (sheet) "subject \<noteq> ''state''" "subject = ''factsheet'' \<and> serial \<noteq> ''''"
    | (connection) "subject \<noteq> ''state''" "\<not> (subject = ''factsheet'' \<and> serial \<noteq> '''')" "subject = ''connection'' \<and> serial \<noteq> ''''"
    | (other) "subject \<noteq> ''state''" "\<not> (subject = ''factsheet'' \<and> serial \<noteq> '''')" "\<not> (subject = ''connection'' \<and> serial \<noteq> '''')" by argo
  then show ?thesis
  proof cases
    case state
    then have h': "handle_body env t (JObj body) s = ingest_state env body s" unfolding h by (rule if_P)
    show ?thesis
    proof (cases "parse_state env (va_fleet s) None body")
      case (Inl e)
      then have ?failed by (simp add: h' ingest_state_def)
      then show ?thesis ..
    next
      case (Inr st)
      show ?thesis
      proof (cases "vs_vehicle_id st = ''''")
        case True
        then have ?nothing by (simp add: h' ingest_state_def Inr)
        then show ?thesis by argo
      next
        case False
        then have ?state unfolding parse_state_serial [OF Inr, symmetric]
          by (intro exI [of _ st]) (simp add: h' ingest_state_def Inr)
        then show ?thesis by argo
      qed
    qed
  next
    case sheet
    have h': "handle_body env t (JObj body) s = (case parse_factsheet env body of
        Inl e \<Rightarrow> (s, Inl e) | Inr c \<Rightarrow> (s\<lparr>va_capabilities := put serial c (va_capabilities s)\<rparr>, Inr ()))"
      unfolding h if_not_P [OF sheet(1)] if_P [OF sheet(2)] by (rule refl)
    show ?thesis
    proof (cases "parse_factsheet env body")
      case (Inl e)
      then have ?failed by (simp add: h')
      then show ?thesis ..
    next
      case (Inr c)
      then have ?sheet unfolding serial_def [symmetric] by (intro exI [of _ c]) (simp add: h')
      then show ?thesis by argo
    qed
  next
    case connection
    have "?connection" unfolding h serial_def [symmetric] if_not_P [OF connection(1)] if_not_P [OF connection(2)] if_P [OF connection(3)]
      by (rule exI, rule refl)
    then show ?thesis by argo
  next
    case other
    have "?nothing" unfolding h if_not_P [OF other(1)] if_not_P [OF other(2)] if_not_P [OF other(3)] by (rule refl)
    then show ?thesis by argo
  qed
qed

text \<open>
  A received message touches what is known of one vehicle at most, the one its body names, and a message that is refused
  changes nothing. The orders, the builders and the transport are never touched by what vehicles say.
\<close>

theorem message_is_contained:
  "case on_message env t decoded s of (s', r) \<Rightarrow>
     quiet_vda s s' \<and> va_orders s' = va_orders s \<and> va_monotonic s' = va_monotonic s \<and> (s' = s \<or>
       (\<exists>body. decoded = Inr (JObj body) \<and> r = Inr () \<and>
          (\<forall>v. v \<noteq> text_at (ve_parse env) body ''serialNumber'' '''' \<longrightarrow>
             map_of (va_states s') v = map_of (va_states s) v \<and> map_of (va_raw s') v = map_of (va_raw s) v \<and>
             map_of (va_capabilities s') v = map_of (va_capabilities s) v \<and> map_of (va_connections s') v = map_of (va_connections s) v)))"
proof -
  obtain s' r where m: "on_message env t decoded s = (s', r)" by (metis surj_pair)
  have q: "quiet_vda s s'" "va_orders s' = va_orders s" "va_monotonic s' = va_monotonic s"
    using on_message_quiet [of s env t decoded] on_message_frame [of env t decoded s] by (simp_all add: m)
  show ?thesis
  proof (cases decoded)
    case (Inl e)
    with m q show ?thesis by (auto simp: on_message_def split: if_splits)
  next
    case (Inr j)
    show ?thesis
    proof (cases "\<exists>body. j = JObj body")
      case False
      then have "handle_body env t j s = (s, Inr ())" by (cases j) (simp_all add: handle_body_def)
      then have "s' = s" "r = Inr ()" using m by (simp_all add: on_message_def Inr)
      with m q show ?thesis by simp
    next
      case True
      then obtain body where j: "j = JObj body" by blast
      let ?serial = "text_at (ve_parse env) body ''serialNumber'' ''''"
      note hb = handle_body_cases [of env t body s]
      show ?thesis
      proof (cases "snd (handle_body env t (JObj body) s)")
        case (Inl e)
        then have "handle_body env t (JObj body) s = (s, Inl e)" using hb by auto
        then have "s' = s" using m by (auto simp: on_message_def Inr j split: if_splits)
        with m q show ?thesis by simp
      next
        case (Inr u)
        then have m': "s' = fst (handle_body env t (JObj body) s)" "r = Inr ()"
          using m by (auto simp: on_message_def \<open>decoded = Inr j\<close> j split: prod.splits sum.splits)
        have "s' = s \<or> (\<forall>v. v \<noteq> ?serial \<longrightarrow>
             map_of (va_states s') v = map_of (va_states s) v \<and> map_of (va_raw s') v = map_of (va_raw s) v \<and>
             map_of (va_capabilities s') v = map_of (va_capabilities s) v \<and> map_of (va_connections s') v = map_of (va_connections s) v)"
          using hb unfolding m'(1) by (elim disjE exE) (simp_all add: map_of_put)
        with m m'(2) q \<open>decoded = Inr j\<close> j show ?thesis by auto
      qed
    qed
  qed
qed

section \<open>What goes wrong\<close>

text \<open>
  A mission reads as completed as soon as it is dispatched, until the vehicle sends its next state message: the last message
  does not name the new order, and an order that is not named counts as finished. A selected vehicle has always sent a
  message, and that message names no order at all.
\<close>

lemma send_order_stored:
  assumes "send_order publish m v built s = (s', Inr order)"
  shows "map_of (va_orders s') (mi_mission_id m) = Some order \<and> snd built = Inr order \<and> same_ears s s'"
proof -
  obtain b r where built: "built = (b, r)" by (metis surj_pair)
  obtain o2 where r: "r = Inr o2" using assms by (cases r) (auto simp: send_order_def built Let_def)
  obtain s2 r2 where p: "publish_on publish v ''order'' o2 (keep_builder v b s) = (s2, r2)" by (metis surj_pair)
  have "same_ears s s'" using send_order_ears [of s publish m v built] assms by simp
  moreover have "s' = s2\<lparr>va_orders := put (mi_mission_id m) o2 (va_orders s2)\<rparr> \<and> o2 = order"
    using assms by (auto simp: send_order_def built r p Let_def split: sum.splits)
  ultimately show ?thesis by (auto simp: map_of_put built r)
qed

lemma vda_dispatch_stored:
  assumes "vda_dispatch fs publish s m v = (s', Inr r)" and "bd_serial_number (builder_of s v) = v"
  shows "\<exists>order. map_of (va_orders s') (mi_mission_id m) = Some order \<and> get_or_null order ''serialNumber'' = JStr v \<and> same_ears s s'"
proof -
  let ?built = "order_build fs (va_stamp s) (builder_of s v) m 0 (get_or_null (mi_constraints m) ''base_nodes'')"
  obtain order where so: "send_order publish m v ?built s = (s', Inr order)"
    using assms(1) by (auto simp: vda_dispatch_def split: prod.splits sum.splits)
  from send_order_stored [OF so] have st: "map_of (va_orders s') (mi_mission_id m) = Some order" "same_ears s s'"
    and "?built = (fst ?built, Inr order)" by (auto simp: prod_eq_iff)
  from order_fields [OF this(3)] assms(2) have "get_or_null order ''serialNumber'' = JStr v" by auto
  with st show ?thesis by blast
qed

lemma mission_completed_before_it_starts:
  assumes "reachable fresh_vda (vda_step env) s" and "vda_dispatch (ve_parse env) publish s m v = (s', Inr r)"
    and "map_of (va_raw s) v = Some body" and "text_at (ve_parse env) body ''orderId'' '''' \<noteq> mi_mission_id m"
  shows "vda_mission_state (ve_parse env) s' (mi_mission_id m) = (s', Inr MS_COMPLETED)"
proof -
  have "log_ok s" using assms(1) by (rule vda_log.reachable_inv)
  from serial_of_builder [OF this] obtain order where o: "map_of (va_orders s') (mi_mission_id m) = Some order"
    "get_or_null order ''serialNumber'' = JStr v" "same_ears s s'" using vda_dispatch_stored [OF assms(2)] by blast
  then have "map_of (va_raw s') v = Some body" using assms(3) by (simp add: same_ears_def)
  with o assms(4) show ?thesis by (simp add: vda_mission_state_def mission_state_from_def)
qed

text \<open>
  Cancelling a mission sends \<^verbatim>\<open>cancelOrder\<close> to the vehicle that was given it, whichever order that vehicle runs by now: the
  instant action names no order.
\<close>

lemma cancel_ignores_current_order:
  assumes "map_of (va_orders s) mid = Some order" and "get_or_null order ''serialNumber'' = JStr v"
    and "map_of (va_raw s) v = Some body" and "text_at fs body ''orderId'' '''' \<noteq> mid"
  shows "vda_cancel fs publish s mid = send_instant_action publish s v ''cancelOrder'' []"
  using assms by (simp add: vda_cancel_def)

text \<open>A battery charge that is not a number reads as a full battery, and an emergency stop that is \<^verbatim>\<open>null\<close> reads as none.\<close>

lemma nan_battery_reads_full: "battery_of (JFloat NaN) = Fin 1"
  by (simp add: battery_of_def py_max_def py_min_def)

lemma null_estop_reads_none:
  "parse_state env fleet None [(''serialNumber'', JStr ''A1''), (''safetyState'', JObj [(''eStop'', JNull)])] = Inr st \<Longrightarrow> \<not> vs_safety_estop_active st"
proof -
  have u: "py_upper ''None'' = ''NONE''" by code_simp
  assume "parse_state env fleet None [(''serialNumber'', JStr ''A1''), (''safetyState'', JObj [(''eStop'', JNull)])] = Inr st"
  then show ?thesis by (auto simp: parse_state_def Let_def bind_result_Inr_iff sub_object_def get_or_null_def text_at_def u)
qed

text \<open>A message whose \<^verbatim>\<open>safetyState\<close> is a list raises, although malformed messages are promised never to.\<close>

lemma malformed_state_raises:
  "snd (on_message env ''uagv/v2/m/A1/state'' (Inr (JObj [(''safetyState'', JList [JNull])])) s) = Inl OtherException"
proof -
  have l: "last (py_split CHR ''/'' ''uagv/v2/m/A1/state'') = ''state''" by code_simp
  show ?thesis
    by (simp add: on_message_def handle_body_def l ingest_state_def parse_state_def sub_object_def objects_in_def reported_pose_def flag_at_def
      component_of_def get_or_null_def Let_def)
qed

text \<open>So a reconciliation that runs before that message closes the mission and gives up its reservation, with the vehicle on its way.\<close>

lemma completed_closes_mission:
  assumes "life (ms_work s) mid RUNNING ''assigned''" and "wi_work_id row = mission_work_id mid" and "record_fleet row = Some fleet"
    and "registry_mission_state (ms_registry s) (ck_stamp ck) fleet mid = (reg, Inr MS_COMPLETED)"
  shows "life (ms_work (fst (reconcile_one ck s su (st, row)))) mid SUCCEEDED ''completed''"
proof -
  have low: "py_lower ''COMPLETED'' = ''completed''" by code_simp
  let ?result = "Some (JObj [(''reconciled'', JBool True)])"
  obtain db' where f: "mission_finish (ms_audit s) (ms_work s) mid ''COMPLETED'' ?result None (ck_stamp ck) = Inr (db', True)"
    and l: "life db' mid SUCCEEDED ''completed''"
    unfolding mission_finish_def
    by (rule life_transition [OF assms(1), of "''COMPLETED''" SUCCEEDED ACTIVE_MISSION_STATES
        "no_columns\<lparr>mc_result := SetTo ?result, mc_error := Unset,
           mc_expected_phases := SetTo (map (\<lambda>s. Some (py_lower s)) ACTIVE_MISSION_STATES @ [Some ''dispatching''])\<rparr>" "ms_audit s" "ck_stamp ck"])
      (auto simp: life_simps low)
  have mid: "(if take 8 (wi_work_id row) = ''mission:'' then drop 8 (wi_work_id row) else wi_work_id row) = mid"
    by (simp add: assms(2) mission_work_id_def)
  have "reconcile_one ck s su (st, row) =
      (release_reservation (s\<lparr>ms_registry := reg, ms_work := db'\<rparr>) (ck_ms ck 0) mid,
       su\<lparr>su_checked := su_checked su + 1, su_updated := su_updated su + 1, su_released := su_released su + 1\<rparr>)"
    using assms(3,4) f by (simp add: reconcile_one_def Let_def mid terminal_state_def)
  with l show ?thesis by simp
qed

lemma unstarted_mission_recorded_completed:
  assumes "reachable fresh_vda (vda_step env) v0" and "vda_dispatch (ve_parse env) publish v0 m v = (v1, Inr r)"
    and "map_of (va_raw v0) v = Some body" and "text_at (ve_parse env) body ''orderId'' '''' \<noteq> mi_mission_id m"
    and "fr_adapters (ms_registry s) = [(fleet, vda_adapter (ve_parse env) publish)]" and "fr_world (ms_registry s) = v1"
    and "life (ms_work s) (mi_mission_id m) RUNNING ''assigned''"
    and "wi_work_id row = mission_work_id (mi_mission_id m)" and "record_fleet row = Some fleet"
  shows "life (ms_work (fst (reconcile_one ck s su (st, row)))) (mi_mission_id m) SUCCEEDED ''completed''"
proof -
  have "vda_mission_state (ve_parse env) v1 (mi_mission_id m) = (v1, Inr MS_COMPLETED)"
    by (rule mission_completed_before_it_starts [OF assms(1-4)])
  then obtain reg where "registry_mission_state (ms_registry s) (ck_stamp ck) fleet (mi_mission_id m) = (reg, Inr MS_COMPLETED)"
    using assms(5,6) by (auto simp: registry_mission_state_def guarded_def on_adapter_def adapter_of_def vda_adapter_def)
  from completed_closes_mission [OF assms(7-9) this] show ?thesis .
qed

section \<open>A vehicle, end to end\<close>

definition demo_env :: vda_env where
  "demo_env = \<lparr>ve_parse = demo_std, ve_speed = (\<lambda>x y. x), ve_special = (\<lambda>_. 0)\<rparr>"

definition demo_transport :: "vda_log transport" where
  "demo_transport = (\<lambda>t msg w. (w @ [(t, msg)], Published))"

definition demo_step :: "string \<Rightarrow> MissionStep" where
  "demo_step node = \<lparr>st_step_id = ''s'', st_kind = MOVE, st_node_id = Some node, st_pose = None, st_parameters = [],
     st_timeout_s = 300, st_blocking = True\<rparr>"

definition demo_tour :: "string \<Rightarrow> Mission" where
  "demo_tour mid = \<lparr>mi_mission_id = mid, mi_requested_by = ''peer'', mi_steps = [demo_step ''dock'', demo_step ''shelf''], mi_priority = 0,
     mi_fleet = None, mi_vehicle_id = None, mi_deadline_at = None, mi_constraints = [(''base_nodes'', JInt 1)], mi_created_at = ''now''\<rparr>"

definition demo_report :: "(string \<times> json) list" where
  "demo_report = [(''serialNumber'', JStr ''A1''), (''batteryState'', JObj [(''batteryCharge'', JInt 80)])]"

definition demo_heard :: "vda_log Vda5050Adapter" where
  "demo_heard = fst (on_message demo_env ''uagv/v2/acme/A1/state'' (Inr (JObj demo_report)) (new_vda_adapter ''v'' ''acme'' 15 []))"

definition demo_sent_one :: "vda_log Vda5050Adapter" where
  "demo_sent_one = fst (vda_dispatch demo_std demo_transport demo_heard (demo_tour ''m1'') ''A1'')"

definition demo_sent_two :: "vda_log Vda5050Adapter" where
  "demo_sent_two = fst (vda_dispatch demo_std demo_transport demo_sent_one (demo_tour ''m2'') ''A1'')"

lemma demo_heard_reachable: "reachable fresh_vda (vda_step demo_env) demo_heard"
  unfolding demo_heard_def
  by (rule reachable_step, rule reachable_init, unfold fresh_vda_def, rule exI, rule exI, rule exI, rule refl, rule step_message)

lemma demo_keeps_log: "keeps_log demo_transport"
  by (simp add: keeps_log_def demo_transport_def)

lemma demo_sent_reachable_vda: "reachable fresh_vda (vda_step demo_env) demo_sent_two"
proof -
  have p: "ve_parse demo_env = demo_std" by (simp add: demo_env_def)
  have "reachable fresh_vda (vda_step demo_env) demo_sent_one" unfolding demo_sent_one_def
    by (rule reachable_step [OF demo_heard_reachable]) (rule step_dispatch [OF demo_keeps_log, of demo_env, unfolded p])
  from reachable_step [OF this step_dispatch [OF demo_keeps_log, of demo_env, unfolded p]] show ?thesis unfolding demo_sent_two_def .
qed

lemma demo_vda_facts:
  "vda_topic (va_manufacturer demo_sent_two) ''A1'' ''order'' = Inr ''uagv/v2/acme/A1/order''"
  "map header_number (messages_on ''uagv/v2/acme/A1/order'' (va_world demo_sent_two)) = [1, 2]"
  by code_simp+


definition demo_builder :: OrderBuilder where
  "demo_builder = \<lparr>bd_manufacturer = ''acme'', bd_serial_number = ''A1'', bd_sequence = []\<rparr>"

definition demo_order :: "(string \<times> json) list" where
  "demo_order = projr (snd (order_build demo_std ''now'' demo_builder (demo_tour ''m1'') 0 (JInt 1)))"

lemma demo_order_built: "order_build demo_std ''now'' demo_builder (demo_tour ''m1'') 0 (JInt 1) =
    (fst (order_build demo_std ''now'' demo_builder (demo_tour ''m1'') 0 (JInt 1)), Inr demo_order)"
proof -
  have "is_ok (snd (order_build demo_std ''now'' demo_builder (demo_tour ''m1'') 0 (JInt 1)))" by code_simp
  then obtain x where "snd (order_build demo_std ''now'' demo_builder (demo_tour ''m1'') 0 (JInt 1)) = Inr x" by (auto simp: is_ok_iff)
  then show ?thesis by (simp add: demo_order_def prod_eq_iff)
qed

lemma demo_order_sizes: "length (objects_at demo_order ''nodes'') = 2" "length (objects_at demo_order ''edges'') = 1"
  by code_simp+

theorem order_well_formed_witness:
  "map (\<lambda>n. get_or_null n ''sequenceId'') (objects_at demo_order ''nodes'') = [JInt 0, JInt 2] \<and>
   map (\<lambda>e. get_or_null e ''sequenceId'') (objects_at demo_order ''edges'') = [JInt 1]"
proof -
  have two: "[0..<2] = [0, Suc 0]" "[0..<Suc 0] = [0]" by (simp_all add: upt_rec)
  obtain n0 n1 where n: "objects_at demo_order ''nodes'' = [n0, n1]"
    using demo_order_sizes(1) by (auto simp: length_Suc_conv numeral_2_eq_2)
  obtain e0 where e: "objects_at demo_order ''edges'' = [e0]" using demo_order_sizes(2) by (auto simp: length_Suc_conv)
  from order_well_formed [OF demo_order_built] n e show ?thesis by (auto simp: two Let_def numeral_2_eq_2)
qed

definition demo_vda_registry :: "vda_log Vda5050Adapter FleetRegistry" where
  "demo_vda_registry = \<lparr>fr_adapters = [(''v'', vda_adapter demo_std demo_transport)], fr_health = [], fr_world = demo_heard\<rparr>"

definition demo_selected :: "string option" where
  "demo_selected = fst (projr (snd (select_vehicle demo_std demo_vda_registry 0 (demo_tour ''m1'') (Fin (3 / 20)))))"

lemma demo_selected_ok:
  "is_ok (snd (select_vehicle demo_std demo_vda_registry 0 (demo_tour ''m1'') (Fin (3 / 20))))" "demo_selected = Some ''v:A1''"
  by code_simp+


end
