(* ===== verification/Spec2Isabelle.thy ===== *)
theory Spec2Isabelle
  imports Layers Trust Outbox Rate_Limit Realtime Mission_Dispatch Intent_Safety Ingress Stream_Safety Stream_Handlers Channels Pairing Reference_Case Vda5050_Safety
begin

text \<open>
  A verification of the FASP harness, the Python package \<^verbatim>\<open>src/fasp_harness\<close>: a node that lets robots and agents of
  different owners exchange signed requests, tasks, streams and missions without giving each other control of a safety layer.

  \<^bold>\<open>How the program hangs together.\<close> An envelope arrives at \<^verbatim>\<open>FaspHarness.accept\<close> (\<^verbatim>\<open>core.py\<close>), is checked for
  shape, audience, lifetime, pairing, signature and rate, is recorded once in the inbox and handed to the handler of its kind. The
  intent handler proposes a task in the work table, checks scope, capability, layer, risk and grant, starts the task and calls the
  robot's adapter; stream handlers open contracts, take packets and push them to subscribers; reservation and mission handlers reach the
  coordinator's tables and the vendors' fleet adapters. All state that must survive a crash is in SQLite tables behind the
  repositories of \<^verbatim>\<open>storage/\<close>; one write transaction is one atomic step of the models.

  \<^bold>\<open>Theories and what they model.\<close>

  \<^item> \<open>Prelude\<close>: errors as a sum type, Python's numbers and rounding, tables as lists of rows, reachable states and the locale of
    inductive invariants, programs as sequences of atomic actions with their interleavings (\<open>prog\<close>, \<open>trace\<close>, \<open>pool_step\<close>).
  \<^item> \<open>Json_Text\<close>, \<open>Timestamps\<close>, \<open>Contracts\<close>, \<open>Signing\<close>: JSON values and their texts, \<^verbatim>\<open>timestamps.py\<close> with the calendar,
    \<^verbatim>\<open>protocol/contracts.py\<close> and \<^verbatim>\<open>crypto/envelope.py\<close>.
  \<^item> \<open>Layers\<close>, \<open>Policy\<close>, \<open>Rate_Limit\<close>: \<^verbatim>\<open>layers.py\<close>, \<^verbatim>\<open>policy/capabilities.py\<close>, \<^verbatim>\<open>policy/ratelimit.py\<close>.
  \<^item> \<open>Audit_Chain\<close>, \<open>Trust\<close>: the hash chain, peers, revocations and grants with \<^verbatim>\<open>policy/grants.py\<close>.
  \<^item> \<open>Work_Items\<close>, \<open>Artifacts\<close>, \<open>Programs\<close>, \<open>Intents\<close>, \<open>Intent_Safety\<close>: the work table with its task and mission views, the artifact
    store, and the intent, cancel, status, fetch, reconcile and recovery operations of \<^verbatim>\<open>core.py\<close> as interleaved programs.
  \<^item> \<open>Pairing\<close>: \<^verbatim>\<open>crypto/identity.py\<close> and the ID card, hello, confirmation, revocation and envelope making of \<^verbatim>\<open>core.py\<close>.
  \<^item> \<open>Ingress\<close>: \<^verbatim>\<open>_verify_envelope\<close> and \<^verbatim>\<open>accept\<close> with the durable inbox and the volatile replay window.
  \<^item> \<open>Sharing\<close>, \<open>Packets\<close>, \<open>Streams\<close>, \<open>Stream_Safety\<close>, \<open>Stream_Handlers\<close>, \<open>Channels\<close>: \<^verbatim>\<open>policy/sharing.py\<close>, \<^verbatim>\<open>streaming.py\<close>,
    \<^verbatim>\<open>storage/streams_repo.py\<close>, the stream handlers of \<^verbatim>\<open>core.py\<close> and \<^verbatim>\<open>channels.py\<close>.
  \<^item> \<open>Lease\<close>, \<open>Outbox\<close>: leader election with fencing and store-and-forward of \<^verbatim>\<open>edge/\<close>.
  \<^item> \<open>Modbus\<close>, \<open>Safety\<close>, \<open>Realtime\<close>: the Modbus codec, client and server, the safety drivers and the interlock, the cyclic
    executor and the watchdogs.
  \<^item> \<open>Reservations\<close>, \<open>Fleet\<close>, \<open>Simulated_Fleet\<close>, \<open>Mission_Service\<close>, \<open>Mission_Dispatch\<close>: \<^verbatim>\<open>robotics.py\<close>, the reservation table, the fleet
    vocabulary and registry, and the mission service.
  \<^item> \<open>Mesh\<close>, \<open>Mesh_Safety\<close>: \<^verbatim>\<open>resilience/mesh.py\<close> and \<^verbatim>\<open>resilience/faults.py\<close>, relaying nodes on the simulated network that loses,
    duplicates, delays and cuts, with the partition scenario.
  \<^item> \<open>Vda5050\<close>, \<open>Vda5050_Safety\<close>: \<^verbatim>\<open>fleet/vda5050.py\<close>, the adapter for vehicles of that interface: orders, header numbers, state
    messages, the selection of its vehicles, and a mission that reads as completed before it starts.
  \<^item> \<open>Safety_Case\<close>, \<open>Reference_Case\<close>: \<^verbatim>\<open>safety/case.py\<close> and \<^verbatim>\<open>safety/reference_case.py\<close>, the executable argument and its evidence, run
    on the models of the layer guard, the interlock, the watchdog, the lease, the mesh and the audit chain.

  \<^bold>\<open>Bounds and time.\<close> Loops run over finite tables or a bounded number of cycles. Where a bound appears it is proved to be enough: the
  cyclic executor returns within its cycles, the evaluation of a safety case needs at most one level per claim, the delivery of due
  frames ends because every relayed copy uses up a hop, and the loop of virtual time, which may run for ever on a tick that is not
  positive, is a partial function proved to return on a positive one. Clocks are inputs, in milliseconds or microseconds since the epoch, and no theorem assumes that they move forward unless it
  says so. Python floats that carry a policy limit are exact rationals with the infinities and NaN (\<open>pyfloat\<close>).

  \<^bold>\<open>Not modelled.\<close> Sockets, HTTP, ASGI and MQTT, the command line, files and processes; SQLite, Ed25519, SHA-256, the RFC 8785 serializer
  and the JSON scanner are parameters with the documented laws the theorems name; floating-point geometry (\<^verbatim>\<open>spatial/\<close>,
  \<^verbatim>\<open>twin/\<close>) and vendor protocols (\<^verbatim>\<open>industrial/opcua.py\<close>, \<^verbatim>\<open>fleet/rest.py\<close>) are left out.
\<close>

end
